(* ===== verification/Prelude.thy ===== *)
theory Prelude
  imports Complex_Main "HOL-Library.Word"
begin

text \<open>
  Shared vocabulary of the development: the machine integers the code computes with (32-bit
  signed coordinates as \<open>int\<close> with wrap-around and saturation written out, unsigned counters as
  words), the comparison of floating point values that are only compared and never computed
  with, and the generic facts on lists and sets used by several components.
\<close>

named_theorems range_simps \<open>how the checked, wrapping and saturating operations act in range\<close>
named_theorems wf_intros \<open>introduction rules for well-formedness of model values\<close>

section \<open>Signed 32-bit integers\<close>

type_synonym i32 = int

abbreviation I32_MIN :: int where "I32_MIN \<equiv> -2147483648"
abbreviation I32_MAX :: int where "I32_MAX \<equiv> 2147483647"

definition in_i32 :: "int \<Rightarrow> bool" where
  "in_i32 x \<longleftrightarrow> I32_MIN \<le> x \<and> x \<le> I32_MAX"

text \<open>Two's complement reduction: the value of a raw \<open>+\<close>, \<open>-\<close> or \<open>*\<close> in a release build.\<close>

definition wrap32 :: "int \<Rightarrow> int" where
  "wrap32 x = (x + 2147483648) mod 4294967296 - 2147483648"

text \<open>Saturation at the numeric bounds.\<close>

definition sat32 :: "int \<Rightarrow> int" where
  "sat32 x = (if x < I32_MIN then I32_MIN else if I32_MAX < x then I32_MAX else x)"

definition i32_add :: "i32 \<Rightarrow> i32 \<Rightarrow> i32" where "i32_add a b = wrap32 (a + b)"
definition i32_sub :: "i32 \<Rightarrow> i32 \<Rightarrow> i32" where "i32_sub a b = wrap32 (a - b)"
definition i32_mul :: "i32 \<Rightarrow> i32 \<Rightarrow> i32" where "i32_mul a b = wrap32 (a * b)"

definition sat_add :: "i32 \<Rightarrow> i32 \<Rightarrow> i32" where "sat_add a b = sat32 (a + b)"
definition sat_sub :: "i32 \<Rightarrow> i32 \<Rightarrow> i32" where "sat_sub a b = sat32 (a - b)"
definition sat_mul :: "i32 \<Rightarrow> i32 \<Rightarrow> i32" where "sat_mul a b = sat32 (a * b)"

text \<open>
  Division truncates towards zero. Dividing by zero, or the minimum by \<open>-1\<close>, panics in every
  build profile, which is the value \<open>None\<close>.
\<close>

definition trunc_div :: "int \<Rightarrow> int \<Rightarrow> int" where
  "trunc_div a b = sgn a * sgn b * (\<bar>a\<bar> div \<bar>b\<bar>)"

definition i32_div :: "i32 \<Rightarrow> i32 \<Rightarrow> i32 option" where
  "i32_div a b = (if b = 0 \<or> (a = I32_MIN \<and> b = -1) then None else Some (trunc_div a b))"

lemma in_i32_iff: "in_i32 x \<longleftrightarrow> -2147483648 \<le> x \<and> x \<le> 2147483647"
  by (simp add: in_i32_def)

lemma wrap32_id [range_simps]: "in_i32 x \<Longrightarrow> wrap32 x = x"
  by (simp add: wrap32_def in_i32_def)

lemma sat32_id [range_simps]: "in_i32 x \<Longrightarrow> sat32 x = x"
  by (simp add: sat32_def in_i32_def)

lemma in_i32_wrap32 [simp, intro, wf_intros]: "in_i32 (wrap32 x)"
proof -
  have "0 \<le> (x + 2147483648) mod 4294967296" and "(x + 2147483648) mod 4294967296 < 4294967296"
    by simp_all
  then show ?thesis by (simp add: wrap32_def in_i32_def)
qed

lemma in_i32_sat32 [simp, intro, wf_intros]: "in_i32 (sat32 x)"
  by (simp add: sat32_def in_i32_def)

lemma in_i32_ops [simp, intro, wf_intros]:
  "in_i32 (i32_add a b)" "in_i32 (i32_sub a b)" "in_i32 (i32_mul a b)"
  "in_i32 (sat_add a b)" "in_i32 (sat_sub a b)" "in_i32 (sat_mul a b)"
  by (simp_all add: i32_add_def i32_sub_def i32_mul_def sat_add_def sat_sub_def sat_mul_def)

lemma in_i32_zero [simp]: "in_i32 0" "in_i32 1"
  by (simp_all add: in_i32_def)

lemma in_i32_min_max [simp]: "in_i32 a \<Longrightarrow> in_i32 b \<Longrightarrow> in_i32 (min a b)"
  "in_i32 a \<Longrightarrow> in_i32 b \<Longrightarrow> in_i32 (max a b)"
  by (simp_all add: min_def max_def)

lemma i32_ops_in_range [range_simps]:
  "in_i32 (a + b) \<Longrightarrow> i32_add a b = a + b"
  "in_i32 (a - b) \<Longrightarrow> i32_sub a b = a - b"
  "in_i32 (a * b) \<Longrightarrow> i32_mul a b = a * b"
  "in_i32 (a + b) \<Longrightarrow> sat_add a b = a + b"
  "in_i32 (a - b) \<Longrightarrow> sat_sub a b = a - b"
  "in_i32 (a * b) \<Longrightarrow> sat_mul a b = a * b"
  by (simp_all add: i32_add_def i32_sub_def i32_mul_def sat_add_def sat_sub_def sat_mul_def
      wrap32_id sat32_id)

lemma sat32_mono: "x \<le> y \<Longrightarrow> sat32 x \<le> sat32 y"
  by (simp add: sat32_def)

lemma sat_add_ge: "in_i32 a \<Longrightarrow> 0 \<le> b \<Longrightarrow> a \<le> sat_add a b"
  by (simp add: sat_add_def sat32_def in_i32_def)

lemma sat_add_le: "in_i32 a \<Longrightarrow> 0 \<le> b \<Longrightarrow> sat_add a b \<le> a + b"
  by (simp add: sat_add_def sat32_def in_i32_def)

lemma sat_add_le_max: "sat_add a b \<le> I32_MAX"
  by (simp add: sat_add_def sat32_def)

lemma trunc_div_mult:
  assumes "k \<noteq> 0" shows "trunc_div (a * k) k = a"
proof -
  have "\<bar>a * k\<bar> div \<bar>k\<bar> = \<bar>a\<bar>" using assms by (simp add: abs_mult)
  moreover have "sgn k * sgn k = 1" using assms by (simp add: sgn_if)
  then have "sgn (a * k) * sgn k = sgn a" by (simp add: sgn_mult mult.assoc)
  ultimately show ?thesis by (simp add: trunc_div_def sgn_mult_abs mult.assoc)
qed

lemma trunc_div_nonneg: "0 \<le> a \<Longrightarrow> 0 < b \<Longrightarrow> trunc_div a b = a div b"
  by (cases "a = 0") (simp_all add: trunc_div_def sgn_if)

section \<open>Unsigned machine integers\<close>

type_synonym u8 = "8 word"
type_synonym u32 = "32 word"
type_synonym usize = "64 word"

section \<open>Floating point values that are only compared\<close>

text \<open>
  Some values (alpha, source rectangles, colours) are floating point numbers the modelled code
  stores and compares but never computes with. A value is not-a-number, an infinity or a
  number; \<open>fl_eq\<close> is the equality of the language, which not-a-number does not satisfy.
\<close>

datatype fl = Fl_nan | Fl_inf bool | Fl_num rat

fun fl_eq :: "fl \<Rightarrow> fl \<Rightarrow> bool" where
  "fl_eq (Fl_inf a) (Fl_inf b) \<longleftrightarrow> a = b"
| "fl_eq (Fl_num a) (Fl_num b) \<longleftrightarrow> a = b"
| "fl_eq _ _ \<longleftrightarrow> False"

lemma fl_eq_imp_eq: "fl_eq a b \<Longrightarrow> a = b"
  by (cases "(a, b)" rule: fl_eq.cases) auto

lemma fl_eq_refl_iff: "fl_eq a a \<longleftrightarrow> a \<noteq> Fl_nan"
  by (cases a) auto

section \<open>Lists\<close>

text \<open>\<open>Vec::remove\<close> at an index in bounds.\<close>

definition vec_remove :: "nat \<Rightarrow> 'a list \<Rightarrow> 'a list" where
  "vec_remove i xs = take i xs @ drop (Suc i) xs"

lemma nth_update_mset_set:
  "i < length xs \<Longrightarrow> set (xs[i := v]) \<subseteq> insert v (set xs)"
  by (rule set_update_subset_insert)

lemma set_conv_nth_split:
  assumes "i < length xs"
  shows "set xs = insert (xs ! i) (set (take i xs) \<union> set (drop (Suc i) xs))"
proof -
  have "xs = take i xs @ xs ! i # drop (Suc i) xs" using assms by (rule id_take_nth_drop)
  then have "set xs = set (take i xs @ xs ! i # drop (Suc i) xs)" by simp
  then show ?thesis by auto
qed

lemma filter_nth_eqI:
  assumes "length xs = length ys"
    and "\<And>i. i < length xs \<Longrightarrow> P (xs ! i) \<longleftrightarrow> Q (ys ! i)"
    and "\<And>i. i < length xs \<Longrightarrow> P (xs ! i) \<Longrightarrow> f (xs ! i) = g (ys ! i)"
  shows "map f (filter P xs) = map g (filter Q ys)"
  using assms
proof (induction xs ys rule: list_induct2)
  case Nil
  then show ?case by simp
next
  case (Cons x xs y ys)
  have *: "P (xs ! i) \<longleftrightarrow> Q (ys ! i)" "P (xs ! i) \<Longrightarrow> f (xs ! i) = g (ys ! i)"
    if "i < length xs" for i
    using Cons.prems(1)[of "Suc i"] Cons.prems(2)[of "Suc i"] that by simp_all
  have "P x \<longleftrightarrow> Q y" "P x \<Longrightarrow> f x = g y"
    using Cons.prems(1)[of 0] Cons.prems(2)[of 0] by simp_all
  with Cons.IH * show ?case by auto
qed

text \<open>\<open>Vec::swap_remove\<close>: the element at the index leaves, the last one takes its place.\<close>

definition swap_remove :: "nat \<Rightarrow> 'a list \<Rightarrow> 'a list" where
  "swap_remove i xs = (if Suc i = length xs then butlast xs else (butlast xs)[i := last xs])"

lemma length_swap_remove [simp]: "length (swap_remove i xs) = length xs - 1"
  by (simp add: swap_remove_def)

lemma set_swap_remove:
  assumes "i < length xs"
  shows "set xs = insert (xs ! i) (set (swap_remove i xs))"
proof (cases "Suc i = length xs")
  case True
  then have ne: "xs \<noteq> []" by auto
  from True have "xs ! i = last xs" by (metis diff_Suc_1 last_conv_nth ne)
  moreover have "set xs = insert (last xs) (set (butlast xs))"
    using ne by (metis append_butlast_last_id list.set(2) list.simps(15) rotate1.simps(2) set_rotate1)
  ultimately show ?thesis using True by (simp add: swap_remove_def)
next
  case False
  with assms have i: "i < length (butlast xs)" by simp
  have ne: "xs \<noteq> []" using assms by auto
  have split: "set xs = insert (last xs) (set (butlast xs))"
    using ne by (metis append_butlast_last_id list.set(2) list.simps(15) rotate1.simps(2) set_rotate1)
  have bl: "set (butlast xs) = insert (butlast xs ! i) (set (take i (butlast xs)) \<union> set (drop (Suc i) (butlast xs)))"
    by (rule set_conv_nth_split[OF i])
  have "set ((butlast xs)[i := last xs])
      = insert (last xs) (set (take i (butlast xs)) \<union> set (drop (Suc i) (butlast xs)))"
    using i by (simp add: upd_conv_take_nth_drop Un_commute)
  moreover have "butlast xs ! i = xs ! i" using i by (simp add: nth_butlast)
  ultimately show ?thesis using False split bl by (auto simp: swap_remove_def)
qed

end
