(* ===== verification/Serials.thy ===== *)
theory Serials
  imports Prelude "HOL-Library.Multiset"
begin

text \<open>
  Identifiers: the wrapping serial numbers of \<open>src/utils/serial.rs\<close> with their order and their
  lock-free counter, the recycled identifiers of \<open>src/utils/ids.rs\<close>, and the hook identifiers of
  \<open>src/utils/hook.rs\<close> built on them. The supply of fresh identifiers is a locale, interpreted on
  the model of \<open>ids.rs\<close>; the registration of hooks is proved inside it.
\<close>

section \<open>Serials and their order\<close>

datatype serial = Serial u32

datatype ordering = Less | Equal | Greater

definition u32_cmp :: "u32 \<Rightarrow> u32 \<Rightarrow> ordering" where
  "u32_cmp a b = (if a < b then Less else if a = b then Equal else Greater)"

definition abs_diff :: "u32 \<Rightarrow> u32 \<Rightarrow> u32" where
  "abs_diff a b = (if a < b then b - a else a - b)"

fun serial_cmp :: "serial \<Rightarrow> serial \<Rightarrow> ordering" where
  "serial_cmp (Serial a) (Serial b) =
     (let distance = abs_diff a b
      in if distance < 2147483647 then u32_cmp a b else u32_cmp b a)"

definition serial_lt :: "serial \<Rightarrow> serial \<Rightarrow> bool" where
  "serial_lt a b \<longleftrightarrow> serial_cmp a b = Less"

definition serial_gt :: "serial \<Rightarrow> serial \<Rightarrow> bool" where
  "serial_gt a b \<longleftrightarrow> serial_cmp a b = Greater"

definition serial_le :: "serial \<Rightarrow> serial \<Rightarrow> bool" where
  "serial_le a b \<longleftrightarrow> serial_cmp a b = Less \<or> serial_cmp a b = Equal"

definition is_no_older_than :: "serial \<Rightarrow> serial \<Rightarrow> bool" where
  "is_no_older_than self other \<longleftrightarrow> serial_le other self"

text \<open>\<open>serial_add s k\<close> is the serial \<open>k\<close> steps of the wrapping counter after \<open>s\<close>.\<close>

fun serial_add :: "serial \<Rightarrow> u32 \<Rightarrow> serial" where
  "serial_add (Serial a) k = Serial (a + k)"

declare serial_cmp.simps [simp del]

lemma u32_bound: "unat (a :: u32) < 4294967296"
  using unsigned_less[of a] by simp

lemma abs_diff_nat: "unat (abs_diff a b) = (if unat a < unat b then unat b - unat a else unat a - unat b)"
  by (auto simp: abs_diff_def word_less_nat_alt unat_sub word_le_nat_alt)

lemma serial_cmp_nat:
  "serial_cmp (Serial a) (Serial b) =
     (let d = (if unat a < unat b then unat b - unat a else unat a - unat b)
      in if d < 2147483647 then (if unat a < unat b then Less else if unat a = unat b then Equal else Greater)
         else (if unat b < unat a then Less else if unat a = unat b then Equal else Greater))"
  by (simp add: serial_cmp.simps Let_def u32_cmp_def word_less_nat_alt abs_diff_nat)
    (auto simp: word_unat_eq_iff)

lemma serial_cmp_refl [simp]: "serial_cmp a a = Equal"
  by (cases a) (simp add: serial_cmp.simps u32_cmp_def abs_diff_def)

lemma serial_cmp_eq_iff: "serial_cmp a b = Equal \<longleftrightarrow> a = b"
  by (cases a; cases b) (auto simp: serial_cmp_nat Let_def word_unat_eq_iff split: if_splits)

lemma serial_cmp_swap: "serial_cmp a b = Less \<longleftrightarrow> serial_cmp b a = Greater"
  by (cases a; cases b) (auto simp: serial_cmp_nat Let_def split: if_splits)

lemma serial_lt_iff_gt: "serial_lt a b \<longleftrightarrow> serial_gt b a"
  by (simp add: serial_lt_def serial_gt_def serial_cmp_swap)

lemma serial_gt_iff_not_le: "serial_gt a b \<longleftrightarrow> \<not> serial_le a b"
  by (cases "serial_cmp a b") (simp_all add: serial_gt_def serial_le_def)

lemma serial_irrefl [simp]: "\<not> serial_gt a a" "\<not> serial_lt a a"
  by (simp_all add: serial_gt_def serial_lt_def)

lemma serial_lt_add:
  assumes "0 < unat k" "unat k < 2147483647"
  shows "serial_lt s (serial_add s k)"
proof (cases s)
  case (Serial a)
  have k: "unat (a + k) = (if unat a + unat k < 4294967296 then unat a + unat k else unat a + unat k - 4294967296)"
    using u32_bound[of a] u32_bound[of k] by (simp add: unat_word_ariths mod_if)
  show ?thesis
    using assms u32_bound[of a] by (simp add: Serial serial_lt_def serial_cmp_nat k Let_def) linarith
qed

section \<open>The serial counter\<close>

text \<open>
  \<open>next_serial\<close> on one thread: a compare-and-exchange replaces \<open>0\<close> by \<open>1\<close>, then an atomic
  addition returns the value and increments the counter, wrapping.
\<close>

definition counter_cas :: "u32 \<Rightarrow> u32" where
  "counter_cas c = (if c = 0 then 1 else c)"

definition counter_fetch_add :: "u32 \<Rightarrow> serial \<times> u32" where
  "counter_fetch_add c = (Serial c, c + 1)"

definition counter_new :: u32 where
  "counter_new = 1"

definition next_serial :: "u32 \<Rightarrow> serial \<times> u32" where
  "next_serial c = counter_fetch_add (counter_cas c)"

text \<open>
  On several threads the two atomic operations interleave. A thread is about to start, or has
  done the exchange and not yet the addition; \<open>issued\<close> lists the serials returned, latest first.
\<close>

datatype serial_pc = Ready | Exchanged

record serial_sys =
  cell :: u32
  spc :: "nat \<Rightarrow> serial_pc"
  issued :: "serial list"

definition serial_init :: serial_sys where
  "serial_init = \<lparr>cell = counter_new, spc = (\<lambda>_. Ready), issued = []\<rparr>"

inductive serial_step :: "serial_sys \<Rightarrow> serial_sys \<Rightarrow> bool" where
  exchange: "spc s t = Ready \<Longrightarrow>
     serial_step s (s\<lparr>cell := counter_cas (cell s), spc := (spc s)(t := Exchanged)\<rparr>)"
| fetch: "spc s t = Exchanged \<Longrightarrow> counter_fetch_add (cell s) = (v, c) \<Longrightarrow>
     serial_step s (s\<lparr>cell := c, spc := (spc s)(t := Ready), issued := v # issued s\<rparr>)"

inductive serial_reachable :: "serial_sys \<Rightarrow> bool" where
  init: "serial_reachable serial_init"
| step: "serial_reachable s \<Longrightarrow> serial_step s s' \<Longrightarrow> serial_reachable s'"

text \<open>
  Until the counter has gone round once, it holds one more than the number of serials issued, and
  the serials issued are exactly the values below it.
\<close>

definition issued_upto :: "nat \<Rightarrow> serial list" where
  "issued_upto n = rev (map (\<lambda>k. Serial (of_nat k)) [1..<Suc n])"

definition serial_inv :: "serial_sys \<Rightarrow> bool" where
  "serial_inv s \<longleftrightarrow>
     (length (issued s) < 4294967295 \<longrightarrow> cell s = of_nat (Suc (length (issued s)))) \<and>
     (length (issued s) \<le> 4294967295 \<longrightarrow> issued s = issued_upto (length (issued s)))"

lemma issued_upto_Suc: "issued_upto (Suc n) = Serial (of_nat (Suc n)) # issued_upto n"
  by (simp add: issued_upto_def)

lemma of_nat_u32_zero: "(of_nat n :: u32) = 0 \<longleftrightarrow> n mod 4294967296 = 0"
  by (simp add: word_of_nat_eq_0_iff dvd_eq_mod_eq_0)

lemma serial_inv_init: "serial_inv serial_init"
  by (simp add: serial_inv_def serial_init_def counter_new_def issued_upto_def)

lemma serial_step_inv:
  assumes "serial_step s s'" "serial_inv s"
  shows "serial_inv s'"
  using assms(1)
proof (cases rule: serial_step.cases)
  case (exchange t)
  then show ?thesis
    using assms(2) of_nat_u32_zero[of "Suc (length (issued s))"]
    by (simp add: serial_inv_def counter_cas_def del: of_nat_Suc)
next
  case (fetch t v c)
  show ?thesis
  proof (cases "length (issued s) < 4294967295")
    case True
    then have "cell s = of_nat (Suc (length (issued s)))" "issued s = issued_upto (length (issued s))"
      using assms(2) by (simp_all add: serial_inv_def)
    then show ?thesis
      using fetch(1,3) by (simp add: serial_inv_def counter_fetch_add_def issued_upto_Suc)
  next
    case False
    with fetch(1) show ?thesis by (simp add: serial_inv_def)
  qed
qed

lemma serial_reachable_inv: "serial_reachable s \<Longrightarrow> serial_inv s"
  by (induction rule: serial_reachable.induct) (auto intro: serial_inv_init serial_step_inv)

lemma distinct_issued_upto: "n \<le> 4294967295 \<Longrightarrow> distinct (issued_upto n) \<and> Serial 0 \<notin> set (issued_upto n)"
proof -
  assume n: "n \<le> 4294967295"
  have inj: "inj_on (\<lambda>k. Serial (of_nat k)) (set [1..<Suc n])"
    using n by (auto simp: inj_on_def word_of_nat_eq_iff take_bit_eq_mod)
  have "of_nat k \<noteq> (0::u32)" if "k \<in> {1..<Suc n}" for k
    using that n by (simp add: of_nat_u32_zero)
  then show ?thesis
    using inj unfolding issued_upto_def distinct_rev distinct_map set_rev set_map set_upt by auto
qed

lemma issue_one:
  assumes "serial_reachable s" "spc s = (\<lambda>_. Ready)"
  shows "\<exists>s'. serial_reachable s' \<and> spc s' = (\<lambda>_. Ready) \<and> cell s' = counter_cas (cell s) + 1
    \<and> issued s' = Serial (counter_cas (cell s)) # issued s"
proof -
  let ?s1 = "s\<lparr>cell := counter_cas (cell s), spc := (spc s)(0 := Exchanged)\<rparr>"
  have 1: "serial_reachable ?s1"
    by (rule serial_reachable.step[OF assms(1) serial_step.exchange]) (simp add: assms(2))
  have "serial_reachable (?s1\<lparr>cell := cell ?s1 + 1, spc := (spc ?s1)(0 := Ready),
      issued := Serial (cell ?s1) # issued ?s1\<rparr>)"
    by (rule serial_reachable.step[OF 1 serial_step.fetch]) (simp_all add: counter_fetch_add_def)
  then show ?thesis
    by (intro exI conjI, assumption) (auto simp: assms(2) fun_eq_iff)
qed

lemma issue_many: "n \<le> 4294967294 \<Longrightarrow>
    \<exists>s. serial_reachable s \<and> spc s = (\<lambda>_. Ready) \<and> length (issued s) = n"
proof (induction n)
  case 0
  then show ?case by (intro exI[of _ serial_init]) (simp add: serial_init_def serial_reachable.init[unfolded serial_init_def])
next
  case (Suc n)
  then obtain s where s: "serial_reachable s" "spc s = (\<lambda>_. Ready)" "length (issued s) = n" by auto
  from issue_one[OF s(1,2)] s(3) show ?case by fastforce
qed

text \<open>Serials respect the order of issue across the wrap-around: a serial compares less than
  the one any \<open>k\<close> increments later, for every \<open>k\<close> below half the range.\<close>

theorem serial_order_across_wrap:
  assumes "0 < unat k" "unat k < 2147483647"
  shows "serial_lt s (serial_add s k) \<and> serial_gt (serial_add s k) s
    \<and> is_no_older_than (serial_add s k) s \<and> \<not> is_no_older_than s (serial_add s k)"
proof -
  have lt: "serial_lt s (serial_add s k)" by (rule serial_lt_add[OF assms])
  then have gt: "serial_gt (serial_add s k) s" by (simp add: serial_lt_iff_gt)
  then have "\<not> is_no_older_than s (serial_add s k)"
    by (simp add: is_no_older_than_def serial_gt_iff_not_le)
  moreover have "is_no_older_than (serial_add s k) s"
    using lt by (simp add: is_no_older_than_def serial_le_def serial_lt_def)
  ultimately show ?thesis using lt gt by blast
qed

lemma u32_wrap_numeral: "(4294967300 :: u32) = 4"
  by simp

theorem serial_order_across_wrap_witness:
  "serial_lt (Serial 4294967290) (Serial 4) \<and> is_no_older_than (Serial 4) (Serial 4294967290)"
  using serial_order_across_wrap[of 10 "Serial 4294967290"] by (simp add: u32_wrap_numeral)

text \<open>In every interleaving of any number of threads, the serials returned before the counter
  has gone round are pairwise distinct and never zero.\<close>

theorem serials_unique_until_wrap:
  assumes "serial_reachable s" "length (issued s) \<le> 4294967295"
  shows "distinct (issued s) \<and> Serial 0 \<notin> set (issued s)"
proof -
  have "issued s = issued_upto (length (issued s))"
    using serial_reachable_inv[OF assms(1)] assms(2) by (simp add: serial_inv_def)
  then show ?thesis using distinct_issued_upto[OF assms(2)] by metis
qed

theorem serials_unique_until_wrap_witness:
  "distinct (issued serial_init) \<and> Serial 0 \<notin> set (issued serial_init)"
  using serials_unique_until_wrap[OF serial_reachable.init] by (simp add: serial_init_def)

text \<open>The exchange and the addition are two atomic operations, not one: with two threads that
  both pass the exchange while the counter is at its maximum, the second addition returns the
  serial zero, the value the exchange is there to skip. On one thread zero is never returned.\<close>

theorem serial_zero_issued_in_race:
  "(\<exists>s. serial_reachable s \<and> hd (issued s) = Serial 0 \<and> length (issued s) = 4294967296)
    \<and> fst (next_serial c) \<noteq> Serial 0"
proof -
  obtain s where s: "serial_reachable s" "spc s = (\<lambda>_. Ready)" "length (issued s) = 4294967294"
    using issue_many[of 4294967294] by auto
  have c: "cell s = 4294967295"
    using serial_reachable_inv[OF s(1)] s(3) by (simp add: serial_inv_def)
  let ?s1 = "s\<lparr>cell := counter_cas (cell s), spc := (spc s)(0 := Exchanged)\<rparr>"
  let ?s2 = "?s1\<lparr>cell := counter_cas (cell ?s1), spc := (spc ?s1)(1 := Exchanged)\<rparr>"
  let ?s3 = "?s2\<lparr>cell := 0, spc := (spc ?s2)(0 := Ready), issued := Serial 4294967295 # issued ?s2\<rparr>"
  let ?s4 = "?s3\<lparr>cell := 1, spc := (spc ?s3)(1 := Ready), issued := Serial 0 # issued ?s3\<rparr>"
  have 1: "serial_reachable ?s1"
    by (rule serial_reachable.step[OF s(1) serial_step.exchange]) (simp add: s(2))
  have 2: "serial_reachable ?s2"
    by (rule serial_reachable.step[OF 1 serial_step.exchange]) (simp add: s(2))
  have 3: "serial_reachable ?s3"
    by (rule serial_reachable.step[OF 2 serial_step.fetch]) (simp_all add: c counter_cas_def counter_fetch_add_def)
  have 4: "serial_reachable ?s4"
    by (rule serial_reachable.step[OF 3 serial_step.fetch]) (simp_all add: counter_fetch_add_def)
  have "\<exists>s. serial_reachable s \<and> hd (issued s) = Serial 0 \<and> length (issued s) = 4294967296"
    by (intro exI[of _ ?s4]) (use 4 s(3) in simp)
  then show ?thesis
    by (simp add: next_serial_def counter_fetch_add_def counter_cas_def)
qed

section \<open>Recycled identifiers\<close>

text \<open>
  \<open>id_gen!\<close> keeps the set of identifiers in use and a counter. \<open>id_probe\<close> is the loop that moves
  the counter to the next free value; it ends because not every value is in use.
\<close>

record id_data =
  id_set :: "usize set"
  id_counter :: usize

definition id_data_new :: id_data where
  "id_data_new = \<lparr>id_set = {}, id_counter = 0\<rparr>"

partial_function (option) id_probe :: "usize set \<Rightarrow> usize \<Rightarrow> usize option" where
  "id_probe ids c = (if c \<in> ids then id_probe ids (c + 1) else Some c)"

datatype id_result = Out_of_ids | Id usize id_data

definition id_next :: "id_data \<Rightarrow> id_result option" where
  "id_next s =
     (if card (id_set s) = 18446744073709551615 then Some Out_of_ids
      else (case id_probe (id_set s) (id_counter s) of
              None \<Rightarrow> None
            | Some new_id \<Rightarrow>
                Some (Id new_id \<lparr>id_set = insert new_id (id_set s), id_counter = new_id + 1\<rparr>)))"

definition id_remove :: "usize \<Rightarrow> id_data \<Rightarrow> bool \<times> id_data" where
  "id_remove i s = (i \<in> id_set s, s\<lparr>id_set := id_set s - {i}\<rparr>)"

declare id_probe.simps [code]

lemma id_probe_free: "c \<notin> ids \<Longrightarrow> id_probe ids c = Some c"
  by (subst id_probe.simps) simp

lemma id_probe_used: "c \<in> ids \<Longrightarrow> id_probe ids c = id_probe ids (c + 1)"
  by (subst id_probe.simps) simp

lemma id_probe_distance:
  "c + of_nat k \<notin> ids \<Longrightarrow> (\<forall>j<k. c + of_nat j \<in> ids) \<Longrightarrow> id_probe ids c = Some (c + of_nat k)"
proof (induction k arbitrary: c)
  case 0
  then show ?case by (simp add: id_probe_free)
next
  case (Suc k)
  have "id_probe ids (c + 1) = Some (c + 1 + of_nat k)"
  proof (rule Suc.IH)
    show "c + 1 + of_nat k \<notin> ids" using Suc.prems(1) by (simp add: algebra_simps)
    show "\<forall>j<k. c + 1 + of_nat j \<in> ids"
    proof (intro allI impI)
      fix j assume "j < k"
      then have "c + of_nat (Suc j) \<in> ids" using Suc.prems(2) by blast
      then show "c + 1 + of_nat j \<in> ids" by (simp add: algebra_simps)
    qed
  qed
  moreover have "c + of_nat 0 \<in> ids" using Suc.prems(2) by blast
  then have "c \<in> ids" by simp
  ultimately show ?case by (simp add: id_probe_used algebra_simps)
qed

lemma id_probe_terminates:
  fixes c :: usize
  assumes "ids \<noteq> UNIV"
  obtains k where "id_probe ids c = Some (c + of_nat k)" "c + of_nat k \<notin> ids"
    "\<And>j. j < k \<Longrightarrow> c + of_nat j \<in> ids"
proof -
  obtain x where x: "x \<notin> ids" using assms by auto
  have "c + of_nat (unat (x - c)) = x" by simp
  with x have ex: "c + of_nat (unat (x - c)) \<notin> ids" by simp
  define k where "k = (LEAST k. c + of_nat k \<notin> ids)"
  have k: "c + of_nat k \<notin> ids" unfolding k_def by (rule LeastI[of "\<lambda>k. c + of_nat k \<notin> ids", OF ex])
  have lt: "c + of_nat j \<in> ids" if "j < k" for j
    using not_less_Least[of j "\<lambda>k. c + of_nat k \<notin> ids"] that unfolding k_def by blast
  show thesis
    by (rule that[of k]) (use k lt id_probe_distance[of c k ids] in auto)
qed

lemma usize_card: "card (UNIV :: usize set) = 18446744073709551616"
  by (simp add: card_word)

lemma id_next_cases:
  assumes "card (id_set s) < 18446744073709551615"
  obtains i where "id_next s = Some (Id i \<lparr>id_set = insert i (id_set s), id_counter = i + 1\<rparr>)"
    "i \<notin> id_set s"
proof -
  have "id_set s \<noteq> UNIV" using assms usize_card by auto
  then obtain k where "id_probe (id_set s) (id_counter s) = Some (id_counter s + of_nat k)"
    "id_counter s + of_nat k \<notin> id_set s"
    by (rule id_probe_terminates)
  with assms that show thesis by (simp add: id_next_def)
qed

lemma id_probe_not_used:
  assumes "id_probe ids c = Some r"
  shows "r \<notin> ids"
  by (rule id_probe.raw_induct[where P = "\<lambda>ids c r. r \<notin> ids", OF _ assms]) (auto split: if_splits)

lemma id_next_fresh:
  assumes "id_next s = Some (Id i s')"
  shows "i \<notin> id_set s" "id_set s' = insert i (id_set s)"
proof -
  from assms obtain new where new: "id_probe (id_set s) (id_counter s) = Some new" "i = new"
      "s' = \<lparr>id_set = insert new (id_set s), id_counter = new + 1\<rparr>"
    by (auto simp: id_next_def split: if_splits option.splits)
  with id_probe_not_used[OF new(1)] show "i \<notin> id_set s" "id_set s' = insert i (id_set s)" by auto
qed

text \<open>Taking an identifier always returns: while fewer than \<open>usize::MAX\<close> identifiers are in use
  the probing loop ends at the first free value from the counter on, that value is recorded, and
  the counter moves behind it; with \<open>usize::MAX\<close> in use the call panics.\<close>

theorem id_next_total_and_fresh:
  assumes "card (id_set s) \<le> 18446744073709551615"
  shows "if card (id_set s) = 18446744073709551615 then id_next s = Some Out_of_ids
   else \<exists>k. id_next s = Some (Id (id_counter s + of_nat k)
                 \<lparr>id_set = insert (id_counter s + of_nat k) (id_set s), id_counter = id_counter s + of_nat k + 1\<rparr>)
           \<and> id_counter s + of_nat k \<notin> id_set s
           \<and> {id_counter s + of_nat j |j. j < k} \<subseteq> id_set s"
proof (cases "card (id_set s) = 18446744073709551615")
  case False
  with assms have "card (id_set s) \<noteq> card (UNIV :: usize set)" by (simp add: usize_card)
  then have "id_set s \<noteq> UNIV" by auto
  then obtain k where "id_probe (id_set s) (id_counter s) = Some (id_counter s + of_nat k)"
    "id_counter s + of_nat k \<notin> id_set s" "\<And>j. j < k \<Longrightarrow> id_counter s + of_nat j \<in> id_set s"
    by (rule id_probe_terminates[where c = "id_counter s"]) blast
  then have "id_next s = Some (Id (id_counter s + of_nat k)
      \<lparr>id_set = insert (id_counter s + of_nat k) (id_set s), id_counter = id_counter s + of_nat k + 1\<rparr>)
    \<and> id_counter s + of_nat k \<notin> id_set s \<and> {id_counter s + of_nat j |j. j < k} \<subseteq> id_set s"
    using False by (auto simp: id_next_def)
  with False show ?thesis by (simp only: if_False) blast
qed (simp add: id_next_def)

theorem id_next_total_and_fresh_witness:
  "\<exists>k. id_next \<lparr>id_set = {7, 8}, id_counter = 7\<rparr> = Some (Id (7 + of_nat k)
                 \<lparr>id_set = {7 + of_nat k, 7, 8}, id_counter = 7 + of_nat k + 1\<rparr>)
           \<and> (7 :: usize) + of_nat k \<notin> {7, 8} \<and> {7 + of_nat j |j. j < k} \<subseteq> {7, (8 :: usize)}"
  using id_next_total_and_fresh[of "\<lparr>id_set = {7, 8}, id_counter = 7\<rparr>"] by simp

section \<open>Hooks\<close>

text \<open>
  A hook is an identifier and a callback. The callbacks of a surface are kept in lists, one per
  kind; a slot stands for one such list of one surface. The identifier is a counted reference:
  \<open>handles\<close> counts the references the callers hold, one per returned or cloned \<open>HookId\<close>; when the
  last reference goes, in a list or outside, the number is given back to the supply. The supply is
  a parameter of the operations, so that what they need of it is stated once, as a locale.
\<close>

record ('s, 'slot, 'cb) hook_sys =
  hook_pool :: 's
  hooks :: "'slot \<Rightarrow> (usize \<times> 'cb) list"
  handles :: "usize multiset"

definition hook_refs :: "('s, 'slot, 'cb) hook_sys \<Rightarrow> usize set" where
  "hook_refs h = (\<Union>slot. fst ` set (hooks h slot)) \<union> set_mset (handles h)"

text \<open>Dropping a reference: \<open>InnerId::drop\<close> runs when it was the last.\<close>

definition hook_id_drop :: "(usize \<Rightarrow> 's \<Rightarrow> 's) \<Rightarrow> usize \<Rightarrow> ('s, 'slot, 'cb) hook_sys \<Rightarrow> ('s, 'slot, 'cb) hook_sys" where
  "hook_id_drop free i h = (if i \<in> hook_refs h then h else h\<lparr>hook_pool := free i (hook_pool h)\<rparr>)"

text \<open>\<open>Hook::new\<close>, the push on the list, and the clone of the identifier that is returned.\<close>

definition hook_add :: "('s \<Rightarrow> (usize \<times> 's) option) \<Rightarrow> 'slot \<Rightarrow> 'cb \<Rightarrow> ('s, 'slot, 'cb) hook_sys
    \<Rightarrow> (usize \<times> ('s, 'slot, 'cb) hook_sys) option" where
  "hook_add nxt slot cb h =
     (case nxt (hook_pool h) of
        None \<Rightarrow> None
      | Some (i, s') \<Rightarrow> Some (i, h\<lparr>hook_pool := s', hooks := (hooks h)(slot := hooks h slot @ [(i, cb)]),
                                     handles := add_mset i (handles h)\<rparr>))"

text \<open>\<open>retain(|hook| hook.id != *hook_id)\<close>; the caller keeps the reference it passed.\<close>

definition hook_remove :: "'slot \<Rightarrow> usize \<Rightarrow> ('s, 'slot, 'cb) hook_sys \<Rightarrow> ('s, 'slot, 'cb) hook_sys" where
  "hook_remove slot i h = h\<lparr>hooks := (hooks h)(slot := filter (\<lambda>hk. fst hk \<noteq> i) (hooks h slot))\<rparr>"

definition handle_clone :: "usize \<Rightarrow> ('s, 'slot, 'cb) hook_sys \<Rightarrow> ('s, 'slot, 'cb) hook_sys" where
  "handle_clone i h = h\<lparr>handles := add_mset i (handles h)\<rparr>"

definition handle_drop :: "(usize \<Rightarrow> 's \<Rightarrow> 's) \<Rightarrow> usize \<Rightarrow> ('s, 'slot, 'cb) hook_sys \<Rightarrow> ('s, 'slot, 'cb) hook_sys" where
  "handle_drop free i h = hook_id_drop free i (h\<lparr>handles := handles h - {#i#}\<rparr>)"

text \<open>The surface goes away: its list is dropped, hook by hook.\<close>

definition hooks_clear :: "(usize \<Rightarrow> 's \<Rightarrow> 's) \<Rightarrow> 'slot \<Rightarrow> ('s, 'slot, 'cb) hook_sys \<Rightarrow> ('s, 'slot, 'cb) hook_sys" where
  "hooks_clear free slot h =
     fold (hook_id_drop free) (map fst (hooks h slot)) (h\<lparr>hooks := (hooks h)(slot := [])\<rparr>)"

definition hook_inv :: "('s \<Rightarrow> usize set) \<Rightarrow> ('s, 'slot, 'cb) hook_sys \<Rightarrow> bool" where
  "hook_inv used h \<longleftrightarrow> used (hook_pool h) = hook_refs h
     \<and> (\<forall>slot. distinct (map fst (hooks h slot)))
     \<and> (\<forall>slot slot' i cb cb'. (i, cb) \<in> set (hooks h slot) \<longrightarrow> (i, cb') \<in> set (hooks h slot') \<longrightarrow> slot = slot')"

inductive hook_step :: "('s \<Rightarrow> (usize \<times> 's) option) \<Rightarrow> (usize \<Rightarrow> 's \<Rightarrow> 's)
    \<Rightarrow> ('s, 'slot, 'cb) hook_sys \<Rightarrow> ('s, 'slot, 'cb) hook_sys \<Rightarrow> bool"
  for nxt free where
  add: "hook_add nxt slot cb h = Some (i, h') \<Longrightarrow> hook_step nxt free h h'"
| remove: "i \<in># handles h \<Longrightarrow> hook_step nxt free h (hook_remove slot i h)"
| clone: "i \<in># handles h \<Longrightarrow> hook_step nxt free h (handle_clone i h)"
| drop: "i \<in># handles h \<Longrightarrow> hook_step nxt free h (handle_drop free i h)"
| clear: "hook_step nxt free h (hooks_clear free slot h)"

inductive hook_reachable :: "('s \<Rightarrow> (usize \<times> 's) option) \<Rightarrow> (usize \<Rightarrow> 's \<Rightarrow> 's) \<Rightarrow> 's
    \<Rightarrow> ('s, 'slot, 'cb) hook_sys \<Rightarrow> bool"
  for nxt free s0 where
  start: "hook_reachable nxt free s0 \<lparr>hook_pool = s0, hooks = (\<lambda>_. []), handles = {#}\<rparr>"
| step: "hook_reachable nxt free s0 h \<Longrightarrow> hook_step nxt free h h' \<Longrightarrow> hook_reachable nxt free s0 h'"

lemma hook_refs_iff:
  "a \<in> hook_refs h \<longleftrightarrow> (\<exists>slot cb. (a, cb) \<in> set (hooks h slot)) \<or> a \<in># handles h"
  by (force simp: hook_refs_def)

lemma hook_refs_remove:
  assumes "i \<in># handles h"
  shows "hook_refs (hook_remove slot i h) = hook_refs h"
proof (rule set_eqI)
  fix a
  have "hooks (hook_remove slot i h) sl
      = (if sl = slot then filter (\<lambda>hk. fst hk \<noteq> i) (hooks h slot) else hooks h sl)" for sl
    by (simp add: hook_remove_def)
  moreover have "handles (hook_remove slot i h) = handles h" by (simp add: hook_remove_def)
  ultimately show "a \<in> hook_refs (hook_remove slot i h) \<longleftrightarrow> a \<in> hook_refs h"
    using assms by (cases "a = i") (simp_all add: hook_refs_iff, metis)
qed

lemma hook_refs_simps [simp]:
  "hook_refs (h\<lparr>hook_pool := s\<rparr>) = hook_refs h"
  "hook_refs (hook_id_drop free i h) = hook_refs h"
  "hooks (hook_id_drop free i h) = hooks h"
  "handles (hook_id_drop free i h) = handles h"
  by (simp_all add: hook_refs_def hook_id_drop_def)

lemma fold_drop_simps [simp]:
  "hook_refs (fold (hook_id_drop free) is h) = hook_refs h"
  "hooks (fold (hook_id_drop free) is h) = hooks h"
  by (induction "is" arbitrary: h) simp_all

text \<open>
  What hooks need of the supply: an identifier handed out was not in use and is in use afterwards,
  and giving one back makes it unused again.
\<close>

locale id_supply =
  fixes nxt :: "'s \<Rightarrow> (usize \<times> 's) option"
    and free :: "usize \<Rightarrow> 's \<Rightarrow> 's"
    and used :: "'s \<Rightarrow> usize set"
  assumes next_fresh: "nxt s = Some (i, s') \<Longrightarrow> i \<notin> used s \<and> used s' = insert i (used s)"
    and used_free: "used (free i s) = used s - {i}"
begin

lemma drop_inv:
  assumes "hook_refs h \<subseteq> used (hook_pool h)" "used (hook_pool h) \<subseteq> insert i (hook_refs h)"
  shows "used (hook_pool (hook_id_drop free i h)) = hook_refs h"
  using assms by (auto simp: hook_id_drop_def used_free)

lemma fold_drop_inv:
  "hook_refs h \<subseteq> used (hook_pool h) \<Longrightarrow> used (hook_pool h) \<subseteq> set is \<union> hook_refs h \<Longrightarrow>
   used (hook_pool (fold (hook_id_drop free) is h)) = hook_refs h"
proof (induction "is" arbitrary: h)
  case (Cons i "is")
  have "used (hook_pool (fold (hook_id_drop free) is (hook_id_drop free i h))) = hook_refs (hook_id_drop free i h)"
    by (rule Cons.IH) (use Cons.prems in \<open>auto simp: hook_id_drop_def used_free\<close>)
  then show ?case by simp
qed auto

lemma hook_add_fresh:
  assumes "hook_inv used h" "hook_add nxt slot cb h = Some (i, h')"
  shows "i \<notin> hook_refs h" "hooks h' = (hooks h)(slot := hooks h slot @ [(i, cb)])"
    "handles h' = add_mset i (handles h)" "used (hook_pool h') = insert i (used (hook_pool h))"
    "hook_refs h' = insert i (hook_refs h)"
proof -
  obtain s' where n: "nxt (hook_pool h) = Some (i, s')"
    and h': "h' = h\<lparr>hook_pool := s', hooks := (hooks h)(slot := hooks h slot @ [(i, cb)]),
                 handles := add_mset i (handles h)\<rparr>"
    using assms(2) by (auto simp: hook_add_def split: option.splits)
  show "i \<notin> hook_refs h" "used (hook_pool h') = insert i (used (hook_pool h))"
    using next_fresh[OF n] assms(1) h' by (simp_all add: hook_inv_def)
  show "hooks h' = (hooks h)(slot := hooks h slot @ [(i, cb)])" "handles h' = add_mset i (handles h)"
    using h' by simp_all
  have "(\<Union>sl. fst ` set (hooks h' sl)) = insert i (\<Union>sl. fst ` set (hooks h sl))"
    using h' by (auto split: if_splits) (metis UNIV_I fst_conv image_eqI)+
  then show "hook_refs h' = insert i (hook_refs h)"
    using h' by (simp add: hook_refs_def)
qed

lemma hook_add_inv:
  assumes "hook_inv used h" "hook_add nxt slot cb h = Some (i, h')"
  shows "hook_inv used h'"
proof -
  note f = hook_add_fresh[OF assms]
  have new: "(i, cb') \<notin> set (hooks h sl)" for sl cb' using f(1) by (auto simp: hook_refs_iff)
  then have "i \<notin> fst ` set (hooks h slot)" by force
  then show ?thesis
    using assms(1) f(2,4,5) new unfolding hook_inv_def
    by (simp add: Ball_def) (metis (no_types, lifting))
qed

lemma hook_step_inv:
  assumes "hook_step nxt free h h'" "hook_inv used h"
  shows "hook_inv used h'"
  using assms(1)
proof (cases rule: hook_step.cases)
  case (add slot cb i)
  with assms(2) show ?thesis by (blast intro: hook_add_inv)
next
  case (remove i slot)
  then have "hook_refs (hook_remove slot i h) = hook_refs h" by (simp add: hook_refs_remove)
  then show ?thesis
    using remove assms(2) unfolding hook_inv_def
    by (simp add: hook_remove_def distinct_map_filter) (metis (no_types, lifting))
next
  case (clone i)
  then have "hook_refs (handle_clone i h) = hook_refs h"
    by (auto simp: hook_refs_def handle_clone_def)
  then show ?thesis
    using clone assms(2) unfolding hook_inv_def by (simp add: handle_clone_def)
next
  case (drop i)
  let ?h = "h\<lparr>handles := handles h - {#i#}\<rparr>"
  obtain N where "handles h = add_mset i N" using drop(2) multi_member_split by metis
  then have refs: "hook_refs ?h \<subseteq> hook_refs h" "hook_refs h \<subseteq> insert i (hook_refs ?h)"
    by (auto simp: hook_refs_iff)
  have "used (hook_pool (hook_id_drop free i ?h)) = hook_refs ?h"
    by (rule drop_inv) (use refs assms(2) in \<open>auto simp: hook_inv_def\<close>)
  then show ?thesis
    using drop assms(2) unfolding hook_inv_def by (simp add: handle_drop_def)
next
  case (clear slot)
  let ?h = "h\<lparr>hooks := (hooks h)(slot := [])\<rparr>"
  have refs: "hook_refs ?h \<subseteq> hook_refs h" "hook_refs h \<subseteq> set (map fst (hooks h slot)) \<union> hook_refs ?h"
    by (auto simp: hook_refs_iff split: if_splits) force+
  have "used (hook_pool (fold (hook_id_drop free) (map fst (hooks h slot)) ?h)) = hook_refs ?h"
    by (rule fold_drop_inv) (use refs assms(2) in \<open>auto simp: hook_inv_def\<close>)
  then show ?thesis
    using clear assms(2) unfolding hook_inv_def by (simp add: hooks_clear_def)
qed

lemma hook_reachable_inv:
  "hook_reachable nxt free s0 h \<Longrightarrow> used s0 = {} \<Longrightarrow> hook_inv used h"
proof (induction rule: hook_reachable.induct)
  case start
  then show ?case by (simp add: hook_inv_def hook_refs_def)
qed (blast intro: hook_step_inv)

lemma hook_add_remove:
  assumes "hook_inv used h" "hook_add nxt slot cb h = Some (i, h')"
  shows "hooks (hook_remove slot i h') = hooks h"
    and "slot' \<noteq> slot \<Longrightarrow> hooks (hook_remove slot' i h') = hooks h'"
proof -
  note f = hook_add_fresh[OF assms]
  have n: "filter (\<lambda>hk. fst hk \<noteq> i) (hooks h sl) = hooks h sl" for sl
    using f(1) by (intro filter_True) (auto simp: hook_refs_def)
  show "hooks (hook_remove slot i h') = hooks h"
    using f(2) n by (simp add: hook_remove_def)
  show "hooks (hook_remove slot' i h') = hooks h'" if "slot' \<noteq> slot"
    using f(2) n[of slot'] that by (auto simp: hook_remove_def fun_eq_iff)
qed

end

text \<open>The supply of \<open>ids.rs\<close>; a panic ends the program, no state follows it.\<close>

definition hooks_id_next :: "id_data \<Rightarrow> (usize \<times> id_data) option" where
  "hooks_id_next s = (case id_next s of Some (Id i s') \<Rightarrow> Some (i, s') | _ \<Rightarrow> None)"

definition hooks_id_remove :: "usize \<Rightarrow> id_data \<Rightarrow> id_data" where
  "hooks_id_remove i s = snd (id_remove i s)"

interpretation hooks_id: id_supply hooks_id_next hooks_id_remove id_set
proof
  fix s i s'
  assume "hooks_id_next s = Some (i, s')"
  then have "id_next s = Some (Id i s')"
    by (auto simp: hooks_id_next_def split: option.splits id_result.splits)
  from id_next_fresh[OF this] show "i \<notin> id_set s \<and> id_set s' = insert i (id_set s)" by simp
qed (simp add: hooks_id_remove_def id_remove_def)

text \<open>A hook identifier names one hook only: in every state reached by registering and removing
  hooks, cloning and dropping identifiers and destroying surfaces, no identifier occurs twice in
  any list or in two lists, the supply holds exactly the identifiers still referenced, and removing
  a hook just added restores every list and touches no other.\<close>

theorem hook_ids_exact:
  assumes "hook_reachable hooks_id_next hooks_id_remove id_data_new h"
  shows "id_set (hook_pool h) = hook_refs h
    \<and> distinct (map fst (hooks h slot))
    \<and> (slot \<noteq> slot' \<longrightarrow> fst ` set (hooks h slot) \<inter> fst ` set (hooks h slot') = {})
    \<and> (case hook_add hooks_id_next slot cb h of
         None \<Rightarrow> True
       | Some (i, h') \<Rightarrow> i \<notin> hook_refs h \<and> hooks (hook_remove slot i h') = hooks h
           \<and> (slot \<noteq> slot' \<longrightarrow> hooks (hook_remove slot' i h') = hooks h'))"
proof -
  have inv: "hook_inv id_set h"
    by (rule hooks_id.hook_reachable_inv[OF assms]) (simp add: id_data_new_def)
  have disj: "slot \<noteq> slot' \<longrightarrow> fst ` set (hooks h slot) \<inter> fst ` set (hooks h slot') = {}"
    using inv unfolding hook_inv_def by fastforce
  show ?thesis
    using inv disj hooks_id.hook_add_fresh(1)[OF inv] hooks_id.hook_add_remove[OF inv]
    by (simp add: hook_inv_def split: option.split prod.split)
qed

theorem hook_ids_exact_witness:
  "let h = \<lparr>hook_pool = \<lparr>id_set = {0}, id_counter = 1\<rparr>,
            hooks = (\<lambda>_. [])(3 := [(0, ''pre'')]), handles = {#0#}\<rparr> :: (id_data, nat, string) hook_sys
   in hook_reachable hooks_id_next hooks_id_remove id_data_new h \<and> id_set (hook_pool h) = hook_refs h"
proof -
  let ?h = "\<lparr>hook_pool = \<lparr>id_set = {0}, id_counter = 1\<rparr>,
            hooks = (\<lambda>_. [])(3 := [(0, ''pre'')]), handles = {#0#}\<rparr> :: (id_data, nat, string) hook_sys"
  have "hook_add hooks_id_next 3 ''pre'' \<lparr>hook_pool = id_data_new, hooks = (\<lambda>_. []), handles = {#}\<rparr> = Some (0, ?h)"
    by (simp add: hook_add_def hooks_id_next_def id_next_def id_data_new_def id_probe_free)
  then have r: "hook_reachable hooks_id_next hooks_id_remove id_data_new ?h"
    by (intro hook_reachable.step[OF hook_reachable.start] hook_step.add)
  show ?thesis using r hook_ids_exact[OF r] by (simp add: Let_def)
qed

end
