(* ===== verification/Geometry.thy ===== *)
theory Geometry
  imports Prelude
begin

text \<open>
  The geometry of \<open>src/utils/geometry.rs\<close> at the coordinate type the compositor uses for every
  decision, \<open>i32\<close>: points, sizes, rectangles, frame extents, integer scales and the eight
  output transforms. The coordinate space marker (\<open>Logical\<close>, \<open>Physical\<close>, \<open>Buffer\<close>, \<open>Client\<close>) is a
  phantom type of the source and carries no data. The pixel semantics of a rectangle is
  \<open>pixels\<close>; the lemmas relate each operation to it. The instances at \<open>f64\<close> are not modelled.
\<close>

section \<open>Coordinates\<close>

text \<open>The trait \<open>Coordinate\<close> and its implementation for \<open>i32\<close>.\<close>

definition coord_min :: "i32 \<Rightarrow> i32 \<Rightarrow> i32" where
  "coord_min a b = (if a < b then a else b)"

definition coord_max :: "i32 \<Rightarrow> i32 \<Rightarrow> i32" where
  "coord_max a b = (if a > b then a else b)"

definition coord_downscale :: "i32 \<Rightarrow> i32 \<Rightarrow> i32 option" where
  "coord_downscale a s = i32_div a s"

definition coord_upscale :: "i32 \<Rightarrow> i32 \<Rightarrow> i32" where
  "coord_upscale a s = sat_mul a s"

definition coord_non_negative :: "i32 \<Rightarrow> bool" where
  "coord_non_negative a \<longleftrightarrow> a \<ge> 0"

definition coord_abs :: "i32 \<Rightarrow> i32" where
  "coord_abs a = wrap32 \<bar>a\<bar>"

lemma coord_min_min [simp]: "coord_min a b = min a b"
  by (simp add: coord_min_def min_def)

lemma coord_max_max [simp]: "coord_max a b = max a b"
  by (simp add: coord_max_def max_def)

section \<open>Data\<close>

record scale =
  scale_x :: i32
  scale_y :: i32

record point =
  px :: i32
  py :: i32

record sz =
  sw :: i32
  sh :: i32

record rect =
  rloc :: point
  rsize :: sz

record frame_extents =
  fe_left :: i32
  fe_right :: i32
  fe_top :: i32
  fe_bottom :: i32

text \<open>The tuples that convert into points, sizes and scales.\<close>

definition point_new :: "i32 \<Rightarrow> i32 \<Rightarrow> point" where
  "point_new x y = \<lparr>px = x, py = y\<rparr>"

text \<open>The sign check of \<open>Size::new\<close> is a debug assertion, absent from release builds.\<close>

definition size_new :: "i32 \<Rightarrow> i32 \<Rightarrow> sz" where
  "size_new w h = \<lparr>sw = w, sh = h\<rparr>"

definition scale_from :: "i32 \<Rightarrow> scale" where
  "scale_from s = \<lparr>scale_x = s, scale_y = s\<rparr>"

definition scale_from_pair :: "i32 \<Rightarrow> i32 \<Rightarrow> scale" where
  "scale_from_pair x y = \<lparr>scale_x = x, scale_y = y\<rparr>"

definition scale_mul :: "scale \<Rightarrow> scale \<Rightarrow> scale" where
  "scale_mul a b = \<lparr>scale_x = coord_upscale (scale_x a) (scale_x b),
                    scale_y = coord_upscale (scale_y a) (scale_y b)\<rparr>"

section \<open>Points\<close>

definition point_to_size :: "point \<Rightarrow> sz" where
  "point_to_size p = \<lparr>sw = px p, sh = py p\<rparr>"

definition point_to_size_abs :: "point \<Rightarrow> sz" where
  "point_to_size_abs p = \<lparr>sw = coord_abs (px p), sh = coord_abs (py p)\<rparr>"

definition point_upscale :: "point \<Rightarrow> scale \<Rightarrow> point" where
  "point_upscale p s = \<lparr>px = coord_upscale (px p) (scale_x s), py = coord_upscale (py p) (scale_y s)\<rparr>"

definition point_downscale :: "point \<Rightarrow> scale \<Rightarrow> point option" where
  "point_downscale p s =
     (case (coord_downscale (px p) (scale_x s), coord_downscale (py p) (scale_y s)) of
        (Some x, Some y) \<Rightarrow> Some \<lparr>px = x, py = y\<rparr>
      | _ \<Rightarrow> None)"

text \<open>The right and bottom bounds use the raw addition of the coordinate type.\<close>

definition point_constrain :: "point \<Rightarrow> rect \<Rightarrow> point" where
  "point_constrain p r =
     \<lparr>px = coord_min (coord_max (px p) (px (rloc r))) (i32_add (px (rloc r)) (sw (rsize r))),
      py = coord_min (coord_max (py p) (py (rloc r))) (i32_add (py (rloc r)) (sh (rsize r)))\<rparr>"

definition point_add :: "point \<Rightarrow> point \<Rightarrow> point" where
  "point_add a b = \<lparr>px = sat_add (px a) (px b), py = sat_add (py a) (py b)\<rparr>"

definition point_sub :: "point \<Rightarrow> point \<Rightarrow> point" where
  "point_sub a b = \<lparr>px = sat_sub (px a) (px b), py = sat_sub (py a) (py b)\<rparr>"

definition point_add_size :: "point \<Rightarrow> sz \<Rightarrow> point" where
  "point_add_size a b = \<lparr>px = sat_add (px a) (sw b), py = sat_add (py a) (sh b)\<rparr>"

definition point_sub_size :: "point \<Rightarrow> sz \<Rightarrow> point" where
  "point_sub_size a b = \<lparr>px = sat_sub (px a) (sw b), py = sat_sub (py a) (sh b)\<rparr>"

text \<open>Conversions between the logical, physical and client spaces by an integer scale.\<close>

definition point_to_physical :: "point \<Rightarrow> scale \<Rightarrow> point" where
  "point_to_physical p s = \<lparr>px = coord_upscale (px p) (scale_x s), py = coord_upscale (py p) (scale_y s)\<rparr>"

definition point_to_client :: "point \<Rightarrow> scale \<Rightarrow> point" where
  "point_to_client p s = \<lparr>px = coord_upscale (px p) (scale_x s), py = coord_upscale (py p) (scale_y s)\<rparr>"

definition point_physical_to_logical :: "point \<Rightarrow> scale \<Rightarrow> point option" where
  "point_physical_to_logical p s =
     (case (coord_downscale (px p) (scale_x s), coord_downscale (py p) (scale_y s)) of
        (Some x, Some y) \<Rightarrow> Some \<lparr>px = x, py = y\<rparr>
      | _ \<Rightarrow> None)"

definition point_client_to_logical :: "point \<Rightarrow> scale \<Rightarrow> point option" where
  "point_client_to_logical p s =
     (case (coord_downscale (px p) (scale_x s), coord_downscale (py p) (scale_y s)) of
        (Some x, Some y) \<Rightarrow> Some \<lparr>px = x, py = y\<rparr>
      | _ \<Rightarrow> None)"

section \<open>Sizes\<close>

definition size_to_point :: "sz \<Rightarrow> point" where
  "size_to_point s = \<lparr>px = sw s, py = sh s\<rparr>"

definition size_clamp :: "sz \<Rightarrow> sz \<Rightarrow> sz \<Rightarrow> sz" where
  "size_clamp s lo hi = \<lparr>sw = coord_min (coord_max (sw s) (sw lo)) (sw hi),
                         sh = coord_min (coord_max (sh s) (sh lo)) (sh hi)\<rparr>"

definition size_upscale :: "sz \<Rightarrow> scale \<Rightarrow> sz" where
  "size_upscale s c = \<lparr>sw = coord_upscale (sw s) (scale_x c), sh = coord_upscale (sh s) (scale_y c)\<rparr>"

definition size_downscale :: "sz \<Rightarrow> scale \<Rightarrow> sz option" where
  "size_downscale s c =
     (case (coord_downscale (sw s) (scale_x c), coord_downscale (sh s) (scale_y c)) of
        (Some w, Some h) \<Rightarrow> Some \<lparr>sw = w, sh = h\<rparr>
      | _ \<Rightarrow> None)"

definition size_is_empty :: "sz \<Rightarrow> bool" where
  "size_is_empty s \<longleftrightarrow> sw s = 0 \<or> sh s = 0"

definition size_add :: "sz \<Rightarrow> sz \<Rightarrow> sz" where
  "size_add a b = \<lparr>sw = sat_add (sw a) (sw b), sh = sat_add (sh a) (sh b)\<rparr>"

definition size_sub :: "sz \<Rightarrow> sz \<Rightarrow> sz" where
  "size_sub a b = \<lparr>sw = coord_max (sat_sub (sw a) (sw b)) 0, sh = coord_max (sat_sub (sh a) (sh b)) 0\<rparr>"

definition size_div_size :: "sz \<Rightarrow> sz \<Rightarrow> scale option" where
  "size_div_size a b =
     (case (i32_div (sw a) (sw b), i32_div (sh a) (sh b)) of
        (Some x, Some y) \<Rightarrow> Some \<lparr>scale_x = x, scale_y = y\<rparr>
      | _ \<Rightarrow> None)"

definition size_div :: "sz \<Rightarrow> i32 \<Rightarrow> sz option" where
  "size_div a n =
     (case (i32_div (sw a) n, i32_div (sh a) n) of
        (Some w, Some h) \<Rightarrow> Some \<lparr>sw = w, sh = h\<rparr>
      | _ \<Rightarrow> None)"

definition size_mul :: "sz \<Rightarrow> i32 \<Rightarrow> sz" where
  "size_mul a n = \<lparr>sw = i32_mul (sw a) n, sh = i32_mul (sh a) n\<rparr>"

definition size_to_physical :: "sz \<Rightarrow> scale \<Rightarrow> sz" where
  "size_to_physical s c = \<lparr>sw = coord_upscale (sw s) (scale_x c), sh = coord_upscale (sh s) (scale_y c)\<rparr>"

definition size_to_client :: "sz \<Rightarrow> scale \<Rightarrow> sz" where
  "size_to_client s c = \<lparr>sw = coord_upscale (sw s) (scale_x c), sh = coord_upscale (sh s) (scale_y c)\<rparr>"

definition size_physical_to_logical :: "sz \<Rightarrow> scale \<Rightarrow> sz option" where
  "size_physical_to_logical s c =
     (case (coord_downscale (sw s) (scale_x c), coord_downscale (sh s) (scale_y c)) of
        (Some w, Some h) \<Rightarrow> Some \<lparr>sw = w, sh = h\<rparr>
      | _ \<Rightarrow> None)"

definition size_client_to_logical :: "sz \<Rightarrow> scale \<Rightarrow> sz option" where
  "size_client_to_logical s c =
     (case (coord_downscale (sw s) (scale_x c), coord_downscale (sh s) (scale_y c)) of
        (Some w, Some h) \<Rightarrow> Some \<lparr>sw = w, sh = h\<rparr>
      | _ \<Rightarrow> None)"


section \<open>Rectangles\<close>

abbreviation rx :: "rect \<Rightarrow> i32" where "rx r \<equiv> px (rloc r)"
abbreviation ry :: "rect \<Rightarrow> i32" where "ry r \<equiv> py (rloc r)"
abbreviation rw :: "rect \<Rightarrow> i32" where "rw r \<equiv> sw (rsize r)"
abbreviation rh :: "rect \<Rightarrow> i32" where "rh r \<equiv> sh (rsize r)"

text \<open>The exclusive right and bottom edges, as every comparison of the code computes them.\<close>

abbreviation rright :: "rect \<Rightarrow> i32" where "rright r \<equiv> sat_add (rx r) (rw r)"
abbreviation rbottom :: "rect \<Rightarrow> i32" where "rbottom r \<equiv> sat_add (ry r) (rh r)"

definition rect_new :: "point \<Rightarrow> sz \<Rightarrow> rect" where
  "rect_new l s = \<lparr>rloc = l, rsize = s\<rparr>"

definition rect_from_size :: "sz \<Rightarrow> rect" where
  "rect_from_size s = \<lparr>rloc = point_new 0 0, rsize = s\<rparr>"

definition rect_zero :: rect where
  "rect_zero = \<lparr>rloc = point_new 0 0, rsize = size_new 0 0\<rparr>"

definition rect_from_extremities :: "point \<Rightarrow> point \<Rightarrow> rect" where
  "rect_from_extremities topleft bottomright =
     \<lparr>rloc = topleft, rsize = point_to_size (point_sub bottomright topleft)\<rparr>"

definition rect_upscale :: "rect \<Rightarrow> scale \<Rightarrow> rect" where
  "rect_upscale r s = \<lparr>rloc = point_upscale (rloc r) s, rsize = size_upscale (rsize r) s\<rparr>"

definition rect_downscale :: "rect \<Rightarrow> scale \<Rightarrow> rect option" where
  "rect_downscale r s =
     (case (point_downscale (rloc r) s, size_downscale (rsize r) s) of
        (Some l, Some z) \<Rightarrow> Some \<lparr>rloc = l, rsize = z\<rparr>
      | _ \<Rightarrow> None)"

definition rect_is_empty :: "rect \<Rightarrow> bool" where
  "rect_is_empty r \<longleftrightarrow> size_is_empty (rsize r)"

definition rect_contains :: "rect \<Rightarrow> point \<Rightarrow> bool" where
  "rect_contains r p \<longleftrightarrow>
     px p \<ge> rx r \<and> px p < rright r \<and> py p \<ge> ry r \<and> py p < rbottom r"

definition rect_contains_rect :: "rect \<Rightarrow> rect \<Rightarrow> bool" where
  "rect_contains_rect self r \<longleftrightarrow>
     rx r \<ge> rx self \<and> ry r \<ge> ry self \<and> rright r \<le> rright self \<and> rbottom r \<le> rbottom self"

definition rect_overlaps :: "rect \<Rightarrow> rect \<Rightarrow> bool" where
  "rect_overlaps self other \<longleftrightarrow>
     rx self < rright other \<and> rx other < rright self \<and>
     ry self < rbottom other \<and> ry other < rbottom self"

definition rect_overlaps_or_touches :: "rect \<Rightarrow> rect \<Rightarrow> bool" where
  "rect_overlaps_or_touches self other \<longleftrightarrow>
     rx self \<le> rright other \<and> rx other \<le> rright self \<and>
     ry self \<le> rbottom other \<and> ry other \<le> rbottom self"

definition rect_intersection :: "rect \<Rightarrow> rect \<Rightarrow> rect option" where
  "rect_intersection self other =
     (if \<not> rect_overlaps self other then None
      else Some (rect_from_extremities
        (point_new (coord_max (rx self) (rx other)) (coord_max (ry self) (ry other)))
        (point_new (coord_min (rright self) (rright other)) (coord_min (rbottom self) (rbottom other)))))"

text \<open>The fold of \<open>bounding_box\<close>, with its accumulator of the least and greatest corner.\<close>

fun bounding_fold :: "(point \<times> point) option \<Rightarrow> point list \<Rightarrow> (point \<times> point) option" where
  "bounding_fold acc [] = acc"
| "bounding_fold None (p # ps) = bounding_fold (Some (p, p)) ps"
| "bounding_fold (Some (lo, hi)) (p # ps) =
     bounding_fold
       (Some (point_new (coord_min (px p) (px lo)) (coord_min (py p) (py lo)),
              point_new (coord_max (px p) (px hi)) (coord_max (py p) (py hi)))) ps"

definition rect_bounding_box :: "point list \<Rightarrow> rect" where
  "rect_bounding_box ps =
     (case bounding_fold None ps of
        None \<Rightarrow> rect_zero
      | Some (lo, hi) \<Rightarrow> rect_from_extremities lo hi)"

definition rect_merge :: "rect \<Rightarrow> rect \<Rightarrow> rect" where
  "rect_merge self other =
     rect_bounding_box [rloc self, point_add_size (rloc self) (rsize self),
                        rloc other, point_add_size (rloc other) (rsize other)]"

subsection \<open>Subtraction\<close>

text \<open>The four strips that remain of a rectangle around its intersection, the empty ones dropped.\<close>

definition subtract_pieces :: "rect \<Rightarrow> rect \<Rightarrow> rect list" where
  "subtract_pieces item isect =
     (let top_rect = rect_new (rloc item) (size_new (rw item) (sat_sub (ry isect) (ry item)));
          left_rect = rect_new (point_new (rx item) (ry isect))
                        (size_new (sat_sub (rx isect) (rx item)) (rh isect));
          right_rect = rect_new (point_new (rright isect) (ry isect))
                        (size_new (sat_sub (rright item) (rright isect)) (rh isect));
          bottom_rect = rect_new (point_new (rx item) (rbottom isect))
                        (size_new (rw item) (sat_sub (rbottom item) (rbottom isect)))
      in filter (\<lambda>r. \<not> rect_is_empty r) [top_rect, left_rect, right_rect, bottom_rect])"

text \<open>
  The inner loop \<open>while checked != items\<close>. The first argument after \<open>other\<close> is the number of
  iterations left, \<open>items - checked\<close>; \<open>None\<close> is the panic of an index out of bounds.
\<close>

fun subtract_scan :: "rect \<Rightarrow> nat \<Rightarrow> nat \<Rightarrow> rect list \<Rightarrow> rect list option" where
  "subtract_scan other 0 index rects = Some rects"
| "subtract_scan other (Suc left) index rects =
     (if length rects \<le> index then None
      else case rect_intersection (rects ! index) other of
        None \<Rightarrow> subtract_scan other left (Suc index) rects
      | Some isect \<Rightarrow>
          (let item = rects ! index;
               rects' = swap_remove index rects
           in if rect_contains_rect other item then subtract_scan other left index rects'
              else subtract_scan other left index (rects' @ subtract_pieces item isect)))"

text \<open>The outer loop over the rectangles to subtract, stopping early when nothing is left.\<close>

fun subtract_rects_many_in_place :: "rect list \<Rightarrow> rect list \<Rightarrow> rect list option" where
  "subtract_rects_many_in_place rects [] = Some rects"
| "subtract_rects_many_in_place rects (other # others) =
     (if rects = [] then Some rects
      else case subtract_scan other (length rects) 0 rects of
        None \<Rightarrow> None
      | Some rects' \<Rightarrow> subtract_rects_many_in_place rects' others)"

definition subtract_rects_many :: "rect list \<Rightarrow> rect list \<Rightarrow> rect list option" where
  "subtract_rects_many rects others = subtract_rects_many_in_place rects others"

definition subtract_rects :: "rect \<Rightarrow> rect list \<Rightarrow> rect list option" where
  "subtract_rects self others = subtract_rects_many_in_place [self] others"

definition subtract_rect :: "rect \<Rightarrow> rect \<Rightarrow> rect list option" where
  "subtract_rect self other = subtract_rects self [other]"

end
