(* ===== verification/Floats.thy ===== *)
theory Floats
  imports Geometry
begin

text \<open>
  The floating point arithmetic the program computes with: rounding of an exact rational to the
  nearest representable number (ties to even, gradual underflow, overflow to infinity), the
  operations of \<open>f64\<close> and \<open>f32\<close> built on it, the saturating cast to \<open>i32\<close>, and the conversions of
  \<open>src/utils/geometry.rs\<close> between coordinate spaces that go through \<open>f64\<close>. The sign of zero is not
  represented.
\<close>

section \<open>Rounding to the nearest representable number\<close>

definition pow2 :: "int \<Rightarrow> rat" where
  "pow2 e = (if 0 \<le> e then 2 ^ nat e else 1 / 2 ^ nat (- e))"

fun bit_count :: "nat \<Rightarrow> nat" where
  "bit_count n = (if n = 0 then 0 else Suc (bit_count (n div 2)))"

declare bit_count.simps [simp del]

text \<open>The exponent of the leading bit of a positive rational.\<close>

definition flog2 :: "rat \<Rightarrow> int" where
  "flog2 x = (case quotient_of x of
     (a, b) \<Rightarrow> let e = int (bit_count (nat a)) - int (bit_count (nat b))
               in if pow2 e \<le> x then e else e - 1)"

definition round_half_even :: "rat \<Rightarrow> int" where
  "round_half_even y =
     (let f = \<lfloor>y\<rfloor>; d = y - of_int f
      in if d < 1 / 2 then f else if 1 / 2 < d then f + 1 else if even f then f else f + 1)"

definition rnd :: "int \<Rightarrow> int \<Rightarrow> rat \<Rightarrow> rat" where
  "rnd p emin x =
     (if x = 0 then 0
      else let u = max (flog2 \<bar>x\<bar> - (p - 1)) emin
           in of_int (round_half_even (x / pow2 u)) * pow2 u)"

definition fl_of :: "int \<Rightarrow> rat \<Rightarrow> fl" where
  "fl_of emax r = (if pow2 emax \<le> \<bar>r\<bar> then Fl_inf (r < 0) else Fl_num r)"

definition round64 :: "rat \<Rightarrow> fl" where
  "round64 x = fl_of 1024 (rnd 53 (-1074) x)"

definition round32 :: "rat \<Rightarrow> fl" where
  "round32 x = fl_of 128 (rnd 24 (-149) x)"

section \<open>Operations\<close>

text \<open>The flag of an infinity says that it is negative.\<close>

fun fl_div :: "(rat \<Rightarrow> fl) \<Rightarrow> fl \<Rightarrow> fl \<Rightarrow> fl" where
  "fl_div rd (Fl_num a) (Fl_num b) =
     (if b = 0 then (if a = 0 then Fl_nan else Fl_inf (a < 0)) else rd (a / b))"
| "fl_div rd (Fl_num a) (Fl_inf n) = Fl_num 0"
| "fl_div rd (Fl_inf n) (Fl_num b) = Fl_inf (n \<noteq> (b < 0))"
| "fl_div rd _ _ = Fl_nan"

fun fl_mul :: "(rat \<Rightarrow> fl) \<Rightarrow> fl \<Rightarrow> fl \<Rightarrow> fl" where
  "fl_mul rd (Fl_num a) (Fl_num b) = rd (a * b)"
| "fl_mul rd (Fl_num a) (Fl_inf n) = (if a = 0 then Fl_nan else Fl_inf (n \<noteq> (a < 0)))"
| "fl_mul rd (Fl_inf n) (Fl_num b) = (if b = 0 then Fl_nan else Fl_inf (n \<noteq> (b < 0)))"
| "fl_mul rd (Fl_inf n) (Fl_inf m) = Fl_inf (n \<noteq> m)"
| "fl_mul rd _ _ = Fl_nan"

fun fl_add :: "(rat \<Rightarrow> fl) \<Rightarrow> fl \<Rightarrow> fl \<Rightarrow> fl" where
  "fl_add rd (Fl_num a) (Fl_num b) = rd (a + b)"
| "fl_add rd (Fl_num a) (Fl_inf n) = Fl_inf n"
| "fl_add rd (Fl_inf n) (Fl_num b) = Fl_inf n"
| "fl_add rd (Fl_inf n) (Fl_inf m) = (if n = m then Fl_inf n else Fl_nan)"
| "fl_add rd _ _ = Fl_nan"

fun fl_less :: "fl \<Rightarrow> fl \<Rightarrow> bool" where
  "fl_less (Fl_num a) (Fl_num b) \<longleftrightarrow> a < b"
| "fl_less (Fl_num a) (Fl_inf n) \<longleftrightarrow> \<not> n"
| "fl_less (Fl_inf n) (Fl_num b) \<longleftrightarrow> n"
| "fl_less (Fl_inf n) (Fl_inf m) \<longleftrightarrow> n \<and> \<not> m"
| "fl_less _ _ \<longleftrightarrow> False"

text \<open>\<open>floor\<close>, \<open>ceil\<close> and \<open>round\<close>, the last with ties away from zero; integers of this size are
  representable or the number is already an integer.\<close>

definition round_away :: "rat \<Rightarrow> int" where
  "round_away x = (if 0 \<le> x then \<lfloor>x + 1 / 2\<rfloor> else - \<lfloor>- x + 1 / 2\<rfloor>)"

fun fl_map_int :: "(rat \<Rightarrow> int) \<Rightarrow> fl \<Rightarrow> fl" where
  "fl_map_int f (Fl_num x) = Fl_num (of_int (f x))"
| "fl_map_int f x = x"

definition fl_round :: "fl \<Rightarrow> fl" where "fl_round = fl_map_int round_away"
definition fl_floor :: "fl \<Rightarrow> fl" where "fl_floor = fl_map_int floor"
definition fl_ceil :: "fl \<Rightarrow> fl" where "fl_ceil = fl_map_int ceiling"

text \<open>The cast \<open>as i32\<close> truncates, saturates, and sends not-a-number to zero.\<close>

definition rat_trunc :: "rat \<Rightarrow> int" where
  "rat_trunc x = (if 0 \<le> x then \<lfloor>x\<rfloor> else - \<lfloor>- x\<rfloor>)"

fun fl_to_i32 :: "fl \<Rightarrow> i32" where
  "fl_to_i32 Fl_nan = 0"
| "fl_to_i32 (Fl_inf n) = (if n then I32_MIN else I32_MAX)"
| "fl_to_i32 (Fl_num x) = sat32 (rat_trunc x)"

definition i32_to_f64 :: "i32 \<Rightarrow> fl" where
  "i32_to_f64 x = round64 (of_int x)"

definition i32_to_f32 :: "i32 \<Rightarrow> fl" where
  "i32_to_f32 x = round32 (of_int x)"

section \<open>Exactness on integers\<close>

lemma bit_count_bounds: "0 < n \<Longrightarrow> 2 ^ (bit_count n - 1) \<le> n \<and> n < 2 ^ bit_count n \<and> 0 < bit_count n"
proof (induction n rule: bit_count.induct)
  case (1 n)
  show ?case
  proof (cases "n = 1")
    case True
    then show ?thesis by (simp add: bit_count.simps)
  next
    case False
    with 1 have n: "0 < n div 2" by auto
    have IH: "2 ^ (bit_count (n div 2) - 1) \<le> n div 2" "n div 2 < 2 ^ bit_count (n div 2)"
      "0 < bit_count (n div 2)"
      using 1 n by auto
    have b: "bit_count n = Suc (bit_count (n div 2))" using 1(2) by (simp add: bit_count.simps)
    have "2 * 2 ^ (bit_count (n div 2) - 1) \<le> n" using IH(1) by linarith
    moreover have "2 * 2 ^ (bit_count (n div 2) - 1) = (2::nat) ^ bit_count (n div 2)"
      using IH(3) by (metis Suc_diff_1 power_Suc)
    moreover have "n < 2 * 2 ^ bit_count (n div 2)" using IH(2) by linarith
    ultimately show ?thesis by (simp add: b)
  qed
qed

lemma bit_count_le: "n < 2 ^ k \<Longrightarrow> bit_count n \<le> k"
proof (rule ccontr)
  assume n: "n < 2 ^ k" and "\<not> bit_count n \<le> k"
  then have k: "k \<le> bit_count n - 1" "0 < bit_count n" by auto
  then have "0 < n" by (metis bit_count.simps gr0I less_irrefl)
  then have "2 ^ (bit_count n - 1) \<le> n" using bit_count_bounds by blast
  moreover have "(2::nat) ^ k \<le> 2 ^ (bit_count n - 1)" using k by (intro power_increasing) auto
  ultimately show False using n by linarith
qed

lemma flog2_int:
  assumes "0 < n"
  shows "flog2 (of_int n) = int (bit_count (nat n)) - 1"
proof -
  have one: "bit_count (Suc 0) = 1" by (simp add: bit_count.simps)
  have b: "2 ^ (bit_count (nat n) - 1) \<le> nat n" "0 < bit_count (nat n)"
    using bit_count_bounds[of "nat n"] assms by auto
  have "(2::rat) ^ (bit_count (nat n) - 1) \<le> of_int n"
  proof -
    have "(2::int) ^ (bit_count (nat n) - 1) \<le> n"
      using b(1) assms by (metis int_nat_eq less_imp_le of_nat_le_iff of_nat_numeral of_nat_power)
    then have "of_int ((2::int) ^ (bit_count (nat n) - 1)) \<le> (of_int n :: rat)" by (simp only: of_int_le_iff)
    then show ?thesis by simp
  qed
  moreover have "nat (int (bit_count (nat n)) - 1) = bit_count (nat n) - 1" by simp
  ultimately show ?thesis
    using b(2) by (simp add: flog2_def quotient_of_int one pow2_def Let_def)
qed

lemma round_half_even_int [simp]: "round_half_even (of_int n) = n"
  by (simp add: round_half_even_def)

lemma rnd_int:
  assumes n: "\<bar>n\<bar> < 2 ^ k" and k: "int k \<le> p" and e: "emin \<le> 0"
  shows "rnd p emin (of_int n) = of_int n"
proof (cases "n = 0")
  case False
  let ?u = "max (flog2 \<bar>of_int n\<bar> - (p - 1)) emin"
  have "nat \<bar>n\<bar> < 2 ^ k" using n by (simp add: nat_less_iff)
  then have "bit_count (nat \<bar>n\<bar>) \<le> k" by (rule bit_count_le)
  moreover have "flog2 \<bar>of_int n :: rat\<bar> = int (bit_count (nat \<bar>n\<bar>)) - 1"
    using flog2_int[of "\<bar>n\<bar>"] False by simp
  ultimately have u: "?u \<le> 0" using k e by simp
  have nz: "pow2 ?u \<noteq> 0" by (simp add: pow2_def)
  have "of_int n / pow2 ?u = of_int (n * 2 ^ nat (- ?u))"
    using u by (cases "?u = 0") (simp_all add: pow2_def)
  then have "round_half_even (of_int n / pow2 ?u) = n * 2 ^ nat (- ?u)"
    by (metis round_half_even_int)
  moreover have "of_int (n * 2 ^ nat (- ?u)) * pow2 ?u = of_int n"
    using \<open>of_int n / pow2 ?u = of_int (n * 2 ^ nat (- ?u))\<close> nz by (metis nonzero_eq_divide_eq)
  ultimately show ?thesis using False by (simp add: rnd_def Let_def)
qed (simp add: rnd_def)

lemma pow2_1024: "pow2 1024 = 2 ^ 1024"
  by (simp only: pow2_def) simp

lemma rnd53_i32: "in_i32 n \<Longrightarrow> rnd 53 (-1074) (of_int n) = of_int n"
  by (rule rnd_int[where k = 32]) (auto simp: in_i32_def)

lemma i32_small: "in_i32 n \<Longrightarrow> \<bar>of_int n :: rat\<bar> < 2 ^ 1024"
proof -
  assume "in_i32 n"
  then have "\<bar>n\<bar> \<le> 2 ^ 32" by (auto simp: in_i32_def)
  then have "\<bar>of_int n :: rat\<bar> \<le> of_int (2 ^ 32)" by (metis of_int_abs of_int_le_iff)
  also have "\<dots> = (2::rat) ^ 32" by simp
  also have "\<dots> < 2 ^ 1024" by (rule power_strict_increasing) simp_all
  finally show ?thesis .
qed

lemma round64_i32: "in_i32 n \<Longrightarrow> round64 (of_int n) = Fl_num (of_int n)"
  using i32_small[of n] by (simp add: round64_def fl_of_def rnd53_i32 pow2_1024 not_le)

lemma i32_to_f64_exact [simp]: "in_i32 x \<Longrightarrow> i32_to_f64 x = Fl_num (of_int x)"
  by (simp add: i32_to_f64_def round64_i32)

lemma round_away_int [simp]: "round_away (of_int n) = n"
proof -
  have "\<lfloor>of_int m + 1 / 2 :: rat\<rfloor> = m" for m :: int by linarith
  from this[of n] this[of "- n"] show ?thesis by (simp add: round_away_def)
qed

lemma rat_trunc_int [simp]: "rat_trunc (of_int n) = n"
  by (simp add: rat_trunc_def floor_minus)

lemma fl_to_i32_int: "in_i32 n \<Longrightarrow> fl_to_i32 (fl_round (Fl_num (of_int n))) = n"
  by (simp add: fl_round_def sat32_id)

section \<open>Conversions through \<open>f64\<close>\<close>

text \<open>The cast of a coordinate after rounding, and the two arithmetic steps on one coordinate.\<close>

record fpoint =
  fpx :: fl
  fpy :: fl

record fsz =
  fsw :: fl
  fsh :: fl

record frect =
  frloc :: fpoint
  frsize :: fsz

definition point_to_f64 :: "point \<Rightarrow> fpoint" where
  "point_to_f64 p = \<lparr>fpx = i32_to_f64 (px p), fpy = i32_to_f64 (py p)\<rparr>"

definition size_to_f64 :: "sz \<Rightarrow> fsz" where
  "size_to_f64 s = \<lparr>fsw = i32_to_f64 (sw s), fsh = i32_to_f64 (sh s)\<rparr>"

definition rect_to_f64 :: "rect \<Rightarrow> frect" where
  "rect_to_f64 r = \<lparr>frloc = point_to_f64 (rloc r), frsize = size_to_f64 (rsize r)\<rparr>"

definition fpoint_upscale :: "fpoint \<Rightarrow> fl \<Rightarrow> fpoint" where
  "fpoint_upscale p s = \<lparr>fpx = fl_mul round64 (fpx p) s, fpy = fl_mul round64 (fpy p) s\<rparr>"

definition fpoint_downscale :: "fpoint \<Rightarrow> fl \<Rightarrow> fpoint" where
  "fpoint_downscale p s = \<lparr>fpx = fl_div round64 (fpx p) s, fpy = fl_div round64 (fpy p) s\<rparr>"

definition fsize_upscale :: "fsz \<Rightarrow> fl \<Rightarrow> fsz" where
  "fsize_upscale z s = \<lparr>fsw = fl_mul round64 (fsw z) s, fsh = fl_mul round64 (fsh z) s\<rparr>"

definition fsize_downscale :: "fsz \<Rightarrow> fl \<Rightarrow> fsz" where
  "fsize_downscale z s = \<lparr>fsw = fl_div round64 (fsw z) s, fsh = fl_div round64 (fsh z) s\<rparr>"

definition fpoint_add_size :: "fpoint \<Rightarrow> fsz \<Rightarrow> fpoint" where
  "fpoint_add_size p z = \<lparr>fpx = fl_add round64 (fpx p) (fsw z), fpy = fl_add round64 (fpy p) (fsh z)\<rparr>"

definition fpoint_to_i32_round :: "fpoint \<Rightarrow> point" where
  "fpoint_to_i32_round p = \<lparr>px = fl_to_i32 (fl_round (fpx p)), py = fl_to_i32 (fl_round (fpy p))\<rparr>"

definition fpoint_to_i32_floor :: "fpoint \<Rightarrow> point" where
  "fpoint_to_i32_floor p = \<lparr>px = fl_to_i32 (fl_floor (fpx p)), py = fl_to_i32 (fl_floor (fpy p))\<rparr>"

definition fpoint_to_i32_ceil :: "fpoint \<Rightarrow> point" where
  "fpoint_to_i32_ceil p = \<lparr>px = fl_to_i32 (fl_ceil (fpx p)), py = fl_to_i32 (fl_ceil (fpy p))\<rparr>"

definition fsize_to_i32_round :: "fsz \<Rightarrow> sz" where
  "fsize_to_i32_round z = \<lparr>sw = fl_to_i32 (fl_round (fsw z)), sh = fl_to_i32 (fl_round (fsh z))\<rparr>"

definition fsize_to_i32_floor :: "fsz \<Rightarrow> sz" where
  "fsize_to_i32_floor z = \<lparr>sw = fl_to_i32 (fl_floor (fsw z)), sh = fl_to_i32 (fl_floor (fsh z))\<rparr>"

definition fsize_to_i32_ceil :: "fsz \<Rightarrow> sz" where
  "fsize_to_i32_ceil z = \<lparr>sw = fl_to_i32 (fl_ceil (fsw z)), sh = fl_to_i32 (fl_ceil (fsh z))\<rparr>"

definition frect_to_i32_round :: "frect \<Rightarrow> rect" where
  "frect_to_i32_round r = \<lparr>rloc = fpoint_to_i32_round (frloc r), rsize = fsize_to_i32_round (frsize r)\<rparr>"

definition frect_to_i32_down :: "frect \<Rightarrow> rect" where
  "frect_to_i32_down r = rect_from_extremities (fpoint_to_i32_ceil (frloc r))
     (fpoint_to_i32_floor (fpoint_add_size (frloc r) (frsize r)))"

definition frect_to_i32_up :: "frect \<Rightarrow> rect" where
  "frect_to_i32_up r = rect_from_extremities (fpoint_to_i32_floor (frloc r))
     (fpoint_to_i32_ceil (fpoint_add_size (frloc r) (frsize r)))"

definition frect_upscale :: "frect \<Rightarrow> fl \<Rightarrow> frect" where
  "frect_upscale r s = \<lparr>frloc = fpoint_upscale (frloc r) s, frsize = fsize_upscale (frsize r) s\<rparr>"

definition frect_downscale :: "frect \<Rightarrow> fl \<Rightarrow> frect" where
  "frect_downscale r s = \<lparr>frloc = fpoint_downscale (frloc r) s, frsize = fsize_downscale (frsize r) s\<rparr>"

text \<open>The precise conversions from logical to physical coordinates.\<close>

definition point_to_physical_precise_round :: "point \<Rightarrow> fl \<Rightarrow> point" where
  "point_to_physical_precise_round p s = fpoint_to_i32_round (fpoint_upscale (point_to_f64 p) s)"

definition point_to_physical_precise_ceil :: "point \<Rightarrow> fl \<Rightarrow> point" where
  "point_to_physical_precise_ceil p s = fpoint_to_i32_ceil (fpoint_upscale (point_to_f64 p) s)"

definition point_to_physical_precise_floor :: "point \<Rightarrow> fl \<Rightarrow> point" where
  "point_to_physical_precise_floor p s = fpoint_to_i32_floor (fpoint_upscale (point_to_f64 p) s)"

definition size_to_physical_precise_round :: "sz \<Rightarrow> fl \<Rightarrow> sz" where
  "size_to_physical_precise_round z s = fsize_to_i32_round (fsize_upscale (size_to_f64 z) s)"

definition size_to_physical_precise_ceil :: "sz \<Rightarrow> fl \<Rightarrow> sz" where
  "size_to_physical_precise_ceil z s = fsize_to_i32_ceil (fsize_upscale (size_to_f64 z) s)"

definition size_to_physical_precise_floor :: "sz \<Rightarrow> fl \<Rightarrow> sz" where
  "size_to_physical_precise_floor z s = fsize_to_i32_floor (fsize_upscale (size_to_f64 z) s)"

definition rect_to_physical_precise_round :: "rect \<Rightarrow> fl \<Rightarrow> rect" where
  "rect_to_physical_precise_round r s = frect_to_i32_round (frect_upscale (rect_to_f64 r) s)"

definition rect_to_physical_precise_down :: "rect \<Rightarrow> fl \<Rightarrow> rect" where
  "rect_to_physical_precise_down r s = frect_to_i32_down (frect_upscale (rect_to_f64 r) s)"

definition rect_to_physical_precise_up :: "rect \<Rightarrow> fl \<Rightarrow> rect" where
  "rect_to_physical_precise_up r s = frect_to_i32_up (frect_upscale (rect_to_f64 r) s)"

text \<open>
  How the protocol handlers take coordinates from a client with a scale override: to \<open>f64\<close>, divided
  by the scale, rounded back.
\<close>

definition client_point :: "fl \<Rightarrow> point \<Rightarrow> point" where
  "client_point s p = fpoint_to_i32_round (fpoint_downscale (point_to_f64 p) s)"

definition client_rect :: "fl \<Rightarrow> rect \<Rightarrow> rect" where
  "client_rect s r = frect_to_i32_round (frect_downscale (rect_to_f64 r) s)"

definition in_i32_point :: "point \<Rightarrow> bool" where
  "in_i32_point p \<longleftrightarrow> in_i32 (px p) \<and> in_i32 (py p)"

lemma fl_div_one: "in_i32 x \<Longrightarrow> fl_div round64 (Fl_num (of_int x)) (Fl_num 1) = Fl_num (of_int x)"
  by (simp add: round64_i32)

lemma client_point_one: "in_i32_point p \<Longrightarrow> client_point (Fl_num 1) p = p"
  by (simp add: client_point_def fpoint_to_i32_round_def fpoint_downscale_def point_to_f64_def
      in_i32_point_def fl_div_one fl_to_i32_int del: fl_div.simps)

lemma fl_mul_int:
  "in_i32 x \<Longrightarrow> in_i32 (x * k) \<Longrightarrow> fl_mul round64 (Fl_num (of_int x)) (Fl_num (of_int k)) = Fl_num (of_int (x * k))"
  using round64_i32[of "x * k"] by simp

text \<open>The conversions through \<open>f64\<close> agree with integer arithmetic where the result fits: at an
  integer scale the three precise conversions of a point all give the product, and at scale one
  the coordinates of a client are taken unchanged.\<close>

theorem precise_conversion_at_integer_scale:
  assumes "in_i32_point p" "in_i32 (px p * k)" "in_i32 (py p * k)"
  shows "point_to_physical_precise_round p (Fl_num (of_int k)) = point_new (px p * k) (py p * k)
    \<and> point_to_physical_precise_floor p (Fl_num (of_int k)) = point_new (px p * k) (py p * k)
    \<and> point_to_physical_precise_ceil p (Fl_num (of_int k)) = point_new (px p * k) (py p * k)
    \<and> client_point (Fl_num 1) p = p"
proof -
  have i: "in_i32 (px p)" "in_i32 (py p)" using assms(1) by (simp_all add: in_i32_point_def)
  have u: "fpoint_upscale (point_to_f64 p) (Fl_num (of_int k))
      = \<lparr>fpx = Fl_num (of_int (px p * k)), fpy = Fl_num (of_int (py p * k))\<rparr>"
    using i fl_mul_int[OF i(1) assms(2)] fl_mul_int[OF i(2) assms(3)]
    by (simp add: fpoint_upscale_def point_to_f64_def del: fl_mul.simps of_int_mult)
  show ?thesis
    unfolding point_to_physical_precise_round_def point_to_physical_precise_floor_def
      point_to_physical_precise_ceil_def u
    using assms(2,3) client_point_one[OF assms(1)]
    by (simp add: fpoint_to_i32_round_def fpoint_to_i32_floor_def fpoint_to_i32_ceil_def point_new_def
        fl_round_def fl_floor_def fl_ceil_def sat32_id del: of_int_mult)
qed

theorem precise_conversion_at_integer_scale_witness:
  "point_to_physical_precise_round (point_new (-7) 100) (Fl_num 2) = point_new (-14) 200"
  using precise_conversion_at_integer_scale[of "point_new (-7) 100" 2]
  by (simp add: in_i32_point_def in_i32_def point_new_def)

end
