(* ===== verification/Pixels.thy ===== *)
theory Pixels
  imports Geometry
begin

text \<open>
  The meaning of rectangles as sets of pixels, and what intersection, merging and the
  subtraction loop of \<open>src/utils/geometry.rs\<close> do to that meaning. Every statement is about
  well-formed rectangles: coordinates in the range of \<open>i32\<close> and non-negative sizes, which may
  still reach past the right and bottom numeric bounds, where the edges saturate.
\<close>

section \<open>Well-formed rectangles and their pixels\<close>

type_synonym pixel = "int \<times> int"

definition wf_size :: "sz \<Rightarrow> bool" where
  "wf_size s \<longleftrightarrow> in_i32 (sw s) \<and> in_i32 (sh s) \<and> 0 \<le> sw s \<and> 0 \<le> sh s"

definition wf_point :: "point \<Rightarrow> bool" where
  "wf_point p \<longleftrightarrow> in_i32 (px p) \<and> in_i32 (py p)"

definition wf_rect :: "rect \<Rightarrow> bool" where
  "wf_rect r \<longleftrightarrow> wf_point (rloc r) \<and> wf_size (rsize r)"

definition pixels :: "rect \<Rightarrow> pixel set" where
  "pixels r = {(x, y). rx r \<le> x \<and> x < rright r \<and> ry r \<le> y \<and> y < rbottom r}"

definition pixels_of :: "rect list \<Rightarrow> pixel set" where
  "pixels_of rs = (\<Union>r\<in>set rs. pixels r)"

definition wf_rects :: "rect list \<Rightarrow> bool" where
  "wf_rects rs \<longleftrightarrow> (\<forall>r\<in>set rs. wf_rect r)"

lemma pixels_contains: "(px p, py p) \<in> pixels r \<longleftrightarrow> rect_contains r p"
  by (auto simp: pixels_def rect_contains_def)

lemma pixels_of_simps [simp]:
  "pixels_of [] = {}"
  "pixels_of (r # rs) = pixels r \<union> pixels_of rs"
  "pixels_of (rs @ qs) = pixels_of rs \<union> pixels_of qs"
  by (auto simp: pixels_of_def)

lemma wf_rects_simps [simp]:
  "wf_rects []"
  "wf_rects (r # rs) \<longleftrightarrow> wf_rect r \<and> wf_rects rs"
  "wf_rects (rs @ qs) \<longleftrightarrow> wf_rects rs \<and> wf_rects qs"
  by (auto simp: wf_rects_def)

lemma wf_rectD:
  assumes "wf_rect r"
  shows "in_i32 (rx r)" "in_i32 (ry r)" "in_i32 (rw r)" "in_i32 (rh r)" "0 \<le> rw r" "0 \<le> rh r"
    "rx r \<le> rright r" "ry r \<le> rbottom r" "rright r - rx r \<le> rw r" "rbottom r - ry r \<le> rh r"
    "in_i32 (rright r)" "in_i32 (rbottom r)"
  using assms sat_add_ge[of "rx r" "rw r"] sat_add_ge[of "ry r" "rh r"]
    sat_add_le[of "rx r" "rw r"] sat_add_le[of "ry r" "rh r"]
  by (auto simp: wf_rect_def wf_point_def wf_size_def)

lemma pixels_empty: "wf_rect r \<Longrightarrow> rect_is_empty r \<Longrightarrow> pixels r = {}"
  using wf_rectD[of r] by (auto simp: pixels_def rect_is_empty_def size_is_empty_def)

text \<open>
  A rectangle written down by its four edges. Every rectangle the code builds from edges whose
  distance fits in \<open>i32\<close> has exactly those edges.
\<close>

definition has_edges :: "rect \<Rightarrow> int \<Rightarrow> int \<Rightarrow> int \<Rightarrow> int \<Rightarrow> bool" where
  "has_edges r l t ri b \<longleftrightarrow>
     wf_rect r \<and> rx r = l \<and> ry r = t \<and> rw r = ri - l \<and> rh r = b - t \<and> rright r = ri \<and> rbottom r = b"

text \<open>A rectangle whose edges do not saturate.\<close>

definition exact_rect :: "rect \<Rightarrow> bool" where
  "exact_rect r \<longleftrightarrow> rright r = rx r + rw r \<and> rbottom r = ry r + rh r"

lemma has_edges_exact: "has_edges r l t ri b \<Longrightarrow> exact_rect r"
  by (auto simp: has_edges_def exact_rect_def)

lemma has_edgesI:
  assumes "in_i32 l" "in_i32 t" "in_i32 ri" "in_i32 b" "l \<le> ri" "t \<le> b"
    and "ri - l \<le> I32_MAX" "b - t \<le> I32_MAX"
    and "rloc r = \<lparr>px = l, py = t\<rparr>" "rsize r = \<lparr>sw = ri - l, sh = b - t\<rparr>"
  shows "has_edges r l t ri b"
proof -
  have "in_i32 (ri - l)" "in_i32 (b - t)"
    using assms(5-8) by (auto simp: in_i32_def)
  then show ?thesis
    using assms by (simp add: has_edges_def wf_rect_def wf_point_def wf_size_def range_simps)
qed

lemma has_edges_pixels:
  "has_edges r l t ri b \<Longrightarrow> pixels r = {(x, y). l \<le> x \<and> x < ri \<and> t \<le> y \<and> y < b}"
  by (auto simp: has_edges_def pixels_def)

lemma from_extremities_edges:
  assumes "in_i32 l" "in_i32 t" "in_i32 ri" "in_i32 b" "l \<le> ri" "t \<le> b"
    and "ri - l \<le> I32_MAX" "b - t \<le> I32_MAX"
  shows "has_edges (rect_from_extremities (point_new l t) (point_new ri b)) l t ri b"
proof (rule has_edgesI)
  have "in_i32 (ri - l)" "in_i32 (b - t)" using assms by (auto simp: in_i32_def)
  then show "rsize (rect_from_extremities (point_new l t) (point_new ri b)) = \<lparr>sw = ri - l, sh = b - t\<rparr>"
    by (simp add: rect_from_extremities_def point_to_size_def point_sub_def point_new_def range_simps)
qed (use assms in \<open>simp_all add: rect_from_extremities_def point_new_def\<close>)

section \<open>Intersection\<close>

lemma rect_overlaps_commute: "rect_overlaps a b \<longleftrightarrow> rect_overlaps b a"
  by (auto simp: rect_overlaps_def)

lemma no_overlap_disjoint: "\<not> rect_overlaps a b \<Longrightarrow> pixels a \<inter> pixels b = {}"
  by (auto simp: rect_overlaps_def pixels_def)

lemma intersection_edges:
  assumes "wf_rect a" "wf_rect b" "rect_intersection a b = Some i"
  shows "has_edges i (max (rx a) (rx b)) (max (ry a) (ry b))
           (min (rright a) (rright b)) (min (rbottom a) (rbottom b))"
proof -
  note a = wf_rectD[OF assms(1)] and b = wf_rectD[OF assms(2)]
  from assms(3) have ov: "rect_overlaps a b"
    and i: "i = rect_from_extremities
        (point_new (max (rx a) (rx b)) (max (ry a) (ry b)))
        (point_new (min (rright a) (rright b)) (min (rbottom a) (rbottom b)))"
    by (auto simp: rect_intersection_def split: if_splits)
  have "max (rx a) (rx b) \<le> min (rright a) (rright b)" "max (ry a) (ry b) \<le> min (rbottom a) (rbottom b)"
    using ov a b by (auto simp: rect_overlaps_def)
  moreover have "min (rright a) (rright b) - max (rx a) (rx b) \<le> I32_MAX"
    "min (rbottom a) (rbottom b) - max (ry a) (ry b) \<le> I32_MAX"
    using a b by (auto simp: in_i32_def min_def max_def)
  ultimately show ?thesis
    using a b unfolding i by (intro from_extremities_edges) auto
qed

lemma intersection_pixels:
  assumes "wf_rect a" "wf_rect b" "rect_intersection a b = Some i"
  shows "wf_rect i" "pixels i = pixels a \<inter> pixels b"
  using intersection_edges[OF assms] has_edges_pixels[OF intersection_edges[OF assms]]
  by (auto simp: has_edges_def pixels_def)

lemma intersection_None: "rect_intersection a b = None \<longleftrightarrow> \<not> rect_overlaps a b"
  by (simp add: rect_intersection_def)

lemma intersection_None_disjoint: "rect_intersection a b = None \<Longrightarrow> pixels a \<inter> pixels b = {}"
  by (simp add: intersection_None no_overlap_disjoint)

lemma contains_rect_pixels: "rect_contains_rect a b \<Longrightarrow> pixels b \<subseteq> pixels a"
  by (auto simp: rect_contains_rect_def pixels_def)

section \<open>Bounding box and merge\<close>

lemma bounding_fold_Some:
  "bounding_fold (Some (lo, hi)) ps =
     Some (point_new (fold (\<lambda>p. min (px p)) ps (px lo)) (fold (\<lambda>p. min (py p)) ps (py lo)),
           point_new (fold (\<lambda>p. max (px p)) ps (px hi)) (fold (\<lambda>p. max (py p)) ps (py hi)))"
  by (induction ps arbitrary: lo hi) (simp_all add: point_new_def)

lemma merge_edges:
  assumes "wf_rect a" "wf_rect b"
    and "max (rright a) (rright b) - min (rx a) (rx b) \<le> I32_MAX"
    and "max (rbottom a) (rbottom b) - min (ry a) (ry b) \<le> I32_MAX"
  shows "has_edges (rect_merge a b) (min (rx a) (rx b)) (min (ry a) (ry b))
           (max (rright a) (rright b)) (max (rbottom a) (rbottom b))"
proof -
  note a = wf_rectD[OF assms(1)] and b = wf_rectD[OF assms(2)]
  have lo: "min d (min c (min b a)) = min a c" and hi: "max d (max c (max b a)) = max b d"
    if "a \<le> b" "c \<le> d" for a b c d :: int
    using that by (simp_all add: min_def max_def)
  have "rect_merge a b = rect_from_extremities
      (point_new (min (rright b) (min (rx b) (min (rright a) (rx a))))
                 (min (rbottom b) (min (ry b) (min (rbottom a) (ry a)))))
      (point_new (max (rright b) (max (rx b) (max (rright a) (rx a))))
                 (max (rbottom b) (max (ry b) (max (rbottom a) (ry a)))))"
    by (simp add: rect_merge_def rect_bounding_box_def bounding_fold_Some point_add_size_def)
  also have "\<dots> = rect_from_extremities
      (point_new (min (rx a) (rx b)) (min (ry a) (ry b)))
      (point_new (max (rright a) (rright b)) (max (rbottom a) (rbottom b)))"
    by (simp only: lo[OF a(7) b(7)] lo[OF a(8) b(8)] hi[OF a(7) b(7)] hi[OF a(8) b(8)])
  finally have "rect_merge a b = rect_from_extremities
      (point_new (min (rx a) (rx b)) (min (ry a) (ry b)))
      (point_new (max (rright a) (rright b)) (max (rbottom a) (rbottom b)))" .
  moreover have "min (rx a) (rx b) \<le> max (rright a) (rright b)"
    "min (ry a) (ry b) \<le> max (rbottom a) (rbottom b)"
    using a(7,8) by linarith+
  ultimately show ?thesis
    using from_extremities_edges[OF in_i32_min_max(1)[OF a(1) b(1)] in_i32_min_max(1)[OF a(2) b(2)]
        in_i32_min_max(2)[OF a(11) b(11)] in_i32_min_max(2)[OF a(12) b(12)] _ _ assms(3,4)]
    by (simp only:)
qed

section \<open>Subtraction\<close>

lemma rect_new_sel [simp]:
  "rloc (rect_new l s) = l" "rsize (rect_new l s) = s"
  "px (point_new x y) = x" "py (point_new x y) = y"
  "sw (size_new w h) = w" "sh (size_new w h) = h"
  by (simp_all add: rect_new_def point_new_def size_new_def)

lemma strip_edges:
  assumes "in_i32 l" "in_i32 t" "in_i32 ri" "in_i32 b" "l \<le> ri" "t \<le> b"
    and "ri - l \<le> I32_MAX" "b - t \<le> I32_MAX" "w = ri - l" "h = b - t"
  shows "has_edges (rect_new (point_new l t) (size_new w h)) l t ri b"
  using assms by (intro has_edgesI) (simp_all add: point_new_def size_new_def)

lemma pixels_of_filter_nonempty:
  "wf_rects rs \<Longrightarrow> pixels_of (filter (\<lambda>r. \<not> rect_is_empty r) rs) = pixels_of rs"
  by (induction rs) (auto simp: pixels_empty)


lemma strips_cover:
  fixes l t ri b L T R B :: int
  assumes "L \<le> l" "l \<le> ri" "ri \<le> R" "T \<le> t" "t \<le> b" "b \<le> B"
  shows "{(x, y). L \<le> x \<and> x < R \<and> T \<le> y \<and> y < t} \<union> ({(x, y). L \<le> x \<and> x < l \<and> t \<le> y \<and> y < b} \<union>
      ({(x, y). ri \<le> x \<and> x < R \<and> t \<le> y \<and> y < b} \<union> {(x, y). L \<le> x \<and> x < R \<and> b \<le> y \<and> y < B}))
    = {(x, y). L \<le> x \<and> x < R \<and> T \<le> y \<and> y < B} - {(x, y). l \<le> x \<and> x < ri \<and> t \<le> y \<and> y < b}"
  using assms by auto

lemma subtract_pieces_spec:
  assumes item: "wf_rect item" and other: "wf_rect other" and i: "rect_intersection item other = Some i"
  shows "wf_rects (subtract_pieces item i)"
    and "pixels_of (subtract_pieces item i) = pixels item - pixels other"
    and "sorted_wrt (\<lambda>a b. pixels a \<inter> pixels b = {}) (subtract_pieces item i)"
    and "exact_rect item \<Longrightarrow> \<forall>r\<in>set (subtract_pieces item i). exact_rect r"
proof -
  note a = wf_rectD[OF item]
  note ie = intersection_edges[OF item other i]
  define l t ri b where "l = rx i" and "t = ry i" and "ri = rright i" and "b = rbottom i"
  have i': "has_edges i l t ri b" and lt: "rx item \<le> l" "ry item \<le> t" "ri \<le> rright item" "b \<le> rbottom item"
    using ie by (auto simp: has_edges_def l_def t_def ri_def b_def)
  have le: "l \<le> ri" "t \<le> b" and r32: "in_i32 l" "in_i32 t" "in_i32 ri" "in_i32 b"
    and dims: "rw i = ri - l" "rh i = b - t"
    using i' wf_rectD[of i] by (auto simp: has_edges_def)
  have d32: "in_i32 (t - ry item)" "in_i32 (l - rx item)" "in_i32 (rright item - ri)"
      "in_i32 (rbottom item - b)"
    using a lt le by (auto simp: in_i32_def)
  define top where "top = rect_new (rloc item) (size_new (rw item) (sat_sub t (ry item)))"
  define left where "left = rect_new (point_new (rx item) t) (size_new (sat_sub l (rx item)) (rh i))"
  define right where "right = rect_new (point_new ri t) (size_new (sat_sub (rright item) ri) (rh i))"
  define bottom where
    "bottom = rect_new (point_new (rx item) b) (size_new (rw item) (sat_sub (rbottom item) b))"
  have pieces: "subtract_pieces item i = filter (\<lambda>r. \<not> rect_is_empty r) [top, left, right, bottom]"
    by (simp add: subtract_pieces_def Let_def top_def left_def right_def bottom_def
        l_def t_def ri_def b_def)
  have top: "wf_rect top" "pixels top = {(x, y). rx item \<le> x \<and> x < rright item \<and> ry item \<le> y \<and> y < t}"
    using a lt r32 d32
    by (simp_all add: top_def wf_rect_def wf_point_def wf_size_def pixels_def range_simps)
  have bottom: "wf_rect bottom"
    "pixels bottom = {(x, y). rx item \<le> x \<and> x < rright item \<and> b \<le> y \<and> y < rbottom item}"
    using a lt r32 d32
    by (simp_all add: bottom_def wf_rect_def wf_point_def wf_size_def pixels_def range_simps)
  have w: "l - rx item \<le> I32_MAX" "rright item - ri \<le> I32_MAX" "b - t \<le> I32_MAX"
    using d32 dims wf_rectD(4)[of i] i' by (simp_all add: in_i32_def has_edges_def)
  have left: "has_edges left (rx item) t l b"
    unfolding left_def by (rule strip_edges) (use a lt le r32 d32 w dims in \<open>simp_all add: range_simps\<close>)
  have right: "has_edges right ri t (rright item) b"
    unfolding right_def by (rule strip_edges) (use a lt le r32 d32 w dims in \<open>simp_all add: range_simps\<close>)
  have wf: "wf_rects [top, left, right, bottom]"
    using top bottom left right by (simp add: has_edges_def)
  have px: "pixels_of [top, left, right, bottom] = pixels item - pixels i"
    using strips_cover[OF lt(1) le(1) lt(3) lt(2) le(2) lt(4)]
    by (simp add: top bottom has_edges_pixels[OF left] has_edges_pixels[OF right]
        has_edges_pixels[OF i'] pixels_def[of item] Un_assoc)
  from wf show "wf_rects (subtract_pieces item i)"
    by (simp add: pieces wf_rects_def)
  have "pixels i = pixels item \<inter> pixels other" by (rule intersection_pixels[OF item other i])
  then show "pixels_of (subtract_pieces item i) = pixels item - pixels other"
    using px pixels_of_filter_nonempty[OF wf] by (auto simp: pieces)
  have "sorted_wrt (\<lambda>a b. pixels a \<inter> pixels b = {}) [top, left, right, bottom]"
    using le by (auto simp: top bottom has_edges_pixels[OF left] has_edges_pixels[OF right])
  then show "sorted_wrt (\<lambda>a b. pixels a \<inter> pixels b = {}) (subtract_pieces item i)"
    unfolding pieces by (rule sorted_wrt_filter)
  show "\<forall>r\<in>set (subtract_pieces item i). exact_rect r" if ex: "exact_rect item"
  proof -
    have "exact_rect left" "exact_rect right"
      using left right by (simp_all add: has_edges_exact)
    moreover have "exact_rect top" "exact_rect bottom"
      using ex a lt r32 d32 by (simp_all add: exact_rect_def top_def bottom_def range_simps)
    ultimately show ?thesis by (simp add: pieces)
  qed
qed


text \<open>What one pass of the inner loop keeps: nothing outside is added, nothing is lost but \<open>other\<close>.\<close>

definition covers_difference :: "rect list \<Rightarrow> rect \<Rightarrow> rect list \<Rightarrow> bool" where
  "covers_difference rects other res \<longleftrightarrow>
     wf_rects res \<and> pixels_of rects - pixels other \<subseteq> pixels_of res \<and> pixels_of res \<subseteq> pixels_of rects"

lemma pixels_of_swap_remove:
  "index < length rects \<Longrightarrow> pixels_of rects = pixels (rects ! index) \<union> pixels_of (swap_remove index rects)"
  using set_swap_remove[of index rects] by (simp add: pixels_of_def)

lemma wf_rects_nth:
  assumes "wf_rects rects" "index < length rects"
  shows "wf_rect (rects ! index)" "wf_rects (swap_remove index rects)"
  using assms set_swap_remove[of index rects] by (auto simp: wf_rects_def)

lemma subtract_scan_covers:
  assumes "wf_rects rects" "wf_rect other" "index + left \<le> length rects"
  shows "\<exists>res. subtract_scan other left index rects = Some res \<and> covers_difference rects other res"
  using assms
proof (induction left arbitrary: index rects)
  case 0
  then show ?case by (auto simp: covers_difference_def)
next
  case (Suc left)
  define item rest where "item = rects ! index" and "rest = swap_remove index rects"
  from Suc.prems have idx: "index < length rects" by simp
  have px: "pixels_of rects = pixels item \<union> pixels_of rest"
    unfolding item_def rest_def by (rule pixels_of_swap_remove[OF idx])
  have wf: "wf_rect item" "wf_rects rest"
    using wf_rects_nth[OF Suc.prems(1) idx] by (simp_all add: item_def rest_def)
  have len: "index + left \<le> length rest" using Suc.prems(3) by (simp add: rest_def)
  show ?case
  proof (cases "rect_intersection item other")
    case None
    then have "subtract_scan other (Suc left) index rects = subtract_scan other left (Suc index) rects"
      using idx by (simp add: item_def)
    with Suc.IH[of rects "Suc index"] Suc.prems show ?thesis by simp
  next
    case (Some i)
    show ?thesis
    proof (cases "rect_contains_rect other item")
      case True
      then have "subtract_scan other (Suc left) index rects = subtract_scan other left index rest"
        using idx Some by (simp add: item_def rest_def)
      with Suc.IH[OF wf(2) Suc.prems(2) len] contains_rect_pixels[OF True] px show ?thesis
        by (auto simp: covers_difference_def)
    next
      case False
      let ?ps = "subtract_pieces item i"
      have "subtract_scan other (Suc left) index rects = subtract_scan other left index (rest @ ?ps)"
        using idx Some False by (simp add: item_def rest_def Let_def)
      moreover have "wf_rects (rest @ ?ps)" "pixels_of ?ps = pixels item - pixels other"
        using subtract_pieces_spec[OF wf(1) Suc.prems(2) Some] wf(2) by simp_all
      ultimately show ?thesis
        using Suc.IH[of "rest @ ?ps" index] Suc.prems(2) len px
        by (auto simp: covers_difference_def)
    qed
  qed
qed

lemma subtract_many_covers:
  assumes "wf_rects rects" "wf_rects others"
  shows "\<exists>res. subtract_rects_many_in_place rects others = Some res \<and> wf_rects res \<and>
     pixels_of rects - pixels_of others \<subseteq> pixels_of res \<and> pixels_of res \<subseteq> pixels_of rects"
  using assms
proof (induction others arbitrary: rects)
  case Nil
  then show ?case by simp
next
  case (Cons other others)
  show ?case
  proof (cases "rects = []")
    case True
    then show ?thesis by simp
  next
    case False
    obtain mid where mid: "subtract_scan other (length rects) 0 rects = Some mid"
      and cov: "covers_difference rects other mid"
      using subtract_scan_covers[of rects other 0 "length rects"] Cons.prems by auto
    obtain res where "subtract_rects_many_in_place mid others = Some res" "wf_rects res"
      "pixels_of mid - pixels_of others \<subseteq> pixels_of res" "pixels_of res \<subseteq> pixels_of mid"
      using Cons.IH[of mid] Cons.prems cov by (auto simp: covers_difference_def)
    then show ?thesis using False mid cov by (auto simp: covers_difference_def)
  qed
qed

lemma subtract_scan_single:
  assumes "wf_rect r" "wf_rect other"
  shows "\<exists>res. subtract_scan other 1 0 [r] = Some res \<and> wf_rects res \<and>
     pixels_of res = pixels r - pixels other"
proof (cases "rect_intersection r other")
  case None
  then show ?thesis using assms intersection_None_disjoint[OF None] by auto
next
  case (Some i)
  then show ?thesis
    using assms subtract_pieces_spec[OF assms Some] contains_rect_pixels[of other r]
    by (cases "rect_contains_rect other r") (auto simp: swap_remove_def Let_def)
qed

text \<open>
  The results of the subtraction as a total function: the option of the model is the panic of an
  index out of bounds, which \<open>subtract_many_covers\<close> excludes.
\<close>

definition subtract_many :: "rect list \<Rightarrow> rect list \<Rightarrow> rect list" where
  "subtract_many rects others =
     (case subtract_rects_many_in_place rects others of Some res \<Rightarrow> res | None \<Rightarrow> [])"

lemma subtract_many_spec:
  assumes "wf_rects rects" "wf_rects others"
  shows "subtract_rects_many_in_place rects others = Some (subtract_many rects others)"
    and "wf_rects (subtract_many rects others)"
    and "pixels_of rects - pixels_of others \<subseteq> pixels_of (subtract_many rects others)"
    and "pixels_of (subtract_many rects others) \<subseteq> pixels_of rects"
  using subtract_many_covers[OF assms] by (auto simp: subtract_many_def)

section \<open>Properties\<close>

text \<open>A rectangle by its four numbers, for the concrete inputs below.\<close>

definition strip :: "int \<Rightarrow> int \<Rightarrow> int \<Rightarrow> int \<Rightarrow> rect" where
  "strip x y w h = rect_new (point_new x y) (size_new w h)"

lemma strip_sel [simp]:
  "rx (strip x y w h) = x" "ry (strip x y w h) = y" "rw (strip x y w h) = w" "rh (strip x y w h) = h"
  by (simp_all add: strip_def)

lemma wf_strip [simp]:
  "wf_rect (strip x y w h) \<longleftrightarrow> in_i32 x \<and> in_i32 y \<and> in_i32 w \<and> in_i32 h \<and> 0 \<le> w \<and> 0 \<le> h"
  by (auto simp: wf_rect_def wf_point_def wf_size_def)

lemmas rect_eval = rect_intersection_def rect_overlaps_def rect_from_extremities_def point_sub_def
  point_to_size_def rect_contains_rect_def rect_is_empty_def size_is_empty_def subtract_pieces_def
  swap_remove_def point_new_def size_new_def rect_new_def Let_def
  sat_add_def sat_sub_def sat32_def

text \<open>Intersection is exact: the rectangle two overlapping rectangles share holds precisely
  the pixels in both, it is well-formed, and no result means that they share no pixel.\<close>

theorem rect_intersection_exact:
  assumes "wf_rect a" "wf_rect b"
  shows "(case rect_intersection a b of
            None \<Rightarrow> pixels a \<inter> pixels b = {}
          | Some i \<Rightarrow> wf_rect i \<and> pixels i = pixels a \<inter> pixels b)"
  using intersection_pixels[OF assms] intersection_None_disjoint[of a b]
  by (auto split: option.split)

theorem rect_intersection_exact_witness:
  "case rect_intersection (strip 0 0 10 10) (strip 5 5 10 10) of
     None \<Rightarrow> pixels (strip 0 0 10 10) \<inter> pixels (strip 5 5 10 10) = {}
   | Some i \<Rightarrow> wf_rect i \<and> pixels i = pixels (strip 0 0 10 10) \<inter> pixels (strip 5 5 10 10)"
  by (rule rect_intersection_exact) (simp_all add: in_i32_def)

text \<open>Merging gives the least rectangle over both: it covers them, and every rectangle that
  covers both (and whose far edges do not saturate) contains it, when the span fits in \<open>i32\<close>.\<close>

theorem rect_merge_least:
  assumes "wf_rect a" "wf_rect b"
    and "max (rright a) (rright b) - min (rx a) (rx b) \<le> I32_MAX"
    and "max (rbottom a) (rbottom b) - min (ry a) (ry b) \<le> I32_MAX"
  shows "wf_rect (rect_merge a b) \<and> pixels a \<union> pixels b \<subseteq> pixels (rect_merge a b) \<and>
    (\<forall>c. rect_contains_rect c a \<and> rect_contains_rect c b \<longrightarrow> rect_contains_rect c (rect_merge a b))"
proof (intro conjI)
  let ?m = "rect_merge a b"
  have m: "wf_rect ?m" "rx ?m = min (rx a) (rx b)" "ry ?m = min (ry a) (ry b)"
    "rright ?m = max (rright a) (rright b)" "rbottom ?m = max (rbottom a) (rbottom b)"
    using merge_edges[OF assms] unfolding has_edges_def by blast+
  show "wf_rect ?m" by (rule m(1))
  show "pixels a \<union> pixels b \<subseteq> pixels ?m"
    unfolding pixels_def m(4,5) unfolding m(2,3) by (auto simp: min_le_iff_disj less_max_iff_disj)
  show "\<forall>c. rect_contains_rect c a \<and> rect_contains_rect c b \<longrightarrow> rect_contains_rect c ?m"
    unfolding rect_contains_rect_def m(4,5) unfolding m(2,3) by simp
qed

theorem rect_merge_least_witness:
  "wf_rect (rect_merge (strip 0 0 10 10) (strip 20 5 10 10)) \<and>
   pixels (strip 0 0 10 10) \<union> pixels (strip 20 5 10 10) \<subseteq> pixels (rect_merge (strip 0 0 10 10) (strip 20 5 10 10))"
  using rect_merge_least[of "strip 0 0 10 10" "strip 20 5 10 10"]
  by (simp add: in_i32_def sat_add_def sat32_def)

text \<open>Subtracting never loses a pixel it should keep: the loop never indexes out of bounds,
  and its result covers the difference and stays inside the original rectangles.\<close>

theorem subtract_rects_many_covers:
  assumes "wf_rects rects" "wf_rects others"
  shows "\<exists>res. subtract_rects_many rects others = Some res \<and> wf_rects res \<and>
     pixels_of rects - pixels_of others \<subseteq> pixels_of res \<and> pixels_of res \<subseteq> pixels_of rects"
  using subtract_many_covers[OF assms] by (simp add: subtract_rects_many_def)

theorem subtract_rects_many_covers_witness:
  "\<exists>res. subtract_rects_many [strip 0 0 10 10, strip 20 0 10 10] [strip 5 5 20 2] = Some res \<and> wf_rects res \<and>
     pixels_of [strip 0 0 10 10, strip 20 0 10 10] - pixels_of [strip 5 5 20 2] \<subseteq> pixels_of res \<and>
     pixels_of res \<subseteq> pixels_of [strip 0 0 10 10, strip 20 0 10 10]"
  by (rule subtract_rects_many_covers) (simp_all add: in_i32_def)

text \<open>Subtracting one rectangle from one rectangle is exact.\<close>

theorem subtract_rect_exact:
  assumes "wf_rect self" "wf_rect other"
  shows "\<exists>res. subtract_rect self other = Some res \<and> wf_rects res \<and>
     pixels_of res = pixels self - pixels other"
  using subtract_scan_single[OF assms]
  by (auto simp: subtract_rect_def subtract_rects_def)

theorem subtract_rect_exact_witness:
  "\<exists>res. subtract_rect (strip 0 0 100 100) (strip 10 10 80 80) = Some res \<and> wf_rects res \<and>
     pixels_of res = pixels (strip 0 0 100 100) - pixels (strip 10 10 80 80)"
  by (rule subtract_rect_exact) (simp_all add: in_i32_def)

text \<open>Subtracting from several rectangles is not exact: the loop swaps a freshly pushed piece
  into the place of the element it removes and counts it as checked, so of three rectangles split
  by the same bar the second one is returned whole, with the pixels of the bar.\<close>

theorem subtract_rects_many_keeps_subtracted_pixels:
  "\<exists>res. subtract_rects_many [strip 0 0 10 30, strip 10 0 10 30, strip 20 0 10 30] [strip 0 10 30 10]
       = Some res \<and> strip 10 0 10 30 \<in> set res \<and>
     pixels (strip 10 0 10 30) \<inter> pixels (strip 0 10 30 10) \<noteq> {}"
proof -
  have "subtract_rects_many [strip 0 0 10 30, strip 10 0 10 30, strip 20 0 10 30] [strip 0 10 30 10]
      = Some [strip 0 20 10 10, strip 10 0 10 30, strip 0 0 10 10, strip 20 0 10 10, strip 20 20 10 10]"
    by code_simp
  moreover have "(15, 15) \<in> pixels (strip 10 0 10 30) \<inter> pixels (strip 0 10 30 10)"
    by (simp add: pixels_def strip_def sat_add_def sat32_def)
  ultimately show ?thesis by auto
qed

end
