(* ===== verification/Transforms.thy ===== *)
theory Transforms
  imports Pixels
begin

text \<open>
  The eight output transforms of \<open>src/utils/geometry.rs\<close>, their action on points, sizes and
  rectangles inside an area, the conversions between logical, physical and buffer space that use
  them, and frame extents. Positions inside an area are computed with the raw operators of the
  coordinate type, which wrap in a release build.
\<close>

datatype transform =
  Normal | T90 | T180 | T270 | Flipped | Flipped90 | Flipped180 | Flipped270

fun transform_invert :: "transform \<Rightarrow> transform" where
  "transform_invert Normal = Normal"
| "transform_invert Flipped = Flipped"
| "transform_invert T90 = T270"
| "transform_invert T180 = T180"
| "transform_invert T270 = T90"
| "transform_invert Flipped90 = Flipped270"
| "transform_invert Flipped180 = Flipped180"
| "transform_invert Flipped270 = Flipped90"

fun transform_point_in :: "transform \<Rightarrow> point \<Rightarrow> sz \<Rightarrow> point" where
  "transform_point_in Normal p area = p"
| "transform_point_in T90 p area = point_new (i32_sub (sh area) (py p)) (px p)"
| "transform_point_in T180 p area = point_new (i32_sub (sw area) (px p)) (i32_sub (sh area) (py p))"
| "transform_point_in T270 p area = point_new (py p) (i32_sub (sw area) (px p))"
| "transform_point_in Flipped p area = point_new (i32_sub (sw area) (px p)) (py p)"
| "transform_point_in Flipped90 p area = point_new (py p) (px p)"
| "transform_point_in Flipped180 p area = point_new (px p) (i32_sub (sh area) (py p))"
| "transform_point_in Flipped270 p area =
     point_new (i32_sub (sh area) (py p)) (i32_sub (sw area) (px p))"

definition transform_size :: "transform \<Rightarrow> sz \<Rightarrow> sz" where
  "transform_size t s =
     (if t = T90 \<or> t = T270 \<or> t = Flipped90 \<or> t = Flipped270 then size_new (sh s) (sw s) else s)"

fun transform_loc :: "transform \<Rightarrow> rect \<Rightarrow> sz \<Rightarrow> point" where
  "transform_loc Normal r area = rloc r"
| "transform_loc T90 r area = point_new (i32_sub (i32_sub (sh area) (ry r)) (rh r)) (rx r)"
| "transform_loc T180 r area =
     point_new (i32_sub (i32_sub (sw area) (rx r)) (rw r)) (i32_sub (i32_sub (sh area) (ry r)) (rh r))"
| "transform_loc T270 r area = point_new (ry r) (i32_sub (i32_sub (sw area) (rx r)) (rw r))"
| "transform_loc Flipped r area = point_new (i32_sub (i32_sub (sw area) (rx r)) (rw r)) (ry r)"
| "transform_loc Flipped90 r area =
     point_new (i32_sub (i32_sub (sh area) (ry r)) (rh r)) (i32_sub (i32_sub (sw area) (rx r)) (rw r))"
| "transform_loc Flipped180 r area = point_new (rx r) (i32_sub (i32_sub (sh area) (ry r)) (rh r))"
| "transform_loc Flipped270 r area = point_new (ry r) (rx r)"

definition transform_rect_in :: "transform \<Rightarrow> rect \<Rightarrow> sz \<Rightarrow> rect" where
  "transform_rect_in t r area = rect_new (transform_loc t r area) (transform_size t (rsize r))"

fun transform_flipped :: "transform \<Rightarrow> bool" where
  "transform_flipped Normal = False"
| "transform_flipped T90 = False"
| "transform_flipped T180 = False"
| "transform_flipped T270 = False"
| "transform_flipped _ = True"

fun transform_degrees :: "transform \<Rightarrow> nat" where
  "transform_degrees Normal = 0"
| "transform_degrees Flipped = 0"
| "transform_degrees T90 = 90"
| "transform_degrees Flipped90 = 90"
| "transform_degrees T180 = 180"
| "transform_degrees Flipped180 = 180"
| "transform_degrees T270 = 270"
| "transform_degrees Flipped270 = 270"

text \<open>Adding two transforms; \<open>None\<close> is the \<open>unreachable!\<close> of the last match arm.\<close>

definition transform_add :: "transform \<Rightarrow> transform \<Rightarrow> transform option" where
  "transform_add a b =
     (let flipped = (transform_flipped a \<noteq> transform_flipped b);
          degrees = (transform_degrees a + transform_degrees b) mod 360
      in if \<not> flipped \<and> degrees = 0 then Some Normal
         else if \<not> flipped \<and> degrees = 90 then Some T90
         else if \<not> flipped \<and> degrees = 180 then Some T180
         else if \<not> flipped \<and> degrees = 270 then Some T270
         else if flipped \<and> degrees = 0 then Some Flipped
         else if flipped \<and> degrees = 90 then Some Flipped90
         else if flipped \<and> degrees = 180 then Some Flipped180
         else if flipped \<and> degrees = 270 then Some Flipped270
         else None)"

section \<open>Conversions between coordinate spaces\<close>

definition point_to_buffer :: "point \<Rightarrow> scale \<Rightarrow> transform \<Rightarrow> sz \<Rightarrow> point" where
  "point_to_buffer p s t area =
     (let q = transform_point_in t p area
      in \<lparr>px = coord_upscale (px q) (scale_x s), py = coord_upscale (py q) (scale_y s)\<rparr>)"

definition point_buffer_to_logical :: "point \<Rightarrow> scale \<Rightarrow> transform \<Rightarrow> sz \<Rightarrow> point option" where
  "point_buffer_to_logical p s t area =
     (let q = transform_point_in (transform_invert t) p area
      in case (coord_downscale (px q) (scale_x s), coord_downscale (py q) (scale_y s)) of
           (Some x, Some y) \<Rightarrow> Some \<lparr>px = x, py = y\<rparr>
         | _ \<Rightarrow> None)"

definition size_to_buffer :: "sz \<Rightarrow> scale \<Rightarrow> transform \<Rightarrow> sz" where
  "size_to_buffer z s t =
     transform_size t \<lparr>sw = coord_upscale (sw z) (scale_x s), sh = coord_upscale (sh z) (scale_y s)\<rparr>"

definition size_buffer_to_logical :: "sz \<Rightarrow> scale \<Rightarrow> transform \<Rightarrow> sz option" where
  "size_buffer_to_logical z s t =
     (case (coord_downscale (sw z) (scale_x s), coord_downscale (sh z) (scale_y s)) of
        (Some w, Some h) \<Rightarrow> Some (transform_size (transform_invert t) \<lparr>sw = w, sh = h\<rparr>)
      | _ \<Rightarrow> None)"

definition rect_to_client :: "rect \<Rightarrow> scale \<Rightarrow> rect" where
  "rect_to_client r s = \<lparr>rloc = point_to_client (rloc r) s, rsize = size_to_client (rsize r) s\<rparr>"

definition rect_to_physical :: "rect \<Rightarrow> scale \<Rightarrow> rect" where
  "rect_to_physical r s = \<lparr>rloc = point_to_physical (rloc r) s, rsize = size_to_physical (rsize r) s\<rparr>"

definition rect_to_buffer :: "rect \<Rightarrow> scale \<Rightarrow> transform \<Rightarrow> sz \<Rightarrow> rect" where
  "rect_to_buffer r s t area =
     (let q = transform_rect_in t r area
      in \<lparr>rloc = \<lparr>px = coord_upscale (rx q) (scale_x s), py = coord_upscale (ry q) (scale_y s)\<rparr>,
          rsize = \<lparr>sw = coord_upscale (rw q) (scale_x s), sh = coord_upscale (rh q) (scale_y s)\<rparr>\<rparr>)"

definition rect_client_to_logical :: "rect \<Rightarrow> scale \<Rightarrow> rect option" where
  "rect_client_to_logical r s =
     (case (point_client_to_logical (rloc r) s, size_client_to_logical (rsize r) s) of
        (Some l, Some z) \<Rightarrow> Some \<lparr>rloc = l, rsize = z\<rparr>
      | _ \<Rightarrow> None)"

definition rect_physical_to_logical :: "rect \<Rightarrow> scale \<Rightarrow> rect option" where
  "rect_physical_to_logical r s =
     (case (point_physical_to_logical (rloc r) s, size_physical_to_logical (rsize r) s) of
        (Some l, Some z) \<Rightarrow> Some \<lparr>rloc = l, rsize = z\<rparr>
      | _ \<Rightarrow> None)"

definition rect_buffer_to_logical :: "rect \<Rightarrow> scale \<Rightarrow> transform \<Rightarrow> sz \<Rightarrow> rect option" where
  "rect_buffer_to_logical r s t area =
     (let q = transform_rect_in (transform_invert t) r area
      in case (coord_downscale (rx q) (scale_x s), coord_downscale (ry q) (scale_y s),
               coord_downscale (rw q) (scale_x s), coord_downscale (rh q) (scale_y s)) of
           (Some x, Some y, Some w, Some h) \<Rightarrow> Some (rect_new \<lparr>px = x, py = y\<rparr> \<lparr>sw = w, sh = h\<rparr>)
         | _ \<Rightarrow> None)"

section \<open>Frame extents\<close>

definition frame_extents_new :: "i32 \<Rightarrow> i32 \<Rightarrow> i32 \<Rightarrow> i32 \<Rightarrow> frame_extents" where
  "frame_extents_new l r t b = \<lparr>fe_left = l, fe_right = r, fe_top = t, fe_bottom = b\<rparr>"

definition rect_add_extents :: "rect \<Rightarrow> frame_extents \<Rightarrow> rect" where
  "rect_add_extents r f = rect_new
     (point_new (i32_sub (rx r) (fe_left f)) (i32_sub (ry r) (fe_top f)))
     (size_new (coord_max (i32_add (i32_add (rw r) (fe_left f)) (fe_right f)) 0)
               (coord_max (i32_add (i32_add (rh r) (fe_top f)) (fe_bottom f)) 0))"

definition rect_sub_extents :: "rect \<Rightarrow> frame_extents \<Rightarrow> rect" where
  "rect_sub_extents r f = rect_new
     (point_new (i32_add (rx r) (fe_left f)) (i32_add (ry r) (fe_top f)))
     (size_new (coord_max (i32_sub (i32_sub (rw r) (fe_left f)) (fe_right f)) 0)
               (coord_max (i32_sub (i32_sub (rh r) (fe_top f)) (fe_bottom f)) 0))"

definition frame_extents_to_logical :: "frame_extents \<Rightarrow> scale \<Rightarrow> frame_extents option" where
  "frame_extents_to_logical f s =
     (case (coord_downscale (fe_left f) (scale_x s), coord_downscale (fe_right f) (scale_x s),
            coord_downscale (fe_top f) (scale_y s), coord_downscale (fe_bottom f) (scale_y s)) of
        (Some l, Some r, Some t, Some b) \<Rightarrow> Some (frame_extents_new l r t b)
      | _ \<Rightarrow> None)"

section \<open>Rectangles inside an area\<close>

definition inside_area :: "rect \<Rightarrow> sz \<Rightarrow> bool" where
  "inside_area r area \<longleftrightarrow>
     0 \<le> rx r \<and> 0 \<le> ry r \<and> 0 \<le> rw r \<and> 0 \<le> rh r \<and> rx r + rw r \<le> sw area \<and> ry r + rh r \<le> sh area \<and>
     sw area \<le> I32_MAX \<and> sh area \<le> I32_MAX"

lemma inside_areaD:
  assumes "inside_area r area"
  shows "i32_sub (i32_sub (sw area) (rx r)) (rw r) = sw area - rx r - rw r"
    "i32_sub (i32_sub (sh area) (ry r)) (rh r) = sh area - ry r - rh r"
proof -
  have "in_i32 (sw area - rx r)" "in_i32 (sh area - ry r)"
    "in_i32 (sw area - rx r - rw r)" "in_i32 (sh area - ry r - rh r)"
    using assms by (auto simp: inside_area_def in_i32_def)
  then show "i32_sub (i32_sub (sw area) (rx r)) (rw r) = sw area - rx r - rw r"
    "i32_sub (i32_sub (sh area) (ry r)) (rh r) = sh area - ry r - rh r"
    by (simp_all add: range_simps)
qed

text \<open>The code's position of a transformed rectangle, without the wrapping it never needs inside.\<close>

lemma transform_rect_inside:
  assumes "inside_area r area"
  shows "transform_rect_in t r area =
    (case t of
       Normal \<Rightarrow> rect_new (rloc r) (rsize r)
     | T90 \<Rightarrow> rect_new (point_new (sh area - ry r - rh r) (rx r)) (size_new (rh r) (rw r))
     | T180 \<Rightarrow> rect_new (point_new (sw area - rx r - rw r) (sh area - ry r - rh r)) (rsize r)
     | T270 \<Rightarrow> rect_new (point_new (ry r) (sw area - rx r - rw r)) (size_new (rh r) (rw r))
     | Flipped \<Rightarrow> rect_new (point_new (sw area - rx r - rw r) (ry r)) (rsize r)
     | Flipped90 \<Rightarrow> rect_new (point_new (sh area - ry r - rh r) (sw area - rx r - rw r)) (size_new (rh r) (rw r))
     | Flipped180 \<Rightarrow> rect_new (point_new (rx r) (sh area - ry r - rh r)) (rsize r)
     | Flipped270 \<Rightarrow> rect_new (point_new (ry r) (rx r)) (size_new (rh r) (rw r)))"
  using inside_areaD[OF assms]
  by (cases t) (simp_all add: transform_rect_in_def transform_size_def)

lemma transform_preserves_inside:
  assumes "inside_area r area"
  shows "inside_area (transform_rect_in t r area) (transform_size t area)"
  using assms by (cases t) (simp_all add: transform_rect_inside[OF assms] transform_size_def inside_area_def)

lemma rect_eqI: "rx a = rx b \<Longrightarrow> ry a = ry b \<Longrightarrow> rw a = rw b \<Longrightarrow> rh a = rh b \<Longrightarrow> a = (b :: rect)"
  by (cases a, cases b) (auto intro!: point.equality sz.equality)

lemma transform_roundtrip_by:
  assumes "inside_area r area" and "u = (if t = Flipped90 \<or> t = Flipped270 then t else transform_invert t)"
  shows "transform_rect_in u (transform_rect_in t r area) (transform_size t area) = r"
  using assms(2) transform_rect_inside[OF transform_preserves_inside[OF assms(1), of t], of u]
    transform_rect_inside[OF assms(1), of t]
  by (cases t) (auto intro!: rect_eqI simp: transform_size_def)


subsection \<open>Uniform scaling\<close>

definition scaled :: "int \<Rightarrow> rect \<Rightarrow> rect" where
  "scaled n r = rect_new (point_new (rx r * n) (ry r * n)) (size_new (rw r * n) (rh r * n))"

definition scaled_size :: "int \<Rightarrow> sz \<Rightarrow> sz" where
  "scaled_size n z = size_new (sw z * n) (sh z * n)"

definition scale_fits :: "int \<Rightarrow> sz \<Rightarrow> bool" where
  "scale_fits n area \<longleftrightarrow> 1 \<le> n \<and> sw area * n \<le> I32_MAX \<and> sh area * n \<le> I32_MAX"

lemma scale_fits_mult:
  assumes "scale_fits n area" "0 \<le> a" "a \<le> sw area \<or> a \<le> sh area"
  shows "sat_mul a n = a * n"
proof -
  have n: "0 \<le> n" "sw area * n \<le> I32_MAX" "sh area * n \<le> I32_MAX"
    using assms(1) by (auto simp: scale_fits_def)
  have "a * n \<le> I32_MAX"
    using assms(3) mult_right_mono[of a "sw area" n] mult_right_mono[of a "sh area" n] n by linarith
  moreover have "0 \<le> a * n" using assms(2) n by simp
  ultimately have "in_i32 (a * n)" by (simp add: in_i32_def)
  then show ?thesis by (rule i32_ops_in_range)
qed

lemma inside_area_scaled:
  assumes "inside_area r area" "scale_fits n area"
  shows "inside_area (scaled n r) (scaled_size n area)"
proof -
  have "(rx r + rw r) * n \<le> sw area * n" "(ry r + rh r) * n \<le> sh area * n"
    using assms by (intro mult_right_mono; simp add: inside_area_def scale_fits_def)+
  then show ?thesis
    using assms by (simp add: inside_area_def scale_fits_def scaled_def scaled_size_def distrib_right)
qed

lemma transform_scaled:
  assumes "inside_area r area" "scale_fits n area"
  shows "transform_rect_in t (scaled n r) (scaled_size n area) = scaled n (transform_rect_in t r area)"
  unfolding transform_rect_inside[OF inside_area_scaled[OF assms]] transform_rect_inside[OF assms(1)]
  by (cases t) (simp_all add: scaled_def scaled_size_def algebra_simps)

lemma rect_to_buffer_scaled:
  assumes "inside_area r area" "scale_fits n area"
  shows "rect_to_buffer r (scale_from n) t area = scaled n (transform_rect_in t r area)"
proof -
  let ?q = "transform_rect_in t r area"
  have q: "inside_area ?q (transform_size t area)" by (rule transform_preserves_inside[OF assms(1)])
  have "scale_fits n (transform_size t area)"
    using assms(2) by (cases t) (auto simp: scale_fits_def transform_size_def)
  note fit = scale_fits_mult[OF this]
  have "sat_mul (rx ?q) n = rx ?q * n" "sat_mul (ry ?q) n = ry ?q * n"
    "sat_mul (rw ?q) n = rw ?q * n" "sat_mul (rh ?q) n = rh ?q * n"
    using q by (auto simp: inside_area_def intro!: fit)
  then show ?thesis
    by (simp add: rect_to_buffer_def Let_def coord_upscale_def scale_from_def scaled_def
        rect_new_def point_new_def size_new_def)
qed

lemma coord_downscale_mult: "1 \<le> n \<Longrightarrow> coord_downscale (a * n) n = Some a"
  by (simp add: coord_downscale_def i32_div_def trunc_div_mult)

section \<open>Properties\<close>

text \<open>C38. Inverting a transform undoes it on every rectangle inside the area, for the transforms
  other than the two flipped quarter turns.\<close>

theorem transform_invert_roundtrip:
  assumes "inside_area r area" and "t \<noteq> Flipped90" "t \<noteq> Flipped270"
  shows "transform_rect_in (transform_invert t) (transform_rect_in t r area) (transform_size t area) = r"
  using transform_roundtrip_by[OF assms(1) refl, of t] assms(2,3) by simp

theorem transform_invert_roundtrip_witness:
  "transform_rect_in (transform_invert T90)
     (transform_rect_in T90 (strip 10 20 30 40) (size_new 70 90)) (transform_size T90 (size_new 70 90))
   = strip 10 20 30 40"
  by (rule transform_invert_roundtrip) (simp_all add: inside_area_def)

text \<open>For the flipped quarter turns \<open>invert\<close> is not the inverse: each is its own inverse on
  rectangles, while \<open>invert\<close> answers the other one, which moves the rectangle and the point.\<close>

theorem transform_invert_flipped_quarter_turn_wrong:
  "transform_rect_in (transform_invert Flipped90)
     (transform_rect_in Flipped90 (strip 1 2 3 4) (size_new 10 20)) (transform_size Flipped90 (size_new 10 20))
     \<noteq> strip 1 2 3 4 \<and>
   transform_point_in (transform_invert Flipped90)
     (transform_point_in Flipped90 (point_new 1 2) (size_new 10 20)) (transform_size Flipped90 (size_new 10 20))
     \<noteq> point_new 1 2 \<and>
   (\<forall>r area. inside_area r area \<longrightarrow>
      transform_rect_in Flipped90 (transform_rect_in Flipped90 r area) (transform_size Flipped90 area) = r)"
proof (intro conjI allI impI)
  show "transform_rect_in (transform_invert Flipped90)
     (transform_rect_in Flipped90 (strip 1 2 3 4) (size_new 10 20)) (transform_size Flipped90 (size_new 10 20))
     \<noteq> strip 1 2 3 4"
    by (simp add: transform_rect_in_def transform_size_def strip_def i32_sub_def wrap32_def
        rect_new_def point_new_def size_new_def)
  show "transform_point_in (transform_invert Flipped90)
     (transform_point_in Flipped90 (point_new 1 2) (size_new 10 20)) (transform_size Flipped90 (size_new 10 20))
     \<noteq> point_new 1 2"
    by (simp add: transform_size_def i32_sub_def wrap32_def point_new_def size_new_def)
  show "transform_rect_in Flipped90 (transform_rect_in Flipped90 r area) (transform_size Flipped90 area) = r"
    if "inside_area r area" for r area
    using transform_roundtrip_by[OF that, of Flipped90 Flipped90] by simp
qed

theorem transform_invert_flipped_quarter_turn_wrong_witness:
  "transform_rect_in Flipped90
     (transform_rect_in Flipped90 (strip 10 20 30 40) (size_new 70 90)) (transform_size Flipped90 (size_new 70 90))
   = strip 10 20 30 40"
  using transform_invert_flipped_quarter_turn_wrong by (simp add: inside_area_def)

text \<open>C39. A rectangle and its corners are transformed alike, for the transforms other than the two
  flipped quarter turns: the transformed rectangle is the bounding box of its transformed corners.\<close>

theorem transform_rect_matches_corners:
  assumes "inside_area r area" and "t \<noteq> Flipped90" "t \<noteq> Flipped270"
  shows "transform_rect_in t r area =
    rect_bounding_box [transform_point_in t (rloc r) area,
                       transform_point_in t (point_new (rx r + rw r) (ry r + rh r)) area]"
proof -
  have d: "in_i32 (sw area - rx r)" "in_i32 (sh area - ry r)" "in_i32 (sw area - (rx r + rw r))"
    "in_i32 (sh area - (ry r + rh r))" "in_i32 (rw r)" "in_i32 (rh r)"
    using assms(1) by (auto simp: inside_area_def in_i32_def)
  have nn: "0 \<le> rw r" "0 \<le> rh r" using assms(1) by (auto simp: inside_area_def)
  note ev = rect_bounding_box_def rect_from_extremities_def point_to_size_def point_sub_def
  show ?thesis
    using assms(2,3) d nn transform_rect_inside[OF assms(1), of t]
    by (cases t) (auto simp: ev range_simps transform_size_def intro!: rect_eqI)
qed

theorem transform_rect_matches_corners_witness:
  "transform_rect_in T270 (strip 10 20 30 40) (size_new 70 90) =
    rect_bounding_box [transform_point_in T270 (rloc (strip 10 20 30 40)) (size_new 70 90),
      transform_point_in T270 (point_new (rx (strip 10 20 30 40) + rw (strip 10 20 30 40))
                                         (ry (strip 10 20 30 40) + rh (strip 10 20 30 40))) (size_new 70 90)]"
  by (rule transform_rect_matches_corners) (simp_all add: inside_area_def)

text \<open>Adding transforms never reaches the unreachable arm; the sum of a transform and its
  inverse is the identity; and without flips the sum acts as the composition.\<close>

theorem transform_add_composes:
  assumes "inside_area r area" "\<not> transform_flipped a" "\<not> transform_flipped b"
  shows "\<exists>c. transform_add a b = Some c \<and>
    transform_rect_in b (transform_rect_in a r area) (transform_size a area) = transform_rect_in c r area \<and>
    (\<forall>u v. transform_add u v \<noteq> None) \<and> (\<forall>u. transform_add u (transform_invert u) = Some Normal)"
proof -
  have total: "transform_add u v \<noteq> None" for u v
    by (cases u; cases v) (simp_all add: transform_add_def)
  have inv: "transform_add u (transform_invert u) = Some Normal" for u
    by (cases u) (simp_all add: transform_add_def)
  obtain c where c: "transform_add a b = Some c" using total by blast
  then have "transform_rect_in b (transform_rect_in a r area) (transform_size a area) = transform_rect_in c r area"
    using assms(2,3) transform_rect_inside[OF assms(1), of a] transform_rect_inside[OF assms(1), of c]
      transform_rect_inside[OF transform_preserves_inside[OF assms(1), of a], of b]
    by (cases a; cases b) (auto simp: transform_add_def transform_size_def intro!: rect_eqI)
  with c total inv show ?thesis by blast
qed

theorem transform_add_composes_witness:
  "\<exists>c. transform_add T90 T180 = Some c \<and>
    transform_rect_in T180 (transform_rect_in T90 (strip 10 20 30 40) (size_new 70 90))
      (transform_size T90 (size_new 70 90)) = transform_rect_in c (strip 10 20 30 40) (size_new 70 90)"
  using transform_add_composes[of "strip 10 20 30 40" "size_new 70 90" T90 T180]
  by (auto simp: inside_area_def)

text \<open>C40. Converting a rectangle to buffer space and back with the same transform and integer
  scale returns it, for every transform but \<open>Flipped90\<close> and \<open>Flipped270\<close>, where \<open>to_logical\<close> does not undo
  \<open>to_buffer\<close>, and as long as the scaled area fits in \<open>i32\<close>.\<close>

theorem rect_buffer_roundtrip:
  assumes "inside_area r area" "scale_fits n area" and t: "t \<noteq> Flipped90" "t \<noteq> Flipped270"
  shows "rect_buffer_to_logical (rect_to_buffer r (scale_from n) t area) (scale_from n) t
           (size_to_buffer area (scale_from n) t) = Some r"
proof -
  have ar: "size_to_buffer area (scale_from n) t = scaled_size n (transform_size t area)"
  proof -
    have "sat_mul (sw area) n = sw area * n" "sat_mul (sh area) n = sh area * n"
      using assms(1) by (auto intro!: scale_fits_mult[OF assms(2)] simp: inside_area_def)
    then show ?thesis
      by (simp add: size_to_buffer_def coord_upscale_def scale_from_def scaled_size_def
          transform_size_def size_new_def)
  qed
  have fits: "scale_fits n (transform_size t area)"
    using assms(2) by (cases t) (auto simp: scale_fits_def transform_size_def)
  have "transform_rect_in (transform_invert t) (scaled n (transform_rect_in t r area))
      (scaled_size n (transform_size t area)) = scaled n r"
    using transform_scaled[OF transform_preserves_inside[OF assms(1)] fits]
      transform_roundtrip_by[OF assms(1), of "transform_invert t" t] t by simp
  then show ?thesis
    unfolding rect_buffer_to_logical_def rect_to_buffer_scaled[OF assms(1,2)] ar Let_def
    using assms(2)
    by (simp add: coord_downscale_mult scaled_def scale_from_def scale_fits_def)
qed

theorem rect_buffer_roundtrip_witness:
  "rect_buffer_to_logical (rect_to_buffer (strip 10 20 30 40) (scale_from 2) Flipped (size_new 70 90))
     (scale_from 2) Flipped (size_to_buffer (size_new 70 90) (scale_from 2) Flipped) = Some (strip 10 20 30 40)"
  by (rule rect_buffer_roundtrip) (simp_all add: inside_area_def scale_fits_def)

text \<open>Removing frame extents that were just added gives the rectangle back, when the extents
  are not negative and the enlarged rectangle fits in \<open>i32\<close>.\<close>

theorem frame_extents_roundtrip:
  assumes "wf_rect r" "0 \<le> fe_left f" "0 \<le> fe_right f" "0 \<le> fe_top f" "0 \<le> fe_bottom f"
    and "in_i32 (rx r - fe_left f)" "in_i32 (ry r - fe_top f)"
    and "in_i32 (rw r + fe_left f + fe_right f)" "in_i32 (rh r + fe_top f + fe_bottom f)"
  shows "rect_sub_extents (rect_add_extents r f) f = r"
proof -
  note r = wf_rectD[OF assms(1)]
  have "in_i32 (rw r + fe_left f)" "in_i32 (rh r + fe_top f)"
    "in_i32 (rw r + fe_right f)" "in_i32 (rh r + fe_bottom f)"
    using assms r by (auto simp: in_i32_def)
  then show ?thesis
    using assms(2-) r
    by (intro rect_eqI) (simp_all add: rect_sub_extents_def rect_add_extents_def range_simps)
qed

theorem frame_extents_roundtrip_witness:
  "rect_sub_extents (rect_add_extents (strip 10 20 30 40) (frame_extents_new 1 2 3 4)) (frame_extents_new 1 2 3 4)
   = strip 10 20 30 40"
  by (rule frame_extents_roundtrip) (simp_all add: frame_extents_new_def in_i32_def)

end
