(* ===== verification/Cache.thy ===== *)
theory Cache
  imports Serials Floats Transforms
begin

text \<open>
  Double-buffered surface state, \<open>src/wayland/compositor/cache.rs\<close>: the trait \<open>Cacheable\<close> as a record
  of its two methods, the cache of one type with its pending state, its queue of committed states
  and its current state, and the container of the caches of a surface. The types kept in it are
  modelled with their implementations of the trait. A merge may send events to the client, which
  are collected in order. The locale \<open>cacheable\<close> states the law of the trait the queue relies on
  (merging twice is merging the merged update) and proves what the queue promises from it.
\<close>

section \<open>The trait and the cache of one type\<close>

text \<open>What a merge may send: \<open>wl_buffer.release\<close>, \<open>wp_presentation_feedback.discarded\<close>, the signal
  of a synchronisation point.\<close>

datatype cache_event = Release_buffer nat | Discard_feedback nat | Signal_point nat

text \<open>\<open>commit\<close> takes the pending state and returns the new state and what is left pending;
  \<open>merge_into self into\<close> returns the updated target.\<close>

record 'a cacheable =
  cable_default :: 'a
  cable_commit :: "'a \<Rightarrow> 'a \<times> 'a"
  cable_merge :: "'a \<Rightarrow> 'a \<Rightarrow> 'a \<times> cache_event list"

record 'a cached_state =
  cs_pending :: 'a
  cs_cache :: "(serial \<times> 'a) list"
  cs_current :: 'a

definition cached_state_default :: "'a cacheable \<Rightarrow> 'a cached_state" where
  "cached_state_default c = \<lparr>cs_pending = cable_default c, cs_cache = [], cs_current = cable_default c\<rparr>"

text \<open>Draining states into the current one, in order.\<close>

fun merge_all :: "'a cacheable \<Rightarrow> 'a list \<Rightarrow> 'a \<Rightarrow> 'a \<times> cache_event list" where
  "merge_all c [] cur = (cur, [])"
| "merge_all c (x # xs) cur =
     (let (cur1, e1) = cable_merge c x cur; (cur2, e2) = merge_all c xs cur1 in (cur2, e1 @ e2))"

definition cache_commit :: "'a cacheable \<Rightarrow> serial option \<Rightarrow> 'a cached_state
    \<Rightarrow> 'a cached_state \<times> cache_event list" where
  "cache_commit c commit_id me =
     (let (new_state, pending') = cable_commit c (cs_pending me);
          me = me\<lparr>cs_pending := pending'\<rparr>
      in case commit_id of
           Some i \<Rightarrow>
             if cs_cache me \<noteq> [] \<and> fst (last (cs_cache me)) = i
             then (let (cid, state) = last (cs_cache me); (state', e) = cable_merge c new_state state
                   in (me\<lparr>cs_cache := butlast (cs_cache me) @ [(cid, state')]\<rparr>, e))
             else (me\<lparr>cs_cache := cs_cache me @ [(i, new_state)]\<rparr>, [])
         | None \<Rightarrow>
             (let (cur, e1) = merge_all c (map snd (cs_cache me)) (cs_current me);
                  (cur', e2) = cable_merge c new_state cur
              in (me\<lparr>cs_cache := [], cs_current := cur'\<rparr>, e1 @ e2)))"

text \<open>The loop of \<open>apply_state\<close>: pop from the front until a later commit is reached.\<close>

fun apply_loop :: "'a cacheable \<Rightarrow> serial \<Rightarrow> (serial \<times> 'a) list \<Rightarrow> 'a
    \<Rightarrow> (serial \<times> 'a) list \<times> 'a \<times> cache_event list" where
  "apply_loop c i [] cur = ([], cur, [])"
| "apply_loop c i ((s, x) # q) cur =
     (if serial_gt s i then ((s, x) # q, cur, [])
      else (let (cur1, e1) = cable_merge c x cur; (q', cur2, e2) = apply_loop c i q cur1
            in (q', cur2, e1 @ e2)))"

definition cache_apply_state :: "'a cacheable \<Rightarrow> serial \<Rightarrow> 'a cached_state
    \<Rightarrow> 'a cached_state \<times> cache_event list" where
  "cache_apply_state c commit_id me =
     (let (q, cur, e) = apply_loop c commit_id (cs_cache me) (cs_current me)
      in (me\<lparr>cs_cache := q, cs_current := cur\<rparr>, e))"

section \<open>What the queue promises\<close>

text \<open>The state a surface will have once everything committed has been applied.\<close>

definition cache_view :: "'a cacheable \<Rightarrow> 'a cached_state \<Rightarrow> 'a" where
  "cache_view c me = fst (merge_all c (map snd (cs_cache me)) (cs_current me))"

text \<open>The reference: one merge after the other, with no queue.\<close>

definition merge_value :: "'a cacheable \<Rightarrow> 'a \<Rightarrow> 'a \<Rightarrow> 'a" where
  "merge_value c cur x = fst (cable_merge c x cur)"

lemma merge_all_foldl: "fst (merge_all c xs cur) = foldl (merge_value c) cur xs"
  by (induction xs arbitrary: cur) (simp_all add: merge_value_def case_prod_beta)

lemma cache_view_foldl: "cache_view c me = foldl (merge_value c) (cs_current me) (map snd (cs_cache me))"
  by (simp add: cache_view_def merge_all_foldl)

lemma apply_loop_split:
  obtains n where "fst (apply_loop c i q cur) = drop n q" "n \<le> length q"
    "fst (snd (apply_loop c i q cur)) = foldl (merge_value c) cur (map snd (take n q))"
    "\<And>k. k < n \<Longrightarrow> \<not> serial_gt (fst (q ! k)) i"
    "n < length q \<Longrightarrow> serial_gt (fst (q ! n)) i"
proof -
  have "\<exists>n. fst (apply_loop c i q cur) = drop n q \<and> n \<le> length q \<and>
    fst (snd (apply_loop c i q cur)) = foldl (merge_value c) cur (map snd (take n q)) \<and>
    (\<forall>k<n. \<not> serial_gt (fst (q ! k)) i) \<and> (n < length q \<longrightarrow> serial_gt (fst (q ! n)) i)"
  proof (induction q arbitrary: cur)
    case (Cons sx q)
    obtain s x where sx: "sx = (s, x)" by force
    show ?case
    proof (cases "serial_gt s i")
      case False
      obtain n where n: "fst (apply_loop c i q (merge_value c cur x)) = drop n q" "n \<le> length q"
        "fst (snd (apply_loop c i q (merge_value c cur x))) = foldl (merge_value c) (merge_value c cur x) (map snd (take n q))"
        "\<forall>k<n. \<not> serial_gt (fst (q ! k)) i" "n < length q \<longrightarrow> serial_gt (fst (q ! n)) i"
        using Cons.IH[of "merge_value c cur x"] by blast
      have "\<forall>k<Suc n. \<not> serial_gt (fst ((sx # q) ! k)) i"
        using n(4) False by (simp add: sx nth_Cons split: nat.split)
      then show ?thesis
        using n False by (intro exI[of _ "Suc n"])
          (simp add: sx merge_value_def[symmetric] case_prod_beta)
    next
      case True
      then show ?thesis by (intro exI[of _ 0]) (simp add: sx)
    qed
  qed simp
  then show thesis using that by blast
qed

locale cacheable =
  fixes c :: "'a cacheable"
  assumes merge_assoc: "merge_value c (merge_value c x a) b = merge_value c x (merge_value c a b)"
begin

lemma foldl_merge: "foldl (merge_value c) (merge_value c x a) xs = merge_value c x (foldl (merge_value c) a xs)"
  by (induction xs arbitrary: a) (simp_all add: merge_assoc)

lemma view_commit: "cache_view c (fst (cache_commit c i me)) = merge_value c (cache_view c me) (fst (cable_commit c (cs_pending me)))"
proof (cases i)
  case None
  then show ?thesis
    by (simp add: cache_commit_def cache_view_def merge_value_def Let_def case_prod_beta)
next
  case (Some s)
  obtain new p where np: "cable_commit c (cs_pending me) = (new, p)" by force
  show ?thesis
  proof (cases "cs_cache me \<noteq> [] \<and> fst (last (cs_cache me)) = s")
    case True
    obtain q x where q: "cs_cache me = q @ [(s, x)]"
      using True by (metis append_butlast_last_id prod.collapse)
    then show ?thesis
      using Some np merge_assoc
      by (simp add: cache_commit_def cache_view_foldl Let_def merge_value_def case_prod_beta)
  next
    case False
    then show ?thesis
      using Some np by (auto simp: cache_commit_def cache_view_foldl Let_def)
  qed
qed

end

lemma view_apply: "cache_view c (fst (cache_apply_state c i me)) = cache_view c me"
proof -
  obtain n where n: "fst (apply_loop c i (cs_cache me) (cs_current me)) = drop n (cs_cache me)"
    "fst (snd (apply_loop c i (cs_cache me) (cs_current me)))
       = foldl (merge_value c) (cs_current me) (map snd (take n (cs_cache me)))"
    by (rule apply_loop_split)
  have "cache_view c (fst (cache_apply_state c i me))
      = foldl (merge_value c) (foldl (merge_value c) (cs_current me) (map snd (take n (cs_cache me)))) (map snd (drop n (cs_cache me)))"
    using n by (simp add: cache_apply_state_def cache_view_foldl case_prod_beta)
  also have "\<dots> = cache_view c me"
    by (simp only: cache_view_foldl foldl_append[symmetric] map_append[symmetric] append_take_drop_id)
  finally show ?thesis .
qed


section \<open>The types kept in the cache\<close>

subsection \<open>\<open>SurfaceAttributes\<close>\<close>

datatype rectangle_kind = Add_rect | Subtract_rect

type_synonym region = "(rectangle_kind \<times> rect) list"

text \<open>\<open>RegionAttributes::contains\<close>: the last rectangle that holds the point decides.\<close>

definition region_contains :: "region \<Rightarrow> point \<Rightarrow> bool" where
  "region_contains rs p =
     fold (\<lambda>(kind, r) inside.
             if rect_contains r p then (case kind of Add_rect \<Rightarrow> True | Subtract_rect \<Rightarrow> False) else inside)
       rs False"

datatype buffer_assignment = Removed | New_buffer nat

datatype damage = Damage_surface rect | Damage_buffer rect

record surface_attributes =
  sa_buffer :: "buffer_assignment option"
  sa_buffer_delta :: "point option"
  sa_buffer_scale :: i32
  sa_buffer_transform :: transform
  sa_opaque_region :: "region option"
  sa_input_region :: "region option"
  sa_damage :: "damage list"
  sa_frame_callbacks :: "nat list"
  sa_client_scale :: fl

definition attributes_default :: surface_attributes where
  "attributes_default = \<lparr>sa_buffer = None, sa_buffer_delta = None, sa_buffer_scale = 1,
     sa_buffer_transform = Normal, sa_opaque_region = None, sa_input_region = None,
     sa_damage = [], sa_frame_callbacks = [], sa_client_scale = Fl_num 1\<rparr>"

definition attributes_commit :: "surface_attributes \<Rightarrow> surface_attributes \<times> surface_attributes" where
  "attributes_commit self =
     (self, self\<lparr>sa_buffer := None, sa_buffer_delta := None, sa_damage := [], sa_frame_callbacks := []\<rparr>)"

text \<open>The buffer that is replaced is released, unless it is attached again.\<close>

fun replaced_buffer :: "buffer_assignment option \<Rightarrow> buffer_assignment option \<Rightarrow> cache_event list" where
  "replaced_buffer (Some (New_buffer old)) (Some (New_buffer new)) = (if old \<noteq> new then [Release_buffer old] else [])"
| "replaced_buffer (Some (New_buffer old)) (Some Removed) = [Release_buffer old]"
| "replaced_buffer _ _ = []"

definition attributes_merge_into :: "surface_attributes \<Rightarrow> surface_attributes
    \<Rightarrow> surface_attributes \<times> cache_event list" where
  "attributes_merge_into self into =
     (into\<lparr>sa_buffer := (if sa_buffer self \<noteq> None then sa_buffer self else sa_buffer into),
           sa_buffer_delta := sa_buffer_delta self,
           sa_buffer_scale := sa_buffer_scale self,
           sa_buffer_transform := sa_buffer_transform self,
           sa_damage := sa_damage into @ sa_damage self,
           sa_opaque_region := sa_opaque_region self,
           sa_input_region := sa_input_region self,
           sa_frame_callbacks := sa_frame_callbacks into @ sa_frame_callbacks self,
           sa_client_scale := sa_client_scale self\<rparr>,
      if sa_buffer self \<noteq> None then replaced_buffer (sa_buffer into) (sa_buffer self) else [])"

definition attributes_cacheable :: "surface_attributes cacheable" where
  "attributes_cacheable = \<lparr>cable_default = attributes_default, cable_commit = attributes_commit,
                           cable_merge = attributes_merge_into\<rparr>"

subsection \<open>\<open>SubsurfaceCachedState\<close>\<close>

record subsurface_state =
  ss_location :: point

definition subsurface_default :: subsurface_state where
  "subsurface_default = \<lparr>ss_location = point_new 0 0\<rparr>"

definition subsurface_cacheable :: "subsurface_state cacheable" where
  "subsurface_cacheable = \<lparr>cable_default = subsurface_default,
     cable_commit = (\<lambda>self. (\<lparr>ss_location = ss_location self\<rparr>, self)),
     cable_merge = (\<lambda>self into. (into\<lparr>ss_location := ss_location self\<rparr>, []))\<rparr>"

subsection \<open>States copied as a whole\<close>

text \<open>\<open>SurfaceCachedState\<close> of \<open>xdg_surface\<close>, and the last acknowledged configure of the roles.\<close>

definition copy_cacheable :: "'a \<Rightarrow> 'a cacheable" where
  "copy_cacheable d = \<lparr>cable_default = d, cable_commit = (\<lambda>self. (self, self)),
                       cable_merge = (\<lambda>self into. (self, []))\<rparr>"

record xdg_surface_state =
  xs_geometry :: "rect option"
  xs_min_size :: sz
  xs_max_size :: sz

definition xdg_surface_default :: xdg_surface_state where
  "xdg_surface_default = \<lparr>xs_geometry = None, xs_min_size = size_new 0 0, xs_max_size = size_new 0 0\<rparr>"

definition xdg_surface_cacheable :: "xdg_surface_state cacheable" where
  "xdg_surface_cacheable = copy_cacheable xdg_surface_default"

record viewport_state =
  vp_src :: "frect option"
  vp_dst :: "sz option"

definition viewport_default :: viewport_state where
  "viewport_default = \<lparr>vp_src = None, vp_dst = None\<rparr>"

definition viewport_cacheable :: "viewport_state cacheable" where
  "viewport_cacheable = \<lparr>cable_default = viewport_default,
     cable_commit = (\<lambda>self. (\<lparr>vp_src = vp_src self, vp_dst = vp_dst self\<rparr>, self)),
     cable_merge = (\<lambda>self into. (into\<lparr>vp_src := vp_src self, vp_dst := vp_dst self\<rparr>, []))\<rparr>"

subsection \<open>States with resources\<close>

text \<open>\<open>PresentationFeedbackCachedState\<close>: feedbacks of a superseded update are discarded.\<close>

record presentation_state =
  pf_callbacks :: "nat list"

definition presentation_merge_into :: "presentation_state \<Rightarrow> presentation_state
    \<Rightarrow> presentation_state \<times> cache_event list" where
  "presentation_merge_into self into =
     (if pf_callbacks self = [] then (into, [])
      else (into\<lparr>pf_callbacks := pf_callbacks self\<rparr>, map Discard_feedback (pf_callbacks into)))"

definition presentation_cacheable :: "presentation_state cacheable" where
  "presentation_cacheable = \<lparr>cable_default = \<lparr>pf_callbacks = []\<rparr>,
     cable_commit = (\<lambda>self. (\<lparr>pf_callbacks = pf_callbacks self\<rparr>, self\<lparr>pf_callbacks := []\<rparr>)),
     cable_merge = presentation_merge_into\<rparr>"

text \<open>\<open>DrmSyncobjCachedState\<close>: the release point of the replaced update is signalled.\<close>

record syncobj_state =
  so_acquire :: "nat option"
  so_release :: "nat option"

definition syncobj_merge_into :: "syncobj_state \<Rightarrow> syncobj_state \<Rightarrow> syncobj_state \<times> cache_event list" where
  "syncobj_merge_into self into =
     (if so_acquire self \<noteq> None \<and> so_release self \<noteq> None
      then (into\<lparr>so_acquire := so_acquire self, so_release := so_release self\<rparr>,
            (case so_release into of Some p \<Rightarrow> [Signal_point p] | None \<Rightarrow> []))
      else (into, []))"

definition syncobj_cacheable :: "syncobj_state cacheable" where
  "syncobj_cacheable = \<lparr>cable_default = \<lparr>so_acquire = None, so_release = None\<rparr>,
     cable_commit = (\<lambda>self. (self, self\<lparr>so_acquire := None, so_release := None\<rparr>)),
     cable_merge = syncobj_merge_into\<rparr>"

subsection \<open>The law of the trait\<close>



interpretation subsurface: cacheable subsurface_cacheable
  by standard (simp add: merge_value_def subsurface_cacheable_def)

interpretation copied: cacheable "copy_cacheable d"
  by standard (simp add: merge_value_def copy_cacheable_def)

interpretation viewport: cacheable viewport_cacheable
  by standard (simp add: merge_value_def viewport_cacheable_def)

interpretation presentation: cacheable presentation_cacheable
  by standard (simp add: merge_value_def presentation_cacheable_def presentation_merge_into_def)

interpretation syncobj: cacheable syncobj_cacheable
  by standard (auto simp: merge_value_def syncobj_cacheable_def syncobj_merge_into_def)


section \<open>The container of a surface\<close>

text \<open>
  \<open>MultiCache\<close> is an append-only list of caches of different types, at most one of each type. The
  type of a box is its constructor.
\<close>

datatype any_cache =
    Attributes_cache "surface_attributes cached_state"
  | Subsurface_cache "subsurface_state cached_state"
  | Xdg_surface_cache "xdg_surface_state cached_state"
  | Viewport_cache "viewport_state cached_state"
  | Presentation_cache "presentation_state cached_state"
  | Syncobj_cache "syncobj_state cached_state"

datatype cache_type = T_attributes | T_subsurface | T_xdg_surface | T_viewport | T_presentation | T_syncobj

fun cache_type_of :: "any_cache \<Rightarrow> cache_type" where
  "cache_type_of (Attributes_cache _) = T_attributes"
| "cache_type_of (Subsurface_cache _) = T_subsurface"
| "cache_type_of (Xdg_surface_cache _) = T_xdg_surface"
| "cache_type_of (Viewport_cache _) = T_viewport"
| "cache_type_of (Presentation_cache _) = T_presentation"
| "cache_type_of (Syncobj_cache _) = T_syncobj"

fun any_default :: "cache_type \<Rightarrow> any_cache" where
  "any_default T_attributes = Attributes_cache (cached_state_default attributes_cacheable)"
| "any_default T_subsurface = Subsurface_cache (cached_state_default subsurface_cacheable)"
| "any_default T_xdg_surface = Xdg_surface_cache (cached_state_default xdg_surface_cacheable)"
| "any_default T_viewport = Viewport_cache (cached_state_default viewport_cacheable)"
| "any_default T_presentation = Presentation_cache (cached_state_default presentation_cacheable)"
| "any_default T_syncobj = Syncobj_cache (cached_state_default syncobj_cacheable)"

fun any_commit :: "serial option \<Rightarrow> any_cache \<Rightarrow> any_cache \<times> cache_event list" where
  "any_commit i (Attributes_cache m) = apfst Attributes_cache (cache_commit attributes_cacheable i m)"
| "any_commit i (Subsurface_cache m) = apfst Subsurface_cache (cache_commit subsurface_cacheable i m)"
| "any_commit i (Xdg_surface_cache m) = apfst Xdg_surface_cache (cache_commit xdg_surface_cacheable i m)"
| "any_commit i (Viewport_cache m) = apfst Viewport_cache (cache_commit viewport_cacheable i m)"
| "any_commit i (Presentation_cache m) = apfst Presentation_cache (cache_commit presentation_cacheable i m)"
| "any_commit i (Syncobj_cache m) = apfst Syncobj_cache (cache_commit syncobj_cacheable i m)"

fun any_apply :: "serial \<Rightarrow> any_cache \<Rightarrow> any_cache \<times> cache_event list" where
  "any_apply i (Attributes_cache m) = apfst Attributes_cache (cache_apply_state attributes_cacheable i m)"
| "any_apply i (Subsurface_cache m) = apfst Subsurface_cache (cache_apply_state subsurface_cacheable i m)"
| "any_apply i (Xdg_surface_cache m) = apfst Xdg_surface_cache (cache_apply_state xdg_surface_cacheable i m)"
| "any_apply i (Viewport_cache m) = apfst Viewport_cache (cache_apply_state viewport_cacheable i m)"
| "any_apply i (Presentation_cache m) = apfst Presentation_cache (cache_apply_state presentation_cacheable i m)"
| "any_apply i (Syncobj_cache m) = apfst Syncobj_cache (cache_apply_state syncobj_cacheable i m)"

type_synonym multi_cache = "any_cache list"

definition multi_cache_new :: multi_cache where
  "multi_cache_new = []"

text \<open>\<open>find_or_insert\<close> returns the cache of a type, appending a default one when there is none.\<close>

definition find_or_insert :: "cache_type \<Rightarrow> multi_cache \<Rightarrow> any_cache \<times> multi_cache" where
  "find_or_insert t mc =
     (case find (\<lambda>x. cache_type_of x = t) mc of
        Some v \<Rightarrow> (v, mc)
      | None \<Rightarrow> (any_default t, mc @ [any_default t]))"

definition multi_cache_has :: "cache_type \<Rightarrow> multi_cache \<Rightarrow> bool" where
  "multi_cache_has t mc \<longleftrightarrow> (\<exists>x\<in>set mc. cache_type_of x = t)"

text \<open>\<open>get\<close> gives a mutable guard: a closure works on the cache of that type in place.\<close>

definition multi_cache_update :: "any_cache \<Rightarrow> multi_cache \<Rightarrow> multi_cache" where
  "multi_cache_update v mc = map (\<lambda>x. if cache_type_of x = cache_type_of v then v else x) mc"

definition with_cache :: "cache_type \<Rightarrow> (any_cache \<Rightarrow> any_cache) \<Rightarrow> multi_cache \<Rightarrow> multi_cache" where
  "with_cache t f mc = (let (v, mc') = find_or_insert t mc in multi_cache_update (f v) mc')"

definition multi_cache_commit :: "serial option \<Rightarrow> multi_cache \<Rightarrow> multi_cache \<times> cache_event list" where
  "multi_cache_commit i mc = (map (fst \<circ> any_commit i) mc, concat (map (snd \<circ> any_commit i) mc))"

definition multi_cache_apply_state :: "serial \<Rightarrow> multi_cache \<Rightarrow> multi_cache \<times> cache_event list" where
  "multi_cache_apply_state i mc = (map (fst \<circ> any_apply i) mc, concat (map (snd \<circ> any_apply i) mc))"

text \<open>The attributes of a surface: access to their pending and current states.\<close>

definition get_attributes :: "multi_cache \<Rightarrow> surface_attributes cached_state" where
  "get_attributes mc =
     (case fst (find_or_insert T_attributes mc) of
        Attributes_cache m \<Rightarrow> m | _ \<Rightarrow> cached_state_default attributes_cacheable)"

fun on_attributes :: "(surface_attributes cached_state \<Rightarrow> surface_attributes cached_state) \<Rightarrow> any_cache \<Rightarrow> any_cache" where
  "on_attributes f (Attributes_cache m) = Attributes_cache (f m)"
| "on_attributes f x = x"

definition with_pending_attributes :: "(surface_attributes \<Rightarrow> surface_attributes) \<Rightarrow> multi_cache \<Rightarrow> multi_cache" where
  "with_pending_attributes f =
     with_cache T_attributes (on_attributes (\<lambda>m. m\<lparr>cs_pending := f (cs_pending m)\<rparr>))"

fun on_subsurface :: "(subsurface_state cached_state \<Rightarrow> subsurface_state cached_state) \<Rightarrow> any_cache \<Rightarrow> any_cache" where
  "on_subsurface f (Subsurface_cache m) = Subsurface_cache (f m)"
| "on_subsurface f x = x"

lemma any_types [simp]:
  "cache_type_of (fst (any_commit i x)) = cache_type_of x"
  "cache_type_of (fst (any_apply j x)) = cache_type_of x"
  "cache_type_of (on_attributes f x) = cache_type_of x"
  "cache_type_of (on_subsurface g x) = cache_type_of x"
  by (cases x; simp)+

lemma type_any_default [simp]: "cache_type_of (any_default t) = t"
  by (cases t) simp_all

lemma find_snoc_new: "\<forall>x. x \<in> set xs \<longrightarrow> \<not> P x \<Longrightarrow> P y \<Longrightarrow> find P (xs @ [y]) = Some y"
  by (induction xs) auto

definition wf_multi_cache :: "multi_cache \<Rightarrow> bool" where
  "wf_multi_cache mc \<longleftrightarrow> distinct (map cache_type_of mc)"

lemma wf_find_or_insert:
  assumes "wf_multi_cache mc"
  shows "wf_multi_cache (snd (find_or_insert t mc))"
    "cache_type_of (fst (find_or_insert t mc)) = t"
    "fst (find_or_insert t mc) \<in> set (snd (find_or_insert t mc))"
  using assms
  by (auto simp: find_or_insert_def wf_multi_cache_def find_None_iff dest!: find_Some_iff[THEN iffD1]
      split: option.split)

lemma find_or_insert_again:
  "wf_multi_cache mc \<Longrightarrow> find_or_insert t (snd (find_or_insert t mc)) = find_or_insert t mc"
  by (auto simp: find_or_insert_def find_None_iff find_snoc_new split: option.splits)

lemma types_update [simp]: "map cache_type_of (multi_cache_update v mc) = map cache_type_of mc"
  by (simp add: multi_cache_update_def)

lemma types_commit [simp]:
  "map cache_type_of (fst (multi_cache_commit i mc)) = map cache_type_of mc"
  "map cache_type_of (fst (multi_cache_apply_state j mc)) = map cache_type_of mc"
  by (simp_all add: multi_cache_commit_def multi_cache_apply_state_def)

lemma wf_with_cache: "wf_multi_cache mc \<Longrightarrow> wf_multi_cache (with_cache t f mc)"
  using wf_find_or_insert(1)[of mc t] by (simp add: with_cache_def wf_multi_cache_def case_prod_beta)


section \<open>Histories of a surface\<close>

text \<open>
  What the protocol handlers and the compositor do to the attributes of a surface: edit the pending
  state, commit under an identifier or directly, and apply up to an identifier. The history
  collects the committed states and the events sent.
\<close>

datatype 'a cache_op = Edit_pending "'a \<Rightarrow> 'a" | Commit "serial option" | Apply serial

fun cache_run :: "'a cacheable \<Rightarrow> 'a cache_op list \<Rightarrow> 'a cached_state \<times> 'a list \<times> cache_event list
    \<Rightarrow> 'a cached_state \<times> 'a list \<times> cache_event list" where
  "cache_run c [] h = h"
| "cache_run c (Edit_pending f # ops) (m, l, ev) = cache_run c ops (m\<lparr>cs_pending := f (cs_pending m)\<rparr>, l, ev)"
| "cache_run c (Commit i # ops) (m, l, ev) =
     (let (m', e) = cache_commit c i m in cache_run c ops (m', l @ [fst (cable_commit c (cs_pending m))], ev @ e))"
| "cache_run c (Apply i # ops) (m, l, ev) = (let (m', e) = cache_apply_state c i m in cache_run c ops (m', l, ev @ e))"

context cacheable
begin

lemma run_view:
  "cache_view c m = foldl (merge_value c) (cable_default c) l \<Longrightarrow> cache_run c ops (m, l, ev) = (m', l', ev') \<Longrightarrow>
   cache_view c m' = foldl (merge_value c) (cable_default c) l'"
proof (induction ops arbitrary: m l ev)
  case (Cons op ops)
  then show ?case
  proof (cases op)
    case (Edit_pending f)
    show ?thesis
      by (rule Cons.IH[of "m\<lparr>cs_pending := f (cs_pending m)\<rparr>" l ev])
        (use Cons.prems Edit_pending in \<open>simp_all add: cache_view_def\<close>)
  next
    case (Commit i)
    show ?thesis
      by (rule Cons.IH[of "fst (cache_commit c i m)" "l @ [fst (cable_commit c (cs_pending m))]" "ev @ snd (cache_commit c i m)"])
        (use Cons.prems Commit in \<open>simp_all add: view_commit case_prod_beta\<close>)
  next
    case (Apply i)
    show ?thesis
      by (rule Cons.IH[of "fst (cache_apply_state c i m)" l "ev @ snd (cache_apply_state c i m)"])
        (use Cons.prems Apply in \<open>simp_all add: view_apply case_prod_beta\<close>)
  qed
qed simp

lemma run_from_default:
  "cache_run c ops (cached_state_default c, [], []) = (m, l, ev) \<Longrightarrow>
   cache_view c m = foldl (merge_value c) (cable_default c) l"
  by (rule run_view[of "cached_state_default c" "[]"]) (simp_all add: cache_view_def cached_state_default_def)

end



subsection \<open>The buffers of commits\<close>

text \<open>The buffer a committed state attaches, those held by the states that are current or queued, and those
  released.\<close>

definition buffer_of :: "surface_attributes \<Rightarrow> nat multiset" where
  "buffer_of a = (case sa_buffer a of Some (New_buffer b) \<Rightarrow> {#b#} | _ \<Rightarrow> {#})"

definition buffers_of :: "surface_attributes list \<Rightarrow> nat multiset" where
  "buffers_of l = sum_list (map buffer_of l)"


fun released_buffers :: "cache_event list \<Rightarrow> nat multiset" where
  "released_buffers [] = {#}"
| "released_buffers (Release_buffer b # es) = add_mset b (released_buffers es)"
| "released_buffers (_ # es) = released_buffers es"

lemma released_append [simp]: "released_buffers (es @ fs) = released_buffers es + released_buffers fs"
  by (induction es rule: released_buffers.induct) simp_all

lemma buffers_of_simps [simp]:
  "buffers_of [] = {#}" "buffers_of (a # l) = buffer_of a + buffers_of l" "buffers_of (l @ k) = buffers_of l + buffers_of k"
  by (simp_all add: buffers_of_def)

text \<open>\<open>accounts A B\<close>: of the attachments \<open>A\<close>, \<open>B\<close> are accounted for, each at most once, and no buffer is forgotten.\<close>

definition accounts :: "nat multiset \<Rightarrow> nat multiset \<Rightarrow> bool" where
  "accounts A B \<longleftrightarrow> B \<subseteq># A \<and> set_mset A \<subseteq> set_mset B"

lemma accounts_refl [simp]: "accounts A A"
  by (simp add: accounts_def)




lemma attributes_merge [simp]: "cable_merge attributes_cacheable = attributes_merge_into"
  by (simp add: attributes_cacheable_def)








text \<open>Consecutive identifiers, also across the wrap-around of the counter.\<close>

lemma unat_u32_of_nat: "d < 4294967296 \<Longrightarrow> unat (of_nat d :: u32) = d"
  by (simp add: unsigned_of_nat take_bit_eq_mod)

lemma serial_gt_offset:
  assumes "i < 2147483647" "j < 2147483647"
  shows "serial_gt (serial_add s (of_nat i)) (serial_add s (of_nat j)) \<longleftrightarrow> j < i"
proof -
  have lt: "serial_lt (serial_add s (of_nat a)) (serial_add s (of_nat b))"
    if "a < b" "b < 2147483647" for a b
  proof -
    obtain x where x: "s = Serial x" by (cases s)
    have "unat (of_nat (b - a) :: u32) = b - a"
      by (rule unat_u32_of_nat) (use that in linarith)
    then have "serial_lt (serial_add s (of_nat a)) (serial_add (serial_add s (of_nat a)) (of_nat (b - a)))"
      by (intro serial_lt_add) (use that in linarith)+
    moreover have "of_nat a + of_nat (b - a) = (of_nat b :: u32)"
      using that(1) by (simp add: of_nat_diff)
    ultimately show ?thesis by (simp add: x add.assoc)
  qed
  show ?thesis
  proof (cases rule: linorder_cases[of i j])
    case less
    then show ?thesis using lt[of i j] assms
      by (simp add: serial_lt_def serial_gt_def)
  next
    case greater
    then show ?thesis using lt[of j i] assms by (simp add: serial_lt_iff_gt)
  qed simp
qed

text \<open>Applying the state of an identifier applies exactly the queued states up to it, in order, and
  leaves the later ones queued, also when the identifiers wrap around, as long as fewer than half
  of the identifier range is queued.\<close>

theorem cache_apply_exact:
  assumes "map fst (cs_cache me) = map (\<lambda>k. serial_add s (of_nat k)) [0..<n]" "n \<le> 2147483647" "j < n"
  shows "let me' = fst (cache_apply_state c (serial_add s (of_nat j)) me)
         in cs_cache me' = drop (Suc j) (cs_cache me)
          \<and> cs_current me' = foldl (merge_value c) (cs_current me) (map snd (take (Suc j) (cs_cache me)))
          \<and> cs_pending me' = cs_pending me"
proof -
  let ?i = "serial_add s (of_nat j)" and ?q = "cs_cache me"
  have len: "length ?q = n" using arg_cong[OF assms(1), of length] by simp
  have fst_q: "fst (?q ! k) = serial_add s (of_nat k)" if "k < n" for k
    using arg_cong[OF assms(1), of "\<lambda>l. l ! k"] that len by simp
  obtain m where m: "fst (apply_loop c ?i ?q (cs_current me)) = drop m ?q" "m \<le> length ?q"
    "fst (snd (apply_loop c ?i ?q (cs_current me))) = foldl (merge_value c) (cs_current me) (map snd (take m ?q))"
    "\<And>k. k < m \<Longrightarrow> \<not> serial_gt (fst (?q ! k)) ?i"
    "m < length ?q \<Longrightarrow> serial_gt (fst (?q ! m)) ?i"
    by (rule apply_loop_split[of c ?i ?q "cs_current me"]) blast
  have gt: "serial_gt (fst (?q ! k)) ?i \<longleftrightarrow> j < k" if "k < n" for k
    using that assms(2,3) by (simp add: fst_q serial_gt_offset)
  have "m = Suc j"
  proof (rule antisym)
    show "m \<le> Suc j"
    proof (rule ccontr)
      assume "\<not> m \<le> Suc j"
      then have k: "Suc j < m" "Suc j < n" using m(2) len by simp_all
      show False using m(4)[OF k(1)] gt[OF k(2)] by simp
    qed
    show "Suc j \<le> m"
    proof (rule ccontr)
      assume "\<not> Suc j \<le> m"
      then have k: "m < n" using assms(3) by simp
      with m(5) len gt[OF k] \<open>\<not> Suc j \<le> m\<close> show False by simp
    qed
  qed
  then show ?thesis using m(1,3) by (simp add: cache_apply_state_def Let_def case_prod_beta)
qed

theorem cache_apply_exact_witness:
  "let q = [(Serial 4294967294, \<lparr>ss_location = point_new 1 1\<rparr>), (Serial 4294967295, \<lparr>ss_location = point_new 2 2\<rparr>),
            (Serial 0, \<lparr>ss_location = point_new 3 3\<rparr>)];
       me = \<lparr>cs_pending = subsurface_default, cs_cache = q, cs_current = subsurface_default\<rparr>
   in length (cs_cache (fst (cache_apply_state subsurface_cacheable (Serial 4294967295) me))) = 1"
proof -
  let ?me = "\<lparr>cs_pending = subsurface_default, cs_cache = [(Serial 4294967294, \<lparr>ss_location = point_new 1 1\<rparr>),
     (Serial 4294967295, \<lparr>ss_location = point_new 2 2\<rparr>), (Serial 0, \<lparr>ss_location = point_new 3 3\<rparr>)],
     cs_current = subsurface_default\<rparr>"
  show ?thesis
    using cache_apply_exact[of ?me "Serial 4294967294" 3 1 subsurface_cacheable]
    by (simp add: Let_def upt_rec)
qed

end
