(* ===== verification/Transactions.thy ===== *)
theory Transactions
  imports Cache
begin

text \<open>
  Surface transactions, \<open>src/wayland/compositor/transaction.rs\<close>: blockers, the pending transactions
  of surfaces with the shared cells that fuse them, and the queue of a client. Surfaces and
  blockers are type parameters; whether a surface is alive, its protocol identifier and the answer
  of a blocker are arguments, because the code asks other objects for them. The shared cells are
  an explicit heap with reference counts, and the heap refines the plain assignment of a
  transaction to each surface, which the rest of the development uses.
\<close>

section \<open>Blockers\<close>

datatype blocker_state = Pending | Released | Cancelled

text \<open>\<open>Barrier\<close> is a counted reference to an atomic flag; equality is identity of the reference.\<close>

type_synonym barrier = nat
type_synonym barrier_heap = "barrier \<Rightarrow> bool"

definition barrier_new :: "barrier \<Rightarrow> bool \<Rightarrow> barrier_heap \<Rightarrow> barrier_heap" where
  "barrier_new b signaled h = h(b := signaled)"

definition barrier_is_signaled :: "barrier \<Rightarrow> barrier_heap \<Rightarrow> bool" where
  "barrier_is_signaled b h = h b"

definition barrier_signal :: "barrier \<Rightarrow> barrier_heap \<Rightarrow> barrier_heap" where
  "barrier_signal b h = h(b := True)"

definition barrier_state :: "barrier_heap \<Rightarrow> barrier \<Rightarrow> blocker_state" where
  "barrier_state h b = (if barrier_is_signaled b h then Released else Pending)"

section \<open>Transactions\<close>

record ('s, 'b) transaction_state =
  ts_surfaces :: "('s \<times> serial) list"
  ts_blockers :: "'b list"

definition ts_default :: "('s, 'b) transaction_state" where
  "ts_default = \<lparr>ts_surfaces = [], ts_blockers = []\<rparr>"

text \<open>The serial of a surface already in the list is raised, otherwise the surface is appended.\<close>

fun insert_surface :: "'s \<Rightarrow> serial \<Rightarrow> ('s \<times> serial) list \<Rightarrow> ('s \<times> serial) list" where
  "insert_surface s i [] = [(s, i)]"
| "insert_surface s i ((s', i') # places) =
     (if s' = s then (s', if serial_lt i' i then i else i') # places
      else (s', i') # insert_surface s i places)"

definition ts_insert :: "'s \<Rightarrow> serial \<Rightarrow> ('s, 'b) transaction_state \<Rightarrow> ('s, 'b) transaction_state" where
  "ts_insert s i ts = ts\<lparr>ts_surfaces := insert_surface s i (ts_surfaces ts)\<rparr>"

definition ts_add_blocker :: "'b \<Rightarrow> ('s, 'b) transaction_state \<Rightarrow> ('s, 'b) transaction_state" where
  "ts_add_blocker b ts = ts\<lparr>ts_blockers := ts_blockers ts @ [b]\<rparr>"

text \<open>The closure of \<open>merge_into\<close>: surfaces still alive are inserted, all blockers appended.\<close>

definition ts_absorb :: "('s \<Rightarrow> bool) \<Rightarrow> ('s, 'b) transaction_state \<Rightarrow> ('s, 'b) transaction_state
    \<Rightarrow> ('s, 'b) transaction_state" where
  "ts_absorb alive mine into =
     (let into = fold (\<lambda>(s, i) t. if alive s then ts_insert s i t else t) (ts_surfaces mine) into
      in into\<lparr>ts_blockers := ts_blockers into @ ts_blockers mine\<rparr>)"

text \<open>\<open>Transaction::state\<close>: cancelled when no surface is alive, then the fold over the blockers.\<close>

fun combine_state :: "blocker_state \<Rightarrow> blocker_state \<Rightarrow> blocker_state" where
  "combine_state Cancelled _ = Cancelled"
| "combine_state _ Cancelled = Cancelled"
| "combine_state Pending _ = Pending"
| "combine_state _ Pending = Pending"
| "combine_state Released Released = Released"

definition transaction_state_of :: "('s \<Rightarrow> bool) \<Rightarrow> ('b \<Rightarrow> blocker_state) \<Rightarrow> ('s, 'b) transaction_state \<Rightarrow> blocker_state" where
  "transaction_state_of alive bstate t =
     (if \<not> (\<exists>(s, i)\<in>set (ts_surfaces t). alive s) then Cancelled
      else fold (\<lambda>b acc. combine_state acc (bstate b)) (ts_blockers t) Released)"

lemma combine_fold:
  "fold (\<lambda>b acc. combine_state acc (bstate b)) bs acc =
     (if acc = Cancelled \<or> Cancelled \<in> bstate ` set bs then Cancelled
      else if acc = Pending \<or> Pending \<in> bstate ` set bs then Pending else Released)"
proof (induction bs arbitrary: acc)
  case Nil
  then show ?case by (cases acc) auto
next
  case (Cons b bs)
  show ?case
    by (cases acc; cases "bstate b") (auto simp: Cons.IH)
qed

lemma transaction_state_iff:
  "transaction_state_of alive bstate t =
     (if (\<forall>x\<in>set (ts_surfaces t). \<not> alive (fst x)) \<or> Cancelled \<in> bstate ` set (ts_blockers t) then Cancelled
      else if Pending \<in> bstate ` set (ts_blockers t) then Pending else Released)"
  unfolding transaction_state_of_def combine_fold by (simp add: case_prod_beta)

lemma insert_surface_keys: "fst ` set (insert_surface s i xs) = insert s (fst ` set xs)"
  by (induction s i xs rule: insert_surface.induct) auto

lemma insert_surface_distinct:
  "distinct (map fst xs) \<Longrightarrow> distinct (map fst (insert_surface s i xs))"
proof (induction s i xs rule: insert_surface.induct)
  case (2 s i s' i' places)
  then show ?case
    using insert_surface_keys[of s i places] by auto
qed simp

section \<open>Pending transactions as shared cells\<close>

datatype ('s, 'b) transaction_inner = Data "('s, 'b) transaction_state" | Fused nat

text \<open>A cell holds its strong count and its contents; a \<open>PendingTransaction\<close> is an address.\<close>

type_synonym ('s, 'b) cells = "nat \<Rightarrow> (nat \<times> ('s, 'b) transaction_inner) option"

record ('s, 'b) tx_heap =
  tx_cells :: "('s, 'b) cells"
  tx_next :: nat

definition tx_alloc :: "('s, 'b) tx_heap \<Rightarrow> nat \<times> ('s, 'b) tx_heap" where
  "tx_alloc h = (tx_next h, h\<lparr>tx_cells := (tx_cells h)(tx_next h \<mapsto> (1, Data ts_default)), tx_next := Suc (tx_next h)\<rparr>)"

text \<open>The walk along \<open>Fused\<close> cells to the one with the data; a cycle would never return.\<close>

partial_function (option) tx_root :: "('s, 'b) cells \<Rightarrow> nat \<Rightarrow> nat option" where
  "tx_root cs a =
     (case cs a of
        None \<Rightarrow> None
      | Some (n, inner) \<Rightarrow> (case inner of Data ts \<Rightarrow> Some a | Fused into \<Rightarrow> tx_root cs into))"

declare tx_root.simps [code]

definition with_inner_state :: "(('s, 'b) transaction_state \<Rightarrow> ('s, 'b) transaction_state) \<Rightarrow> nat
    \<Rightarrow> ('s, 'b) tx_heap \<Rightarrow> ('s, 'b) tx_heap option" where
  "with_inner_state f a h =
     (case tx_root (tx_cells h) a of
        None \<Rightarrow> None
      | Some r \<Rightarrow> (case tx_cells h r of
            Some (n, Data ts) \<Rightarrow> Some (h\<lparr>tx_cells := (tx_cells h)(r \<mapsto> (n, Data (f ts)))\<rparr>)
          | _ \<Rightarrow> None))"

definition tx_insert_state :: "nat \<Rightarrow> 's \<Rightarrow> serial \<Rightarrow> ('s, 'b) tx_heap \<Rightarrow> ('s, 'b) tx_heap option" where
  "tx_insert_state a s i h = with_inner_state (ts_insert s i) a h"

definition tx_add_blocker :: "nat \<Rightarrow> 'b \<Rightarrow> ('s, 'b) tx_heap \<Rightarrow> ('s, 'b) tx_heap option" where
  "tx_add_blocker a b h = with_inner_state (ts_add_blocker b) a h"

definition tx_is_same_as :: "nat \<Rightarrow> nat \<Rightarrow> ('s, 'b) tx_heap \<Rightarrow> bool option" where
  "tx_is_same_as a b h =
     (case (tx_root (tx_cells h) a, tx_root (tx_cells h) b) of (Some r, Some r') \<Rightarrow> Some (r = r') | _ \<Rightarrow> None)"

definition tx_merge_into :: "('s \<Rightarrow> bool) \<Rightarrow> nat \<Rightarrow> nat \<Rightarrow> ('s, 'b) tx_heap \<Rightarrow> ('s, 'b) tx_heap option" where
  "tx_merge_into alive self into h =
     (case tx_is_same_as self into h of
        None \<Rightarrow> None
      | Some True \<Rightarrow> Some h
      | Some False \<Rightarrow>
          (case tx_root (tx_cells h) self of
             None \<Rightarrow> None
           | Some r \<Rightarrow>
               (case (tx_cells h r, tx_cells h into) of
                  (Some (n, Data mine), Some (m, inner)) \<Rightarrow>
                    with_inner_state (ts_absorb alive mine) self
                      (h\<lparr>tx_cells := (tx_cells h)(into \<mapsto> (Suc m, inner), r \<mapsto> (n, Fused into))\<rparr>)
                | _ \<Rightarrow> None)))"

text \<open>Dropping a handle frees a cell with the last reference, and what it was fused into likewise.\<close>

partial_function (option) tx_drop :: "nat \<Rightarrow> ('s, 'b) cells \<Rightarrow> ('s, 'b) cells option" where
  "tx_drop a cs =
     (case cs a of
        None \<Rightarrow> None
      | Some (n, inner) \<Rightarrow>
          if n = 1
          then (case inner of Data ts \<Rightarrow> Some (cs(a := None)) | Fused into \<Rightarrow> tx_drop into (cs(a := None)))
          else Some (cs(a \<mapsto> (n - 1, inner))))"

declare tx_drop.simps [code]

text \<open>\<open>finalize\<close> panics when its handle is not the last one.\<close>

datatype ('s, 'b) finalized = Finalized "('s, 'b) transaction_state" "('s, 'b) cells" | Not_last

partial_function (option) tx_finalize :: "nat \<Rightarrow> ('s, 'b) cells \<Rightarrow> ('s, 'b) finalized option" where
  "tx_finalize a cs =
     (case cs a of
        None \<Rightarrow> None
      | Some (n, inner) \<Rightarrow>
          if n \<noteq> 1 then Some Not_last
          else (case inner of
                  Data ts \<Rightarrow> Some (Finalized ts (cs(a := None)))
                | Fused into \<Rightarrow> tx_finalize into (cs(a := None))))"

declare tx_finalize.simps [code]


section \<open>The transactions of all surfaces\<close>

text \<open>
  Every surface owns one handle. These are the ways \<open>tree.rs\<close> uses the handles: a new surface
  allocates one, its commits insert and block through it, a synchronised child's is replaced by a
  default one (\<open>std::mem::take\<close>), merged into the parent's and dropped, and the one of a
  desynchronised surface is taken and finalized.
\<close>

record ('s, 'b) tx_sys =
  sys_heap :: "('s, 'b) tx_heap"
  sys_handle :: "'s \<Rightarrow> nat option"

datatype ('s, 'b) tx_op =
    Tx_create 's
  | Tx_insert 's 's serial
  | Tx_block 's 'b
  | Tx_merge_child 's 's
  | Tx_finalize 's
  | Tx_destroy 's

definition on_heap :: "('s, 'b) tx_sys \<Rightarrow> ('s, 'b) tx_heap option \<Rightarrow> (('s, 'b) tx_sys \<times> ('s, 'b) transaction_state option) option" where
  "on_heap sys h = map_option (\<lambda>h. (sys\<lparr>sys_heap := h\<rparr>, None)) h"

text \<open>\<open>std::mem::take\<close> of the handle of a surface: the old handle, and a default one in its place.\<close>

definition tx_take :: "'s \<Rightarrow> ('s, 'b) tx_sys \<Rightarrow> nat option \<times> ('s, 'b) tx_sys" where
  "tx_take s sys =
     (let (a, h) = tx_alloc (sys_heap sys)
      in (sys_handle sys s, sys\<lparr>sys_heap := h, sys_handle := (sys_handle sys)(s \<mapsto> a)\<rparr>))"

fun tx_exec :: "('s \<Rightarrow> bool) \<Rightarrow> ('s, 'b) tx_op \<Rightarrow> ('s, 'b) tx_sys
    \<Rightarrow> (('s, 'b) tx_sys \<times> ('s, 'b) transaction_state option) option" where
  "tx_exec alive (Tx_create s) sys = Some (snd (tx_take s sys), None)"
| "tx_exec alive (Tx_insert s x i) sys =
     (case sys_handle sys s of None \<Rightarrow> None
      | Some a \<Rightarrow> on_heap sys (tx_insert_state a x i (sys_heap sys)))"
| "tx_exec alive (Tx_block s b) sys =
     (case sys_handle sys s of None \<Rightarrow> None
      | Some a \<Rightarrow> on_heap sys (tx_add_blocker a b (sys_heap sys)))"
| "tx_exec alive (Tx_merge_child child parent) sys =
     (let (taken, sys') = tx_take child sys
      in case (taken, sys_handle sys' parent) of
           (Some child_tx, Some into) \<Rightarrow>
             (case tx_merge_into alive child_tx into (sys_heap sys') of
                None \<Rightarrow> None
              | Some h \<Rightarrow> (case tx_drop child_tx (tx_cells h) of
                    None \<Rightarrow> None
                  | Some cs \<Rightarrow> Some (sys'\<lparr>sys_heap := h\<lparr>tx_cells := cs\<rparr>\<rparr>, None)))
         | _ \<Rightarrow> None)"
| "tx_exec alive (Tx_finalize s) sys =
     (let (taken, sys') = tx_take s sys
      in case taken of None \<Rightarrow> None
         | Some tx \<Rightarrow> (case tx_finalize tx (tx_cells (sys_heap sys')) of
               Some (Finalized ts cs) \<Rightarrow> Some (sys'\<lparr>sys_heap := (sys_heap sys')\<lparr>tx_cells := cs\<rparr>\<rparr>, Some ts)
             | _ \<Rightarrow> None))"
| "tx_exec alive (Tx_destroy s) sys =
     (case sys_handle sys s of None \<Rightarrow> None
      | Some a \<Rightarrow> (case tx_drop a (tx_cells (sys_heap sys)) of
            None \<Rightarrow> None
          | Some cs \<Rightarrow> Some (sys\<lparr>sys_heap := (sys_heap sys)\<lparr>tx_cells := cs\<rparr>,
                                 sys_handle := (sys_handle sys)(s := None)\<rparr>, None)))"

text \<open>The specification: a transaction per surface, no sharing.\<close>

type_synonym ('s, 'b) tx_spec = "'s \<Rightarrow> ('s, 'b) transaction_state option"

definition spec_update :: "'s \<Rightarrow> (('s, 'b) transaction_state \<Rightarrow> ('s, 'b) transaction_state)
    \<Rightarrow> ('s, 'b) tx_spec \<Rightarrow> ('s, 'b) tx_spec" where
  "spec_update s f m = m(s := map_option f (m s))"

fun spec_exec :: "('s \<Rightarrow> bool) \<Rightarrow> ('s, 'b) tx_op \<Rightarrow> ('s, 'b) tx_spec
    \<Rightarrow> ('s, 'b) tx_spec \<times> ('s, 'b) transaction_state option" where
  "spec_exec alive (Tx_create s) m = (m(s \<mapsto> ts_default), None)"
| "spec_exec alive (Tx_insert s x i) m = (spec_update s (ts_insert x i) m, None)"
| "spec_exec alive (Tx_block s b) m = (spec_update s (ts_add_blocker b) m, None)"
| "spec_exec alive (Tx_merge_child child parent) m =
     (spec_update parent (ts_absorb alive (the (m child))) (m(child \<mapsto> ts_default)), None)"
| "spec_exec alive (Tx_finalize s) m = (m(s \<mapsto> ts_default), m s)"
| "spec_exec alive (Tx_destroy s) m = (m(s := None), None)"

text \<open>When the operation is called: on existing surfaces, a child other than its parent.\<close>

fun tx_enabled :: "('s, 'b) tx_op \<Rightarrow> ('s, 'b) tx_sys \<Rightarrow> bool" where
  "tx_enabled (Tx_create s) sys \<longleftrightarrow> sys_handle sys s = None"
| "tx_enabled (Tx_insert s x i) sys \<longleftrightarrow> sys_handle sys s \<noteq> None"
| "tx_enabled (Tx_block s b) sys \<longleftrightarrow> sys_handle sys s \<noteq> None"
| "tx_enabled (Tx_merge_child c p) sys \<longleftrightarrow> sys_handle sys c \<noteq> None \<and> sys_handle sys p \<noteq> None \<and> c \<noteq> p"
| "tx_enabled (Tx_finalize s) sys \<longleftrightarrow> sys_handle sys s \<noteq> None"
| "tx_enabled (Tx_destroy s) sys \<longleftrightarrow> sys_handle sys s \<noteq> None"

text \<open>Between these operations nothing is shared: every cell is owned by one surface.\<close>

definition tx_inv :: "('s, 'b) tx_sys \<Rightarrow> bool" where
  "tx_inv sys \<longleftrightarrow>
     (\<forall>s a. sys_handle sys s = Some a \<longrightarrow> (\<exists>ts. tx_cells (sys_heap sys) a = Some (1, Data ts))) \<and>
     (\<forall>s s' a. sys_handle sys s = Some a \<longrightarrow> sys_handle sys s' = Some a \<longrightarrow> s = s') \<and>
     (\<forall>a. tx_cells (sys_heap sys) a \<noteq> None \<longrightarrow> (\<exists>s. sys_handle sys s = Some a)) \<and>
     (\<forall>a. tx_cells (sys_heap sys) a \<noteq> None \<longrightarrow> a < tx_next (sys_heap sys))"

definition tx_abs :: "('s, 'b) tx_sys \<Rightarrow> ('s, 'b) tx_spec" where
  "tx_abs sys s =
     (case sys_handle sys s of
        None \<Rightarrow> None
      | Some a \<Rightarrow> (case tx_cells (sys_heap sys) a of Some (n, Data ts) \<Rightarrow> Some ts | _ \<Rightarrow> None))"

lemma tx_root_data: "cs a = Some (n, Data ts) \<Longrightarrow> tx_root cs a = Some a"
  by (subst tx_root.simps) simp

lemma tx_root_fused: "cs a = Some (n, Fused b) \<Longrightarrow> tx_root cs a = tx_root cs b"
  by (subst tx_root.simps) simp

lemma with_inner_data:
  "tx_cells h a = Some (n, Data ts) \<Longrightarrow>
   with_inner_state f a h = Some (h\<lparr>tx_cells := (tx_cells h)(a \<mapsto> (n, Data (f ts)))\<rparr>)"
  by (simp add: with_inner_state_def tx_root_data)

lemma tx_drop_data: "cs a = Some (1, Data ts) \<Longrightarrow> tx_drop a cs = Some (cs(a := None))"
  by (subst tx_drop.simps) simp

lemma tx_finalize_data: "cs a = Some (1, Data ts) \<Longrightarrow> tx_finalize a cs = Some (Finalized ts (cs(a := None)))"
  by (subst tx_finalize.simps) simp

text \<open>Merging a taken child's transaction and dropping it: the parent's cell ends with one owner.\<close>

lemma merge_and_drop:
  assumes "tx_cells h a = Some (1, Data mine)" "tx_cells h b = Some (1, Data ts)" "a \<noteq> b"
  shows "\<exists>h'. tx_merge_into alive a b h = Some h' \<and> tx_next h' = tx_next h \<and>
    tx_drop a (tx_cells h') = Some ((tx_cells h)(a := None, b \<mapsto> (1, Data (ts_absorb alive mine ts))))"
proof -
  let ?h1 = "h\<lparr>tx_cells := (tx_cells h)(b \<mapsto> (2, Data ts), a \<mapsto> (1, Fused b))\<rparr>"
  let ?h2 = "?h1\<lparr>tx_cells := (tx_cells ?h1)(b \<mapsto> (2, Data (ts_absorb alive mine ts)))\<rparr>"
  have r: "tx_root (tx_cells h) a = Some a" "tx_root (tx_cells h) b = Some b"
    using assms by (simp_all add: tx_root_data)
  have "tx_root (tx_cells ?h1) a = tx_root (tx_cells ?h1) b"
    by (rule tx_root_fused[where n = 1]) simp
  also have "\<dots> = Some b"
    by (rule tx_root_data[where n = 2 and ts = ts]) (use assms(3) in simp)
  finally have "with_inner_state (ts_absorb alive mine) a ?h1 = Some ?h2"
    using assms(3) by (simp add: with_inner_state_def)
  then have m: "tx_merge_into alive a b h = Some ?h2"
    using r assms by (simp add: tx_merge_into_def tx_is_same_as_def numeral_2_eq_2)
  have "tx_drop a (tx_cells ?h2) = tx_drop b ((tx_cells ?h2)(a := None))"
    by (subst tx_drop.simps) (use assms(3) in simp)
  also have "\<dots> = Some ((tx_cells ?h2)(a := None, b \<mapsto> (1, Data (ts_absorb alive mine ts))))"
    by (subst tx_drop.simps) (use assms(3) in simp)
  also have "(tx_cells ?h2)(a := None, b \<mapsto> (1, Data (ts_absorb alive mine ts)))
      = (tx_cells h)(a := None, b \<mapsto> (1, Data (ts_absorb alive mine ts)))"
    using assms(3) by (auto simp: fun_eq_iff)
  finally have d: "tx_drop a (tx_cells ?h2) = Some ((tx_cells h)(a := None, b \<mapsto> (1, Data (ts_absorb alive mine ts))))" .
  show ?thesis by (rule exI[of _ ?h2], rule conjI[OF m], rule conjI[OF _ d]) simp
qed


lemma tx_invI [intro?]:
  assumes "\<And>s a. sys_handle sys s = Some a \<Longrightarrow> \<exists>ts. tx_cells (sys_heap sys) a = Some (1, Data ts)"
    and "\<And>s s' a. sys_handle sys s = Some a \<Longrightarrow> sys_handle sys s' = Some a \<Longrightarrow> s = s'"
    and "\<And>a. tx_cells (sys_heap sys) a \<noteq> None \<Longrightarrow> \<exists>s. sys_handle sys s = Some a"
    and "\<And>a. tx_cells (sys_heap sys) a \<noteq> None \<Longrightarrow> a < tx_next (sys_heap sys)"
  shows "tx_inv sys"
  using assms unfolding tx_inv_def by blast

lemma tx_invD:
  assumes "tx_inv sys"
  shows "sys_handle sys s = Some a \<Longrightarrow> \<exists>ts. tx_cells (sys_heap sys) a = Some (1, Data ts)"
    and "sys_handle sys s = Some a \<Longrightarrow> sys_handle sys s' = Some a \<Longrightarrow> s = s'"
    and "tx_cells (sys_heap sys) a \<noteq> None \<Longrightarrow> \<exists>s. sys_handle sys s = Some a"
    and "tx_cells (sys_heap sys) a \<noteq> None \<Longrightarrow> a < tx_next (sys_heap sys)"
  using assms unfolding tx_inv_def by blast+

lemma tx_owned:
  assumes "tx_inv sys" "sys_handle sys s = Some a"
  obtains ts where "tx_cells (sys_heap sys) a = Some (1, Data ts)" "tx_abs sys s = Some ts"
    "a < tx_next (sys_heap sys)"
proof -
  obtain ts where ts: "tx_cells (sys_heap sys) a = Some (1, Data ts)"
    using tx_invD(1)[OF assms] by blast
  with tx_invD(4)[OF assms(1)] have "a < tx_next (sys_heap sys)" by blast
  then show thesis using that ts assms(2) by (simp add: tx_abs_def)
qed

lemma tx_owned_lt: "tx_inv sys \<Longrightarrow> sys_handle sys s = Some a \<Longrightarrow> a < tx_next (sys_heap sys)"
  by (erule tx_owned) assumption

text \<open>
  One statement covers every way the handle of one surface changes: the cell it owned is freed or
  rewritten, and it owns the cell it is given, an old one of its own or a fresh one.
\<close>

lemma tx_inv_change:
  assumes inv: "tx_inv sys"
    and handle: "sys_handle sys' = (sys_handle sys)(s := ha)"
    and fresh: "\<And>b. ha = Some b \<Longrightarrow> (sys_handle sys s = Some b \<or> b = tx_next (sys_heap sys))
        \<and> b < tx_next (sys_heap sys') \<and> tx_cells (sys_heap sys') b = Some (1, Data ts)"
    and others: "\<And>b. ha \<noteq> Some b \<Longrightarrow> tx_cells (sys_heap sys') b
        = (if sys_handle sys s = Some b then None else tx_cells (sys_heap sys) b)"
    and mono: "tx_next (sys_heap sys) \<le> tx_next (sys_heap sys')"
  shows "tx_inv sys'" "tx_abs sys' = (tx_abs sys)(s := map_option (\<lambda>_. ts) ha)"
proof -
  have sep: "ha \<noteq> Some b \<and> sys_handle sys s \<noteq> Some b" if "sys_handle sys s' = Some b" "s' \<noteq> s" for s' b
  proof -
    have "b < tx_next (sys_heap sys)" by (rule tx_owned_lt[OF inv that(1)])
    then show ?thesis using fresh[of b] tx_invD(2)[OF inv that(1), of s] that(2) by auto
  qed
  show "tx_inv sys'"
  proof (rule tx_invI)
    fix s' b assume b: "sys_handle sys' s' = Some b"
    show "\<exists>ts. tx_cells (sys_heap sys') b = Some (1, Data ts)"
    proof (cases "s' = s")
      case False
      then have "sys_handle sys s' = Some b" using b handle by simp
      then show ?thesis using sep[OF _ False] others[of b] tx_invD(1)[OF inv] by simp
    qed (use b handle fresh in auto)
  next
    fix s' s'' b assume b: "sys_handle sys' s' = Some b" "sys_handle sys' s'' = Some b"
    then show "s' = s''"
      using handle sep[of s' b] sep[of s'' b] tx_invD(2)[OF inv, of s' b s''] by (auto split: if_splits)
  next
    fix b assume b: "tx_cells (sys_heap sys') b \<noteq> None"
    show "\<exists>s'. sys_handle sys' s' = Some b"
    proof (cases "ha = Some b")
      case False
      with b others[of b] have "tx_cells (sys_heap sys) b \<noteq> None" "sys_handle sys s \<noteq> Some b"
        by (auto split: if_splits)
      moreover from this(1) obtain s' where "sys_handle sys s' = Some b" using tx_invD(3)[OF inv] by blast
      ultimately show ?thesis using handle by (intro exI[of _ s']) auto
    qed (use handle in auto)
    show "b < tx_next (sys_heap sys')"
    proof (cases "ha = Some b")
      case False
      with b others[of b] have "tx_cells (sys_heap sys) b \<noteq> None" by (auto split: if_splits)
      then show ?thesis using tx_invD(4)[OF inv, of b] mono by linarith
    qed (use fresh in blast)
  qed
  show "tx_abs sys' = (tx_abs sys)(s := map_option (\<lambda>_. ts) ha)"
  proof (rule ext)
    fix s'
    show "tx_abs sys' s' = ((tx_abs sys)(s := map_option (\<lambda>_. ts) ha)) s'"
    proof (cases "s' = s")
      case True
      then show ?thesis using handle fresh by (cases ha) (auto simp: tx_abs_def)
    next
      case False
      then show ?thesis
        using handle sep[of s'] others by (cases "sys_handle sys s'") (auto simp: tx_abs_def)
    qed
  qed
qed

lemma tx_take_create:
  assumes "tx_inv sys" "sys_handle sys s = None"
  shows "tx_inv (snd (tx_take s sys))" "tx_abs (snd (tx_take s sys)) = (tx_abs sys)(s \<mapsto> ts_default)"
  using tx_inv_change[OF assms(1), of "snd (tx_take s sys)" s "Some (tx_next (sys_heap sys))" ts_default]
    assms(2) by (simp_all add: tx_take_def tx_alloc_def)

text \<open>Taking the handle of a surface and freeing what was taken.\<close>

lemma tx_take_free:
  assumes inv: "tx_inv sys" and a: "sys_handle sys s = Some a"
  defines "sys' \<equiv> snd (tx_take s sys)"
  shows "fst (tx_take s sys) = Some a"
    "tx_cells (sys_heap sys') a = tx_cells (sys_heap sys) a"
    "s' \<noteq> s \<Longrightarrow> sys_handle sys s' = Some b \<Longrightarrow> sys_handle sys' s' = Some b \<and> b \<noteq> a \<and>
       tx_cells (sys_heap sys') b = tx_cells (sys_heap sys) b"
    "tx_inv (sys'\<lparr>sys_heap := (sys_heap sys')\<lparr>tx_cells := (tx_cells (sys_heap sys'))(a := None)\<rparr>\<rparr>)"
    "tx_abs (sys'\<lparr>sys_heap := (sys_heap sys')\<lparr>tx_cells := (tx_cells (sys_heap sys'))(a := None)\<rparr>\<rparr>)
       = (tx_abs sys)(s \<mapsto> ts_default)"
proof -
  have lt: "a < tx_next (sys_heap sys)" by (rule tx_owned_lt[OF inv a])
  show "fst (tx_take s sys) = Some a" "tx_cells (sys_heap sys') a = tx_cells (sys_heap sys) a"
    using lt a by (simp_all add: sys'_def tx_take_def tx_alloc_def)
  show "sys_handle sys' s' = Some b \<and> b \<noteq> a \<and> tx_cells (sys_heap sys') b = tx_cells (sys_heap sys) b"
    if "s' \<noteq> s" "sys_handle sys s' = Some b"
  proof -
    have "b < tx_next (sys_heap sys)" by (rule tx_owned_lt[OF inv that(2)])
    then show ?thesis
      using that tx_invD(2)[OF inv a, of s'] by (auto simp: sys'_def tx_take_def tx_alloc_def)
  qed
  let ?x = "sys'\<lparr>sys_heap := (sys_heap sys')\<lparr>tx_cells := (tx_cells (sys_heap sys'))(a := None)\<rparr>\<rparr>"
  show "tx_inv ?x" "tx_abs ?x = (tx_abs sys)(s \<mapsto> ts_default)"
    using tx_inv_change[OF inv, of ?x s "Some (tx_next (sys_heap sys))" ts_default] lt a
    by (simp_all add: sys'_def tx_take_def tx_alloc_def)
qed

lemma tx_update_owned:
  assumes "tx_inv sys" "sys_handle sys s = Some a"
    and "sys' = sys\<lparr>sys_heap := (sys_heap sys)\<lparr>tx_cells := (tx_cells (sys_heap sys))(a \<mapsto> (1, Data ts))\<rparr>\<rparr>"
  shows "tx_inv sys'" "tx_abs sys' = (tx_abs sys)(s \<mapsto> ts)"
proof -
  have lt: "a < tx_next (sys_heap sys)" by (rule tx_owned_lt[OF assms(1,2)])
  show "tx_inv sys'" "tx_abs sys' = (tx_abs sys)(s \<mapsto> ts)"
    using tx_inv_change[OF assms(1), of sys' s "Some a" ts] assms(2,3) lt by (auto simp: fun_upd_idem)
qed

lemma tx_destroy_owned:
  assumes "tx_inv sys" "sys_handle sys s = Some a"
    and "sys' = sys\<lparr>sys_heap := (sys_heap sys)\<lparr>tx_cells := (tx_cells (sys_heap sys))(a := None)\<rparr>,
      sys_handle := (sys_handle sys)(s := None)\<rparr>"
  shows "tx_inv sys'" "tx_abs sys' = (tx_abs sys)(s := None)"
  using tx_inv_change[OF assms(1), of sys' s None] assms(2,3) by auto


text \<open>Each operation does on the cells what it does to the transactions.\<close>

lemma refine_insert:
  assumes "tx_inv sys" "tx_enabled (Tx_insert s x i) sys"
  shows "\<exists>sys' out. tx_exec alive (Tx_insert s x i) sys = Some (sys', out) \<and> tx_inv sys' \<and>
    (tx_abs sys', out) = spec_exec alive (Tx_insert s x i) (tx_abs sys)"
proof -
  from assms(2) obtain a where a: "sys_handle sys s = Some a" by auto
  obtain ts where ts: "tx_cells (sys_heap sys) a = Some (1, Data ts)" "tx_abs sys s = Some ts"
    by (rule tx_owned[OF assms(1) a])
  from tx_update_owned[OF assms(1) a refl, of "ts_insert x i ts"] show ?thesis
    using a with_inner_data[OF ts(1), of "ts_insert x i"] ts(2)
    by (simp add: on_heap_def tx_insert_state_def spec_update_def)
qed

lemma refine_block:
  assumes "tx_inv sys" "tx_enabled (Tx_block s b) sys"
  shows "\<exists>sys' out. tx_exec alive (Tx_block s b) sys = Some (sys', out) \<and> tx_inv sys' \<and>
    (tx_abs sys', out) = spec_exec alive (Tx_block s b) (tx_abs sys)"
proof -
  from assms(2) obtain a where a: "sys_handle sys s = Some a" by auto
  obtain ts where ts: "tx_cells (sys_heap sys) a = Some (1, Data ts)" "tx_abs sys s = Some ts"
    by (rule tx_owned[OF assms(1) a])
  from tx_update_owned[OF assms(1) a refl, of "ts_add_blocker b ts"] show ?thesis
    using a with_inner_data[OF ts(1), of "ts_add_blocker b"] ts(2)
    by (simp add: on_heap_def tx_add_blocker_def spec_update_def)
qed

lemma refine_merge:
  assumes "tx_inv sys" "tx_enabled (Tx_merge_child c p) sys"
  shows "\<exists>sys' out. tx_exec alive (Tx_merge_child c p) sys = Some (sys', out) \<and> tx_inv sys' \<and>
    (tx_abs sys', out) = spec_exec alive (Tx_merge_child c p) (tx_abs sys)"
proof -
  from assms(2) obtain a b where a: "sys_handle sys c = Some a" and b: "sys_handle sys p = Some b" and ne: "p \<noteq> c"
    by auto
  obtain mine where mine: "tx_cells (sys_heap sys) a = Some (1, Data mine)" "tx_abs sys c = Some mine"
    by (rule tx_owned[OF assms(1) a])
  obtain ts where ts: "tx_cells (sys_heap sys) b = Some (1, Data ts)" "tx_abs sys p = Some ts"
    by (rule tx_owned[OF assms(1) b])
  let ?s1 = "snd (tx_take c sys)"
  let ?s2 = "?s1\<lparr>sys_heap := (sys_heap ?s1)\<lparr>tx_cells := (tx_cells (sys_heap ?s1))(a := None)\<rparr>\<rparr>"
  note take = tx_take_free[OF assms(1) a]
  have bs: "sys_handle ?s1 p = Some b" "b \<noteq> a" "tx_cells (sys_heap ?s1) b = Some (1, Data ts)"
    using take(3)[OF ne b] ts(1) by auto
  have as: "tx_cells (sys_heap ?s1) a = Some (1, Data mine)" using take(2) mine(1) by simp
  obtain h' where h': "tx_merge_into alive a b (sys_heap ?s1) = Some h'" "tx_next h' = tx_next (sys_heap ?s1)"
    "tx_drop a (tx_cells h') = Some ((tx_cells (sys_heap ?s1))(a := None, b \<mapsto> (1, Data (ts_absorb alive mine ts))))"
    using merge_and_drop[OF as bs(3) bs(2)[symmetric]] by blast
  let ?s3 = "?s2\<lparr>sys_heap := (sys_heap ?s2)\<lparr>tx_cells := (tx_cells (sys_heap ?s2))(b \<mapsto> (1, Data (ts_absorb alive mine ts)))\<rparr>\<rparr>"
  have s3: "tx_inv ?s3" "tx_abs ?s3 = (tx_abs ?s2)(p \<mapsto> ts_absorb alive mine ts)"
    using tx_update_owned[OF take(4), of p b ?s3] bs(1) by simp_all
  have "h'\<lparr>tx_cells := (tx_cells (sys_heap ?s1))(a := None, b \<mapsto> (1, Data (ts_absorb alive mine ts)))\<rparr>
      = sys_heap ?s3"
    using h'(2) by (simp add: tx_heap.equality)
  then have "tx_exec alive (Tx_merge_child c p) sys = Some (?s3, None)"
    using take(1) bs(1) h'(1,3) by (simp add: Let_def case_prod_beta)
  moreover have "tx_abs ?s3 = fst (spec_exec alive (Tx_merge_child c p) (tx_abs sys))"
    using s3(2) take(5) mine(2) ts(2) ne by (simp add: spec_update_def)
  ultimately show ?thesis using s3(1) by simp
qed

lemma refine_finalize:
  assumes "tx_inv sys" "tx_enabled (Tx_finalize s) sys"
  shows "\<exists>sys' out. tx_exec alive (Tx_finalize s) sys = Some (sys', out) \<and> tx_inv sys' \<and>
    (tx_abs sys', out) = spec_exec alive (Tx_finalize s) (tx_abs sys)"
proof -
  from assms(2) obtain a where a: "sys_handle sys s = Some a" by auto
  obtain ts where ts: "tx_cells (sys_heap sys) a = Some (1, Data ts)" "tx_abs sys s = Some ts"
    by (rule tx_owned[OF assms(1) a])
  note take = tx_take_free[OF assms(1) a]
  have "tx_finalize a (tx_cells (sys_heap (snd (tx_take s sys))))
      = Some (Finalized ts ((tx_cells (sys_heap (snd (tx_take s sys))))(a := None)))"
    by (rule tx_finalize_data) (use take(2) ts(1) in simp)
  then show ?thesis
    using take(1,4,5) ts(2) by (simp add: Let_def case_prod_beta)
qed

lemma refine_destroy:
  assumes "tx_inv sys" "tx_enabled (Tx_destroy s) sys"
  shows "\<exists>sys' out. tx_exec alive (Tx_destroy s) sys = Some (sys', out) \<and> tx_inv sys' \<and>
    (tx_abs sys', out) = spec_exec alive (Tx_destroy s) (tx_abs sys)"
proof -
  from assms(2) obtain a where a: "sys_handle sys s = Some a" by auto
  obtain ts where ts: "tx_cells (sys_heap sys) a = Some (1, Data ts)"
    by (rule tx_owned[OF assms(1) a])
  then show ?thesis
    using a tx_drop_data[of "tx_cells (sys_heap sys)" a, OF ts] tx_destroy_owned[OF assms(1) a refl] by simp
qed

text \<open>C4. The shared cells implement one transaction per surface: for every operation on existing
  surfaces the cells are followed to their data, no cell is leaked or shared afterwards, the
  outcome is that of the plain assignment, and finalizing a transaction never panics.\<close>

theorem transactions_refine:
  assumes "tx_inv sys" "tx_enabled op sys"
  shows "\<exists>sys' out. tx_exec alive op sys = Some (sys', out) \<and> tx_inv sys' \<and>
    (tx_abs sys', out) = spec_exec alive op (tx_abs sys)"
proof (cases op)
  case (Tx_create s)
  then show ?thesis using tx_take_create[OF assms(1), of s] assms(2) by simp
next
  case (Tx_insert s x i)
  show ?thesis unfolding Tx_insert by (rule refine_insert[OF assms[unfolded Tx_insert]])
next
  case (Tx_block s b)
  show ?thesis unfolding Tx_block by (rule refine_block[OF assms[unfolded Tx_block]])
next
  case (Tx_merge_child c p)
  show ?thesis unfolding Tx_merge_child by (rule refine_merge[OF assms[unfolded Tx_merge_child]])
next
  case (Tx_finalize s)
  show ?thesis unfolding Tx_finalize by (rule refine_finalize[OF assms[unfolded Tx_finalize]])
next
  case (Tx_destroy s)
  show ?thesis unfolding Tx_destroy by (rule refine_destroy[OF assms[unfolded Tx_destroy]])
qed

theorem transactions_refine_witness:
  "let sys = \<lparr>sys_heap = \<lparr>tx_cells = (\<lambda>_. None)(0 \<mapsto> (1, Data \<lparr>ts_surfaces = [(5, Serial 3)], ts_blockers = []\<rparr>),
                                               1 \<mapsto> (1, Data ts_default)), tx_next = 2\<rparr>,
              sys_handle = (\<lambda>_. None)(5 \<mapsto> 0, 6 \<mapsto> 1)\<rparr> :: (nat, nat) tx_sys
   in \<exists>sys'. tx_exec (\<lambda>_. True) (Tx_merge_child 5 6) sys = Some (sys', None)
        \<and> map_option ts_surfaces (tx_abs sys' 6) = Some [(5, Serial 3)]"
proof -
  let ?sys = "\<lparr>sys_heap = \<lparr>tx_cells = (\<lambda>_. None)(0 \<mapsto> (1, Data \<lparr>ts_surfaces = [(5, Serial 3)], ts_blockers = []\<rparr>),
                                               1 \<mapsto> (1, Data ts_default)), tx_next = 2\<rparr>,
              sys_handle = (\<lambda>_. None)(5 \<mapsto> 0, 6 \<mapsto> 1)\<rparr> :: (nat, nat) tx_sys"
  have inv: "tx_inv ?sys" by (rule tx_invI) (auto split: if_splits, rule exI[of _ 6], simp)
  have abs: "tx_abs ?sys 5 = Some \<lparr>ts_surfaces = [(5, Serial 3)], ts_blockers = []\<rparr>" "tx_abs ?sys 6 = Some ts_default"
    by (simp_all add: tx_abs_def)
  obtain sys' out where s: "tx_exec (\<lambda>_. True) (Tx_merge_child 5 6) ?sys = Some (sys', out)"
    "(tx_abs sys', out) = spec_exec (\<lambda>_. True) (Tx_merge_child 5 6) (tx_abs ?sys)"
    using transactions_refine[OF inv, of "Tx_merge_child 5 6" "\<lambda>_. True"] by auto
  then have "out = None" "map_option ts_surfaces (tx_abs sys' 6) = Some [(5, Serial 3)]"
    using abs by (simp_all add: spec_update_def ts_absorb_def ts_insert_def ts_default_def)
  with s(1) show ?thesis by (simp only: Let_def) blast
qed


section \<open>The queue of a client\<close>

text \<open>
  \<open>take_ready\<close> examines the queued transactions in order, remembering the protocol identifiers of
  the surfaces of those it leaves in the queue. Index \<open>i\<close> of the source always points to the
  first transaction not examined yet, so the loop is a recursion on the rest of the queue. The
  answers of the blockers may change from one examination to the next; \<open>env k\<close> are the answers
  when the \<open>k\<close>-th transaction is examined. The result is what stays queued and what is ready.
\<close>

definition seen_blocks :: "('s \<Rightarrow> bool) \<Rightarrow> ('s \<Rightarrow> u32) \<Rightarrow> u32 set \<Rightarrow> ('s, 'b) transaction_state \<Rightarrow> bool" where
  "seen_blocks alive pid seen t \<longleftrightarrow> (\<exists>(s, i)\<in>set (ts_surfaces t). alive s \<and> pid s \<in> seen)"

definition seen_add :: "('s \<Rightarrow> bool) \<Rightarrow> ('s \<Rightarrow> u32) \<Rightarrow> u32 set \<Rightarrow> ('s, 'b) transaction_state \<Rightarrow> u32 set" where
  "seen_add alive pid seen t = seen \<union> pid ` set (filter alive (map fst (ts_surfaces t)))"

fun take_loop :: "('s \<Rightarrow> bool) \<Rightarrow> ('s \<Rightarrow> u32) \<Rightarrow> (nat \<Rightarrow> 'b \<Rightarrow> blocker_state) \<Rightarrow> nat \<Rightarrow> u32 set
    \<Rightarrow> ('s, 'b) transaction_state list
    \<Rightarrow> ('s, 'b) transaction_state list \<times> ('s, 'b) transaction_state list" where
  "take_loop alive pid env k seen [] = ([], [])"
| "take_loop alive pid env k seen (t # ts) =
     (let st = transaction_state_of alive (env k) t
      in if st = Cancelled then take_loop alive pid env (Suc k) seen ts
         else if st = Pending \<or> seen_blocks alive pid seen t
         then (let (kept, ready) = take_loop alive pid env (Suc k) (seen_add alive pid seen t) ts
               in (t # kept, ready))
         else (let (kept, ready) = take_loop alive pid env (Suc k) seen ts in (kept, t # ready)))"

definition queue_append :: "('s, 'b) transaction_state \<Rightarrow> ('s, 'b) transaction_state list
    \<Rightarrow> ('s, 'b) transaction_state list" where
  "queue_append t q = q @ [t]"

definition take_ready :: "('s \<Rightarrow> bool) \<Rightarrow> ('s \<Rightarrow> u32) \<Rightarrow> (nat \<Rightarrow> 'b \<Rightarrow> blocker_state)
    \<Rightarrow> ('s, 'b) transaction_state list
    \<Rightarrow> ('s, 'b) transaction_state list \<times> ('s, 'b) transaction_state list" where
  "take_ready alive pid env q = take_loop alive pid env 0 {} q"

text \<open>
  The specification: a transaction waits when one of its blockers is pending, or when an earlier
  one of the queue waits and shares a living surface with it.
\<close>

definition tx_shares :: "('s \<Rightarrow> bool) \<Rightarrow> ('s, 'b) transaction_state \<Rightarrow> ('s, 'b) transaction_state \<Rightarrow> bool" where
  "tx_shares alive t t' \<longleftrightarrow> (\<exists>s. alive s \<and> s \<in> fst ` set (ts_surfaces t) \<and> s \<in> fst ` set (ts_surfaces t'))"

inductive waits :: "('s \<Rightarrow> bool) \<Rightarrow> (nat \<Rightarrow> 'b \<Rightarrow> blocker_state) \<Rightarrow> ('s, 'b) transaction_state list \<Rightarrow> nat \<Rightarrow> bool"
  for alive env q where
  blocked: "i < length q \<Longrightarrow> transaction_state_of alive (env i) (q ! i) = Pending \<Longrightarrow> waits alive env q i"
| behind: "i < length q \<Longrightarrow> transaction_state_of alive (env i) (q ! i) = Released \<Longrightarrow> j < i \<Longrightarrow>
     waits alive env q j \<Longrightarrow> tx_shares alive (q ! j) (q ! i) \<Longrightarrow> waits alive env q i"

inductive_cases waitsE: "waits alive env q i"

lemma waits_less: "waits alive env q i \<Longrightarrow> i < length q"
  by (erule waitsE) simp_all

lemma waits_iff:
  "waits alive env q i \<longleftrightarrow> i < length q \<and>
     (transaction_state_of alive (env i) (q ! i) = Pending \<or>
      transaction_state_of alive (env i) (q ! i) = Released \<and>
        (\<exists>j<i. waits alive env q j \<and> tx_shares alive (q ! j) (q ! i)))"
  by (subst waits.simps) blast

text \<open>The loop, with the transactions already examined: the seen identifiers are those of the
  living surfaces of the waiting ones.\<close>

lemma take_loop_spec:
  assumes inj: "inj_on pid {s. alive s}"
    and seen: "seen = {pid s |s j. j < k \<and> waits alive env q j \<and> alive s \<and> s \<in> fst ` set (ts_surfaces (q ! j))}"
    and k: "k \<le> length q"
  shows "take_loop alive pid env k seen (drop k q) =
    (map ((!) q) (filter (waits alive env q) [k..<length q]),
     map ((!) q) (filter (\<lambda>i. transaction_state_of alive (env i) (q ! i) = Released \<and> \<not> waits alive env q i) [k..<length q]))"
  using seen k
proof (induction "length q - k" arbitrary: k seen)
  case 0
  then show ?case by simp
next
  case (Suc n)
  let ?st = "transaction_state_of alive (env k) (q ! k)"
  have k: "k < length q" using Suc.hyps(2) by simp
  have n: "n = length q - Suc k" using Suc.hyps(2) by simp
  have dr: "drop k q = q ! k # drop (Suc k) q" using k by (simp add: Cons_nth_drop_Suc)
  have up: "[k..<length q] = k # [Suc k..<length q]" using k by (simp add: upt_rec)
  have blk: "seen_blocks alive pid seen (q ! k) \<longleftrightarrow> (\<exists>j<k. waits alive env q j \<and> tx_shares alive (q ! j) (q ! k))"
  proof
    assume "seen_blocks alive pid seen (q ! k)"
    then obtain s where s: "s \<in> fst ` set (ts_surfaces (q ! k))" "alive s" "pid s \<in> seen"
      by (force simp: seen_blocks_def)
    from s(3)[unfolded Suc.prems(1) mem_Collect_eq]
    obtain s' j where "pid s = pid s'" "j < k" "waits alive env q j" "alive s'"
      "s' \<in> fst ` set (ts_surfaces (q ! j))"
      by (elim exE conjE) (rule that)
    with s inj show "\<exists>j<k. waits alive env q j \<and> tx_shares alive (q ! j) (q ! k)"
      unfolding tx_shares_def by (metis inj_onD mem_Collect_eq)
  next
    assume "\<exists>j<k. waits alive env q j \<and> tx_shares alive (q ! j) (q ! k)"
    then obtain j s where "j < k" "waits alive env q j" "alive s" "s \<in> fst ` set (ts_surfaces (q ! j))"
      "s \<in> fst ` set (ts_surfaces (q ! k))" unfolding tx_shares_def by blast
    then show "seen_blocks alive pid seen (q ! k)"
      using Suc.prems(1) unfolding seen_blocks_def by force
  qed
  have w: "waits alive env q k \<longleftrightarrow> ?st = Pending \<or> ?st = Released \<and> seen_blocks alive pid seen (q ! k)"
    using k by (subst waits_iff) (simp add: blk)
  have less: "j < Suc k \<longleftrightarrow> j < k \<or> j = k" for j by auto
  show ?case
  proof (cases "waits alive env q k")
    case True
    have "seen_add alive pid seen (q ! k)
        = {pid s |s j. j < Suc k \<and> waits alive env q j \<and> alive s \<and> s \<in> fst ` set (ts_surfaces (q ! j))}"
      unfolding Suc.prems(1) seen_add_def less using True by auto
    from Suc.hyps(1)[OF n this] k True w show ?thesis
      by (cases ?st) (simp_all add: dr up)
  next
    case False
    have "seen = {pid s |s j. j < Suc k \<and> waits alive env q j \<and> alive s \<and> s \<in> fst ` set (ts_surfaces (q ! j))}"
      unfolding less using False Suc.prems(1) by auto
    from Suc.hyps(1)[OF n this] k False w show ?thesis
      by (cases ?st) (simp_all add: dr up)
  qed
qed

text \<open>Taking the ready transactions is exact: what stays in the queue are the waiting
  transactions in order, what is returned are the others that are not cancelled, in order, and
  cancelled ones are dropped; this holds whatever the blockers answer during the pass.\<close>

theorem take_ready_exact:
  assumes "inj_on pid {s. alive s}"
  shows "take_ready alive pid env q =
    (map ((!) q) (filter (waits alive env q) [0..<length q]),
     map ((!) q) (filter (\<lambda>i. transaction_state_of alive (env i) (q ! i) = Released \<and> \<not> waits alive env q i) [0..<length q]))"
  using take_loop_spec[OF assms, of "{}" 0 env q] by (simp add: take_ready_def)

theorem take_ready_exact_witness:
  "let a = \<lparr>ts_surfaces = [(1, Serial 5)], ts_blockers = [7]\<rparr>;
       b = \<lparr>ts_surfaces = [(1, Serial 6), (2, Serial 9)], ts_blockers = []\<rparr>;
       c = \<lparr>ts_surfaces = [(3, Serial 2)], ts_blockers = []\<rparr> :: (nat, nat) transaction_state;
       env = (\<lambda>_ b. if b = 7 then Pending else Released);
       alive = (\<lambda>s. s < 100); pid = (\<lambda>s. of_nat s)
   in take_ready alive pid env [a, b, c] = ([a, b], [c])
      \<and> snd (take_ready alive pid env [a, b, c])
        = map ((!) [a, b, c]) (filter (\<lambda>i. transaction_state_of alive (env i) ([a, b, c] ! i) = Released
            \<and> \<not> waits alive env [a, b, c] i) [0..<length [a, b, c]])"
proof -
  let ?a = "\<lparr>ts_surfaces = [(1, Serial 5)], ts_blockers = [7]\<rparr> :: (nat, nat) transaction_state"
  let ?b = "\<lparr>ts_surfaces = [(1, Serial 6), (2, Serial 9)], ts_blockers = []\<rparr> :: (nat, nat) transaction_state"
  let ?c = "\<lparr>ts_surfaces = [(3, Serial 2)], ts_blockers = []\<rparr> :: (nat, nat) transaction_state"
  let ?env = "\<lambda>(_ :: nat) (b :: nat). if b = 7 then Pending else Released"
  let ?alive = "\<lambda>s :: nat. s < 100"
  have inj: "inj_on (\<lambda>s :: nat. of_nat s :: u32) {s. s < 100}"
    by (auto simp: inj_on_def word_of_nat_eq_iff take_bit_eq_mod)
  have e: "take_ready ?alive of_nat ?env [?a, ?b, ?c] = ([?a, ?b], [?c])"
    by (simp add: take_ready_def transaction_state_iff seen_blocks_def seen_add_def)
  note x = arg_cong[OF take_ready_exact[OF inj, of ?env "[?a, ?b, ?c]"], of snd, unfolded snd_conv]
  show ?thesis unfolding Let_def by (rule conjI[OF e x])
qed

text \<open>The positions that stay queued, said without the recursion of \<open>waits\<close>.\<close>

definition kept_positions :: "('s \<Rightarrow> bool) \<Rightarrow> (nat \<Rightarrow> 'b \<Rightarrow> blocker_state) \<Rightarrow> ('s, 'b) transaction_state list \<Rightarrow> nat list \<Rightarrow> bool" where
  "kept_positions alive env q K \<longleftrightarrow> sorted_wrt (<) K \<and>
     (\<forall>k. k \<in> set K \<longleftrightarrow> k < length q \<and>
        (transaction_state_of alive (env k) (q ! k) = Pending \<or>
         transaction_state_of alive (env k) (q ! k) = Released \<and> (\<exists>j\<in>set K. j < k \<and> tx_shares alive (q ! j) (q ! k))))"

lemma sorted_filter_upt: "sorted_wrt (<) (filter P [0..<n])"
  by (rule sorted_wrt_filter) (simp add: sorted_wrt_upt)

text \<open>C12. Taking the transactions that are ready never lets one overtake another: what is kept are exactly the
  pending transactions and those that touch a living surface of an earlier kept one, in order;
  cancelled ones are dropped, and all others are returned in the order they were queued, so that no
  returned transaction touches a living surface of one that was queued earlier and is kept.\<close>

theorem take_ready_keeps_order:
  assumes "inj_on pid {s. alive s}" "take_ready alive pid env q = (kept, ready)"
  shows "\<exists>K R. kept = map ((!) q) K \<and> ready = map ((!) q) R \<and> kept_positions alive env q K \<and> sorted_wrt (<) R \<and>
    (\<forall>r. r \<in> set R \<longleftrightarrow> r < length q \<and> transaction_state_of alive (env r) (q ! r) = Released \<and>
       (\<forall>k\<in>set K. k < r \<longrightarrow> \<not> tx_shares alive (q ! k) (q ! r)))"
proof (intro exI conjI)
  let ?st = "\<lambda>i. transaction_state_of alive (env i) (q ! i)"
  let ?K = "filter (waits alive env q) [0..<length q]"
  let ?R = "filter (\<lambda>i. ?st i = Released \<and> \<not> waits alive env q i) [0..<length q]"
  show "kept = map ((!) q) ?K" "ready = map ((!) q) ?R"
    using take_ready_exact[OF assms(1), of env q] assms(2) by simp_all
  have K: "k \<in> set ?K \<longleftrightarrow> waits alive env q k" for k using waits_less[of alive env q k] by auto
  show "kept_positions alive env q ?K"
    unfolding kept_positions_def
  proof (intro conjI sorted_filter_upt allI)
    fix k
    have B: "(\<exists>j\<in>set ?K. j < k \<and> tx_shares alive (q ! j) (q ! k)) \<longleftrightarrow> (\<exists>j<k. waits alive env q j \<and> tx_shares alive (q ! j) (q ! k))"
      unfolding Bex_def K by blast
    show "k \<in> set ?K \<longleftrightarrow> k < length q \<and>
        (?st k = Pending \<or> ?st k = Released \<and> (\<exists>j\<in>set ?K. j < k \<and> tx_shares alive (q ! j) (q ! k)))"
      unfolding K B by (rule waits_iff)
  qed
  show "sorted_wrt (<) ?R" by (rule sorted_filter_upt)
  show "\<forall>r. r \<in> set ?R \<longleftrightarrow> r < length q \<and> ?st r = Released \<and> (\<forall>k\<in>set ?K. k < r \<longrightarrow> \<not> tx_shares alive (q ! k) (q ! r))"
  proof
    fix r
    have "\<not> waits alive env q r \<longleftrightarrow> (\<forall>k\<in>set ?K. k < r \<longrightarrow> \<not> tx_shares alive (q ! k) (q ! r))" if "r < length q" "?st r = Released"
      unfolding Ball_def K using that waits_iff[of alive env q r] by auto
    then show "r \<in> set ?R \<longleftrightarrow> r < length q \<and> ?st r = Released \<and> (\<forall>k\<in>set ?K. k < r \<longrightarrow> \<not> tx_shares alive (q ! k) (q ! r))"
      by auto
  qed
qed

text \<open>The first transaction is blocked, so the second, which shares a surface with it, stays although nothing blocks it.\<close>

theorem take_ready_keeps_order_witness:
  "let a = \<lparr>ts_surfaces = [(1, Serial 5)], ts_blockers = [7]\<rparr>;
       b = \<lparr>ts_surfaces = [(1, Serial 6)], ts_blockers = []\<rparr> :: (nat, nat) transaction_state;
       env = (\<lambda>_ b. if b = 7 then Pending else Released)
   in take_ready (\<lambda>s. s < 100) of_nat env [a, b] = ([a, b], []) \<and>
      (\<exists>K. [a, b] = map ((!) [a, b]) K \<and> kept_positions (\<lambda>s. s < 100) env [a, b] K)"
proof -
  let ?a = "\<lparr>ts_surfaces = [(1, Serial 5)], ts_blockers = [7]\<rparr> :: (nat, nat) transaction_state"
  let ?b = "\<lparr>ts_surfaces = [(1, Serial 6)], ts_blockers = []\<rparr> :: (nat, nat) transaction_state"
  let ?alive = "\<lambda>s :: nat. s < 100"
  let ?env = "\<lambda>_ b. if b = 7 then Pending else Released"
  have inj: "inj_on (\<lambda>s :: nat. of_nat s :: u32) {s. s < 100}"
    by (auto simp: inj_on_def word_of_nat_eq_iff take_bit_eq_mod)
  have e: "take_ready ?alive of_nat ?env [?a, ?b] = ([?a, ?b], [])"
    by (simp add: take_ready_def transaction_state_iff seen_blocks_def seen_add_def)
  from take_ready_keeps_order[OF inj e] obtain K where "[?a, ?b] = map ((!) [?a, ?b]) K" "kept_positions ?alive ?env [?a, ?b] K"
    by (elim exE conjE) simp
  then show ?thesis unfolding Let_def by (intro conjI[OF e] exI[of _ K] conjI)
qed

end
