(* ===== verification/Surface_Tree.thy ===== *)
theory Surface_Tree
  imports Transactions
begin

text \<open>
  The surfaces of one client, \<open>src/wayland/compositor/tree.rs\<close>, \<open>handlers.rs\<close> and \<open>mod.rs\<close>: the
  private data of a surface, roles, the tree of subsurfaces, hooks, commits, and the requests of
  \<open>wl_compositor\<close>, \<open>wl_surface\<close>, \<open>wl_region\<close>, \<open>wl_subcompositor\<close> and \<open>wl_subsurface\<close>. Hook callbacks
  and the handler of the embedding compositor are code outside this repository; they are functions
  from states to states, collected in a record the operations take as an argument.
\<close>

section \<open>State\<close>

type_synonym surf = nat
type_synonym surf_tx = "(surf, barrier) transaction_state"

definition SUBSURFACE_ROLE :: string where "SUBSURFACE_ROLE = ''subsurface''"

text \<open>
  \<open>ps_sync\<close> is the \<open>SubsurfaceState\<close> of the data map, absent until the first \<open>get_subsurface\<close>;
  \<open>ps_alive\<close> is the alive tracker of the user data, \<open>ps_version\<close> the version of the object, and
  \<open>ps_suggested\<close> the \<open>SuggestedSurfaceState\<close> of the data map.
\<close>

record surface_data =
  ps_parent :: "surf option"
  ps_children :: "surf list"
  ps_role :: "string option"
  ps_sync :: "bool option"
  ps_cached :: multi_cache
  ps_pending_tx :: surf_tx
  ps_txid :: serial
  ps_pre_hooks :: "nat list"
  ps_post_hooks :: "nat list"
  ps_destruction_hooks :: "nat list"
  ps_alive :: bool
  ps_version :: nat
  ps_suggested :: "(i32 \<times> transform) option"

definition surface_data_new :: surface_data where
  "surface_data_new = \<lparr>ps_parent = None, ps_children = [], ps_role = None, ps_sync = None,
     ps_cached = multi_cache_new, ps_pending_tx = ts_default, ps_txid = Serial 0,
     ps_pre_hooks = [], ps_post_hooks = [], ps_destruction_hooks = [],
     ps_alive = False, ps_version = 1, ps_suggested = None\<rparr>"

datatype comp_event =
    Ev_cache cache_event
  | Ev_release nat
  | Ev_error string surf
  | Ev_preferred_scale surf i32
  | Ev_preferred_transform surf transform

text \<open>
  The surfaces and regions of the client, its transaction queue, its scale override, the flags of
  the barriers, whether the client is gone, the list of the compositor state, and the events sent.
\<close>

record comp =
  cp_data :: "surf \<Rightarrow> surface_data"
  cp_regions :: "nat \<Rightarrow> region"
  cp_surfaces :: "surf list"
  cp_queue :: "surf_tx list"
  cp_barriers :: barrier_heap
  cp_client_gone :: bool
  cp_scale :: fl
  cp_events :: "comp_event list"

record handler =
  hd_hook :: "nat \<Rightarrow> surf \<Rightarrow> comp \<Rightarrow> comp"
  hd_commit :: "surf \<Rightarrow> comp \<Rightarrow> comp"
  hd_new_surface :: "surf \<Rightarrow> comp \<Rightarrow> comp"
  hd_new_subsurface :: "surf \<Rightarrow> surf \<Rightarrow> comp \<Rightarrow> comp"
  hd_destroyed :: "surf \<Rightarrow> comp \<Rightarrow> comp"

text \<open>Access under the lock of one surface, and sending events.\<close>

definition on_surface :: "surf \<Rightarrow> (surface_data \<Rightarrow> surface_data) \<Rightarrow> comp \<Rightarrow> comp" where
  "on_surface s f c = c\<lparr>cp_data := (cp_data c)(s := f (cp_data c s))\<rparr>"

definition emit :: "comp_event list \<Rightarrow> comp \<Rightarrow> comp" where
  "emit es c = c\<lparr>cp_events := cp_events c @ es\<rparr>"

definition comp_alive :: "comp \<Rightarrow> surf \<Rightarrow> bool" where
  "comp_alive c s = ps_alive (cp_data c s)"

section \<open>Roles, parents and children\<close>

definition set_role :: "surf \<Rightarrow> string \<Rightarrow> comp \<Rightarrow> comp option" where
  "set_role s role c =
     (let r = ps_role (cp_data c s)
      in if r \<noteq> None \<and> r \<noteq> Some role then None
         else Some (on_surface s (\<lambda>d. d\<lparr>ps_role := Some role\<rparr>) c))"

definition get_role :: "surf \<Rightarrow> comp \<Rightarrow> string option" where
  "get_role s c = ps_role (cp_data c s)"

definition get_parent :: "surf \<Rightarrow> comp \<Rightarrow> surf option" where
  "get_parent s c = ps_parent (cp_data c s)"

definition get_children :: "surf \<Rightarrow> comp \<Rightarrow> surf list" where
  "get_children s c = filter (\<lambda>x. x \<noteq> s) (ps_children (cp_data c s))"

text \<open>The walk towards the root; on a cycle it would not return.\<close>

partial_function (option) is_ancestor :: "comp \<Rightarrow> surf \<Rightarrow> surf \<Rightarrow> bool option" where
  "is_ancestor c a b =
     (case ps_parent (cp_data c b) of
        Some parent \<Rightarrow> if parent = a then Some True else is_ancestor c a parent
      | None \<Rightarrow> Some False)"

declare is_ancestor.simps [code]

text \<open>The outcome of a fallible operation: done, refused, or a panic (or no return at all).\<close>

datatype 'a outcome = Done 'a | Refused | Panics

definition set_parent :: "surf \<Rightarrow> surf \<Rightarrow> comp \<Rightarrow> comp outcome" where
  "set_parent child parent c =
     (if child = parent then Refused
      else case is_ancestor c child parent of
        None \<Rightarrow> Panics
      | Some True \<Rightarrow> Refused
      | Some False \<Rightarrow>
          (let d = cp_data c child
           in if ps_role d \<noteq> None \<and> ps_role d \<noteq> Some SUBSURFACE_ROLE then Refused
              else if ps_parent d \<noteq> None then Refused
              else Done
                (on_surface parent (\<lambda>d. d\<lparr>ps_children := ps_children d @ [child]\<rparr>)
                  (on_surface child (\<lambda>d. d\<lparr>ps_role := Some SUBSURFACE_ROLE, ps_parent := Some parent\<rparr>) c))))"

definition unset_parent :: "surf \<Rightarrow> comp \<Rightarrow> comp" where
  "unset_parent child c =
     (let c' = on_surface child (\<lambda>d. d\<lparr>ps_parent := None\<rparr>) c
      in case ps_parent (cp_data c child) of
           Some old \<Rightarrow> on_surface old (\<lambda>d. d\<lparr>ps_children := filter (\<lambda>x. x \<noteq> child) (ps_children d)\<rparr>) c'
         | None \<Rightarrow> c')"

subsection \<open>Stacking order\<close>

datatype location = Before | After

fun index_of :: "surf \<Rightarrow> surf list \<Rightarrow> nat option" where
  "index_of s [] = None"
| "index_of s (x # xs) = (if x = s then Some 0 else map_option Suc (index_of s xs))"

text \<open>\<open>Vec::remove\<close> at a valid index, and \<open>Vec::insert\<close>, which panics beyond the length.\<close>

definition vec_insert :: "nat \<Rightarrow> 'a \<Rightarrow> 'a list \<Rightarrow> 'a list option" where
  "vec_insert i x xs = (if length xs < i then None else Some (take i xs @ x # drop i xs))"

definition reorder :: "surf \<Rightarrow> location \<Rightarrow> surf \<Rightarrow> comp \<Rightarrow> comp outcome" where
  "reorder surface to relative_to c =
     (case get_parent surface c of
        None \<Rightarrow> Refused
      | Some parent \<Rightarrow>
          (let children = ps_children (cp_data c parent)
           in case index_of surface children of
                None \<Rightarrow> Panics
              | Some my_index \<Rightarrow>
                  (case index_of relative_to children of
                     None \<Rightarrow> Refused
                   | Some other \<Rightarrow>
                       (let other_index = (if my_index < other then other - 1 else other);
                            new_index = (case to of Before \<Rightarrow> other_index | After \<Rightarrow> other_index + 1)
                        in case vec_insert new_index surface (vec_remove my_index children) of
                             None \<Rightarrow> Panics
                           | Some children' \<Rightarrow> Done (on_surface parent (\<lambda>d. d\<lparr>ps_children := children'\<rparr>) c)))))"

section \<open>Hooks and cached state\<close>

definition add_pre_commit_hook :: "surf \<Rightarrow> nat \<Rightarrow> comp \<Rightarrow> comp" where
  "add_pre_commit_hook s i = on_surface s (\<lambda>d. d\<lparr>ps_pre_hooks := ps_pre_hooks d @ [i]\<rparr>)"

definition add_post_commit_hook :: "surf \<Rightarrow> nat \<Rightarrow> comp \<Rightarrow> comp" where
  "add_post_commit_hook s i = on_surface s (\<lambda>d. d\<lparr>ps_post_hooks := ps_post_hooks d @ [i]\<rparr>)"

definition add_destruction_hook :: "surf \<Rightarrow> nat \<Rightarrow> comp \<Rightarrow> comp" where
  "add_destruction_hook s i = on_surface s (\<lambda>d. d\<lparr>ps_destruction_hooks := ps_destruction_hooks d @ [i]\<rparr>)"

definition remove_pre_commit_hook :: "surf \<Rightarrow> nat \<Rightarrow> comp \<Rightarrow> comp" where
  "remove_pre_commit_hook s i = on_surface s (\<lambda>d. d\<lparr>ps_pre_hooks := filter (\<lambda>h. h \<noteq> i) (ps_pre_hooks d)\<rparr>)"

definition remove_post_commit_hook :: "surf \<Rightarrow> nat \<Rightarrow> comp \<Rightarrow> comp" where
  "remove_post_commit_hook s i = on_surface s (\<lambda>d. d\<lparr>ps_post_hooks := filter (\<lambda>h. h \<noteq> i) (ps_post_hooks d)\<rparr>)"

definition remove_destruction_hook :: "surf \<Rightarrow> nat \<Rightarrow> comp \<Rightarrow> comp" where
  "remove_destruction_hook s i =
     on_surface s (\<lambda>d. d\<lparr>ps_destruction_hooks := filter (\<lambda>h. h \<noteq> i) (ps_destruction_hooks d)\<rparr>)"

text \<open>The list is cloned before the callbacks run, so what they register or remove does not matter.\<close>

definition invoke_pre_commit_hooks :: "handler \<Rightarrow> surf \<Rightarrow> comp \<Rightarrow> comp" where
  "invoke_pre_commit_hooks h s c = fold (\<lambda>i. hd_hook h i s) (ps_pre_hooks (cp_data c s)) c"

definition invoke_post_commit_hooks :: "handler \<Rightarrow> surf \<Rightarrow> comp \<Rightarrow> comp" where
  "invoke_post_commit_hooks h s c = fold (\<lambda>i. hd_hook h i s) (ps_post_hooks (cp_data c s)) c"

definition add_blocker :: "surf \<Rightarrow> barrier \<Rightarrow> comp \<Rightarrow> comp" where
  "add_blocker s b = on_surface s (\<lambda>d. d\<lparr>ps_pending_tx := ts_add_blocker b (ps_pending_tx d)\<rparr>)"

definition surface_cache_commit :: "surf \<Rightarrow> serial option \<Rightarrow> comp \<Rightarrow> comp" where
  "surface_cache_commit s i c =
     (let (mc, es) = multi_cache_commit i (ps_cached (cp_data c s))
      in emit (map Ev_cache es) (on_surface s (\<lambda>d. d\<lparr>ps_cached := mc\<rparr>) c))"

definition surface_apply_state :: "surf \<Rightarrow> serial \<Rightarrow> comp \<Rightarrow> comp" where
  "surface_apply_state s i c =
     (let (mc, es) = multi_cache_apply_state i (ps_cached (cp_data c s))
      in emit (map Ev_cache es) (on_surface s (\<lambda>d. d\<lparr>ps_cached := mc\<rparr>) c))"

section \<open>Commit\<close>

partial_function (option) is_effectively_sync :: "comp \<Rightarrow> surf \<Rightarrow> bool option" where
  "is_effectively_sync c s =
     (if ps_sync (cp_data c s) = Some True then Some True
      else case ps_parent (cp_data c s) of
        Some parent \<Rightarrow> is_effectively_sync c parent
      | None \<Rightarrow> Some False)"

declare is_effectively_sync.simps [code]

definition insert_own_state :: "surf \<Rightarrow> serial \<Rightarrow> comp \<Rightarrow> comp" where
  "insert_own_state s i = on_surface s (\<lambda>d. d\<lparr>ps_pending_tx := ts_insert s i (ps_pending_tx d)\<rparr>)"

text \<open>
  \<open>std::mem::take\<close> of a child's pending transaction, merged into the parent's. On the level of
  values; \<open>transactions_refine\<close> relates it to the shared cells.
\<close>

definition merge_child_tx :: "surf \<Rightarrow> surf \<Rightarrow> comp \<Rightarrow> comp" where
  "merge_child_tx child parent c =
     (let tx = ps_pending_tx (cp_data c child)
      in on_surface parent (\<lambda>d. d\<lparr>ps_pending_tx := ts_absorb (comp_alive c) tx (ps_pending_tx d)\<rparr>)
           (on_surface child (\<lambda>d. d\<lparr>ps_pending_tx := ts_default\<rparr>) c))"

definition bump_txid :: "surf \<Rightarrow> comp \<Rightarrow> comp" where
  "bump_txid s = on_surface s (\<lambda>d. d\<lparr>ps_txid := serial_add (ps_txid d) 1\<rparr>)"

text \<open>What \<open>commit_sync_surface_tree\<close> does to a surface once its children are done.\<close>

definition commit_sync_surface :: "surf \<Rightarrow> surf \<Rightarrow> comp \<Rightarrow> comp" where
  "commit_sync_surface s parent c =
     (let current_txid = ps_txid (cp_data c s)
      in bump_txid s
           (merge_child_tx s parent
             (insert_own_state s current_txid
               (surface_cache_commit s (Some current_txid) c))))"

text \<open>
  The recursion over the tree: the first argument bounds its depth, \<open>None\<close> says that the bound was
  reached. The list is what is left of the loop over the children of \<open>parent\<close>.
\<close>

fun commit_sync_surface_tree :: "nat \<Rightarrow> surf \<Rightarrow> surf list \<Rightarrow> comp \<Rightarrow> comp option" where
  "commit_sync_surface_tree n parent [] c = Some c"
| "commit_sync_surface_tree 0 parent (s # ss) c = None"
| "commit_sync_surface_tree (Suc n) parent (s # ss) c =
     (case commit_sync_surface_tree n s (get_children s c) c of
        None \<Rightarrow> None
      | Some c' \<Rightarrow> commit_sync_surface_tree (Suc n) parent ss (commit_sync_surface s parent c'))"

text \<open>The loop of \<open>commit\<close> over the children of the committed surface.\<close>

fun commit_children :: "nat \<Rightarrow> bool \<Rightarrow> surf \<Rightarrow> surf list \<Rightarrow> comp \<Rightarrow> comp option" where
  "commit_children n is_sync s [] c = Some c"
| "commit_children n is_sync s (child # children) c =
     (let is_child_sync = (ps_sync (cp_data c child) = Some True)
      in if \<not> is_sync \<and> is_child_sync
         then (case commit_sync_surface_tree n s [child] c of
                 None \<Rightarrow> None
               | Some c' \<Rightarrow> commit_children n is_sync s children c')
         else if is_sync \<or> is_child_sync
         then commit_children n is_sync s children (bump_txid child (merge_child_tx child s c))
         else commit_children n is_sync s children c)"

text \<open>\<open>Transaction::apply\<close>, then the queue of the client.\<close>

fun transaction_apply :: "handler \<Rightarrow> (surf \<times> serial) list \<Rightarrow> comp \<Rightarrow> comp" where
  "transaction_apply h [] c = c"
| "transaction_apply h ((s, i) # rest) c =
     (if \<not> comp_alive c s then transaction_apply h rest c
      else transaction_apply h rest
             (hd_commit h s (invoke_post_commit_hooks h s (surface_apply_state s i c))))"

definition queue_take_ready :: "(surf \<Rightarrow> u32) \<Rightarrow> comp \<Rightarrow> surf_tx list \<times> comp" where
  "queue_take_ready pid c =
     (let (kept, ready) = take_ready (comp_alive c) pid (\<lambda>_. barrier_state (cp_barriers c)) (cp_queue c)
      in (ready, c\<lparr>cp_queue := kept\<rparr>))"

definition blocker_cleared :: "handler \<Rightarrow> (surf \<Rightarrow> u32) \<Rightarrow> comp \<Rightarrow> comp" where
  "blocker_cleared h pid c =
     (let (ready, c') = queue_take_ready pid c
      in fold (\<lambda>t. transaction_apply h (ts_surfaces t)) ready c')"

definition commit_local :: "nat \<Rightarrow> surf \<Rightarrow> comp \<Rightarrow> (bool \<times> comp) option" where
  "commit_local n s c =
     (case is_effectively_sync c s of
        None \<Rightarrow> None
      | Some is_sync \<Rightarrow>
          (let children = get_children s c;
               current_txid = ps_txid (cp_data c s)
           in case commit_children n is_sync s children (surface_cache_commit s (Some current_txid) c) of
                None \<Rightarrow> None
              | Some c' \<Rightarrow> Some (is_sync, bump_txid s (insert_own_state s current_txid c'))))"

definition commit :: "handler \<Rightarrow> (surf \<Rightarrow> u32) \<Rightarrow> nat \<Rightarrow> surf \<Rightarrow> comp \<Rightarrow> comp option" where
  "commit h pid n s c =
     (case commit_local n s c of
        None \<Rightarrow> None
      | Some (is_sync, c') \<Rightarrow>
          if is_sync then Some c'
          else if cp_client_gone c' then Some c'
          else (let tx = ps_pending_tx (cp_data c' s);
                    c' = on_surface s (\<lambda>d. d\<lparr>ps_pending_tx := ts_default\<rparr>) c';
                    c' = c'\<lparr>cp_queue := queue_append tx (cp_queue c')\<rparr>
                in Some (blocker_cleared h pid c')))"

section \<open>Traversal\<close>

text \<open>
  \<open>map_tree\<close> with its three closures, which may keep state: what the filter answers for a surface,
  the processor, and the filter after the children. The first argument bounds the depth, \<open>None\<close>
  says it was reached; the boolean of the result is whether to go on.
\<close>

datatype 't traversal_action = Do_children 't | Skip_children | Break

record ('t, 'st) visitor =
  vs_filter :: "surf \<Rightarrow> 't \<Rightarrow> 'st \<Rightarrow> 't traversal_action \<times> 'st"
  vs_processor :: "surf \<Rightarrow> 't \<Rightarrow> 'st \<Rightarrow> 'st"
  vs_post :: "surf \<Rightarrow> 't \<Rightarrow> 'st \<Rightarrow> bool \<times> 'st"

function map_surface :: "comp \<Rightarrow> ('t, 'st) visitor \<Rightarrow> bool \<Rightarrow> nat \<Rightarrow> surf \<Rightarrow> 't \<Rightarrow> 'st \<Rightarrow> (bool \<times> 'st) option"
  and map_children :: "comp \<Rightarrow> ('t, 'st) visitor \<Rightarrow> bool \<Rightarrow> nat \<Rightarrow> surf \<Rightarrow> 't \<Rightarrow> 't \<Rightarrow> surf list \<Rightarrow> 'st
    \<Rightarrow> (bool \<times> 'st) option" where
  "map_surface c v reverse 0 s initial st = None"
| "map_surface c v reverse (Suc n) s initial st =
     (case vs_filter v s initial st of
        (Do_children t, st1) \<Rightarrow>
          (let ch = ps_children (cp_data c s)
           in case map_children c v reverse n s initial t (if reverse then rev ch else ch) st1 of
                None \<Rightarrow> None
              | Some (go, st2) \<Rightarrow> if go then Some (vs_post v s initial st2) else Some (False, st2))
      | (Skip_children, st1) \<Rightarrow> Some (True, vs_processor v s initial st1)
      | (Break, st1) \<Rightarrow> Some (False, st1))"
| "map_children c v reverse n s initial t [] st = Some (True, st)"
| "map_children c v reverse n s initial t (x # xs) st =
     (if x = s then map_children c v reverse n s initial t xs (vs_processor v s initial st)
      else case map_surface c v reverse n x t st of
        None \<Rightarrow> None
      | Some (go, st') \<Rightarrow>
          if go then map_children c v reverse n s initial t xs st' else Some (False, st'))"
  by pat_completeness auto
termination
  by (relation "measures [\<lambda>x. case x of Inl (c, v, r, n, _) \<Rightarrow> n | Inr (c, v, r, n, _) \<Rightarrow> n,
      \<lambda>x. case x of Inl _ \<Rightarrow> 0 | Inr (c, v, r, n, s, i, t, xs, st) \<Rightarrow> Suc (length xs)]") auto

definition map_tree :: "comp \<Rightarrow> ('t, 'st) visitor \<Rightarrow> bool \<Rightarrow> nat \<Rightarrow> surf \<Rightarrow> 't \<Rightarrow> 'st \<Rightarrow> 'st option" where
  "map_tree c v reverse n s initial st = map_option snd (map_surface c v reverse n s initial st)"

definition with_surface_tree_upward :: "comp \<Rightarrow> ('t, 'st) visitor \<Rightarrow> nat \<Rightarrow> surf \<Rightarrow> 't \<Rightarrow> 'st \<Rightarrow> 'st option" where
  "with_surface_tree_upward c v n s initial st = map_tree c v False n s initial st"

definition with_surface_tree_downward :: "comp \<Rightarrow> ('t, 'st) visitor \<Rightarrow> nat \<Rightarrow> surf \<Rightarrow> 't \<Rightarrow> 'st \<Rightarrow> 'st option" where
  "with_surface_tree_downward c v n s initial st = map_tree c v True n s initial st"

section \<open>The invariant of the tree\<close>

definition parent_rel :: "comp \<Rightarrow> (surf \<times> surf) set" where
  "parent_rel c = {(x, p). ps_parent (cp_data c x) = Some p}"

text \<open>
  Parents and children agree, the parent relation has no cycle, an initialised surface is in its
  own list (its place among its children) and a surface cleaned up has an empty list and no
  parent, lists have no duplicates, and whoever has a parent has the role of a subsurface.
\<close>

definition tree_inv :: "comp \<Rightarrow> bool" where
  "tree_inv c \<longleftrightarrow> finite {x. ps_parent (cp_data c x) \<noteq> None} \<and> acyclic (parent_rel c) \<and>
     (\<forall>x p. ps_parent (cp_data c x) = Some p \<longrightarrow>
        x \<in> set (ps_children (cp_data c p)) \<and> ps_role (cp_data c x) = Some SUBSURFACE_ROLE) \<and>
     (\<forall>x y. y \<in> set (ps_children (cp_data c x)) \<longrightarrow> y = x \<or> ps_parent (cp_data c y) = Some x) \<and>
     (\<forall>x. distinct (ps_children (cp_data c x))) \<and>
     (\<forall>x. x \<in> set (ps_children (cp_data c x)) \<or>
        ps_children (cp_data c x) = [] \<and> ps_parent (cp_data c x) = None \<and> \<not> ps_alive (cp_data c x))"

lemma tree_invI:
  assumes "finite {x. ps_parent (cp_data c x) \<noteq> None}" "acyclic (parent_rel c)"
    and "\<And>x p. ps_parent (cp_data c x) = Some p \<Longrightarrow>
      x \<in> set (ps_children (cp_data c p)) \<and> ps_role (cp_data c x) = Some SUBSURFACE_ROLE"
    and "\<And>x y. y \<in> set (ps_children (cp_data c x)) \<Longrightarrow> y = x \<or> ps_parent (cp_data c y) = Some x"
    and "\<And>x. distinct (ps_children (cp_data c x))"
    and "\<And>x. x \<in> set (ps_children (cp_data c x)) \<or>
        ps_children (cp_data c x) = [] \<and> ps_parent (cp_data c x) = None \<and> \<not> ps_alive (cp_data c x)"
  shows "tree_inv c"
  using assms unfolding tree_inv_def by blast

lemma tree_invD:
  assumes "tree_inv c"
  shows "finite {x. ps_parent (cp_data c x) \<noteq> None}" "acyclic (parent_rel c)"
    and "ps_parent (cp_data c x) = Some p \<Longrightarrow> x \<in> set (ps_children (cp_data c p))"
    and "ps_parent (cp_data c x) = Some p \<Longrightarrow> ps_role (cp_data c x) = Some SUBSURFACE_ROLE"
    and "y \<in> set (ps_children (cp_data c x)) \<Longrightarrow> y = x \<or> ps_parent (cp_data c y) = Some x"
    and "distinct (ps_children (cp_data c x))"
    and "x \<in> set (ps_children (cp_data c x)) \<or>
        ps_children (cp_data c x) = [] \<and> ps_parent (cp_data c x) = None \<and> \<not> ps_alive (cp_data c x)"
  using assms unfolding tree_inv_def by blast+

lemma tree_inv_cong:
  assumes inv: "tree_inv c"
    and par: "\<And>x. ps_parent (cp_data c' x) = ps_parent (cp_data c x)"
    and ch: "\<And>x. ps_children (cp_data c' x) = ps_children (cp_data c x)"
    and role: "\<And>x p. ps_parent (cp_data c x) = Some p \<Longrightarrow> ps_role (cp_data c' x) = Some SUBSURFACE_ROLE"
    and alive: "\<And>x. ps_children (cp_data c x) = [] \<Longrightarrow> \<not> ps_alive (cp_data c x) \<Longrightarrow> \<not> ps_alive (cp_data c' x)"
  shows "tree_inv c'"
proof (rule tree_invI)
  note I = tree_invD[OF inv]
  show "finite {x. ps_parent (cp_data c' x) \<noteq> None}" "acyclic (parent_rel c')"
    using I(1,2) by (simp_all add: par parent_rel_def)
  show "x \<in> set (ps_children (cp_data c' p)) \<and> ps_role (cp_data c' x) = Some SUBSURFACE_ROLE"
    if "ps_parent (cp_data c' x) = Some p" for x p
    using that I(3)[of x p] role[of x p] by (simp add: par ch)
  show "y = x \<or> ps_parent (cp_data c' y) = Some x" if "y \<in> set (ps_children (cp_data c' x))" for x y
    using that I(5)[of y x] by (simp add: par ch)
  show "distinct (ps_children (cp_data c' x))" for x using I(6)[of x] by (simp add: ch)
  show "x \<in> set (ps_children (cp_data c' x)) \<or>
      ps_children (cp_data c' x) = [] \<and> ps_parent (cp_data c' x) = None \<and> \<not> ps_alive (cp_data c' x)" for x
    using I(7)[of x] alive[of x] by (auto simp: par ch)
qed

text \<open>Operations that leave parents, children and roles alone keep the invariant.\<close>

definition same_tree :: "comp \<Rightarrow> comp \<Rightarrow> bool" where
  "same_tree c c' \<longleftrightarrow> (\<forall>x. ps_parent (cp_data c' x) = ps_parent (cp_data c x)
     \<and> ps_children (cp_data c' x) = ps_children (cp_data c x)
     \<and> ps_role (cp_data c' x) = ps_role (cp_data c x)
     \<and> ps_sync (cp_data c' x) = ps_sync (cp_data c x)
     \<and> ps_alive (cp_data c' x) = ps_alive (cp_data c x))"

lemma same_tree_refl [simp]: "same_tree c c"
  by (simp add: same_tree_def)

lemma same_tree_trans [trans]: "same_tree a b \<Longrightarrow> same_tree b c \<Longrightarrow> same_tree a c"
  by (simp add: same_tree_def)

lemma same_tree_sym: "same_tree a b \<Longrightarrow> same_tree b a"
  by (simp add: same_tree_def)

lemma same_treeD:
  assumes "same_tree c c'"
  shows "ps_parent (cp_data c' x) = ps_parent (cp_data c x)"
    "ps_children (cp_data c' x) = ps_children (cp_data c x)"
    "ps_role (cp_data c' x) = ps_role (cp_data c x)"
    "ps_sync (cp_data c' x) = ps_sync (cp_data c x)"
    "ps_alive (cp_data c' x) = ps_alive (cp_data c x)"
    "parent_rel c' = parent_rel c" "get_children x c' = get_children x c" "comp_alive c' = comp_alive c"
  using assms by (auto simp: same_tree_def parent_rel_def get_children_def comp_alive_def)

lemma same_tree_inv: "same_tree c c' \<Longrightarrow> tree_inv c \<Longrightarrow> tree_inv c'"
  unfolding tree_inv_def by (simp add: same_treeD)

lemma cp_data_simps [simp]:
  "cp_data (on_surface s f c) = (cp_data c)(s := f (cp_data c s))"
  "cp_data (emit es c) = cp_data c"
  by (simp_all add: on_surface_def emit_def)

lemma same_tree_on_surface:
  assumes "\<And>d. ps_parent (f d) = ps_parent d" "\<And>d. ps_children (f d) = ps_children d"
    "\<And>d. ps_role (f d) = ps_role d" "\<And>d. ps_sync (f d) = ps_sync d" "\<And>d. ps_alive (f d) = ps_alive d"
  shows "same_tree c (on_surface s f c)"
  by (simp add: same_tree_def assms)

named_theorems same_tree_ops

lemma same_tree_simple [same_tree_ops]:
  "same_tree c (surface_cache_commit s i c)" "same_tree c (surface_apply_state s j c)"
  "same_tree c (insert_own_state s j c)" "same_tree c (bump_txid s c)" "same_tree c (add_blocker s b c)"
  "same_tree c (merge_child_tx s p c)" "same_tree c (emit es c)"
  by (auto simp: same_tree_def surface_cache_commit_def surface_apply_state_def insert_own_state_def
      bump_txid_def add_blocker_def merge_child_tx_def Let_def case_prod_beta)

lemma same_tree_commit_sync_surface [same_tree_ops]: "same_tree c (commit_sync_surface s p c)"
  unfolding commit_sync_surface_def Let_def
  by (meson same_tree_simple same_tree_trans)

lemma same_tree_commit_sync_tree:
  "commit_sync_surface_tree n p ss c = Some c' \<Longrightarrow> same_tree c c'"
proof (induction n p ss c arbitrary: c' rule: commit_sync_surface_tree.induct)
  case (3 n p s ss c)
  then obtain c1 where c1: "commit_sync_surface_tree n s (get_children s c) c = Some c1"
    by (auto split: option.splits)
  have "same_tree c c1" by (rule 3(1)[OF c1])
  also have "same_tree c1 (commit_sync_surface s p c1)" by (rule same_tree_commit_sync_surface)
  also have "same_tree (commit_sync_surface s p c1) c'"
    by (rule 3(2)[OF c1]) (use 3(3) c1 in simp)
  finally show ?case .
qed auto

lemma same_tree_commit_children:
  "commit_children n is_sync s ch c = Some c' \<Longrightarrow> same_tree c c'"
proof (induction n is_sync s ch c arbitrary: c' rule: commit_children.induct)
  case (2 n is_sync s child children c)
  show ?case
  proof (cases "\<not> is_sync \<and> ps_sync (cp_data c child) = Some True")
    case True
    with 2(4) obtain c1 where c1: "commit_sync_surface_tree n s [child] c = Some c1"
      "commit_children n is_sync s children c1 = Some c'"
      by (auto simp: Let_def split: option.splits)
    from 2(1)[OF refl True c1] same_tree_commit_sync_tree[OF c1(1)] show ?thesis
      by (rule same_tree_trans[rotated])
  next
    case False
    show ?thesis
    proof (cases "is_sync \<or> ps_sync (cp_data c child) = Some True")
      case True
      from 2(2)[OF refl False True] 2(4) False True
      have "same_tree (bump_txid child (merge_child_tx child s c)) c'" by (simp add: Let_def)
      then show ?thesis by (meson same_tree_simple same_tree_trans)
    next
      case False': False
      from 2(3)[OF refl False False'] 2(4) False False' show ?thesis by (simp add: Let_def)
    qed
  qed
qed simp

lemma same_tree_commit_local: "commit_local n s c = Some (b, c') \<Longrightarrow> same_tree c c'"
  unfolding commit_local_def
  by (auto simp: Let_def split: option.splits dest!: same_tree_commit_children)
    (meson same_tree_simple same_tree_trans)

section \<open>Walks along the tree\<close>

lemma wf_parent:
  assumes "tree_inv c"
  shows "wf ((parent_rel c)\<inverse>)" "finite (parent_rel c)"
proof -
  have "parent_rel c \<subseteq> (\<lambda>x. (x, the (ps_parent (cp_data c x)))) ` {x. ps_parent (cp_data c x) \<noteq> None}"
    by (force simp: parent_rel_def)
  then show "finite (parent_rel c)" using tree_invD(1)[OF assms] finite_surj by blast
  then show "wf ((parent_rel c)\<inverse>)" using tree_invD(2)[OF assms] by (rule finite_acyclic_wf_converse)
qed

lemma is_ancestor_exact:
  assumes "tree_inv c"
  shows "is_ancestor c a b = Some ((b, a) \<in> (parent_rel c)\<^sup>+)"
  using wf_parent(1)[OF assms]
proof (induction b rule: wf_induct_rule)
  case (less b)
  show ?case
  proof (cases "ps_parent (cp_data c b)")
    case None
    then have "(b, a) \<notin> (parent_rel c)\<^sup>+"
      by (auto simp: parent_rel_def dest!: tranclD)
    then show ?thesis using None by (subst is_ancestor.simps) simp
  next
    case (Some p)
    then have bp: "(b, p) \<in> parent_rel c" by (simp add: parent_rel_def)
    have "(b, a) \<in> (parent_rel c)\<^sup>+ \<longleftrightarrow> p = a \<or> (p, a) \<in> (parent_rel c)\<^sup>+"
    proof
      assume "(b, a) \<in> (parent_rel c)\<^sup>+"
      then obtain q where "(b, q) \<in> parent_rel c" "(q, a) \<in> (parent_rel c)\<^sup>*" by (blast dest: tranclD)
      then show "p = a \<or> (p, a) \<in> (parent_rel c)\<^sup>+"
        using Some by (auto simp: parent_rel_def rtrancl_eq_or_trancl)
    qed (use bp in auto)
    moreover have "is_ancestor c a b = (if p = a then Some True else is_ancestor c a p)"
      by (subst is_ancestor.simps) (simp add: Some)
    ultimately show ?thesis using less.IH[of p] bp by simp
  qed
qed

lemma is_effectively_sync_exact:
  assumes "tree_inv c"
  shows "is_effectively_sync c s = Some (\<exists>x. (s, x) \<in> (parent_rel c)\<^sup>* \<and> ps_sync (cp_data c x) = Some True)"
  using wf_parent(1)[OF assms]
proof (induction s rule: wf_induct_rule)
  case (less s)
  show ?case
  proof (cases "ps_sync (cp_data c s) = Some True")
    case True
    then show ?thesis by (subst is_effectively_sync.simps) auto
  next
    case False
    show ?thesis
    proof (cases "ps_parent (cp_data c s)")
      case None
      then have "(s, x) \<in> (parent_rel c)\<^sup>* \<longleftrightarrow> x = s" for x
        by (auto simp: parent_rel_def elim: converse_rtranclE)
      then show ?thesis using None False by (subst is_effectively_sync.simps) simp
    next
      case (Some p)
      then have sp: "(s, p) \<in> parent_rel c" by (simp add: parent_rel_def)
      have "(s, x) \<in> (parent_rel c)\<^sup>* \<longleftrightarrow> x = s \<or> (p, x) \<in> (parent_rel c)\<^sup>*" for x
      proof
        assume "(s, x) \<in> (parent_rel c)\<^sup>*"
        then show "x = s \<or> (p, x) \<in> (parent_rel c)\<^sup>*"
          by (cases rule: converse_rtranclE) (use Some in \<open>auto simp: parent_rel_def\<close>)
      qed (use sp in \<open>auto intro: converse_rtrancl_into_rtrancl\<close>)
      moreover have "is_effectively_sync c s = is_effectively_sync c p"
        by (subst is_effectively_sync.simps) (simp add: Some False)
      ultimately show ?thesis using less.IH[of p] sp False by auto
    qed
  qed
qed

end
