(* ===== verification/Tree_Props.thy ===== *)
theory Tree_Props
  imports Surface_Tree
begin

text \<open>
  What the operations of \<open>src/wayland/compositor/tree.rs\<close> guarantee: setting and unsetting a parent
  and restacking keep the tree of subsurfaces consistent and acyclic, the walks over it return,
  restacking moves exactly one surface, and the traversal visits the whole tree in stacking order.
\<close>

section \<open>Parents\<close>

lemma parent_rel_upd:
  "ps_parent (cp_data c x) = None \<Longrightarrow>
   (\<And>y. ps_parent (cp_data c' y) = (if y = x then Some p else ps_parent (cp_data c y))) \<Longrightarrow>
   parent_rel c' = insert (x, p) (parent_rel c)"
  by (auto simp: parent_rel_def split: if_splits)

lemma set_parent_Done:
  assumes "tree_inv c" "set_parent child parent c = Done c'"
  shows "child \<noteq> parent" "(parent, child) \<notin> (parent_rel c)\<^sup>*" "ps_parent (cp_data c child) = None"
    "ps_role (cp_data c child) \<in> {None, Some SUBSURFACE_ROLE}"
    "c' = on_surface parent (\<lambda>d. d\<lparr>ps_children := ps_children d @ [child]\<rparr>)
            (on_surface child (\<lambda>d. d\<lparr>ps_role := Some SUBSURFACE_ROLE, ps_parent := Some parent\<rparr>) c)"
  using assms(2)
  by (auto simp: set_parent_def is_ancestor_exact[OF assms(1)] Let_def rtrancl_eq_or_trancl split: if_splits bool.splits)

lemma set_parent_inv:
  assumes inv: "tree_inv c" and d: "set_parent child parent c = Done c'"
    and alive: "ps_alive (cp_data c child)" "ps_alive (cp_data c parent)"
  shows "tree_inv c'"
proof -
  note D = set_parent_Done[OF inv d] and I = tree_invD[OF inv]
  have own: "child \<in> set (ps_children (cp_data c child))" "parent \<in> set (ps_children (cp_data c parent))"
    using I(7) alive by blast+
  have new: "child \<notin> set (ps_children (cp_data c parent))"
    using I(5)[of child parent] D(1,3) by auto
  have par: "ps_parent (cp_data c' x) = (if x = child then Some parent else ps_parent (cp_data c x))" for x
    using D(1) by (simp add: D(5))
  have ch: "ps_children (cp_data c' x)
      = (if x = parent then ps_children (cp_data c x) @ [child] else ps_children (cp_data c x))" for x
    using D(1) by (simp add: D(5))
  have role: "ps_role (cp_data c' x) = (if x = child then Some SUBSURFACE_ROLE else ps_role (cp_data c x))" for x
    using D(1) by (simp add: D(5))
  have al: "ps_alive (cp_data c' x) = ps_alive (cp_data c x)" for x
    by (simp add: D(5))
  show ?thesis
  proof (rule tree_invI)
    have "{x. ps_parent (cp_data c' x) \<noteq> None} = insert child {x. ps_parent (cp_data c x) \<noteq> None}"
      by (auto simp: par)
    then show "finite {x. ps_parent (cp_data c' x) \<noteq> None}" using I(1) by simp
    have "parent_rel c' = insert (child, parent) (parent_rel c)"
      by (rule parent_rel_upd[OF D(3) par])
    then show "acyclic (parent_rel c')" using I(2) D(2) by (simp add: acyclic_insert)
    show "x \<in> set (ps_children (cp_data c' p)) \<and> ps_role (cp_data c' x) = Some SUBSURFACE_ROLE"
      if "ps_parent (cp_data c' x) = Some p" for x p
      using that I(3)[of x p] I(4)[of x p] by (auto simp: par ch role split: if_splits)
    show "y = x \<or> ps_parent (cp_data c' y) = Some x" if "y \<in> set (ps_children (cp_data c' x))" for x y
      using that I(5)[of y x] D(3) by (auto simp: par ch split: if_splits)
    show "distinct (ps_children (cp_data c' x))" for x
      using I(6)[of x] new by (auto simp: ch)
    show "x \<in> set (ps_children (cp_data c' x)) \<or>
        ps_children (cp_data c' x) = [] \<and> ps_parent (cp_data c' x) = None \<and> \<not> ps_alive (cp_data c' x)" for x
      using I(7)[of x] own by (auto simp: par ch al)
  qed
qed

lemma unset_parent_parts:
  "ps_parent (cp_data (unset_parent s c) x) = (if x = s then None else ps_parent (cp_data c x))"
  "ps_children (cp_data (unset_parent s c) x) =
     (if ps_parent (cp_data c s) = Some x then filter (\<lambda>y. y \<noteq> s) (ps_children (cp_data c x))
      else ps_children (cp_data c x))"
  "ps_role (cp_data (unset_parent s c) x) = ps_role (cp_data c x)"
  "ps_alive (cp_data (unset_parent s c) x) = ps_alive (cp_data c x)"
  "ps_sync (cp_data (unset_parent s c) x) = ps_sync (cp_data c x)"
  by (simp_all add: unset_parent_def Let_def split: option.split)

lemma unset_parent_inv:
  assumes inv: "tree_inv c"
  shows "tree_inv (unset_parent s c)"
proof (rule tree_invI)
  note I = tree_invD[OF inv] and P = unset_parent_parts
  have noself: "ps_parent (cp_data c x) \<noteq> Some x" for x
    using I(2) by (auto simp: acyclic_def parent_rel_def)
  have "{x. ps_parent (cp_data (unset_parent s c) x) \<noteq> None} \<subseteq> {x. ps_parent (cp_data c x) \<noteq> None}"
    by (auto simp: P)
  then show "finite {x. ps_parent (cp_data (unset_parent s c) x) \<noteq> None}" using I(1) finite_subset by blast
  have "parent_rel (unset_parent s c) \<subseteq> parent_rel c" by (auto simp: parent_rel_def P split: if_splits)
  then show "acyclic (parent_rel (unset_parent s c))" using I(2) acyclic_subset by blast
  show "x \<in> set (ps_children (cp_data (unset_parent s c) p)) \<and>
      ps_role (cp_data (unset_parent s c) x) = Some SUBSURFACE_ROLE"
    if "ps_parent (cp_data (unset_parent s c) x) = Some p" for x p
    using that I(3)[of x p] I(4)[of x p] by (auto simp: P split: if_splits)
  show "y = x \<or> ps_parent (cp_data (unset_parent s c) y) = Some x"
    if "y \<in> set (ps_children (cp_data (unset_parent s c) x))" for x y
    using that I(5)[of y x] by (auto simp: P split: if_splits)
  show "distinct (ps_children (cp_data (unset_parent s c) x))" for x
    using I(6)[of x] by (simp add: P)
  show "x \<in> set (ps_children (cp_data (unset_parent s c) x)) \<or>
      ps_children (cp_data (unset_parent s c) x) = [] \<and> ps_parent (cp_data (unset_parent s c) x) = None
        \<and> \<not> ps_alive (cp_data (unset_parent s c) x)" for x
    using I(7)[of x] noself[of x] by (auto simp: P)
qed

text \<open>Making a surface a subsurface cannot corrupt the tree: the check for cycles always
  returns, the request is refused exactly for the surface itself, an ancestor, a surface with
  another role or with a parent, and otherwise the child ends on top of its parent's children with
  the subsurface role, in a tree that is consistent and acyclic again.\<close>

theorem set_parent_correct:
  assumes "tree_inv c" "comp_alive c child" "comp_alive c parent"
  shows "(set_parent child parent c = Refused \<longleftrightarrow>
            (parent, child) \<in> (parent_rel c)\<^sup>* \<or> get_parent child c \<noteq> None \<or>
            get_role child c \<notin> {None, Some SUBSURFACE_ROLE})
    \<and> set_parent child parent c \<noteq> Panics
    \<and> (\<forall>c'. set_parent child parent c = Done c' \<longrightarrow> tree_inv c' \<and> get_parent child c' = Some parent
          \<and> get_children parent c' = get_children parent c @ [child]
          \<and> get_role child c' = Some SUBSURFACE_ROLE)"
proof -
  have a: "is_ancestor c child parent = Some ((parent, child) \<in> (parent_rel c)\<^sup>+)"
    by (rule is_ancestor_exact[OF assms(1)])
  have iff: "set_parent child parent c = Refused \<longleftrightarrow>
            (parent, child) \<in> (parent_rel c)\<^sup>* \<or> get_parent child c \<noteq> None \<or>
            get_role child c \<notin> {None, Some SUBSURFACE_ROLE}"
    by (auto simp: set_parent_def a Let_def rtrancl_eq_or_trancl get_parent_def get_role_def split: bool.splits)
  have np: "set_parent child parent c \<noteq> Panics"
    by (simp add: set_parent_def a Let_def split: bool.splits)
  have ok: "tree_inv c' \<and> get_parent child c' = Some parent
          \<and> get_children parent c' = get_children parent c @ [child]
          \<and> get_role child c' = Some SUBSURFACE_ROLE"
    if d: "set_parent child parent c = Done c'" for c'
    using set_parent_inv[OF assms(1) d] set_parent_Done[OF assms(1) d] assms(2,3)
    by (auto simp: comp_alive_def get_parent_def get_children_def get_role_def)
  show ?thesis using iff np ok by blast
qed


text \<open>Three living surfaces: a root \<open>1\<close> with the subsurface \<open>2\<close>, and a surface \<open>3\<close> without a role.\<close>

definition demo_tree :: comp where
  "demo_tree = \<lparr>cp_data = (\<lambda>_. surface_data_new)(
       1 := surface_data_new\<lparr>ps_children := [1, 2], ps_alive := True\<rparr>,
       2 := surface_data_new\<lparr>ps_children := [2], ps_parent := Some 1, ps_role := Some SUBSURFACE_ROLE,
              ps_sync := Some True, ps_alive := True\<rparr>,
       3 := surface_data_new\<lparr>ps_children := [3], ps_alive := True\<rparr>),
     cp_regions = (\<lambda>_. []), cp_surfaces = [1, 2, 3], cp_queue = [], cp_barriers = (\<lambda>_. False),
     cp_client_gone = False, cp_scale = Fl_num 1, cp_events = []\<rparr>"

lemma demo_parent: "ps_parent (cp_data demo_tree x) = (if x = 2 then Some 1 else None)"
  by (simp add: demo_tree_def surface_data_new_def)

lemma parent_rel_demo: "parent_rel demo_tree = {(2, 1)}"
  by (auto simp: parent_rel_def demo_parent split: if_splits)

lemma tree_inv_demo: "tree_inv demo_tree"
proof (rule tree_invI)
  have "{x. ps_parent (cp_data demo_tree x) \<noteq> None} = {2}" by (auto simp: demo_parent)
  then show "finite {x. ps_parent (cp_data demo_tree x) \<noteq> None}" by simp
  show "acyclic (parent_rel demo_tree)" unfolding parent_rel_demo by (rule acyclic_insert[THEN iffD2]) (simp add: acyclic_def)
qed (auto simp: demo_tree_def surface_data_new_def split: if_splits)

theorem set_parent_correct_witness:
  "\<exists>c'. set_parent 3 1 demo_tree = Done c' \<and> tree_inv c' \<and> get_children 1 c' = [2, 3]"
proof -
  have alive: "comp_alive demo_tree 3" "comp_alive demo_tree 1"
    by (simp_all add: comp_alive_def demo_tree_def)
  note correct = set_parent_correct[OF tree_inv_demo alive]
  have "(1 :: surf, 3) \<notin> {(2, 1)}\<^sup>*" by (auto elim: converse_rtranclE)
  moreover have "get_parent 3 demo_tree = None" "get_role 3 demo_tree = None"
    by (simp_all add: get_parent_def get_role_def demo_tree_def surface_data_new_def)
  ultimately obtain c' where "set_parent 3 1 demo_tree = Done c'"
    using correct unfolding parent_rel_demo by (cases "set_parent 3 1 demo_tree") auto
  moreover have "get_children 1 demo_tree = [2]"
    by (simp add: get_children_def demo_tree_def)
  ultimately show ?thesis using correct by auto
qed

section \<open>Stacking\<close>

lemma index_of_Some:
  "index_of s xs = Some i \<Longrightarrow> i < length xs \<and> xs ! i = s \<and> s \<notin> set (take i xs)"
proof (induction s xs arbitrary: i rule: index_of.induct)
  case (2 s x xs)
  then show ?case by (cases i) (auto split: if_splits)
qed simp

lemma index_of_None: "index_of s xs = None \<longleftrightarrow> s \<notin> set xs"
  by (induction xs) auto

text \<open>The reordered list, in terms of the others: the surface goes next to the reference.\<close>

definition moved :: "surf \<Rightarrow> location \<Rightarrow> surf \<Rightarrow> surf list \<Rightarrow> surf list \<Rightarrow> bool" where
  "moved s to other xs ys \<longleftrightarrow> (\<exists>a b. filter (\<lambda>x. x \<noteq> s) xs = a @ other # b \<and>
     ys = (case to of Before \<Rightarrow> a @ s # other # b | After \<Rightarrow> a @ other # s # b))"

lemma move_list:
  assumes d: "distinct xs" and i: "index_of s xs = Some i" and j: "index_of other xs = Some j" and ne: "s \<noteq> other"
  defines "k \<equiv> (if i < j then j - 1 else j)"
  shows "\<exists>ys. vec_insert (case to of Before \<Rightarrow> k | After \<Rightarrow> k + 1) s (vec_remove i xs) = Some ys \<and> moved s to other xs ys"
proof -
  note I = index_of_Some[OF i] and J = index_of_Some[OF j]
  define r where "r = vec_remove i xs"
  have xs: "xs = take i xs @ s # drop (Suc i) xs"
    using I id_take_nth_drop[of i xs] by simp
  then have r: "r = filter (\<lambda>x. x \<noteq> s) xs"
  proof -
    have "distinct (take i xs @ s # drop (Suc i) xs)" using d xs by simp
    then have "s \<notin> set (take i xs)" "s \<notin> set (drop (Suc i) xs)" by auto
    then have "filter (\<lambda>x. x \<noteq> s) (take i xs) = take i xs"
      "filter (\<lambda>x. x \<noteq> s) (drop (Suc i) xs) = drop (Suc i) xs"
      by (metis (mono_tags, lifting) filter_True)+
    then have "filter (\<lambda>x. x \<noteq> s) (take i xs @ s # drop (Suc i) xs) = take i xs @ drop (Suc i) xs"
      by simp
    then show ?thesis using xs by (simp add: r_def vec_remove_def)
  qed
  have ij: "i \<noteq> j" using I J ne by auto
  have len: "length r = length xs - 1" using I by (simp add: r_def vec_remove_def)
  have k: "k < length r" and rk: "r ! k = other"
    using I J ij len by (auto simp: k_def r_def vec_remove_def nth_append)
  have split: "r = take k r @ other # drop (Suc k) r"
    using id_take_nth_drop[OF k] rk by simp
  have k1: "take (Suc k) r = take k r @ [other]" "drop k r = other # drop (Suc k) r"
    using k rk by (simp_all add: take_Suc_conv_app_nth Cons_nth_drop_Suc[symmetric])
  show ?thesis
  proof (cases to)
    case Before
    then show ?thesis
      using k split k1 unfolding r_def[symmetric] by (auto simp: vec_insert_def moved_def r)
  next
    case After
    then show ?thesis
      using k split k1 unfolding r_def[symmetric] by (auto simp: vec_insert_def moved_def r)
  qed
qed

lemma vec_move_perm:
  assumes "index_of s xs = Some i" "vec_insert k s (vec_remove i xs) = Some ys"
  shows "mset ys = mset xs"
proof -
  have xs: "xs = take i xs @ s # drop (Suc i) xs"
    using index_of_Some[OF assms(1)] id_take_nth_drop[of i xs] by simp
  then have "mset xs = add_mset s (mset (vec_remove i xs))"
    by (metis mset.simps(2) mset_append union_mset_add_mset_right vec_remove_def)
  moreover have "ys = take k (vec_remove i xs) @ s # drop k (vec_remove i xs)"
    using assms(2) by (simp add: vec_insert_def split: if_splits)
  moreover have "mset (take k (vec_remove i xs)) + mset (drop k (vec_remove i xs)) = mset (vec_remove i xs)"
    by (metis append_take_drop_id mset_append)
  ultimately show ?thesis by simp
qed

lemma reorder_Done:
  assumes "reorder s to other c = Done c'"
  obtains p i j ys where "ps_parent (cp_data c s) = Some p"
    "index_of s (ps_children (cp_data c p)) = Some i" "index_of other (ps_children (cp_data c p)) = Some j"
    "vec_insert (case to of Before \<Rightarrow> if i < j then j - 1 else j | After \<Rightarrow> (if i < j then j - 1 else j) + 1) s
       (vec_remove i (ps_children (cp_data c p))) = Some ys"
    "c' = on_surface p (\<lambda>d. d\<lparr>ps_children := ys\<rparr>) c"
  using assms unfolding reorder_def get_parent_def Let_def by (auto split: option.splits)

lemma reorder_inv:
  assumes inv: "tree_inv c" and r: "reorder s to other c = Done c'"
  shows "tree_inv c'"
proof -
  note I = tree_invD[OF inv]
  obtain p i j ys k where i: "index_of s (ps_children (cp_data c p)) = Some i"
    and ys: "vec_insert k s (vec_remove i (ps_children (cp_data c p))) = Some ys"
    and c': "c' = on_surface p (\<lambda>d. d\<lparr>ps_children := ys\<rparr>) c"
    using reorder_Done[OF r] by metis
  note m = vec_move_perm[OF i ys]
  have set: "set ys = set (ps_children (cp_data c p))" "distinct ys"
    using mset_eq_setD[OF m] mset_eq_imp_distinct_iff[OF m] I(6) by auto
  have eq: "ps_parent (cp_data c' x) = ps_parent (cp_data c x)" "ps_role (cp_data c' x) = ps_role (cp_data c x)"
    "ps_alive (cp_data c' x) = ps_alive (cp_data c x)"
    "set (ps_children (cp_data c' x)) = set (ps_children (cp_data c x))" for x
    using set by (simp_all add: c')
  show "tree_inv c'"
  proof (rule tree_invI)
    show "distinct (ps_children (cp_data c' x))" for x
      using set(2) I(6)[of x] by (simp add: c')
    show "x \<in> set (ps_children (cp_data c' x)) \<or>
        ps_children (cp_data c' x) = [] \<and> ps_parent (cp_data c' x) = None \<and> \<not> ps_alive (cp_data c' x)" for x
      using I(7)[of x] by (metis eq set_empty)
  qed (use I(1-5) in \<open>auto simp: eq parent_rel_def\<close>)
qed

lemma reorder_moves:
  assumes inv: "tree_inv c" and r: "reorder s to other c = Done c'" and ne: "s \<noteq> other"
  shows "\<exists>p. get_parent s c = Some p \<and>
     moved s to other (ps_children (cp_data c p)) (ps_children (cp_data c' p)) \<and>
     (\<forall>q. q \<noteq> p \<longrightarrow> cp_data c' q = cp_data c q)"
proof -
  obtain p i j ys where p: "ps_parent (cp_data c s) = Some p"
    "index_of s (ps_children (cp_data c p)) = Some i" "index_of other (ps_children (cp_data c p)) = Some j"
    "vec_insert (case to of Before \<Rightarrow> if i < j then j - 1 else j | After \<Rightarrow> (if i < j then j - 1 else j) + 1) s
       (vec_remove i (ps_children (cp_data c p))) = Some ys"
    "c' = on_surface p (\<lambda>d. d\<lparr>ps_children := ys\<rparr>) c"
    by (rule reorder_Done[OF r])
  then have "moved s to other (ps_children (cp_data c p)) ys"
    using move_list[OF tree_invD(6)[OF inv] p(2,3) ne, of to] by simp
  then show ?thesis using p(1,5) by (intro exI[of _ p]) (simp add: get_parent_def)
qed

lemma reorder_found:
  assumes "tree_inv c" "get_parent s c = Some p" "s \<noteq> other"
  shows "if other \<in> set (ps_children (cp_data c p))
    then \<exists>c'. reorder s to other c = Done c' \<and> tree_inv c'
       \<and> moved s to other (ps_children (cp_data c p)) (ps_children (cp_data c' p))
       \<and> (\<forall>q. q \<noteq> p \<longrightarrow> cp_data c' q = cp_data c q)
    else reorder s to other c = Refused"
proof -
  note I = tree_invD[OF assms(1)]
  have p: "ps_parent (cp_data c s) = Some p" using assms(2) by (simp add: get_parent_def)
  obtain i where i: "index_of s (ps_children (cp_data c p)) = Some i"
    using I(3)[OF p] index_of_None by (metis option.exhaust)
  show ?thesis
  proof (cases "other \<in> set (ps_children (cp_data c p))")
    case False
    then have "index_of other (ps_children (cp_data c p)) = None" by (simp add: index_of_None)
    then show ?thesis using False i assms(2) by (simp add: reorder_def Let_def)
  next
    case True
    then obtain j where j: "index_of other (ps_children (cp_data c p)) = Some j"
      using index_of_None by (metis option.exhaust)
    obtain c' where c': "reorder s to other c = Done c'"
      using move_list[OF I(6) i j assms(3), of to] i j assms(2)
      by (auto simp: reorder_def Let_def)
    then show ?thesis
      using True reorder_inv[OF assms(1) c'] reorder_moves[OF assms(1) c' assms(3)] assms(2) by auto
  qed
qed

text \<open>C35. Restacking never loses or duplicates a surface: relative to another surface of the same
  parent (or the parent itself) the surface ends directly below or above it, all others keep their
  order, no other list changes; a surface that is not there is refused.\<close>

theorem reorder_correct:
  assumes "tree_inv c" "get_parent s c = Some p" "s \<noteq> other"
  shows "if other \<in> set (ps_children (cp_data c p))
    then \<exists>c'. reorder s to other c = Done c' \<and> tree_inv c'
       \<and> moved s to other (ps_children (cp_data c p)) (ps_children (cp_data c' p))
       \<and> (\<forall>q. q \<noteq> p \<longrightarrow> cp_data c' q = cp_data c q)
    else reorder s to other c = Refused"
  by (rule reorder_found[OF assms])

theorem reorder_correct_witness:
  "\<exists>c'. reorder 2 Before 1 demo_tree = Done c' \<and> ps_children (cp_data c' 1) = [2, 1]"
proof -
  have p: "get_parent 2 demo_tree = Some 1" by (simp add: get_parent_def demo_parent)
  have ch: "ps_children (cp_data demo_tree 1) = [1, 2]" by (simp add: demo_tree_def)
  obtain c' where "reorder 2 Before 1 demo_tree = Done c'" "moved 2 Before 1 [1, 2] (ps_children (cp_data c' 1))"
    using reorder_correct[OF tree_inv_demo p, of 1 Before] ch by auto
  then show ?thesis by (auto simp: moved_def Cons_eq_append_conv)
qed

text \<open>A client can make restacking panic, in exactly one way: \<open>place_above\<close> with the surface itself
  as the sibling is not refused, and when the surface is on top of its parent's children it is
  inserted one past the end of the list it was just removed from.\<close>

theorem reorder_panics_exactly:
  assumes "tree_inv c"
  shows "reorder s to other c = Panics \<longleftrightarrow>
    to = After \<and> other = s \<and> (\<exists>p. get_parent s c = Some p \<and> last (ps_children (cp_data c p)) = s)"
proof (cases "get_parent s c")
  case None
  then show ?thesis by (simp add: reorder_def)
next
  case (Some p)
  let ?ch = "ps_children (cp_data c p)"
  note I = tree_invD[OF assms(1)]
  have p: "ps_parent (cp_data c s) = Some p" using Some by (simp add: get_parent_def)
  have s: "s \<in> set ?ch" by (rule I(3)[OF p])
  show ?thesis
  proof (cases "other = s")
    case False
    then have "reorder s to other c \<noteq> Panics"
      using reorder_found[OF assms Some False[symmetric], of to] by (auto split: if_splits)
    then show ?thesis using False by simp
  next
    case True
    obtain i where i: "index_of s ?ch = Some i" using s index_of_None by (metis option.exhaust)
    note ii = index_of_Some[OF i]
    have ne: "?ch \<noteq> []" using s by auto
    have last: "last ?ch = s \<longleftrightarrow> i = length ?ch - 1"
      using ii ne nth_eq_iff_index_eq[OF I(6)[of p], of i "length ?ch - 1"] by (auto simp: last_conv_nth)
    have len: "length (vec_remove i ?ch) = length ?ch - 1" using ii by (simp add: vec_remove_def)
    have "reorder s to other c = Panics \<longleftrightarrow>
        length ?ch - 1 < (case to of Before \<Rightarrow> i | After \<Rightarrow> i + 1)"
      using i Some True len by (simp add: reorder_def Let_def vec_insert_def)
    then show ?thesis using True Some last ii by (cases to) auto
  qed
qed

theorem reorder_panics_exactly_witness: "reorder 2 After 2 demo_tree = Panics"
  using reorder_panics_exactly[OF tree_inv_demo, of 2 After 2]
  by (simp add: get_parent_def demo_parent) (simp add: demo_tree_def)

section \<open>Depth of the tree\<close>

text \<open>The strict descendants of a surface; their number bounds every recursion into its tree.\<close>

definition descendants :: "comp \<Rightarrow> surf \<Rightarrow> surf set" where
  "descendants c s = {x. (x, s) \<in> (parent_rel c)\<^sup>+}"

lemma finite_descendants: "tree_inv c \<Longrightarrow> finite (descendants c s)"
proof -
  assume "tree_inv c"
  then have "finite ((parent_rel c)\<^sup>+)" using wf_parent(2) by (simp add: finite_trancl)
  then have "finite (fst ` (parent_rel c)\<^sup>+)" by (rule finite_imageI)
  then show ?thesis by (rule finite_subset[rotated]) (force simp: descendants_def)
qed

lemma child_parent: "tree_inv c \<Longrightarrow> x \<in> set (get_children s c) \<Longrightarrow> (x, s) \<in> parent_rel c"
  using tree_invD(5) by (fastforce simp: get_children_def parent_rel_def)

lemma descendants_child:
  assumes "tree_inv c" "(x, s) \<in> parent_rel c"
  shows "card (descendants c x) < card (descendants c s)"
proof (rule psubset_card_mono[OF finite_descendants[OF assms(1)]])
  have "x \<in> descendants c s" using assms(2) by (auto simp: descendants_def)
  moreover have "x \<notin> descendants c x"
    using tree_invD(2)[OF assms(1)] by (auto simp: descendants_def acyclic_def)
  moreover have "descendants c x \<subseteq> descendants c s"
    using assms(2) by (auto simp: descendants_def intro: trancl_into_trancl)
  ultimately show "descendants c x \<subset> descendants c s" by blast
qed

lemma descendants_le:
  assumes "tree_inv c"
  shows "card (descendants c s) \<le> card {x. ps_parent (cp_data c x) \<noteq> None}"
proof (rule card_mono[OF tree_invD(1)[OF assms]])
  show "descendants c s \<subseteq> {x. ps_parent (cp_data c x) \<noteq> None}"
    by (auto simp: descendants_def parent_rel_def dest: tranclD)
qed

lemma descendants_same_tree: "same_tree c c' \<Longrightarrow> descendants c' s = descendants c s"
  by (simp add: descendants_def same_treeD)

lemma commit_sync_tree_total:
  assumes "tree_inv c" "set ss \<subseteq> set (get_children p c)" "card (descendants c p) \<le> n"
  shows "commit_sync_surface_tree n p ss c \<noteq> None"
  using assms
proof (induction n p ss c rule: commit_sync_surface_tree.induct)
  case (2 p s ss c)
  then have "s \<in> descendants c p"
    using child_parent[of c s p] by (auto simp: descendants_def)
  then show ?case using 2 finite_descendants[of c p] by auto
next
  case (3 n p s ss c)
  have sp: "(s, p) \<in> parent_rel c" using 3(3,4) child_parent by auto
  have "card (descendants c s) \<le> n" using descendants_child[OF 3(3) sp] 3(5) by linarith
  with 3(1)[OF 3(3)] obtain c1 where c1: "commit_sync_surface_tree n s (get_children s c) c = Some c1"
    by auto
  let ?c2 = "commit_sync_surface s p c1"
  have same: "same_tree c ?c2"
    using same_tree_commit_sync_tree[OF c1] same_tree_commit_sync_surface same_tree_trans by blast
  have "commit_sync_surface_tree (Suc n) p ss ?c2 \<noteq> None"
    by (rule 3(2)[OF c1]) (use 3(3-5) same_tree_inv[OF same] same_treeD[OF same] descendants_same_tree[OF same] in auto)
  then show ?case using c1 by simp
qed simp

lemma commit_children_total:
  assumes "tree_inv c" "set ss \<subseteq> set (get_children s c)" "card (descendants c s) \<le> n"
  shows "commit_children n is_sync s ss c \<noteq> None"
  using assms
proof (induction ss arbitrary: c)
  case (Cons x xs)
  have t: "commit_sync_surface_tree n s [x] c \<noteq> None"
    by (rule commit_sync_tree_total[OF Cons.prems(1)]) (use Cons.prems in auto)
  have go: "commit_children n is_sync s xs c1 \<noteq> None" if same: "same_tree c c1" for c1
    by (rule Cons.IH) (use Cons.prems same_tree_inv[OF same] same_treeD[OF same] descendants_same_tree[OF same] in auto)
  have "same_tree c (bump_txid x (merge_child_tx x s c))"
    by (meson same_tree_simple same_tree_trans)
  then show ?case
    using t go[of c] go[of "bump_txid x (merge_child_tx x s c)"] go same_tree_commit_sync_tree
    by (auto simp: Let_def split: option.split)
qed simp

lemma commit_local_total:
  assumes "tree_inv c" "card {x. ps_parent (cp_data c x) \<noteq> None} \<le> n"
  shows "commit_local n s c \<noteq> None"
proof -
  let ?c1 = "surface_cache_commit s (Some (ps_txid (cp_data c s))) c"
  have same: "same_tree c ?c1" by (rule same_tree_simple)
  have "commit_children n b s (get_children s c) ?c1 \<noteq> None" for b
    by (rule commit_children_total)
      (use assms same_tree_inv[OF same] same_treeD[OF same] descendants_le[OF assms(1), of s]
        descendants_same_tree[OF same] in auto)
  then show ?thesis
    using is_effectively_sync_exact[OF assms(1), of s] unfolding commit_local_def
    by (simp add: Let_def split: option.split)
qed


section \<open>Traversal\<close>

text \<open>The stacking order of a tree, from the bottom up: a surface stands where its own entry is.\<close>

fun stack_order :: "comp \<Rightarrow> nat \<Rightarrow> surf \<Rightarrow> surf list" where
  "stack_order c 0 s = []"
| "stack_order c (Suc n) s =
     concat (map (\<lambda>x. if x = s then [s] else stack_order c n x) (ps_children (cp_data c s)))"

text \<open>A visitor that goes everywhere.\<close>

definition visit_all :: "(surf \<Rightarrow> 'st \<Rightarrow> 'st) \<Rightarrow> (unit, 'st) visitor" where
  "visit_all f = \<lparr>vs_filter = (\<lambda>_ _ st. (Do_children (), st)), vs_processor = (\<lambda>s _. f s),
                  vs_post = (\<lambda>_ _ st. (True, st))\<rparr>"

lemma map_children_all:
  assumes "\<And>x st. x \<in> set xs \<Longrightarrow> x \<noteq> s \<Longrightarrow>
      map_surface c (visit_all f) r n x () st = Some (True, fold f (order x) st)"
  shows "map_children c (visit_all f) r n s () () xs st
    = Some (True, fold f (concat (map (\<lambda>x. if x = s then [s] else order x) xs)) st)"
  using assms
proof (induction xs arbitrary: st)
  case (Cons x xs)
  then show ?case by (cases "x = s") (simp_all add: visit_all_def)
qed simp

lemma map_surface_all:
  assumes "tree_inv c" "card (descendants c s) < n"
  shows "map_surface c (visit_all f) r n s () st
    = Some (True, fold f (if r then rev (stack_order c n s) else stack_order c n s) st)"
  using assms(2)
proof (induction n arbitrary: s st)
  case (Suc n)
  let ?order = "\<lambda>x. if r then rev (stack_order c n x) else stack_order c n x"
  let ?ch = "ps_children (cp_data c s)"
  let ?xs = "if r then rev ?ch else ?ch"
  have "map_surface c (visit_all f) r n x () st' = Some (True, fold f (?order x) st')"
    if "x \<in> set ?xs" "x \<noteq> s" for x st'
  proof (rule Suc.IH)
    have "(x, s) \<in> parent_rel c"
      using child_parent[OF assms(1)] that by (simp add: get_children_def split: if_splits)
    then show "card (descendants c x) < n"
      using descendants_child[OF assms(1)] Suc.prems by fastforce
  qed
  then have m: "map_children c (visit_all f) r n s () () ?xs st
      = Some (True, fold f (concat (map (\<lambda>x. if x = s then [s] else ?order x) ?xs)) st)"
    by (rule map_children_all)
  have o: "concat (map (\<lambda>x. if x = s then [s] else ?order x) ?xs)
      = (if r then rev (stack_order c (Suc n) s) else stack_order c (Suc n) s)"
    by (cases r) (simp_all add: rev_concat rev_map o_def if_distrib cong: if_cong)
  have "vs_filter (visit_all f) s () st = (Do_children (), st)" "vs_post (visit_all f) s () st' = (True, st')" for st'
    by (simp_all add: visit_all_def)
  then show ?case using m unfolding o by (simp add: Let_def)
qed simp

text \<open>The subtrees of different children are disjoint.\<close>

lemma parent_rel_functional: "(x, a) \<in> parent_rel c \<Longrightarrow> (x, b) \<in> parent_rel c \<Longrightarrow> a = b"
  by (simp add: parent_rel_def)

lemma ancestors_linear:
  assumes "(z, x) \<in> (parent_rel c)\<^sup>*" "(z, y) \<in> (parent_rel c)\<^sup>*"
  shows "(x, y) \<in> (parent_rel c)\<^sup>* \<or> (y, x) \<in> (parent_rel c)\<^sup>*"
  using assms
proof (induction rule: rtrancl_induct)
  case (step a b)
  from step.IH[OF step.prems] show ?case
  proof
    assume "(a, y) \<in> (parent_rel c)\<^sup>*"
    then show ?thesis
    proof (cases rule: converse_rtranclE)
      case (step w)
      then show ?thesis using parent_rel_functional[OF \<open>(a, b) \<in> parent_rel c\<close>] by blast
    qed (use step.hyps(2) in blast)
  qed (use step.hyps(2) in \<open>auto intro: rtrancl_into_rtrancl\<close>)
qed simp

lemma subtrees_disjoint:
  assumes "tree_inv c" "(x, s) \<in> parent_rel c" "(y, s) \<in> parent_rel c" "x \<noteq> y"
    and "(z, x) \<in> (parent_rel c)\<^sup>*"
  shows "(z, y) \<notin> (parent_rel c)\<^sup>*"
proof
  assume "(z, y) \<in> (parent_rel c)\<^sup>*"
  have no: "(a, b) \<notin> (parent_rel c)\<^sup>*" if "(a, s) \<in> parent_rel c" "(b, s) \<in> parent_rel c" "a \<noteq> b" for a b
  proof
    assume "(a, b) \<in> (parent_rel c)\<^sup>*"
    with that(3) obtain w where "(a, w) \<in> parent_rel c" "(w, b) \<in> (parent_rel c)\<^sup>*"
      by (meson converse_rtranclE)
    then have "(s, b) \<in> (parent_rel c)\<^sup>*" using parent_rel_functional[OF that(1)] by blast
    then have "(b, b) \<in> (parent_rel c)\<^sup>+" using that(2) by auto
    then show False using tree_invD(2)[OF assms(1)] by (auto simp: acyclic_def)
  qed
  from ancestors_linear[OF assms(5) \<open>(z, y) \<in> (parent_rel c)\<^sup>*\<close>] no[of x y] no[of y x] assms show False
    by blast
qed

lemma stack_order_set:
  assumes "tree_inv c" "s \<in> set (ps_children (cp_data c s))" "card (descendants c s) < n"
  shows "set (stack_order c n s) = {x. (x, s) \<in> (parent_rel c)\<^sup>*} \<and> distinct (stack_order c n s)"
  using assms(2,3)
proof (induction n arbitrary: s)
  case (Suc n)
  let ?ch = "ps_children (cp_data c s)"
  let ?part = "\<lambda>x. if x = s then [s] else stack_order c n x"
  have child: "(x, s) \<in> parent_rel c" if "x \<in> set ?ch" "x \<noteq> s" for x
    using child_parent[OF assms(1)] that by (simp add: get_children_def)
  have IH: "set (stack_order c n x) = {y. (y, x) \<in> (parent_rel c)\<^sup>*}" "distinct (stack_order c n x)"
    if "x \<in> set ?ch" "x \<noteq> s" for x
  proof -
    have "x \<in> set (ps_children (cp_data c x))"
      using tree_invD(7)[OF assms(1), of x] child[OF that] by (auto simp: parent_rel_def)
    moreover have "card (descendants c x) < n"
      using descendants_child[OF assms(1) child[OF that]] Suc.prems(2) by linarith
    ultimately show "set (stack_order c n x) = {y. (y, x) \<in> (parent_rel c)\<^sup>*}" "distinct (stack_order c n x)"
      using Suc.IH by blast+
  qed
  have notin: "(s, x) \<notin> (parent_rel c)\<^sup>*" if "x \<in> set ?ch" "x \<noteq> s" for x
  proof
    assume "(s, x) \<in> (parent_rel c)\<^sup>*"
    then have "(s, s) \<in> (parent_rel c)\<^sup>+" using child[OF that] by (meson rtrancl_into_trancl1)
    then show False using tree_invD(2)[OF assms(1)] by (auto simp: acyclic_def)
  qed
  have sets: "set (?part x) = (if x = s then {s} else {y. (y, x) \<in> (parent_rel c)\<^sup>*})"
    "distinct (?part x)" if "x \<in> set ?ch" for x
    using IH[OF that] by auto
  have "set (stack_order c (Suc n) s) = (\<Union>x\<in>set ?ch. set (?part x))"
    by (simp only: stack_order.simps set_concat set_map image_image)
  also have "\<dots> = (\<Union>x\<in>set ?ch. if x = s then {s} else {y. (y, x) \<in> (parent_rel c)\<^sup>*})"
    using sets by (intro SUP_cong) auto
  also have "\<dots> = {x. (x, s) \<in> (parent_rel c)\<^sup>*}"
  proof (intro equalityI subsetI)
    fix y assume "y \<in> (\<Union>x\<in>set ?ch. if x = s then {s} else {y. (y, x) \<in> (parent_rel c)\<^sup>*})"
    then obtain x where x: "x \<in> set ?ch" "if x = s then y = s else (y, x) \<in> (parent_rel c)\<^sup>*"
      by (auto split: if_splits)
    then show "y \<in> {x. (x, s) \<in> (parent_rel c)\<^sup>*}"
      using child[OF x(1)] by (cases "x = s") (auto intro: rtrancl_into_rtrancl)
  next
    fix y assume "y \<in> {x. (x, s) \<in> (parent_rel c)\<^sup>*}"
    then have "(y, s) \<in> (parent_rel c)\<^sup>*" by simp
    then show "y \<in> (\<Union>x\<in>set ?ch. if x = s then {s} else {y. (y, x) \<in> (parent_rel c)\<^sup>*})"
    proof (cases rule: rtranclE)
      case base
      then show ?thesis using Suc.prems(1) by (intro UN_I[of s]) auto
    next
      case (step x)
      then have "x \<in> set ?ch" "x \<noteq> s"
        using tree_invD(2,3)[OF assms(1)] by (auto simp: parent_rel_def acyclic_def)
      then show ?thesis using step(1) by (intro UN_I[of x]) auto
    qed
  qed
  finally have set_eq: "set (stack_order c (Suc n) s) = {x. (x, s) \<in> (parent_rel c)\<^sup>*}" .
  have disj: "set (?part x) \<inter> set (?part y) = {}" if "x \<in> set ?ch" "y \<in> set ?ch" "x \<noteq> y" for x y
  proof (cases "x = s \<or> y = s")
    case True
    then show ?thesis using that sets notin by (auto split: if_splits)
  next
    case False
    then show ?thesis
      using sets(1)[OF that(1)] sets(1)[OF that(2)]
        subtrees_disjoint[OF assms(1) child[OF that(1)] child[OF that(2)] that(3)] by auto
  qed
  have "distinct (concat (map ?part xs))" if "set xs \<subseteq> set ?ch" "distinct xs" for xs
    using that
  proof (induction xs)
    case (Cons x xs)
    have "set (?part x) \<inter> set (?part y) = {}" if "y \<in> set xs" for y
      by (rule disj) (use Cons.prems that in auto)
    then have "set (?part x) \<inter> (\<Union>y\<in>set xs. set (?part y)) = {}"
      by blast
    then have "set (?part x) \<inter> set (concat (map ?part xs)) = {}"
      by (simp only: set_concat set_map image_image)
    moreover have "x \<in> set ?ch" using Cons.prems(1) by simp
    then have "distinct (?part x)" by (rule sets(2))
    moreover have "distinct (concat (map ?part xs))" by (rule Cons.IH) (use Cons.prems in simp_all)
    ultimately show ?case by (simp only: list.map concat.simps distinct_append)
  qed simp
  then have "distinct (stack_order c (Suc n) s)"
    using tree_invD(6)[OF assms(1)] by simp
  with set_eq show ?case by blast
qed simp

text \<open>
  Stacking order, without the recursion: the list of a surface holds itself and its children from the
  bottom up, and what stands lower in it is below with everything that belongs to it.
\<close>

definition comes_before :: "'a list \<Rightarrow> 'a \<Rightarrow> 'a \<Rightarrow> bool" where
  "comes_before xs u v \<longleftrightarrow> (\<exists>as bs. xs = as @ bs \<and> u \<in> set as \<and> v \<in> set bs)"

definition stacked_part :: "comp \<Rightarrow> surf \<Rightarrow> surf \<Rightarrow> surf set" where
  "stacked_part c p y = (if y = p then {p} else {x. (x, y) \<in> (parent_rel c)\<^sup>*})"

lemma comes_beforeI: "u \<in> set as \<Longrightarrow> v \<in> set bs \<Longrightarrow> comes_before (as @ bs) u v"
  unfolding comes_before_def by blast

lemma comes_before_inside: "comes_before ys u v \<Longrightarrow> comes_before (xs @ ys @ zs) u v"
  unfolding comes_before_def
proof (elim exE conjE)
  fix as bs assume "ys = as @ bs" "u \<in> set as" "v \<in> set bs"
  then show "\<exists>as bs. xs @ ys @ zs = as @ bs \<and> u \<in> set as \<and> v \<in> set bs"
    by (intro exI[of _ "xs @ as"] exI[of _ "bs @ zs"]) simp
qed

lemma comes_before_concat:
  assumes "comes_before xs y z" "u \<in> set (f y)" "v \<in> set (f z)"
  shows "comes_before (concat (map f xs)) u v"
proof -
  obtain as bs where xs: "xs = as @ bs" "y \<in> set as" "z \<in> set bs"
    using assms(1) unfolding comes_before_def by blast
  then have "u \<in> set (concat (map f as))" "v \<in> set (concat (map f bs))" using assms(2,3) by auto
  then show ?thesis unfolding xs(1) map_append concat_append by (rule comes_beforeI)
qed

lemma comes_before_member: "comes_before xs u v \<Longrightarrow> u \<in> set xs \<and> v \<in> set xs"
  unfolding comes_before_def by auto

lemma stack_order_stacked:
  assumes "tree_inv c" "s \<in> set (ps_children (cp_data c s))" "card (descendants c s) < n"
    and "(p, s) \<in> (parent_rel c)\<^sup>*" "comes_before (ps_children (cp_data c p)) y z"
    and "u \<in> stacked_part c p y" "v \<in> stacked_part c p z"
  shows "comes_before (stack_order c n s) u v"
  using assms(2-4)
proof (induction n arbitrary: s)
  case (Suc n)
  let ?ch = "ps_children (cp_data c s)"
  let ?part = "\<lambda>x. if x = s then [s] else stack_order c n x"
  have order: "stack_order c (Suc n) s = concat (map ?part ?ch)" by simp
  have own: "x \<in> set (ps_children (cp_data c x))" "card (descendants c x) < n" if "(x, s) \<in> parent_rel c" for x
  proof -
    show "x \<in> set (ps_children (cp_data c x))"
      using tree_invD(7)[OF assms(1), of x] that by (auto simp: parent_rel_def)
    show "card (descendants c x) < n" using descendants_child[OF assms(1) that] Suc.prems(2) by linarith
  qed
  from Suc.prems(3) show ?case
  proof (cases rule: rtranclE)
    case base
    have part: "w \<in> set (?part x)" if "x \<in> set ?ch" "w \<in> stacked_part c s x" for w x
    proof (cases "x = s")
      case False
      then have "(x, s) \<in> parent_rel c"
        using child_parent[OF assms(1)] that(1) by (simp add: get_children_def)
      from stack_order_set[OF assms(1) own[OF this]] show ?thesis
        using that(2) False by (simp add: stacked_part_def)
    qed (use that(2) in \<open>simp add: stacked_part_def\<close>)
    have b: "comes_before ?ch y z" using assms(5) base by simp
    note m = comes_before_member[OF b]
    show ?thesis unfolding order
      by (rule comes_before_concat[OF b]; rule part; use m assms(6,7) base in simp)
  next
    case (step x)
    then have x: "x \<in> set ?ch" "x \<noteq> s"
      using tree_invD(2,3)[OF assms(1)] by (auto simp: parent_rel_def acyclic_def)
    then obtain xs ys where ch: "?ch = xs @ x # ys" by (meson split_list)
    have "comes_before (stack_order c n x) u v" by (rule Suc.IH[OF own[OF step(2)] step(1)])
    then have "comes_before (?part x) u v" using x(2) by simp
    from comes_before_inside[OF this] show ?thesis
      unfolding order ch map_append list.map concat_append concat.simps .
  qed
qed simp

text \<open>C36. The traversal of a surface tree visits the surface and all its descendants exactly once. Upward it
  goes by the stacking order: for every surface of the tree, whatever stands lower in its list of
  children, the surface itself or a child with its whole subtree, is visited before whatever stands
  higher. Downward it visits in exactly the reverse order. It returns whenever its depth bound
  exceeds the number of surfaces with a parent.\<close>

theorem traversal_complete:
  assumes "tree_inv c" "comp_alive c s" "card {x. ps_parent (cp_data c x) \<noteq> None} < n"
  shows "\<exists>order. distinct order \<and> set order = {x. (x, s) \<in> (parent_rel c)\<^sup>*}
    \<and> (\<forall>p \<in> set order. \<forall>y z. comes_before (ps_children (cp_data c p)) y z \<longrightarrow>
         (\<forall>u \<in> stacked_part c p y. \<forall>v \<in> stacked_part c p z. comes_before order u v))
    \<and> with_surface_tree_upward c (visit_all (\<lambda>x seen. seen @ [x])) n s () [] = Some order
    \<and> with_surface_tree_downward c (visit_all (\<lambda>x seen. seen @ [x])) n s () [] = Some (rev order)"
proof -
  have n: "card (descendants c s) < n" using descendants_le[OF assms(1), of s] assms(3) by linarith
  have own: "s \<in> set (ps_children (cp_data c s))"
    using tree_invD(7)[OF assms(1), of s] assms(2) by (auto simp: comp_alive_def)
  have f: "fold (\<lambda>x seen. seen @ [x]) xs ys = ys @ xs" for xs ys :: "surf list"
    by (induction xs arbitrary: ys) simp_all
  have set: "set (stack_order c n s) = {x. (x, s) \<in> (parent_rel c)\<^sup>*}" "distinct (stack_order c n s)"
    using stack_order_set[OF assms(1) own n] by blast+
  have "comes_before (stack_order c n s) u v"
    if "p \<in> set (stack_order c n s)" "comes_before (ps_children (cp_data c p)) y z"
      "u \<in> stacked_part c p y" "v \<in> stacked_part c p z" for p y z u v
    using stack_order_stacked[OF assms(1) own n _ that(2-4)] that(1) set(1) by simp
  then show ?thesis
    using set map_surface_all[OF assms(1) n, of "\<lambda>x seen. seen @ [x]" False "[]"]
      map_surface_all[OF assms(1) n, of "\<lambda>x seen. seen @ [x]" True "[]"]
    by (intro exI[of _ "stack_order c n s"] conjI)
      (simp_all add: with_surface_tree_upward_def with_surface_tree_downward_def map_tree_def f)
qed

theorem traversal_complete_witness:
  "with_surface_tree_upward demo_tree (visit_all (\<lambda>x seen. seen @ [x])) 3 1 () [] = Some [1, 2] \<and>
   (\<exists>order. set order = {x. (x, 1) \<in> (parent_rel demo_tree)\<^sup>*}
     \<and> with_surface_tree_upward demo_tree (visit_all (\<lambda>x seen. seen @ [x])) 3 1 () [] = Some order)"
proof -
  have fin: "{x. ps_parent (cp_data demo_tree x) \<noteq> None} = {2}" by (auto simp: demo_parent)
  have a: "comp_alive demo_tree 1" by (simp add: comp_alive_def demo_tree_def)
  have e: "with_surface_tree_upward demo_tree (visit_all (\<lambda>x seen. seen @ [x])) 3 1 () [] = Some [1, 2]"
    by (simp add: with_surface_tree_upward_def map_tree_def visit_all_def demo_tree_def numeral_3_eq_3)
  show ?thesis using e traversal_complete[OF tree_inv_demo a, of 3] fin by auto
qed

end
