(* ===== verification/Compositor.thy ===== *)
theory Compositor
  imports Tree_Props
begin

text \<open>
  The requests of \<open>src/wayland/compositor/handlers.rs\<close> and the public functions of \<open>mod.rs\<close>: creating
  and destroying surfaces and regions, the requests of \<open>wl_surface\<close>, \<open>wl_region\<close>, \<open>wl_subcompositor\<close>
  and \<open>wl_subsurface\<close>, as one step relation over the state of a client, with its invariant, what a
  commit of a synchronised and of a desynchronised surface does, and which callers see what.
\<close>

section \<open>Access to the cached state of a surface\<close>

definition with_pending :: "surf \<Rightarrow> (surface_attributes \<Rightarrow> surface_attributes) \<Rightarrow> comp \<Rightarrow> comp" where
  "with_pending s f = on_surface s (\<lambda>d. d\<lparr>ps_cached := with_pending_attributes f (ps_cached d)\<rparr>)"

definition with_subsurface :: "surf \<Rightarrow> (subsurface_state cached_state \<Rightarrow> subsurface_state cached_state) \<Rightarrow> comp \<Rightarrow> comp" where
  "with_subsurface s f =
     on_surface s (\<lambda>d. d\<lparr>ps_cached := with_cache T_subsurface (on_subsurface f) (ps_cached d)\<rparr>)"

definition current_attributes :: "comp \<Rightarrow> surf \<Rightarrow> surface_attributes" where
  "current_attributes c s = cs_current (get_attributes (ps_cached (cp_data c s)))"

definition pending_attributes :: "comp \<Rightarrow> surf \<Rightarrow> surface_attributes" where
  "pending_attributes c s = cs_pending (get_attributes (ps_cached (cp_data c s)))"

section \<open>\<open>wl_compositor\<close>\<close>

text \<open>A new object gets fresh user data; its identifier was not in use.\<close>

definition create_surface :: "handler \<Rightarrow> nat \<Rightarrow> surf \<Rightarrow> comp \<Rightarrow> comp" where
  "create_surface h version s c =
     (let c = on_surface s (\<lambda>_. surface_data_new\<lparr>ps_alive := True, ps_version := version\<rparr>) c;
          c = c\<lparr>cp_surfaces := cp_surfaces c @ [s]\<rparr>;
          c = on_surface s (\<lambda>d. d\<lparr>ps_children := ps_children d @ [s]\<rparr>) c
      in hd_new_surface h s c)"

definition create_region :: "nat \<Rightarrow> comp \<Rightarrow> comp" where
  "create_region r c = c\<lparr>cp_regions := (cp_regions c)(r := [])\<rparr>"

section \<open>\<open>wl_surface\<close>\<close>

datatype surface_req =
    Attach "nat option" i32 i32
  | Damage i32 i32 i32 i32
  | Frame nat
  | Set_opaque_region "nat option"
  | Set_input_region "nat option"
  | Commit_surface
  | Set_buffer_transform "transform option"
  | Set_buffer_scale i32
  | Damage_buffer_request i32 i32 i32 i32
  | Offset i32 i32
  | Destroy_surface

text \<open>
  An error posted to the client is an event; the handler goes on where the source goes on. The
  transform is \<open>None\<close> when the value is not one of the protocol's.
\<close>

definition surface_attach :: "surf \<Rightarrow> nat option \<Rightarrow> i32 \<Rightarrow> i32 \<Rightarrow> comp \<Rightarrow> comp" where
  "surface_attach s buffer x y c =
     (let offset = (if x \<noteq> 0 \<or> y \<noteq> 0 then Some (point_new x y) else None);
          old = ps_version (cp_data c s) < 5;
          c = (if \<not> old \<and> offset \<noteq> None then emit [Ev_error ''invalid_offset'' s] c else c);
          offset = (if old then offset else None);
          offset = map_option (client_point (cp_scale c)) offset
      in with_pending s (\<lambda>a.
            (let a = (if offset \<noteq> None then a\<lparr>sa_buffer_delta := offset\<rparr> else a)
             in a\<lparr>sa_buffer := Some (case buffer of Some b \<Rightarrow> New_buffer b | None \<Rightarrow> Removed)\<rparr>)) c)"

fun surface_request :: "handler \<Rightarrow> (surf \<Rightarrow> u32) \<Rightarrow> nat \<Rightarrow> surf \<Rightarrow> surface_req \<Rightarrow> comp \<Rightarrow> comp option" where
  "surface_request h pid n s (Attach buffer x y) c = Some (surface_attach s buffer x y c)"
| "surface_request h pid n s (Damage x y w ht) c =
     Some (with_pending s (\<lambda>a. a\<lparr>sa_damage := sa_damage a @
       [Damage_surface (client_rect (cp_scale c) (rect_new (point_new x y) (size_new w ht)))]\<rparr>) c)"
| "surface_request h pid n s (Frame callback) c =
     Some (with_pending s (\<lambda>a. a\<lparr>sa_frame_callbacks := sa_frame_callbacks a @ [callback]\<rparr>) c)"
| "surface_request h pid n s (Set_opaque_region r) c =
     Some (with_pending s (\<lambda>a. a\<lparr>sa_opaque_region := map_option (cp_regions c) r\<rparr>) c)"
| "surface_request h pid n s (Set_input_region r) c =
     Some (with_pending s (\<lambda>a. a\<lparr>sa_input_region := map_option (cp_regions c) r\<rparr>) c)"
| "surface_request h pid n s Commit_surface c =
     (let c = with_pending s (\<lambda>a. a\<lparr>sa_client_scale := cp_scale c\<rparr>) c;
          c = invoke_pre_commit_hooks h s c
      in commit h pid n s c)"
| "surface_request h pid n s (Set_buffer_transform t) c =
     Some (case t of Some t \<Rightarrow> with_pending s (\<lambda>a. a\<lparr>sa_buffer_transform := t\<rparr>) c | None \<Rightarrow> c)"
| "surface_request h pid n s (Set_buffer_scale scale) c =
     Some (if scale \<ge> 1 then with_pending s (\<lambda>a. a\<lparr>sa_buffer_scale := scale\<rparr>) c
           else emit [Ev_error ''invalid_scale'' s] c)"
| "surface_request h pid n s (Damage_buffer_request x y w ht) c =
     Some (if w < 0 \<or> ht < 0 then c
           else with_pending s (\<lambda>a. a\<lparr>sa_damage := sa_damage a @
             [Damage_buffer (rect_new (point_new x y) (size_new w ht))]\<rparr>) c)"
| "surface_request h pid n s (Offset x y) c =
     Some (with_pending s (\<lambda>a. a\<lparr>sa_buffer_delta := Some (client_point (cp_scale c) (point_new x y))\<rparr>) c)"
| "surface_request h pid n s Destroy_surface c = Some c"

text \<open>The buffers held by the attributes are released when the surface goes.\<close>

definition held_buffer :: "buffer_assignment option \<Rightarrow> comp_event list" where
  "held_buffer b = (case b of Some (New_buffer x) \<Rightarrow> [Ev_release x] | _ \<Rightarrow> [])"

text \<open>\<open>PrivateSurfaceData::cleanup\<close>.\<close>

definition orphan_children :: "surf \<Rightarrow> comp \<Rightarrow> comp" where
  "orphan_children s c =
     on_surface s (\<lambda>d. d\<lparr>ps_children := []\<rparr>)
       (fold (\<lambda>child c. if child = s then c else on_surface child (\<lambda>d. d\<lparr>ps_parent := None\<rparr>) c)
         (ps_children (cp_data c s)) c)"

definition release_buffers :: "surf \<Rightarrow> comp \<Rightarrow> comp" where
  "release_buffers s c =
     (let m = get_attributes (ps_cached (cp_data c s))
      in emit (held_buffer (sa_buffer (cs_current m)) @ held_buffer (sa_buffer (cs_pending m)))
           (on_surface s (\<lambda>d. d\<lparr>ps_cached := with_cache T_attributes (on_attributes
               (\<lambda>m. m\<lparr>cs_current := (cs_current m)\<lparr>sa_buffer := None\<rparr>, cs_pending := (cs_pending m)\<lparr>sa_buffer := None\<rparr>\<rparr>))
               (ps_cached d)\<rparr>) c))"

definition cleanup :: "handler \<Rightarrow> surf \<Rightarrow> comp \<Rightarrow> comp" where
  "cleanup h s c =
     (let c = unset_parent s c;
          c = orphan_children s c;
          c = release_buffers s c
      in fold (\<lambda>i. hd_hook h i s) (ps_destruction_hooks (cp_data c s)) c)"

definition destroyed_surface :: "handler \<Rightarrow> surf \<Rightarrow> comp \<Rightarrow> comp" where
  "destroyed_surface h s c =
     (let c = on_surface s (\<lambda>d. d\<lparr>ps_alive := False\<rparr>) c;
          c = hd_destroyed h s c;
          c = c\<lparr>cp_surfaces := filter (\<lambda>x. x \<noteq> s) (cp_surfaces c)\<rparr>
      in cleanup h s c)"

section \<open>\<open>wl_region\<close>\<close>

datatype region_req = Region_add i32 i32 i32 i32 | Region_subtract i32 i32 i32 i32 | Region_destroy

fun region_request :: "nat \<Rightarrow> region_req \<Rightarrow> comp \<Rightarrow> comp" where
  "region_request r (Region_add x y w ht) c =
     (if w > 0 \<and> ht > 0
      then c\<lparr>cp_regions := (cp_regions c)(r := cp_regions c r @
        [(Add_rect, client_rect (cp_scale c) (rect_new (point_new x y) (size_new w ht)))])\<rparr> else c)"
| "region_request r (Region_subtract x y w ht) c =
     (if w > 0 \<and> ht > 0
      then c\<lparr>cp_regions := (cp_regions c)(r := cp_regions c r @
        [(Subtract_rect, client_rect (cp_scale c) (rect_new (point_new x y) (size_new w ht)))])\<rparr> else c)"
| "region_request r Region_destroy c = c"

section \<open>\<open>wl_subcompositor\<close> and \<open>wl_subsurface\<close>\<close>

text \<open>\<open>insert_if_missing_threadsafe\<close> keeps a state that is already there.\<close>

definition get_subsurface :: "handler \<Rightarrow> surf \<Rightarrow> surf \<Rightarrow> comp \<Rightarrow> comp option" where
  "get_subsurface h s parent c =
     (case set_parent s parent c of
        Refused \<Rightarrow> Some (emit [Ev_error ''bad_surface'' s] c)
      | Panics \<Rightarrow> None
      | Done c \<Rightarrow>
          (let c = on_surface s (\<lambda>d. d\<lparr>ps_sync := (case ps_sync d of None \<Rightarrow> Some True | Some b \<Rightarrow> Some b)\<rparr>) c
           in Some (hd_new_subsurface h s parent c)))"

datatype subsurface_req =
    Set_position i32 i32
  | Place_above surf
  | Place_below surf
  | Set_sync
  | Set_desync
  | Destroy_subsurface

definition reorder_request :: "surf \<Rightarrow> location \<Rightarrow> surf \<Rightarrow> comp \<Rightarrow> comp option" where
  "reorder_request s to sibling c =
     (case reorder s to sibling c of
        Done c' \<Rightarrow> Some c'
      | Refused \<Rightarrow> Some (emit [Ev_error ''bad_surface'' s] c)
      | Panics \<Rightarrow> None)"

definition store_sync :: "bool \<Rightarrow> surf \<Rightarrow> comp \<Rightarrow> comp option" where
  "store_sync b s c =
     (case ps_sync (cp_data c s) of
        None \<Rightarrow> None
      | Some _ \<Rightarrow> Some (on_surface s (\<lambda>d. d\<lparr>ps_sync := Some b\<rparr>) c))"

fun subsurface_request :: "surf \<Rightarrow> subsurface_req \<Rightarrow> comp \<Rightarrow> comp option" where
  "subsurface_request s (Set_position x y) c =
     Some (with_subsurface s (\<lambda>m. m\<lparr>cs_pending := (cs_pending m)\<lparr>ss_location :=
       client_point (cp_scale c) (point_new x y)\<rparr>\<rparr>) c)"
| "subsurface_request s (Place_above sibling) c = reorder_request s After sibling c"
| "subsurface_request s (Place_below sibling) c = reorder_request s Before sibling c"
| "subsurface_request s Set_sync c = store_sync True s c"
| "subsurface_request s Set_desync c = store_sync False s c"
| "subsurface_request s Destroy_subsurface c = Some c"

definition destroyed_subsurface :: "surf \<Rightarrow> comp \<Rightarrow> comp option" where
  "destroyed_subsurface s c =
     map_option (with_subsurface s (\<lambda>m. m\<lparr>cs_pending := subsurface_default, cs_current := subsurface_default\<rparr>))
       (store_sync True s (unset_parent s c))"

section \<open>Public functions\<close>

definition send_surface_state :: "surf \<Rightarrow> i32 \<Rightarrow> transform \<Rightarrow> comp \<Rightarrow> comp" where
  "send_surface_state s scale transform c =
     (if ps_version (cp_data c s) < 6 then c
      else (let (old_scale, old_transform) = (case ps_suggested (cp_data c s) of Some st \<Rightarrow> st | None \<Rightarrow> (1, Normal));
                c = (if old_scale \<noteq> scale then emit [Ev_preferred_scale s scale] c else c);
                c = (if old_transform \<noteq> transform then emit [Ev_preferred_transform s transform] c else c)
            in on_surface s (\<lambda>d. d\<lparr>ps_suggested := Some (scale, transform)\<rparr>) c))"

definition set_client_scale :: "fl \<Rightarrow> comp \<Rightarrow> comp" where
  "set_client_scale scale c = c\<lparr>cp_scale := scale\<rparr>"

section \<open>The invariant\<close>

lemma same_tree_comp [same_tree_ops]:
  "same_tree c (with_pending s f c)" "same_tree c (with_subsurface s g c)"
  "same_tree c (release_buffers s c)" "same_tree c (send_surface_state s sc t c)"
  "same_tree c (c\<lparr>cp_surfaces := ss\<rparr>)" "same_tree c (c\<lparr>cp_queue := q\<rparr>)"
  "same_tree c (c\<lparr>cp_regions := rg\<rparr>)" "same_tree c (c\<lparr>cp_scale := scl\<rparr>)"
  "same_tree c (c\<lparr>cp_barriers := bs\<rparr>)" "same_tree c (c\<lparr>cp_client_gone := g'\<rparr>)"
  "same_tree c (add_pre_commit_hook s i c)" "same_tree c (remove_pre_commit_hook s i c)"
  "same_tree c (add_post_commit_hook s i c)" "same_tree c (remove_post_commit_hook s i c)"
  "same_tree c (add_destruction_hook s i c)" "same_tree c (remove_destruction_hook s i c)"
  by (auto simp: same_tree_def with_pending_def with_subsurface_def release_buffers_def send_surface_state_def
      add_pre_commit_hook_def remove_pre_commit_hook_def add_post_commit_hook_def remove_post_commit_hook_def
      add_destruction_hook_def remove_destruction_hook_def Let_def case_prod_beta)

lemma tree_inv_ops:
  "tree_inv c \<Longrightarrow> same_tree c c' \<Longrightarrow> tree_inv c'"
  by (rule same_tree_inv)

text \<open>What is expected of the embedding compositor: its callbacks do not corrupt the tree.\<close>

definition handler_ok :: "handler \<Rightarrow> bool" where
  "handler_ok h \<longleftrightarrow>
     (\<forall>i s c. tree_inv c \<longrightarrow> tree_inv (hd_hook h i s c)) \<and>
     (\<forall>s c. tree_inv c \<longrightarrow> tree_inv (hd_commit h s c)) \<and>
     (\<forall>s c. tree_inv c \<longrightarrow> tree_inv (hd_new_surface h s c)) \<and>
     (\<forall>s p c. tree_inv c \<longrightarrow> tree_inv (hd_new_subsurface h s p c)) \<and>
     (\<forall>s c. tree_inv c \<longrightarrow> tree_inv (hd_destroyed h s c)) \<and>
     (\<forall>s c. \<not> ps_alive (cp_data c s) \<longrightarrow> \<not> ps_alive (cp_data (hd_destroyed h s c) s))"

lemma fold_inv: "(\<And>x c. P c \<Longrightarrow> P (f x c)) \<Longrightarrow> P c \<Longrightarrow> P (fold f xs c)"
  by (induction xs arbitrary: c) simp_all

lemma hooks_inv:
  assumes "handler_ok h" "tree_inv c"
  shows "tree_inv (invoke_pre_commit_hooks h s c)" "tree_inv (invoke_post_commit_hooks h s c)"
    "tree_inv (fold (\<lambda>i. hd_hook h i s) is c)"
  unfolding invoke_pre_commit_hooks_def invoke_post_commit_hooks_def
  using assms by (auto simp: handler_ok_def intro!: fold_inv[where P = tree_inv])

lemma transaction_apply_inv:
  assumes "handler_ok h"
  shows "tree_inv c \<Longrightarrow> tree_inv (transaction_apply h xs c)"
proof (induction xs arbitrary: c)
  case (Cons si rest)
  obtain s i where si: "si = (s, i)" by force
  have "tree_inv (surface_apply_state s i c)"
    by (rule tree_inv_ops[OF Cons.prems]) (rule same_tree_simple)
  then have "tree_inv (invoke_post_commit_hooks h s (surface_apply_state s i c))"
    by (rule hooks_inv(2)[OF assms])
  then have "tree_inv (hd_commit h s (invoke_post_commit_hooks h s (surface_apply_state s i c)))"
    using assms by (simp add: handler_ok_def)
  with Cons show ?case by (simp add: si)
qed simp


lemma blocker_cleared_inv:
  assumes "handler_ok h" "tree_inv c"
  shows "tree_inv (blocker_cleared h pid c)"
proof -
  have "tree_inv (snd (queue_take_ready pid c))"
    by (rule tree_inv_ops[OF assms(2)]) (simp add: queue_take_ready_def case_prod_beta same_tree_def)
  then show ?thesis
    unfolding blocker_cleared_def case_prod_beta Let_def
    by (intro fold_inv[where P = tree_inv]) (auto intro: transaction_apply_inv[OF assms(1)])
qed

lemma commit_inv:
  assumes "handler_ok h" "tree_inv c" "commit h pid n s c = Some c'"
  shows "tree_inv c'"
proof -
  obtain b c1 where c1: "commit_local n s c = Some (b, c1)"
    using assms(3) by (auto simp: commit_def split: option.splits)
  have i1: "tree_inv c1" by (rule tree_inv_ops[OF assms(2) same_tree_commit_local[OF c1]])
  have "tree_inv (on_surface s (\<lambda>d. d\<lparr>ps_pending_tx := t\<rparr>) c1)" for t
    by (rule tree_inv_ops[OF i1]) (rule same_tree_on_surface; simp)
  then have "tree_inv ((on_surface s (\<lambda>d. d\<lparr>ps_pending_tx := t\<rparr>) c1)\<lparr>cp_queue := q\<rparr>)" for t q
    by (rule tree_inv_ops) (simp add: same_tree_def)
  then show ?thesis
    using assms(1,3) c1 i1 blocker_cleared_inv
    by (auto simp: commit_def Let_def split: if_splits)
qed

lemma create_surface_inv:
  assumes "handler_ok h" "tree_inv c" "ps_children (cp_data c s) = []"
  shows "tree_inv (create_surface h v s c)"
proof -
  note I = tree_invD[OF assms(2)]
  define c1 where "c1 = on_surface s (\<lambda>d. d\<lparr>ps_children := ps_children d @ [s]\<rparr>)
     ((on_surface s (\<lambda>_. surface_data_new\<lparr>ps_alive := True, ps_version := v\<rparr>) c)\<lparr>cp_surfaces := cp_surfaces c @ [s]\<rparr>)"
  have s: "ps_parent (cp_data c s) = None" using I(7)[of s] assms(3) by auto
  have np: "ps_parent (cp_data c x) \<noteq> Some s" for x using I(3)[of x s] assms(3) by auto
  have notin: "s \<notin> set (ps_children (cp_data c x))" for x
    using I(5)[of s x] s assms(3) by (cases "x = s") auto
  have par: "ps_parent (cp_data c1 x) = ps_parent (cp_data c x)" for x
    using s by (simp add: c1_def surface_data_new_def on_surface_def)
  have ch: "ps_children (cp_data c1 x) = (if x = s then [s] else ps_children (cp_data c x))" for x
    by (simp add: c1_def surface_data_new_def on_surface_def)
  have rest: "x \<noteq> s \<Longrightarrow> cp_data c1 x = cp_data c x" for x
    by (simp add: c1_def on_surface_def)
  have "tree_inv c1"
  proof (rule tree_invI)
    show "finite {x. ps_parent (cp_data c1 x) \<noteq> None}" "acyclic (parent_rel c1)"
      using I(1,2) by (simp_all add: par parent_rel_def)
    show "x \<in> set (ps_children (cp_data c1 p)) \<and> ps_role (cp_data c1 x) = Some SUBSURFACE_ROLE"
      if "ps_parent (cp_data c1 x) = Some p" for x p
      using that I(3)[of x p] I(4)[of x p] s np[of x] by (cases "x = s") (auto simp: par ch rest)
    show "y = x \<or> ps_parent (cp_data c1 y) = Some x" if "y \<in> set (ps_children (cp_data c1 x))" for x y
      using that I(5)[of y x] by (auto simp: par ch split: if_splits)
    show "distinct (ps_children (cp_data c1 x))" for x using I(6)[of x] by (simp add: ch)
    show "x \<in> set (ps_children (cp_data c1 x)) \<or>
        ps_children (cp_data c1 x) = [] \<and> ps_parent (cp_data c1 x) = None \<and> \<not> ps_alive (cp_data c1 x)" for x
      using I(7)[of x] by (cases "x = s") (auto simp: par ch rest)
  qed
  moreover have "create_surface h v s c = hd_new_surface h s c1"
    by (simp add: create_surface_def Let_def c1_def on_surface_def)
  ultimately show ?thesis using assms(1) by (simp add: handler_ok_def)
qed

lemma orphan_fold:
  "cp_data (fold (\<lambda>child c. if child = s then c else on_surface child (\<lambda>d. d\<lparr>ps_parent := None\<rparr>) c) xs c) x
    = (if x \<in> set xs \<and> x \<noteq> s then (cp_data c x)\<lparr>ps_parent := None\<rparr> else cp_data c x)"
  by (induction xs arbitrary: c) auto

lemma orphan_children_inv:
  assumes "tree_inv c" "ps_parent (cp_data c s) = None" "\<not> ps_alive (cp_data c s)"
  shows "tree_inv (orphan_children s c)"
proof -
  note I = tree_invD[OF assms(1)]
  let ?c = "orphan_children s c"
  have par: "ps_parent (cp_data ?c x) = (if ps_parent (cp_data c x) = Some s then None else ps_parent (cp_data c x))" for x
    using I(3)[of x s] I(5)[of x s] assms(2)
    by (auto simp: orphan_children_def orphan_fold)
  have ch: "ps_children (cp_data ?c x) = (if x = s then [] else ps_children (cp_data c x))" for x
    by (simp add: orphan_children_def orphan_fold)
  have rest: "ps_role (cp_data ?c x) = ps_role (cp_data c x)" "ps_alive (cp_data ?c x) = ps_alive (cp_data c x)" for x
    by (simp_all add: orphan_children_def orphan_fold)
  show ?thesis
  proof (rule tree_invI)
    have "{x. ps_parent (cp_data ?c x) \<noteq> None} \<subseteq> {x. ps_parent (cp_data c x) \<noteq> None}" by (auto simp: par)
    then show "finite {x. ps_parent (cp_data ?c x) \<noteq> None}" using I(1) finite_subset by blast
    have "parent_rel ?c \<subseteq> parent_rel c" by (auto simp: parent_rel_def par split: if_splits)
    then show "acyclic (parent_rel ?c)" using I(2) acyclic_subset by blast
    show "x \<in> set (ps_children (cp_data ?c p)) \<and> ps_role (cp_data ?c x) = Some SUBSURFACE_ROLE"
      if "ps_parent (cp_data ?c x) = Some p" for x p
      using that I(3)[of x p] I(4)[of x p] by (auto simp: par ch rest split: if_splits)
    show "y = x \<or> ps_parent (cp_data ?c y) = Some x" if "y \<in> set (ps_children (cp_data ?c x))" for x y
      using that I(5)[of y x] by (auto simp: par ch split: if_splits)
    show "distinct (ps_children (cp_data ?c x))" for x using I(6)[of x] by (simp add: ch)
    show "x \<in> set (ps_children (cp_data ?c x)) \<or>
        ps_children (cp_data ?c x) = [] \<and> ps_parent (cp_data ?c x) = None \<and> \<not> ps_alive (cp_data ?c x)" for x
      using I(7)[of x] assms(2,3) by (auto simp: par ch rest)
  qed
qed

lemma destroyed_surface_inv:
  assumes "handler_ok h" "tree_inv c"
  shows "tree_inv (destroyed_surface h s c)"
proof -
  let ?c1 = "on_surface s (\<lambda>d. d\<lparr>ps_alive := False\<rparr>) c"
  let ?c2 = "(hd_destroyed h s ?c1)\<lparr>cp_surfaces := filter (\<lambda>x. x \<noteq> s) (cp_surfaces (hd_destroyed h s ?c1))\<rparr>"
  have "tree_inv ?c1"
    by (rule tree_inv_cong[OF assms(2)]) (use tree_invD(4)[OF assms(2)] in auto)
  then have "tree_inv (hd_destroyed h s ?c1)" using assms(1) by (simp add: handler_ok_def)
  then have i2: "tree_inv ?c2" by (rule tree_inv_ops) (simp add: same_tree_def)
  have "\<not> ps_alive (cp_data ?c1 s)" by simp
  then have d2: "\<not> ps_alive (cp_data ?c2 s)" using assms(1) by (simp add: handler_ok_def)
  have i3: "tree_inv (unset_parent s ?c2)" by (rule unset_parent_inv[OF i2])
  have "tree_inv (orphan_children s (unset_parent s ?c2))"
    by (rule orphan_children_inv[OF i3]) (use d2 in \<open>simp_all add: unset_parent_parts\<close>)
  then have "tree_inv (release_buffers s (orphan_children s (unset_parent s ?c2)))"
    by (rule tree_inv_ops) (rule same_tree_comp)
  then have "tree_inv (fold (\<lambda>i. hd_hook h i s) is (release_buffers s (orphan_children s (unset_parent s ?c2))))" for "is"
    by (rule hooks_inv(3)[OF assms(1)])
  then show ?thesis unfolding destroyed_surface_def cleanup_def Let_def .
qed


lemma get_subsurface_inv:
  assumes "handler_ok h" "tree_inv c" "get_subsurface h s p c = Some c'" "comp_alive c s" "comp_alive c p"
  shows "tree_inv c'"
proof (cases "set_parent s p c")
  case (Done c1)
  have i: "tree_inv c1"
    by (rule set_parent_inv[OF assms(2) Done]) (use assms(4,5) in \<open>simp_all add: comp_alive_def\<close>)
  have "tree_inv (on_surface s (\<lambda>d. d\<lparr>ps_sync := (case ps_sync d of None \<Rightarrow> Some True | Some b \<Rightarrow> Some b)\<rparr>) c1)"
    by (rule tree_inv_cong[OF i]) (use tree_invD(4)[OF i] in auto)
  then show ?thesis using assms(1,3) Done by (auto simp: get_subsurface_def Let_def handler_ok_def)
next
  case Refused
  then show ?thesis
    using assms(2,3) tree_inv_ops[OF assms(2) same_tree_simple(7)] by (auto simp: get_subsurface_def)
qed (use assms(3) in \<open>simp add: get_subsurface_def\<close>)

lemma store_sync_inv:
  assumes "store_sync b s c = Some c'" "tree_inv c"
  shows "tree_inv c'"
  by (rule tree_inv_cong[OF assms(2)])
    (use assms(1) tree_invD(4)[OF assms(2)] in \<open>auto simp: store_sync_def split: option.splits if_splits\<close>)

lemma set_role_inv:
  assumes "set_role s role c = Some c'" "tree_inv c"
  shows "tree_inv c'"
  by (rule tree_inv_cong[OF assms(2)])
    (use assms(1) tree_invD(4)[OF assms(2)] in \<open>fastforce simp: set_role_def Let_def split: if_splits\<close>)+

lemma reorder_request_inv: "reorder_request s to x c = Some c' \<Longrightarrow> tree_inv c \<Longrightarrow> tree_inv c'"
  by (auto simp: reorder_request_def split: outcome.splits
      intro: reorder_inv tree_inv_ops[OF _ same_tree_simple(7)])

lemma subsurface_request_inv: "subsurface_request s r c = Some c' \<Longrightarrow> tree_inv c \<Longrightarrow> tree_inv c'"
  by (cases r) (auto intro: reorder_request_inv store_sync_inv tree_inv_ops[OF _ same_tree_comp(2)])

lemma destroyed_subsurface_inv: "destroyed_subsurface s c = Some c' \<Longrightarrow> tree_inv c \<Longrightarrow> tree_inv c'"
  by (auto simp: destroyed_subsurface_def
      intro!: tree_inv_ops[OF _ same_tree_comp(2)] intro: store_sync_inv unset_parent_inv)

lemma region_request_inv: "tree_inv c \<Longrightarrow> tree_inv (region_request i r c)"
  by (cases r) (auto intro: tree_inv_ops[OF _ same_tree_comp(7)])

lemma surface_request_inv:
  assumes "handler_ok h" "tree_inv c" "surface_request h pid n s r c = Some c'"
  shows "tree_inv c'"
proof (cases r)
  case (Attach b x y)
  have "tree_inv (if q then emit es c else c)" for q es
    using assms(2) tree_inv_ops[OF assms(2) same_tree_simple(7)] by simp
  then show ?thesis
    using assms(3) Attach by (auto simp: surface_attach_def Let_def intro!: tree_inv_ops[OF _ same_tree_comp(1)])
next
  case Commit_surface
  have "tree_inv (invoke_pre_commit_hooks h s (with_pending s (\<lambda>a. a\<lparr>sa_client_scale := cp_scale c\<rparr>) c))"
    by (intro hooks_inv(1)[OF assms(1)] tree_inv_ops[OF assms(2) same_tree_comp(1)])
  then show ?thesis using assms(3) Commit_surface commit_inv[OF assms(1)] by (simp add: Let_def)
qed (use assms(2,3) in \<open>auto intro!: tree_inv_ops[OF assms(2) same_tree_comp(1)] tree_inv_ops[OF assms(2) same_tree_simple(7)]
    split: option.splits if_splits\<close>)

section \<open>Everything a client and the compositor can do\<close>

inductive comp_step :: "handler \<Rightarrow> (surf \<Rightarrow> u32) \<Rightarrow> nat \<Rightarrow> comp \<Rightarrow> comp \<Rightarrow> bool"
  for h pid n where
  create: "ps_children (cp_data c s) = [] \<Longrightarrow> comp_step h pid n c (create_surface h v s c)"
| request: "comp_alive c s \<Longrightarrow> surface_request h pid n s r c = Some c' \<Longrightarrow> comp_step h pid n c c'"
| destroy: "comp_alive c s \<Longrightarrow> comp_step h pid n c (destroyed_surface h s c)"
| region: "comp_step h pid n c (create_region i c)"
| region_request: "comp_step h pid n c (region_request i rr c)"
| subsurface: "comp_alive c s \<Longrightarrow> comp_alive c p \<Longrightarrow> get_subsurface h s p c = Some c' \<Longrightarrow> comp_step h pid n c c'"
| subsurface_request: "subsurface_request s sr c = Some c' \<Longrightarrow> comp_step h pid n c c'"
| subsurface_destroyed: "destroyed_subsurface s c = Some c' \<Longrightarrow> comp_step h pid n c c'"
| role: "set_role s role c = Some c' \<Longrightarrow> comp_step h pid n c c'"
| blocker: "comp_step h pid n c (add_blocker s b c)"
| signal: "comp_step h pid n c (c\<lparr>cp_barriers := barrier_signal b (cp_barriers c)\<rparr>)"
| cleared: "comp_step h pid n c (blocker_cleared h pid c)"
| suggest: "comp_step h pid n c (send_surface_state s scale t c)"
| client_scale: "comp_step h pid n c (set_client_scale sc c)"
| gone: "comp_step h pid n c (c\<lparr>cp_client_gone := True\<rparr>)"

inductive comp_reachable :: "handler \<Rightarrow> (surf \<Rightarrow> u32) \<Rightarrow> nat \<Rightarrow> comp \<Rightarrow> bool"
  for h pid n where
  start: "(\<And>s. cp_data c s = surface_data_new) \<Longrightarrow> comp_reachable h pid n c"
| step: "comp_reachable h pid n c \<Longrightarrow> comp_step h pid n c c' \<Longrightarrow> comp_reachable h pid n c'"

lemma comp_step_inv:
  assumes "handler_ok h" "comp_step h pid n c c'" "tree_inv c"
  shows "tree_inv c'"
  using assms(2)
proof (cases rule: comp_step.cases)
  case (create s v)
  then show ?thesis using create_surface_inv assms by blast
next
  case (request s r)
  then show ?thesis using surface_request_inv assms by blast
next
  case (destroy s)
  then show ?thesis using destroyed_surface_inv assms by blast
next
  case (subsurface s p)
  then show ?thesis using get_subsurface_inv assms by blast
next
  case (cleared)
  then show ?thesis using blocker_cleared_inv assms by blast
next
  case (region i)
  then show ?thesis using tree_inv_ops[OF assms(3) same_tree_comp(7)] by (simp add: create_region_def)
next
  case (client_scale sc)
  then show ?thesis using tree_inv_ops[OF assms(3) same_tree_comp(8)] by (simp add: set_client_scale_def)
qed (use assms(3) in \<open>auto intro: region_request_inv subsurface_request_inv destroyed_subsurface_inv set_role_inv
    tree_inv_ops[OF _ same_tree_simple(5)] tree_inv_ops[OF _ same_tree_comp(4)]
    tree_inv_ops[OF _ same_tree_comp(9)] tree_inv_ops[OF _ same_tree_comp(10)]\<close>)

lemma tree_inv_start: "(\<And>s. cp_data c s = surface_data_new) \<Longrightarrow> tree_inv c"
  by (rule tree_invI) (simp_all add: surface_data_new_def parent_rel_def acyclic_def)

lemma comp_reachable_inv:
  assumes "handler_ok h"
  shows "comp_reachable h pid n c \<Longrightarrow> tree_inv c"
  by (induction rule: comp_reachable.induct) (auto intro: tree_inv_start comp_step_inv[OF assms])

text \<open>C5. Whatever the clients and the embedding compositor do, in any order, the surfaces stay a
  consistent, acyclic forest; so the walks to the root return, with the right answers, and no
  commit runs out of depth or fails.\<close>

theorem compositor_tree_safe:
  assumes "handler_ok h" "comp_reachable h pid n c"
  shows "tree_inv c
    \<and> is_ancestor c a b = Some ((b, a) \<in> (parent_rel c)\<^sup>+)
    \<and> is_effectively_sync c s = Some (\<exists>x. (s, x) \<in> (parent_rel c)\<^sup>* \<and> ps_sync (cp_data c x) = Some True)
    \<and> (card {x. ps_parent (cp_data c x) \<noteq> None} \<le> m \<longrightarrow> (\<exists>c'. commit h pid m s c = Some c' \<and> tree_inv c'))"
proof -
  have inv: "tree_inv c" by (rule comp_reachable_inv[OF assms])
  have "\<exists>c'. commit h pid m s c = Some c'" if m: "card {x. ps_parent (cp_data c x) \<noteq> None} \<le> m"
    using commit_local_total[OF inv m, of s] by (auto simp: commit_def Let_def split: option.split)
  then show ?thesis
    using inv is_ancestor_exact[OF inv] is_effectively_sync_exact[OF inv] commit_inv[OF assms(1) inv] by blast
qed

definition quiet_handler :: handler where
  "quiet_handler = \<lparr>hd_hook = (\<lambda>_ _ c. c), hd_commit = (\<lambda>_ c. c), hd_new_surface = (\<lambda>_ c. c),
                    hd_new_subsurface = (\<lambda>_ _ c. c), hd_destroyed = (\<lambda>_ c. c)\<rparr>"

lemma quiet_handler_ok: "handler_ok quiet_handler"
  by (simp add: handler_ok_def quiet_handler_def)

theorem compositor_tree_safe_witness:
  "let c = create_surface quiet_handler 4 2 (create_surface quiet_handler 4 1
             (demo_tree\<lparr>cp_data := (\<lambda>_. surface_data_new), cp_surfaces := []\<rparr>))
   in cp_surfaces c = [1, 2] \<and> tree_inv c \<and> is_ancestor c 1 2 = Some ((2, 1) \<in> (parent_rel c)\<^sup>+)"
proof -
  let ?c0 = "demo_tree\<lparr>cp_data := (\<lambda>_. surface_data_new), cp_surfaces := []\<rparr>"
  let ?c1 = "create_surface quiet_handler 4 1 ?c0"
  let ?c2 = "create_surface quiet_handler 4 2 ?c1"
  have 0: "comp_reachable quiet_handler of_nat 5 ?c0" by (rule comp_reachable.start) simp
  have 1: "comp_reachable quiet_handler of_nat 5 ?c1"
    by (rule comp_reachable.step[OF 0 comp_step.create]) (simp add: surface_data_new_def)
  have 2: "comp_reachable quiet_handler of_nat 5 ?c2"
    by (rule comp_reachable.step[OF 1 comp_step.create])
      (simp add: surface_data_new_def create_surface_def quiet_handler_def Let_def on_surface_def)
  have "cp_surfaces ?c2 = [1, 2]"
    by (simp add: create_surface_def quiet_handler_def on_surface_def Let_def)
  then show ?thesis
    using compositor_tree_safe[OF quiet_handler_ok 2, of 1 2] by (simp only: Let_def)
qed

section \<open>Synchronised commits\<close>

lemma commit_keeps_current: "cs_current (fst (cache_commit k (Some i) m)) = cs_current m"
  by (simp add: cache_commit_def Let_def case_prod_beta)

lemma find_commit:
  "find (\<lambda>x. cache_type_of x = t) (map (fst \<circ> any_commit i) mc)
    = map_option (fst \<circ> any_commit i) (find (\<lambda>x. cache_type_of x = t) mc)"
  by (induction mc) auto

lemma get_attributes_commit:
  "cs_current (get_attributes (fst (multi_cache_commit (Some i) mc))) = cs_current (get_attributes mc)"
proof (cases "find (\<lambda>x. cache_type_of x = T_attributes) mc")
  case None
  then show ?thesis
    by (simp add: get_attributes_def find_or_insert_def multi_cache_commit_def find_commit)
next
  case (Some v)
  then have "cache_type_of v = T_attributes" by (auto dest!: find_Some_iff[THEN iffD1])
  then obtain m where "v = Attributes_cache m" by (cases v) auto
  then show ?thesis
    using Some commit_keeps_current[of attributes_cacheable i m]
    by (simp add: get_attributes_def find_or_insert_def multi_cache_commit_def find_commit apfst_def map_prod_def case_prod_beta)
qed

text \<open>What a commit of a synchronised surface may not touch.\<close>

definition same_current :: "comp \<Rightarrow> comp \<Rightarrow> bool" where
  "same_current c c' \<longleftrightarrow> (\<forall>x. current_attributes c' x = current_attributes c x) \<and> cp_queue c' = cp_queue c
     \<and> cp_client_gone c' = cp_client_gone c"

lemma same_current_refl [simp]: "same_current c c"
  by (simp add: same_current_def)

lemma same_current_trans: "same_current a b \<Longrightarrow> same_current b c \<Longrightarrow> same_current a c"
  by (simp add: same_current_def)

lemma same_current_ops:
  "same_current c (surface_cache_commit s (Some i) c)" "same_current c (insert_own_state s i c)"
  "same_current c (bump_txid s c)" "same_current c (merge_child_tx s p c)"
  by (auto simp: same_current_def current_attributes_def surface_cache_commit_def insert_own_state_def
      bump_txid_def merge_child_tx_def Let_def case_prod_beta get_attributes_commit on_surface_def emit_def)

lemma same_current_commit_sync_surface: "same_current c (commit_sync_surface s p c)"
  unfolding commit_sync_surface_def Let_def by (meson same_current_ops same_current_trans)

lemma same_current_commit_sync_tree:
  "commit_sync_surface_tree n p ss c = Some c' \<Longrightarrow> same_current c c'"
proof (induction n p ss c arbitrary: c' rule: commit_sync_surface_tree.induct)
  case (3 n p s ss c)
  then obtain c1 where c1: "commit_sync_surface_tree n s (get_children s c) c = Some c1"
    by (auto split: option.splits)
  have "same_current c c1" by (rule 3(1)[OF c1])
  moreover have "same_current (commit_sync_surface s p c1) c'"
    by (rule 3(2)[OF c1]) (use 3(3) c1 in simp)
  ultimately show ?case using same_current_commit_sync_surface same_current_trans by blast
qed auto

lemma same_current_commit_children:
  "commit_children n is_sync s ch c = Some c' \<Longrightarrow> same_current c c'"
proof (induction n is_sync s ch c arbitrary: c' rule: commit_children.induct)
  case (2 n is_sync s child children c)
  show ?case
  proof (cases "\<not> is_sync \<and> ps_sync (cp_data c child) = Some True")
    case True
    with 2(4) obtain c1 where c1: "commit_sync_surface_tree n s [child] c = Some c1"
      "commit_children n is_sync s children c1 = Some c'"
      by (auto simp: Let_def split: option.splits)
    from 2(1)[OF refl True c1] same_current_commit_sync_tree[OF c1(1)] show ?thesis
      by (rule same_current_trans[rotated])
  next
    case False
    show ?thesis
    proof (cases "is_sync \<or> ps_sync (cp_data c child) = Some True")
      case True
      from 2(2)[OF refl False True] 2(4) False True
      have "same_current (bump_txid child (merge_child_tx child s c)) c'" by (simp add: Let_def)
      then show ?thesis by (meson same_current_ops same_current_trans)
    next
      case False': False
      from 2(3)[OF refl False False'] 2(4) False False' show ?thesis by (simp add: Let_def)
    qed
  qed
qed simp

text \<open>A commit of a synchronised subsurface only caches: the current state of no surface changes,
  nothing is queued, and the compositor is not called.\<close>

theorem sync_commit_only_caches:
  assumes "is_effectively_sync c s = Some True" "commit h pid n s c = Some c'"
  shows "(\<forall>x. current_attributes c' x = current_attributes c x) \<and> cp_queue c' = cp_queue c
    \<and> (\<forall>h'. commit h' pid n s c = Some c')"
proof -
  obtain c1 where c1: "commit_local n s c = Some (True, c1)" and c': "c' = c1"
    using assms by (auto simp: commit_def commit_local_def Let_def split: option.splits if_splits)
  obtain c2 where "commit_children n True s (get_children s c)
      (surface_cache_commit s (Some (ps_txid (cp_data c s))) c) = Some c2"
    "c1 = bump_txid s (insert_own_state s (ps_txid (cp_data c s)) c2)"
    using c1 assms(1) by (auto simp: commit_local_def Let_def split: option.splits)
  then have "same_current c c1"
    using same_current_commit_children by (meson same_current_ops same_current_trans)
  then show ?thesis using c1 c' by (simp add: same_current_def commit_def)
qed

theorem sync_commit_only_caches_witness:
  "\<exists>c'. commit quiet_handler of_nat 3 2 demo_tree = Some c' \<and> cp_queue c' = []
      \<and> current_attributes c' 2 = current_attributes demo_tree 2"
proof -
  have s: "is_effectively_sync demo_tree 2 = Some True"
    by (subst is_effectively_sync.simps) (simp add: demo_tree_def)
  have "commit_local 3 2 demo_tree \<noteq> None"
  proof (rule commit_local_total[OF tree_inv_demo])
    have "{x. ps_parent (cp_data demo_tree x) \<noteq> None} = {2}" by (auto simp: demo_parent)
    then show "card {x. ps_parent (cp_data demo_tree x) \<noteq> None} \<le> 3" by simp
  qed
  then obtain b c1 where "commit_local 3 2 demo_tree = Some (b, c1)" by auto
  then have "\<exists>c'. commit quiet_handler of_nat 3 2 demo_tree = Some c'" by (simp add: commit_def Let_def)
  then obtain c' where c': "commit quiet_handler of_nat 3 2 demo_tree = Some c'" ..
  show ?thesis using sync_commit_only_caches[OF s c'] c' by (auto simp: demo_tree_def)
qed


section \<open>Desynchronised commits\<close>

definition tx_keys :: "comp \<Rightarrow> surf \<Rightarrow> surf set" where
  "tx_keys c s = fst ` set (ts_surfaces (ps_pending_tx (cp_data c s)))"

lemma ts_insert_keys: "fst ` set (ts_surfaces (ts_insert s i t)) = insert s (fst ` set (ts_surfaces t))"
  by (simp add: ts_insert_def insert_surface_keys)

lemma ts_absorb_keys:
  "fst ` set (ts_surfaces (ts_absorb alive mine into))
    = fst ` set (ts_surfaces into) \<union> {x \<in> fst ` set (ts_surfaces mine). alive x}"
proof -
  have "fst ` set (ts_surfaces (fold (\<lambda>(s, i) t. if alive s then ts_insert s i t else t) xs t))
      = fst ` set (ts_surfaces t) \<union> {x \<in> fst ` set xs. alive x}" for xs and t :: "('a, 'b) transaction_state"
  proof (induction xs arbitrary: t)
    case (Cons x xs)
    then show ?case by (cases x) (auto simp: ts_insert_keys)
  qed simp
  then show ?thesis by (simp add: ts_absorb_def Let_def)
qed

lemma tx_keys_ops:
  "tx_keys (surface_cache_commit s i c) x = tx_keys c x"
  "tx_keys (insert_own_state s j c) x = (if x = s then insert s (tx_keys c x) else tx_keys c x)"
  "tx_keys (bump_txid s c) x = tx_keys c x"
  "s \<noteq> p \<Longrightarrow> tx_keys (merge_child_tx s p c) x =
     (if x = p then tx_keys c p \<union> {y \<in> tx_keys c s. comp_alive c y} else if x = s then {} else tx_keys c x)"
  by (auto simp: tx_keys_def surface_cache_commit_def insert_own_state_def bump_txid_def merge_child_tx_def
      Let_def case_prod_beta ts_insert_keys ts_absorb_keys ts_default_def)

lemma tx_keys_commit_sync_surface:
  assumes "s \<noteq> p"
  shows "tx_keys (commit_sync_surface s p c) x =
     (if x = p then tx_keys c p \<union> {y \<in> insert s (tx_keys c s). comp_alive c y}
      else if x = s then {} else tx_keys c x)"
proof -
  have a: "comp_alive (insert_own_state s i (surface_cache_commit s j c)) = comp_alive c" for i j
    by (metis same_treeD(8) same_tree_simple(1,3) same_tree_trans)
  show ?thesis
    using assms by (auto simp: commit_sync_surface_def Let_def tx_keys_ops a)
qed

text \<open>The surfaces at or below some surfaces, and those of the synchronised tree below a surface.\<close>

definition at_or_below :: "comp \<Rightarrow> surf set \<Rightarrow> surf set" where
  "at_or_below c X = {y. \<exists>x\<in>X. (y, x) \<in> (parent_rel c)\<^sup>*}"

definition sync_children :: "comp \<Rightarrow> surf \<Rightarrow> surf set" where
  "sync_children c s = {x \<in> set (get_children s c). ps_sync (cp_data c x) = Some True}"

lemma at_or_below_empty [simp]: "at_or_below c {} = {}"
  by (simp add: at_or_below_def)

lemma at_or_below_insert: "at_or_below c (insert x X) = at_or_below c {x} \<union> at_or_below c X"
  by (auto simp: at_or_below_def)

lemma at_or_below_same: "same_tree c c' \<Longrightarrow> at_or_below c' X = at_or_below c X"
  by (simp add: at_or_below_def same_treeD(6))

lemma at_or_below_child:
  assumes "tree_inv c"
  shows "at_or_below c {s} = insert s (at_or_below c (set (get_children s c)))"
proof (intro set_eqI iffI)
  fix z assume "z \<in> at_or_below c {s}"
  then have "(z, s) \<in> (parent_rel c)\<^sup>*" by (simp add: at_or_below_def)
  then show "z \<in> insert s (at_or_below c (set (get_children s c)))"
  proof (cases rule: rtranclE)
    case (step x)
    then have "x \<in> set (get_children s c)"
      using tree_invD(2,3)[OF assms] by (auto simp: parent_rel_def get_children_def acyclic_def)
    then show ?thesis using step(1) by (auto simp: at_or_below_def)
  qed simp
qed (use child_parent[OF assms] in \<open>auto simp: at_or_below_def intro: rtrancl_into_rtrancl\<close>)

lemma parent_not_below:
  assumes "tree_inv c" "set ss \<subseteq> set (get_children p c)"
  shows "p \<notin> at_or_below c (set ss)"
proof
  assume "p \<in> at_or_below c (set ss)"
  then obtain x where x: "x \<in> set ss" "(p, x) \<in> (parent_rel c)\<^sup>*" by (auto simp: at_or_below_def)
  then have "(x, p) \<in> parent_rel c" using assms(2) child_parent[OF assms(1)] by auto
  then have "(p, p) \<in> (parent_rel c)\<^sup>+" using x(2) by auto
  then show False using tree_invD(2)[OF assms(1)] by (auto simp: acyclic_def)
qed

text \<open>
  \<open>collected c D X\<close>: what the transactions of the surfaces in \<open>D\<close> and these surfaces themselves contribute
  to the transaction \<open>X\<close> that they are merged into.
\<close>

definition collected :: "comp \<Rightarrow> surf set \<Rightarrow> surf set \<Rightarrow> surf set" where
  "collected c D X = X \<union> {y. comp_alive c y \<and> (y \<in> D \<or> (\<exists>z\<in>D. y \<in> tx_keys c z))}"

lemma in_collected: "y \<in> collected c D X \<longleftrightarrow> y \<in> X \<or> comp_alive c y \<and> (y \<in> D \<or> (\<exists>z\<in>D. y \<in> tx_keys c z))"
  by (simp add: collected_def)

definition moved_into :: "surf \<Rightarrow> surf set \<Rightarrow> comp \<Rightarrow> comp \<Rightarrow> bool" where
  "moved_into p D c c' \<longleftrightarrow> tx_keys c' p = collected c D (tx_keys c p) \<and> (\<forall>z\<in>D. tx_keys c' z = {}) \<and>
     (\<forall>z. z \<noteq> p \<longrightarrow> z \<notin> D \<longrightarrow> tx_keys c' z = tx_keys c z)"

lemma moved_intoD:
  assumes "moved_into p D c c'"
  shows "tx_keys c' p = collected c D (tx_keys c p)" "z \<in> D \<Longrightarrow> tx_keys c' z = {}"
    "z \<noteq> p \<Longrightarrow> z \<notin> D \<Longrightarrow> tx_keys c' z = tx_keys c z"
  using assms unfolding moved_into_def by simp_all

lemma moved_intoI:
  assumes "\<And>y. y \<in> tx_keys c' p \<longleftrightarrow> y \<in> collected c D (tx_keys c p)" "\<And>z. z \<in> D \<Longrightarrow> tx_keys c' z = {}"
    "\<And>z. z \<noteq> p \<Longrightarrow> z \<notin> D \<Longrightarrow> tx_keys c' z = tx_keys c z"
  shows "moved_into p D c c'"
  unfolding moved_into_def using assms by (intro conjI set_eqI ballI allI impI) simp_all

lemma moved_into_none [simp]: "moved_into p {} c c"
  by (simp add: moved_into_def collected_def)

text \<open>Moving one part after the other moves both.\<close>

lemma moved_into_trans:
  assumes 1: "moved_into p D c c1" and 2: "moved_into p E c1 c2" and p: "p \<notin> D \<union> E" and alive: "comp_alive c1 = comp_alive c"
  shows "moved_into p (D \<union> E) c c2"
proof -
  have rest: "y \<in> tx_keys c1 z \<longleftrightarrow> z \<notin> D \<and> y \<in> tx_keys c z" if "z \<in> E" for y z
  proof (cases "z \<in> D")
    case False
    have "z \<noteq> p" using that p by blast
    from moved_intoD(3)[OF 1 this False] show ?thesis using False by simp
  qed (simp add: moved_intoD(2)[OF 1])
  show ?thesis
  proof (rule moved_intoI)
    fix y
    have "(\<exists>z\<in>E. y \<in> tx_keys c1 z) \<longleftrightarrow> (\<exists>z\<in>E. z \<notin> D \<and> y \<in> tx_keys c z)"
      by (rule bex_cong[OF refl rest])
    then have "y \<in> tx_keys c2 p \<longleftrightarrow> y \<in> collected c D (tx_keys c p) \<or> comp_alive c y \<and> (y \<in> E \<or> (\<exists>z\<in>E. z \<notin> D \<and> y \<in> tx_keys c z))"
      by (simp only: moved_intoD(1)[OF 2] moved_intoD(1)[OF 1] in_collected[of y c1] alive)
    then show "y \<in> tx_keys c2 p \<longleftrightarrow> y \<in> collected c (D \<union> E) (tx_keys c p)"
      unfolding in_collected by blast
  next
    fix z assume z: "z \<in> D \<union> E"
    show "tx_keys c2 z = {}"
    proof (cases "z \<in> E")
      case False
      then have "z \<in> D" "z \<noteq> p" using z p by auto
      then show ?thesis using moved_intoD(3)[OF 2 _ False] moved_intoD(2)[OF 1] by simp
    qed (rule moved_intoD(2)[OF 2])
  next
    fix z assume "z \<noteq> p" "z \<notin> D \<union> E"
    then show "tx_keys c2 z = tx_keys c z" using moved_intoD(3)[OF 2, of z] moved_intoD(3)[OF 1, of z] by simp
  qed
qed

text \<open>A surface hands over what its own subtree handed to it.\<close>

lemma moved_into_commit_sync_surface:
  assumes 1: "moved_into s D c c1" and ne: "s \<noteq> p" "p \<notin> D" "s \<notin> D" and alive: "comp_alive c1 = comp_alive c"
  shows "moved_into p (insert s D) c (commit_sync_surface s p c1)"
proof -
  have k: "tx_keys (commit_sync_surface s p c1) x =
     (if x = p then tx_keys c1 p \<union> {y \<in> insert s (tx_keys c1 s). comp_alive c y} else if x = s then {} else tx_keys c1 x)" for x
    using tx_keys_commit_sync_surface[OF ne(1), of c1 x] alive by simp
  have kp: "tx_keys c1 p = tx_keys c p" using moved_intoD(3)[OF 1, of p] ne by simp
  show ?thesis
  proof (rule moved_intoI)
    fix y
    have "y \<in> tx_keys (commit_sync_surface s p c1) p \<longleftrightarrow> y \<in> tx_keys c p \<or> (y = s \<or> y \<in> collected c D (tx_keys c s)) \<and> comp_alive c y"
      by (simp only: k kp moved_intoD(1)[OF 1]) simp
    then show "y \<in> tx_keys (commit_sync_surface s p c1) p \<longleftrightarrow> y \<in> collected c (insert s D) (tx_keys c p)"
      unfolding in_collected by blast
  next
    fix z assume z: "z \<in> insert s D"
    then show "tx_keys (commit_sync_surface s p c1) z = {}"
      using ne moved_intoD(2)[OF 1, of z] by (auto simp only: k if_False if_True split: if_split)
  next
    fix z assume "z \<noteq> p" "z \<notin> insert s D"
    then show "tx_keys (commit_sync_surface s p c1) z = tx_keys c z" using moved_intoD(3)[OF 1, of z] by (simp add: k)
  qed
qed

text \<open>
  Committing the trees of some children moves the whole trees into the transaction of the parent,
  and touches no transaction outside them.
\<close>

lemma tx_keys_commit_sync_tree:
  assumes "tree_inv c" "set ss \<subseteq> set (get_children p c)" "commit_sync_surface_tree n p ss c = Some c'"
  shows "moved_into p (at_or_below c (set ss)) c c'"
  using assms
proof (induction n p ss c arbitrary: c' rule: commit_sync_surface_tree.induct)
  case (3 n p s ss c)
  note inv = 3(3)
  obtain c1 where c1: "commit_sync_surface_tree n s (get_children s c) c = Some c1"
    using 3(5) by (auto split: option.splits)
  let ?c2 = "commit_sync_surface s p c1"
  have st1: "same_tree c c1" by (rule same_tree_commit_sync_tree[OF c1])
  have st: "same_tree c ?c2" using st1 same_tree_commit_sync_surface same_tree_trans by blast
  have rest: "commit_sync_surface_tree (Suc n) p ss ?c2 = Some c'" using 3(5) c1 by simp
  have np: "p \<notin> at_or_below c {s}" "p \<notin> at_or_below c (set ss)"
    using parent_not_below[OF inv, of "[s]" p] parent_not_below[OF inv, of ss p] 3(4) by auto
  have own: "s \<noteq> p" "p \<notin> at_or_below c (set (get_children s c))" "s \<notin> at_or_below c (set (get_children s c))"
    using np(1) at_or_below_child[OF inv, of s] parent_not_below[OF inv subset_refl, of s] by auto
  have "moved_into s (at_or_below c (set (get_children s c))) c c1" by (rule 3(1)[OF inv subset_refl c1])
  from moved_into_commit_sync_surface[OF this own same_treeD(8)[OF st1]]
  have first: "moved_into p (at_or_below c {s}) c ?c2" by (simp add: at_or_below_child[OF inv])
  have "moved_into p (at_or_below ?c2 (set ss)) ?c2 c'"
    using 3(2)[OF c1 same_tree_inv[OF st inv] _ rest] 3(4) same_treeD(7)[OF st] by simp
  then have "moved_into p (at_or_below c (set ss)) ?c2 c'" by (simp add: at_or_below_same[OF st])
  from moved_into_trans[OF first this _ same_treeD(8)[OF st]] np show ?case
    by (simp add: at_or_below_insert[of c s "set ss"])
qed auto

lemma tx_keys_commit_children:
  assumes "tree_inv c" "set ss \<subseteq> set (get_children s c)" "commit_children n False s ss c = Some c'"
  shows "moved_into s (at_or_below c {x \<in> set ss. ps_sync (cp_data c x) = Some True}) c c'"
  using assms
proof (induction ss arbitrary: c)
  case (Cons x xs)
  have np: "s \<notin> at_or_below c {x \<in> set xs. ps_sync (cp_data c x) = Some True}" "s \<notin> at_or_below c {x}"
    using parent_not_below[OF Cons.prems(1), of "x # xs" s] Cons.prems(2) by (auto simp: at_or_below_def)
  show ?case
  proof (cases "ps_sync (cp_data c x) = Some True")
    case True
    then obtain c1 where c1: "commit_sync_surface_tree n s [x] c = Some c1"
      "commit_children n False s xs c1 = Some c'"
      using Cons.prems(3) by (auto simp: Let_def split: option.splits)
    note st = same_tree_commit_sync_tree[OF c1(1)]
    have 1: "moved_into s (at_or_below c {x}) c c1"
      using tx_keys_commit_sync_tree[OF Cons.prems(1) _ c1(1)] Cons.prems(2) by simp
    have "moved_into s (at_or_below c1 {x \<in> set xs. ps_sync (cp_data c1 x) = Some True}) c1 c'"
      by (rule Cons.IH[OF same_tree_inv[OF st Cons.prems(1)] _ c1(2)])
        (use Cons.prems(2) same_treeD(7)[OF st] in auto)
    then have "moved_into s (at_or_below c {x \<in> set xs. ps_sync (cp_data c x) = Some True}) c1 c'"
      by (simp add: at_or_below_same[OF st] same_treeD(4)[OF st])
    from moved_into_trans[OF 1 this _ same_treeD(8)[OF st]] np
    have "moved_into s (at_or_below c {x} \<union> at_or_below c {x \<in> set xs. ps_sync (cp_data c x) = Some True}) c c'" by simp
    moreover have "{y \<in> set (x # xs). ps_sync (cp_data c y) = Some True} = insert x {y \<in> set xs. ps_sync (cp_data c y) = Some True}"
      using True by auto
    ultimately show ?thesis
      by (simp add: at_or_below_insert[of c x "{y \<in> set xs. ps_sync (cp_data c y) = Some True}"])
  next
    case False
    then have "commit_children n False s xs c = Some c'" using Cons.prems(3) by (simp add: Let_def)
    moreover have "{y \<in> set (x # xs). ps_sync (cp_data c y) = Some True} = {y \<in> set xs. ps_sync (cp_data c y) = Some True}"
      using False by auto
    ultimately show ?thesis using Cons.IH[OF Cons.prems(1)] Cons.prems(2) by simp
  qed
qed simp

text \<open>C13. A desynchronised commit is atomic over its synchronised tree: it puts exactly one transaction at the
  end of the queue before the queue is looked at, with a state of the surface itself and every living
  surface that is named in the pending transaction of a surface at or below one of its synchronised
  children; it names no surface that is not in this tree or in one of these transactions, new
  transactions start for all of them, and the pending transactions of all other surfaces stay.\<close>

theorem desync_commit_atomic:
  assumes "tree_inv c" "is_effectively_sync c s = Some False" "\<not> cp_client_gone c" "commit h pid n s c = Some c'"
  defines "D \<equiv> at_or_below c (sync_children c s)"
  shows "\<exists>c1 tx. c' = blocker_cleared h pid c1 \<and> cp_queue c1 = cp_queue c @ [tx] \<and>
    insert s (tx_keys c s) \<union> {y. comp_alive c y \<and> (\<exists>z\<in>D. y \<in> tx_keys c z)} \<subseteq> fst ` set (ts_surfaces tx) \<and>
    fst ` set (ts_surfaces tx) \<subseteq> insert s (tx_keys c s) \<union> {y. comp_alive c y \<and> (y \<in> D \<or> (\<exists>z\<in>D. y \<in> tx_keys c z))} \<and>
    (\<forall>z\<in>insert s D. tx_keys c1 z = {}) \<and> (\<forall>z. z \<notin> insert s D \<longrightarrow> tx_keys c1 z = tx_keys c z)"
proof -
  let ?c0 = "surface_cache_commit s (Some (ps_txid (cp_data c s))) c"
  have st: "same_tree c ?c0" by (rule same_tree_simple)
  obtain c2 where c2: "commit_children n False s (get_children s c) ?c0 = Some c2"
    using assms(2,4) by (auto simp: commit_def commit_local_def Let_def split: option.splits)
  define c3 where "c3 = bump_txid s (insert_own_state s (ps_txid (cp_data c s)) c2)"
  define tx where "tx = ps_pending_tx (cp_data c3 s)"
  define c1 where "c1 = (on_surface s (\<lambda>d. d\<lparr>ps_pending_tx := ts_default\<rparr>) c3)\<lparr>cp_queue := cp_queue c @ [tx]\<rparr>"
  have cur: "same_current c c3"
    unfolding c3_def using same_current_commit_children[OF c2] by (meson same_current_ops same_current_trans)
  have c': "c' = blocker_cleared h pid c1"
    using assms(2-4) c2 cur unfolding c1_def tx_def c3_def
    by (simp add: commit_def commit_local_def Let_def same_current_def on_surface_def queue_append_def)
  have mv: "moved_into s D ?c0 c2"
    using tx_keys_commit_children[OF same_tree_inv[OF st assms(1)] _ c2]
    by (simp add: D_def sync_children_def at_or_below_same[OF st] same_treeD(4,7)[OF st])
  have sD: "s \<notin> D"
    using parent_not_below[OF assms(1), of "filter (\<lambda>x. ps_sync (cp_data c x) = Some True) (get_children s c)" s]
    by (simp add: D_def sync_children_def)
  have k3: "tx_keys c3 z = (if z = s then insert s (tx_keys c2 s) else tx_keys c2 z)" for z
    by (simp add: c3_def tx_keys_ops)
  have k1: "tx_keys c1 z = (if z = s then {} else tx_keys c2 z)" for z
  proof (cases "z = s")
    case False
    then have "tx_keys c1 z = tx_keys c3 z" by (simp add: tx_keys_def c1_def on_surface_def)
    then show ?thesis using False k3 by simp
  qed (simp add: tx_keys_def c1_def on_surface_def ts_default_def)
  have k0: "tx_keys ?c0 = tx_keys c" "comp_alive ?c0 = comp_alive c"
    using same_treeD(8)[OF st] by (simp_all add: fun_eq_iff tx_keys_ops)
  have key: "y \<in> fst ` set (ts_surfaces tx) \<longleftrightarrow> y = s \<or> y \<in> tx_keys c s \<or> comp_alive c y \<and> (y \<in> D \<or> (\<exists>z\<in>D. y \<in> tx_keys c z))" for y
  proof -
    have "fst ` set (ts_surfaces tx) = insert s (tx_keys c2 s)" using k3[of s] by (simp add: tx_keys_def tx_def)
    then show ?thesis by (simp add: moved_intoD(1)[OF mv] in_collected k0)
  qed
  have gone: "tx_keys c1 z = {}" if "z \<in> insert s D" for z
    using that moved_intoD(2)[OF mv, of z] by (auto simp only: k1 if_True if_False split: if_split)
  have stay: "tx_keys c1 z = tx_keys c z" if "z \<notin> insert s D" for z
    using that moved_intoD(3)[OF mv, of z] by (simp add: k1 k0)
  have "cp_queue c1 = cp_queue c @ [tx]" by (simp add: c1_def)
  moreover have "insert s (tx_keys c s) \<union> {y. comp_alive c y \<and> (\<exists>z\<in>D. y \<in> tx_keys c z)} \<subseteq> fst ` set (ts_surfaces tx)"
    by (rule subsetI) (simp only: key, blast)
  moreover have "fst ` set (ts_surfaces tx) \<subseteq> insert s (tx_keys c s) \<union> {y. comp_alive c y \<and> (y \<in> D \<or> (\<exists>z\<in>D. y \<in> tx_keys c z))}"
    by (rule subsetI) (simp only: key, blast)
  ultimately show ?thesis using c' gone stay by (intro exI[of _ c1] exI[of _ tx] conjI ballI allI impI)
qed

theorem desync_commit_atomic_witness:
  "\<exists>c' c1 tx. commit quiet_handler of_nat 3 1 demo_tree = Some c' \<and> c' = blocker_cleared quiet_handler of_nat c1 \<and>
     cp_queue c1 = cp_queue demo_tree @ [tx] \<and> 1 \<in> fst ` set (ts_surfaces tx)"
proof -
  have s: "is_effectively_sync demo_tree 1 = Some False"
    by (subst is_effectively_sync.simps) (simp add: demo_tree_def surface_data_new_def)
  have "{x. ps_parent (cp_data demo_tree x) \<noteq> None} = {2}" by (auto simp: demo_parent)
  then have "card {x. ps_parent (cp_data demo_tree x) \<noteq> None} \<le> 3" by simp
  then have "commit_local 3 1 demo_tree \<noteq> None" by (rule commit_local_total[OF tree_inv_demo])
  then have "\<exists>c'. commit quiet_handler of_nat 3 1 demo_tree = Some c'" by (auto simp: commit_def Let_def split: option.split)
  then obtain c' where c': "commit quiet_handler of_nat 3 1 demo_tree = Some c'" ..
  have g: "\<not> cp_client_gone demo_tree" by (simp add: demo_tree_def)
  from desync_commit_atomic[OF tree_inv_demo s g c'] show ?thesis
  proof (elim exE conjE)
    fix c1 tx
    assume c1: "c' = blocker_cleared quiet_handler of_nat c1" "cp_queue c1 = cp_queue demo_tree @ [tx]"
      and "insert 1 (tx_keys demo_tree 1) \<union>
        {y. comp_alive demo_tree y \<and> (\<exists>z\<in>at_or_below demo_tree (sync_children demo_tree 1). y \<in> tx_keys demo_tree z)}
        \<subseteq> fst ` set (ts_surfaces tx)"
    then have "1 \<in> fst ` set (ts_surfaces tx)" by simp
    with c1 c' show ?thesis by (intro exI[of _ c'] exI[of _ c1] exI[of _ tx] conjI)
  qed
qed

text \<open>The commit of a parent also commits what a synchronised child has attached but not
  committed itself: in a tree of a desynchronised surface and its synchronised child, a buffer
  pending on the child becomes its current buffer when the parent commits, with no commit of the
  child in between.\<close>

theorem parent_commit_takes_uncommitted_state:
  "let c = with_pending 2 (\<lambda>a. a\<lparr>sa_buffer := Some (New_buffer 9)\<rparr>) demo_tree
   in sa_buffer (current_attributes c 2) = None
    \<and> map_option (\<lambda>c'. sa_buffer (current_attributes c' 2)) (commit quiet_handler of_nat 3 1 c) = Some (Some (New_buffer 9))"
  by code_simp

text \<open>Destroying a surface releases the buffers of its current and its pending state, but not
  those of commits still queued behind a blocker: their buffer is never released.\<close>

theorem destroy_forgets_queued_buffers:
  "let c0 = with_pending 3 (\<lambda>a. a\<lparr>sa_buffer := Some (New_buffer 9)\<rparr>) (add_blocker 3 7 demo_tree)
   in map_option (\<lambda>c. (cp_events c, map snd (cs_cache (get_attributes (ps_cached (cp_data c 3)))) \<noteq> [],
        cp_events (blocker_cleared quiet_handler of_nat
          ((destroyed_surface quiet_handler 3 c)\<lparr>cp_barriers := barrier_signal 7 (cp_barriers c)\<rparr>))))
      (commit quiet_handler of_nat 3 3 c0) = Some ([], True, [])"
  by code_simp

end
