(* ===== verification/Outputs.thy ===== *)
theory Outputs
  imports Floats Transforms
begin

text \<open>
  Outputs: \<open>src/output.rs\<close> (modes, scale, the state of an output and its operations) and the
  protocol side of \<open>src/wayland/output/\<close> (\<open>wl_output\<close> instances, \<open>xdg_output\<close>, and the surfaces that
  were told they are on the output). What is sent to clients is a log of events; protocol
  objects and surfaces are numbers with a client and a liveness, never reused. The iteration
  order of the hash set of surfaces is not determined in the source; the set js a list of
  distinct numbers here and no property depends on its order.
\<close>

section \<open>Modes and scales\<close>

record mode =
  mode_size :: sz
  mode_refresh :: i32

text \<open>The values a mode of the kernel interface reports, and the conversion. Dividing by a zero
  total panics; the arithmetic is in \<open>u64\<close>, where it cannot overflow for these widths.\<close>

record drm_mode =
  dm_clock :: u32
  dm_htotal :: "16 word"
  dm_vtotal :: "16 word"
  dm_interlace :: bool
  dm_dblscan :: bool
  dm_vscan :: "16 word"
  dm_width :: "16 word"
  dm_height :: "16 word"

definition drm_refresh :: "drm_mode \<Rightarrow> nat option" where
  "drm_refresh m =
     (let clock = unat (dm_clock m); htotal = unat (dm_htotal m); vtotal = unat (dm_vtotal m)
      in if htotal = 0 \<or> vtotal = 0 then None
         else
           let refresh = (clock * 1000000 div htotal + vtotal div 2) div vtotal;
               refresh = (if dm_interlace m then refresh * 2 else refresh);
               refresh = (if dm_dblscan m then refresh div 2 else refresh);
               refresh = (if dm_vscan m > 1 then refresh div unat (dm_vscan m) else refresh)
           in Some refresh)"

definition mode_from_drm :: "drm_mode \<Rightarrow> mode option" where
  "mode_from_drm m =
     (case drm_refresh m of
        None \<Rightarrow> None
      | Some refresh \<Rightarrow>
          Some \<lparr>mode_size = size_new (int (unat (dm_width m))) (int (unat (dm_height m))),
                mode_refresh = wrap32 (int refresh)\<rparr>)"

datatype subpixel = Sub_unknown | Sub_none | Sub_horizontal_rgb | Sub_horizontal_bgr
  | Sub_vertical_rgb | Sub_vertical_bgr

record physical_properties =
  pp_size :: sz
  pp_subpixel :: subpixel
  pp_make :: string
  pp_model :: string
  pp_serial_number :: string

datatype out_scale = Scale_integer i32 | Scale_fractional fl | Scale_custom i32 fl

fun integer_scale :: "out_scale \<Rightarrow> i32" where
  "integer_scale (Scale_integer s) = s"
| "integer_scale (Scale_fractional s) = fl_to_i32 (fl_ceil s)"
| "integer_scale (Scale_custom a f) = a"

fun fractional_scale :: "out_scale \<Rightarrow> fl" where
  "fractional_scale (Scale_integer s) = i32_to_f64 s"
| "fractional_scale (Scale_fractional s) = s"
| "fractional_scale (Scale_custom a f) = f"

section \<open>The output\<close>

record xdg_output =
  xo_name :: string
  xo_description :: string
  xo_logical_position :: point
  xo_physical_size :: "sz option"
  xo_scale :: out_scale
  xo_transform :: transform
  xo_instances :: "nat list"

record output_inner =
  o_name :: string
  o_description :: string
  o_physical :: physical_properties
  o_location :: point
  o_transform :: transform
  o_scale :: out_scale
  o_modes :: "mode list"
  o_current_mode :: "mode option"
  o_preferred_mode :: "mode option"
  o_instances :: "nat list"
  o_handle :: bool
  o_xdg_output :: "xdg_output option"
  o_surfaces :: "nat list"

definition output_new :: "string \<Rightarrow> physical_properties \<Rightarrow> output_inner" where
  "output_new name physical =
     \<lparr>o_name = name,
      o_description = pp_make physical @ '' - '' @ pp_model physical @ '' - '' @ name,
      o_physical = physical, o_location = point_new 0 0, o_transform = Normal,
      o_scale = Scale_integer 1, o_modes = [], o_current_mode = None, o_preferred_mode = None,
      o_instances = [], o_handle = False, o_xdg_output = None, o_surfaces = []\<rparr>"

definition add_mode :: "mode \<Rightarrow> output_inner \<Rightarrow> output_inner" where
  "add_mode m out = (if list_all (\<lambda>n. n \<noteq> m) (o_modes out) then out\<lparr>o_modes := o_modes out @ [m]\<rparr> else out)"

definition set_preferred :: "mode \<Rightarrow> output_inner \<Rightarrow> output_inner" where
  "set_preferred m out =
     (let out = out\<lparr>o_preferred_mode := Some m\<rparr>
      in if list_all (\<lambda>n. n \<noteq> m) (o_modes out) then out\<lparr>o_modes := o_modes out @ [m]\<rparr> else out)"

definition delete_mode :: "mode \<Rightarrow> output_inner \<Rightarrow> output_inner" where
  "delete_mode m out =
     (let out = out\<lparr>o_modes := filter (\<lambda>n. n \<noteq> m) (o_modes out)\<rparr>;
          out = (if o_current_mode out = Some m then out\<lparr>o_current_mode := None\<rparr> else out)
      in if o_preferred_mode out = Some m then out\<lparr>o_preferred_mode := None\<rparr> else out)"

text \<open>The state part of \<open>change_current_state\<close>, before the clients are told.\<close>

definition change_state :: "mode option \<Rightarrow> transform option \<Rightarrow> out_scale option \<Rightarrow> point option \<Rightarrow> output_inner \<Rightarrow> output_inner" where
  "change_state new_mode new_transform new_scale new_location out =
     (let out = (case new_mode of
                   None \<Rightarrow> out
                 | Some m \<Rightarrow> (add_mode m out)\<lparr>o_current_mode := new_mode\<rparr>);
          out = (case new_transform of None \<Rightarrow> out | Some t \<Rightarrow> out\<lparr>o_transform := t\<rparr>);
          out = (case new_scale of None \<Rightarrow> out | Some s \<Rightarrow> out\<lparr>o_scale := s\<rparr>)
      in (case new_location of None \<Rightarrow> out | Some l \<Rightarrow> out\<lparr>o_location := l\<rparr>))"

text \<open>Where a renderer takes size, scale and transform from; an output that is gone, or has no
  current mode, is an error.\<close>

datatype mode_source = Mode_auto "output_inner option" | Mode_static sz "fl \<times> fl" transform

fun mode_source_get :: "mode_source \<Rightarrow> (sz \<times> (fl \<times> fl) \<times> transform) option" where
  "mode_source_get (Mode_auto None) = None"
| "mode_source_get (Mode_auto (Some out)) =
     (case o_current_mode out of
        None \<Rightarrow> None
      | Some m \<Rightarrow> Some (mode_size m, (fractional_scale (o_scale out), fractional_scale (o_scale out)), o_transform out))"
| "mode_source_get (Mode_static z scale t) = Some (z, scale, t)"

section \<open>The protocol side\<close>

datatype out_event =
    Ev_geometry nat i32 i32 i32 i32 subpixel string string transform
  | Ev_mode nat bool bool i32 i32 i32
  | Ev_scale nat i32
  | Ev_done nat
  | Ev_name nat string
  | Ev_description nat string
  | Ev_enter nat nat
  | Ev_leave nat nat
  | Xev_logical_position nat i32 i32
  | Xev_logical_size nat i32 i32
  | Xev_name nat string
  | Xev_description nat string
  | Xev_done nat

text \<open>A protocol object: its client, bound version, whether it is alive, and the client scale it
  last used.\<close>

record proto_obj =
  po_client :: nat
  po_version :: nat
  po_alive :: bool
  po_last_scale :: fl

record out_world =
  w_out :: output_inner
  w_wl :: "nat \<Rightarrow> proto_obj option"
  w_xdg :: "nat \<Rightarrow> proto_obj option"
  w_surfaces :: "nat \<Rightarrow> (nat \<times> bool) option"
  w_client_scale :: "nat \<Rightarrow> fl"
  w_log :: "out_event list"

abbreviation emit :: "out_event list \<Rightarrow> out_world \<Rightarrow> out_world" where
  "emit evs w \<equiv> w\<lparr>w_log := w_log w @ evs\<rparr>"

definition upgrade :: "(nat \<Rightarrow> proto_obj option) \<Rightarrow> nat \<Rightarrow> proto_obj option" where
  "upgrade objs i = (case objs i of None \<Rightarrow> None | Some ob \<Rightarrow> if po_alive ob then Some ob else None)"

definition surface_alive :: "out_world \<Rightarrow> nat \<Rightarrow> bool" where
  "surface_alive w s = (case w_surfaces w s of None \<Rightarrow> False | Some (c, alive) \<Rightarrow> alive)"

definition surface_client :: "out_world \<Rightarrow> nat \<Rightarrow> nat option" where
  "surface_client w s = (case w_surfaces w s of None \<Rightarrow> None | Some (c, alive) \<Rightarrow> if alive then Some c else None)"

text \<open>\<open>f64::max\<close> ignores not-a-number.\<close>

fun fl_max :: "fl \<Rightarrow> fl \<Rightarrow> fl" where
  "fl_max Fl_nan b = b"
| "fl_max a Fl_nan = a"
| "fl_max a b = (if fl_less a b then b else a)"

definition send_geometry_to :: "output_inner \<Rightarrow> nat \<Rightarrow> out_event" where
  "send_geometry_to out i =
     Ev_geometry i (px (o_location out)) (py (o_location out)) (sw (pp_size (o_physical out)))
       (sh (pp_size (o_physical out))) (pp_subpixel (o_physical out)) (pp_make (o_physical out))
       (pp_model (o_physical out)) (o_transform out)"

definition point_to_client_precise_round :: "point \<Rightarrow> fl \<Rightarrow> point" where
  "point_to_client_precise_round p s = fpoint_to_i32_round (fpoint_upscale (point_to_f64 p) s)"

text \<open>\<open>size.to_f64().to_logical(scale).to_client(client_scale).to_i32_round()\<close>, transformed.\<close>

definition xdg_logical_size :: "xdg_output \<Rightarrow> fl \<Rightarrow> sz \<Rightarrow> sz" where
  "xdg_logical_size xo client_scale z =
     transform_size (xo_transform xo)
       (fsize_to_i32_round (fsize_upscale (fsize_downscale (size_to_f64 z) (fractional_scale (xo_scale xo))) client_scale))"

definition xdg_output_new :: "output_inner \<Rightarrow> xdg_output" where
  "xdg_output_new out =
     \<lparr>xo_name = o_name out, xo_description = o_description out, xo_logical_position = o_location out,
      xo_physical_size = map_option mode_size (o_current_mode out), xo_scale = o_scale out,
      xo_transform = o_transform out, xo_instances = []\<rparr>"

text \<open>\<open>XdgOutput::add_instance\<close>: the events to a new \<open>xdg_output\<close> and its \<open>wl_output\<close>.\<close>

definition xdg_add_instance_events :: "xdg_output \<Rightarrow> fl \<Rightarrow> nat \<Rightarrow> nat \<Rightarrow> nat \<Rightarrow> out_event list" where
  "xdg_add_instance_events xo client_scale x version wl =
     (let pos = point_to_client_precise_round (xo_logical_position xo) client_scale
      in [Xev_logical_position x (px pos) (py pos)] @
         (case xo_physical_size xo of
            None \<Rightarrow> []
          | Some z \<Rightarrow> let t = xdg_logical_size xo client_scale z in [Xev_logical_size x (sw t) (sh t)]) @
         (if version \<ge> 2 then [Xev_name x (xo_name xo), Xev_description x (xo_description xo)] else []) @
         (if version < 3 then [Xev_done x] else []) @
         [Ev_done wl])"

text \<open>\<open>XdgOutput::change_current_state\<close>: the new state, then the events of one instance.\<close>

definition xdg_change_state :: "mode option \<Rightarrow> out_scale option \<Rightarrow> point option \<Rightarrow> transform option \<Rightarrow> xdg_output \<Rightarrow> xdg_output" where
  "xdg_change_state new_mode new_scale new_location new_transform xo =
     (let xo = (case new_mode of None \<Rightarrow> xo | Some m \<Rightarrow> xo\<lparr>xo_physical_size := Some (mode_size m)\<rparr>);
          xo = (case new_scale of None \<Rightarrow> xo | Some s \<Rightarrow> xo\<lparr>xo_scale := s\<rparr>);
          xo = (case new_location of None \<Rightarrow> xo | Some l \<Rightarrow> xo\<lparr>xo_logical_position := l\<rparr>)
      in (case new_transform of None \<Rightarrow> xo | Some t \<Rightarrow> xo\<lparr>xo_transform := t\<rparr>))"

definition xdg_instance_events :: "mode option \<Rightarrow> out_scale option \<Rightarrow> point option \<Rightarrow> transform option \<Rightarrow>
    xdg_output \<Rightarrow> nat \<Rightarrow> proto_obj \<Rightarrow> fl \<Rightarrow> out_event list" where
  "xdg_instance_events new_mode new_scale new_location new_transform xo x ob client_scale =
     (let scale_changed = (\<not> fl_eq client_scale (po_last_scale ob))
      in (if new_mode \<noteq> None \<or> new_scale \<noteq> None \<or> new_transform \<noteq> None \<or> scale_changed
          then (case xo_physical_size xo of
                  None \<Rightarrow> []
                | Some z \<Rightarrow> let t = xdg_logical_size xo client_scale z in [Xev_logical_size x (sw t) (sh t)])
          else []) @
         (if new_location \<noteq> None \<or> scale_changed
          then (let pos = point_to_client_precise_round (xo_logical_position xo) client_scale
                in [Xev_logical_position x (px pos) (py pos)])
          else []) @
         (if po_version ob < 3 then [Xev_done x] else []))"

fun xdg_notify :: "mode option \<Rightarrow> out_scale option \<Rightarrow> point option \<Rightarrow> transform option \<Rightarrow> xdg_output \<Rightarrow>
    nat list \<Rightarrow> out_world \<Rightarrow> out_world" where
  "xdg_notify nm ns nl nt xo [] w = w"
| "xdg_notify nm ns nl nt xo (x # xs) w =
     (case upgrade (w_xdg w) x of
        None \<Rightarrow> xdg_notify nm ns nl nt xo xs w
      | Some ob \<Rightarrow>
          let client_scale = w_client_scale w (po_client ob);
              evs = xdg_instance_events nm ns nl nt xo x ob client_scale
          in xdg_notify nm ns nl nt xo xs
               (emit evs (w\<lparr>w_xdg := (w_xdg w)(x \<mapsto> ob\<lparr>po_last_scale := client_scale\<rparr>)\<rparr>)))"

text \<open>The events of one \<open>wl_output\<close> instance on a change.\<close>

definition wl_instance_events :: "mode option \<Rightarrow> transform option \<Rightarrow> out_scale option \<Rightarrow> point option \<Rightarrow>
    output_inner \<Rightarrow> nat \<Rightarrow> proto_obj \<Rightarrow> fl \<Rightarrow> out_event list" where
  "wl_instance_events new_mode new_transform new_scale new_location out i ob client_scale =
     (let scale_changed = (\<not> fl_eq client_scale (po_last_scale ob))
      in (case new_mode of
            None \<Rightarrow> []
          | Some m \<Rightarrow> [Ev_mode i True (o_preferred_mode out = new_mode) (sw (mode_size m)) (sh (mode_size m)) (mode_refresh m)]) @
         (if new_transform \<noteq> None \<or> new_location \<noteq> None then [send_geometry_to out i] else []) @
         (if (new_scale \<noteq> None \<or> scale_changed) \<and> po_version ob \<ge> 2
          then [Ev_scale i (fl_to_i32 (fl_ceil (fl_max (fl_div round64 (i32_to_f64 (integer_scale (o_scale out))) client_scale) (Fl_num 1))))]
          else []) @
         (if po_version ob \<ge> 2 then [Ev_done i] else []))"

fun wl_notify :: "mode option \<Rightarrow> transform option \<Rightarrow> out_scale option \<Rightarrow> point option \<Rightarrow>
    nat list \<Rightarrow> out_world \<Rightarrow> out_world" where
  "wl_notify nm nt ns nl [] w = w"
| "wl_notify nm nt ns nl (i # js) w =
     (case upgrade (w_wl w) i of
        None \<Rightarrow> wl_notify nm nt ns nl js w
      | Some ob \<Rightarrow>
          let client_scale = w_client_scale w (po_client ob);
              evs = wl_instance_events nm nt ns nl (w_out w) i ob client_scale
          in wl_notify nm nt ns nl js
               (emit evs (w\<lparr>w_wl := (w_wl w)(i \<mapsto> ob\<lparr>po_last_scale := client_scale\<rparr>)\<rparr>)))"

definition wl_change_current_state :: "mode option \<Rightarrow> transform option \<Rightarrow> out_scale option \<Rightarrow> point option \<Rightarrow>
    out_world \<Rightarrow> out_world" where
  "wl_change_current_state nm nt ns nl w =
     (let w = (case o_xdg_output (w_out w) of
                 None \<Rightarrow> w
               | Some xo \<Rightarrow>
                   let xo = xdg_change_state nm ns nl nt xo
                   in xdg_notify nm ns nl nt xo (xo_instances xo)
                        (w\<lparr>w_out := (w_out w)\<lparr>o_xdg_output := Some xo\<rparr>\<rparr>))
      in wl_notify nm nt ns nl (o_instances (w_out w)) w)"

definition change_current_state :: "mode option \<Rightarrow> transform option \<Rightarrow> out_scale option \<Rightarrow> point option \<Rightarrow>
    out_world \<Rightarrow> out_world" where
  "change_current_state nm nt ns nl w =
     wl_change_current_state nm nt ns nl (w\<lparr>w_out := change_state nm nt ns nl (w_out w)\<rparr>)"

definition create_global :: "out_world \<Rightarrow> out_world" where
  "create_global w = w\<lparr>w_out := (w_out w)\<lparr>o_handle := True\<rparr>\<rparr>"

text \<open>The live instances of a client.\<close>

definition client_outputs :: "out_world \<Rightarrow> nat \<Rightarrow> nat list" where
  "client_outputs w client =
     filter (\<lambda>i. case upgrade (w_wl w) i of None \<Rightarrow> False | Some ob \<Rightarrow> po_client ob = client)
       (o_instances (w_out w))"

definition output_bind :: "nat \<Rightarrow> nat \<Rightarrow> nat \<Rightarrow> out_world \<Rightarrow> out_world" where
  "output_bind i client version w =
     (let out = w_out w;
          ob = \<lparr>po_client = client, po_version = version, po_alive = True,
                po_last_scale = w_client_scale w client\<rparr>;
          evs = [send_geometry_to out i] @
            map (\<lambda>m. Ev_mode i (Some m = o_current_mode out) (Some m = o_preferred_mode out)
                   (sw (mode_size m)) (sh (mode_size m)) (mode_refresh m)) (o_modes out) @
            (if version \<ge> 4 then [Ev_name i (o_name out), Ev_description i (o_description out)] else []) @
            (if version \<ge> 2 then [Ev_scale i (integer_scale (o_scale out)), Ev_done i] else []) @
            map (\<lambda>s. Ev_enter s i) (filter (\<lambda>s. surface_client w s = Some client) (o_surfaces out))
      in emit evs (w\<lparr>w_wl := (w_wl w)(i \<mapsto> ob), w_out := out\<lparr>o_instances := o_instances out @ [i]\<rparr>\<rparr>))"

definition output_destroyed :: "nat \<Rightarrow> out_world \<Rightarrow> out_world" where
  "output_destroyed i w = w\<lparr>w_out := (w_out w)\<lparr>o_instances := filter (\<lambda>j. j \<noteq> i) (o_instances (w_out w))\<rparr>\<rparr>"

definition output_enter :: "nat \<Rightarrow> out_world \<Rightarrow> out_world" where
  "output_enter s w =
     (if s \<in> set (o_surfaces (w_out w)) then w
      else
        let w = w\<lparr>w_out := (w_out w)\<lparr>o_surfaces := o_surfaces (w_out w) @ [s]\<rparr>\<rparr>
        in case (if o_handle (w_out w) then surface_client w s else None) of
             None \<Rightarrow> w
           | Some client \<Rightarrow> emit (map (Ev_enter s) (client_outputs w client)) w)"

definition output_leave :: "nat \<Rightarrow> out_world \<Rightarrow> out_world" where
  "output_leave s w =
     (if s \<notin> set (o_surfaces (w_out w)) then w
      else
        let w = w\<lparr>w_out := (w_out w)\<lparr>o_surfaces := filter (\<lambda>t. t \<noteq> s) (o_surfaces (w_out w))\<rparr>\<rparr>
        in case (if o_handle (w_out w) then surface_client w s else None) of
             None \<Rightarrow> w
           | Some client \<Rightarrow> emit (map (Ev_leave s) (client_outputs w client)) w)"

definition output_leave_all :: "out_world \<Rightarrow> out_world" where
  "output_leave_all w =
     (let surfaces = o_surfaces (w_out w);
          w = w\<lparr>w_out := (w_out w)\<lparr>o_surfaces := []\<rparr>\<rparr>
      in if \<not> o_handle (w_out w) then w
         else emit (concat (map (\<lambda>s. case surface_client w s of
                                     None \<Rightarrow> []
                                   | Some client \<Rightarrow> map (Ev_leave s) (client_outputs w client)) surfaces)) w)"

definition cleanup_surfaces :: "out_world \<Rightarrow> out_world" where
  "cleanup_surfaces w = w\<lparr>w_out := (w_out w)\<lparr>o_surfaces := filter (surface_alive w) (o_surfaces (w_out w))\<rparr>\<rparr>"

definition owns :: "out_world \<Rightarrow> nat \<Rightarrow> bool" where
  "owns w i = list_ex (\<lambda>j. j = i) (o_instances (w_out w))"

definition owns_xdg_output :: "out_world \<Rightarrow> nat \<Rightarrow> bool" where
  "owns_xdg_output w x =
     (case o_xdg_output (w_out w) of None \<Rightarrow> False | Some xo \<Rightarrow> list_ex (\<lambda>y. y = x) (xo_instances xo))"

text \<open>The request \<open>get_xdg_output\<close> on a \<open>wl_output\<close> of the output.\<close>

definition get_xdg_output :: "nat \<Rightarrow> nat \<Rightarrow> nat \<Rightarrow> nat \<Rightarrow> out_world \<Rightarrow> out_world" where
  "get_xdg_output x client version wl w =
     (let out = w_out w;
          xo = (case o_xdg_output out of None \<Rightarrow> xdg_output_new out | Some xo \<Rightarrow> xo);
          scale = w_client_scale w client;
          ob = \<lparr>po_client = client, po_version = version, po_alive = True, po_last_scale = scale\<rparr>;
          wl_scale = (case w_wl w wl of None \<Rightarrow> scale | Some wob \<Rightarrow> w_client_scale w (po_client wob))
      in emit (xdg_add_instance_events xo wl_scale x version wl)
           (w\<lparr>w_xdg := (w_xdg w)(x \<mapsto> ob),
              w_out := out\<lparr>o_xdg_output := Some (xo\<lparr>xo_instances := xo_instances xo @ [x]\<rparr>)\<rparr>\<rparr>))"

definition xdg_output_destroyed :: "nat \<Rightarrow> out_world \<Rightarrow> out_world" where
  "xdg_output_destroyed x w =
     w\<lparr>w_out := (w_out w)\<lparr>o_xdg_output :=
        map_option (\<lambda>xo. xo\<lparr>xo_instances := filter (\<lambda>y. y \<noteq> x) (xo_instances xo)\<rparr>) (o_xdg_output (w_out w))\<rparr>\<rparr>"


section \<open>Steps\<close>

text \<open>Everything that happens to an output and the protocol objects around it.\<close>

inductive out_step :: "out_world \<Rightarrow> out_world \<Rightarrow> bool" where
  Change: "out_step w (change_current_state nm nt ns nl w)"
| Add_mode: "out_step w (w\<lparr>w_out := add_mode m (w_out w)\<rparr>)"
| Set_preferred: "out_step w (w\<lparr>w_out := set_preferred m (w_out w)\<rparr>)"
| Delete_mode: "out_step w (w\<lparr>w_out := delete_mode m (w_out w)\<rparr>)"
| Create_global: "out_step w (create_global w)"
| Bind: "\<lbrakk>o_handle (w_out w); w_wl w i = None\<rbrakk> \<Longrightarrow> out_step w (output_bind i client version w)"
| Wl_destroyed: "w_wl w i = Some ob \<Longrightarrow>
    out_step w (output_destroyed i (w\<lparr>w_wl := (w_wl w)(i \<mapsto> ob\<lparr>po_alive := False\<rparr>)\<rparr>))"
| Get_xdg: "\<lbrakk>w_xdg w x = None; upgrade (w_wl w) wl = Some ob; po_client ob = client\<rbrakk> \<Longrightarrow>
    out_step w (get_xdg_output x client version wl w)"
| Xdg_destroyed: "w_xdg w x = Some ob \<Longrightarrow>
    out_step w (xdg_output_destroyed x (w\<lparr>w_xdg := (w_xdg w)(x \<mapsto> ob\<lparr>po_alive := False\<rparr>)\<rparr>))"
| Surface_new: "w_surfaces w s = None \<Longrightarrow> out_step w (w\<lparr>w_surfaces := (w_surfaces w)(s \<mapsto> (client, True))\<rparr>)"
| Surface_gone: "w_surfaces w s = Some (client, alive) \<Longrightarrow>
    out_step w (w\<lparr>w_surfaces := (w_surfaces w)(s \<mapsto> (client, False))\<rparr>)"
| Client_scale: "out_step w (w\<lparr>w_client_scale := (w_client_scale w)(client := sc)\<rparr>)"
| Enter: "w_surfaces w s \<noteq> None \<Longrightarrow> out_step w (output_enter s w)"
| Leave: "out_step w (output_leave s w)"
| Leave_all: "out_step w (output_leave_all w)"
| Cleanup: "out_step w (cleanup_surfaces w)"

inductive_cases out_stepE: "out_step w w'"

definition out_init :: "string \<Rightarrow> physical_properties \<Rightarrow> (nat \<Rightarrow> fl) \<Rightarrow> out_world" where
  "out_init name physical scales =
     \<lparr>w_out = output_new name physical, w_wl = (\<lambda>_. None), w_xdg = (\<lambda>_. None), w_surfaces = (\<lambda>_. None),
      w_client_scale = scales, w_log = []\<rparr>"

inductive out_reachable :: "out_world \<Rightarrow> bool" where
  Init: "out_reachable (out_init name physical scales)"
| Step: "out_reachable w \<Longrightarrow> out_step w w' \<Longrightarrow> out_reachable w'"

section \<open>Modes\<close>

definition modes_ok :: "output_inner \<Rightarrow> bool" where
  "modes_ok out \<longleftrightarrow> distinct (o_modes out) \<and> set_option (o_current_mode out) \<subseteq> set (o_modes out) \<and>
     set_option (o_preferred_mode out) \<subseteq> set (o_modes out)"

lemma modes_ok_new: "modes_ok (output_new name physical)"
  by (simp add: modes_ok_def output_new_def)

lemma modes_ok_ops:
  assumes "modes_ok out"
  shows "modes_ok (add_mode m out)" "modes_ok (set_preferred m out)" "modes_ok (delete_mode m out)"
    "modes_ok (change_state nm nt ns nl out)"
  using assms
  by (auto simp: modes_ok_def add_mode_def set_preferred_def delete_mode_def change_state_def Let_def
      list_all_iff split: option.splits)

section \<open>What the clients have been told\<close>

fun told_geometry :: "nat \<Rightarrow> out_event list \<Rightarrow> (i32 \<times> i32 \<times> transform) option" where
  "told_geometry i [] = None"
| "told_geometry i (e # es) =
     (case told_geometry i es of
        Some g \<Rightarrow> Some g
      | None \<Rightarrow> (case e of Ev_geometry j x y pw ph sub mk md t \<Rightarrow> if j = i then Some (x, y, t) else None | _ \<Rightarrow> None))"

fun told_mode :: "nat \<Rightarrow> out_event list \<Rightarrow> (i32 \<times> i32 \<times> i32) option" where
  "told_mode i [] = None"
| "told_mode i (e # es) =
     (case told_mode i es of
        Some g \<Rightarrow> Some g
      | None \<Rightarrow> (case e of Ev_mode j cur pref w h r \<Rightarrow> if j = i \<and> cur then Some (w, h, r) else None | _ \<Rightarrow> None))"

text \<open>Enters minus leaves of a surface on an instance.\<close>

fun entered :: "nat \<Rightarrow> nat \<Rightarrow> out_event list \<Rightarrow> int" where
  "entered s i [] = 0"
| "entered s i (e # es) =
     (case e of Ev_enter t j \<Rightarrow> (if t = s \<and> j = i then 1 else 0)
              | Ev_leave t j \<Rightarrow> (if t = s \<and> j = i then -1 else 0)
              | _ \<Rightarrow> 0) + entered s i es"

definition mode_triple :: "mode \<Rightarrow> i32 \<times> i32 \<times> i32" where
  "mode_triple m = (sw (mode_size m), sh (mode_size m), mode_refresh m)"

definition out_geometry :: "output_inner \<Rightarrow> i32 \<times> i32 \<times> transform" where
  "out_geometry out = (px (o_location out), py (o_location out), o_transform out)"

lemma told_append:
  "told_geometry i (xs @ ys) = (case told_geometry i ys of Some g \<Rightarrow> Some g | None \<Rightarrow> told_geometry i xs)"
  "told_mode i (xs @ ys) = (case told_mode i ys of Some g \<Rightarrow> Some g | None \<Rightarrow> told_mode i xs)"
  "entered s i (xs @ ys) = entered s i xs + entered s i ys"
  by (induction xs) (auto split: option.splits)

text \<open>The instance an event goes to.\<close>

fun ev_target :: "out_event \<Rightarrow> nat option" where
  "ev_target (Ev_geometry i x y pw ph sub mk md t) = Some i"
| "ev_target (Ev_mode i c p w h r) = Some i"
| "ev_target (Ev_scale i n) = Some i"
| "ev_target (Ev_done i) = Some i"
| "ev_target (Ev_name i n) = Some i"
| "ev_target (Ev_description i n) = Some i"
| "ev_target (Ev_enter s i) = Some i"
| "ev_target (Ev_leave s i) = Some i"
| "ev_target _ = None"

lemma told_other:
  assumes "\<forall>e\<in>set es. ev_target e \<noteq> Some i"
  shows "told_geometry i es = None" "told_mode i es = None" "entered s i es = 0"
  using assms by (induction es) (auto split: out_event.splits)


section \<open>The invariant\<close>

text \<open>The client of a live instance.\<close>

definition live :: "out_world \<Rightarrow> nat \<Rightarrow> nat option" where
  "live w i = map_option po_client (upgrade (w_wl w) i)"

definition objs_ok :: "out_world \<Rightarrow> bool" where
  "objs_ok w \<longleftrightarrow> distinct (o_instances (w_out w)) \<and> distinct (o_surfaces (w_out w)) \<and> (\<forall>i. i \<in> set (o_instances (w_out w)) \<longleftrightarrow> live w i \<noteq> None) \<and>
     (o_instances (w_out w) \<noteq> [] \<longrightarrow> o_handle (w_out w)) \<and> (\<forall>s\<in>set (o_surfaces (w_out w)). w_surfaces w s \<noteq> None)"

definition log_ok :: "out_world \<Rightarrow> bool" where
  "log_ok w \<longleftrightarrow> (\<forall>i. w_wl w i = None \<longrightarrow> (\<forall>e\<in>set (w_log w). ev_target e \<noteq> Some i)) \<and>
     (\<forall>s i. w_surfaces w s = None \<longrightarrow> entered s i (w_log w) = 0)"

definition view_ok :: "out_world \<Rightarrow> bool" where
  "view_ok w \<longleftrightarrow> (\<forall>i\<in>set (o_instances (w_out w)). told_geometry i (w_log w) = Some (out_geometry (w_out w)) \<and>
     (\<forall>m. o_current_mode (w_out w) = Some m \<longrightarrow> told_mode i (w_log w) = Some (mode_triple m)))"

definition balance_ok :: "out_world \<Rightarrow> bool" where
  "balance_ok w \<longleftrightarrow> (\<forall>i c s. live w i = Some c \<longrightarrow> surface_client w s = Some c \<longrightarrow>
     entered s i (w_log w) = (if s \<in> set (o_surfaces (w_out w)) then 1 else 0))"

definition out_inv :: "out_world \<Rightarrow> bool" where
  "out_inv w \<longleftrightarrow> modes_ok (w_out w) \<and> objs_ok w \<and> log_ok w \<and> view_ok w \<and> balance_ok w"

lemma live_cong: "w_wl w' = w_wl w \<Longrightarrow> live w' = live w"
  by (simp add: live_def upgrade_def fun_eq_iff)

lemma live_update [simp]:
  "live (w\<lparr>w_out := x\<rparr>) = live w" "live (w\<lparr>w_xdg := y\<rparr>) = live w" "live (w\<lparr>w_surfaces := z\<rparr>) = live w"
  "live (w\<lparr>w_client_scale := c\<rparr>) = live w" "live (w\<lparr>w_log := l\<rparr>) = live w"
  by (rule live_cong, simp)+

lemma surface_client_cong: "w_surfaces w' = w_surfaces w \<Longrightarrow> surface_client w' = surface_client w"
  by (simp add: surface_client_def fun_eq_iff)

text \<open>Two worlds that differ in what the invariant does not look at.\<close>

definition similar :: "out_world \<Rightarrow> out_world \<Rightarrow> bool" where
  "similar w w' \<longleftrightarrow> w_surfaces w' = w_surfaces w \<and> live w' = live w \<and> (\<forall>i. w_wl w' i = None \<longleftrightarrow> w_wl w i = None) \<and>
     o_instances (w_out w') = o_instances (w_out w) \<and> o_surfaces (w_out w') = o_surfaces (w_out w) \<and>
     o_handle (w_out w') = o_handle (w_out w)"

lemma similar_refl: "similar w w"
  by (simp add: similar_def)

lemma similar_trans: "similar u v \<Longrightarrow> similar v w \<Longrightarrow> similar u w"
  by (simp add: similar_def)

lemma similar_objs: "similar w w' \<Longrightarrow> objs_ok w \<Longrightarrow> objs_ok w'"
  by (simp add: similar_def objs_ok_def)

lemma similar_log:
  assumes "similar w w'" "log_ok w" "w_log w' = w_log w @ evs"
    and "\<forall>e\<in>set evs. \<forall>i. ev_target e = Some i \<longrightarrow> w_wl w i \<noteq> None"
    and "\<forall>s i. w_surfaces w s = None \<longrightarrow> entered s i evs = 0"
  shows "log_ok w'"
  unfolding log_ok_def
proof (intro conjI allI impI ballI)
  fix i e assume i: "w_wl w' i = None" and e: "e \<in> set (w_log w')"
  then have "w_wl w i = None" using assms(1) by (simp add: similar_def)
  with e assms(2-4) show "ev_target e \<noteq> Some i" unfolding log_ok_def by auto
next
  fix s i assume "w_surfaces w' s = None"
  then have "w_surfaces w s = None" using assms(1) by (simp add: similar_def)
  with assms(2,3,5) show "entered s i (w_log w') = 0" unfolding log_ok_def by (simp add: told_append)
qed

lemma similar_balance:
  assumes "similar w w'" "balance_ok w" "w_log w' = w_log w @ evs" "\<forall>s i. entered s i evs = 0"
  shows "balance_ok w'"
  unfolding balance_ok_def
proof (intro allI impI)
  fix i c s assume "live w' i = Some c" "surface_client w' s = Some c"
  then have "live w i = Some c" "surface_client w s = Some c"
    using assms(1) surface_client_cong[of w' w] by (simp_all add: similar_def)
  then show "entered s i (w_log w') = (if s \<in> set (o_surfaces (w_out w')) then 1 else 0)"
    using assms unfolding balance_ok_def by (simp add: told_append similar_def)
qed

subsection \<open>Telling the clients\<close>

lemma no_target_if: "\<forall>e\<in>set es. ev_target e = None \<Longrightarrow> \<forall>e\<in>set (if A then es else []). ev_target e = None"
  by simp

lemma xdg_instance_events_target:
  "\<forall>e\<in>set (xdg_instance_events nm ns nl nt xo x ob cs). ev_target e = None"
  unfolding xdg_instance_events_def Let_def set_append ball_Un
  by (intro conjI no_target_if) (auto split: option.splits)

lemma xdg_notify_similar:
  "similar w (xdg_notify nm ns nl nt xo xs w) \<and> w_wl (xdg_notify nm ns nl nt xo xs w) = w_wl w \<and>
    w_out (xdg_notify nm ns nl nt xo xs w) = w_out w \<and>
    (\<exists>evs. w_log (xdg_notify nm ns nl nt xo xs w) = w_log w @ evs \<and> (\<forall>e\<in>set evs. ev_target e = None))"
proof (induction nm ns nl nt xo xs w rule: xdg_notify.induct)
  case (1 nm ns nl nt xo w)
  then show ?case by (simp add: similar_refl)
next
  case (2 nm ns nl nt xo x xs w)
  show ?case
  proof (cases "upgrade (w_xdg w) x")
    case None
    with 2(1) show ?thesis by simp
  next
    case (Some ob)
    define cs where "cs = w_client_scale w (po_client ob)"
    define evs where "evs = xdg_instance_events nm ns nl nt xo x ob cs"
    define w1 where "w1 = emit evs (w\<lparr>w_xdg := (w_xdg w)(x \<mapsto> ob\<lparr>po_last_scale := cs\<rparr>)\<rparr>)"
    have eq: "xdg_notify nm ns nl nt xo (x # xs) w = xdg_notify nm ns nl nt xo xs w1"
      using Some by (simp add: Let_def w1_def evs_def cs_def)
    have t: "\<forall>e\<in>set evs. ev_target e = None"
      unfolding evs_def by (rule xdg_instance_events_target)
    have lv: "live w1 = live w" by (rule live_cong) (simp add: w1_def)
    have s: "similar w w1" "w_wl w1 = w_wl w" "w_out w1 = w_out w" "w_log w1 = w_log w @ evs"
      unfolding similar_def lv by (simp_all add: w1_def)
    from 2(2)[OF Some cs_def evs_def] have
      "similar w1 (xdg_notify nm ns nl nt xo xs w1) \<and> w_wl (xdg_notify nm ns nl nt xo xs w1) = w_wl w1 \<and>
       w_out (xdg_notify nm ns nl nt xo xs w1) = w_out w1 \<and>
       (\<exists>evs. w_log (xdg_notify nm ns nl nt xo xs w1) = w_log w1 @ evs \<and> (\<forall>e\<in>set evs. ev_target e = None))"
      by (simp add: w1_def)
    then obtain evs' where ih: "similar w1 (xdg_notify nm ns nl nt xo xs w1)"
      "w_wl (xdg_notify nm ns nl nt xo xs w1) = w_wl w1" "w_out (xdg_notify nm ns nl nt xo xs w1) = w_out w1"
      "w_log (xdg_notify nm ns nl nt xo xs w1) = w_log w1 @ evs'" "\<forall>e\<in>set evs'. ev_target e = None"
      by blast
    have "w_log (xdg_notify nm ns nl nt xo xs w1) = w_log w @ (evs @ evs')" "\<forall>e\<in>set (evs @ evs'). ev_target e = None"
      using ih s t by auto
    then show ?thesis unfolding eq using ih(1-3) s similar_trans[OF s(1) ih(1)] by metis
  qed
qed

text \<open>What one change tells one instance.\<close>

lemma wl_instance_events_told:
  "told_geometry i (wl_instance_events nm nt ns nl out i ob cs) =
     (if nt \<noteq> None \<or> nl \<noteq> None then Some (out_geometry out) else None)"
  "told_mode i (wl_instance_events nm nt ns nl out i ob cs) = map_option mode_triple nm"
  "entered s j (wl_instance_events nm nt ns nl out i ob cs) = 0"
  "\<forall>e\<in>set (wl_instance_events nm nt ns nl out i ob cs). ev_target e = Some i"
  by (auto simp: wl_instance_events_def Let_def told_append send_geometry_to_def out_geometry_def mode_triple_def
      split: option.splits)

lemma wl_notify_told:
  assumes "distinct js"
  shows "similar w (wl_notify nm nt ns nl js w) \<and> w_out (wl_notify nm nt ns nl js w) = w_out w \<and>
    (\<exists>evs. w_log (wl_notify nm nt ns nl js w) = w_log w @ evs \<and> (\<forall>e\<in>set evs. \<forall>i. ev_target e = Some i \<longrightarrow> i \<in> set js \<and> live w i \<noteq> None) \<and>
      (\<forall>s i. entered s i evs = 0) \<and>
      (\<forall>i\<in>set js. live w i \<noteq> None \<longrightarrow>
         told_geometry i evs = (if nt \<noteq> None \<or> nl \<noteq> None then Some (out_geometry (w_out w)) else None) \<and>
         told_mode i evs = map_option mode_triple nm))"
  using assms
proof (induction js arbitrary: w)
  case Nil
  then show ?case by (simp add: similar_refl)
next
  case (Cons i js)
  show ?case
  proof (cases "upgrade (w_wl w) i")
    case None
    then have dead: "live w i = None" by (simp add: live_def)
    have eq: "wl_notify nm nt ns nl (i # js) w = wl_notify nm nt ns nl js w" using None by simp
    have d: "distinct js" using Cons.prems by simp
    show ?thesis unfolding eq
      by (rule conj_forward[OF Cons.IH[OF d]], assumption, erule conj_forward, assumption)
        (use dead in auto)
  next
    case (Some ob)
    define cs where "cs = w_client_scale w (po_client ob)"
    define evs where "evs = wl_instance_events nm nt ns nl (w_out w) i ob cs"
    define w1 where "w1 = emit evs (w\<lparr>w_wl := (w_wl w)(i \<mapsto> ob\<lparr>po_last_scale := cs\<rparr>)\<rparr>)"
    note told = wl_instance_events_told[where i = i and nm = nm and nt = nt and ns = ns and nl = nl
        and out = "w_out w" and ob = ob and cs = cs, folded evs_def]
    have eq: "wl_notify nm nt ns nl (i # js) w = wl_notify nm nt ns nl js w1"
      using Some by (simp add: Let_def w1_def evs_def cs_def)
    have wi: "w_wl w i = Some ob" "po_alive ob" using Some by (auto simp: upgrade_def split: option.splits if_splits)
    have lv: "live w1 = live w" using wi by (auto simp: live_def w1_def upgrade_def fun_eq_iff)
    have s: "similar w w1" "w_out w1 = w_out w" "w_log w1 = w_log w @ evs"
      using wi lv by (auto simp: similar_def w1_def)
    obtain evs' where ih: "similar w1 (wl_notify nm nt ns nl js w1)" "w_out (wl_notify nm nt ns nl js w1) = w_out w1"
      "w_log (wl_notify nm nt ns nl js w1) = w_log w1 @ evs'"
      "\<forall>e\<in>set evs'. \<forall>i. ev_target e = Some i \<longrightarrow> i \<in> set js \<and> live w1 i \<noteq> None" "\<forall>s i. entered s i evs' = 0"
      "\<forall>i\<in>set js. live w1 i \<noteq> None \<longrightarrow>
         told_geometry i evs' = (if nt \<noteq> None \<or> nl \<noteq> None then Some (out_geometry (w_out w1)) else None) \<and>
         told_mode i evs' = map_option mode_triple nm"
      using Cons by fastforce
    have "live w i \<noteq> None" using Some by (simp add: live_def)
    then have "\<forall>e\<in>set (evs @ evs'). \<forall>j. ev_target e = Some j \<longrightarrow> j \<in> set (i # js) \<and> live w j \<noteq> None"
      using told(4) ih(4) lv by auto
    moreover have "\<forall>s j. entered s j (evs @ evs') = 0" using told(3) ih(5) by (simp add: told_append)
    moreover have "told_geometry j (evs @ evs') = (if nt \<noteq> None \<or> nl \<noteq> None then Some (out_geometry (w_out w)) else None) \<and>
         told_mode j (evs @ evs') = map_option mode_triple nm" if j: "j \<in> set (i # js)" "live w j \<noteq> None" for j
    proof (cases "j = i")
      case True
      then have "\<forall>e\<in>set evs'. ev_target e \<noteq> Some j" using Cons.prems ih(4) by auto
      then show ?thesis using True told(1,2) by (simp add: told_append told_other)
    next
      case False
      then have "\<forall>e\<in>set evs. ev_target e \<noteq> Some j" using told(4) by auto
      then show ?thesis using j False ih(6) lv s(2) by (auto simp: told_append told_other split: option.splits)
    qed
    moreover have "w_log (wl_notify nm nt ns nl js w1) = w_log w @ (evs @ evs')" using ih(3) s(3) by simp
    ultimately show ?thesis unfolding eq using ih(1,2) s similar_trans[OF s(1) ih(1)] by metis
  qed
qed


lemma change_state_same:
  "o_instances (change_state nm nt ns nl out) = o_instances out"
  "o_surfaces (change_state nm nt ns nl out) = o_surfaces out"
  "o_handle (change_state nm nt ns nl out) = o_handle out"
  "o_xdg_output (change_state nm nt ns nl out) = o_xdg_output out"
  "nt = None \<Longrightarrow> nl = None \<Longrightarrow> out_geometry (change_state nm nt ns nl out) = out_geometry out"
  "nm = None \<Longrightarrow> o_current_mode (change_state nm nt ns nl out) = o_current_mode out"
  "nm = Some m \<Longrightarrow> o_current_mode (change_state nm nt ns nl out) = Some m"
  by (auto simp: change_state_def add_mode_def out_geometry_def Let_def split: option.splits)

text \<open>One whole change: what it does to the output, and what it tells.\<close>

lemma change_told:
  fixes nm :: "mode option" and nt :: "transform option" and ns :: "out_scale option" and nl :: "point option"
  assumes "objs_ok w"
  defines "out' \<equiv> change_state nm nt ns nl (w_out w)"
  shows "\<exists>xo evs. similar w (change_current_state nm nt ns nl w) \<and>
    w_out (change_current_state nm nt ns nl w) = out'\<lparr>o_xdg_output := xo\<rparr> \<and>
    w_log (change_current_state nm nt ns nl w) = w_log w @ evs \<and>
    (\<forall>e\<in>set evs. \<forall>i. ev_target e = Some i \<longrightarrow> live w i \<noteq> None) \<and> (\<forall>s i. entered s i evs = 0) \<and>
    (\<forall>i\<in>set (o_instances (w_out w)).
       told_geometry i evs = (if nt \<noteq> None \<or> nl \<noteq> None then Some (out_geometry out') else None) \<and>
       told_mode i evs = map_option mode_triple nm)"
proof -
  define w0 where "w0 = w\<lparr>w_out := out'\<rparr>"
  have inst: "o_instances out' = o_instances (w_out w)" unfolding out'_def by (rule change_state_same(1))
  have lv0: "live w0 = live w" by (rule live_cong) (simp add: w0_def)
  have s0: "w_log w0 = w_log w" "w_out w0 = out'" by (simp_all add: w0_def)
  have sim0: "similar w w0" unfolding similar_def lv0 by (simp add: w0_def out'_def change_state_same)
  define w1 where "w1 = (case o_xdg_output (w_out w0) of
                 None \<Rightarrow> w0
               | Some xo \<Rightarrow>
                   let xo = xdg_change_state nm ns nl nt xo
                   in xdg_notify nm ns nl nt xo (xo_instances xo) (w0\<lparr>w_out := (w_out w0)\<lparr>o_xdg_output := Some xo\<rparr>\<rparr>))"
  have w1: "similar w0 w1 \<and> (\<exists>xo evs. w_out w1 = out'\<lparr>o_xdg_output := xo\<rparr> \<and> w_log w1 = w_log w0 @ evs \<and>
      (\<forall>e\<in>set evs. ev_target e = None))"
  proof (cases "o_xdg_output out'")
    case None
    then have "w1 = w0" by (simp add: w1_def s0(2))
    moreover have "out' = out'\<lparr>o_xdg_output := None\<rparr>" using None by simp
    ultimately show ?thesis using s0(2) similar_refl by (metis append_Nil2 empty_iff list.set(1))
  next
    case (Some xo)
    define xo' where "xo' = xdg_change_state nm ns nl nt xo"
    define v where "v = w0\<lparr>w_out := out'\<lparr>o_xdg_output := Some xo'\<rparr>\<rparr>"
    have eq: "w1 = xdg_notify nm ns nl nt xo' (xo_instances xo') v"
      using Some by (simp add: w1_def xo'_def v_def Let_def s0(2))
    have "live v = live w0" by (rule live_cong) (simp add: v_def)
    then have "similar w0 v" by (simp add: similar_def v_def s0(2))
    moreover have "w_log v = w_log w0" "w_out v = out'\<lparr>o_xdg_output := Some xo'\<rparr>" by (simp_all add: v_def)
    ultimately show ?thesis
      using xdg_notify_similar[of v nm ns nl nt xo' "xo_instances xo'"] similar_trans unfolding eq by metis
  qed
  then obtain xo evs1 where x: "similar w0 w1" "w_out w1 = out'\<lparr>o_xdg_output := xo\<rparr>" "w_log w1 = w_log w0 @ evs1"
    "\<forall>e\<in>set evs1. ev_target e = None" by blast
  have d: "distinct (o_instances out')" using assms(1) by (simp add: objs_ok_def inst)
  have i1: "o_instances (w_out w1) = o_instances out'" by (simp add: x(2))
  have eq: "change_current_state nm nt ns nl w = wl_notify nm nt ns nl (o_instances out') w1"
    unfolding change_current_state_def wl_change_current_state_def Let_def out'_def[symmetric] w0_def[symmetric]
    by (simp only: w1_def[unfolded Let_def, symmetric] i1)
  have sw1: "similar w w1" by (rule similar_trans[OF sim0 x(1)])
  obtain evs2 where n: "similar w1 (wl_notify nm nt ns nl (o_instances out') w1)"
    "w_out (wl_notify nm nt ns nl (o_instances out') w1) = w_out w1"
    "w_log (wl_notify nm nt ns nl (o_instances out') w1) = w_log w1 @ evs2"
    "\<forall>e\<in>set evs2. \<forall>i. ev_target e = Some i \<longrightarrow> i \<in> set (o_instances out') \<and> live w1 i \<noteq> None"
    "\<forall>s i. entered s i evs2 = 0"
    "\<forall>i\<in>set (o_instances out'). live w1 i \<noteq> None \<longrightarrow>
         told_geometry i evs2 = (if nt \<noteq> None \<or> nl \<noteq> None then Some (out_geometry (w_out w1)) else None) \<and>
         told_mode i evs2 = map_option mode_triple nm"
    using wl_notify_told[OF d, of w1 nm nt ns nl] by blast
  have lv: "live w1 = live w" using sw1 by (simp add: similar_def)
  have no: "\<forall>e\<in>set evs1. ev_target e \<noteq> Some i" for i using x(4) by simp
  have geo: "out_geometry (w_out w1) = out_geometry out'" by (simp add: x(2) out_geometry_def)
  have "w_log (change_current_state nm nt ns nl w) = w_log w @ (evs1 @ evs2)"
    unfolding eq n(3) x(3) s0(1) by simp
  moreover have "\<forall>e\<in>set (evs1 @ evs2). \<forall>i. ev_target e = Some i \<longrightarrow> live w i \<noteq> None"
    using x(4) n(4) lv by auto
  moreover have "\<forall>s i. entered s i (evs1 @ evs2) = 0" using n(5) told_other(3)[OF no] by (simp add: told_append)
  moreover have "\<forall>i\<in>set (o_instances (w_out w)).
       told_geometry i (evs1 @ evs2) = (if nt \<noteq> None \<or> nl \<noteq> None then Some (out_geometry out') else None) \<and>
       told_mode i (evs1 @ evs2) = map_option mode_triple nm"
    using n(6) assms(1) told_other(1,2)[OF no] unfolding lv geo inst objs_ok_def by (cases nm) (simp_all add: told_append)
  moreover have "similar w (change_current_state nm nt ns nl w)"
    unfolding eq by (rule similar_trans[OF sw1 n(1)])
  moreover have "w_out (change_current_state nm nt ns nl w) = out'\<lparr>o_xdg_output := xo\<rparr>"
    unfolding eq n(2) by (rule x(2))
  ultimately show ?thesis by blast
qed


subsection \<open>Every step keeps the invariant\<close>

lemma out_invI:
  "modes_ok (w_out w) \<Longrightarrow> objs_ok w \<Longrightarrow> log_ok w \<Longrightarrow> view_ok w \<Longrightarrow> balance_ok w \<Longrightarrow> out_inv w"
  by (simp add: out_inv_def)

lemma out_invD:
  "out_inv w \<Longrightarrow> modes_ok (w_out w)" "out_inv w \<Longrightarrow> objs_ok w" "out_inv w \<Longrightarrow> log_ok w"
  "out_inv w \<Longrightarrow> view_ok w" "out_inv w \<Longrightarrow> balance_ok w"
  by (simp_all add: out_inv_def)

lemma change_keeps:
  fixes nm :: "mode option"
  assumes inv: "out_inv w"
  shows "out_inv (change_current_state nm nt ns nl w)"
proof -
  define out' where "out' = change_state nm nt ns nl (w_out w)"
  define w' where "w' = change_current_state nm nt ns nl w"
  obtain xo evs where c: "similar w w'" "w_out w' = out'\<lparr>o_xdg_output := xo\<rparr>" "w_log w' = w_log w @ evs"
    "\<forall>e\<in>set evs. \<forall>i. ev_target e = Some i \<longrightarrow> live w i \<noteq> None" "\<forall>s i. entered s i evs = 0"
    "\<forall>i\<in>set (o_instances (w_out w)).
       told_geometry i evs = (if nt \<noteq> None \<or> nl \<noteq> None then Some (out_geometry out') else None) \<and>
       told_mode i evs = map_option mode_triple nm"
    using change_told[OF out_invD(2)[OF inv], of nm nt ns nl] unfolding out'_def w'_def by blast
  have "modes_ok (w_out w')"
    using modes_ok_ops(4)[OF out_invD(1)[OF inv], of nm nt ns nl] unfolding c(2) out'_def[symmetric]
    by (simp add: modes_ok_def)
  moreover have "objs_ok w'" by (rule similar_objs[OF c(1) out_invD(2)[OF inv]])
  moreover have "\<forall>e\<in>set evs. \<forall>i. ev_target e = Some i \<longrightarrow> w_wl w i \<noteq> None"
    using c(4) by (auto simp: live_def upgrade_def split: option.splits)
  then have "log_ok w'"
    by (intro similar_log[OF c(1) out_invD(3)[OF inv] c(3)]) (simp_all add: c(5))
  moreover have "view_ok w'"
    unfolding view_ok_def
  proof
    fix i assume "i \<in> set (o_instances (w_out w'))"
    then have i: "i \<in> set (o_instances (w_out w))" using c(1) by (simp add: similar_def)
    then have old: "told_geometry i (w_log w) = Some (out_geometry (w_out w))"
      "\<And>m. o_current_mode (w_out w) = Some m \<Longrightarrow> told_mode i (w_log w) = Some (mode_triple m)"
      using out_invD(4)[OF inv] by (simp_all add: view_ok_def)
    have new: "told_geometry i evs = (if nt \<noteq> None \<or> nl \<noteq> None then Some (out_geometry out') else None)"
      "told_mode i evs = map_option mode_triple nm" using c(6) i by simp_all
    have "told_geometry i (w_log w') = Some (out_geometry out')"
      using old(1) new(1) change_state_same(5)[of nt nl nm ns "w_out w"]
      by (simp add: c(3) told_append out'_def split: option.splits)
    moreover have "told_mode i (w_log w') = Some (mode_triple m)" if "o_current_mode out' = Some m" for m
    proof (cases nm)
      case None
      then have "o_current_mode (w_out w) = Some m" using that change_state_same(6) by (simp add: out'_def)
      with old(2) new(2) None show ?thesis by (simp add: c(3) told_append)
    next
      case (Some n)
      then have "n = m" using that change_state_same(7)[OF Some] by (simp add: out'_def)
      with new(2) Some show ?thesis by (simp add: c(3) told_append)
    qed
    ultimately show "told_geometry i (w_log w') = Some (out_geometry (w_out w')) \<and>
        (\<forall>m. o_current_mode (w_out w') = Some m \<longrightarrow> told_mode i (w_log w') = Some (mode_triple m))"
      by (simp add: c(2) out_geometry_def)
  qed
  moreover have "balance_ok w'"
    by (rule similar_balance[OF c(1) out_invD(5)[OF inv] c(3,5)])
  ultimately show ?thesis unfolding w'_def[symmetric] by (rule out_invI)
qed

text \<open>Steps that send nothing and keep instances, surfaces and handle.\<close>

lemma silent_keeps:
  assumes inv: "out_inv w" and s: "similar w w'" "w_log w' = w_log w" "modes_ok (w_out w')"
    and geo: "out_geometry (w_out w') = out_geometry (w_out w)"
    and cur: "\<And>m. o_current_mode (w_out w') = Some m \<Longrightarrow> o_current_mode (w_out w) = Some m"
  shows "out_inv w'"
proof (rule out_invI)
  have l: "w_log w' = w_log w @ []" using s(2) by simp
  show "objs_ok w'" by (rule similar_objs[OF s(1) out_invD(2)[OF inv]])
  show "log_ok w'" by (rule similar_log[OF s(1) out_invD(3)[OF inv] l]) simp_all
  show "balance_ok w'" by (rule similar_balance[OF s(1) out_invD(5)[OF inv] l]) simp
  show "view_ok w'" using out_invD(4)[OF inv] s(1,2) geo cur by (simp add: view_ok_def similar_def)
qed (rule s(3))

lemma told_bind:
  assumes "modes_ok out"
  shows "o_current_mode out = Some m \<Longrightarrow> told_mode i
      (map (\<lambda>m. Ev_mode i (Some m = o_current_mode out) (Some m = o_preferred_mode out)
             (sw (mode_size m)) (sh (mode_size m)) (mode_refresh m)) (o_modes out)) = Some (mode_triple m)"
    (is "_ \<Longrightarrow> told_mode i (map ?f (o_modes out)) = _")
proof -
  assume cur: "o_current_mode out = Some m"
  have "told_mode i (map ?f ms) = (if m \<in> set ms then Some (mode_triple m) else None)" for ms
    using cur by (induction ms) (auto simp: mode_triple_def)
  then show ?thesis using assms cur by (simp add: modes_ok_def)
qed


lemma entered_sent:
  "distinct xs \<Longrightarrow> entered t j (map (Ev_enter s) xs) = (if t = s \<and> j \<in> set xs then 1 else 0)"
  "distinct xs \<Longrightarrow> entered t j (map (Ev_leave s) xs) = (if t = s \<and> j \<in> set xs then -1 else 0)"
  "distinct ss \<Longrightarrow> entered t j (map (\<lambda>s. Ev_enter s i) ss) = (if j = i \<and> t \<in> set ss then 1 else 0)"
proof -
  show "distinct xs \<Longrightarrow> entered t j (map (Ev_enter s) xs) = (if t = s \<and> j \<in> set xs then 1 else 0)"
    and "distinct xs \<Longrightarrow> entered t j (map (Ev_leave s) xs) = (if t = s \<and> j \<in> set xs then -1 else 0)"
    by (induction xs) auto
  show "distinct ss \<Longrightarrow> entered t j (map (\<lambda>s. Ev_enter s i) ss) = (if j = i \<and> t \<in> set ss then 1 else 0)"
    by (induction ss) auto
qed

lemma told_none:
  "told_geometry i (map (Ev_enter s) xs) = None" "told_geometry i (map (Ev_leave s) xs) = None"
  "told_geometry i (map (\<lambda>s. Ev_enter s j) xs) = None"
  "told_mode i (map (Ev_enter s) xs) = None" "told_mode i (map (Ev_leave s) xs) = None"
  "told_mode i (map (\<lambda>s. Ev_enter s j) xs) = None"
  by (induction xs) simp_all

lemma client_outputs_live:
  "objs_ok w \<Longrightarrow> set (client_outputs w c) = {i. live w i = Some c}"
  by (auto simp: client_outputs_def objs_ok_def live_def split: option.splits)

lemma client_outputs_distinct: "objs_ok w \<Longrightarrow> distinct (client_outputs w c)"
  by (simp add: client_outputs_def objs_ok_def)

lemma client_outputs_cong:
  "w_wl w' = w_wl w \<Longrightarrow> o_instances (w_out w') = o_instances (w_out w) \<Longrightarrow> client_outputs w' = client_outputs w"
  by (simp add: client_outputs_def upgrade_def fun_eq_iff)

text \<open>Steps that change the set of surfaces and send enters or leaves to live instances.\<close>

lemma surfaces_keep:
  assumes inv: "out_inv w" and wl: "w_wl w' = w_wl w" and sf: "w_surfaces w' = w_surfaces w"
    and out: "w_out w' = (w_out w)\<lparr>o_surfaces := ss\<rparr>" and ss: "distinct ss" "\<forall>s\<in>set ss. w_surfaces w s \<noteq> None"
    and log: "w_log w' = w_log w @ evs" and tgt: "\<forall>e\<in>set evs. \<forall>i. ev_target e = Some i \<longrightarrow> live w i \<noteq> None"
    and told: "\<forall>i. told_geometry i evs = None \<and> told_mode i evs = None"
    and un: "\<forall>s i. w_surfaces w s = None \<longrightarrow> entered s i evs = 0"
    and bal: "\<And>i c s. live w i = Some c \<Longrightarrow> surface_client w s = Some c \<Longrightarrow>
      (if s \<in> set (o_surfaces (w_out w)) then 1 else 0) + entered s i evs = (if s \<in> set ss then 1 else 0)"
  shows "out_inv w'"
proof (rule out_invI)
  have lv: "live w' = live w" by (rule live_cong[OF wl])
  have sc: "surface_client w' = surface_client w" by (rule surface_client_cong[OF sf])
  note o = out_invD[OF inv]
  show "modes_ok (w_out w')" using o(1) by (simp add: out modes_ok_def)
  show "objs_ok w'" using o(2) ss by (simp add: objs_ok_def out lv sf)
  show "view_ok w'" using o(4) told by (simp add: view_ok_def out log told_append out_geometry_def)
  show "balance_ok w'" using o(5) bal unfolding balance_ok_def lv sc by (simp add: log told_append out)
  have live_known: "live w i \<noteq> None \<Longrightarrow> w_wl w i \<noteq> None" for i
    by (auto simp: live_def upgrade_def split: option.splits)
  show "log_ok w'" unfolding log_ok_def wl sf log
  proof (intro conjI allI impI ballI)
    fix i e assume i: "w_wl w i = None" and e: "e \<in> set (w_log w @ evs)"
    have "live w i = None" using live_known i by blast
    then show "ev_target e \<noteq> Some i" using e i o(3) tgt unfolding log_ok_def by auto
  next
    fix s i assume "w_surfaces w s = None"
    then show "entered s i (w_log w @ evs) = 0" using o(3) un by (simp add: log_ok_def told_append)
  qed
qed

lemma ev_target_sent:
  "e \<in> set (map (Ev_enter s) xs) \<Longrightarrow> ev_target e = Some i \<Longrightarrow> i \<in> set xs"
  "e \<in> set (map (Ev_leave s) xs) \<Longrightarrow> ev_target e = Some i \<Longrightarrow> i \<in> set xs"
  by auto

lemma handle_live: "objs_ok w \<Longrightarrow> live w i = Some c \<Longrightarrow> o_handle (w_out w)"
proof -
  assume o: "objs_ok w" and "live w i = Some c"
  then have "i \<in> set (o_instances (w_out w))" unfolding objs_ok_def by simp
  with o show "o_handle (w_out w)" unfolding objs_ok_def by (metis empty_iff list.set(1))
qed

lemma surface_client_known: "surface_client w s = Some c \<Longrightarrow> w_surfaces w s \<noteq> None"
  by (auto simp: surface_client_def split: option.splits)

lemma enter_keeps:
  assumes inv: "out_inv w" and known: "w_surfaces w s \<noteq> None"
  shows "out_inv (output_enter s w)"
proof (cases "s \<in> set (o_surfaces (w_out w))")
  case True
  with inv show ?thesis by (simp add: output_enter_def)
next
  case new: False
  note ob = out_invD(2)[OF inv]
  define w1 where "w1 = w\<lparr>w_out := (w_out w)\<lparr>o_surfaces := o_surfaces (w_out w) @ [s]\<rparr>\<rparr>"
  define evs where "evs = (case (if o_handle (w_out w) then surface_client w s else None) of
      None \<Rightarrow> [] | Some client \<Rightarrow> map (Ev_enter s) (client_outputs w client))"
  have sc: "surface_client w1 = surface_client w" by (rule surface_client_cong) (simp add: w1_def)
  have co: "client_outputs w1 = client_outputs w" by (rule client_outputs_cong) (simp_all add: w1_def)
  have eq: "output_enter s w = emit evs w1"
    using new unfolding output_enter_def Let_def w1_def[symmetric] sc co
    by (simp add: w1_def evs_def split: option.split)
  show ?thesis
  proof (rule surfaces_keep[OF inv, where ss = "o_surfaces (w_out w) @ [s]" and evs = evs])
    show "distinct (o_surfaces (w_out w) @ [s])" "\<forall>t\<in>set (o_surfaces (w_out w) @ [s]). w_surfaces w t \<noteq> None"
      using ob new known by (simp_all add: objs_ok_def)
    show "\<forall>e\<in>set evs. \<forall>i. ev_target e = Some i \<longrightarrow> live w i \<noteq> None"
      using client_outputs_live[OF ob] by (auto simp: evs_def split: option.splits) (metis option.distinct(1))+
    show "\<forall>i. told_geometry i evs = None \<and> told_mode i evs = None"
      by (simp add: evs_def told_none split: option.split)
    show "\<forall>t i. w_surfaces w t = None \<longrightarrow> entered t i evs = 0"
      using known by (auto simp: evs_def entered_sent(1) client_outputs_distinct[OF ob] split: option.splits)
    show "(if t \<in> set (o_surfaces (w_out w)) then 1 else 0) + entered t i evs =
        (if t \<in> set (o_surfaces (w_out w) @ [s]) then 1 else 0)"
      if l: "live w i = Some c" "surface_client w t = Some c" for i c t
      using l new handle_live[OF ob l(1)] client_outputs_live[OF ob, of c]
      by (auto simp: evs_def entered_sent(1) client_outputs_distinct[OF ob] split: option.splits)
  qed (simp_all add: eq w1_def)
qed

lemma leave_keeps:
  assumes inv: "out_inv w"
  shows "out_inv (output_leave s w)"
proof (cases "s \<in> set (o_surfaces (w_out w))")
  case False
  with inv show ?thesis by (simp add: output_leave_def)
next
  case old: True
  note ob = out_invD(2)[OF inv]
  define ss where "ss = filter (\<lambda>t. t \<noteq> s) (o_surfaces (w_out w))"
  define w1 where "w1 = w\<lparr>w_out := (w_out w)\<lparr>o_surfaces := ss\<rparr>\<rparr>"
  define evs where "evs = (case (if o_handle (w_out w) then surface_client w s else None) of
      None \<Rightarrow> [] | Some client \<Rightarrow> map (Ev_leave s) (client_outputs w client))"
  have sc: "surface_client w1 = surface_client w" by (rule surface_client_cong) (simp add: w1_def)
  have co: "client_outputs w1 = client_outputs w" by (rule client_outputs_cong) (simp_all add: w1_def)
  have eq: "output_leave s w = emit evs w1"
    using old unfolding output_leave_def Let_def ss_def[symmetric] w1_def[symmetric] sc co
    by (simp add: w1_def evs_def split: option.split)
  show ?thesis
  proof (rule surfaces_keep[OF inv, where ss = ss and evs = evs])
    show "distinct ss" "\<forall>t\<in>set ss. w_surfaces w t \<noteq> None"
      using ob by (simp_all add: objs_ok_def ss_def)
    show "\<forall>e\<in>set evs. \<forall>i. ev_target e = Some i \<longrightarrow> live w i \<noteq> None"
      using client_outputs_live[OF ob] by (auto simp: evs_def split: option.splits) (metis option.distinct(1))+
    show "\<forall>i. told_geometry i evs = None \<and> told_mode i evs = None"
      by (simp add: evs_def told_none split: option.split)
    show "\<forall>t i. w_surfaces w t = None \<longrightarrow> entered t i evs = 0"
      using old ob by (auto simp: evs_def entered_sent(2) client_outputs_distinct[OF ob] objs_ok_def split: option.splits)
    show "(if t \<in> set (o_surfaces (w_out w)) then 1 else 0) + entered t i evs = (if t \<in> set ss then 1 else 0)"
      if l: "live w i = Some c" "surface_client w t = Some c" for i c t
      using l old handle_live[OF ob l(1)] client_outputs_live[OF ob, of c]
      by (auto simp: ss_def evs_def entered_sent(2) client_outputs_distinct[OF ob] split: option.splits)
  qed (simp_all add: eq w1_def)
qed


definition leave_events :: "out_world \<Rightarrow> nat \<Rightarrow> out_event list" where
  "leave_events w s = (case surface_client w s of None \<Rightarrow> [] | Some client \<Rightarrow> map (Ev_leave s) (client_outputs w client))"

lemma leave_events_entered:
  assumes "objs_ok w"
  shows "entered t j (leave_events w s) = (if t = s \<and> live w j \<noteq> None \<and> live w j = surface_client w s then -1 else 0)"
    "told_geometry i (leave_events w s) = None" "told_mode i (leave_events w s) = None"
    "e \<in> set (leave_events w s) \<Longrightarrow> ev_target e = Some i \<Longrightarrow> live w i \<noteq> None"
proof -
  show "entered t j (leave_events w s) = (if t = s \<and> live w j \<noteq> None \<and> live w j = surface_client w s then -1 else 0)"
    using client_outputs_live[OF assms]
    by (auto simp: leave_events_def entered_sent(2) client_outputs_distinct[OF assms] split: option.split)
  show "told_geometry i (leave_events w s) = None" "told_mode i (leave_events w s) = None"
    by (simp_all add: leave_events_def told_none split: option.split)
  show "e \<in> set (leave_events w s) \<Longrightarrow> ev_target e = Some i \<Longrightarrow> live w i \<noteq> None"
    using client_outputs_live[OF assms] by (auto simp: leave_events_def split: option.splits) (metis option.distinct(1))+
qed

lemma leave_all_keeps:
  assumes inv: "out_inv w"
  shows "out_inv (output_leave_all w)"
proof -
  note ob = out_invD(2)[OF inv]
  define w1 where "w1 = w\<lparr>w_out := (w_out w)\<lparr>o_surfaces := []\<rparr>\<rparr>"
  define evs where "evs = (if o_handle (w_out w) then concat (map (leave_events w) (o_surfaces (w_out w))) else [])"
  have sc: "surface_client w1 = surface_client w" by (rule surface_client_cong) (simp add: w1_def)
  have co: "client_outputs w1 = client_outputs w" by (rule client_outputs_cong) (simp_all add: w1_def)
  have eq: "output_leave_all w = emit evs w1"
    unfolding output_leave_all_def Let_def w1_def[symmetric] sc co evs_def leave_events_def
    by (simp add: w1_def)
  have told: "told_geometry i (concat (map (leave_events w) ss)) = None \<and>
      told_mode i (concat (map (leave_events w) ss)) = None" for i ss
    by (induction ss) (simp_all add: told_append leave_events_entered(2,3)[OF ob])
  have ent: "distinct ss \<Longrightarrow> entered t j (concat (map (leave_events w) ss)) =
      (if t \<in> set ss \<and> live w j \<noteq> None \<and> live w j = surface_client w t then -1 else 0)" for ss t j
    by (induction ss) (auto simp: told_append leave_events_entered(1)[OF ob])
  have d: "distinct (o_surfaces (w_out w))" using ob by (simp add: objs_ok_def)
  show ?thesis
  proof (rule surfaces_keep[OF inv, where ss = "[]" and evs = evs])
    show "\<forall>e\<in>set evs. \<forall>i. ev_target e = Some i \<longrightarrow> live w i \<noteq> None"
      using leave_events_entered(4)[OF ob] by (auto simp: evs_def simp del: not_None_eq)
    show "\<forall>i. told_geometry i evs = None \<and> told_mode i evs = None" using told by (simp add: evs_def)
    show "\<forall>t i. w_surfaces w t = None \<longrightarrow> entered t i evs = 0"
      using ob by (auto simp: evs_def ent[OF d] objs_ok_def)
    show "(if t \<in> set (o_surfaces (w_out w)) then 1 else 0) + entered t i evs = (if t \<in> set [] then 1 else 0)"
      if l: "live w i = Some c" "surface_client w t = Some c" for i c t
      using l handle_live[OF ob l(1)] by (simp add: evs_def ent[OF d])
  qed (simp_all add: eq w1_def)
qed

lemma cleanup_keeps:
  assumes inv: "out_inv w"
  shows "out_inv (cleanup_surfaces w)"
proof (rule surfaces_keep[OF inv, where ss = "filter (surface_alive w) (o_surfaces (w_out w))" and evs = "[]"])
  show "distinct (filter (surface_alive w) (o_surfaces (w_out w)))"
    "\<forall>t\<in>set (filter (surface_alive w) (o_surfaces (w_out w))). w_surfaces w t \<noteq> None"
    using out_invD(2)[OF inv] by (simp_all add: objs_ok_def)
  show "(if t \<in> set (o_surfaces (w_out w)) then 1 else 0) + entered t i [] =
      (if t \<in> set (filter (surface_alive w) (o_surfaces (w_out w))) then 1 else 0)"
    if "live w i = Some c" "surface_client w t = Some c" for i c t
    using that(2) by (auto simp: surface_client_def surface_alive_def split: option.splits if_splits)
qed (simp_all add: cleanup_surfaces_def)

lemma bind_keeps:
  assumes inv: "out_inv w" and h: "o_handle (w_out w)" and fresh: "w_wl w i = None"
  shows "out_inv (output_bind i client version w)"
proof -
  note o = out_invD[OF inv]
  define w' where "w' = output_bind i client version w"
  define out where "out = w_out w"
  define ss where "ss = filter (\<lambda>s. surface_client w s = Some client) (o_surfaces out)"
  define modes where "modes = map (\<lambda>m. Ev_mode i (Some m = o_current_mode out) (Some m = o_preferred_mode out)
                   (sw (mode_size m)) (sh (mode_size m)) (mode_refresh m)) (o_modes out)"
  define evs where "evs = [send_geometry_to out i] @ modes @
            (if version \<ge> 4 then [Ev_name i (o_name out), Ev_description i (o_description out)] else []) @
            (if version \<ge> 2 then [Ev_scale i (integer_scale (o_scale out)), Ev_done i] else []) @
            map (\<lambda>s. Ev_enter s i) ss"
  have w': "w_out w' = out\<lparr>o_instances := o_instances out @ [i]\<rparr>" "w_surfaces w' = w_surfaces w"
    "w_log w' = w_log w @ evs" "w_wl w' = (w_wl w)(i \<mapsto> \<lparr>po_client = client, po_version = version, po_alive = True,
                po_last_scale = w_client_scale w client\<rparr>)"
    by (simp_all add: w'_def output_bind_def Let_def out_def evs_def modes_def ss_def)
  have lv: "live w' = (live w)(i \<mapsto> client)" by (auto simp: live_def upgrade_def w'(4) fun_eq_iff)
  have li: "live w i = None" using fresh by (simp add: live_def upgrade_def)
  have ni: "i \<notin> set (o_instances out)" using o(2) li by (auto simp: objs_ok_def out_def)
  have tgt: "\<forall>e\<in>set evs. ev_target e = Some i"
    by (auto simp: evs_def modes_def send_geometry_to_def)
  have no: "told_geometry i (map (\<lambda>m. Ev_mode i (f m) (g m) (sw (mode_size m)) (sh (mode_size m)) (mode_refresh m)) ms) = None"
    "entered s j (map (\<lambda>m. Ev_mode i (f m) (g m) (sw (mode_size m)) (sh (mode_size m)) (mode_refresh m)) ms) = 0"
    for s j f g ms
    by (induction ms) simp_all
  have ms: "told_geometry i modes = None" "entered s j modes = 0" for s j
    by (simp_all add: modes_def no)
  have tg: "told_geometry i evs = Some (out_geometry out)"
    by (simp add: evs_def told_append told_none ms send_geometry_to_def out_geometry_def split: option.split)
  have tm: "told_mode i evs = Some (mode_triple m)" if "o_current_mode out = Some m" for m
    using told_bind[OF o(1)[folded out_def] that, of i]
    by (simp add: evs_def told_append told_none modes_def[symmetric] send_geometry_to_def)
  have dss: "distinct ss" using o(2) by (simp add: ss_def objs_ok_def out_def)
  have ent: "entered s j evs = (if j = i \<and> s \<in> set ss then 1 else 0)" for s j
    by (simp add: evs_def told_append ms entered_sent(3)[OF dss] send_geometry_to_def)
  show ?thesis unfolding w'_def[symmetric]
  proof (rule out_invI)
    show "modes_ok (w_out w')" using o(1) by (simp add: w'(1) out_def modes_ok_def)
    show "objs_ok w'" using o(2) h ni li by (auto simp: objs_ok_def w'(1,2) lv out_def)
    show "log_ok w'" unfolding log_ok_def
    proof (intro conjI allI impI ballI)
      fix j e assume j: "w_wl w' j = None" and e: "e \<in> set (w_log w')"
      then have "j \<noteq> i" "w_wl w j = None" by (auto simp: w'(4) split: if_splits)
      then show "ev_target e \<noteq> Some j" using e o(3) tgt unfolding log_ok_def w'(3) by auto
    next
      fix s j assume "w_surfaces w' s = None"
      then have "w_surfaces w s = None" "surface_client w s = None" by (simp_all add: w'(2) surface_client_def)
      then show "entered s j (w_log w') = 0"
        using o(3) by (simp add: log_ok_def w'(3) told_append ent ss_def)
    qed
    show "view_ok w'" unfolding view_ok_def
    proof
      fix j assume j: "j \<in> set (o_instances (w_out w'))"
      show "told_geometry j (w_log w') = Some (out_geometry (w_out w')) \<and>
        (\<forall>m. o_current_mode (w_out w') = Some m \<longrightarrow> told_mode j (w_log w') = Some (mode_triple m))"
      proof (cases "j = i")
        case True
        then show ?thesis using tg tm by (simp add: w'(1,3) told_append out_geometry_def)
      next
        case False
        then have "\<forall>e\<in>set evs. ev_target e \<noteq> Some j" using tgt by simp
        then show ?thesis using False j o(4)
          by (simp add: w'(1,3) told_append told_other view_ok_def out_def out_geometry_def)
      qed
    qed
    show "balance_ok w'" unfolding balance_ok_def
    proof (intro allI impI)
      fix j c s assume j: "live w' j = Some c" and s: "surface_client w' s = Some c"
      have sc: "surface_client w s = Some c" using s surface_client_cong[OF w'(2)] by simp
      show "entered s j (w_log w') = (if s \<in> set (o_surfaces (w_out w')) then 1 else 0)"
      proof (cases "j = i")
        case True
        then have "c = client" using j by (simp add: lv)
        moreover have "entered s i (w_log w) = 0"
          using o(3) fresh by (intro told_other(3)) (simp add: log_ok_def)
        ultimately show ?thesis using True sc by (simp add: w'(1,3) told_append ent ss_def)
      next
        case False
        then show ?thesis using j sc o(5) by (simp add: lv w'(1,3) told_append ent balance_ok_def out_def)
      qed
    qed
  qed
qed


lemma wl_destroyed_keeps:
  assumes inv: "out_inv w" and ob: "w_wl w i = Some ob"
  shows "out_inv (output_destroyed i (w\<lparr>w_wl := (w_wl w)(i \<mapsto> ob\<lparr>po_alive := False\<rparr>)\<rparr>))"
proof -
  note o = out_invD[OF inv]
  define w' where "w' = output_destroyed i (w\<lparr>w_wl := (w_wl w)(i \<mapsto> ob\<lparr>po_alive := False\<rparr>)\<rparr>)"
  have w': "w_out w' = (w_out w)\<lparr>o_instances := filter (\<lambda>j. j \<noteq> i) (o_instances (w_out w))\<rparr>"
    "w_surfaces w' = w_surfaces w" "w_log w' = w_log w" "w_wl w' = (w_wl w)(i \<mapsto> ob\<lparr>po_alive := False\<rparr>)"
    by (simp_all add: w'_def output_destroyed_def)
  have lv: "live w' = (live w)(i := None)" by (auto simp: live_def upgrade_def w'(4) fun_eq_iff)
  show ?thesis unfolding w'_def[symmetric]
  proof (rule out_invI)
    show "modes_ok (w_out w')" using o(1) by (simp add: w'(1) modes_ok_def)
    show "objs_ok w'" using o(2) by (auto simp: objs_ok_def w'(1,2) lv filter_empty_conv)
    show "log_ok w'" using o(3) by (auto simp: log_ok_def w'(2,3,4))
    show "view_ok w'" using o(4) by (auto simp: view_ok_def w'(1,3) out_geometry_def)
    show "balance_ok w'" using o(5) surface_client_cong[OF w'(2)]
      by (auto simp: balance_ok_def lv w'(1,3) split: if_splits)
  qed
qed

lemma get_xdg_keeps:
  assumes inv: "out_inv w" and wl: "upgrade (w_wl w) wl = Some ob"
  shows "out_inv (get_xdg_output x client version wl w)"
proof -
  note o = out_invD[OF inv]
  define w' where "w' = get_xdg_output x client version wl w"
  define xo where "xo = (case o_xdg_output (w_out w) of None \<Rightarrow> xdg_output_new (w_out w) | Some xo \<Rightarrow> xo)"
  define sc where "sc = (case w_wl w wl of None \<Rightarrow> w_client_scale w client | Some wob \<Rightarrow> w_client_scale w (po_client wob))"
  define evs where "evs = xdg_add_instance_events xo sc x version wl"
  have w': "w_out w' = (w_out w)\<lparr>o_xdg_output := Some (xo\<lparr>xo_instances := xo_instances xo @ [x]\<rparr>)\<rparr>"
    "w_surfaces w' = w_surfaces w" "w_log w' = w_log w @ evs" "w_wl w' = w_wl w"
    by (simp_all add: w'_def get_xdg_output_def Let_def xo_def sc_def evs_def)
  have sim: "similar w w'" using live_cong[OF w'(4)] by (simp add: similar_def w')
  have tgt: "e \<in> set evs \<Longrightarrow> ev_target e = None \<or> e = Ev_done wl" for e
    by (auto simp: evs_def xdg_add_instance_events_def Let_def split: option.splits if_splits)
  have none: "\<forall>e\<in>set es. ev_target e = None \<or> e = Ev_done wl \<Longrightarrow>
      told_geometry i es = None \<and> told_mode i es = None \<and> entered s i es = 0" for s i es
    by (induction es) (auto split: out_event.splits)
  have told: "told_geometry i evs = None" "told_mode i evs = None" "entered s i evs = 0" for s i
    using none[of evs i s] tgt by blast+
  show ?thesis unfolding w'_def[symmetric]
  proof (rule out_invI)
    show "modes_ok (w_out w')" using o(1) by (simp add: w'(1) modes_ok_def)
    show "objs_ok w'" by (rule similar_objs[OF sim o(2)])
    have "w_wl w wl \<noteq> None" using wl by (auto simp: upgrade_def split: option.splits)
    then show "log_ok w'" by (intro similar_log[OF sim o(3) w'(3)]) (use tgt told in fastforce)+
    show "view_ok w'" using o(4) told by (simp add: view_ok_def w'(1,3) told_append out_geometry_def)
    show "balance_ok w'" by (rule similar_balance[OF sim o(5) w'(3)]) (simp add: told)
  qed
qed

lemma surface_new_keeps:
  assumes inv: "out_inv w" and new: "w_surfaces w s = None"
  shows "out_inv (w\<lparr>w_surfaces := (w_surfaces w)(s \<mapsto> (client, True))\<rparr>)" (is "out_inv ?w")
proof -
  note o = out_invD[OF inv]
  have lv: "live ?w = live w" by (rule live_cong) simp
  have sc: "surface_client ?w = (surface_client w)(s \<mapsto> client)" by (simp add: surface_client_def fun_eq_iff)
  have s: "s \<notin> set (o_surfaces (w_out w))" using o(2) new by (auto simp: objs_ok_def)
  have e: "entered s i (w_log w) = 0" for i using o(3) new by (simp add: log_ok_def)
  show ?thesis
  proof (rule out_invI)
    show "objs_ok ?w" using o(2) by (auto simp: objs_ok_def lv)
    show "log_ok ?w" using o(3) by (simp add: log_ok_def)
    show "view_ok ?w" using o(4) by (simp add: view_ok_def)
    show "balance_ok ?w" using o(5) s e by (auto simp: balance_ok_def lv sc split: if_splits)
  qed (use o(1) in simp)
qed

lemma surface_gone_keeps:
  assumes inv: "out_inv w" and old: "w_surfaces w s = Some (client, alive)"
  shows "out_inv (w\<lparr>w_surfaces := (w_surfaces w)(s \<mapsto> (client, False))\<rparr>)" (is "out_inv ?w")
proof -
  note o = out_invD[OF inv]
  have lv: "live ?w = live w" by (rule live_cong) simp
  have sc: "surface_client ?w = (surface_client w)(s := None)" by (simp add: surface_client_def fun_eq_iff)
  show ?thesis
  proof (rule out_invI)
    show "objs_ok ?w" using o(2) by (auto simp: objs_ok_def lv)
    show "log_ok ?w" using o(3) by (auto simp: log_ok_def)
    show "view_ok ?w" using o(4) by (simp add: view_ok_def)
    show "balance_ok ?w" using o(5) by (auto simp: balance_ok_def lv sc split: if_splits)
  qed (use o(1) in simp)
qed


lemma out_step_keeps:
  assumes "out_step w w'" "out_inv w"
  shows "out_inv w'"
  using assms(1)
proof cases
  case (Change nm nt ns nl)
  then show ?thesis using change_keeps[OF assms(2)] by simp
next
  case (Add_mode m)
  show ?thesis unfolding Add_mode
    by (rule silent_keeps[OF assms(2)])
      (use modes_ok_ops(1)[OF out_invD(1)[OF assms(2)]] in
        \<open>simp_all add: similar_def add_mode_def out_geometry_def split: if_splits\<close>)
next
  case (Set_preferred m)
  show ?thesis unfolding Set_preferred
    by (rule silent_keeps[OF assms(2)])
      (use modes_ok_ops(2)[OF out_invD(1)[OF assms(2)]] in
        \<open>simp_all add: similar_def set_preferred_def Let_def out_geometry_def split: if_splits\<close>)
next
  case (Delete_mode m)
  show ?thesis unfolding Delete_mode
    by (rule silent_keeps[OF assms(2)])
      (use modes_ok_ops(3)[OF out_invD(1)[OF assms(2)]] in
        \<open>simp_all add: similar_def delete_mode_def Let_def out_geometry_def split: if_splits\<close>)
next
  case Create_global
  show ?thesis unfolding Create_global using assms(2)
    by (simp add: out_inv_def create_global_def modes_ok_def objs_ok_def log_ok_def view_ok_def balance_ok_def
        live_def surface_client_def out_geometry_def)
next
  case (Bind i client version)
  then show ?thesis using bind_keeps[OF assms(2)] by simp
next
  case (Wl_destroyed i ob)
  then show ?thesis using wl_destroyed_keeps[OF assms(2)] by simp
next
  case (Get_xdg x wl ob client version)
  then show ?thesis using get_xdg_keeps[OF assms(2)] by simp
next
  case (Xdg_destroyed x ob)
  show ?thesis unfolding Xdg_destroyed(1)
    by (rule silent_keeps[OF assms(2)])
      (use out_invD(1)[OF assms(2)] in
        \<open>simp_all add: xdg_output_destroyed_def similar_def modes_ok_def out_geometry_def\<close>)
next
  case (Surface_new s client)
  then show ?thesis using surface_new_keeps[OF assms(2)] by simp
next
  case (Surface_gone s client alive)
  then show ?thesis using surface_gone_keeps[OF assms(2)] by simp
next
  case (Client_scale sc)
  show ?thesis unfolding Client_scale
    by (rule silent_keeps[OF assms(2)]) (use out_invD(1)[OF assms(2)] in \<open>simp_all add: similar_def\<close>)
next
  case (Enter s)
  then show ?thesis using enter_keeps[OF assms(2)] by simp
next
  case (Leave s)
  then show ?thesis using leave_keeps[OF assms(2)] by simp
next
  case Leave_all
  then show ?thesis using leave_all_keeps[OF assms(2)] by simp
next
  case Cleanup
  then show ?thesis using cleanup_keeps[OF assms(2)] by simp
qed

lemma out_reachable_inv: "out_reachable w \<Longrightarrow> out_inv w"
proof (induction rule: out_reachable.induct)
  case (Init name physical scales)
  show ?case
    using modes_ok_new[of name physical]
    by (simp add: out_inv_def out_init_def objs_ok_def log_ok_def view_ok_def balance_ok_def live_def
        upgrade_def output_new_def)
next
  case (Step w w')
  then show ?case using out_step_keeps by blast
qed

section \<open>Properties\<close>

text \<open>A client with one \<open>wl_output\<close> and one surface on the output, for the witnesses.\<close>

definition demo_physical :: physical_properties where
  "demo_physical = \<lparr>pp_size = size_new 600 340, pp_subpixel = Sub_unknown, pp_make = ''m'', pp_model = ''n'', pp_serial_number = ''s''\<rparr>"

definition demo_mode :: mode where
  "demo_mode = \<lparr>mode_size = size_new 1920 1080, mode_refresh = 60000\<rparr>"

definition demo_output :: out_world where
  "demo_output =
     output_bind 7 1 2
       (output_enter 5
         (change_current_state (Some demo_mode) (Some T90) None (Some (point_new 10 20))
           (create_global
             ((out_init ''o'' demo_physical (\<lambda>_. Fl_num 2))\<lparr>w_surfaces := [5 \<mapsto> (1, True)]\<rparr>))))"

lemma demo_output_reachable: "out_reachable demo_output"
proof -
  define w0 where "w0 = (out_init ''o'' demo_physical (\<lambda>_. Fl_num 2))\<lparr>w_surfaces := [5 \<mapsto> (1, True)]\<rparr>"
  have "out_step (out_init ''o'' demo_physical (\<lambda>_. Fl_num 2)) w0"
    using out_step.Surface_new[of "out_init ''o'' demo_physical (\<lambda>_. Fl_num 2)" 5 1]
    by (simp add: w0_def out_init_def)
  then have "out_reachable w0" using out_reachable.intros by blast
  then have "out_reachable (create_global w0)" using out_reachable.Step out_step.Create_global by blast
  then have r: "out_reachable (change_current_state (Some demo_mode) (Some T90) None (Some (point_new 10 20)) (create_global w0))"
    (is "out_reachable ?w") using out_reachable.Step out_step.Change by blast
  have w: "w_surfaces ?w 5 \<noteq> None" "w_wl ?w = (\<lambda>_. None)" "o_handle (w_out ?w)" "o_surfaces (w_out ?w) = []"
    "o_instances (w_out ?w) = []"
    by (simp_all add: change_current_state_def wl_change_current_state_def change_state_def add_mode_def
        create_global_def w0_def out_init_def output_new_def)
  then have "out_reachable (output_enter 5 ?w)" using r out_reachable.Step out_step.Enter by blast
  moreover have "o_handle (w_out (output_enter 5 ?w))" "w_wl (output_enter 5 ?w) 7 = None"
    using w by (simp_all add: output_enter_def Let_def client_outputs_def split: option.split)
  ultimately show ?thesis unfolding demo_output_def w0_def[symmetric]
    using out_reachable.Step out_step.Bind by blast
qed

text \<open>C9. What clients were told is what the output is: after any history of state changes, mode
  changes, binds and destructions, the last geometry event of every live \<open>wl_output\<close> instance is
  the output's location and transform, and if the output has a current mode, the last mode event
  with the current flag is that mode. The list of modes has no duplicates and holds the current
  and the preferred mode.\<close>

theorem clients_see_output:
  assumes "out_reachable w" "live w i \<noteq> None"
  shows "told_geometry i (w_log w) = Some (out_geometry (w_out w)) \<and>
    (\<forall>m. o_current_mode (w_out w) = Some m \<longrightarrow> told_mode i (w_log w) = Some (mode_triple m)) \<and> modes_ok (w_out w)"
proof -
  note o = out_invD[OF out_reachable_inv[OF assms(1)]]
  have "i \<in> set (o_instances (w_out w))" using o(2) assms(2) unfolding objs_ok_def by blast
  with o(1,4) show ?thesis unfolding view_ok_def by blast
qed

theorem clients_see_output_witness:
  "told_geometry 7 (w_log demo_output) = Some (10, 20, T90) \<and> told_mode 7 (w_log demo_output) = Some (1920, 1080, 60000)"
proof -
  have "live demo_output 7 \<noteq> None" "out_geometry (w_out demo_output) = (10, 20, T90)"
    "o_current_mode (w_out demo_output) = Some demo_mode"
    by code_simp+
  with clients_see_output[OF demo_output_reachable, of 7] show ?thesis
    by (simp add: mode_triple_def demo_mode_def size_new_def)
qed

text \<open>Surfaces enter and leave outputs exactly once: for every live surface and every live
  \<open>wl_output\<close> instance of its client, the enters sent minus the leaves sent is one if the surface
  is on the output and zero otherwise, whatever the order of binds, enters, leaves,
  \<open>leave_all\<close>, cleanups and destructions.\<close>

theorem enter_leave_balanced:
  assumes "out_reachable w" "live w i = Some c" "surface_client w s = Some c"
  shows "entered s i (w_log w) = (if s \<in> set (o_surfaces (w_out w)) then 1 else 0)"
  using out_invD(5)[OF out_reachable_inv[OF assms(1)]] assms(2,3) unfolding balance_ok_def by blast

theorem enter_leave_balanced_witness: "entered 5 7 (w_log demo_output) = 1"
proof -
  have "live demo_output 7 = Some 1" "surface_client demo_output 5 = Some 1" "5 \<in> set (o_surfaces (w_out demo_output))"
    by code_simp+
  with enter_leave_balanced[OF demo_output_reachable, of 7 1 5] show ?thesis by simp
qed

text \<open>
  The scale told at bind time is the output's integer scale, while every later change divides
  it by the scale of the client: a client with scale 2 is told 2 when it binds an output of
  scale 2, and 1 by a change to the same scale.
\<close>

fun told_scale :: "nat \<Rightarrow> out_event list \<Rightarrow> i32 option" where
  "told_scale i [] = None"
| "told_scale i (e # es) =
     (case told_scale i es of
        Some n \<Rightarrow> Some n
      | None \<Rightarrow> (case e of Ev_scale j n \<Rightarrow> if j = i then Some n else None | _ \<Rightarrow> None))"

lemma bind_scale_ignores_client_scale:
  "let w = output_bind 7 1 2 (change_current_state None None (Some (Scale_integer 2)) None
             (create_global (out_init ''o'' demo_physical (\<lambda>_. Fl_num 2))));
       w' = change_current_state None None (Some (Scale_integer 2)) None w
   in told_scale 7 (w_log w) = Some 2 \<and> told_scale 7 (w_log w') = Some 1"
proof -
  have "fl_to_i32 (fl_ceil (fl_max (fl_div round64 (i32_to_f64 2) (Fl_num 2)) (Fl_num 1))) = 1"
    using round64_i32[of 1] i32_to_f64_exact[of 2]
    by (simp add: in_i32_def fl_ceil_def sat32_def rat_trunc_def)
  then show ?thesis
    by (simp add: Let_def output_bind_def change_current_state_def wl_change_current_state_def change_state_def
        create_global_def out_init_def output_new_def upgrade_def wl_instance_events_def fl_eq_refl_iff
        send_geometry_to_def)
qed


text \<open>The refresh rate of a kernel mode is the nearest millihertz: without interlacing,
  doubled or repeated lines, the result times the pixels per frame differs from the pixel clock by
  at most half a frame of pixels and one line, and no total may be zero, where the conversion
  panics.\<close>

theorem drm_refresh_nearest:
  assumes "\<not> dm_interlace m" "\<not> dm_dblscan m" "dm_vscan m \<le> 1"
  shows "(drm_refresh m = None \<longleftrightarrow> dm_htotal m = 0 \<or> dm_vtotal m = 0) \<and>
    (\<forall>r. drm_refresh m = Some r \<longrightarrow>
       \<bar>int (unat (dm_clock m) * 1000000) - int (r * unat (dm_htotal m) * unat (dm_vtotal m))\<bar>
         \<le> int (unat (dm_htotal m) * (unat (dm_vtotal m) div 2 + 1)))"
proof (intro conjI allI impI)
  show "drm_refresh m = None \<longleftrightarrow> dm_htotal m = 0 \<or> dm_vtotal m = 0"
    by (auto simp: drm_refresh_def Let_def unat_eq_0)
  fix r assume r: "drm_refresh m = Some r"
  define C h v where "C = unat (dm_clock m) * 1000000" and "h = unat (dm_htotal m)" and "v = unat (dm_vtotal m)"
  define a where "a = C div h"
  have pos: "0 < h" "0 < v" and req: "r = (a + v div 2) div v"
    using r assms by (auto simp: drm_refresh_def Let_def h_def v_def C_def a_def not_less split: if_splits)
  have a: "a * h \<le> C" "C \<le> (a + 1) * h"
  proof -
    have "a * h + C mod h = C" "C mod h < h" using pos by (simp_all add: a_def)
    moreover have "(a + 1) * h = a * h + h" by simp
    ultimately show "a * h \<le> C" "C \<le> (a + 1) * h" by linarith+
  qed
  have rv: "r * v \<le> a + v div 2" "a + v div 2 + 1 \<le> r * v + v"
    using pos(2) div_mult_mod_eq[of "a + v div 2" v] mod_less_divisor[of v "a + v div 2"] unfolding req by linarith+
  have "C \<le> (r * v + (v div 2 + 1)) * h"
  proof -
    have "a + 1 \<le> r * v + (v div 2 + 1)" using rv(2) by linarith
    then show ?thesis using a(2) mult_le_mono1 order_trans by blast
  qed
  moreover have "r * v * h \<le> C + (v div 2) * h"
    using mult_le_mono1[OF rv(1), of h] a(1) by (simp add: algebra_simps)
  ultimately have "\<bar>int C - int (r * h * v)\<bar> \<le> int (h * (v div 2 + 1))"
    by (simp add: algebra_simps flip: of_nat_mult of_nat_add)
  then show "\<bar>int (unat (dm_clock m) * 1000000) - int (r * unat (dm_htotal m) * unat (dm_vtotal m))\<bar>
         \<le> int (unat (dm_htotal m) * (unat (dm_vtotal m) div 2 + 1))"
    by (simp only: C_def h_def v_def)
qed

definition hd_mode :: drm_mode where
  "hd_mode = \<lparr>dm_clock = 148500, dm_htotal = 2200, dm_vtotal = 1125, dm_interlace = False, dm_dblscan = False,
     dm_vscan = 0, dm_width = 1920, dm_height = 1080\<rparr>"

theorem drm_refresh_nearest_witness:
  "drm_refresh hd_mode = Some 60000 \<and>
   \<bar>int (unat (dm_clock hd_mode) * 1000000) - int (60000 * unat (dm_htotal hd_mode) * unat (dm_vtotal hd_mode))\<bar>
     \<le> int (unat (dm_htotal hd_mode) * (unat (dm_vtotal hd_mode) div 2 + 1))"
proof -
  have "\<not> dm_interlace hd_mode" "\<not> dm_dblscan hd_mode" "dm_vscan hd_mode \<le> 1" by (simp_all add: hd_mode_def)
  moreover have "drm_refresh hd_mode = Some 60000" by (simp add: drm_refresh_def hd_mode_def Let_def)
  ultimately show ?thesis using drm_refresh_nearest[of hd_mode] by blast
qed

end
