(* ===== verification/Damage.thy ===== *)
theory Damage
  imports Pixels
begin

text \<open>
  Damage history of \<open>src/backend/renderer/utils/mod.rs\<close>: the commit counter, the damage bag with
  its immutable snapshot and the damage set it answers with. A renderer keeps the counter it
  last saw and asks for the damage since then; the contract \<open>damage_log\<close> states what it may
  rely on, and the lemmas derive from it that a renderer that polls never shows a stale pixel.
\<close>

section \<open>Commit counters\<close>

datatype commit_counter = CommitCounter (cc_value: usize)

instantiation commit_counter :: linorder
begin

definition less_eq_commit_counter :: "commit_counter \<Rightarrow> commit_counter \<Rightarrow> bool" where
  "less_eq_commit_counter a b \<longleftrightarrow> cc_value a \<le> cc_value b"

definition less_commit_counter :: "commit_counter \<Rightarrow> commit_counter \<Rightarrow> bool" where
  "less_commit_counter a b \<longleftrightarrow> cc_value a < cc_value b"

instance
  by standard
    (auto simp: less_eq_commit_counter_def less_commit_counter_def intro: commit_counter.expand)

end

definition counter_default :: commit_counter where
  "counter_default = CommitCounter 0"

definition cc_increment :: "commit_counter \<Rightarrow> commit_counter" where
  "cc_increment c = CommitCounter (cc_value c + 1)"

definition cc_distance :: "commit_counter \<Rightarrow> commit_counter option \<Rightarrow> nat option" where
  "cc_distance self previous_commit =
     (case previous_commit of
        None \<Rightarrow> None
      | Some commit \<Rightarrow>
          if commit \<le> self then Some (unat (cc_value self - cc_value commit)) else None)"

definition cc_from :: "usize \<Rightarrow> commit_counter" where
  "cc_from counter = CommitCounter counter"

section \<open>Snapshots and bags\<close>

record damage_snapshot =
  ds_limit :: nat
  ds_commit :: commit_counter
  ds_damage :: "rect list list"

record damage_bag =
  bag_limit :: nat
  bag_state :: damage_snapshot

definition MAX_DAMAGE_AGE :: nat where "MAX_DAMAGE_AGE = 4"

definition snapshot_new :: "nat \<Rightarrow> damage_snapshot" where
  "snapshot_new limit = \<lparr>ds_limit = limit, ds_commit = counter_default, ds_damage = []\<rparr>"

definition snapshot_empty :: damage_snapshot where
  "snapshot_empty = \<lparr>ds_limit = 0, ds_commit = counter_default, ds_damage = []\<rparr>"

definition snapshot_current_commit :: "damage_snapshot \<Rightarrow> commit_counter" where
  "snapshot_current_commit s = ds_commit s"

definition snapshot_raw :: "damage_snapshot \<Rightarrow> rect list list" where
  "snapshot_raw s = ds_damage s"

definition snapshot_reset :: "damage_snapshot \<Rightarrow> damage_snapshot" where
  "snapshot_reset s = s\<lparr>ds_damage := [], ds_commit := cc_increment (ds_commit s)\<rparr>"

definition snapshot_damage_since :: "damage_snapshot \<Rightarrow> commit_counter option \<Rightarrow> rect list option" where
  "snapshot_damage_since s commit =
     (case cc_distance (ds_commit s) commit of
        None \<Rightarrow> None
      | Some distance \<Rightarrow>
          if distance \<le> length (ds_damage s) then Some (concat (take distance (ds_damage s)))
          else None)"

text \<open>Empty rectangles are dropped, then neighbours that are equal (\<open>Vec::dedup\<close>).\<close>

definition snapshot_add :: "rect list \<Rightarrow> damage_snapshot \<Rightarrow> damage_snapshot" where
  "snapshot_add damage s =
     (let damage = filter (\<lambda>d. \<not> rect_is_empty d) damage
      in if damage = [] then s
         else s\<lparr>ds_damage := take (ds_limit s) (remdups_adj damage # ds_damage s),
                ds_commit := cc_increment (ds_commit s)\<rparr>)"

definition bag_new :: "nat \<Rightarrow> damage_bag" where
  "bag_new limit = \<lparr>bag_limit = limit, bag_state = snapshot_new limit\<rparr>"

definition bag_default :: damage_bag where
  "bag_default = bag_new MAX_DAMAGE_AGE"

definition bag_current_commit :: "damage_bag \<Rightarrow> commit_counter" where
  "bag_current_commit b = snapshot_current_commit (bag_state b)"

definition bag_raw :: "damage_bag \<Rightarrow> rect list list" where
  "bag_raw b = snapshot_raw (bag_state b)"

definition bag_reset :: "damage_bag \<Rightarrow> damage_bag" where
  "bag_reset b = b\<lparr>bag_state := snapshot_reset (bag_state b)\<rparr>"

definition bag_snapshot :: "damage_bag \<Rightarrow> damage_snapshot" where
  "bag_snapshot b = bag_state b"

definition bag_add :: "rect list \<Rightarrow> damage_bag \<Rightarrow> damage_bag" where
  "bag_add damage b = b\<lparr>bag_state := snapshot_add damage (bag_state b)\<rparr>"

definition bag_damage_since :: "damage_bag \<Rightarrow> commit_counter option \<Rightarrow> rect list option" where
  "bag_damage_since b commit = snapshot_damage_since (bag_state b) commit"

section \<open>Histories of operations\<close>

datatype bag_op = Bag_add "rect list" | Bag_reset

fun bag_step :: "bag_op \<Rightarrow> damage_bag \<Rightarrow> damage_bag" where
  "bag_step (Bag_add ds) b = bag_add ds b"
| "bag_step Bag_reset b = bag_reset b"

text \<open>What an operation records: nothing for an addition of empty rectangles only.\<close>

fun op_damage :: "bag_op \<Rightarrow> rect list option" where
  "op_damage (Bag_add ds) =
     (let ds' = filter (\<lambda>d. \<not> rect_is_empty d) ds in if ds' = [] then None else Some ds')"
| "op_damage Bag_reset = Some []"

fun op_touches :: "bag_op \<Rightarrow> pixel set" where
  "op_touches (Bag_add ds) = pixels_of ds"
| "op_touches Bag_reset = UNIV"

fun op_valid :: "bag_op \<Rightarrow> bool" where
  "op_valid (Bag_add ds) \<longleftrightarrow> wf_rects ds"
| "op_valid Bag_reset \<longleftrightarrow> True"

abbreviation ops_recorded :: "bag_op list \<Rightarrow> rect list list" where
  "ops_recorded ops \<equiv> List.map_filter op_damage ops"

definition counts :: "bag_op list \<Rightarrow> nat" where
  "counts ops = length (ops_recorded ops)"

lemma counts_simps [simp]:
  "counts [] = 0"
  "counts (op # ops) = (if op_damage op = None then 0 else 1) + counts ops"
  by (auto simp: counts_def List.map_filter_simps split: option.split)

lemma bag_step_unrecorded: "op_damage op = None \<Longrightarrow> bag_step op b = b"
  by (cases op) (auto simp: bag_add_def snapshot_add_def Let_def split: if_splits)

lemma bag_step_commit:
  "op_damage op = Some ds \<Longrightarrow> bag_current_commit (bag_step op b) = cc_increment (bag_current_commit b)"
  by (cases op) (auto simp: bag_add_def snapshot_add_def bag_reset_def snapshot_reset_def Let_def
      bag_current_commit_def snapshot_current_commit_def split: if_splits)

lemma bag_step_limit [simp]: "ds_limit (bag_state (bag_step op b)) = ds_limit (bag_state b)"
  by (cases op) (auto simp: bag_add_def snapshot_add_def bag_reset_def snapshot_reset_def Let_def)

lemma bag_run_limit [simp]: "ds_limit (bag_state (fold bag_step ops b)) = ds_limit (bag_state b)"
  by (induction ops arbitrary: b) simp_all

lemma bag_run_commit:
  "cc_value (bag_current_commit (fold bag_step ops b)) = cc_value (bag_current_commit b) + of_nat (counts ops)"
proof (induction ops arbitrary: b)
  case (Cons op ops)
  then show ?case
    by (cases "op_damage op")
      (simp_all add: bag_step_unrecorded bag_step_commit cc_increment_def algebra_simps)
qed simp

text \<open>The entries after a run of additions, newest first.\<close>

lemma bag_run_adds:
  assumes "Bag_reset \<notin> set ops"
  shows "ds_damage (bag_state (fold bag_step ops b)) =
    (if counts ops = 0 then ds_damage (bag_state b)
     else take (ds_limit (bag_state b))
       (rev (map remdups_adj (ops_recorded ops)) @ ds_damage (bag_state b)))"
  using assms
proof (induction ops arbitrary: b)
  case (Cons op ops)
  then obtain ds where op: "op = Bag_add ds" by (cases op) auto
  define l where "l = ds_limit (bag_state b)"
  show ?case
  proof (cases "op_damage op")
    case None
    with Cons show ?thesis by (simp add: bag_step_unrecorded List.map_filter_simps)
  next
    case (Some e)
    then have step: "ds_damage (bag_state (bag_step op b)) = take l (remdups_adj e # ds_damage (bag_state b))"
      by (auto simp: op bag_add_def snapshot_add_def Let_def l_def split: if_splits)
    have take_take_app: "take l (xs @ take l ys) = take l (xs @ ys)" for xs ys :: "rect list list"
      by (simp add: min_def)
    have "ds_damage (bag_state (fold bag_step (op # ops) b)) =
      (if counts ops = 0 then take l (remdups_adj e # ds_damage (bag_state b))
       else take l (rev (map remdups_adj (ops_recorded ops)) @ take l (remdups_adj e # ds_damage (bag_state b))))"
      using Cons by (simp add: step l_def)
    then show ?thesis
      using Some by (auto simp: take_take_app List.map_filter_simps l_def counts_def)
  qed
qed simp

text \<open>A reset leaves fewer entries than there were recorded operations since before it.\<close>

lemma bag_run_length:
  "length (ds_damage (bag_state (fold bag_step ops b))) \<le> length (ds_damage (bag_state b)) + counts ops"
proof (induction ops arbitrary: b)
  case (Cons op ops)
  have "length (ds_damage (bag_state (bag_step op b))) \<le>
      length (ds_damage (bag_state b)) + (if op_damage op = None then 0 else 1)"
    by (cases op) (auto simp: bag_add_def snapshot_add_def bag_reset_def snapshot_reset_def Let_def)
  with Cons[of "bag_step op b"] show ?case by simp
qed simp

lemma counts_append [simp]: "counts (xs @ ys) = counts xs + counts ys"
  by (induction xs) simp_all

lemma bag_run_reset_length:
  assumes "Bag_reset \<in> set ops"
  shows "length (ds_damage (bag_state (fold bag_step ops b))) < counts ops"
proof -
  obtain us vs where ops: "ops = us @ Bag_reset # vs" using split_list[OF assms] by blast
  define m where "m = bag_step Bag_reset (fold bag_step us b)"
  have "length (ds_damage (bag_state (fold bag_step vs m))) \<le> length (ds_damage (bag_state m)) + counts vs"
    by (rule bag_run_length)
  moreover have "ds_damage (bag_state m) = []"
    by (simp add: m_def bag_reset_def snapshot_reset_def)
  ultimately show ?thesis by (simp add: ops m_def)
qed

lemma distance_run:
  assumes "counts ops < 2 ^ 64"
  shows "cc_distance (bag_current_commit (fold bag_step ops b)) (Some (bag_current_commit b)) =
    (if unat (cc_value (bag_current_commit b)) + counts ops < 2 ^ 64 then Some (counts ops) else None)"
proof -
  define c where "c = cc_value (bag_current_commit b)"
  define k :: usize where "k = of_nat (counts ops)"
  have k: "unat k = counts ops" using assms by (simp add: k_def unat_of_nat take_bit_nat_eq_self)
  have "c \<le> c + k \<longleftrightarrow> unat c + unat k < 2 ^ 64"
    using no_olen_add_nat[of c k] by simp
  then show ?thesis
    by (simp add: cc_distance_def less_eq_commit_counter_def bag_run_commit c_def[symmetric] k_def[symmetric] k)
qed

lemma since_run:
  assumes "counts ops < 2 ^ 64"
  shows "bag_damage_since (fold bag_step ops b) (Some (bag_current_commit b)) =
    (if Bag_reset \<in> set ops \<or> \<not> unat (cc_value (bag_current_commit b)) + counts ops < 2 ^ 64
        \<or> ds_limit (bag_state b) < counts ops then None
     else Some (concat (rev (map remdups_adj (ops_recorded ops)))))"
proof (cases "unat (cc_value (bag_current_commit b)) + counts ops < 2 ^ 64")
  case False
  then show ?thesis
    using distance_run[OF assms, of b]
    by (simp add: bag_damage_since_def snapshot_damage_since_def bag_current_commit_def snapshot_current_commit_def)
next
  case True
  define d where "d = ds_damage (bag_state (fold bag_step ops b))"
  have since: "bag_damage_since (fold bag_step ops b) (Some (bag_current_commit b)) =
      (if counts ops \<le> length d then Some (concat (take (counts ops) d)) else None)"
    using distance_run[OF assms, of b] True
    by (simp add: bag_damage_since_def snapshot_damage_since_def bag_current_commit_def
        snapshot_current_commit_def d_def)
  show ?thesis
  proof (cases "Bag_reset \<in> set ops")
    case r: True
    then show ?thesis using bag_run_reset_length[OF r, of b] since by (simp add: d_def)
  next
    case False
    have d: "d = (if counts ops = 0 then ds_damage (bag_state b)
     else take (ds_limit (bag_state b)) (rev (map remdups_adj (ops_recorded ops)) @ ds_damage (bag_state b)))"
      unfolding d_def by (rule bag_run_adds[OF False])
    show ?thesis
    proof (cases "counts ops = 0")
      case z: True
      then have "ops_recorded ops = []" by (simp add: counts_def)
      with z False True show ?thesis by (simp add: since)
    next
      case p: False
      let ?new = "rev (map remdups_adj (ops_recorded ops))"
      have len: "length ?new = counts ops" by (simp add: counts_def)
      show ?thesis
      proof (cases "counts ops \<le> ds_limit (bag_state b)")
        case True
        then have "counts ops \<le> length d" "take (counts ops) d = ?new"
          using p len by (simp_all add: d min_def)
        with True \<open>unat _ + _ < _\<close> False show ?thesis by (simp add: since)
      next
        case lt: False
        then have "length d < counts ops" using p len by (simp add: d)
        with lt p show ?thesis by (simp add: since)
      qed
    qed
  qed
qed


section \<open>The contract of a damage log\<close>

text \<open>
  What a renderer relies on: whenever the log answers with damage since the counter the
  renderer saw, that damage covers everything the operations in between touched.
\<close>

definition repaint :: "rect list option \<Rightarrow> (pixel \<Rightarrow> 'v) \<Rightarrow> (pixel \<Rightarrow> 'v) \<Rightarrow> pixel \<Rightarrow> 'v" where
  "repaint damage new shown =
     (case damage of
        None \<Rightarrow> new
      | Some ds \<Rightarrow> (\<lambda>p. if p \<in> pixels_of ds then new p else shown p))"

definition changes_within :: "pixel set \<Rightarrow> (pixel \<Rightarrow> 'v) \<Rightarrow> (pixel \<Rightarrow> 'v) \<Rightarrow> bool" where
  "changes_within A old new \<longleftrightarrow> (\<forall>p. p \<notin> A \<longrightarrow> new p = old p)"

locale damage_log =
  fixes step :: "'op \<Rightarrow> 's \<Rightarrow> 's"
    and current :: "'s \<Rightarrow> commit_counter"
    and since :: "'s \<Rightarrow> commit_counter option \<Rightarrow> rect list option"
    and touches :: "'op \<Rightarrow> pixel set"
    and recorded :: "'op list \<Rightarrow> nat"
    and valid :: "'op \<Rightarrow> bool"
  assumes since_never: "since s None = None"
    and since_covers: "\<lbrakk>recorded ops < 2 ^ 64; since (fold step ops s) (Some (current s)) = Some ds;
      op \<in> set ops; valid op\<rbrakk> \<Longrightarrow> touches op \<subseteq> pixels_of ds"
begin

lemma repaint_fresh:
  assumes "recorded ops < 2 ^ 64" "changes_within (\<Union>op\<in>set ops. touches op) old new"
    and "\<And>op. op \<in> set ops \<Longrightarrow> valid op"
  shows "repaint (since (fold step ops s) (Some (current s))) new old = new"
proof (cases "since (fold step ops s) (Some (current s))")
  case (Some ds)
  then have "(\<Union>op\<in>set ops. touches op) \<subseteq> pixels_of ds"
    using since_covers[OF assms(1)] assms(3) by blast
  with assms(2) have "new p = old p" if "p \<notin> pixels_of ds" for p
    using that unfolding changes_within_def by blast
  with Some show ?thesis by (auto simp: repaint_def)
qed (simp add: repaint_def)

lemma first_repaint: "repaint (since s None) new shown = new"
  by (simp add: since_never repaint_def)

end

text \<open>The batches of operations between two polls, each with the content after it.\<close>

fun poll_batches :: "damage_bag \<Rightarrow> commit_counter option \<Rightarrow> (pixel \<Rightarrow> 'v) \<Rightarrow>
    (bag_op list \<times> (pixel \<Rightarrow> 'v)) list \<Rightarrow> pixel \<Rightarrow> 'v" where
  "poll_batches b seen shown [] = shown"
| "poll_batches b seen shown ((ops, content) # rest) =
     (let b' = fold bag_step ops b
      in poll_batches b' (Some (bag_current_commit b'))
           (repaint (bag_damage_since b' seen) content shown) rest)"

fun honest_batches :: "(pixel \<Rightarrow> 'v) \<Rightarrow> (bag_op list \<times> (pixel \<Rightarrow> 'v)) list \<Rightarrow> bool" where
  "honest_batches content [] \<longleftrightarrow> True"
| "honest_batches content ((ops, content') # rest) \<longleftrightarrow>
     counts ops < 2 ^ 64 \<and> (\<forall>op\<in>set ops. op_valid op) \<and> changes_within (\<Union>op\<in>set ops. op_touches op) content content' \<and>
     honest_batches content' rest"

lemma op_damage_touches:
  assumes "Bag_add ds \<in> set ops" "wf_rects ds"
  shows "pixels_of ds \<subseteq> pixels_of (concat (rev (map remdups_adj (ops_recorded ops))))"
proof
  fix p assume "p \<in> pixels_of ds"
  then obtain r where r: "r \<in> set ds" "p \<in> pixels r" by (auto simp: pixels_of_def)
  with assms(2) have ne: "\<not> rect_is_empty r" using pixels_empty[of r] by (auto simp: wf_rects_def)
  define e where "e = filter (\<lambda>d. \<not> rect_is_empty d) ds"
  have re: "r \<in> set e" using r(1) ne by (simp add: e_def)
  then have "op_damage (Bag_add ds) = Some e" by (auto simp: e_def Let_def filter_empty_conv)
  with assms(1) have "e \<in> set (ops_recorded ops)" by (force simp: List.map_filter_def)
  with re have "r \<in> set (concat (rev (map remdups_adj (ops_recorded ops))))" by auto
  with r(2) show "p \<in> pixels_of (concat (rev (map remdups_adj (ops_recorded ops))))"
    unfolding pixels_of_def by blast
qed


interpretation bag: damage_log bag_step bag_current_commit bag_damage_since op_touches counts op_valid
proof
  show "bag_damage_since s None = None" for s
    by (simp add: bag_damage_since_def snapshot_damage_since_def cc_distance_def)
next
  fix ops s ds op
  assume n: "counts ops < 2 ^ 64" and since: "bag_damage_since (fold bag_step ops s) (Some (bag_current_commit s)) = Some ds"
    and op: "op \<in> set ops" "op_valid op"
  from since have ds: "Bag_reset \<notin> set ops" "ds = concat (rev (map remdups_adj (ops_recorded ops)))"
    by (simp_all add: since_run[OF n] split: if_splits)
  from ds(1) op(1) have "op \<noteq> Bag_reset" by metis
  then obtain rs where rs: "op = Bag_add rs" by (cases op) simp_all
  with op show "op_touches op \<subseteq> pixels_of ds"
    using op_damage_touches[of rs ops] unfolding ds(2) by simp
qed

text \<open>The consumer that has polled once stays in step with the content.\<close>

lemma poll_batches_fresh:
  assumes "honest_batches content batches"
  shows "poll_batches b (Some (bag_current_commit b)) content batches =
    (if batches = [] then content else snd (last batches))"
  using assms
proof (induction batches arbitrary: b content)
  case (Cons batch rest)
  obtain ops content' where b: "batch = (ops, content')" by fastforce
  have "repaint (bag_damage_since (fold bag_step ops b) (Some (bag_current_commit b))) content' content = content'"
    using Cons.prems b by (intro bag.repaint_fresh) auto
  with Cons b show ?case by (simp add: Let_def)
qed simp

section \<open>Properties\<close>

text \<open>What the bag answers, exactly. After any sequence of additions and resets, the damage
  since the counter seen before it is the recorded rectangles, newest addition first with
  repeated neighbours dropped; it is refused exactly if a reset happened, more additions were
  recorded than the bag keeps, or the counter wrapped.\<close>

theorem bag_damage_since_exact:
  assumes "counts ops < 2 ^ 64"
  shows "bag_damage_since (fold bag_step ops b) (Some (bag_current_commit b)) =
    (if Bag_reset \<in> set ops \<or> \<not> unat (cc_value (bag_current_commit b)) + counts ops < 2 ^ 64
        \<or> ds_limit (bag_state b) < counts ops then None
     else Some (concat (rev (map remdups_adj (ops_recorded ops)))))"
  by (rule since_run[OF assms])

theorem bag_damage_since_exact_witness:
  "bag_damage_since
     (fold bag_step [Bag_add [strip 0 0 4 4, strip 0 0 4 4], Bag_add [strip 1 1 0 9], Bag_add [strip 5 5 2 2]] bag_default)
     (Some (bag_current_commit bag_default)) = Some [strip 5 5 2 2, strip 0 0 4 4]"
  by (subst bag_damage_since_exact)
    (simp_all add: List.map_filter_simps rect_is_empty_def size_is_empty_def bag_default_def bag_new_def
      snapshot_new_def MAX_DAMAGE_AGE_def counter_default_def bag_current_commit_def snapshot_current_commit_def)

text \<open>C14. A renderer that polls a bag never shows a stale pixel: it repaints what
  \<open>damage_since\<close> answers for the counter it last saw, and everything when the answer is no
  damage set. If the content only changes inside the rectangles that are added (or after a
  reset), then after the last poll it shows the last content, whatever came before its first
  poll and however operations and polls interleave.\<close>

theorem polling_shows_content:
  assumes "honest_batches first batches"
  shows "poll_batches b None shown ((ops, first) # batches) =
    (if batches = [] then first else snd (last batches))"
proof -
  have "repaint (bag_damage_since (fold bag_step ops b) None) first shown = first"
    by (rule bag.first_repaint)
  then show ?thesis by (simp add: Let_def poll_batches_fresh[OF assms])
qed

theorem polling_shows_content_witness:
  "poll_batches bag_default None (\<lambda>_. 0::nat)
     [([], \<lambda>_. 1), ([Bag_add [strip 0 0 4 4]], \<lambda>p. if p \<in> pixels (strip 0 0 4 4) then 2 else 1),
      ([Bag_reset], \<lambda>_. 3)] = (\<lambda>_. 3)"
  by (subst polling_shows_content)
    (auto simp: changes_within_def rect_is_empty_def size_is_empty_def Let_def in_i32_def)

end
