(* ===== verification/Shaper.thy ===== *)
theory Shaper
  imports Pixels Floats "HOL-Library.Multiset"
begin

text \<open>
  Damage shaping, \<open>src/backend/renderer/damage/shaper.rs\<close>: the divide and conquer that turns a
  list of damaged rectangles into one that is cheaper to draw. \<open>shape_damage_impl\<close> recurses on
  the segments its loop finds; the recursion is bounded by fuel, and the properties show that
  \<open>2 * n + 2\<close> for \<open>n\<close> rectangles is always enough, that no index underflows, and that every
  damaged pixel stays damaged while nothing outside the bounding box becomes damaged.
  The order \<open>sort_unstable_by\<close> gives to rectangles with equal keys is not determined, so the
  sort is a parameter of which only the permutation is used.
\<close>

section \<open>Model\<close>

datatype damage_split_axis = Axis_X | Axis_Y

fun axis_invert :: "damage_split_axis \<Rightarrow> damage_split_axis" where
  "axis_invert Axis_X = Axis_Y"
| "axis_invert Axis_Y = Axis_X"

definition DEFAULT_MIN_TILE_SIDE :: i32 where "DEFAULT_MIN_TILE_SIDE = 16"
definition MAX_DAMAGE_TO_DAMAGE_BBOX_RATIO :: fl where
  "MAX_DAMAGE_TO_DAMAGE_BBOX_RATIO = round32 (9 / 10)"
definition TILE_DAMAGE_GAP_FRACTION :: i32 where "TILE_DAMAGE_GAP_FRACTION = 4"
definition NUM_TILES :: i32 where "NUM_TILES = 4"

record tile =
  tile_bbox :: rect
  tile_damage :: "rect option"

text \<open>The effective bounding box and the greatest damaged area, one pass over the damage.\<close>

definition extent_step :: "rect \<Rightarrow> i32 \<times> i32 \<times> i32 \<times> i32 \<times> i32 \<Rightarrow> i32 \<times> i32 \<times> i32 \<times> i32 \<times> i32" where
  "extent_step r acc =
     (case acc of (x_min, y_min, x_max, y_max, max_area) \<Rightarrow>
       let area = sat_mul (rw r) (rh r)
       in (min x_min (rx r), min y_min (ry r), max x_max (i32_add (rx r) (rw r)),
           max y_max (i32_add (ry r) (rh r)), max max_area area))"

definition damage_extent :: "rect list \<Rightarrow> i32 \<times> i32 \<times> i32 \<times> i32 \<times> i32" where
  "damage_extent rs = fold extent_step rs (I32_MAX, I32_MAX, I32_MIN, I32_MIN, I32_MIN)"

fun axis_start :: "damage_split_axis \<Rightarrow> rect \<Rightarrow> i32" where
  "axis_start Axis_X r = rx r"
| "axis_start Axis_Y r = ry r"

fun axis_end :: "damage_split_axis \<Rightarrow> rect \<Rightarrow> i32" where
  "axis_end Axis_X r = i32_add (rx r) (rw r)"
| "axis_end Axis_Y r = i32_add (ry r) (rh r)"

text \<open>The comparison of the sort: ascending by start, then descending by side.\<close>

fun axis_le :: "damage_split_axis \<Rightarrow> rect \<Rightarrow> rect \<Rightarrow> bool" where
  "axis_le Axis_X a b \<longleftrightarrow> rx a < rx b \<or> rx a = rx b \<and> rw b \<le> rw a"
| "axis_le Axis_Y a b \<longleftrightarrow> ry a < ry b \<or> ry a = ry b \<and> rh b \<le> rh a"

text \<open>
  The loop over the sorted damage. It holds the current segment, from \<open>overlap_start_idx\<close> on,
  and cuts where a rectangle starts at or after \<open>overlap_end\<close>. The last segment is the one
  still open after the loop.
\<close>

fun split_segments :: "damage_split_axis \<Rightarrow> i32 \<Rightarrow> rect list \<Rightarrow> rect list \<Rightarrow> rect list list" where
  "split_segments d overlap_end cur [] = [cur]"
| "split_segments d overlap_end cur (r # rs) =
     (if axis_start d r \<ge> overlap_end then cur # split_segments d (axis_end d r) [r] rs
      else split_segments d (max overlap_end (axis_end d r)) (cur @ [r]) rs)"

text \<open>The values of \<open>(lo..hi).step_by(step)\<close>, for a positive step.\<close>

definition step_range :: "int \<Rightarrow> int \<Rightarrow> int \<Rightarrow> int list" where
  "step_range lo hi step = map (\<lambda>k. lo + int k * step) [0..<nat ((hi - lo + step - 1) div step)]"

definition damage_in_tile :: "rect list \<Rightarrow> rect \<Rightarrow> rect option" where
  "damage_in_tile rs bbox =
     fold (\<lambda>r acc. case rect_intersection bbox r of
                     None \<Rightarrow> acc
                   | Some i \<Rightarrow> Some (case acc of Some td \<Rightarrow> rect_merge i td | None \<Rightarrow> i)) rs None"

definition column_tiles :: "rect list \<Rightarrow> rect \<Rightarrow> sz \<Rightarrow> i32 \<Rightarrow> tile list" where
  "column_tiles rs bbox ts x =
     map (\<lambda>y. let tb = rect_new (point_new x y) ts
              in \<lparr>tile_bbox = tb, tile_damage = damage_in_tile rs tb\<rparr>)
       (step_range (ry bbox) (i32_add (ry bbox) (rh bbox)) (sh ts))"

text \<open>Adjacent tiles of a column are merged downwards.\<close>

fun merge_column :: "sz \<Rightarrow> tile list \<Rightarrow> tile list" where
  "merge_column gap (a # b # rest) =
     (case (tile_damage a, tile_damage b) of
        (Some damage, Some adjacent) \<Rightarrow>
          if i32_add (i32_add (ry damage) (rh damage)) (sh gap) \<ge> ry adjacent
             \<and> coord_abs (i32_sub (rw damage) (rw adjacent)) < sw gap
          then a\<lparr>tile_damage := None\<rparr>
               # merge_column gap (b\<lparr>tile_damage := Some (rect_merge damage adjacent)\<rparr> # rest)
          else a # merge_column gap (b # rest)
      | _ \<Rightarrow> a # merge_column gap (b # rest))"
| "merge_column gap ts = ts"

text \<open>
  One column after the other. With no tile at all in the cache after a column, the range
  \<open>num_tiles - tiles_in_column..num_tiles - 1\<close> underflows and the indexing panics.
\<close>

fun tile_columns :: "rect list \<Rightarrow> rect \<Rightarrow> sz \<Rightarrow> sz \<Rightarrow> i32 list \<Rightarrow> tile list \<Rightarrow> tile list option" where
  "tile_columns rs bbox ts gap [] cache = Some cache"
| "tile_columns rs bbox ts gap (x # xs) cache =
     (let column = column_tiles rs bbox ts x
      in if cache @ column = [] then None
         else tile_columns rs bbox ts gap xs (cache @ merge_column gap column))"

definition shape_damage_tiled :: "rect list \<Rightarrow> rect \<Rightarrow> sz \<Rightarrow> rect list \<Rightarrow> rect list option" where
  "shape_damage_tiled rs bbox ts out =
     (let gap = size_new (trunc_div (sw ts) TILE_DAMAGE_GAP_FRACTION) (trunc_div (sh ts) TILE_DAMAGE_GAP_FRACTION)
      in case tile_columns rs bbox ts gap (step_range (rx bbox) (i32_add (rx bbox) (rw bbox)) (sw ts)) [] of
           None \<Rightarrow> None
         | Some tiles \<Rightarrow> Some (out @ List.map_filter tile_damage tiles))"

text \<open>The side to split, and the tiles, which undo the inversion of the direction.\<close>

definition split_direction :: "i32 \<Rightarrow> i32 \<Rightarrow> bool \<Rightarrow> damage_split_axis" where
  "split_direction bbox_w bbox_h invert_direction =
     (let direction = (if bbox_w \<ge> bbox_h then Axis_X else Axis_Y)
      in if invert_direction then axis_invert direction else direction)"

definition shape_tile_size :: "damage_split_axis \<Rightarrow> i32 \<Rightarrow> i32 \<Rightarrow> sz" where
  "shape_tile_size direction bbox_w bbox_h =
     (let (tile_w, tile_h) = (case axis_invert direction of
            Axis_X \<Rightarrow> (trunc_div bbox_w NUM_TILES, trunc_div bbox_h (NUM_TILES * 2))
          | Axis_Y \<Rightarrow> (trunc_div bbox_w (NUM_TILES * 2), trunc_div bbox_h NUM_TILES))
      in size_new (max tile_w DEFAULT_MIN_TILE_SIDE) (max tile_h DEFAULT_MIN_TILE_SIDE))"

text \<open>The recursive calls, one segment after the other, over the accumulated output.\<close>

fun shape_segments :: "(rect list \<Rightarrow> rect list \<Rightarrow> rect list option) \<Rightarrow> rect list list \<Rightarrow> rect list \<Rightarrow> rect list option" where
  "shape_segments f [] out = Some out"
| "shape_segments f (s # ss) out =
     (case f s out of None \<Rightarrow> None | Some out' \<Rightarrow> shape_segments f ss out')"

fun shape_damage_impl :: "(damage_split_axis \<Rightarrow> rect list \<Rightarrow> rect list) \<Rightarrow> nat \<Rightarrow> rect list \<Rightarrow>
    damage_split_axis option \<Rightarrow> bool \<Rightarrow> rect list \<Rightarrow> rect list option" where
  "shape_damage_impl srt 0 in_damage last_direction invert_direction out = None"
| "shape_damage_impl srt (Suc n) in_damage last_direction invert_direction out =
     (if in_damage = [] then Some out
      else if length in_damage = 1 then Some (out @ [in_damage ! 0])
      else
        (let (x_min, y_min, x_max, y_max, max_damage_area) = damage_extent in_damage;
             bbox_w = i32_sub x_max x_min;
             bbox_h = i32_sub y_max y_min;
             damage_bbox = rect_new (point_new x_min y_min) (size_new bbox_w bbox_h)
         in if fl_less MAX_DAMAGE_TO_DAMAGE_BBOX_RATIO
                (fl_div round32 (i32_to_f32 max_damage_area) (i32_to_f32 (sat_mul bbox_w bbox_h)))
            then Some (out @ [damage_bbox])
            else
              (let direction = split_direction bbox_w bbox_h invert_direction;
                   sorted = (if Some direction \<noteq> last_direction then srt direction in_damage else in_damage);
                   segments = split_segments direction (axis_end direction (hd sorted)) [hd sorted] (tl sorted)
               in case shape_segments
                      (\<lambda>s. shape_damage_impl srt n s (Some direction) False) (butlast segments) out of
                    None \<Rightarrow> None
                  | Some out' \<Rightarrow>
                      if length segments = 1 \<and> invert_direction then
                        shape_damage_tiled sorted damage_bbox (shape_tile_size direction bbox_w bbox_h) out'
                      else shape_damage_impl srt n (last segments) (Some direction) (length segments = 1) out')))"

definition shape_damage :: "(damage_split_axis \<Rightarrow> rect list \<Rightarrow> rect list) \<Rightarrow> rect list \<Rightarrow> rect list option" where
  "shape_damage srt in_damage = shape_damage_impl srt (2 * length in_damage + 2) in_damage None False []"

text \<open>What is used of the sort.\<close>

definition sort_permutes :: "(damage_split_axis \<Rightarrow> rect list \<Rightarrow> rect list) \<Rightarrow> bool" where
  "sort_permutes srt \<longleftrightarrow> (\<forall>d rs. mset (srt d rs) = mset rs)"

lemma sort_permutesD:
  assumes "sort_permutes srt"
  shows "set (srt d rs) = set rs" "length (srt d rs) = length rs"
  using assms unfolding sort_permutes_def by (metis mset_eq_setD, metis mset_eq_length)

section \<open>Boxes\<close>

text \<open>A box whose span fits in \<open>i32\<close>, and the rectangles inside it, whose edges are exact.\<close>

definition box_ok :: "int \<Rightarrow> int \<Rightarrow> int \<Rightarrow> int \<Rightarrow> bool" where
  "box_ok l t ri b \<longleftrightarrow> in_i32 l \<and> in_i32 t \<and> in_i32 ri \<and> in_i32 b \<and> ri - l \<le> I32_MAX \<and> b - t \<le> I32_MAX"

definition in_box :: "int \<Rightarrow> int \<Rightarrow> int \<Rightarrow> int \<Rightarrow> rect \<Rightarrow> bool" where
  "in_box l t ri b r \<longleftrightarrow> wf_rect r \<and> l \<le> rx r \<and> t \<le> ry r \<and> rx r + rw r \<le> ri \<and> ry r + rh r \<le> b"

lemma in_boxD:
  assumes "box_ok l t ri b" "in_box l t ri b r"
  shows "wf_rect r" "in_i32 (rx r + rw r)" "in_i32 (ry r + rh r)" "rright r = rx r + rw r"
    "rbottom r = ry r + rh r" "i32_add (rx r) (rw r) = rx r + rw r" "i32_add (ry r) (rh r) = ry r + rh r"
proof -
  show wf: "wf_rect r" using assms(2) by (simp add: in_box_def)
  show "in_i32 (rx r + rw r)" "in_i32 (ry r + rh r)"
    using wf_rectD[OF wf] assms by (auto simp: in_box_def box_ok_def in_i32_def)
  then show "rright r = rx r + rw r" "rbottom r = ry r + rh r"
    "i32_add (rx r) (rw r) = rx r + rw r" "i32_add (ry r) (rh r) = ry r + rh r"
    by (simp_all add: range_simps)
qed

lemma in_box_pixels:
  "box_ok l t ri b \<Longrightarrow> in_box l t ri b r \<Longrightarrow>
    pixels r = {(x, y). rx r \<le> x \<and> x < rx r + rw r \<and> ry r \<le> y \<and> y < ry r + rh r}"
  by (auto simp: pixels_def in_boxD(4,5))

lemma has_edges_in_box:
  "has_edges r x y x' y' \<Longrightarrow> l \<le> x \<Longrightarrow> t \<le> y \<Longrightarrow> x' \<le> ri \<Longrightarrow> y' \<le> b \<Longrightarrow> in_box l t ri b r"
  by (auto simp: has_edges_def in_box_def)

lemma intersection_in_box:
  assumes "box_ok l t ri b" "in_box l t ri b r" "wf_rect a" "rect_intersection a r = Some i"
  shows "in_box l t ri b i"
  by (rule has_edges_in_box[OF intersection_edges[OF assms(3) in_boxD(1)[OF assms(1,2)] assms(4)]])
    (use assms(2) in \<open>auto simp: in_box_def in_boxD(4,5)[OF assms(1,2)]\<close>)

lemma merge_in_box:
  assumes ok: "box_ok l t ri b" and a: "in_box l t ri b a" and c: "in_box l t ri b c"
  shows "in_box l t ri b (rect_merge a c)" "pixels a \<union> pixels c \<subseteq> pixels (rect_merge a c)"
proof -
  note da = in_boxD[OF ok a] and dc = in_boxD[OF ok c]
  have e: "has_edges (rect_merge a c) (min (rx a) (rx c)) (min (ry a) (ry c))
      (max (rright a) (rright c)) (max (rbottom a) (rbottom c))"
    using ok a c unfolding da(4,5) dc(4,5)
    by (intro merge_edges[OF da(1) dc(1), unfolded da(4,5) dc(4,5)])
      (auto simp: in_box_def box_ok_def min_def max_def)
  show "in_box l t ri b (rect_merge a c)"
    by (rule has_edges_in_box[OF e]) (use a c in \<open>auto simp: in_box_def da(4,5) dc(4,5)\<close>)
  show "pixels a \<union> pixels c \<subseteq> pixels (rect_merge a c)"
    unfolding has_edges_pixels[OF e] by (auto simp: pixels_def)
qed


section \<open>The bounding box\<close>

lemma extent_fold:
  "fold extent_step rs (a, b, c, d, e) =
    (fold (\<lambda>r. min (rx r)) rs a, fold (\<lambda>r. min (ry r)) rs b,
     fold (\<lambda>r. max (i32_add (rx r) (rw r))) rs c, fold (\<lambda>r. max (i32_add (ry r) (rh r))) rs d,
     fold (\<lambda>r. max (sat_mul (rw r) (rh r))) rs e)"
  by (induction rs arbitrary: a b c d e) (simp_all add: extent_step_def Let_def min.commute max.commute)

lemma fold_min_le: "fold (\<lambda>r. min (f r)) rs a \<le> (a::int)"
  "r \<in> set rs \<Longrightarrow> fold (\<lambda>r. min (f r)) rs a \<le> f r"
proof (induction rs arbitrary: a)
  case (Cons q qs)
  { case 1 then show ?case using Cons.IH(1)[of "min (f q) a"] by simp }
  { case 2 then show ?case using Cons.IH(1,2)[of "min (f q) a"] by auto }
qed simp_all

lemma fold_max_ge: "(a::int) \<le> fold (\<lambda>r. max (f r)) rs a"
  "r \<in> set rs \<Longrightarrow> f r \<le> fold (\<lambda>r. max (f r)) rs a"
proof (induction rs arbitrary: a)
  case (Cons q qs)
  { case 1 then show ?case using Cons.IH(1)[of "max (f q) a"] by simp }
  { case 2 then show ?case using Cons.IH(1,2)[of "max (f q) a"] by auto }
qed simp_all

lemma le_fold_min: "k \<le> a \<Longrightarrow> \<forall>r\<in>set rs. k \<le> f r \<Longrightarrow> (k::int) \<le> fold (\<lambda>r. min (f r)) rs a"
  by (induction rs arbitrary: a) simp_all

lemma fold_max_le: "a \<le> k \<Longrightarrow> \<forall>r\<in>set rs. f r \<le> k \<Longrightarrow> fold (\<lambda>r. max (f r)) rs a \<le> (k::int)"
  by (induction rs arbitrary: a) simp_all

definition is_bbox :: "rect list \<Rightarrow> int \<Rightarrow> int \<Rightarrow> int \<Rightarrow> int \<Rightarrow> bool" where
  "is_bbox rs x y x' y' \<longleftrightarrow> (\<forall>r\<in>set rs. in_box x y x' y' r)"

lemma extent_bbox:
  assumes ok: "box_ok l t ri b" and rs: "\<forall>r\<in>set rs. in_box l t ri b r" "rs \<noteq> []"
    and e: "damage_extent rs = (x, y, x', y', area)"
  shows "is_bbox rs x y x' y'" "box_ok x y x' y'" "l \<le> x" "t \<le> y" "x' \<le> ri" "y' \<le> b" "x \<le> x'" "y \<le> y'"
proof -
  have eq: "x = fold (\<lambda>r. min (rx r)) rs I32_MAX" "y = fold (\<lambda>r. min (ry r)) rs I32_MAX"
    "x' = fold (\<lambda>r. max (i32_add (rx r) (rw r))) rs I32_MIN"
    "y' = fold (\<lambda>r. max (i32_add (ry r) (rh r))) rs I32_MIN"
    using e by (simp_all add: damage_extent_def extent_fold)
  have each: "x \<le> rx r" "y \<le> ry r" "rx r + rw r \<le> x'" "ry r + rh r \<le> y'" if "r \<in> set rs" for r
    using fold_min_le(2)[OF that, of rx] fold_min_le(2)[OF that, of ry]
      fold_max_ge(2)[OF that, of "\<lambda>r. i32_add (rx r) (rw r)"]
      fold_max_ge(2)[OF that, of "\<lambda>r. i32_add (ry r) (rh r)"] rs(1) that in_boxD(6,7)[OF ok, of r]
    by (auto simp: eq)
  then show bb: "is_bbox rs x y x' y'" using rs(1) by (auto simp: is_bbox_def in_box_def)
  have rng: "I32_MIN \<le> l" "ri \<le> I32_MAX" "I32_MIN \<le> t" "b \<le> I32_MAX" "l \<le> I32_MAX" "t \<le> I32_MAX"
    "I32_MIN \<le> ri" "I32_MIN \<le> b"
    using ok by (auto simp: box_ok_def in_i32_def)
  show lx: "l \<le> x" "t \<le> y" unfolding eq
    using rng rs(1) by (auto intro!: le_fold_min simp: in_box_def)
  show xr: "x' \<le> ri" "y' \<le> b" unfolding eq
    using rng rs(1) in_boxD(6,7)[OF ok] by (auto intro!: fold_max_le simp: in_box_def)
  obtain r where r: "r \<in> set rs" using rs(2) by (cases rs) auto
  then have "0 \<le> rw r" "0 \<le> rh r" using rs(1) wf_rectD(5,6)[of r] by (auto simp: in_box_def)
  with each[OF r] show xx: "x \<le> x'" "y \<le> y'" by linarith+
  show "box_ok x y x' y'" using lx xr xx ok by (auto simp: box_ok_def in_i32_def)
qed

lemma bbox_rect:
  assumes "box_ok x y x' y'" "x \<le> x'" "y \<le> y'"
  defines "bb \<equiv> rect_new (point_new x y) (size_new (i32_sub x' x) (i32_sub y' y))"
  shows "i32_sub x' x = x' - x" "i32_sub y' y = y' - y" "in_box x y x' y' bb"
    "pixels bb = {(p, q). x \<le> p \<and> p < x' \<and> y \<le> q \<and> q < y'}"
proof -
  show sub: "i32_sub x' x = x' - x" "i32_sub y' y = y' - y"
    using assms(1-3) by (auto simp: box_ok_def in_i32_def intro!: range_simps)
  have e: "has_edges bb x y x' y'"
    using assms(1-3) unfolding bb_def sub
    by (intro has_edgesI) (auto simp: box_ok_def point_new_def size_new_def)
  show "in_box x y x' y' bb" by (rule has_edges_in_box[OF e]) simp_all
  show "pixels bb = {(p, q). x \<le> p \<and> p < x' \<and> y \<le> q \<and> q < y'}" by (rule has_edges_pixels[OF e])
qed

lemma is_bbox_pixels:
  assumes "box_ok x y x' y'" "is_bbox rs x y x' y'"
  shows "pixels_of rs \<subseteq> {(p, q). x \<le> p \<and> p < x' \<and> y \<le> q \<and> q < y'}"
proof
  fix pq assume "pq \<in> pixels_of rs"
  then obtain r where "r \<in> set rs" "pq \<in> pixels r" by (auto simp: pixels_of_def)
  then show "pq \<in> {(p, q). x \<le> p \<and> p < x' \<and> y \<le> q \<and> q < y'}"
    using assms in_box_pixels[OF assms(1), of r] by (auto simp: is_bbox_def in_box_def)
qed

section \<open>Splitting\<close>

lemma split_segments_nonempty [simp]: "split_segments d e cur rs \<noteq> []"
  by (induction d e cur rs rule: split_segments.induct) simp_all

lemma split_segments_concat: "concat (split_segments d e cur rs) = cur @ rs"
  by (induction d e cur rs rule: split_segments.induct) simp_all

lemma split_segments_ne: "cur \<noteq> [] \<Longrightarrow> s \<in> set (split_segments d e cur rs) \<Longrightarrow> s \<noteq> []"
  by (induction d e cur rs rule: split_segments.induct) (auto split: if_splits)

lemma length_concat_ge:
  "\<forall>s\<in>set ss. s \<noteq> [] \<Longrightarrow> s \<in> set ss \<Longrightarrow> length s + (length ss - 1) \<le> length (concat ss)"
proof (induction ss)
  case (Cons a ss)
  have "length ss \<le> length (concat ss)" using Cons.prems(1)
    by (induction ss) (auto simp: Suc_le_eq add_strict_increasing)
  then show ?case using Cons by (cases "s = a") (auto simp: Suc_le_eq length_greater_0_conv[symmetric] simp del: length_greater_0_conv)
qed simp

text \<open>With one segment, the second rectangle starts before the end of the ones before it.\<close>

lemma split_single_overlap:
  assumes "length (split_segments d e cur (r # rs)) = 1"
  shows "axis_start d r < e"
  using assms by (auto split: if_splits)

lemma length_segments:
  assumes "dmg \<noteq> []" "segs = split_segments d e [hd dmg] (tl dmg)" "s \<in> set segs"
  shows "length s + (length segs - 1) \<le> length dmg" "segs \<noteq> []" "concat segs = dmg"
proof -
  show c: "concat segs = dmg" using assms(1,2) by (simp add: split_segments_concat)
  show "length s + (length segs - 1) \<le> length dmg"
    using length_concat_ge[of segs s] split_segments_ne[of "[hd dmg]" _ d e "tl dmg"] assms(2,3) c
    by auto
  show "segs \<noteq> []" using assms(2) by simp
qed

section \<open>Tiles\<close>

lemma step_range_mem: "0 < s \<Longrightarrow> v \<in> set (step_range lo hi s) \<Longrightarrow> lo \<le> v \<and> v < hi"
proof -
  assume s: "0 < s" and "v \<in> set (step_range lo hi s)"
  then obtain k where k: "v = lo + int k * s" "int k < (hi - lo + s - 1) div s"
    by (auto simp: step_range_def zless_nat_eq_int_zless)
  then have "int k + 1 \<le> (hi - lo + s - 1) div s" by simp
  then have "(int k + 1) * s \<le> hi - lo + s - 1"
    using s by (metis div_le_dividend order_trans mult_right_mono minus_mod_eq_div_mult pos_mod_sign
        diff_ge_0_iff_ge le_add_diff_inverse2 less_imp_le diff_right_mono diff_zero diff_left_mono)
  with k(1) s show ?thesis by (simp add: algebra_simps)
qed

lemma step_range_cover:
  assumes "0 < s" "lo \<le> p" "p < hi"
  obtains v where "v \<in> set (step_range lo hi s)" "v \<le> p" "p < v + s"
proof
  define k where "k = (p - lo) div s"
  have k0: "0 \<le> k" using assms by (simp add: k_def pos_imp_zdiv_nonneg_iff)
  have "k * s \<le> p - lo" "p - lo < k * s + s"
    using assms(1) unfolding k_def
    by (simp_all add: minus_mod_eq_div_mult[symmetric] add.commute)
  then show "lo + k * s \<le> p" "p < lo + k * s + s" by linarith+
  have "(k + 1) * s \<le> hi - lo + s - 1" using \<open>k * s \<le> p - lo\<close> assms(3) by (simp add: algebra_simps)
  then have "k + 1 \<le> (hi - lo + s - 1) div s" 
    using assms(1) zdiv_mono1[of "(k + 1) * s" "hi - lo + s - 1" s] by simp
  then show "lo + k * s \<in> set (step_range lo hi s)"
    using k0 by (auto simp: step_range_def intro!: image_eqI[of _ _ "nat k"])
qed


lemma damage_in_tile_fold:
  assumes ok: "box_ok l t ri b" and rs: "\<forall>r\<in>set rs. in_box l t ri b r" and tb: "wf_rect tb"
    and acc: "\<forall>d. acc = Some d \<longrightarrow> in_box l t ri b d"
  defines "f \<equiv> \<lambda>r acc. case rect_intersection tb r of
                     None \<Rightarrow> acc
                   | Some i \<Rightarrow> Some (case acc of Some td \<Rightarrow> rect_merge i td | None \<Rightarrow> i)"
  shows "(\<forall>d. fold f rs acc = Some d \<longrightarrow> in_box l t ri b d) \<and>
    (case acc of None \<Rightarrow> {} | Some d \<Rightarrow> pixels d) \<union> pixels tb \<inter> pixels_of rs
      \<subseteq> (case fold f rs acc of None \<Rightarrow> {} | Some d \<Rightarrow> pixels d)"
  using rs acc
proof (induction rs arbitrary: acc)
  case (Cons r rs)
  have r: "in_box l t ri b r" using Cons.prems(1) by simp
  have "(\<forall>d. f r acc = Some d \<longrightarrow> in_box l t ri b d) \<and>
    (case acc of None \<Rightarrow> {} | Some d \<Rightarrow> pixels d) \<union> pixels tb \<inter> pixels r
      \<subseteq> (case f r acc of None \<Rightarrow> {} | Some d \<Rightarrow> pixels d)"
  proof (cases "rect_intersection tb r")
    case None
    with Cons.prems(2) intersection_None_disjoint[OF None] show ?thesis by (auto simp: f_def)
  next
    case (Some i)
    have i: "in_box l t ri b i" by (rule intersection_in_box[OF ok r tb Some])
    have ip: "pixels i = pixels tb \<inter> pixels r"
      by (rule intersection_pixels(2)[OF tb in_boxD(1)[OF ok r] Some])
    show ?thesis
    proof (cases acc)
      case None
      with Some i ip show ?thesis by (simp add: f_def)
    next
      case (Some d)
      then have d: "in_box l t ri b d" using Cons.prems(2) by simp
      from Some \<open>rect_intersection tb r = Some i\<close> have "f r acc = Some (rect_merge i d)"
        by (simp add: f_def)
      with Some ip merge_in_box[OF ok i d] show ?thesis by auto
    qed
  qed
  note step = this
  have "(\<forall>d. fold f rs (f r acc) = Some d \<longrightarrow> in_box l t ri b d) \<and>
    (case f r acc of None \<Rightarrow> {} | Some d \<Rightarrow> pixels d) \<union> pixels tb \<inter> pixels_of rs
      \<subseteq> (case fold f rs (f r acc) of None \<Rightarrow> {} | Some d \<Rightarrow> pixels d)"
    by (rule Cons.IH) (use Cons.prems(1) step in simp_all)
  with step show ?case unfolding fold_simps pixels_of_simps by blast
qed simp

lemma damage_in_tile_ok:
  assumes "box_ok l t ri b" "\<forall>r\<in>set rs. in_box l t ri b r" "wf_rect tb"
  shows "damage_in_tile rs tb = Some d \<Longrightarrow> in_box l t ri b d"
    and "pixels tb \<inter> pixels_of rs \<subseteq> (case damage_in_tile rs tb of None \<Rightarrow> {} | Some d \<Rightarrow> pixels d)"
  using damage_in_tile_fold[OF assms, of None] unfolding damage_in_tile_def by simp_all

text \<open>What a list of tiles paints, and that every part of it stays in the box.\<close>

definition tiles_paint :: "tile list \<Rightarrow> pixel set" where
  "tiles_paint ts = pixels_of (List.map_filter tile_damage ts)"

definition tiles_in :: "int \<Rightarrow> int \<Rightarrow> int \<Rightarrow> int \<Rightarrow> tile list \<Rightarrow> bool" where
  "tiles_in l t ri b ts \<longleftrightarrow> (\<forall>r\<in>set (List.map_filter tile_damage ts). in_box l t ri b r)"

lemma tiles_simps [simp]:
  "tiles_paint [] = {}"
  "tiles_paint (a # ts) = (case tile_damage a of None \<Rightarrow> {} | Some d \<Rightarrow> pixels d) \<union> tiles_paint ts"
  "tiles_paint (us @ ts) = tiles_paint us \<union> tiles_paint ts"
  "tiles_in l t ri b []"
  "tiles_in l t ri b (a # ts) \<longleftrightarrow> (\<forall>d. tile_damage a = Some d \<longrightarrow> in_box l t ri b d) \<and> tiles_in l t ri b ts"
  "tiles_in l t ri b (us @ ts) \<longleftrightarrow> tiles_in l t ri b us \<and> tiles_in l t ri b ts"
  by (auto simp: tiles_paint_def tiles_in_def List.map_filter_def split: option.splits)

lemma merge_column_Cons_ok:
  assumes ok: "box_ok l t ri b" and "tiles_in l t ri b (a # rest)"
  shows "tiles_in l t ri b (merge_column gap (a # rest)) \<and>
    tiles_paint (a # rest) \<subseteq> tiles_paint (merge_column gap (a # rest))"
  using assms(2)
proof (induction rest arbitrary: a)
  case (Cons c rest)
  show ?case
  proof (cases "\<exists>d e. tile_damage a = Some d \<and> tile_damage c = Some e \<and>
      i32_add (i32_add (ry d) (rh d)) (sh gap) \<ge> ry e \<and> coord_abs (i32_sub (rw d) (rw e)) < sw gap")
    case False
    then have "merge_column gap (a # c # rest) = a # merge_column gap (c # rest)"
      by (auto split: option.split)
    moreover have "tiles_in l t ri b (c # rest)" using Cons.prems by simp
    ultimately show ?thesis using Cons.IH[of c] Cons.prems by auto
  next
    case True
    then obtain d e where d: "tile_damage a = Some d" "tile_damage c = Some e"
      "i32_add (i32_add (ry d) (rh d)) (sh gap) \<ge> ry e" "coord_abs (i32_sub (rw d) (rw e)) < sw gap"
      by blast
    define c' where "c' = c\<lparr>tile_damage := Some (rect_merge d e)\<rparr>"
    from d Cons.prems have m: "in_box l t ri b (rect_merge d e)" "pixels d \<union> pixels e \<subseteq> pixels (rect_merge d e)"
      using merge_in_box[OF ok, of d e] by simp_all
    have "tiles_in l t ri b (c' # rest)" using Cons.prems m(1) by (simp add: c'_def)
    note IH = Cons.IH[OF this]
    have "merge_column gap (a # c # rest) = a\<lparr>tile_damage := None\<rparr> # merge_column gap (c' # rest)"
      using d by (simp add: c'_def)
    moreover have "tiles_paint (a # c # rest) \<subseteq> tiles_paint (c' # rest)"
      using d m(2) by (auto simp: c'_def)
    ultimately show ?thesis using IH by auto
  qed
qed simp

lemma merge_column_ok:
  "box_ok l t ri b \<Longrightarrow> tiles_in l t ri b ts \<Longrightarrow>
    tiles_in l t ri b (merge_column gap ts) \<and> tiles_paint ts \<subseteq> tiles_paint (merge_column gap ts)"
  by (cases ts) (simp_all only: merge_column_Cons_ok merge_column.simps simp_thms order_refl)

lemma column_ok:
  assumes ok: "box_ok l t ri b" and rs: "\<forall>r\<in>set rs. in_box l t ri b r"
    and ts: "wf_size ts" "0 < sh ts" and x: "in_i32 x"
    and ys: "in_i32 y0" "in_i32 y1" and bb: "ry bbox = y0" "i32_add (ry bbox) (rh bbox) = y1"
  shows "tiles_in l t ri b (column_tiles rs bbox ts x)"
    and "{(p, q). x \<le> p \<and> p < sat_add x (sw ts) \<and> y0 \<le> q \<and> q < y1} \<inter> pixels_of rs
      \<subseteq> tiles_paint (column_tiles rs bbox ts x)"
    and "y0 < y1 \<Longrightarrow> column_tiles rs bbox ts x \<noteq> []"
proof -
  define tb where "tb y = rect_new (point_new x y) ts" for y
  have col: "column_tiles rs bbox ts x =
      map (\<lambda>y. \<lparr>tile_bbox = tb y, tile_damage = damage_in_tile rs (tb y)\<rparr>) (step_range y0 y1 (sh ts))"
    using bb(2) by (simp add: column_tiles_def Let_def bb(1) tb_def)
  have wf: "wf_rect (tb y)" if "y \<in> set (step_range y0 y1 (sh ts))" for y
    using step_range_mem[OF ts(2) that] ts(1) x ys
    by (auto simp: tb_def wf_rect_def wf_point_def point_new_def in_i32_def)
  show "tiles_in l t ri b (column_tiles rs bbox ts x)"
    unfolding col tiles_in_def using damage_in_tile_ok(1)[OF ok rs wf]
    by (auto simp: List.map_filter_def)
  show "{(p, q). x \<le> p \<and> p < sat_add x (sw ts) \<and> y0 \<le> q \<and> q < y1} \<inter> pixels_of rs
      \<subseteq> tiles_paint (column_tiles rs bbox ts x)"
  proof clarify
    fix p q assume p: "x \<le> p" "p < sat_add x (sw ts)" "y0 \<le> q" "q < y1" "(p, q) \<in> pixels_of rs"
    obtain y where y: "y \<in> set (step_range y0 y1 (sh ts))" "y \<le> q" "q < y + sh ts"
      using step_range_cover[OF ts(2) p(3,4)] .
    have "q < sat_add y (sh ts)" using y(3) p(4) ys(2) step_range_mem[OF ts(2) y(1)] ts
      by (auto simp: sat_add_def sat32_def in_i32_def)
    with p y have "(p, q) \<in> pixels (tb y)" by (auto simp: tb_def pixels_def point_new_def)
    with damage_in_tile_ok(2)[OF ok rs wf[OF y(1)]] p(5)
    have "(p, q) \<in> (case damage_in_tile rs (tb y) of None \<Rightarrow> {} | Some d \<Rightarrow> pixels d)" by blast
    then obtain d where d: "damage_in_tile rs (tb y) = Some d" "(p, q) \<in> pixels d"
      by (auto split: option.splits)
    with y(1) have "d \<in> set (List.map_filter tile_damage (column_tiles rs bbox ts x))"
      unfolding col by (force simp: List.map_filter_def)
    with d(2) show "(p, q) \<in> tiles_paint (column_tiles rs bbox ts x)"
      by (auto simp: tiles_paint_def pixels_of_def)
  qed
  show "column_tiles rs bbox ts x \<noteq> []" if less: "y0 < y1"
  proof -
    obtain y where "y \<in> set (step_range y0 y1 (sh ts))"
      using step_range_cover[OF ts(2) order_refl less] .
    then show ?thesis unfolding col by (cases "step_range y0 y1 (sh ts)") simp_all
  qed
qed


lemma tile_columns_ok:
  assumes ok: "box_ok l t ri b" and rs: "\<forall>r\<in>set rs. in_box l t ri b r"
    and ts: "wf_size ts" "0 < sh ts"
    and ys: "in_i32 y0" "in_i32 y1" "y0 < y1" and bb: "ry bbox = y0" "i32_add (ry bbox) (rh bbox) = y1"
    and xs: "\<forall>x\<in>set xs. in_i32 x" and cache: "tiles_in l t ri b cache"
  shows "\<exists>res. tile_columns rs bbox ts gap xs cache = Some res \<and> tiles_in l t ri b res \<and>
    tiles_paint cache \<union> {(p, q). (\<exists>x\<in>set xs. x \<le> p \<and> p < sat_add x (sw ts)) \<and> y0 \<le> q \<and> q < y1} \<inter> pixels_of rs
      \<subseteq> tiles_paint res"
  using xs cache
proof (induction xs arbitrary: cache)
  case (Cons x xs)
  define col where "col = column_tiles rs bbox ts x"
  have x: "in_i32 x" using Cons.prems(1) by simp
  note c = column_ok[OF ok rs ts x ys(1,2) bb, folded col_def]
  have m: "tiles_in l t ri b (merge_column gap col)" "tiles_paint col \<subseteq> tiles_paint (merge_column gap col)"
    using merge_column_ok[OF ok c(1)] by simp_all
  have "col \<noteq> []" using c(3) ys(3) by blast
  then have step: "tile_columns rs bbox ts gap (x # xs) cache =
      tile_columns rs bbox ts gap xs (cache @ merge_column gap col)"
    by (simp add: col_def Let_def)
  have "tiles_in l t ri b (cache @ merge_column gap col)" using Cons.prems(2) m(1) by simp
  then obtain res where res: "tile_columns rs bbox ts gap xs (cache @ merge_column gap col) = Some res"
    "tiles_in l t ri b res"
    "tiles_paint (cache @ merge_column gap col) \<union>
      {(p, q). (\<exists>x\<in>set xs. x \<le> p \<and> p < sat_add x (sw ts)) \<and> y0 \<le> q \<and> q < y1} \<inter> pixels_of rs \<subseteq> tiles_paint res"
    using Cons.IH[of "cache @ merge_column gap col"] Cons.prems(1) by auto
  have "{(p, q). x \<le> p \<and> p < sat_add x (sw ts) \<and> y0 \<le> q \<and> q < y1} \<inter> pixels_of rs \<subseteq> tiles_paint res"
    using c(2) m(2) res(3) by auto
  then show ?case unfolding step using res by (auto 4 3)
qed auto

lemma shape_damage_tiled_ok:
  assumes ok: "box_ok x y x' y'" and rs: "is_bbox rs x y x' y'"
    and less: "x \<le> x'" "y < y'"
    and ts: "wf_size ts" "0 < sw ts" "0 < sh ts"
    and bb: "bbox = rect_new (point_new x y) (size_new (x' - x) (y' - y))"
  shows "\<exists>new. shape_damage_tiled rs bbox ts out = Some (out @ new) \<and>
    (\<forall>r\<in>set new. in_box x y x' y' r) \<and> pixels_of rs \<subseteq> pixels_of new"
proof -
  define xs where "xs = step_range x x' (sw ts)"
  define gap where "gap = size_new (trunc_div (sw ts) TILE_DAMAGE_GAP_FRACTION) (trunc_div (sh ts) TILE_DAMAGE_GAP_FRACTION)"
  have edges: "i32_add (rx bbox) (rw bbox) = x'" "i32_add (ry bbox) (rh bbox) = y'" "rx bbox = x" "ry bbox = y"
    using ok by (simp_all add: bb box_ok_def point_new_def size_new_def range_simps)
  have xs: "\<forall>x\<in>set xs. in_i32 x"
    using step_range_mem[OF ts(2)] ok unfolding xs_def box_ok_def in_i32_def by fastforce
  have io: "in_i32 y" "in_i32 y'" "in_i32 x'" using ok by (simp_all add: box_ok_def)
  obtain res where res: "tile_columns rs bbox ts gap xs [] = Some res" "tiles_in x y x' y' res"
    "tiles_paint [] \<union> {(p, q). (\<exists>x\<in>set xs. x \<le> p \<and> p < sat_add x (sw ts)) \<and> y \<le> q \<and> q < y'} \<inter> pixels_of rs
      \<subseteq> tiles_paint res"
    using tile_columns_ok[OF ok rs[unfolded is_bbox_def] ts(1,3) io(1,2) less(2) edges(4,2) xs, of "[]" gap] by auto
  have "pixels_of rs \<subseteq> tiles_paint res"
  proof
    fix pq assume pq: "pq \<in> pixels_of rs"
    obtain p q where eq: "pq = (p, q)" by fastforce
    have io_: "x \<le> p" "p < x'" "y \<le> q" "q < y'" using is_bbox_pixels[OF ok rs] pq eq by auto
    obtain v where v: "v \<in> set xs" "v \<le> p" "p < v + sw ts"
      unfolding xs_def using step_range_cover[OF ts(2) io_(1,2)] .
    have "p < sat_add v (sw ts)" using v io_(2) io(3) xs ts(1)
      by (auto simp: sat_add_def sat32_def in_i32_def wf_size_def)
    with v io_ pq res(3) show "pq \<in> tiles_paint res" by (auto simp: eq)
  qed
  moreover have "shape_damage_tiled rs bbox ts out = Some (out @ List.map_filter tile_damage res)"
    using res(1) edges(1)[unfolded edges(3)]
    unfolding shape_damage_tiled_def Let_def gap_def edges(3) xs_def by simp
  ultimately show ?thesis using res(2) by (simp add: tiles_paint_def tiles_in_def)
qed


section \<open>The recursion\<close>

text \<open>What one call adds to the output.\<close>

definition shaped :: "int \<Rightarrow> int \<Rightarrow> int \<Rightarrow> int \<Rightarrow> rect list \<Rightarrow> rect list \<Rightarrow> rect list option \<Rightarrow> bool" where
  "shaped l t ri b rs out res \<longleftrightarrow>
     (\<exists>new. res = Some (out @ new) \<and> (\<forall>r\<in>set new. in_box l t ri b r) \<and> pixels_of rs \<subseteq> pixels_of new)"

lemma shapedI:
  "res = Some (out @ new) \<Longrightarrow> (\<forall>r\<in>set new. in_box l t ri b r) \<Longrightarrow> pixels_of rs \<subseteq> pixels_of new \<Longrightarrow>
    shaped l t ri b rs out res"
  unfolding shaped_def by blast

lemma in_box_mono:
  "in_box x y x' y' r \<Longrightarrow> l \<le> x \<Longrightarrow> t \<le> y \<Longrightarrow> x' \<le> ri \<Longrightarrow> y' \<le> b \<Longrightarrow> in_box l t ri b r"
  by (auto simp: in_box_def)

lemma shape_segments_shaped:
  assumes "\<And>s out. s \<in> set ss \<Longrightarrow> shaped l t ri b s out (f s out)"
  shows "shaped l t ri b (concat ss) out (shape_segments f ss out)"
  using assms
proof (induction ss arbitrary: out)
  case Nil
  show ?case by (rule shapedI[of _ _ "[]"]) simp_all
next
  case (Cons s ss)
  obtain new where n: "f s out = Some (out @ new)" "\<forall>r\<in>set new. in_box l t ri b r" "pixels_of s \<subseteq> pixels_of new"
    using Cons.prems[of s out] unfolding shaped_def by auto
  obtain new' where n': "shape_segments f ss (out @ new) = Some ((out @ new) @ new')"
    "\<forall>r\<in>set new'. in_box l t ri b r" "pixels_of (concat ss) \<subseteq> pixels_of new'"
    using Cons.IH[of "out @ new"] Cons.prems unfolding shaped_def by auto
  show ?case by (rule shapedI[of _ _ "new @ new'"]) (use n n' in auto)
qed

lemma pixels_of_set: "set rs = set qs \<Longrightarrow> pixels_of rs = pixels_of qs"
  by (simp add: pixels_of_def)

lemma trunc_div_bound: "0 \<le> a \<Longrightarrow> 0 < k \<Longrightarrow> 0 \<le> trunc_div a k \<and> trunc_div a k \<le> a"
  using zdiv_mono2[of a 1 k] by (simp add: trunc_div_nonneg pos_imp_zdiv_nonneg_iff)
 
lemma shape_tile_size_wf:
  assumes "0 \<le> w" "w \<le> I32_MAX" "0 \<le> h" "h \<le> I32_MAX"
  shows "wf_size (shape_tile_size d w h) \<and> 0 < sw (shape_tile_size d w h) \<and> 0 < sh (shape_tile_size d w h)"
  using assms trunc_div_bound[OF assms(1), of 4] trunc_div_bound[OF assms(1), of 8]
    trunc_div_bound[OF assms(3), of 4] trunc_div_bound[OF assms(3), of 8]
  by (cases "axis_invert d")
    (auto simp: shape_tile_size_def wf_size_def in_i32_def DEFAULT_MIN_TILE_SIDE_def NUM_TILES_def size_new_def max_def)

text \<open>A single segment on the second axis means that the bounding box has a height.\<close>

lemma single_segment_height:
  assumes ok: "box_ok x y x' y'" and rs: "is_bbox rs x y x' y'" and len: "2 \<le> length rs"
    and seg: "length (split_segments d (axis_end d (hd rs)) [hd rs] (tl rs)) = 1"
    and d: "d = axis_invert (if y' - y \<le> x' - x then Axis_X else Axis_Y)" and x: "x \<le> x'"
  shows "y < y'"
proof (cases "y' - y \<le> x' - x")
  case False
  with x show ?thesis by linarith
next
  case True
  then have d: "d = Axis_Y" using d by simp
  obtain r q qs where rs_eq: "rs = r # q # qs" using len by (cases rs; cases "tl rs") auto
  have "axis_start d q < axis_end d r"
    using seg by (intro split_single_overlap[of d "axis_end d r" "[r]" q qs]) (simp add: rs_eq)
  moreover have "in_box x y x' y' r" "in_box x y x' y' q" using rs by (simp_all add: rs_eq is_bbox_def)
  ultimately show ?thesis using d in_boxD(7)[OF ok, of r] by (auto simp: in_box_def)
qed

text \<open>One unfolding, with the bounding box and the segments named.\<close>

lemma shape_damage_impl_step:
  assumes "rs \<noteq> []" "length rs \<noteq> 1" "damage_extent rs = (x, y, x', y', area)"
    and "\<not> fl_less MAX_DAMAGE_TO_DAMAGE_BBOX_RATIO
                (fl_div round32 (i32_to_f32 area) (i32_to_f32 (sat_mul (i32_sub x' x) (i32_sub y' y))))"
    and "d = split_direction (i32_sub x' x) (i32_sub y' y) ivt" "dmg = (if Some d \<noteq> ldir then srt d rs else rs)"
    and "segs = split_segments d (axis_end d (hd dmg)) [hd dmg] (tl dmg)"
  shows "shape_damage_impl srt (Suc n) rs ldir ivt out =
        (case shape_segments (\<lambda>s. shape_damage_impl srt n s (Some d) False) (butlast segs) out of
           None \<Rightarrow> None
         | Some out' \<Rightarrow>
             if length segs = 1 \<and> ivt
             then shape_damage_tiled dmg (rect_new (point_new x y) (size_new (i32_sub x' x) (i32_sub y' y)))
                    (shape_tile_size d (i32_sub x' x) (i32_sub y' y)) out'
             else shape_damage_impl srt n (last segs) (Some d) (length segs = 1) out')"
  apply (subst shape_damage_impl.simps(2))
  apply (subst if_not_P[OF assms(1)])
  apply (subst if_not_P[OF assms(2)])
  apply (subst assms(3))
  apply (subst Let_def)
  apply (subst prod.case)+
  apply (subst Let_def)
  apply (subst Let_def)
  apply (subst Let_def)
  apply (subst if_not_P[OF assms(4)])
  apply (subst assms(5)[symmetric])
  apply (subst Let_def)
  apply (subst assms(6)[symmetric])
  apply (subst Let_def)
  apply (subst assms(7)[symmetric])
  apply (subst Let_def)
  apply (rule refl)
  done

lemma shape_damage_impl_shaped:
  assumes srt: "sort_permutes srt" and ok: "box_ok l t ri b"
  shows "\<lbrakk>\<forall>r\<in>set rs. in_box l t ri b r; 2 * length rs + (if ivt then 1 else 2) \<le> n\<rbrakk> \<Longrightarrow>
    shaped l t ri b rs out (shape_damage_impl srt n rs ldir ivt out)"
proof (induction n arbitrary: rs ldir ivt out)
  case 0
  then show ?case by (simp split: if_splits)
next
  case (Suc n)
  show ?case
  proof (cases "length rs \<le> 1")
    case True
    show ?thesis
      by (rule shapedI[of _ _ rs]) (use True Suc.prems(1) in \<open>cases rs; auto\<close>)+
  next
    case False
    then have ne: "rs \<noteq> []" and one: "length rs \<noteq> 1" and len: "2 \<le> length rs" by auto
    obtain x y x' y' area where ext: "damage_extent rs = (x, y, x', y', area)"
      by (metis prod.exhaust)
    note bb = extent_bbox[OF ok Suc.prems(1) ne ext]
    note br = bbox_rect[OF bb(2,7,8)]
    define bbox where "bbox = rect_new (point_new x y) (size_new (x' - x) (y' - y))"
    have into: "in_box x y x' y' r \<Longrightarrow> in_box l t ri b r" for r
      using in_box_mono bb(3-6) by blast
    define full where "full \<longleftrightarrow> fl_less MAX_DAMAGE_TO_DAMAGE_BBOX_RATIO
                (fl_div round32 (i32_to_f32 area) (i32_to_f32 (sat_mul (x' - x) (y' - y))))"
    show ?thesis
    proof (cases full)
      case True
      have "shape_damage_impl srt (Suc n) rs ldir ivt out = Some (out @ [bbox])"
        using False True ne by (simp add: ext br(1,2) full_def bbox_def Let_def)
      then show ?thesis
        by (rule shapedI) (use into br(3,4) is_bbox_pixels[OF bb(2,1)] in \<open>simp_all add: br(1,2) bbox_def\<close>)
    next
      case nf: False
      define d where "d = split_direction (x' - x) (y' - y) ivt"
      define dmg where "dmg = (if Some d \<noteq> ldir then srt d rs else rs)"
      define segs where "segs = split_segments d (axis_end d (hd dmg)) [hd dmg] (tl dmg)"
      have dmg: "set dmg = set rs" "length dmg = length rs"
        using sort_permutesD[OF srt] by (simp_all add: dmg_def)
      then have dmg_ne: "dmg \<noteq> []" using ne by auto
      note sg = length_segments[OF dmg_ne segs_def]
      define ts where "ts = shape_tile_size d (x' - x) (y' - y)"
      define rec where "rec = shape_damage_impl srt n"
      have step: "shape_damage_impl srt (Suc n) rs ldir ivt out =
        (case shape_segments (\<lambda>s. rec s (Some d) False) (butlast segs) out of
           None \<Rightarrow> None
         | Some out' \<Rightarrow>
             if length segs = 1 \<and> ivt then shape_damage_tiled dmg bbox ts out'
             else rec (last segs) (Some d) (length segs = 1) out')"
        using shape_damage_impl_step[where srt = srt and ldir = ldir and ivt = ivt and n = n and out = out, OF ne one ext nf[unfolded full_def br(1,2)[symmetric]]
            d_def[unfolded br(1,2)[symmetric]] dmg_def segs_def]
        unfolding rec_def ts_def bbox_def br(1,2) .
      have sub: "\<forall>r\<in>set s. in_box l t ri b r" if "s \<in> set segs" for s
        using that Suc.prems(1) dmg(1) sg(3)[OF that] by force
      have lseg: "last segs \<in> set segs" using sg(2) by (simp add: segs_def)
      note lsg = sg(1)[OF lseg] and cat = sg(3)[OF lseg]
      have px: "pixels_of rs = pixels_of dmg" by (rule pixels_of_set) (simp add: dmg(1))
      show ?thesis
      proof (cases "length segs = 1")
        case True
        then have segs: "segs = [dmg]" using cat by (cases segs) auto
        show ?thesis
        proof (cases ivt)
          case False
          have "shaped l t ri b dmg out (rec dmg (Some d) True out)"
            unfolding rec_def by (rule Suc.IH) (use Suc.prems dmg False in auto)
          with False show ?thesis unfolding step by (simp add: segs shaped_def px)
        next
          case ivt: True
          have less: "y < y'"
            by (rule single_segment_height[OF bb(2) _ _ _ _ bb(7), of dmg d])
              (use bb(1) dmg len True ivt in \<open>auto simp: is_bbox_def segs_def d_def split_direction_def\<close>)
          have tsz: "wf_size ts \<and> 0 < sw ts \<and> 0 < sh ts"
            unfolding ts_def by (rule shape_tile_size_wf) (use bb(2,7,8) in \<open>auto simp: box_ok_def\<close>)
          obtain new where "shape_damage_tiled dmg bbox ts out = Some (out @ new)"
            "\<forall>r\<in>set new. in_box x y x' y' r" "pixels_of dmg \<subseteq> pixels_of new"
            using shape_damage_tiled_ok[OF bb(2) _ bb(7) less _ _ _ bbox_def, of dmg ts out] tsz bb(1) dmg(1)
            by (auto simp: is_bbox_def)
          then show ?thesis unfolding step using ivt into
            by (intro shapedI[of _ _ new]) (simp_all add: segs px)
        qed
      next
        case False
        then have two: "2 \<le> length segs" using sg(2)[OF lseg] by (cases segs; cases "tl segs") auto
        have bl: "shaped l t ri b (concat (butlast segs)) out
            (shape_segments (\<lambda>s. rec s (Some d) False) (butlast segs) out)"
        proof (rule shape_segments_shaped)
          fix s out assume "s \<in> set (butlast segs)"
          then have s: "s \<in> set segs" by (rule in_set_butlastD)
          show "shaped l t ri b s out (rec s (Some d) False out)"
            unfolding rec_def by (rule Suc.IH[OF sub[OF s]])
              (use sg(1)[OF s] two Suc.prems(2) dmg(2) in \<open>auto split: if_splits\<close>)
        qed
        then obtain new where new: "shape_segments (\<lambda>s. rec s (Some d) False) (butlast segs) out = Some (out @ new)"
          "\<forall>r\<in>set new. in_box l t ri b r" "pixels_of (concat (butlast segs)) \<subseteq> pixels_of new"
          unfolding shaped_def by blast
        have "shaped l t ri b (last segs) (out @ new) (rec (last segs) (Some d) False (out @ new))"
          unfolding rec_def by (rule Suc.IH[OF sub[OF lseg]])
            (use lsg two Suc.prems(2) dmg(2) in \<open>auto split: if_splits\<close>)
        then obtain new' where new': "rec (last segs) (Some d) False (out @ new) = Some ((out @ new) @ new')"
          "\<forall>r\<in>set new'. in_box l t ri b r" "pixels_of (last segs) \<subseteq> pixels_of new'"
          unfolding shaped_def by blast
        have "concat (butlast segs) @ last segs = dmg"
          using cat sg(2)[OF lseg] by (metis append_butlast_last_id concat_append concat.simps append_Nil2)
        then have "pixels_of rs = pixels_of (concat (butlast segs)) \<union> pixels_of (last segs)"
          unfolding px by (metis pixels_of_simps(3))
        then show ?thesis unfolding step
          by (intro shapedI[of _ _ "new @ new'"]) (use False new new' in auto)
      qed
    qed
  qed
qed


section \<open>A sort\<close>

text \<open>One of the orders \<open>sort_unstable_by\<close> may produce: insertion by the comparison.\<close>

fun axis_insert :: "damage_split_axis \<Rightarrow> rect \<Rightarrow> rect list \<Rightarrow> rect list" where
  "axis_insert d r [] = [r]"
| "axis_insert d r (q # qs) = (if axis_le d r q then r # q # qs else q # axis_insert d r qs)"

definition axis_sort :: "damage_split_axis \<Rightarrow> rect list \<Rightarrow> rect list" where
  "axis_sort d rs = foldr (axis_insert d) rs []"

lemma mset_axis_insert [simp]: "mset (axis_insert d r rs) = add_mset r (mset rs)"
  by (induction rs) simp_all

lemma set_axis_insert [simp]: "set (axis_insert d r rs) = insert r (set rs)"
  by (induction rs) auto

lemma axis_le_total: "axis_le d a b \<or> axis_le d b a"
  by (cases d) auto

lemma axis_le_trans: "axis_le d a b \<Longrightarrow> axis_le d b c \<Longrightarrow> axis_le d a c"
  by (cases d) auto

lemma axis_sort_sorts: "mset (axis_sort d rs) = mset rs" "sorted_wrt (axis_le d) (axis_sort d rs)"
proof -
  show "mset (axis_sort d rs) = mset rs" by (induction rs) (simp_all add: axis_sort_def)
  have "sorted_wrt (axis_le d) (axis_insert d r qs)" if "sorted_wrt (axis_le d) qs" for r qs
    using that axis_le_total axis_le_trans by (induction qs) fastforce+
  then show "sorted_wrt (axis_le d) (axis_sort d rs)" by (induction rs) (simp_all add: axis_sort_def)
qed

lemma axis_sort_permutes: "sort_permutes axis_sort"
  by (simp add: sort_permutes_def axis_sort_sorts)

section \<open>Properties\<close>

text \<open>C27. Shaping returns, without running out of the recursion bound and without an index
  underflow in the tile loop, and it is sound: every damaged pixel is still damaged, and the
  shaped damage stays inside every box that holds the damage, so in particular inside its
  bounding box. The damage may be anywhere in \<open>i32\<close> as long as its span fits, and the order the
  sort gives to equal keys does not matter.\<close>

theorem shape_damage_sound:
  assumes "sort_permutes srt" "box_ok l t ri b" "\<forall>r\<in>set damage. in_box l t ri b r"
  shows "\<exists>res. shape_damage srt damage = Some res \<and> pixels_of damage \<subseteq> pixels_of res \<and>
    (\<forall>r\<in>set res. in_box l t ri b r)"
proof -
  have "shaped l t ri b damage [] (shape_damage srt damage)"
    unfolding shape_damage_def by (rule shape_damage_impl_shaped[OF assms]) simp
  then show ?thesis unfolding shaped_def append_Nil by blast
qed

theorem shape_damage_sound_witness:
  "\<exists>res. shape_damage axis_sort [strip 0 0 20 300, strip 10 40 300 30, strip 280 0 20 300] = Some res \<and>
    pixels_of [strip 0 0 20 300, strip 10 40 300 30, strip 280 0 20 300] \<subseteq> pixels_of res \<and>
    (\<forall>r\<in>set res. in_box 0 0 310 300 r)"
  by (rule shape_damage_sound[OF axis_sort_permutes])
    (simp_all add: box_ok_def in_box_def in_i32_def)

end
