(* ===== verification/Tracker.thy ===== *)
theory Tracker
  imports Outputs Damage Shaper
begin

text \<open>
  The output damage tracker, \<open>src/backend/renderer/damage/mod.rs\<close>, and what it uses of
  \<open>src/backend/renderer/element/mod.rs\<close>. An element is what the trait \<open>Element\<close> lets the tracker
  ask: a record of the answers, functions of the scale where the trait takes one, and \<open>el_draw\<close>,
  what \<open>draw\<close> puts on the screen, which the tracker never looks at. Identifiers and that content
  are type parameters. A panic (an index out of bounds in the subtraction, an \<open>unwrap\<close>) is
  \<open>None\<close>. Drawing is a list of commands to the renderer; whether the renderer fails on them is a
  parameter, and of the cache of framebuffer effects only the presence of an entry is kept.
\<close>

section \<open>Elements\<close>

type_synonym fscale = "fl \<times> fl"

record ('id, 'd) element =
  el_id :: 'id
  el_current_commit :: commit_counter
  el_src :: frect
  el_transform :: transform
  el_geometry :: "fscale \<Rightarrow> rect"
  el_damage_since :: "fscale \<Rightarrow> commit_counter option \<Rightarrow> rect list"
  el_opaque_regions :: "fscale \<Rightarrow> rect list"
  el_alpha :: fl
  el_framebuffer_effect :: bool
  el_draw :: 'd

text \<open>The default \<open>damage_since\<close> of the trait.\<close>

definition default_damage_since :: "commit_counter \<Rightarrow> sz \<Rightarrow> commit_counter option \<Rightarrow> rect list" where
  "default_damage_since current geometry_size commit =
     (if commit \<noteq> Some current then [rect_from_size geometry_size] else [])"

datatype rendering_reason = Format_unsupported | Scanout_failed

datatype element_presentation = Rendering "rendering_reason option" | Zero_copy | Skipped

record render_element_state =
  visible_area :: usize
  presentation_state :: element_presentation
  needs_capture :: bool

definition render_skipped :: render_element_state where
  "render_skipped = \<lparr>visible_area = 0, presentation_state = Skipped, needs_capture = False\<rparr>"

definition render_rendered :: "usize \<Rightarrow> render_element_state" where
  "render_rendered area = \<lparr>visible_area = area, presentation_state = Rendering None, needs_capture = False\<rparr>"

type_synonym 'id render_states = "'id \<Rightarrow> render_element_state option"

definition element_was_presented :: "'id render_states \<Rightarrow> 'id \<Rightarrow> bool" where
  "element_was_presented states i =
     (case states i of None \<Rightarrow> False | Some st \<Rightarrow> presentation_state st \<noteq> Skipped)"

section \<open>What the tracker remembers\<close>

definition frect_eq :: "frect \<Rightarrow> frect \<Rightarrow> bool" where
  "frect_eq a b \<longleftrightarrow> fl_eq (fpx (frloc a)) (fpx (frloc b)) \<and> fl_eq (fpy (frloc a)) (fpy (frloc b)) \<and>
     fl_eq (fsw (frsize a)) (fsw (frsize b)) \<and> fl_eq (fsh (frsize a)) (fsh (frsize b))"

record color =
  c_r :: fl
  c_g :: fl
  c_b :: fl
  c_a :: fl

definition color_eq :: "color \<Rightarrow> color \<Rightarrow> bool" where
  "color_eq a b \<longleftrightarrow> fl_eq (c_r a) (c_r b) \<and> fl_eq (c_g a) (c_g b) \<and> fl_eq (c_b a) (c_b b) \<and> fl_eq (c_a a) (c_a b)"

fun color_opt_eq :: "color option \<Rightarrow> color option \<Rightarrow> bool" where
  "color_opt_eq None None \<longleftrightarrow> True"
| "color_opt_eq (Some a) (Some b) \<longleftrightarrow> color_eq a b"
| "color_opt_eq _ _ \<longleftrightarrow> False"

record instance_state =
  last_src :: frect
  last_geometry :: rect
  last_transform :: transform
  last_alpha :: fl
  last_z_index :: nat
  last_framebuffer_effect :: bool

definition instance_state_matches :: "instance_state \<Rightarrow> frect \<Rightarrow> rect \<Rightarrow> transform \<Rightarrow> fl \<Rightarrow> nat \<Rightarrow> bool \<Rightarrow> bool" where
  "instance_state_matches i src geometry t alpha z effect \<longleftrightarrow>
     frect_eq (last_src i) src \<and> last_geometry i = geometry \<and> last_transform i = t \<and>
     fl_eq (last_alpha i) alpha \<and> last_z_index i = z \<and> last_framebuffer_effect i = effect"

record element_state =
  last_commit :: commit_counter
  last_instances :: "instance_state list"

definition instance_matches :: "element_state \<Rightarrow> frect \<Rightarrow> rect \<Rightarrow> transform \<Rightarrow> fl \<Rightarrow> nat \<Rightarrow> bool \<Rightarrow> bool" where
  "instance_matches s src geometry t alpha z effect =
     list_ex (\<lambda>i. instance_state_matches i src geometry t alpha z effect) (last_instances s)"

text \<open>The map of elements keeps the order of insertion.\<close>

record 'id renderer_state =
  rs_transform :: "transform option"
  rs_size :: "sz option"
  rs_elements :: "('id \<times> element_state) list"
  rs_effects_cache :: "'id list"
  rs_old_damage :: "rect list list"
  rs_opaque_regions :: "rect list"
  rs_clear_color :: "color option"

definition renderer_state_default :: "'id renderer_state" where
  "renderer_state_default = \<lparr>rs_transform = None, rs_size = None, rs_elements = [], rs_effects_cache = [],
     rs_old_damage = [], rs_opaque_regions = [], rs_clear_color = None\<rparr>"

definition MAX_AGE :: nat where "MAX_AGE = 4"

text \<open>The work buffers that outlive a call are the damage and the opaque regions of this frame.\<close>

record 'id tracker =
  tr_mode :: mode_source
  tr_state :: "'id renderer_state"
  tr_damage :: "rect list"
  tr_opaque_regions :: "rect list"
  tr_opaque_index :: "(nat \<times> nat) list"

definition tracker_from_mode :: "mode_source \<Rightarrow> 'id tracker" where
  "tracker_from_mode m = \<lparr>tr_mode = m, tr_state = renderer_state_default, tr_damage = [],
     tr_opaque_regions = [], tr_opaque_index = []\<rparr>"

definition tracker_new :: "sz \<Rightarrow> fscale \<Rightarrow> transform \<Rightarrow> 'id tracker" where
  "tracker_new z sc t = tracker_from_mode (Mode_static z sc t)"

section \<open>The scan over the elements\<close>

record ('id, 'd) scan =
  sc_damage :: "rect list"
  sc_damage_index :: "nat list"
  sc_opaque :: "rect list"
  sc_opaque_index :: "(nat \<times> nat) list"
  sc_rendered :: "('id, 'd) element list"
  sc_states :: "'id render_states"

definition scan_init :: "('id, 'd) scan" where
  "scan_init = \<lparr>sc_damage = [], sc_damage_index = [], sc_opaque = [], sc_opaque_index = [], sc_rendered = [],
     sc_states = Map.empty\<rparr>"

text \<open>\<open>(item.size.w * item.size.h) as usize\<close>, added up.\<close>

definition rects_area :: "rect list \<Rightarrow> usize" where
  "rects_area rs = fold (\<lambda>r acc. acc + word_of_int (i32_mul (rw r) (rh r))) rs 0"

definition rect_shift :: "point \<Rightarrow> rect \<Rightarrow> rect" where
  "rect_shift p r = r\<lparr>rloc := point_add (rloc r) p\<rparr>"

definition clip_all :: "rect \<Rightarrow> rect list \<Rightarrow> rect list" where
  "clip_all bounds rs = List.map_filter (\<lambda>r. rect_intersection r bounds) rs"

definition element_damage :: "fscale \<Rightarrow> rect \<Rightarrow> element_state option \<Rightarrow> nat \<Rightarrow> ('id, 'd) element \<Rightarrow> rect list" where
  "element_damage sc output_geo prev z e =
     (let geometry = el_geometry e sc
      in if (case prev of
               None \<Rightarrow> True
             | Some s \<Rightarrow> \<not> instance_matches s (el_src e) geometry (el_transform e) (el_alpha e) z (el_framebuffer_effect e))
         then (case rect_intersection geometry output_geo of None \<Rightarrow> [] | Some i \<Rightarrow> [i]) @
              (case prev of
                 None \<Rightarrow> []
               | Some s \<Rightarrow> clip_all output_geo (map last_geometry (last_instances s)))
         else clip_all output_geo
                (map (rect_shift (rloc geometry)) (el_damage_since e sc (map_option last_commit prev))))"

definition update_render_state :: "bool \<Rightarrow> usize \<Rightarrow> render_element_state option \<Rightarrow> render_element_state" where
  "update_render_state effect area st =
     (case st of
        None \<Rightarrow> render_rendered area
      | Some s \<Rightarrow>
          let s = (if presentation_state s = Skipped then render_rendered area
                   else s\<lparr>visible_area := visible_area s + area\<rparr>)
          in if effect then s\<lparr>needs_capture := True\<rparr> else s)"

definition scan_element :: "fscale \<Rightarrow> rect \<Rightarrow> ('id \<times> element_state) list \<Rightarrow> ('id, 'd) element \<Rightarrow> ('id, 'd) scan \<Rightarrow> ('id, 'd) scan option" where
  "scan_element sc output_geo prev e s =
     (case rect_intersection (el_geometry e sc) output_geo of
        None \<Rightarrow> Some s
      | Some element_output_geometry \<Rightarrow>
          case subtract_rects_many_in_place [element_output_geometry] (sc_opaque s) of
            None \<Rightarrow> None
          | Some visible \<Rightarrow>
              let area = rects_area visible
              in if area = 0
                 then Some (if sc_states s (el_id e) \<noteq> None then s
                            else s\<lparr>sc_states := (sc_states s)(el_id e \<mapsto> render_skipped)\<rparr>)
                 else
                   let z = length (sc_rendered s);
                       damage = element_damage sc output_geo (map_of prev (el_id e)) z e;
                       opaque = clip_all output_geo (map (rect_shift (rloc (el_geometry e sc))) (el_opaque_regions e sc))
                   in Some (s\<lparr>sc_damage := sc_damage s @ damage,
                              sc_damage_index := sc_damage_index s @ [length (sc_damage s)],
                              sc_opaque := sc_opaque s @ opaque,
                              sc_opaque_index := sc_opaque_index s @
                                [(length (sc_opaque s), length (sc_opaque s) + length opaque)],
                              sc_rendered := sc_rendered s @ [e],
                              sc_states := (sc_states s)(el_id e \<mapsto>
                                update_render_state (el_framebuffer_effect e) area (sc_states s (el_id e)))\<rparr>))"

fun scan_elements :: "fscale \<Rightarrow> rect \<Rightarrow> ('id \<times> element_state) list \<Rightarrow> ('id, 'd) element list \<Rightarrow> ('id, 'd) scan \<Rightarrow> ('id, 'd) scan option" where
  "scan_elements sc output_geo prev [] s = Some s"
| "scan_elements sc output_geo prev (e # es) s =
     (case scan_element sc output_geo prev e s of
        None \<Rightarrow> None
      | Some s' \<Rightarrow> scan_elements sc output_geo prev es s')"

section \<open>The rest of the damage\<close>

definition elements_gone :: "'id render_states \<Rightarrow> ('id \<times> element_state) list \<Rightarrow> ('id \<times> element_state) list" where
  "elements_gone states prev =
     filter (\<lambda>(i, _). case states i of None \<Rightarrow> True | Some st \<Rightarrow> presentation_state st = Skipped) prev"

definition gone_damage :: "rect \<Rightarrow> ('id \<times> element_state) list \<Rightarrow> rect list" where
  "gone_damage output_geo gone =
     concat (map (\<lambda>(_, s). clip_all output_geo (map last_geometry (last_instances s))) gone)"

text \<open>
  Framebuffer effects, from the bottom up: if anything below, or the effect itself, is damaged,
  the whole effect is, and the opaque regions above it that could block drawing below it are
  cut down to one remaining piece. The argument lists the effects with their z-index.
\<close>

record 'id effect_scan =
  ef_damage :: "rect list"
  ef_opaque :: "rect list"
  ef_states :: "'id render_states"

definition effect_needed :: "'id render_states \<Rightarrow> 'id render_states option \<Rightarrow> 'id \<Rightarrow> rect list \<Rightarrow> nat \<Rightarrow> rect \<Rightarrow> bool" where
  "effect_needed states with_states i damage damage_index area \<longleftrightarrow>
     (case states i of None \<Rightarrow> False | Some st \<Rightarrow> needs_capture st) \<or>
     (case with_states of None \<Rightarrow> False | Some ws \<Rightarrow> (case ws i of None \<Rightarrow> False | Some st \<Rightarrow> needs_capture st)) \<or>
     list_ex (\<lambda>d. rect_overlaps d area) (drop damage_index damage)"

definition first_piece :: "rect \<Rightarrow> rect \<Rightarrow> rect option" where
  "first_piece region area =
     (case subtract_rect region area of None \<Rightarrow> None | Some [] \<Rightarrow> Some rect_zero | Some (p # ps) \<Rightarrow> Some p)"

fun cut_opaque :: "rect \<Rightarrow> nat \<Rightarrow> rect list \<Rightarrow> rect list option" where
  "cut_opaque area 0 rs = Some rs"
| "cut_opaque area (Suc n) [] = Some []"
| "cut_opaque area (Suc n) (r # rs) =
     (case (first_piece r area, cut_opaque area n rs) of (Some p, Some ps) \<Rightarrow> Some (p # ps) | _ \<Rightarrow> None)"

definition effect_step :: "fscale \<Rightarrow> rect \<Rightarrow> bool \<Rightarrow> nat list \<Rightarrow> (nat \<times> nat) list \<Rightarrow> 'id render_states option \<Rightarrow>
    nat \<times> ('id, 'd) element \<Rightarrow> 'id effect_scan \<Rightarrow> 'id effect_scan option" where
  "effect_step sc output_geo force_redraw damage_index opaque_index with_states ze s =
     (let (z, e) = ze;
          di = (if force_redraw then 0 else damage_index ! z);
          oi = (if force_redraw then length (ef_opaque s) else fst (opaque_index ! z))
      in case (rect_intersection (el_geometry e sc) output_geo, ef_states s (el_id e)) of
           (Some area, Some st) \<Rightarrow>
             if effect_needed (ef_states s) with_states (el_id e) (ef_damage s) di area
             then (case cut_opaque area oi (ef_opaque s) of
                     None \<Rightarrow> None
                   | Some opaque \<Rightarrow>
                       Some \<lparr>ef_damage = ef_damage s @ [area], ef_opaque = opaque,
                             ef_states = (ef_states s)(el_id e \<mapsto> st\<lparr>needs_capture := True\<rparr>)\<rparr>)
             else Some s
         | _ \<Rightarrow> None)"

fun effect_steps :: "fscale \<Rightarrow> rect \<Rightarrow> bool \<Rightarrow> nat list \<Rightarrow> (nat \<times> nat) list \<Rightarrow> 'id render_states option \<Rightarrow>
    (nat \<times> ('id, 'd) element) list \<Rightarrow> 'id effect_scan \<Rightarrow> 'id effect_scan option" where
  "effect_steps sc og fr di oi ws [] s = Some s"
| "effect_steps sc og fr di oi ws (ze # zes) s =
     (case effect_step sc og fr di oi ws ze s of
        None \<Rightarrow> None
      | Some s' \<Rightarrow> effect_steps sc og fr di oi ws zes s')"

definition framebuffer_effects :: "('id, 'd) element list \<Rightarrow> (nat \<times> ('id, 'd) element) list" where
  "framebuffer_effects es = filter (\<lambda>(_, e). el_framebuffer_effect e) (rev (List.enumerate 0 es))"

text \<open>Old damage for a buffer of some age, and the new list of old damage.\<close>

definition age_damage :: "nat \<Rightarrow> rect \<Rightarrow> rect list \<Rightarrow> rect list list \<Rightarrow> rect list \<times> rect list list" where
  "age_damage age output_geo damage old =
     (if age > 0 \<and> length old \<ge> age
      then (let old = take age old in (damage @ concat (take (age - 1) old), old))
      else ([output_geo], take MAX_AGE old))"

section \<open>The new state\<close>

definition element_instance :: "fscale \<Rightarrow> nat \<Rightarrow> ('id, 'd) element \<Rightarrow> instance_state" where
  "element_instance sc z e =
     \<lparr>last_src = el_src e, last_geometry = el_geometry e sc, last_transform = el_transform e,
      last_alpha = el_alpha e, last_z_index = z, last_framebuffer_effect = el_framebuffer_effect e\<rparr>"

definition remember_element :: "fscale \<Rightarrow> nat \<times> ('id, 'd) element \<Rightarrow> ('id \<times> element_state) list \<Rightarrow> ('id \<times> element_state) list" where
  "remember_element sc ze m =
     (let (z, e) = ze; inst = element_instance sc z e
      in if map_of m (el_id e) \<noteq> None
         then map (\<lambda>(i, s). if i = el_id e then (i, s\<lparr>last_instances := last_instances s @ [inst]\<rparr>) else (i, s)) m
         else m @ [(el_id e, \<lparr>last_commit = el_current_commit e, last_instances = [inst]\<rparr>)])"

definition remember_elements :: "fscale \<Rightarrow> ('id, 'd) element list \<Rightarrow> ('id \<times> element_state) list" where
  "remember_elements sc es = fold (remember_element sc) (List.enumerate 0 es) []"


section \<open>One frame\<close>

text \<open>
  The damage of the frame before any old damage: the scan, the elements that are gone, what is no
  longer behind opaque regions, a change of the output, and the framebuffer effects.
\<close>

definition frame_damage :: "'id renderer_state \<Rightarrow> ('id, 'd) element list \<Rightarrow> fscale \<Rightarrow> transform \<Rightarrow> rect \<Rightarrow> color option \<Rightarrow>
    'id render_states option \<Rightarrow> (('id, 'd) scan \<times> 'id effect_scan) option" where
  "frame_damage st elements sc t output_geo clear_color with_states =
     (case scan_elements sc output_geo (rs_elements st) elements scan_init of
        None \<Rightarrow> None
      | Some s \<Rightarrow>
          let gone = elements_gone (sc_states s) (rs_elements st)
          in case subtract_rects_many_in_place (rs_opaque_regions st) (sc_opaque s) of
               None \<Rightarrow> None
             | Some uncovered \<Rightarrow>
                 let changed = (rs_size st \<noteq> Some (rsize output_geo) \<or> rs_transform st \<noteq> Some t \<or>
                                \<not> color_opt_eq (rs_clear_color st) clear_color);
                     damage = (if changed then [output_geo]
                               else sc_damage s @ gone_damage output_geo gone @ uncovered);
                     force_redraw = (gone \<noteq> [] \<or> list_ex (\<lambda>r. \<not> rect_is_empty r) uncovered \<or> changed)
                 in case effect_steps sc output_geo force_redraw (sc_damage_index s) (sc_opaque_index s) with_states
                           (framebuffer_effects (sc_rendered s))
                           \<lparr>ef_damage = damage, ef_opaque = sc_opaque s, ef_states = sc_states s\<rparr> of
                      None \<Rightarrow> None
                    | Some ef \<Rightarrow> Some (s, ef))"

definition damage_output_internal :: "(damage_split_axis \<Rightarrow> rect list \<Rightarrow> rect list) \<Rightarrow> nat \<Rightarrow> ('id, 'd) element list \<Rightarrow>
    fscale \<Rightarrow> transform \<Rightarrow> rect \<Rightarrow> color option \<Rightarrow> 'id render_states option \<Rightarrow> 'id tracker \<Rightarrow>
    ('id tracker \<times> ('id, 'd) element list \<times> 'id render_states) option" where
  "damage_output_internal srt age elements sc t output_geo clear_color with_states tr =
     (let st = tr_state tr
      in case frame_damage st elements sc t output_geo clear_color with_states of
           None \<Rightarrow> None
         | Some (s, ef) \<Rightarrow>
             let new_damage = ef_damage ef;
                 (damage, old) = age_damage age output_geo new_damage (rs_old_damage st);
                 clamped = clip_all output_geo damage
             in case shape_damage srt clamped of
                  None \<Rightarrow> None
                | Some damage \<Rightarrow>
                    let tr = tr\<lparr>tr_damage := damage, tr_opaque_regions := ef_opaque ef,
                                tr_opaque_index := sc_opaque_index s, tr_state := st\<lparr>rs_old_damage := old\<rparr>\<rparr>
                    in if damage = [] then Some (tr, sc_rendered s, ef_states ef)
                       else
                         let elements = remember_elements sc (sc_rendered s);
                             state = \<lparr>rs_transform = Some t, rs_size = Some (rsize output_geo),
                                      rs_elements = elements,
                                      rs_effects_cache = filter (\<lambda>i. map_of elements i \<noteq> None) (rs_effects_cache st),
                                      rs_old_damage = new_damage # old, rs_opaque_regions = ef_opaque ef,
                                      rs_clear_color = clear_color\<rparr>
                         in Some (tr\<lparr>tr_state := state\<rparr>, sc_rendered s, ef_states ef))"

section \<open>Rendering\<close>

datatype ('id, 'd) draw_cmd =
    Cmd_begin sz transform
  | Cmd_clear color "rect list"
  | Cmd_capture "('id, 'd) element" frect rect
  | Cmd_draw "('id, 'd) element" frect rect "rect list" "rect list" bool
  | Cmd_finish

definition rect_unshift :: "point \<Rightarrow> rect \<Rightarrow> rect" where
  "rect_unshift p r = r\<lparr>rloc := point_sub (rloc r) p\<rparr>"

text \<open>The damage and the opaque regions an element is drawn with, relative to the element.\<close>

definition draw_damage :: "rect list \<Rightarrow> rect list \<Rightarrow> nat \<Rightarrow> rect \<Rightarrow> rect list option" where
  "draw_damage damage opaque start geometry =
     (case subtract_rects_many_in_place (clip_all geometry damage) (take start opaque) of
        None \<Rightarrow> None
      | Some ds \<Rightarrow> Some (map (rect_unshift (rloc geometry)) ds))"

text \<open>The commands for one element, and for the elements from back to front, each paired with its
  range of opaque regions.\<close>

definition draw_element :: "fscale \<Rightarrow> rect list \<Rightarrow> rect list \<Rightarrow> 'id render_states \<Rightarrow> ('id, 'd) element \<times> nat \<times> nat \<Rightarrow>
    'id list \<Rightarrow> (('id, 'd) draw_cmd list \<times> 'id list) option" where
  "draw_element sc damage opaque states x cache =
     (let (e, start, stop) = x; geometry = el_geometry e sc
      in case draw_damage damage opaque start geometry of
           None \<Rightarrow> None
         | Some [] \<Rightarrow> Some ([], cache)
         | Some ds \<Rightarrow>
             let regions = map (rect_unshift (rloc geometry)) (take (stop - start) (drop start opaque));
                 capture = (case states (el_id e) of None \<Rightarrow> False | Some st \<Rightarrow> needs_capture st);
                 cache = (if capture \<and> el_id e \<notin> set cache then cache @ [el_id e] else cache)
             in Some ((if capture then [Cmd_capture e (el_src e) geometry] else []) @
                      [Cmd_draw e (el_src e) geometry ds regions (el_id e \<in> set cache)], cache))"

fun draw_elements :: "fscale \<Rightarrow> rect list \<Rightarrow> rect list \<Rightarrow> 'id render_states \<Rightarrow> (('id, 'd) element \<times> nat \<times> nat) list \<Rightarrow>
    'id list \<Rightarrow> (('id, 'd) draw_cmd list \<times> 'id list) option" where
  "draw_elements sc damage opaque states [] cache = Some ([], cache)"
| "draw_elements sc damage opaque states (x # xs) cache =
     (case draw_element sc damage opaque states x cache of
        None \<Rightarrow> None
      | Some (cmds, cache) \<Rightarrow>
          (case draw_elements sc damage opaque states xs cache of
             None \<Rightarrow> None
           | Some (cmds', cache) \<Rightarrow> Some (cmds @ cmds', cache)))"

definition render_commands :: "sz \<Rightarrow> transform \<Rightarrow> fscale \<Rightarrow> 'id tracker \<Rightarrow> ('id, 'd) element list \<Rightarrow> color \<Rightarrow> 'id render_states \<Rightarrow>
    (('id, 'd) draw_cmd list \<times> 'id list) option" where
  "render_commands z t sc tr elements clear_color states =
     (case subtract_rects_many_in_place (tr_damage tr) (tr_opaque_regions tr) of
        None \<Rightarrow> None
      | Some clear \<Rightarrow>
          if length elements > length (tr_opaque_index tr) then None
          else case draw_elements sc (tr_damage tr) (tr_opaque_regions tr) states
                      (zip (rev elements) (rev (tr_opaque_index tr))) (rs_effects_cache (tr_state tr)) of
            None \<Rightarrow> None
          | Some (cmds, cache) \<Rightarrow> Some ([Cmd_begin z t, Cmd_clear clear_color clear] @ cmds @ [Cmd_finish], cache))"

text \<open>An error of the renderer, which the parameter \<open>fails\<close> decides on the commands, resets the
  state: the buffer may be partly drawn.\<close>

datatype track_error = Output_no_mode | Rendering_error

datatype ('id, 'd) render_result = Render_result "('id, 'd) draw_cmd list" "rect list option" "'id render_states"

definition render_output_internal :: "(('id, 'd) draw_cmd list \<Rightarrow> bool) \<Rightarrow> 'id tracker \<Rightarrow> ('id, 'd) element list \<Rightarrow> color \<Rightarrow>
    'id render_states \<Rightarrow> ('id tracker \<times> (track_error + ('id, 'd) render_result)) option" where
  "render_output_internal fails tr elements clear_color states =
     (case mode_source_get (tr_mode tr) of
        None \<Rightarrow> Some (tr, Inl Output_no_mode)
      | Some (z, sc, t) \<Rightarrow>
          case render_commands z (transform_invert t) sc tr elements clear_color states of
            None \<Rightarrow> None
          | Some (cmds, cache) \<Rightarrow>
              if fails cmds then Some (tr\<lparr>tr_state := renderer_state_default\<rparr>, Inl Rendering_error)
              else Some (tr\<lparr>tr_state := (tr_state tr)\<lparr>rs_effects_cache := cache\<rparr>\<rparr>,
                         Inr (Render_result cmds (Some (tr_damage tr)) states)))"

definition output_geometry :: "sz \<Rightarrow> transform \<Rightarrow> rect" where
  "output_geometry z t = rect_from_size (transform_size t z)"

text \<open>\<open>render_output\<close>, and \<open>render_output_with_states\<close> when states are given.\<close>

definition render_output :: "(damage_split_axis \<Rightarrow> rect list \<Rightarrow> rect list) \<Rightarrow> (('id, 'd) draw_cmd list \<Rightarrow> bool) \<Rightarrow> nat \<Rightarrow>
    ('id, 'd) element list \<Rightarrow> color \<Rightarrow> 'id render_states option \<Rightarrow> 'id tracker \<Rightarrow>
    ('id tracker \<times> (track_error + ('id, 'd) render_result)) option" where
  "render_output srt fails age elements clear_color with_states tr =
     (case mode_source_get (tr_mode tr) of
        None \<Rightarrow> Some (tr, Inl Output_no_mode)
      | Some (z, sc, t) \<Rightarrow>
          let t = transform_invert t
          in case damage_output_internal srt age elements sc t (output_geometry z t) (Some clear_color) with_states tr of
               None \<Rightarrow> None
             | Some (tr, rendered, states) \<Rightarrow>
                 let states = (case with_states of None \<Rightarrow> states | Some ws \<Rightarrow> ws)
                 in if tr_damage tr = [] then Some (tr, Inr (Render_result [] None states))
                    else render_output_internal fails tr rendered clear_color states)"

definition damage_output :: "(damage_split_axis \<Rightarrow> rect list \<Rightarrow> rect list) \<Rightarrow> nat \<Rightarrow> ('id, 'd) element list \<Rightarrow> 'id tracker \<Rightarrow>
    ('id tracker \<times> (track_error + rect list option \<times> 'id render_states)) option" where
  "damage_output srt age elements tr =
     (case mode_source_get (tr_mode tr) of
        None \<Rightarrow> Some (tr, Inl Output_no_mode)
      | Some (z, sc, t) \<Rightarrow>
          let t = transform_invert t
          in case damage_output_internal srt age elements sc t (output_geometry z t) (rs_clear_color (tr_state tr)) None tr of
               None \<Rightarrow> None
             | Some (tr, rendered, states) \<Rightarrow>
                 Some (tr, Inr (if tr_damage tr = [] then None else Some (tr_damage tr), states)))"

end
