(* ===== verification/Shaper_Disjoint.thy ===== *)
theory Shaper_Disjoint
  imports Shaper
begin

text \<open>
  Shaped damage does not overlap. A renderer draws every rectangle of the damage on its own, so
  a pixel in two of them would be blended twice; the algorithm of
  \<open>src/backend/renderer/damage/shaper.rs\<close> avoids this by cutting the sorted damage where no
  rectangle reaches across and, where everything overlaps, by tiles that only merge within a column.
\<close>

section \<open>Disjoint lists of rectangles\<close>

definition disjoint_rects :: "rect list \<Rightarrow> bool" where
  "disjoint_rects rs \<longleftrightarrow> sorted_wrt (\<lambda>a b. pixels a \<inter> pixels b = {}) rs"

lemma disjoint_rects_simps [simp]:
  "disjoint_rects []"
  "disjoint_rects [r]"
  "disjoint_rects (r # rs) \<longleftrightarrow> pixels r \<inter> pixels_of rs = {} \<and> disjoint_rects rs"
  "disjoint_rects (rs @ qs) \<longleftrightarrow> disjoint_rects rs \<and> disjoint_rects qs \<and> pixels_of rs \<inter> pixels_of qs = {}"
  by (auto simp: disjoint_rects_def sorted_wrt_append pixels_of_def)

text \<open>Boxes on both sides of a cut.\<close>

lemma in_box_cut_disjoint:
  assumes "box_ok l t v b" "box_ok v t ri b" "\<forall>r\<in>set rs. in_box l t v b r" "\<forall>r\<in>set qs. in_box v t ri b r"
  shows "pixels_of rs \<inter> pixels_of qs = {}"
proof -
  have "x < v" if "(x, y) \<in> pixels_of rs" for x y
    using that assms(3) in_box_pixels[OF assms(1)] by (fastforce simp: pixels_of_def in_box_def)
  moreover have "v \<le> x" if "(x, y) \<in> pixels_of qs" for x y
    using that assms(4) in_box_pixels[OF assms(2)] by (fastforce simp: pixels_of_def in_box_def)
  ultimately show ?thesis by fastforce
qed

lemma in_box_cut_disjoint_y:
  assumes "box_ok l t ri v" "box_ok l v ri b" "\<forall>r\<in>set rs. in_box l t ri v r" "\<forall>r\<in>set qs. in_box l v ri b r"
  shows "pixels_of rs \<inter> pixels_of qs = {}"
proof -
  have "y < v" if "(x, y) \<in> pixels_of rs" for x y
    using that assms(3) in_box_pixels[OF assms(1)] by (fastforce simp: pixels_of_def in_box_def)
  moreover have "v \<le> y" if "(x, y) \<in> pixels_of qs" for x y
    using that assms(4) in_box_pixels[OF assms(2)] by (fastforce simp: pixels_of_def in_box_def)
  ultimately show ?thesis by fastforce
qed

section \<open>Segments of sorted damage\<close>

definition starts_sorted :: "damage_split_axis \<Rightarrow> rect list \<Rightarrow> bool" where
  "starts_sorted d rs \<longleftrightarrow> sorted_wrt (\<lambda>a b. axis_start d a \<le> axis_start d b) rs"

text \<open>What the sort promises: a permutation, sorted by the comparison.\<close>

definition sort_ok :: "(damage_split_axis \<Rightarrow> rect list \<Rightarrow> rect list) \<Rightarrow> bool" where
  "sort_ok srt \<longleftrightarrow> sort_permutes srt \<and> (\<forall>d rs. sorted_wrt (axis_le d) (srt d rs))"

lemma sort_ok_starts: "sort_ok srt \<Longrightarrow> starts_sorted d (srt d rs)"
proof -
  assume "sort_ok srt"
  then have "sorted_wrt (axis_le d) (srt d rs)" by (simp add: sort_ok_def)
  moreover have "axis_le d a b \<Longrightarrow> axis_start d a \<le> axis_start d b" for a b by (cases d) auto
  ultimately show ?thesis unfolding starts_sorted_def by (rule sorted_wrt_mono_rel[rotated])
qed

definition cut_between :: "damage_split_axis \<Rightarrow> rect list \<Rightarrow> rect list \<Rightarrow> bool" where
  "cut_between d rs qs \<longleftrightarrow> (\<forall>a\<in>set rs. \<forall>b\<in>set qs. axis_end d a \<le> axis_start d b)"

lemma split_segments_cut:
  assumes "\<forall>a\<in>set cur. axis_end d a \<le> e" "starts_sorted d rs"
  shows "sorted_wrt (cut_between d) (split_segments d e cur rs)"
  using assms
proof (induction d e cur rs rule: split_segments.induct)
  case (2 d e cur r rs)
  have rs: "starts_sorted d rs" "\<forall>q\<in>set rs. axis_start d r \<le> axis_start d q"
    using 2(4) by (auto simp: starts_sorted_def)
  show ?case
  proof (cases "axis_start d r \<ge> e")
    case True
    have "sorted_wrt (cut_between d) (split_segments d (axis_end d r) [r] rs)"
      using 2(1)[OF True] rs by simp
    moreover have "cut_between d cur s" if "s \<in> set (split_segments d (axis_end d r) [r] rs)" for s
    proof -
      have "set s \<subseteq> set (concat (split_segments d (axis_end d r) [r] rs))" using that by auto
      then have "set s \<subseteq> set (r # rs)" by (simp add: split_segments_concat)
      then show ?thesis using 2(3) True rs(2) by (fastforce simp: cut_between_def)
    qed
    ultimately show ?thesis using True by simp
  next
    case False
    then show ?thesis using 2(2)[OF False] 2(3) rs by (auto simp: le_max_iff_disj)
  qed
qed simp

lemma segments_starts_sorted:
  "starts_sorted d (concat ss) \<Longrightarrow> s \<in> set ss \<Longrightarrow> starts_sorted d s"
  by (induction ss) (auto simp: starts_sorted_def sorted_wrt_append)

text \<open>A non-empty later segment gives the coordinate of the cut.\<close>

lemma cut_boxes:
  assumes ok: "box_ok l t ri b" and rs: "\<forall>r\<in>set rs. in_box l t ri b r" and qs: "\<forall>q\<in>set qs. in_box l t ri b q"
    and ne: "qs \<noteq> []" "rs \<noteq> []" and cut: "cut_between d rs qs"
  obtains l1 t1 r1 b1 l2 t2 r2 b2 where "box_ok l1 t1 r1 b1" "box_ok l2 t2 r2 b2"
    "\<forall>r\<in>set rs. in_box l1 t1 r1 b1 r" "\<forall>q\<in>set qs. in_box l2 t2 r2 b2 q"
    "\<forall>ps us. (\<forall>r\<in>set ps. in_box l1 t1 r1 b1 r) \<longrightarrow> (\<forall>r\<in>set us. in_box l2 t2 r2 b2 r) \<longrightarrow>
       pixels_of ps \<inter> pixels_of us = {}"
proof -
  define v where "v = Min (axis_start d ` set qs)"
  have v: "\<forall>q\<in>set qs. v \<le> axis_start d q" by (simp add: v_def)
  have "v \<in> axis_start d ` set qs" unfolding v_def using ne(1) by (intro Min_in) auto
  then obtain q where q: "q \<in> set qs" "v = axis_start d q" by blast
  have a: "\<forall>a\<in>set rs. axis_end d a \<le> v" using cut q by (simp add: cut_between_def)
  have qb: "in_box l t ri b q" using qs q(1) by simp
  note qw = in_boxD(1)[OF ok qb]
  show thesis
  proof (cases d)
    case Axis_X
    have vr: "l \<le> v" "v \<le> ri" "in_i32 v"
      using qb wf_rectD[OF qw] by (auto simp: q(2) Axis_X in_box_def)
    have b1: "box_ok l t v b" "box_ok v t ri b" using ok vr by (auto simp: box_ok_def)
    show thesis
      by (rule that[OF b1])
        (use rs qs a v in_boxD(6)[OF ok] in_box_cut_disjoint[OF b1] in \<open>auto simp: Axis_X in_box_def\<close>)
  next
    case Axis_Y
    have vr: "t \<le> v" "v \<le> b" "in_i32 v"
      using qb wf_rectD[OF qw] by (auto simp: q(2) Axis_Y in_box_def)
    have b1: "box_ok l t ri v" "box_ok l v ri b" using ok vr by (auto simp: box_ok_def)
    show thesis
      by (rule that[OF b1])
        (use rs qs a v in_boxD(7)[OF ok] in_box_cut_disjoint_y[OF b1] in \<open>auto simp: Axis_Y in_box_def\<close>)
  qed
qed


section \<open>Tiles\<close>

lemma damage_in_tile_bounds:
  assumes ok: "box_ok l t ri b" and rs: "\<forall>r\<in>set rs. in_box l t ri b r" and tb: "wf_rect tb"
  shows "damage_in_tile rs tb = Some d \<Longrightarrow>
    in_box (max l (rx tb)) (max t (ry tb)) (min ri (rright tb)) (min b (rbottom tb)) d"
proof -
  define P where "P = in_box (max l (rx tb)) (max t (ry tb)) (min ri (rright tb)) (min b (rbottom tb))"
  define f where "f = (\<lambda>r acc. case rect_intersection tb r of
                     None \<Rightarrow> acc
                   | Some i \<Rightarrow> Some (case acc of Some td \<Rightarrow> rect_merge i td | None \<Rightarrow> i))"
  have ok': "box_ok (max l (rx tb)) (max t (ry tb)) (min ri (rright tb)) (min b (rbottom tb))"
    using ok wf_rectD[OF tb] by (auto simp: box_ok_def in_i32_def min_def max_def)
  have "\<forall>d. fold f rs acc = Some d \<longrightarrow> P d" if "\<forall>d. acc = Some d \<longrightarrow> P d" for acc
    using rs that
  proof (induction rs arbitrary: acc)
    case (Cons r rs)
    have r: "in_box l t ri b r" using Cons.prems(1) by simp
    have "P d" if "f r acc = Some d" for d
    proof (cases "rect_intersection tb r")
      case None
      with that Cons.prems(2) show ?thesis by (simp add: f_def)
    next
      case (Some i)
      have "P i" unfolding P_def
        by (rule has_edges_in_box[OF intersection_edges[OF tb in_boxD(1)[OF ok r] Some]])
          (use r in_boxD(4,5)[OF ok r] in \<open>auto simp: in_box_def\<close>)
      then show ?thesis
        using that Some Cons.prems(2) merge_in_box(1)[OF ok', of i, folded P_def]
        by (cases acc) (auto simp: f_def)
    qed
    then have "\<forall>d. f r acc = Some d \<longrightarrow> P d" by blast
    moreover have "\<forall>r\<in>set rs. in_box l t ri b r" using Cons.prems(1) by simp
    ultimately have "\<forall>d. fold f rs (f r acc) = Some d \<longrightarrow> P d" using Cons.IH by blast
    then show ?case unfolding fold_simps .
  qed simp
  from this[of None] show "damage_in_tile rs tb = Some d \<Longrightarrow>
    in_box (max l (rx tb)) (max t (ry tb)) (min ri (rright tb)) (min b (rbottom tb)) d"
    by (simp add: damage_in_tile_def f_def P_def)
qed

text \<open>Tile damages of one column, stacked from top to bottom.\<close>

abbreviation tile_damages :: "tile list \<Rightarrow> rect list" where
  "tile_damages ts \<equiv> List.map_filter tile_damage ts"

definition stacked :: "int \<Rightarrow> int \<Rightarrow> tile list \<Rightarrow> bool" where
  "stacked l ri ts \<longleftrightarrow> sorted_wrt (\<lambda>a b. ry a + rh a \<le> ry b) (tile_damages ts) \<and>
     (\<forall>d\<in>set (tile_damages ts). l \<le> rx d \<and> rx d + rw d \<le> ri \<and> 0 \<le> rh d)"

lemma tile_damages_simps [simp]:
  "tile_damages [] = []"
  "tile_damages (a # ts) = (case tile_damage a of None \<Rightarrow> tile_damages ts | Some d \<Rightarrow> d # tile_damages ts)"
  "tile_damages (us @ ts) = tile_damages us @ tile_damages ts"
  by (auto simp: List.map_filter_def split: option.split)

lemma set_tile_damages_map:
  "set (tile_damages (map (\<lambda>y. \<lparr>tile_bbox = g y, tile_damage = f y\<rparr>) ys)) = {e. \<exists>y\<in>set ys. f y = Some e}"
  by (induction ys) (auto split: option.splits)

lemma step_range_gaps: "0 < s \<Longrightarrow> sorted_wrt (\<lambda>a b. a + s \<le> b) (step_range lo hi s)"
proof -
  assume s: "0 < s"
  have "lo + int i * s + s \<le> lo + int j * s" if "i < j" for i j :: nat
  proof -
    have "(int i + 1) * s \<le> int j * s" using that s by (intro mult_right_mono) auto
    then show ?thesis by (simp add: algebra_simps)
  qed
  then show "sorted_wrt (\<lambda>a b. a + s \<le> b) (step_range lo hi s)"
    by (simp add: step_range_def sorted_wrt_iff_nth_less)
qed

lemma stacked_map:
  assumes "sorted_wrt (\<lambda>a b. a + s \<le> b) ys"
    and "\<And>y d. y \<in> set ys \<Longrightarrow> f y = Some d \<Longrightarrow> y \<le> ry d \<and> ry d + rh d \<le> y + s \<and> l \<le> rx d \<and> rx d + rw d \<le> ri \<and> 0 \<le> rh d"
  shows "stacked l ri (map (\<lambda>y. \<lparr>tile_bbox = g y, tile_damage = f y\<rparr>) ys)"
  using assms
proof (induction ys)
  case (Cons y ys)
  have IH: "stacked l ri (map (\<lambda>y. \<lparr>tile_bbox = g y, tile_damage = f y\<rparr>) ys)"
  proof (rule Cons.IH)
    show "sorted_wrt (\<lambda>a b. a + s \<le> b) ys" using Cons.prems(1) by simp
    show "y' \<le> ry d \<and> ry d + rh d \<le> y' + s \<and> l \<le> rx d \<and> rx d + rw d \<le> ri \<and> 0 \<le> rh d"
      if "y' \<in> set ys" "f y' = Some d" for y' d
      by (rule Cons.prems(2)) (use that in simp_all)
  qed
  show ?case
  proof (cases "f y")
    case None
    with IH show ?thesis by (simp add: stacked_def)
  next
    case (Some d)
    have "ry d + rh d \<le> ry e" if e: "e \<in> set (tile_damages (map (\<lambda>y. \<lparr>tile_bbox = g y, tile_damage = f y\<rparr>) ys))" for e
    proof -
      obtain y' where y': "y' \<in> set ys" "f y' = Some e" using e by (auto simp: set_tile_damages_map)
      have "ry d + rh d \<le> y + s" "y' \<le> ry e" "y + s \<le> y'"
        using Cons.prems(2)[of y d] Cons.prems(2)[of y' e] Cons.prems(1) y' Some by auto
      then show ?thesis by linarith
    qed
    with IH Some Cons.prems(2)[of y d] show ?thesis by (simp add: stacked_def)
  qed
qed (simp add: stacked_def)

lemma column_stacked:
  assumes ok: "box_ok l t ri b" and rs: "\<forall>r\<in>set rs. in_box l t ri b r"
    and ts: "wf_size ts" "0 < sh ts" and x: "in_i32 x" and ys: "in_i32 (ry bbox)"
  shows "stacked x (x + sw ts) (column_tiles rs bbox ts x)"
proof -
  define y1 where "y1 = i32_add (ry bbox) (rh bbox)"
  define tb where "tb y = rect_new (point_new x y) ts" for y
  have "in_i32 y1" by (simp add: y1_def)
  have wf: "wf_rect (tb y)" if "y \<in> set (step_range (ry bbox) y1 (sh ts))" for y
    using step_range_mem[OF ts(2) that] ts(1) x ys \<open>in_i32 y1\<close>
    by (auto simp: tb_def wf_rect_def wf_point_def point_new_def in_i32_def)
  have col: "column_tiles rs bbox ts x =
      map (\<lambda>y. \<lparr>tile_bbox = tb y, tile_damage = damage_in_tile rs (tb y)\<rparr>) (step_range (ry bbox) y1 (sh ts))"
    by (simp add: column_tiles_def Let_def tb_def y1_def)
  show ?thesis unfolding col
  proof (rule stacked_map[OF step_range_gaps[OF ts(2)]])
    fix y d assume y: "y \<in> set (step_range (ry bbox) y1 (sh ts))" "damage_in_tile rs (tb y) = Some d"
    have box: "in_box (max l x) (max t y) (min ri (rright (tb y))) (min b (rbottom (tb y))) d"
      using damage_in_tile_bounds[OF ok rs wf[OF y(1)] y(2)] by (simp add: tb_def point_new_def)
    have "rright (tb y) \<le> x + sw ts" "rbottom (tb y) \<le> y + sh ts"
      using wf_rectD(9,10)[OF wf[OF y(1)]] by (simp_all add: tb_def point_new_def)
    then show "y \<le> ry d \<and> ry d + rh d \<le> y + sh ts \<and> x \<le> rx d \<and> rx d + rw d \<le> x + sw ts \<and> 0 \<le> rh d"
      using box wf_rectD(6)[of d] by (auto simp: in_box_def)
  qed
qed

lemma merge_column_Cons_stacked:
  assumes ok: "box_ok l t ri b" and "tiles_in l t ri b (a # rest)" "stacked x0 x1 (a # rest)"
  shows "stacked x0 x1 (merge_column gap (a # rest)) \<and>
    (\<forall>z. (\<forall>d\<in>set (tile_damages (a # rest)). z \<le> ry d) \<longrightarrow> (\<forall>d\<in>set (tile_damages (merge_column gap (a # rest))). z \<le> ry d))"
  using assms(2,3)
proof (induction rest arbitrary: a)
  case (Cons c rest)
  have tc: "tiles_in l t ri b (c # rest)" "stacked x0 x1 (c # rest)"
    using Cons.prems by (auto simp: stacked_def split: option.splits)
  show ?case
  proof (cases "\<exists>d e. tile_damage a = Some d \<and> tile_damage c = Some e \<and>
      i32_add (i32_add (ry d) (rh d)) (sh gap) \<ge> ry e \<and> coord_abs (i32_sub (rw d) (rw e)) < sw gap")
    case False
    then have eq: "merge_column gap (a # c # rest) = a # merge_column gap (c # rest)"
      by (auto split: option.split)
    note IH = Cons.IH[OF tc]
    show ?thesis
    proof (cases "tile_damage a")
      case None
      with IH show ?thesis unfolding eq by (simp add: stacked_def)
    next
      case (Some d)
      have "\<forall>e\<in>set (tile_damages (c # rest)). ry d + rh d \<le> ry e"
        using Cons.prems(2) Some by (simp add: stacked_def)
      then have "\<forall>e\<in>set (tile_damages (merge_column gap (c # rest))). ry d + rh d \<le> ry e" using IH by blast
      then show ?thesis using IH Some Cons.prems(2) unfolding eq by (simp add: stacked_def)
    qed
  next
    case True
    then obtain d e where d: "tile_damage a = Some d" "tile_damage c = Some e"
      "i32_add (i32_add (ry d) (rh d)) (sh gap) \<ge> ry e" "coord_abs (i32_sub (rw d) (rw e)) < sw gap"
      by blast
    define m where "m = rect_merge d e"
    define c' where "c' = c\<lparr>tile_damage := Some m\<rparr>"
    have box: "in_box l t ri b d" "in_box l t ri b e" using Cons.prems(1) d by simp_all
    note dd = in_boxD[OF ok box(1)] and de = in_boxD[OF ok box(2)]
    have st: "ry d + rh d \<le> ry e" "\<forall>f\<in>set (tile_damages rest). ry e + rh e \<le> ry f"
      "x0 \<le> rx d" "rx d + rw d \<le> x1" "x0 \<le> rx e" "rx e + rw e \<le> x1" "0 \<le> rh d" "0 \<le> rh e"
      using Cons.prems(2) d by (simp_all add: stacked_def)
    have e: "has_edges m (min (rx d) (rx e)) (min (ry d) (ry e)) (max (rright d) (rright e)) (max (rbottom d) (rbottom e))"
      unfolding m_def by (rule merge_edges[OF dd(1) de(1)])
        (use ok box in \<open>auto simp: dd(4,5) de(4,5) in_box_def box_ok_def min_def max_def\<close>)
    have me: "rx m = min (rx d) (rx e)" "ry m = ry d" "rx m + rw m = max (rx d + rw d) (rx e + rw e)"
      "ry m + rh m = ry e + rh e" "0 \<le> rh m"
      using e st(1,7,8) unfolding has_edges_def dd(4,5) de(4,5) by (auto simp: min_def max_def)
    have tc': "tiles_in l t ri b (c' # rest)"
      using Cons.prems(1) merge_in_box(1)[OF ok box] by (simp add: c'_def m_def)
    have sc': "stacked x0 x1 (c' # rest)"
      using tc(2) st me d by (simp add: stacked_def c'_def)
    note IH = Cons.IH[OF tc' sc']
    have eq: "merge_column gap (a # c # rest) = a\<lparr>tile_damage := None\<rparr> # merge_column gap (c' # rest)"
      using d by (simp add: c'_def m_def)
    show ?thesis unfolding eq
    proof (intro conjI allI impI)
      show "stacked x0 x1 (a\<lparr>tile_damage := None\<rparr> # merge_column gap (c' # rest))"
        using IH by (simp add: stacked_def)
      fix z assume z: "\<forall>d\<in>set (tile_damages (a # c # rest)). z \<le> ry d"
      then have "\<forall>d\<in>set (tile_damages (c' # rest)). z \<le> ry d" using d me(2) by (simp add: c'_def)
      then show "\<forall>d\<in>set (tile_damages (a\<lparr>tile_damage := None\<rparr> # merge_column gap (c' # rest))). z \<le> ry d"
        using IH by simp
    qed
  qed
qed simp

lemma merge_column_stacked:
  "box_ok l t ri b \<Longrightarrow> tiles_in l t ri b ts \<Longrightarrow> stacked x0 x1 ts \<Longrightarrow> stacked x0 x1 (merge_column gap ts)"
  by (cases ts) (simp_all only: merge_column_Cons_stacked merge_column.simps)


lemma stacked_disjoint:
  assumes ok: "box_ok l t ri b" and ts: "tiles_in l t ri b ts" and st: "stacked x0 x1 ts"
  shows "disjoint_rects (tile_damages ts)"
proof -
  have dis: "pixels a \<inter> pixels c = {}"
    if "in_box l t ri b a" "in_box l t ri b c" "ry a + rh a \<le> ry c" for a c
    using that by (auto simp: in_box_pixels[OF ok])
  have box: "in_box l t ri b a" if "a \<in> set (tile_damages ts)" for a using ts that by (simp add: tiles_in_def)
  have "sorted_wrt (\<lambda>a b. ry a + rh a \<le> ry b) (tile_damages ts)" using st by (simp add: stacked_def)
  then show ?thesis
    unfolding disjoint_rects_def by (rule sorted_wrt_mono_rel[rotated]) (rule dis[OF box box])
qed

lemma tile_columns_disjoint:
  assumes ok: "box_ok l t ri b" and rs: "\<forall>r\<in>set rs. in_box l t ri b r"
    and ts: "wf_size ts" "0 < sw ts" "0 < sh ts" and bb: "in_i32 (ry bbox)"
    and xs: "\<forall>x\<in>set xs. in_i32 x" "sorted_wrt (\<lambda>a b. a + sw ts \<le> b) xs"
    and cache: "tiles_in l t ri b cache" "disjoint_rects (tile_damages cache)"
      "\<forall>d\<in>set (tile_damages cache). \<forall>x\<in>set xs. rx d + rw d \<le> x"
    and res: "tile_columns rs bbox ts gap xs cache = Some res"
  shows "disjoint_rects (tile_damages res)"
  using xs cache res
proof (induction xs arbitrary: cache)
  case (Cons x xs)
  define col where "col = column_tiles rs bbox ts x"
  define mc where "mc = merge_column gap col"
  have x: "in_i32 x" using Cons.prems(1) by simp
  have ct: "tiles_in l t ri b col" unfolding col_def
    using column_ok(1)[OF ok rs ts(1,3) x bb _ refl refl] by simp
  have st: "stacked x (x + sw ts) mc" unfolding mc_def
    by (rule merge_column_stacked[OF ok ct]) (unfold col_def, rule column_stacked[OF ok rs ts(1,3) x bb])
  have mt: "tiles_in l t ri b mc" unfolding mc_def using merge_column_ok[OF ok ct] by blast
  have md: "disjoint_rects (tile_damages mc)" by (rule stacked_disjoint[OF ok mt st])
  have mx: "x \<le> rx d" "rx d + rw d \<le> x + sw ts" if "d \<in> set (tile_damages mc)" for d
    using st that by (simp_all add: stacked_def)
  have cx: "rx d + rw d \<le> x" if "d \<in> set (tile_damages cache)" for d
    using Cons.prems(5) that by simp
  have "pixels_of (tile_damages cache) \<inter> pixels_of (tile_damages mc) = {}"
  proof -
    have "p < x" if "(p, q) \<in> pixels_of (tile_damages cache)" for p q
      using that Cons.prems(3) cx in_box_pixels[OF ok] by (fastforce simp: pixels_of_def tiles_in_def)
    moreover have "x \<le> p" if "(p, q) \<in> pixels_of (tile_damages mc)" for p q
      using that mt mx(1) in_box_pixels[OF ok] by (fastforce simp: pixels_of_def tiles_in_def)
    ultimately show ?thesis by fastforce
  qed
  then have dd: "disjoint_rects (tile_damages (cache @ mc))" using Cons.prems(4) md by simp
  have "\<forall>d\<in>set (tile_damages (cache @ mc)). \<forall>x'\<in>set xs. rx d + rw d \<le> x'"
    using Cons.prems(2,5) mx(2) by fastforce
  moreover have "tile_columns rs bbox ts gap xs (cache @ mc) = Some res"
    using Cons.prems(6) by (simp add: Let_def col_def[symmetric] mc_def[symmetric] split: if_splits)
  ultimately show ?case
    using Cons.IH[of "cache @ mc"] Cons.prems(1,2,3) mt dd by simp
qed simp

lemma shape_damage_tiled_disjoint:
  assumes ok: "box_ok x y x' y'" and rs: "is_bbox rs x y x' y'"
    and less: "x \<le> x'" "y < y'"
    and ts: "wf_size ts" "0 < sw ts" "0 < sh ts"
    and bb: "bbox = rect_new (point_new x y) (size_new (x' - x) (y' - y))"
    and res: "shape_damage_tiled rs bbox ts out = Some (out @ new)"
  shows "disjoint_rects new"
proof -
  have edges: "i32_add (rx bbox) (rw bbox) = x'" "ry bbox = y" "rx bbox = x"
    using ok by (simp_all add: bb box_ok_def point_new_def size_new_def range_simps)
  define xs where "xs = step_range x x' (sw ts)"
  have xs: "\<forall>v\<in>set xs. in_i32 v"
    using step_range_mem[OF ts(2)] ok unfolding xs_def box_ok_def in_i32_def by fastforce
  obtain tiles gap where t: "tile_columns rs bbox ts gap xs [] = Some tiles" "new = tile_damages tiles"
    using res edges(1)[unfolded edges(3)] unfolding shape_damage_tiled_def Let_def edges(3) xs_def
    by (auto split: option.splits)
  show ?thesis unfolding t(2)
    by (rule tile_columns_disjoint[OF ok rs[unfolded is_bbox_def] ts _ xs _ _ _ _ t(1)])
      (use ok edges(2) step_range_gaps[OF ts(2)] in \<open>simp_all add: xs_def box_ok_def\<close>)
qed


section \<open>The recursion\<close>

lemma shape_segments_snoc:
  "shape_segments f (xs @ [y]) out = (case shape_segments f xs out of None \<Rightarrow> None | Some out' \<Rightarrow> f y out')"
  by (induction xs arbitrary: out) (auto split: option.splits)

lemma shape_segments_disjoint:
  assumes box: "\<And>l t ri b s out. box_ok l t ri b \<Longrightarrow> s \<in> set ss \<Longrightarrow> \<forall>r\<in>set s. in_box l t ri b r \<Longrightarrow>
      shaped l t ri b s out (f s out)"
    and dis: "\<And>s out new. s \<in> set ss \<Longrightarrow> f s out = Some (out @ new) \<Longrightarrow> disjoint_rects new"
    and cut: "sorted_wrt (cut_between d) ss" "\<forall>s\<in>set ss. s \<noteq> []"
    and ok: "box_ok l t ri b" "\<forall>s\<in>set ss. \<forall>r\<in>set s. in_box l t ri b r"
    and res: "shape_segments f ss out = Some (out @ new)"
  shows "disjoint_rects new"
  using assms
proof (induction ss arbitrary: out new)
  case Nil
  then show ?case by simp
next
  case (Cons s ss)
  have "shaped l t ri b s out (f s out)" by (rule Cons.prems(1)[OF Cons.prems(5)]) (use Cons.prems(6) in auto)
  then obtain n1 where n1: "f s out = Some (out @ n1)" unfolding shaped_def by blast
  then have ss: "shape_segments f ss (out @ n1) = Some (out @ new)" using Cons.prems(7) by simp
  have shp: "shaped l' t' ri' b' (concat ss) (out @ n1) (shape_segments f ss (out @ n1))"
    if "box_ok l' t' ri' b'" "\<forall>r\<in>set (concat ss). in_box l' t' ri' b' r" for l' t' ri' b'
    by (rule shape_segments_shaped, rule Cons.prems(1)[OF that(1)]) (use that(2) in auto)
  have "shaped l t ri b (concat ss) (out @ n1) (shape_segments f ss (out @ n1))"
    by (rule shp[OF Cons.prems(5)]) (use Cons.prems(6) in auto)
  then obtain n2 where n2: "new = n1 @ n2" "shape_segments f ss (out @ n1) = Some ((out @ n1) @ n2)"
    using ss unfolding shaped_def by auto
  have d1: "disjoint_rects n1" using Cons.prems(2) n1 by (meson list.set_intros(1))
  have d2: "disjoint_rects n2"
  proof (rule Cons.IH[OF _ _ _ _ Cons.prems(5) _ n2(2)])
    show "shaped l t ri b q out (f q out)"
      if "box_ok l t ri b" "q \<in> set ss" "\<forall>r\<in>set q. in_box l t ri b r" for l t ri b q out
      by (rule Cons.prems(1)) (use that in simp_all)
    show "disjoint_rects new" if "q \<in> set ss" "f q out = Some (out @ new)" for q out new
      by (rule Cons.prems(2)[of q out]) (use that in simp_all)
  qed (use Cons.prems(3,4,6) in simp_all)
  show ?case
  proof (cases "ss = []")
    case True
    with n2 have "n2 = []" by simp
    with d1 n2(1) show ?thesis by simp
  next
    case False
    then have ne: "concat ss \<noteq> []" using Cons.prems(4) by (cases ss) auto
    have sne: "s \<noteq> []" using Cons.prems(4) by simp
    have sb: "\<forall>r\<in>set s. in_box l t ri b r" "\<forall>r\<in>set (concat ss). in_box l t ri b r"
      using Cons.prems(6) by auto
    have cb: "cut_between d s (concat ss)" using Cons.prems(3) by (auto simp: cut_between_def)
    obtain l1 t1 r1 b1 l2 t2 r2 b2 where c: "box_ok l1 t1 r1 b1" "box_ok l2 t2 r2 b2"
      "\<forall>r\<in>set s. in_box l1 t1 r1 b1 r" "\<forall>q\<in>set (concat ss). in_box l2 t2 r2 b2 q"
      "\<forall>ps us. (\<forall>r\<in>set ps. in_box l1 t1 r1 b1 r) \<longrightarrow> (\<forall>r\<in>set us. in_box l2 t2 r2 b2 r) \<longrightarrow>
         pixels_of ps \<inter> pixels_of us = {}"
      using cut_boxes[OF Cons.prems(5) sb ne sne cb] .
    have "shaped l1 t1 r1 b1 s out (f s out)" by (rule Cons.prems(1)[OF c(1) _ c(3)]) simp
    then have "\<forall>r\<in>set n1. in_box l1 t1 r1 b1 r" using n1 unfolding shaped_def by auto
    moreover have "\<forall>r\<in>set n2. in_box l2 t2 r2 b2 r" using shp[OF c(2,4)] n2(2) unfolding shaped_def by auto
    ultimately show ?thesis using c(5) d1 d2 n2(1) by simp
  qed
qed

lemma shape_damage_impl_disjoint:
  assumes srt: "sort_ok srt" and ok: "box_ok l t ri b"
  shows "\<lbrakk>\<forall>r\<in>set rs. in_box l t ri b r; 2 * length rs + (if ivt then 1 else 2) \<le> n;
    \<forall>d. ldir = Some d \<longrightarrow> starts_sorted d rs; shape_damage_impl srt n rs ldir ivt out = Some (out @ new)\<rbrakk> \<Longrightarrow>
    disjoint_rects new"
proof (induction n arbitrary: rs ldir ivt out new)
  case 0
  then show ?case by simp
next
  case (Suc n)
  have perm: "sort_permutes srt" using srt by (simp add: sort_ok_def)
  show ?case
  proof (cases "length rs \<le> 1")
    case True
    then have "new = rs" using Suc.prems(4) by (cases rs) auto
    with True show ?thesis by (cases rs) auto
  next
    case False
    then have ne: "rs \<noteq> []" and one: "length rs \<noteq> 1" and len: "2 \<le> length rs" by auto
    obtain x y x' y' area where ext: "damage_extent rs = (x, y, x', y', area)" by (metis prod.exhaust)
    note bb = extent_bbox[OF ok Suc.prems(1) ne ext]
    note br = bbox_rect[OF bb(2,7,8)]
    define bbox where "bbox = rect_new (point_new x y) (size_new (x' - x) (y' - y))"
    define full where "full \<longleftrightarrow> fl_less MAX_DAMAGE_TO_DAMAGE_BBOX_RATIO
                (fl_div round32 (i32_to_f32 area) (i32_to_f32 (sat_mul (x' - x) (y' - y))))"
    show ?thesis
    proof (cases full)
      case True
      then have "shape_damage_impl srt (Suc n) rs ldir ivt out = Some (out @ [bbox])"
        using False ne by (simp add: ext br(1,2) full_def bbox_def Let_def)
      with Suc.prems(4) show ?thesis by (auto simp del: shape_damage_impl.simps)
    next
      case nf: False
      define d where "d = split_direction (x' - x) (y' - y) ivt"
      define dmg where "dmg = (if Some d \<noteq> ldir then srt d rs else rs)"
      define segs where "segs = split_segments d (axis_end d (hd dmg)) [hd dmg] (tl dmg)"
      define rec where "rec = shape_damage_impl srt n"
      define ts where "ts = shape_tile_size d (x' - x) (y' - y)"
      have dmg: "set dmg = set rs" "length dmg = length rs"
        using sort_permutesD[OF perm] by (simp_all add: dmg_def)
      then have dmg_ne: "dmg \<noteq> []" using ne by auto
      have sorted: "starts_sorted d dmg" using sort_ok_starts[OF srt] Suc.prems(3) by (simp add: dmg_def)
      note sg = length_segments[OF dmg_ne segs_def]
      have step: "shape_damage_impl srt (Suc n) rs ldir ivt out =
        (case shape_segments (\<lambda>s. rec s (Some d) False) (butlast segs) out of
           None \<Rightarrow> None
         | Some out' \<Rightarrow>
             if length segs = 1 \<and> ivt then shape_damage_tiled dmg bbox ts out'
             else rec (last segs) (Some d) (length segs = 1) out')"
        using shape_damage_impl_step[where srt = srt and ldir = ldir and ivt = ivt and n = n and out = out,
            OF ne one ext nf[unfolded full_def br(1,2)[symmetric]] d_def[unfolded br(1,2)[symmetric]] dmg_def segs_def]
        unfolding rec_def ts_def bbox_def br(1,2) .
      have lseg: "last segs \<in> set segs" using sg(2) by (simp add: segs_def)
      have sub: "\<forall>r\<in>set s. in_box l t ri b r" if "s \<in> set segs" for s
        using that Suc.prems(1) dmg(1) sg(3)[OF that] by force
      have ssort: "starts_sorted d s" if "s \<in> set segs" for s
        using segments_starts_sorted[of d segs s] sorted sg(3)[OF that] that by simp
      show ?thesis
      proof (cases "length segs = 1")
        case True
        then have segs: "segs = [dmg]" using sg(3)[OF lseg] by (cases segs) auto
        show ?thesis
        proof (cases ivt)
          case False
          then have "rec dmg (Some d) True out = Some (out @ new)" using Suc.prems(4) step by (simp add: segs)
          then show ?thesis unfolding rec_def
            by (rule Suc.IH[rotated 3]) (use Suc.prems(1,2) dmg False sorted in auto)
        next
          case ivt: True
          have less: "y < y'"
            by (rule single_segment_height[OF bb(2) _ _ _ _ bb(7), of dmg d])
              (use bb(1) dmg len True ivt in \<open>auto simp: is_bbox_def segs_def d_def split_direction_def\<close>)
          have tsz: "wf_size ts \<and> 0 < sw ts \<and> 0 < sh ts"
            unfolding ts_def by (rule shape_tile_size_wf) (use bb(2,7,8) in \<open>auto simp: box_ok_def\<close>)
          have "shape_damage_tiled dmg bbox ts out = Some (out @ new)"
            using Suc.prems(4) step ivt by (simp add: segs)
          then show ?thesis
            using shape_damage_tiled_disjoint[OF bb(2) _ bb(7) less _ _ _ bbox_def, of dmg ts out new] tsz bb(1) dmg(1)
            by (auto simp: is_bbox_def)
        qed
      next
        case False
        then have two: "2 \<le> length segs" using sg(2)[OF lseg] by (cases segs; cases "tl segs") auto
        have bl: "segs = butlast segs @ [last segs]" using sg(2)[OF lseg] by simp
        have "shape_segments (\<lambda>s. rec s (Some d) False) segs out = shape_damage_impl srt (Suc n) rs ldir ivt out"
          unfolding step using False
          by (subst bl, subst shape_segments_snoc) (simp split: option.split)
        then have res: "shape_segments (\<lambda>s. rec s (Some d) False) segs out = Some (out @ new)"
          using Suc.prems(4) by simp
        have fuel: "2 * length s + 2 \<le> n" if "s \<in> set segs" for s
          using sg(1)[OF that] two Suc.prems(2) dmg(2) by (auto split: if_splits)
        show ?thesis
        proof (rule shape_segments_disjoint[OF _ _ _ _ ok _ res, of d])
          show "shaped l t ri b s out (rec s (Some d) False out)"
            if "box_ok l t ri b" "s \<in> set segs" "\<forall>r\<in>set s. in_box l t ri b r" for l t ri b s out
            unfolding rec_def by (rule shape_damage_impl_shaped[OF perm that(1,3)]) (use fuel[OF that(2)] in simp)
          show "disjoint_rects new" if "s \<in> set segs" "rec s (Some d) False out = Some (out @ new)" for s out new
            using that(2) unfolding rec_def
            by (rule Suc.IH[rotated 3]) (use sub[OF that(1)] fuel[OF that(1)] ssort[OF that(1)] in auto)
          show "sorted_wrt (cut_between d) segs" unfolding segs_def
            by (rule split_segments_cut) (use sorted dmg_ne in \<open>cases dmg; auto simp: starts_sorted_def\<close>)+
          show "\<forall>s\<in>set segs. s \<noteq> []"
            using split_segments_ne[of "[hd dmg]" _ d "axis_end d (hd dmg)" "tl dmg"] by (auto simp: segs_def)
          show "\<forall>s\<in>set segs. \<forall>r\<in>set s. in_box l t ri b r" using sub by blast
        qed
      qed
    qed
  qed
qed

lemma axis_sort_ok: "sort_ok axis_sort"
  by (simp add: sort_ok_def axis_sort_permutes axis_sort_sorts)

lemma shape_damage_result:
  assumes "sort_ok srt" "box_ok l t ri b" "\<forall>r\<in>set damage. in_box l t ri b r"
  shows "\<exists>res. shape_damage srt damage = Some res \<and> disjoint_rects res \<and> pixels_of damage \<subseteq> pixels_of res \<and>
    (\<forall>r\<in>set res. in_box l t ri b r)"
proof -
  have "shaped l t ri b damage [] (shape_damage_impl srt (2 * length damage + 2) damage None False [])"
    by (rule shape_damage_impl_shaped[OF _ assms(2,3)]) (use assms(1) in \<open>simp_all add: sort_ok_def\<close>)
  then obtain res where res: "shape_damage_impl srt (2 * length damage + 2) damage None False [] = Some ([] @ res)"
    and "pixels_of damage \<subseteq> pixels_of res" "\<forall>r\<in>set res. in_box l t ri b r"
    unfolding shaped_def by blast
  moreover have "disjoint_rects res"
    by (rule shape_damage_impl_disjoint[OF assms _ _ res]) simp_all
  ultimately show ?thesis by (simp add: shape_damage_def)
qed

section \<open>Properties\<close>

text \<open>C28. The rectangles of the shaped damage do not overlap, so drawing one after the other
  touches no pixel twice, whatever overlap the damage had before.\<close>

theorem shape_damage_disjoint:
  assumes "sort_ok srt" "box_ok l t ri b" "\<forall>r\<in>set damage. in_box l t ri b r"
  shows "\<exists>res. shape_damage srt damage = Some res \<and> disjoint_rects res"
  using shape_damage_result[OF assms] by blast

theorem shape_damage_disjoint_witness:
  "\<exists>res. shape_damage axis_sort [strip 0 0 20 300, strip 10 40 300 30, strip 280 0 20 300] = Some res \<and> disjoint_rects res"
  by (rule shape_damage_disjoint[OF axis_sort_ok, of 0 0 310 300])
    (simp_all add: box_ok_def in_box_def in_i32_def)

end
