(* ===== verification/Subtract_Disjoint.thy ===== *)
theory Subtract_Disjoint
  imports Shaper_Disjoint "HOL-Library.Multiset"
begin

text \<open>
  The subtraction loop of \<open>src/utils/geometry.rs\<close> never covers a pixel more often than its input
  does, so what it makes of one rectangle (the visible part of an element, the part of an element
  a frame draws) is a list of disjoint rectangles, and the sum of their areas is a number of pixels.
\<close>

section \<open>How often a pixel is covered\<close>

definition cover :: "pixel \<Rightarrow> rect list \<Rightarrow> nat" where
  "cover p rs = length (filter (\<lambda>r. p \<in> pixels r) rs)"

lemma cover_simps [simp]:
  "cover p [] = 0"
  "cover p (r # rs) = (if p \<in> pixels r then 1 else 0) + cover p rs"
  "cover p (rs @ qs) = cover p rs + cover p qs"
  by (auto simp: cover_def)

lemma cover_zero: "cover p rs = 0 \<longleftrightarrow> p \<notin> pixels_of rs"
  by (induction rs) auto

lemma disjoint_cover: "disjoint_rects rs \<longleftrightarrow> (\<forall>p. cover p rs \<le> 1)"
proof (induction rs)
  case Nil
  then show ?case by simp
next
  case (Cons r rs)
  have "cover p (r # rs) \<le> 1 \<longleftrightarrow> (p \<notin> pixels r \<or> p \<notin> pixels_of rs) \<and> cover p rs \<le> 1" for p
    using cover_zero[of p rs] by auto
  then show ?case using Cons by auto
qed

lemma cover_mset: "mset rs = mset qs \<Longrightarrow> cover p rs = cover p qs"
  unfolding cover_def by (metis mset_filter size_mset)

lemma mset_swap_remove:
  assumes "i < length xs"
  shows "mset xs = mset (xs ! i # swap_remove i xs)"
proof (cases "Suc i = length xs")
  case True
  then have "xs ! i = last xs" by (metis diff_Suc_1 last_conv_nth length_0_conv nat.distinct(1))
  with True show ?thesis
    by (metis append_butlast_last_id length_0_conv nat.distinct(1) mset.simps(2) mset_append
        swap_remove_def union_mset_add_mset_right add.right_neutral mset.simps(1))
next
  case False
  with assms have i: "i < length (butlast xs)" and ne: "xs \<noteq> []" by auto
  have "mset xs = add_mset (last xs) (mset (butlast xs))"
    using ne by (metis append_butlast_last_id mset.simps mset_append union_mset_add_mset_right add.right_neutral)
  moreover have "xs ! i \<in># mset (butlast xs)" using nth_mem_mset[OF i] i by (simp add: nth_butlast)
  ultimately show ?thesis using False i by (simp add: swap_remove_def mset_update nth_butlast)
qed

lemma cover_swap_remove:
  assumes "i < length rs"
  shows "cover p rs = (if p \<in> pixels (rs ! i) then 1 else 0) + cover p (swap_remove i rs)"
  using cover_mset[of rs "rs ! i # swap_remove i rs" p] mset_swap_remove[OF assms] by simp

section \<open>The loop\<close>

definition no_more_cover :: "rect list \<Rightarrow> rect list \<Rightarrow> bool" where
  "no_more_cover rs res \<longleftrightarrow>
     (\<forall>p. cover p res \<le> cover p rs) \<and> ((\<forall>r\<in>set rs. exact_rect r) \<longrightarrow> (\<forall>r\<in>set res. exact_rect r))"

lemma no_more_cover_refl: "no_more_cover rs rs"
  by (simp add: no_more_cover_def)

lemma no_more_cover_trans: "no_more_cover rs qs \<Longrightarrow> no_more_cover qs res \<Longrightarrow> no_more_cover rs res"
  unfolding no_more_cover_def by (metis order_trans)

lemma no_more_cover_remove:
  assumes "i < length rs"
  shows "no_more_cover rs (swap_remove i rs)"
  using cover_swap_remove[OF assms] set_swap_remove[OF assms] by (auto simp: no_more_cover_def)

lemma cover_pieces:
  assumes "wf_rect item" "wf_rect other" "rect_intersection item other = Some i"
  shows "cover p (subtract_pieces item i) \<le> (if p \<in> pixels item then 1 else 0)"
proof -
  note s = subtract_pieces_spec[OF assms]
  have "cover p (subtract_pieces item i) \<le> 1"
    using s(3) unfolding disjoint_rects_def[symmetric] disjoint_cover by blast
  then show ?thesis using s(2) cover_zero[of p "subtract_pieces item i"] by auto
qed

lemma no_more_cover_split:
  assumes idx: "i < length rs" and wf: "wf_rects rs" "wf_rect other"
    and ins: "rect_intersection (rs ! i) other = Some isect"
  shows "no_more_cover rs (swap_remove i rs @ subtract_pieces (rs ! i) isect)"
proof -
  note item = wf_rects_nth(1)[OF wf(1) idx]
  have "cover p (swap_remove i rs @ subtract_pieces (rs ! i) isect) \<le> cover p rs" for p
    using cover_pieces[OF item wf(2) ins, of p] cover_swap_remove[OF idx, of p] by simp
  moreover have "\<forall>r\<in>set (swap_remove i rs @ subtract_pieces (rs ! i) isect). exact_rect r"
    if "\<forall>r\<in>set rs. exact_rect r"
    using that subtract_pieces_spec(4)[OF item wf(2) ins] set_swap_remove[OF idx] idx by auto
  ultimately show ?thesis by (simp add: no_more_cover_def)
qed

lemma subtract_scan_cover:
  assumes "subtract_scan other left index rs = Some res" "wf_rects rs" "wf_rect other"
  shows "no_more_cover rs res \<and> wf_rects res"
  using assms
proof (induction left arbitrary: index rs)
  case 0
  then show ?case by (simp add: no_more_cover_refl)
next
  case (Suc left)
  from Suc.prems(1) have idx: "index < length rs" by (auto split: if_splits)
  let ?item = "rs ! index"
  note wf = wf_rects_nth[OF Suc.prems(2) idx]
  show ?case
  proof (cases "rect_intersection ?item other")
    case None
    with Suc.prems(1) idx have "subtract_scan other left (Suc index) rs = Some res" by simp
    from Suc.IH[OF this Suc.prems(2,3)] show ?thesis .
  next
    case (Some isect)
    note split = no_more_cover_split[OF idx Suc.prems(2,3) Some]
    show ?thesis
    proof (cases "rect_contains_rect other ?item")
      case True
      with Suc.prems(1) idx Some have "subtract_scan other left index (swap_remove index rs) = Some res" by simp
      from Suc.IH[OF this wf(2) Suc.prems(3)] show ?thesis
        using no_more_cover_trans[OF no_more_cover_remove[OF idx]] by blast
    next
      case False
      with Suc.prems(1) idx Some
      have "subtract_scan other left index (swap_remove index rs @ subtract_pieces ?item isect) = Some res"
        by (simp add: Let_def)
      from Suc.IH[OF this _ Suc.prems(3)] show ?thesis
        using no_more_cover_trans[OF split] wf(2) subtract_pieces_spec(1)[OF wf(1) Suc.prems(3) Some] by simp
    qed
  qed
qed

lemma subtract_many_cover:
  assumes "wf_rects rs" "wf_rects others"
  shows "no_more_cover rs (subtract_many rs others)"
proof -
  have "subtract_rects_many_in_place rs others = Some res \<Longrightarrow> no_more_cover rs res" for res
    using assms
  proof (induction others arbitrary: rs)
    case Nil
    then show ?case by (simp add: no_more_cover_refl)
  next
    case (Cons other others)
    show ?case
    proof (cases "rs = []")
      case True
      with Cons.prems show ?thesis by (simp add: no_more_cover_refl)
    next
      case False
      with Cons.prems(1) obtain mid where mid: "subtract_scan other (length rs) 0 rs = Some mid"
        and res: "subtract_rects_many_in_place mid others = Some res" by (auto split: option.splits)
      have "no_more_cover rs mid \<and> wf_rects mid"
        using subtract_scan_cover[OF mid Cons.prems(2)] Cons.prems(3) by simp
      with Cons.IH[OF res] Cons.prems(3) no_more_cover_trans show ?thesis by auto
    qed
  qed
  with subtract_many_spec(1)[OF assms] show ?thesis by simp
qed

lemma subtract_many_disjoint:
  assumes "wf_rects rs" "wf_rects others" "disjoint_rects rs"
  shows "disjoint_rects (subtract_many rs others)"
  using subtract_many_cover[OF assms(1,2)] assms(3) unfolding disjoint_cover no_more_cover_def
  by (meson order_trans)

lemma subtract_many_exact:
  assumes "wf_rects rs" "wf_rects others" "\<forall>r\<in>set rs. exact_rect r"
  shows "\<forall>r\<in>set (subtract_many rs others). exact_rect r"
  using subtract_many_cover[OF assms(1,2)] assms(3) by (simp add: no_more_cover_def)

section \<open>Areas\<close>

lemma pixels_card:
  assumes "wf_rect r" "exact_rect r"
  shows "finite (pixels r)" "int (card (pixels r)) = rw r * rh r"
proof -
  have eq: "pixels r = {rx r..<rx r + rw r} \<times> {ry r..<ry r + rh r}"
    using assms(2) by (auto simp: pixels_def exact_rect_def)
  show "finite (pixels r)" by (simp add: eq)
  show "int (card (pixels r)) = rw r * rh r"
    using wf_rectD(5,6)[OF assms(1)] by (simp add: eq card_cartesian_product)
qed

lemma disjoint_card:
  assumes "disjoint_rects rs" "wf_rects rs" "\<forall>r\<in>set rs. exact_rect r"
  shows "finite (pixels_of rs)" "int (card (pixels_of rs)) = (\<Sum>r\<leftarrow>rs. rw r * rh r)"
proof -
  have "finite (pixels_of rs) \<and> int (card (pixels_of rs)) = (\<Sum>r\<leftarrow>rs. rw r * rh r)"
    using assms
  proof (induction rs)
    case Nil
    then show ?case by simp
  next
    case (Cons r rs)
    then have IH: "finite (pixels_of rs)" "int (card (pixels_of rs)) = (\<Sum>r\<leftarrow>rs. rw r * rh r)"
      and r: "wf_rect r" "exact_rect r" and dis: "pixels r \<inter> pixels_of rs = {}"
      by simp_all
    have "card (pixels r \<union> pixels_of rs) = card (pixels r) + card (pixels_of rs)"
      by (rule card_Un_disjoint[OF pixels_card(1)[OF r] IH(1) dis])
    with IH pixels_card[OF r] show ?case by simp
  qed
  then show "finite (pixels_of rs)" "int (card (pixels_of rs)) = (\<Sum>r\<leftarrow>rs. rw r * rh r)" by simp_all
qed

end
