(* ===== verification/Painting.thy ===== *)
theory Painting
  imports Tracker Subtract_Disjoint
begin

text \<open>
  What the output damage tracker (\<open>Tracker\<close>) is for: the pixels on the screen. An element paints
  pixels, a scene is the elements painted over each other, and the locale \<open>painted_elements\<close>
  states what the trait \<open>Element\<close> asks of its implementations: nothing outside the geometry is
  painted, opaque regions hide what is below them, and an element that looks the same only
  changes where \<open>damage_since\<close> says so. In the locale: elements the scan skips do not matter,
  the damage of a frame covers every pixel that changed, and the drawing commands paint the scene.
\<close>

section \<open>Rectangles on the output\<close>

definition output_ok :: "rect \<Rightarrow> bool" where
  "output_ok og \<longleftrightarrow> rloc og = point_new 0 0 \<and> wf_rect og \<and> rw og * rh og \<le> I32_MAX"

lemma output_okD:
  assumes "output_ok og"
  shows "wf_rect og" "box_ok 0 0 (rw og) (rh og)" "in_box 0 0 (rw og) (rh og) og" "exact_rect og"
    "rw og * rh og \<le> I32_MAX" "rx og = 0" "ry og = 0"
proof -
  show wf: "wf_rect og" and "rw og * rh og \<le> I32_MAX" and loc: "rx og = 0" "ry og = 0"
    using assms by (simp_all add: output_ok_def point_new_def)
  show box: "box_ok 0 0 (rw og) (rh og)"
    using wf_rectD[OF wf] by (simp add: box_ok_def in_i32_def)
  show inb: "in_box 0 0 (rw og) (rh og) og"
    using wf loc by (simp add: in_box_def)
  show "exact_rect og" using in_boxD[OF box inb] by (simp add: exact_rect_def)
qed

lemma in_output:
  assumes "output_ok og" "in_box 0 0 (rw og) (rh og) r"
  shows "wf_rect r" "exact_rect r" "pixels r \<subseteq> pixels og"
proof -
  note o = output_okD[OF assms(1)]
  note b = in_boxD[OF o(2) assms(2)]
  show "wf_rect r" "exact_rect r" using b by (simp_all add: exact_rect_def)
  show "pixels r \<subseteq> pixels og"
    using assms(2) unfolding in_box_pixels[OF o(2) assms(2)] in_box_pixels[OF o(2,3)]
    by (auto simp: in_box_def o(6,7))
qed

lemma clip_in_output:
  assumes "output_ok og" "wf_rect r" "rect_intersection r og = Some i"
  shows "in_box 0 0 (rw og) (rh og) i"
  by (rule intersection_in_box[OF output_okD(2,3)[OF assms(1)] assms(2,3)])

lemma clip_all_simps [simp]:
  "clip_all b [] = []"
  "clip_all b (r # rs) = (case rect_intersection r b of None \<Rightarrow> clip_all b rs | Some i \<Rightarrow> i # clip_all b rs)"
  by (simp_all add: clip_all_def map_filter_def split: option.split)

lemma clip_all_in_output:
  assumes "output_ok og" "wf_rects rs" "r \<in> set (clip_all og rs)"
  shows "in_box 0 0 (rw og) (rh og) r"
  using assms(2,3) clip_in_output[OF assms(1)]
  by (induction rs) (auto split: option.splits)

lemma clip_all_pixels:
  assumes "wf_rect b" "wf_rects rs"
  shows "wf_rects (clip_all b rs)" "pixels_of (clip_all b rs) = pixels_of rs \<inter> pixels b"
proof -
  have "wf_rects (clip_all b rs) \<and> pixels_of (clip_all b rs) = pixels_of rs \<inter> pixels b"
    using assms(2)
  proof (induction rs)
    case Nil
    then show ?case by simp
  next
    case (Cons r rs)
    then show ?case
      using intersection_None_disjoint[of r b] intersection_pixels[of r b] assms(1)
      by (cases "rect_intersection r b") auto
  qed
  then show "wf_rects (clip_all b rs)" "pixels_of (clip_all b rs) = pixels_of rs \<inter> pixels b" by simp_all
qed

lemma wf_rect_shift: "wf_rect r \<Longrightarrow> wf_rect (rect_shift p r)"
  by (simp add: rect_shift_def wf_rect_def wf_point_def point_add_def)

lemma wf_rects_shift: "wf_rects rs \<Longrightarrow> wf_rects (map (rect_shift p) rs)"
  by (auto simp: wf_rects_def wf_rect_shift)

text \<open>The visible area of an element counts pixels, and is zero only if none is visible.\<close>

lemma rects_area_sum:
  "rects_area rs = (\<Sum>r\<leftarrow>rs. word_of_int (i32_mul (rw r) (rh r)))"
proof -
  have "fold (\<lambda>r acc. acc + word_of_int (i32_mul (rw r) (rh r))) rs a =
      a + (\<Sum>r\<leftarrow>rs. word_of_int (i32_mul (rw r) (rh r)))" for a :: usize
    by (induction rs arbitrary: a) (simp_all add: add.assoc)
  then show ?thesis by (simp add: rects_area_def)
qed

lemma sum_list_word_of_int: "(\<Sum>x\<leftarrow>xs. word_of_int (f x)) = (word_of_int (\<Sum>x\<leftarrow>xs. f x) :: 'a::len word)"
  by (induction xs) simp_all

lemma rects_area_card:
  assumes og: "output_ok og" and "disjoint_rects rs" "wf_rects rs" "\<forall>r\<in>set rs. exact_rect r"
    and sub: "pixels_of rs \<subseteq> pixels og"
  shows "rects_area rs = of_nat (card (pixels_of rs))" "rects_area rs = 0 \<longleftrightarrow> pixels_of rs = {}"
proof -
  note o = output_okD[OF og]
  note c = disjoint_card[OF assms(2,3,4)]
  have le: "int (card (pixels_of rs)) \<le> I32_MAX"
    using card_mono[OF pixels_card(1)[OF o(1,4)] sub] pixels_card(2)[OF o(1,4)] o(5) by linarith
  have each: "i32_mul (rw r) (rh r) = rw r * rh r" if "r \<in> set rs" for r
  proof -
    have r: "wf_rect r" "exact_rect r" using that assms(3,4) by (simp_all add: wf_rects_def)
    have "pixels r \<subseteq> pixels_of rs" using that by (auto simp: pixels_of_def)
    from card_mono[OF c(1) this] pixels_card(2)[OF r] le have "rw r * rh r \<le> I32_MAX" by linarith
    moreover have "0 \<le> rw r * rh r" using wf_rectD(5,6)[OF r(1)] by simp
    ultimately show ?thesis by (simp add: range_simps in_i32_def)
  qed
  have "rects_area rs = word_of_int (\<Sum>r\<leftarrow>rs. i32_mul (rw r) (rh r))"
    by (simp add: rects_area_sum sum_list_word_of_int)
  also have "(\<Sum>r\<leftarrow>rs. i32_mul (rw r) (rh r)) = int (card (pixels_of rs))"
    unfolding c(2) by (rule arg_cong[where f = sum_list], rule map_cong) (use each in auto)
  finally show eq: "rects_area rs = of_nat (card (pixels_of rs))" by simp
  have "card (pixels_of rs) < 2 ^ 64" using le by simp
  then have "unat (of_nat (card (pixels_of rs)) :: usize) = card (pixels_of rs)"
    by (simp add: unat_of_nat take_bit_nat_eq_self)
  moreover have "(of_nat (card (pixels_of rs)) :: usize) = 0 \<longleftrightarrow>
      unat (of_nat (card (pixels_of rs)) :: usize) = 0" by (rule unat_eq_0[symmetric])
  ultimately have "(of_nat (card (pixels_of rs)) :: usize) = 0 \<longleftrightarrow> card (pixels_of rs) = 0" by simp
  then show "rects_area rs = 0 \<longleftrightarrow> pixels_of rs = {}" using c(1) by (simp add: eq)
qed

section \<open>Which elements are rendered\<close>

definition wf_element :: "fscale \<Rightarrow> ('id, 'd) element \<Rightarrow> bool" where
  "wf_element sc e \<longleftrightarrow> wf_rect (el_geometry e sc) \<and> wf_rects (el_opaque_regions e sc) \<and>
     (\<forall>commit. wf_rects (el_damage_since e sc commit))"

definition el_opaque :: "fscale \<Rightarrow> rect \<Rightarrow> ('id, 'd) element \<Rightarrow> rect list" where
  "el_opaque sc og e = clip_all og (map (rect_shift (rloc (el_geometry e sc))) (el_opaque_regions e sc))"

lemma el_opaque_in_output:
  assumes "output_ok og" "wf_element sc e"
  shows "\<forall>r\<in>set (el_opaque sc og e). in_box 0 0 (rw og) (rh og) r" "wf_rects (el_opaque sc og e)"
proof -
  show box: "\<forall>r\<in>set (el_opaque sc og e). in_box 0 0 (rw og) (rh og) r"
    unfolding el_opaque_def
    using clip_all_in_output[OF assms(1) wf_rects_shift] assms(2) unfolding wf_element_def by blast
  show "wf_rects (el_opaque sc og e)"
    using box in_output(1)[OF assms(1)] by (simp add: wf_rects_def)
qed

text \<open>The elements the scan keeps, below opaque regions \<open>opq\<close>.\<close>

definition hidden :: "fscale \<Rightarrow> rect \<Rightarrow> rect list \<Rightarrow> ('id, 'd) element \<Rightarrow> bool" where
  "hidden sc og opq e =
     (case rect_intersection (el_geometry e sc) og of
        None \<Rightarrow> True
      | Some i \<Rightarrow> rects_area (subtract_many [i] opq) = 0)"

fun visible_elements :: "fscale \<Rightarrow> rect \<Rightarrow> rect list \<Rightarrow> ('id, 'd) element list \<Rightarrow> ('id, 'd) element list" where
  "visible_elements sc og opq [] = []"
| "visible_elements sc og opq (e # es) =
     (if hidden sc og opq e then visible_elements sc og opq es
      else e # visible_elements sc og (opq @ el_opaque sc og e) es)"

lemma visible_elements_set: "set (visible_elements sc og opq es) \<subseteq> set es"
  by (induction es arbitrary: opq) auto

lemma visible_elements_distinct:
  "distinct (map el_id es) \<Longrightarrow> distinct (map el_id (visible_elements sc og opq es))"
proof (induction es arbitrary: opq)
  case Nil
  then show ?case by simp
next
  case (Cons e es)
  then show ?case using visible_elements_set[of sc og "opq @ el_opaque sc og e" es] by auto
qed

lemma hidden_pixels:
  assumes og: "output_ok og" and e: "wf_element sc e" and opq: "wf_rects opq"
    and "hidden sc og opq e" "p \<in> pixels og" "p \<notin> pixels_of opq"
  shows "p \<notin> pixels (el_geometry e sc)"
proof (cases "rect_intersection (el_geometry e sc) og")
  case None
  then show ?thesis using intersection_None_disjoint assms(5) by blast
next
  case (Some i)
  have g: "wf_rect (el_geometry e sc)" using e by (simp add: wf_element_def)
  note i = in_output[OF og clip_in_output[OF og g Some]]
  have ipx: "pixels i = pixels (el_geometry e sc) \<inter> pixels og"
    by (rule intersection_pixels(2)[OF g output_okD(1)[OF og] Some])
  have one: "wf_rects [i]" using i(1) by simp
  note sub = subtract_many_spec[OF one opq]
  have "rects_area (subtract_many [i] opq) = 0 \<longleftrightarrow> pixels_of (subtract_many [i] opq) = {}"
    by (rule rects_area_card(2)[OF og subtract_many_disjoint[OF one opq] sub(2) subtract_many_exact[OF one opq]])
      (use i sub(4) in auto)
  then have "pixels i - pixels_of opq \<subseteq> {}" using assms(4) Some sub(3) by (simp add: hidden_def)
  then show ?thesis using ipx assms(5,6) by blast
qed

text \<open>What the scan leaves behind.\<close>

definition frame_new_damage :: "fscale \<Rightarrow> rect \<Rightarrow> ('id \<times> element_state) list \<Rightarrow> nat \<Rightarrow> ('id, 'd) element list \<Rightarrow> rect list" where
  "frame_new_damage sc og prev n es =
     concat (map (\<lambda>(z, e). element_damage sc og (map_of prev (el_id e)) z e) (List.enumerate n es))"

fun opaque_ranges :: "fscale \<Rightarrow> rect \<Rightarrow> nat \<Rightarrow> ('id, 'd) element list \<Rightarrow> (nat \<times> nat) list" where
  "opaque_ranges sc og n [] = []"
| "opaque_ranges sc og n (e # es) =
     (n, n + length (el_opaque sc og e)) # opaque_ranges sc og (n + length (el_opaque sc og e)) es"

definition presented :: "'id render_states \<Rightarrow> 'id set" where
  "presented states = {i. element_was_presented states i}"

lemma presented_iff: "i \<in> presented states \<longleftrightarrow> (\<exists>st. states i = Some st \<and> presentation_state st \<noteq> Skipped)"
  by (auto simp: presented_def element_was_presented_def split: option.split)

lemma presented_update:
  "presented (states(i \<mapsto> update_render_state f a (states i))) = insert i (presented states)"
proof -
  have "presentation_state (update_render_state f a (states i)) \<noteq> Skipped"
    by (auto simp: update_render_state_def render_rendered_def Let_def split: option.split)
  then show ?thesis by (auto simp: presented_iff split: if_splits)
qed

lemma presented_skipped:
  "states i = None \<Longrightarrow> presented (states(i \<mapsto> render_skipped)) = presented states"
  by (auto simp: presented_iff render_skipped_def split: if_splits)

lemma scan_element_hidden:
  assumes "output_ok og" "wf_element sc e" "wf_rects (sc_opaque s)" "hidden sc og (sc_opaque s) e"
  shows "\<exists>states. scan_element sc og prev e s = Some (s\<lparr>sc_states := states\<rparr>) \<and>
    presented states = presented (sc_states s)"
proof (cases "rect_intersection (el_geometry e sc) og")
  case None
  then show ?thesis by (intro exI[of _ "sc_states s"]) (simp add: scan_element_def)
next
  case (Some i)
  have g: "wf_rect (el_geometry e sc)" using assms(2) by (simp add: wf_element_def)
  have one: "wf_rects [i]" using in_output(1)[OF assms(1) clip_in_output[OF assms(1) g Some]] by simp
  show ?thesis
  proof (cases "sc_states s (el_id e)")
    case None
    then show ?thesis
      using Some subtract_many_spec(1)[OF one assms(3)] assms(4) presented_skipped[of "sc_states s" "el_id e"]
      by (intro exI[of _ "(sc_states s)(el_id e \<mapsto> render_skipped)"]) (simp add: scan_element_def hidden_def)
  next
    case (Some st)
    then show ?thesis
      using \<open>rect_intersection (el_geometry e sc) og = Some i\<close> subtract_many_spec(1)[OF one assms(3)] assms(4)
      by (intro exI[of _ "sc_states s"]) (simp add: scan_element_def hidden_def)
  qed
qed

lemma scan_element_visible:
  assumes "output_ok og" "wf_element sc e" "wf_rects (sc_opaque s)" "\<not> hidden sc og (sc_opaque s) e"
  shows "\<exists>states. scan_element sc og prev e s =
      Some \<lparr>sc_damage = sc_damage s @ element_damage sc og (map_of prev (el_id e)) (length (sc_rendered s)) e,
            sc_damage_index = sc_damage_index s @ [length (sc_damage s)],
            sc_opaque = sc_opaque s @ el_opaque sc og e,
            sc_opaque_index = sc_opaque_index s @
              [(length (sc_opaque s), length (sc_opaque s) + length (el_opaque sc og e))],
            sc_rendered = sc_rendered s @ [e], sc_states = states\<rparr> \<and>
    presented states = insert (el_id e) (presented (sc_states s))"
proof -
  obtain i where i: "rect_intersection (el_geometry e sc) og = Some i"
    using assms(4) by (auto simp: hidden_def split: option.splits)
  have g: "wf_rect (el_geometry e sc)" using assms(2) by (simp add: wf_element_def)
  have one: "wf_rects [i]" using in_output(1)[OF assms(1) clip_in_output[OF assms(1) g i]] by simp
  show ?thesis
    using i subtract_many_spec(1)[OF one assms(3)] assms(4)
    by (intro exI[of _ "(sc_states s)(el_id e \<mapsto> update_render_state (el_framebuffer_effect e)
          (rects_area (subtract_many [i] (sc_opaque s))) (sc_states s (el_id e)))"])
      (simp add: scan_element_def hidden_def presented_update el_opaque_def Let_def)
qed

lemma scan_elements_result:
  assumes og: "output_ok og" and "\<forall>e\<in>set es. wf_element sc e" "wf_rects (sc_opaque s)"
  defines "vis \<equiv> visible_elements sc og (sc_opaque s) es"
  shows "\<exists>s'. scan_elements sc og prev es s = Some s' \<and> sc_rendered s' = sc_rendered s @ vis \<and>
    sc_opaque s' = sc_opaque s @ concat (map (el_opaque sc og) vis) \<and>
    sc_opaque_index s' = sc_opaque_index s @ opaque_ranges sc og (length (sc_opaque s)) vis \<and>
    sc_damage s' = sc_damage s @ frame_new_damage sc og prev (length (sc_rendered s)) vis \<and>
    presented (sc_states s') = presented (sc_states s) \<union> el_id ` set vis"
  using assms(2,3) unfolding vis_def
proof (induction es arbitrary: s)
  case Nil
  then show ?case by (simp add: frame_new_damage_def)
next
  case (Cons e es)
  have e: "wf_element sc e" and es: "\<forall>e\<in>set es. wf_element sc e" using Cons.prems(1) by simp_all
  show ?case
  proof (cases "hidden sc og (sc_opaque s) e")
    case True
    obtain states where st: "scan_element sc og prev e s = Some (s\<lparr>sc_states := states\<rparr>)"
      and pr: "presented states = presented (sc_states s)"
      using scan_element_hidden[OF og e Cons.prems(2) True] by blast
    show ?thesis using Cons.IH[OF es, of "s\<lparr>sc_states := states\<rparr>"] Cons.prems(2) st pr True by simp
  next
    case False
    obtain states where st: "scan_element sc og prev e s =
      Some \<lparr>sc_damage = sc_damage s @ element_damage sc og (map_of prev (el_id e)) (length (sc_rendered s)) e,
            sc_damage_index = sc_damage_index s @ [length (sc_damage s)],
            sc_opaque = sc_opaque s @ el_opaque sc og e,
            sc_opaque_index = sc_opaque_index s @
              [(length (sc_opaque s), length (sc_opaque s) + length (el_opaque sc og e))],
            sc_rendered = sc_rendered s @ [e], sc_states = states\<rparr>" (is "_ = Some ?s")
      and pr: "presented states = insert (el_id e) (presented (sc_states s))"
      using scan_element_visible[OF og e Cons.prems(2) False] by blast
    have "wf_rects (sc_opaque ?s)" using Cons.prems(2) el_opaque_in_output(2)[OF og e] by simp
    from Cons.IH[OF es this] show ?thesis
      using st pr False by (simp add: frame_new_damage_def)
  qed
qed

section \<open>What the tracker remembers of the last frame\<close>

definition remembered :: "fscale \<Rightarrow> nat \<times> ('id, 'd) element \<Rightarrow> 'id \<times> element_state" where
  "remembered sc = (\<lambda>(z, e). (el_id e, \<lparr>last_commit = el_current_commit e, last_instances = [element_instance sc z e]\<rparr>))"

lemma remember_new:
  "map_of m (el_id e) = None \<Longrightarrow> remember_element sc (z, e) m = m @ [remembered sc (z, e)]"
  by (simp add: remember_element_def remembered_def Let_def)

lemma remember_elements_distinct:
  assumes "distinct (map el_id es)"
  shows "remember_elements sc es = map (remembered sc) (List.enumerate 0 es)"
proof -
  have "fold (remember_element sc) (List.enumerate n es) m = m @ map (remembered sc) (List.enumerate n es)"
    if "distinct (map el_id es)" "\<forall>e\<in>set es. map_of m (el_id e) = None" for n m
    using that
  proof (induction es arbitrary: n m)
    case Nil
    then show ?case by simp
  next
    case (Cons e es)
    have "\<forall>e'\<in>set es. map_of (m @ [remembered sc (n, e)]) (el_id e') = None"
      using Cons.prems by (auto simp: map_add_def remembered_def image_iff)
    with Cons show ?case by (simp add: remember_new)
  qed
  from this[of "[]" 0] assms show ?thesis by (simp add: remember_elements_def)
qed

lemma remember_lookup:
  assumes "distinct (map el_id es)"
  shows "map_of (remember_elements sc es) i = Some st \<longleftrightarrow>
    (\<exists>z<length es. el_id (es ! z) = i \<and>
       st = \<lparr>last_commit = el_current_commit (es ! z), last_instances = [element_instance sc z (es ! z)]\<rparr>)"
proof -
  have fst: "map fst (map (remembered sc) (List.enumerate n es)) = map el_id es" for n
    by (induction es arbitrary: n) (simp_all add: remembered_def)
  have "map_of (remember_elements sc es) i = Some st \<longleftrightarrow>
      (i, st) \<in> set (map (remembered sc) (List.enumerate 0 es))"
    unfolding remember_elements_distinct[OF assms]
    by (rule map_of_eq_Some_iff) (simp only: fst assms)
  also have "\<dots> \<longleftrightarrow> (\<exists>z<length es. remembered sc (z, es ! z) = (i, st))"
    by (auto simp: in_set_enumerate_eq image_iff intro!: bexI[of _ "(z, es ! z)" for z])
  finally show ?thesis by (auto simp: remembered_def)
qed

text \<open>Same appearance: what the tracker compares besides the z-index.\<close>

definition looks_same :: "fscale \<Rightarrow> ('id, 'd) element \<Rightarrow> ('id, 'd) element \<Rightarrow> bool" where
  "looks_same sc old new \<longleftrightarrow>
     instance_state_matches (element_instance sc 0 old) (el_src new) (el_geometry new sc) (el_transform new)
       (el_alpha new) 0 (el_framebuffer_effect new)"

lemma instance_matches_remembered:
  "instance_matches \<lparr>last_commit = c, last_instances = [element_instance sc z old]\<rparr> (el_src new)
     (el_geometry new sc) (el_transform new) (el_alpha new) z' (el_framebuffer_effect new) \<longleftrightarrow>
   looks_same sc old new \<and> z = z'"
  by (auto simp: instance_matches_def looks_same_def instance_state_matches_def element_instance_def)

section \<open>Painting\<close>

definition own_damage :: "fscale \<Rightarrow> ('id, 'd) element \<Rightarrow> commit_counter \<Rightarrow> rect list" where
  "own_damage sc e commit = map (rect_shift (rloc (el_geometry e sc))) (el_damage_since e sc (Some commit))"

text \<open>The scene at a pixel: the elements, topmost first, painted over \<open>c\<close>.\<close>

definition scene_at :: "(('id, 'd) element \<Rightarrow> pixel \<Rightarrow> 'c \<Rightarrow> 'c) \<Rightarrow> ('id, 'd) element list \<Rightarrow> pixel \<Rightarrow> 'c \<Rightarrow> 'c" where
  "scene_at paint es p c = foldr (\<lambda>e. paint e p) es c"

lemma scene_at_simps [simp]:
  "scene_at paint [] p c = c"
  "scene_at paint (e # es) p c = paint e p (scene_at paint es p c)"
  "scene_at paint (es @ fs) p c = scene_at paint es p (scene_at paint fs p c)"
  by (simp_all add: scene_at_def)

definition layer :: "(('id, 'd) element \<Rightarrow> pixel \<Rightarrow> 'c \<Rightarrow> 'c) \<Rightarrow> ('id, 'd) element list \<Rightarrow> pixel \<Rightarrow> nat \<Rightarrow> 'c \<Rightarrow> 'c" where
  "layer paint es p z = (if z < length es then paint (es ! z) p else id)"

lemma scene_layers:
  assumes "length es \<le> n"
  shows "scene_at paint es p c = foldr (layer paint es p) [0..<n] c"
proof -
  have "foldr (layer paint es p) [length es..<n] c = c"
  proof -
    have "foldr (layer paint es p) zs c = c" if "\<forall>z\<in>set zs. length es \<le> z" for zs
      using that by (induction zs) (auto simp: layer_def)
    then show ?thesis by simp
  qed
  moreover have "foldr (layer paint es p) [0..<length es] d = scene_at paint es p d" for d
  proof -
    have "foldr (layer paint es p) [0..<length es] d = foldr (\<lambda>f. f) (map (layer paint es p) [0..<length es]) d"
      by (simp add: foldr_map comp_def)
    also have "map (layer paint es p) [0..<length es] = map (\<lambda>e. paint e p) es"
      by (rule nth_equalityI) (simp_all add: layer_def)
    finally show ?thesis by (simp add: scene_at_def foldr_map comp_def)
  qed
  moreover have "[0..<n] = [0..<length es] @ [length es..<n]"
    using assms by (metis le_add_diff_inverse upt_add_eq_append zero_le)
  ultimately show ?thesis by simp
qed

lemma scene_by_layers:
  assumes "\<And>z. layer paint es p z = layer paint fs p z"
  shows "scene_at paint es p c = scene_at paint fs p c"
proof -
  let ?n = "max (length es) (length fs)"
  have "layer paint es p = layer paint fs p" using assms by blast
  then show ?thesis
    using scene_layers[of es ?n paint p c] scene_layers[of fs ?n paint p c] by simp
qed

locale painted_elements =
  fixes paint :: "('id, 'd) element \<Rightarrow> pixel \<Rightarrow> 'c \<Rightarrow> 'c"
    and background :: "color \<Rightarrow> 'c"
    and valid :: "('id, 'd) element \<Rightarrow> bool"
    and later :: "('id, 'd) element \<Rightarrow> ('id, 'd) element \<Rightarrow> bool"
    and sc :: fscale
  assumes well_formed: "valid e \<Longrightarrow> wf_element sc e"
    and outside: "valid e \<Longrightarrow> p \<notin> pixels (el_geometry e sc) \<Longrightarrow> paint e p c = c"
    and opaque: "valid e \<Longrightarrow>
      p \<in> pixels_of (map (rect_shift (rloc (el_geometry e sc))) (el_opaque_regions e sc)) \<Longrightarrow>
      paint e p c = paint e p c'"
    and undamaged: "valid old \<Longrightarrow> valid new \<Longrightarrow> later old new \<Longrightarrow> looks_same sc old new \<Longrightarrow>
      p \<notin> pixels_of (own_damage sc new (el_current_commit old)) \<Longrightarrow> paint new p c = paint old p c"
    and same_background: "color_eq a b \<Longrightarrow> background a = background b"
begin

lemma opaque_hides:
  assumes "valid e" "output_ok og" "p \<in> pixels_of (el_opaque sc og e)"
  shows "paint e p c = paint e p c'"
proof (rule opaque[OF assms(1)])
  show "p \<in> pixels_of (map (rect_shift (rloc (el_geometry e sc))) (el_opaque_regions e sc))"
    using assms(3) clip_all_pixels(2)[OF output_okD(1)[OF assms(2)] wf_rects_shift] well_formed[OF assms(1)]
    unfolding el_opaque_def wf_element_def by blast
qed

text \<open>The elements the scan leaves out do not show.\<close>

lemma scene_visible:
  assumes "output_ok og" "p \<in> pixels og" "wf_rects opq" "\<forall>e\<in>set es. valid e" "p \<notin> pixels_of opq"
  shows "scene_at paint es p c = scene_at paint (visible_elements sc og opq es) p c"
  using assms(3-5)
proof (induction es arbitrary: opq)
  case Nil
  then show ?case by simp
next
  case (Cons e es)
  have e: "valid e" "wf_element sc e" using Cons.prems(2) well_formed by simp_all
  show ?case
  proof (cases "hidden sc og opq e")
    case True
    then show ?thesis
      using Cons outside[OF e(1) hidden_pixels[OF assms(1) e(2) Cons.prems(1) True assms(2) Cons.prems(3)]]
      by simp
  next
    case False
    show ?thesis
    proof (cases "p \<in> pixels_of (el_opaque sc og e)")
      case True
      then show ?thesis using False opaque_hides[OF e(1) assms(1) True] by simp
    next
      case not_opaque: False
      have "wf_rects (opq @ el_opaque sc og e)"
        using Cons.prems(1) el_opaque_in_output(2)[OF assms(1) e(2)] by simp
      from Cons.IH[OF this] Cons.prems not_opaque False show ?thesis by simp
    qed
  qed
qed

text \<open>One frame against the frame the tracker remembers, at a pixel outside the new damage.\<close>

lemma clip_one:
  assumes "output_ok og" "wf_rect r" "p \<in> pixels og" "p \<in> pixels r" "r \<in> set rs" "wf_rects rs"
  shows "p \<in> pixels_of (clip_all og rs)"
  using clip_all_pixels(2)[OF output_okD(1)[OF assms(1)] assms(6)] assms by (auto simp: pixels_of_def)

lemma new_layer:
  assumes og: "output_ok og" "p \<in> pixels og" and R: "distinct (map el_id R)" "\<forall>e\<in>set R. valid e"
    and e: "valid e" "p \<in> pixels (el_geometry e sc)" "\<forall>old\<in>set R. el_id old = el_id e \<longrightarrow> later old e"
    and p: "p \<notin> pixels_of (element_damage sc og (map_of (remember_elements sc R) (el_id e)) z e)"
  shows "z < length R \<and> el_id (R ! z) = el_id e \<and> looks_same sc (R ! z) e \<and> (\<forall>c. paint e p c = paint (R ! z) p c)"
proof -
  let ?prev = "map_of (remember_elements sc R) (el_id e)"
  have wf: "wf_rect (el_geometry e sc)" "wf_rects (map (rect_shift (rloc (el_geometry e sc))) (el_damage_since e sc k))" for k
    using well_formed[OF e(1)] wf_rects_shift by (auto simp: wf_element_def)
  have "\<not> (case rect_intersection (el_geometry e sc) og of None \<Rightarrow> True | Some i \<Rightarrow> p \<notin> pixels i)"
    using intersection_pixels(2)[OF wf(1) output_okD(1)[OF og(1)]] intersection_None_disjoint[of "el_geometry e sc" og]
      e(2) og(2) by (auto split: option.splits)
  with p obtain s where s: "?prev = Some s" and m: "instance_matches s (el_src e) (el_geometry e sc)
      (el_transform e) (el_alpha e) z (el_framebuffer_effect e)"
    and d: "p \<notin> pixels_of (clip_all og (own_damage sc e (last_commit s)))"
    by (auto simp: element_damage_def Let_def own_damage_def split: option.splits if_splits)
  from s obtain z' where z': "z' < length R" "el_id (R ! z') = el_id e"
    and seq: "s = \<lparr>last_commit = el_current_commit (R ! z'), last_instances = [element_instance sc z' (R ! z')]\<rparr>"
    unfolding remember_lookup[OF R(1)] by blast
  have same: "looks_same sc (R ! z') e" and zz: "z' = z"
    using m unfolding seq instance_matches_remembered by blast+
  have "p \<notin> pixels_of (own_damage sc e (el_current_commit (R ! z')))"
    using d og(2) clip_all_pixels(2)[OF output_okD(1)[OF og(1)] wf(2)] by (auto simp: seq own_damage_def)
  then have "paint e p c = paint (R ! z') p c" for c
    using undamaged[OF _ e(1) _ same] R(2) e(3) z' nth_mem[OF z'(1)] by metis
  with z' same zz show ?thesis by simp
qed

lemma old_layer:
  assumes og: "output_ok og" "p \<in> pixels og" and R: "distinct (map el_id R)" "\<forall>e\<in>set R. valid e"
    and z: "z < length R" "p \<in> pixels (el_geometry (R ! z) sc)"
    and vis: "presented states = el_id ` set vis"
    and p: "p \<notin> pixels_of (frame_new_damage sc og (remember_elements sc R) 0 vis)"
      "p \<notin> pixels_of (gone_damage og (elements_gone states (remember_elements sc R)))"
  shows "z < length vis \<and> looks_same sc (R ! z) (vis ! z)"
proof -
  let ?e = "R ! z" and ?prev = "remember_elements sc R"
  define s where "s = \<lparr>last_commit = el_current_commit ?e, last_instances = [element_instance sc z ?e]\<rparr>"
  have s: "map_of ?prev (el_id ?e) = Some s"
    unfolding remember_lookup[OF R(1)] s_def using z(1) by blast
  have wf: "wf_rect (el_geometry ?e sc)"
    using well_formed R(2) nth_mem[OF z(1)] by (auto simp: wf_element_def)
  have clip: "p \<in> pixels_of (clip_all og (map last_geometry (last_instances s)))"
    by (rule clip_one[OF og(1) wf og(2) z(2)]) (simp_all add: s_def element_instance_def wf)
  have "el_id ?e \<in> presented states"
  proof (rule ccontr)
    assume "el_id ?e \<notin> presented states"
    then have "(el_id ?e, s) \<in> set (elements_gone states ?prev)"
      using map_of_SomeD[OF s] by (auto simp: elements_gone_def presented_iff split: option.split)
    with clip p(2) show False by (auto simp: gone_damage_def pixels_of_def)
  qed
  then obtain v where v: "v \<in> set vis" "el_id ?e = el_id v" unfolding vis by (rule imageE)
  obtain z' where "z' < length vis" "vis ! z' = v" using v(1) unfolding in_set_conv_nth by blast
  with v(2) have z': "z' < length vis" "el_id (vis ! z') = el_id ?e" by simp_all
  let ?v = "vis ! z'"
  have "p \<notin> pixels_of (element_damage sc og (map_of ?prev (el_id ?v)) z' ?v)"
    using p(1) z'(1) by (force simp: frame_new_damage_def pixels_of_def in_set_enumerate_eq)
  then have "instance_matches s (el_src ?v) (el_geometry ?v sc) (el_transform ?v) (el_alpha ?v) z' (el_framebuffer_effect ?v)"
    using s z'(2) clip by (auto simp: element_damage_def Let_def split: option.splits if_splits)
  then show ?thesis using z' by (auto simp: s_def instance_matches_remembered)
qed

lemma looks_same_geometry: "looks_same sc old new \<Longrightarrow> el_geometry new sc = el_geometry old sc"
  by (simp add: looks_same_def instance_state_matches_def element_instance_def)

lemma undamaged_scene:
  assumes og: "output_ok og" "p \<in> pixels og"
    and R: "distinct (map el_id R)" "\<forall>e\<in>set R. valid e" and vis: "\<forall>e\<in>set vis. valid e"
    and later: "\<forall>new\<in>set vis. \<forall>old\<in>set R. el_id old = el_id new \<longrightarrow> later old new"
    and states: "presented states = el_id ` set vis"
    and p: "p \<notin> pixels_of (frame_new_damage sc og (remember_elements sc R) 0 vis)"
      "p \<notin> pixels_of (gone_damage og (elements_gone states (remember_elements sc R)))"
  shows "scene_at paint vis p c = scene_at paint R p c"
proof (rule scene_by_layers, rule ext)
  fix z d
  have new: "z < length R \<and> (\<forall>c. paint (vis ! z) p c = paint (R ! z) p c)"
    if "z < length vis" "p \<in> pixels (el_geometry (vis ! z) sc)"
  proof -
    have "p \<notin> pixels_of (element_damage sc og (map_of (remember_elements sc R) (el_id (vis ! z))) z (vis ! z))"
      using p(1) that(1) by (force simp: frame_new_damage_def pixels_of_def in_set_enumerate_eq)
    then show ?thesis using new_layer[OF og R _ that(2)] vis later nth_mem[OF that(1)] by blast
  qed
  show "layer paint vis p z d = layer paint R p z d"
  proof (cases "z < length vis \<and> p \<in> pixels (el_geometry (vis ! z) sc)")
    case True
    then show ?thesis using new by (simp add: layer_def)
  next
    case no_new: False
    have "\<not> (z < length R \<and> p \<in> pixels (el_geometry (R ! z) sc))"
    proof
      assume a: "z < length R \<and> p \<in> pixels (el_geometry (R ! z) sc)"
      then have "z < length vis \<and> looks_same sc (R ! z) (vis ! z)"
        using old_layer[OF og R _ _ states p] by blast
      with a no_new looks_same_geometry show False by metis
    qed
    with no_new show ?thesis
      using outside[of "vis ! z" p d] outside[of "R ! z" p d] vis R(2) nth_mem[of z vis] nth_mem[of z R]
      by (auto simp: layer_def)
  qed
qed

end

end
