(* ===== verification/Rendering.thy ===== *)
theory Rendering
  imports Painting
begin

text \<open>
  The drawing commands of the output damage tracker paint the scene: inside the damage every
  pixel gets the scene of the elements, whatever the buffer held before and without blending an
  element twice, and outside the damage nothing is touched.
\<close>

section \<open>Running drawing commands\<close>

text \<open>A command at one pixel. Each rectangle of the damage of a draw is drawn on its own.\<close>

fun cmd_at :: "(('id, 'd) element \<Rightarrow> pixel \<Rightarrow> 'c \<Rightarrow> 'c) \<Rightarrow> (color \<Rightarrow> 'c) \<Rightarrow> pixel \<Rightarrow> ('id, 'd) draw_cmd \<Rightarrow> 'c \<Rightarrow> 'c" where
  "cmd_at paint background p (Cmd_clear col rs) c = (if p \<in> pixels_of rs then background col else c)"
| "cmd_at paint background p (Cmd_draw e src dst ds opq cached) c =
     (paint e p ^^ cover p (map (rect_shift (rloc dst)) ds)) c"
| "cmd_at paint background p _ c = c"

definition run_cmds :: "(('id, 'd) element \<Rightarrow> pixel \<Rightarrow> 'c \<Rightarrow> 'c) \<Rightarrow> (color \<Rightarrow> 'c) \<Rightarrow> ('id, 'd) draw_cmd list \<Rightarrow>
    (pixel \<Rightarrow> 'c) \<Rightarrow> pixel \<Rightarrow> 'c" where
  "run_cmds paint background cmds buf p = fold (cmd_at paint background p) cmds (buf p)"

lemma draw_elements_append:
  "draw_elements sc damage opaque states (xs @ ys) cache =
     (case draw_elements sc damage opaque states xs cache of
        None \<Rightarrow> None
      | Some (cmds, cache') \<Rightarrow>
          (case draw_elements sc damage opaque states ys cache' of
             None \<Rightarrow> None
           | Some (cmds', cache'') \<Rightarrow> Some (cmds @ cmds', cache'')))"
  by (induction xs arbitrary: cache)
    (auto split: option.split)

lemma length_opaque_ranges [simp]: "length (opaque_ranges sc og n es) = length es"
  by (induction es arbitrary: n) simp_all

section \<open>The damage an element is drawn with\<close>

lemma shift_unshift_pixels:
  assumes g: "wf_rect g" and r: "wf_rect r" "exact_rect r" and sub: "pixels r \<subseteq> pixels g"
  shows "pixels (rect_shift (rloc g) (rect_unshift (rloc g) r)) = pixels r"
proof -
  let ?r = "rect_shift (rloc g) (rect_unshift (rloc g) r)"
  have size: "rsize ?r = rsize r" by (simp add: rect_shift_def rect_unshift_def)
  have wf: "wf_rect ?r"
    using r by (intro wf_rect_shift) (simp add: rect_unshift_def wf_rect_def wf_point_def point_sub_def)
  note dr = wf_rectD[OF r(1)] and dg = wf_rectD[OF g]
  show ?thesis
  proof (cases "rect_is_empty r")
    case True
    then have "rect_is_empty ?r" by (simp add: rect_is_empty_def size)
    with True show ?thesis using pixels_empty[OF wf] pixels_empty[OF r(1)] by simp
  next
    case False
    then have "0 < rw r" "0 < rh r" using dr(5,6) by (auto simp: rect_is_empty_def size_is_empty_def)
    then have "(rx r, ry r) \<in> pixels r" using r(2) by (simp add: pixels_def exact_rect_def)
    with sub have "rx g \<le> rx r" "rx r < rright g" "ry g \<le> ry r" "ry r < rbottom g"
      by (auto simp: pixels_def)
    then have "in_i32 (rx r - rx g)" "in_i32 (ry r - ry g)" using dg by (auto simp: in_i32_def)
    then have "rloc ?r = rloc r"
      using dr(1,2) by (simp add: rect_shift_def rect_unshift_def point_add_def point_sub_def range_simps)
    with size have "?r = r" by (simp add: rect.equality)
    then show ?thesis by simp
  qed
qed

lemma cover_map_pixels:
  "\<forall>r\<in>set rs. pixels (f r) = pixels r \<Longrightarrow> cover p (map f rs) = cover p rs"
  by (induction rs) auto

lemma clip_all_cover:
  assumes "wf_rect b" "wf_rects rs"
  shows "cover p (clip_all b rs) = (if p \<in> pixels b then cover p rs else 0)"
  using assms(2)
proof (induction rs)
  case Nil
  then show ?case by simp
next
  case (Cons r rs)
  then show ?case
    using intersection_None_disjoint[of r b] intersection_pixels[of r b] assms(1)
    by (cases "rect_intersection r b") auto
qed

lemma clip_all_exact:
  assumes "wf_rect b" "wf_rects rs"
  shows "\<forall>r\<in>set (clip_all b rs). exact_rect r"
  using assms(2)
proof (induction rs)
  case Nil
  then show ?case by simp
next
  case (Cons r rs)
  then show ?case
    using intersection_edges[of r b] has_edges_exact assms(1)
    by (cases "rect_intersection r b") auto
qed

lemma draw_damage_cover:
  assumes g: "wf_rect geometry" and d: "wf_rects damage" "disjoint_rects damage" and o: "wf_rects opaque"
  shows "\<exists>ds. draw_damage damage opaque start geometry = Some ds \<and>
    (\<forall>p. cover p (map (rect_shift (rloc geometry)) ds) \<le> 1 \<and>
      (p \<notin> pixels_of damage \<or> p \<notin> pixels geometry \<longrightarrow> cover p (map (rect_shift (rloc geometry)) ds) = 0) \<and>
      (p \<in> pixels_of damage \<and> p \<in> pixels geometry \<and> p \<notin> pixels_of (take start opaque) \<longrightarrow>
         cover p (map (rect_shift (rloc geometry)) ds) = 1))"
proof -
  let ?c = "clip_all geometry damage"
  have to: "wf_rects (take start opaque)" using o set_take_subset[of start opaque] by (auto simp: wf_rects_def)
  note c = clip_all_pixels[OF g d(1)]
  have dis: "disjoint_rects ?c"
    using d(2) unfolding disjoint_cover clip_all_cover[OF g d(1)] by simp
  note s = subtract_many_spec[OF c(1) to]
  let ?s = "subtract_many ?c (take start opaque)"
  have sdis: "disjoint_rects ?s" by (rule subtract_many_disjoint[OF c(1) to dis])
  have sub: "pixels_of ?s \<subseteq> pixels geometry" using s(4) c(2) by blast
  have shift: "pixels (rect_shift (rloc geometry) (rect_unshift (rloc geometry) r)) = pixels r" if r: "r \<in> set ?s" for r
  proof (rule shift_unshift_pixels[OF g])
    show "wf_rect r" using s(2) r by (simp add: wf_rects_def)
    show "exact_rect r" using subtract_many_exact[OF c(1) to clip_all_exact[OF g d(1)]] r by blast
    show "pixels r \<subseteq> pixels geometry" using sub r unfolding pixels_of_def by blast
  qed
  have cov: "cover p (map (rect_shift (rloc geometry)) (map (rect_unshift (rloc geometry)) ?s)) = cover p ?s" for p
    unfolding map_map by (rule cover_map_pixels) (simp add: shift)
  have one: "cover p ?s \<le> 1" for p using sdis unfolding disjoint_cover by blast
  have none: "cover p ?s = 0" if "p \<notin> pixels_of damage \<or> p \<notin> pixels geometry" for p
    using that s(4) c(2) by (auto simp: cover_zero)
  have all: "cover p ?s = 1"
    if "p \<in> pixels_of damage" "p \<in> pixels geometry" "p \<notin> pixels_of (take start opaque)" for p
  proof -
    have "p \<in> pixels_of ?s" using that s(3) c(2) by blast
    then have "cover p ?s \<noteq> 0" by (simp add: cover_zero)
    with one[of p] show ?thesis by simp
  qed
  show ?thesis
    by (intro exI[of _ "map (rect_unshift (rloc geometry)) ?s"] conjI allI impI)
      (use s(1) one none all in \<open>simp_all add: draw_damage_def cov del: map_map\<close>)
qed

section \<open>The commands of a frame\<close>

context painted_elements
begin

lemma scene_opaque:
  assumes "output_ok og" "\<forall>e\<in>set es. valid e" "p \<in> pixels_of (concat (map (el_opaque sc og) es))"
  shows "scene_at paint es p c = scene_at paint es p c'"
  using assms(2,3)
proof (induction es)
  case Nil
  then show ?case by simp
next
  case (Cons e es)
  then show ?case
    using opaque_hides[of e og p "scene_at paint es p c" "scene_at paint es p c'"] assms(1) by auto
qed

text \<open>One element drawn, below some opaque regions: it is painted exactly where the damage shows it.\<close>

definition draw_ok :: "rect list \<Rightarrow> rect list \<Rightarrow> ('id, 'd) element list \<Rightarrow> ('id, 'd) draw_cmd list \<Rightarrow> bool" where
  "draw_ok damage opq es cmds \<longleftrightarrow>
     (\<forall>p c. (p \<notin> pixels_of damage \<longrightarrow> fold (cmd_at paint background p) cmds c = c) \<and>
        (p \<in> pixels_of damage \<and> p \<notin> pixels_of opq \<longrightarrow>
           fold (cmd_at paint background p) cmds c = scene_at paint es p c))"

lemma draw_okI:
  assumes "\<And>p c. p \<notin> pixels_of damage \<Longrightarrow> fold (cmd_at paint background p) cmds c = c"
    and "\<And>p c. p \<in> pixels_of damage \<Longrightarrow> p \<notin> pixels_of opq \<Longrightarrow>
      fold (cmd_at paint background p) cmds c = scene_at paint es p c"
  shows "draw_ok damage opq es cmds"
  using assms unfolding draw_ok_def by blast

lemma draw_okD:
  assumes "draw_ok damage opq es cmds"
  shows "p \<notin> pixels_of damage \<Longrightarrow> fold (cmd_at paint background p) cmds c = c"
    and "p \<in> pixels_of damage \<Longrightarrow> p \<notin> pixels_of opq \<Longrightarrow>
      fold (cmd_at paint background p) cmds c = scene_at paint es p c"
  using assms unfolding draw_ok_def by blast+

lemma draw_one:
  assumes e: "valid e" and d: "wf_rects damage" "disjoint_rects damage" and o: "wf_rects opaque"
    and pre: "take start opaque = opq"
  shows "\<exists>cmds cache'. draw_elements sc damage opaque states [(e, start, stop)] cache = Some (cmds, cache') \<and>
    draw_ok damage opq [e] cmds"
proof -
  let ?g = "el_geometry e sc"
  have g: "wf_rect ?g" using well_formed[OF e] by (simp add: wf_element_def)
  obtain ds where ds: "draw_damage damage opaque start ?g = Some ds"
    and cov: "\<And>p. cover p (map (rect_shift (rloc ?g)) ds) \<le> 1"
      "\<And>p. p \<notin> pixels_of damage \<or> p \<notin> pixels ?g \<Longrightarrow> cover p (map (rect_shift (rloc ?g)) ds) = 0"
      "\<And>p. p \<in> pixels_of damage \<and> p \<in> pixels ?g \<and> p \<notin> pixels_of opq \<Longrightarrow>
         cover p (map (rect_shift (rloc ?g)) ds) = 1"
    using draw_damage_cover[OF g d o, of start] unfolding pre by metis
  have paint1: "(paint e p ^^ cover p (map (rect_shift (rloc ?g)) ds)) c = paint e p c"
    if "p \<in> pixels_of damage" "p \<notin> pixels_of opq" for p c
    using that cov(2,3)[of p] outside[OF e, of p c] by (cases "p \<in> pixels ?g") simp_all
  show ?thesis
  proof (cases ds)
    case Nil
    then have "paint e p c = c" if "p \<in> pixels_of damage" "p \<notin> pixels_of opq" for p c
      using paint1[OF that, of c] by simp
    then have "draw_ok damage opq [e] []" by (intro draw_okI) simp_all
    then show ?thesis using Nil ds by (simp add: draw_element_def)
  next
    case (Cons x xs)
    define pre where "pre = (if (case states (el_id e) of None \<Rightarrow> False | Some st \<Rightarrow> needs_capture st)
      then [Cmd_capture e (el_src e) ?g] else [])"
    obtain regions cached cache' where "draw_element sc damage opaque states (e, start, stop) cache =
         Some (pre @ [Cmd_draw e (el_src e) ?g ds regions cached], cache')"
      unfolding draw_element_def pre_def using ds Cons by (simp only: Let_def prod.case option.case list.case)
    then have res: "draw_elements sc damage opaque states [(e, start, stop)] cache =
         Some (pre @ [Cmd_draw e (el_src e) ?g ds regions cached], cache')" by simp
    have run: "fold (cmd_at paint background p) (pre @ [Cmd_draw e (el_src e) ?g ds regions cached]) c
      = (paint e p ^^ cover p (map (rect_shift (rloc ?g)) ds)) c" for p c
      by (simp add: pre_def)
    have "draw_ok damage opq [e] (pre @ [Cmd_draw e (el_src e) ?g ds regions cached])"
      by (rule draw_okI) (simp_all only: run cov(2) paint1 scene_at_simps funpow_0 simp_thms)
    with res show ?thesis by blast
  qed
qed

lemma draw_all:
  assumes og: "output_ok og" and d: "wf_rects damage" "disjoint_rects damage"
    and "\<forall>e\<in>set es. valid e" "wf_rects opq" "opaque = opq @ concat (map (el_opaque sc og) es)"
  shows "\<exists>cmds cache'. draw_elements sc damage opaque states
      (rev (zip es (opaque_ranges sc og (length opq) es))) cache = Some (cmds, cache') \<and>
    draw_ok damage opq es cmds"
  using assms(4-)
proof (induction es arbitrary: opq)
  case Nil
  then show ?case by (simp add: draw_ok_def)
next
  case (Cons e es)
  let ?n = "length opq" let ?o = "el_opaque sc og e"
  have e: "valid e" and es: "\<forall>e\<in>set es. valid e" using Cons.prems(1) by simp_all
  have wfo: "wf_rects ?o" using el_opaque_in_output(2)[OF og well_formed[OF e]] .
  have wfos: "wf_rects (concat (map (el_opaque sc og) es))"
    using el_opaque_in_output(2)[OF og well_formed] es by (auto simp: wf_rects_def)
  have op: "opaque = (opq @ ?o) @ concat (map (el_opaque sc og) es)" using Cons.prems(3) by simp
  have wf: "wf_rects opaque" using Cons.prems(2) wfo wfos op by simp
  obtain cmds cache' where below: "draw_elements sc damage opaque states
      (rev (zip es (opaque_ranges sc og (length (opq @ ?o)) es))) cache = Some (cmds, cache')"
    and ok: "draw_ok damage (opq @ ?o) es cmds"
    using Cons.IH[OF es _ op] Cons.prems(2) wfo by auto
  have "take ?n opaque = opq" using op by simp
  from draw_one[OF e d wf this] obtain cmd cache'' where
    one: "draw_elements sc damage opaque states [(e, ?n, ?n + length ?o)] cache' = Some (cmd, cache'')"
    and ok1: "draw_ok damage opq [e] cmd" by blast
  have "draw_ok damage opq (e # es) (cmds @ cmd)"
  proof (rule draw_okI)
    fix p c
    assume "p \<notin> pixels_of damage"
    then show "fold (cmd_at paint background p) (cmds @ cmd) c = c"
      using draw_okD(1)[OF ok] draw_okD(1)[OF ok1] by simp
  next
    fix p c
    assume p: "p \<in> pixels_of damage" "p \<notin> pixels_of opq"
    let ?c = "fold (cmd_at paint background p) cmds c"
    have "fold (cmd_at paint background p) (cmds @ cmd) c = paint e p ?c"
      using draw_okD(2)[OF ok1 p] by simp
    also have "\<dots> = paint e p (scene_at paint es p c)"
    proof (cases "p \<in> pixels_of ?o")
      case True
      then show ?thesis by (rule opaque_hides[OF e og])
    next
      case False
      then show ?thesis using draw_okD(2)[OF ok p(1)] p(2) by simp
    qed
    finally show "fold (cmd_at paint background p) (cmds @ cmd) c = scene_at paint (e # es) p c" by simp
  qed
  then show ?case using below one by (simp add: draw_elements_append)
qed

lemma render_commands_paint:
  assumes og: "output_ok og" and d: "wf_rects (tr_damage tr)" "disjoint_rects (tr_damage tr)"
    and es: "\<forall>e\<in>set es. valid e" and opq: "tr_opaque_regions tr = concat (map (el_opaque sc og) es)"
    and idx: "tr_opaque_index tr = opaque_ranges sc og 0 es"
  shows "\<exists>cmds cache. render_commands z t sc tr es clear states = Some (cmds, cache) \<and>
    (\<forall>buf p. run_cmds paint background cmds buf p =
       (if p \<in> pixels_of (tr_damage tr) then scene_at paint es p (background clear) else buf p))"
proof -
  let ?d = "tr_damage tr" let ?o = "tr_opaque_regions tr"
  have wfo: "wf_rects ?o"
    unfolding opq using el_opaque_in_output(2)[OF og well_formed] es by (auto simp: wf_rects_def)
  note sub = subtract_many_spec[OF d(1) wfo]
  obtain cmds cache where draws: "draw_elements sc ?d ?o states
      (rev (zip es (opaque_ranges sc og 0 es))) (rs_effects_cache (tr_state tr)) = Some (cmds, cache)"
    and ok: "draw_ok ?d [] es cmds"
    using draw_all[OF og d es wf_rects_simps(1), of ?o states "rs_effects_cache (tr_state tr)"] opq by auto
  let ?cmds = "[Cmd_begin z t, Cmd_clear clear (subtract_many ?d ?o)] @ cmds @ [Cmd_finish]"
  have "zip (rev es) (rev (opaque_ranges sc og 0 es)) = rev (zip es (opaque_ranges sc og 0 es))"
    by (rule zip_rev) simp
  then have res: "render_commands z t sc tr es clear states = Some (?cmds, cache)"
    using sub(1) draws by (simp add: render_commands_def idx)
  have "run_cmds paint background ?cmds buf p =
      (if p \<in> pixels_of ?d then scene_at paint es p (background clear) else buf p)" for buf p
  proof (cases "p \<in> pixels_of ?d")
    case True
    define c where "c = (if p \<in> pixels_of (subtract_many ?d ?o) then background clear else buf p)"
    have "run_cmds paint background ?cmds buf p = scene_at paint es p c"
      using draw_okD(2)[OF ok True] by (simp add: run_cmds_def c_def)
    also have "\<dots> = scene_at paint es p (background clear)"
      using scene_opaque[OF og es, of p c "background clear"] True sub(3) opq by (auto simp: c_def)
    finally show ?thesis using True by simp
  next
    case False
    then have "p \<notin> pixels_of (subtract_many ?d ?o)" using sub(4) by blast
    then show ?thesis using draw_okD(1)[OF ok False] False by (simp add: run_cmds_def)
  qed
  with res show ?thesis by blast
qed

end

end
