(* ===== verification/Tracker_Run.thy ===== *)
theory Tracker_Run
  imports Rendering
begin

text \<open>
  The output damage tracker over many frames. A run renders frames into buffers of any age and may
  fail in between; its history lists what the presented frames showed, the latest first. The
  invariant relates the remembered elements and the old damage to that history, and gives that
  every frame shows exactly the scene of its elements.
\<close>

section \<open>The damage of one frame without framebuffer effects\<close>

definition output_changed :: "'id renderer_state \<Rightarrow> rect \<Rightarrow> transform \<Rightarrow> color option \<Rightarrow> bool" where
  "output_changed st og t clear \<longleftrightarrow>
     rs_size st \<noteq> Some (rsize og) \<or> rs_transform st \<noteq> Some t \<or> \<not> color_opt_eq (rs_clear_color st) clear"

definition plain_damage :: "fscale \<Rightarrow> rect \<Rightarrow> transform \<Rightarrow> color option \<Rightarrow> 'id renderer_state \<Rightarrow> 'id render_states \<Rightarrow>
    ('id, 'd) element list \<Rightarrow> rect list" where
  "plain_damage sc og t clear st states vis =
     (if output_changed st og t clear then [og]
      else frame_new_damage sc og (rs_elements st) 0 vis @ gone_damage og (elements_gone states (rs_elements st)) @
        subtract_many (rs_opaque_regions st) (concat (map (el_opaque sc og) vis)))"

lemma no_effects: "\<forall>e\<in>set es. \<not> el_framebuffer_effect e \<Longrightarrow> framebuffer_effects es = []"
  by (auto simp: framebuffer_effects_def filter_empty_conv in_set_enumerate_eq)

lemma wf_rects_concat: "wf_rects (concat rss) \<longleftrightarrow> (\<forall>rs\<in>set rss. wf_rects rs)"
  by (auto simp: wf_rects_def)

lemma wf_rects_opaque:
  assumes "output_ok og" "\<forall>e\<in>set es. wf_element sc e"
  shows "wf_rects (concat (map (el_opaque sc og) es))"
  using assms(2) by (induction es) (simp_all add: el_opaque_in_output(2)[OF assms(1)])

lemma presented_empty [simp]: "presented Map.empty = {}"
  by (simp add: presented_def element_was_presented_def)

lemma frame_damage_plain:
  assumes og: "output_ok og" and es: "\<forall>e\<in>set es. wf_element sc e \<and> \<not> el_framebuffer_effect e"
    and opq: "wf_rects (rs_opaque_regions st)"
  defines "vis \<equiv> visible_elements sc og [] es"
  shows "\<exists>s states. frame_damage st es sc t og clear ws = Some (s,
      \<lparr>ef_damage = plain_damage sc og t clear st states vis, ef_opaque = concat (map (el_opaque sc og) vis),
       ef_states = states\<rparr>) \<and> sc_rendered s = vis \<and> sc_opaque_index s = opaque_ranges sc og 0 vis \<and>
    presented states = el_id ` set vis"
proof -
  have wf: "\<forall>e\<in>set es. wf_element sc e" using es by blast
  obtain s where s: "scan_elements sc og (rs_elements st) es scan_init = Some s" "sc_rendered s = vis"
    "sc_opaque s = concat (map (el_opaque sc og) vis)" "sc_opaque_index s = opaque_ranges sc og 0 vis"
    "sc_damage s = frame_new_damage sc og (rs_elements st) 0 vis" "presented (sc_states s) = el_id ` set vis"
    using scan_elements_result[OF og wf, of scan_init "rs_elements st"]
    by (auto simp: scan_init_def vis_def)
  have sub: "set vis \<subseteq> set es" unfolding vis_def by (rule visible_elements_set)
  then have "wf_rects (sc_opaque s)" using wf_rects_opaque[OF og] wf unfolding s(3) by blast
  note u = subtract_many_spec(1)[OF opq this]
  have "framebuffer_effects (sc_rendered s) = []" using es sub by (intro no_effects) (auto simp: s(2))
  then show ?thesis
    using s u by (intro exI[of _ s] exI[of _ "sc_states s"])
      (simp add: frame_damage_def plain_damage_def output_changed_def Let_def)
qed

section \<open>Frames and runs\<close>

record ('id, 'd, 'c) frame =
  fr_mode :: mode_source
  fr_age :: nat
  fr_elements :: "('id, 'd) element list"
  fr_clear :: color
  fr_with_states :: "'id render_states option"
  fr_buffer :: "pixel \<Rightarrow> 'c"
  fr_fails :: "('id, 'd) draw_cmd list \<Rightarrow> bool"

definition frame_area :: "('id, 'd, 'c) frame \<Rightarrow> rect" where
  "frame_area fr =
     (case mode_source_get (fr_mode fr) of None \<Rightarrow> rect_zero | Some (z, _, t) \<Rightarrow> output_geometry z (transform_invert t))"

definition frame_scene :: "(('id, 'd) element \<Rightarrow> pixel \<Rightarrow> 'c \<Rightarrow> 'c) \<Rightarrow> (color \<Rightarrow> 'c) \<Rightarrow> ('id, 'd, 'c) frame \<Rightarrow> pixel \<Rightarrow> 'c" where
  "frame_scene paint background fr p = scene_at paint (fr_elements fr) p (background (fr_clear fr))"

text \<open>
  A frame as a compositor may render it: the output has a mode at scale \<open>sc\<close>, the elements are
  valid, have different ids and are later states of those seen before, and a buffer whose age is
  within the history holds what was shown that many frames ago.
\<close>

definition frame_ok :: "(('id, 'd) element \<Rightarrow> bool) \<Rightarrow> (('id, 'd) element \<Rightarrow> ('id, 'd) element \<Rightarrow> bool) \<Rightarrow> fscale \<Rightarrow>
    ('id, 'd) element set \<Rightarrow> (pixel \<Rightarrow> 'c) list \<Rightarrow> ('id, 'd, 'c) frame \<Rightarrow> bool" where
  "frame_ok valid later sc seen hist fr \<longleftrightarrow>
     (\<exists>z t. mode_source_get (fr_mode fr) = Some (z, sc, t)) \<and> output_ok (frame_area fr) \<and>
     distinct (map el_id (fr_elements fr)) \<and>
     (\<forall>e\<in>set (fr_elements fr). valid e \<and> \<not> el_framebuffer_effect e \<and>
        (\<forall>old\<in>seen. el_id old = el_id e \<longrightarrow> later old e)) \<and>
     (0 < fr_age fr \<and> fr_age fr \<le> length hist \<longrightarrow>
        (\<forall>p\<in>pixels (frame_area fr). fr_buffer fr p = (hist ! (fr_age fr - 1)) p))"

definition render_frame :: "(damage_split_axis \<Rightarrow> rect list \<Rightarrow> rect list) \<Rightarrow> 'id tracker \<Rightarrow> ('id, 'd, 'c) frame \<Rightarrow>
    ('id tracker \<times> (track_error + ('id, 'd) render_result)) option" where
  "render_frame srt tr fr =
     render_output srt (fr_fails fr) (fr_age fr) (fr_elements fr) (fr_clear fr) (fr_with_states fr)
       (tr\<lparr>tr_mode := fr_mode fr\<rparr>)"

text \<open>Without damage nothing is presented and the last frame stays.\<close>

fun presented_frames :: "(('id, 'd) element \<Rightarrow> pixel \<Rightarrow> 'c \<Rightarrow> 'c) \<Rightarrow> (color \<Rightarrow> 'c) \<Rightarrow> (pixel \<Rightarrow> 'c) \<Rightarrow>
    (pixel \<Rightarrow> 'c) list \<Rightarrow> ('id, 'd) render_result \<Rightarrow> (pixel \<Rightarrow> 'c) list" where
  "presented_frames paint background buf hist (Render_result cmds None states) = hist"
| "presented_frames paint background buf hist (Render_result cmds (Some d) states) =
     run_cmds paint background cmds buf # hist"

inductive tracker_run :: "(('id, 'd) element \<Rightarrow> pixel \<Rightarrow> 'c \<Rightarrow> 'c) \<Rightarrow> (color \<Rightarrow> 'c) \<Rightarrow> (('id, 'd) element \<Rightarrow> bool) \<Rightarrow>
    (('id, 'd) element \<Rightarrow> ('id, 'd) element \<Rightarrow> bool) \<Rightarrow> fscale \<Rightarrow> (damage_split_axis \<Rightarrow> rect list \<Rightarrow> rect list) \<Rightarrow>
    'id tracker \<Rightarrow> (pixel \<Rightarrow> 'c) list \<Rightarrow> ('id, 'd) element set \<Rightarrow> bool"
  for paint background valid later sc srt where
    run_start: "tracker_run paint background valid later sc srt (tracker_from_mode m) [] {}"
  | run_frame: "tracker_run paint background valid later sc srt tr hist seen \<Longrightarrow>
      frame_ok valid later sc seen hist fr \<Longrightarrow> render_frame srt tr fr = Some (tr', Inr res) \<Longrightarrow>
      tracker_run paint background valid later sc srt tr'
        (presented_frames paint background (fr_buffer fr) hist res) (seen \<union> set (fr_elements fr))"
  | run_failed: "tracker_run paint background valid later sc srt tr hist seen \<Longrightarrow>
      frame_ok valid later sc seen hist fr \<Longrightarrow> render_frame srt tr fr = Some (tr', Inl err) \<Longrightarrow>
      tracker_run paint background valid later sc srt tr' [] (seen \<union> set (fr_elements fr))"

section \<open>Old damage\<close>

lemma shape_damage_nil: "shape_damage srt [] = Some []"
  by (simp add: shape_damage_def)


lemma age_damage_prefix:
  assumes "age_damage age og new old = (damage, old')"
  shows "\<exists>k. old' = take k old"
  using assms by (auto simp: age_damage_def Let_def split: if_splits)

lemma age_damage_outside:
  assumes "age_damage age og new old = (damage, old')" "p \<in> pixels og" "p \<notin> pixels_of damage"
  shows "0 < age" "age \<le> length old" "p \<notin> pixels_of new" "p \<notin> pixels_of (concat (take (age - 1) old))"
  using assms by (auto simp: age_damage_def Let_def min_def split: if_splits)

lemma age_damage_wf:
  assumes "age_damage age og new old = (damage, old')" "wf_rect og" "wf_rects new" "wf_rects (concat old)"
  shows "wf_rects damage" "wf_rects (concat old')"
proof -
  have take: "wf_rects (concat (take k old))" for k
    using assms(4) in_set_takeD[of _ k old] by (auto simp: wf_rects_def)
  show "wf_rects (concat old')" using age_damage_prefix[OF assms(1)] take by blast
  show "wf_rects damage"
    using assms(1-3) take by (auto simp: age_damage_def Let_def min_def split: if_splits)
qed

section \<open>The invariant\<close>

context painted_elements
begin

definition remembers :: "'id renderer_state \<Rightarrow> ('id, 'd) element list \<Rightarrow> bool" where
  "remembers st R \<longleftrightarrow> rs_elements st = remember_elements sc R \<and> distinct (map el_id R) \<and> (\<forall>e\<in>set R. valid e) \<and>
     wf_rects (rs_opaque_regions st) \<and> wf_rects (concat (rs_old_damage st))"

definition history_ok :: "'id renderer_state \<Rightarrow> ('id, 'd) element list \<Rightarrow> (pixel \<Rightarrow> 'c) list \<Rightarrow> bool" where
  "history_ok st R hist \<longleftrightarrow> length (rs_old_damage st) \<le> length hist \<and>
     (\<forall>og col. output_ok og \<and> rs_size st = Some (rsize og) \<and> rs_clear_color st = Some col \<longrightarrow> hist \<noteq> [] \<and>
        (\<forall>p\<in>pixels og. (hist ! 0) p = scene_at paint R p (background col) \<and>
           (\<forall>n<length (rs_old_damage st). p \<notin> pixels_of (concat (take n (rs_old_damage st))) \<longrightarrow>
              (hist ! 0) p = (hist ! n) p)))"

lemma history_okD:
  assumes "history_ok st R hist" "output_ok og" "rs_size st = Some (rsize og)" "rs_clear_color st = Some col"
  shows "hist \<noteq> []" "p \<in> pixels og \<Longrightarrow> (hist ! 0) p = scene_at paint R p (background col)"
    "p \<in> pixels og \<Longrightarrow> n < length (rs_old_damage st) \<Longrightarrow>
       p \<notin> pixels_of (concat (take n (rs_old_damage st))) \<Longrightarrow> (hist ! 0) p = (hist ! n) p"
  using assms unfolding history_ok_def by blast+

lemma history_ok_take:
  assumes h: "history_ok st R hist" and k: "old = take k (rs_old_damage st)"
  shows "history_ok (st\<lparr>rs_old_damage := old\<rparr>) R hist"
  unfolding history_ok_def
proof (intro conjI allI impI ballI)
  show "length (rs_old_damage (st\<lparr>rs_old_damage := old\<rparr>)) \<le> length hist"
    using h unfolding history_ok_def k by simp linarith
  fix og col p
  assume "output_ok og \<and> rs_size (st\<lparr>rs_old_damage := old\<rparr>) = Some (rsize og) \<and>
    rs_clear_color (st\<lparr>rs_old_damage := old\<rparr>) = Some col"
  then have a: "output_ok og" "rs_size st = Some (rsize og)" "rs_clear_color st = Some col" by simp_all
  show "hist \<noteq> []" by (rule history_okD(1)[OF h a])
  assume p: "p \<in> pixels og"
  show "(hist ! 0) p = scene_at paint R p (background col)" by (rule history_okD(2)[OF h a p])
  fix n
  assume "n < length (rs_old_damage (st\<lparr>rs_old_damage := old\<rparr>))"
    "p \<notin> pixels_of (concat (take n (rs_old_damage (st\<lparr>rs_old_damage := old\<rparr>))))"
  then have "n < length (rs_old_damage st)" "p \<notin> pixels_of (concat (take n (rs_old_damage st)))"
    by (simp_all add: k min_def split: if_splits)
  then show "(hist ! 0) p = (hist ! n) p" by (rule history_okD(3)[OF h a p])
qed

lemma remembered_geometry_wf:
  assumes "remembers st R" "map_of (rs_elements st) i = Some s"
  shows "wf_rects (map last_geometry (last_instances s))"
proof -
  have d: "distinct (map el_id R)" using assms(1) by (simp add: remembers_def)
  obtain z where "z < length R"
    "s = \<lparr>last_commit = el_current_commit (R ! z), last_instances = [element_instance sc z (R ! z)]\<rparr>"
    using assms remember_lookup[OF d, of sc i s] by (auto simp: remembers_def)
  then show ?thesis
    using assms(1) well_formed nth_mem[of z R] by (auto simp: remembers_def element_instance_def wf_element_def)
qed

lemma wf_clip_all: "wf_rect og \<Longrightarrow> wf_rects rs \<Longrightarrow> wf_rects (clip_all og rs)"
  by (rule clip_all_pixels(1))

lemma plain_damage_wf:
  assumes og: "output_ok og" and st: "remembers st R" and vis: "\<forall>e\<in>set vis. valid e"
  shows "wf_rects (plain_damage sc og t clear st states vis)"
proof -
  note o = output_okD(1)[OF og]
  let ?prev = "rs_elements st"
  have el: "wf_rects (element_damage sc og (map_of ?prev (el_id e)) z e)" if "e \<in> set vis" for z e
  proof -
    have e: "wf_rect (el_geometry e sc)" "wf_rects (el_damage_since e sc k)" for k
      using vis that well_formed by (auto simp: wf_element_def)
    have "wf_rects (clip_all og [el_geometry e sc])" using e(1) by (intro wf_clip_all[OF o]) simp
    moreover have "wf_rects (clip_all og (map last_geometry (last_instances s)))"
      if "map_of ?prev (el_id e) = Some s" for s
      by (rule wf_clip_all[OF o remembered_geometry_wf[OF st that]])
    moreover have "wf_rects (clip_all og (map (rect_shift l) (el_damage_since e sc k)))" for l k
      by (rule wf_clip_all[OF o wf_rects_shift[OF e(2)]])
    ultimately show ?thesis
      by (auto simp: element_damage_def Let_def split: option.splits)
  qed
  have new: "wf_rects (frame_new_damage sc og ?prev 0 vis)"
    unfolding frame_new_damage_def wf_rects_concat using el by (auto simp: in_set_enumerate_eq)
  have distinct: "distinct (map fst ?prev)"
  proof -
    have "map fst (map (remembered sc) (List.enumerate n es)) = map el_id es" for n and es :: "('id, 'd) element list"
      by (induction es arbitrary: n) (simp_all add: remembered_def)
    then show ?thesis using st by (simp add: remembers_def remember_elements_distinct)
  qed
  have "wf_rects (clip_all og (map last_geometry (last_instances s)))" if "(i, s) \<in> set ?prev" for i s
    using wf_clip_all[OF o remembered_geometry_wf[OF st map_of_is_SomeI[OF distinct that]]] .
  then have gone: "wf_rects (gone_damage og (elements_gone states ?prev))"
    unfolding gone_damage_def wf_rects_concat by (auto simp: elements_gone_def)
  have opq: "wf_rects (concat (map (el_opaque sc og) vis))"
    by (rule wf_rects_opaque[OF og]) (use vis well_formed in blast)
  have "wf_rects (subtract_many (rs_opaque_regions st) (concat (map (el_opaque sc og) vis)))"
    by (rule subtract_many_spec(2)[OF _ opq]) (use st in \<open>simp add: remembers_def\<close>)
  with new gone o show ?thesis by (simp add: plain_damage_def)
qed

lemma fresh_pixel:
  assumes og: "output_ok og" "p \<in> pixels og" and st: "remembers st R" "history_ok st R hist"
    and vis: "\<forall>e\<in>set vis. valid e"
    and later: "\<forall>new\<in>set vis. \<forall>old\<in>set R. el_id old = el_id new \<longrightarrow> later old new"
    and states: "presented states = el_id ` set vis"
    and p: "p \<notin> pixels_of (plain_damage sc og t (Some clear) st states vis)"
  shows "hist \<noteq> []" "(hist ! 0) p = scene_at paint vis p (background clear)"
    "n < length (rs_old_damage st) \<Longrightarrow> p \<notin> pixels_of (concat (take n (rs_old_damage st))) \<Longrightarrow>
       (hist ! 0) p = (hist ! n) p"
proof -
  have same: "\<not> output_changed st og t (Some clear)" using p og(2) by (auto simp: plain_damage_def)
  then obtain col where sz: "rs_size st = Some (rsize og)" and col: "rs_clear_color st = Some col"
    and ceq: "color_eq col clear"
    by (cases "rs_clear_color st") (auto simp: output_changed_def)
  have h: "hist \<noteq> []" "(hist ! 0) p = scene_at paint R p (background col)"
    "\<forall>n<length (rs_old_damage st). p \<notin> pixels_of (concat (take n (rs_old_damage st))) \<longrightarrow>
       (hist ! 0) p = (hist ! n) p"
    using history_okD[OF st(2) og(1) sz col] og(2) by blast+
  show "hist \<noteq> []" by (rule h(1))
  show "n < length (rs_old_damage st) \<Longrightarrow> p \<notin> pixels_of (concat (take n (rs_old_damage st))) \<Longrightarrow>
       (hist ! 0) p = (hist ! n) p" using h(3) by blast
  have R: "distinct (map el_id R)" "\<forall>e\<in>set R. valid e" "rs_elements st = remember_elements sc R"
    using st(1) by (simp_all add: remembers_def)
  have "scene_at paint vis p (background clear) = scene_at paint R p (background clear)"
    by (rule undamaged_scene[OF og R(1,2) vis later states])
      (use p same in \<open>simp_all add: plain_damage_def R(3)\<close>)
  with h(2) same_background[OF ceq] show "(hist ! 0) p = scene_at paint vis p (background clear)" by simp
qed

text \<open>The damage of a frame: all damage for the age on the output, cut into disjoint rectangles.\<close>

definition frame_result :: "fscale \<Rightarrow> transform \<Rightarrow> rect \<Rightarrow> color \<Rightarrow> rect list \<Rightarrow> rect list list \<Rightarrow> rect list \<Rightarrow>
    ('id, 'd) element list \<Rightarrow> 'id tracker \<Rightarrow> 'id tracker" where
  "frame_result sc' t og clear new old d vis tr =
     (let opq = concat (map (el_opaque sc' og) vis); st = tr_state tr; elements = remember_elements sc' vis
      in tr\<lparr>tr_damage := d, tr_opaque_regions := opq, tr_opaque_index := opaque_ranges sc' og 0 vis,
           tr_state := if d = [] then st\<lparr>rs_old_damage := old\<rparr>
             else \<lparr>rs_transform = Some t, rs_size = Some (rsize og), rs_elements = elements,
                   rs_effects_cache = filter (\<lambda>i. map_of elements i \<noteq> None) (rs_effects_cache st),
                   rs_old_damage = new # old, rs_opaque_regions = opq, rs_clear_color = Some clear\<rparr>\<rparr>)"

lemma damage_output_plain:
  assumes srt: "sort_ok srt" and og: "output_ok og" and st: "remembers (tr_state tr) R"
    and es: "\<forall>e\<in>set es. valid e \<and> \<not> el_framebuffer_effect e"
  defines "vis \<equiv> visible_elements sc og [] es"
  obtains states new dm old d where
    "new = plain_damage sc og t (Some clear) (tr_state tr) states vis" "presented states = el_id ` set vis"
    "age_damage age og new (rs_old_damage (tr_state tr)) = (dm, old)"
    "wf_rects new" "pixels_of dm \<inter> pixels og \<subseteq> pixels_of d" "wf_rects d" "disjoint_rects d"
    "shape_damage srt (clip_all og dm) = Some d"
    "\<exists>states'. damage_output_internal srt age es sc t og (Some clear) ws tr =
       Some (frame_result sc t og clear new old d vis tr, vis, states')"
proof -
  have wf: "\<forall>e\<in>set es. wf_element sc e \<and> \<not> el_framebuffer_effect e" using es well_formed by blast
  have opq: "wf_rects (rs_opaque_regions (tr_state tr))" using st by (simp add: remembers_def)
  let ?new = "\<lambda>states :: 'id render_states. plain_damage sc og t (Some clear) (tr_state tr) states vis"
  obtain s states where fd: "frame_damage (tr_state tr) es sc t og (Some clear) ws = Some (s,
      \<lparr>ef_damage = ?new states, ef_opaque = concat (map (el_opaque sc og) vis), ef_states = states\<rparr>)"
    and s: "sc_rendered s = vis" "sc_opaque_index s = opaque_ranges sc og 0 vis"
    and pr: "presented states = el_id ` set vis"
    using frame_damage_plain[OF og wf opq, of t "Some clear" ws] unfolding vis_def by blast
  obtain dm old where age: "age_damage age og (?new states) (rs_old_damage (tr_state tr)) = (dm, old)"
    by (cases "age_damage age og (?new states) (rs_old_damage (tr_state tr))")
  have vis: "\<forall>e\<in>set vis. valid e" using es visible_elements_set unfolding vis_def by blast
  have wfn: "wf_rects (?new states)" by (rule plain_damage_wf[OF og st vis])
  have wfd: "wf_rects dm"
    using age_damage_wf(1)[OF age output_okD(1)[OF og] wfn] st by (simp add: remembers_def)
  have box: "\<forall>r\<in>set (clip_all og dm). in_box 0 0 (rw og) (rh og) r"
    using clip_all_in_output[OF og wfd] by blast
  obtain d where d: "shape_damage srt (clip_all og dm) = Some d" "disjoint_rects d"
    and sub: "pixels_of dm \<inter> pixels og \<subseteq> pixels_of d" and ind: "\<forall>r\<in>set d. in_box 0 0 (rw og) (rh og) r"
    using shape_damage_result[OF srt output_okD(2)[OF og] box]
    unfolding clip_all_pixels(2)[OF output_okD(1)[OF og] wfd] by blast
  have wf_d: "wf_rects d" using ind in_output(1)[OF og] by (simp add: wf_rects_def)
  have res: "\<exists>states'. damage_output_internal srt age es sc t og (Some clear) ws tr =
       Some (frame_result sc t og clear (?new states) old d vis tr, vis, states')"
    using fd s age d(1) by (simp add: damage_output_internal_def frame_result_def Let_def)
  show thesis
    by (rule that[OF refl pr age wfn sub wf_d d(2,1) res])
qed

lemma frame_scene_visible:
  assumes "frame_ok valid later sc seen hist fr" "p \<in> pixels (frame_area fr)"
  shows "frame_scene paint background fr p =
    scene_at paint (visible_elements sc (frame_area fr) [] (fr_elements fr)) p (background (fr_clear fr))"
  unfolding frame_scene_def
  by (rule scene_visible[OF _ assms(2)]) (use assms(1) in \<open>simp_all add: frame_ok_def\<close>)

text \<open>A pixel outside the damage for the age of the buffer is right both in the buffer and in the last frame.\<close>

lemma outside_damage:
  assumes fr: "frame_ok valid later sc seen hist fr" and p: "p \<in> pixels (frame_area fr)"
    and st: "remembers st R" "history_ok st R hist" "set R \<subseteq> seen"
    and vis: "vis = visible_elements sc (frame_area fr) [] (fr_elements fr)"
    and states: "presented states = el_id ` set vis"
    and new: "new = plain_damage sc (frame_area fr) t (Some (fr_clear fr)) st states vis"
    and age: "age_damage (fr_age fr) (frame_area fr) new (rs_old_damage st) = (dm, old)"
    and out: "p \<notin> pixels_of dm"
  shows "hist \<noteq> []" "(hist ! 0) p = frame_scene paint background fr p"
    "fr_buffer fr p = frame_scene paint background fr p"
proof -
  have og: "output_ok (frame_area fr)" and
    el: "\<forall>e\<in>set (fr_elements fr). valid e \<and> (\<forall>old\<in>seen. el_id old = el_id e \<longrightarrow> later old e)"
    using fr by (auto simp: frame_ok_def)
  have vv: "\<forall>e\<in>set vis. valid e"
    and vl: "\<forall>new\<in>set vis. \<forall>old\<in>set R. el_id old = el_id new \<longrightarrow> later old new"
    using el visible_elements_set st(3) unfolding vis by blast+
  note a = age_damage_outside[OF age p out]
  have pn: "p \<notin> pixels_of (plain_damage sc (frame_area fr) t (Some (fr_clear fr)) st states vis)"
    using a(3) by (simp add: new)
  note f = fresh_pixel[OF og p st(1,2) vv vl states pn]
  show "hist \<noteq> []" by (rule f(1))
  show h: "(hist ! 0) p = frame_scene paint background fr p"
    using f(2) frame_scene_visible[OF fr p] by (simp add: vis)
  have len: "fr_age fr \<le> length hist" using a(2) st(2) by (simp add: history_ok_def)
  then have "fr_buffer fr p = (hist ! (fr_age fr - 1)) p" using fr a(1) p by (simp add: frame_ok_def)
  also have "\<dots> = (hist ! 0) p" by (rule f(3)[symmetric]) (use a in auto)
  finally show "fr_buffer fr p = frame_scene paint background fr p" using h by simp
qed

lemma history_extended:
  assumes fr: "frame_ok valid later sc seen hist fr"
    and st: "remembers st R" "history_ok st R hist" "set R \<subseteq> seen"
    and vis: "vis = visible_elements sc (frame_area fr) [] (fr_elements fr)"
    and states: "presented states = el_id ` set vis"
    and new: "new = plain_damage sc (frame_area fr) t (Some (fr_clear fr)) st states vis"
    and age: "age_damage (fr_age fr) (frame_area fr) new (rs_old_damage st) = (dm, old)"
    and shown: "\<forall>p\<in>pixels (frame_area fr). shown p = frame_scene paint background fr p"
    and st': "rs_old_damage st' = new # old" "rs_size st' = Some (rsize (frame_area fr))"
      "rs_clear_color st' = Some (fr_clear fr)"
  shows "history_ok st' vis (shown # hist)"
proof -
  have og: "output_ok (frame_area fr)" and
    el: "\<forall>e\<in>set (fr_elements fr). valid e \<and> (\<forall>old\<in>seen. el_id old = el_id e \<longrightarrow> later old e)"
    using fr by (auto simp: frame_ok_def)
  have vv: "\<forall>e\<in>set vis. valid e"
    and vl: "\<forall>new\<in>set vis. \<forall>old\<in>set R. el_id old = el_id new \<longrightarrow> later old new"
    using el visible_elements_set st(3) unfolding vis by blast+
  obtain k where k: "old = take k (rs_old_damage st)" using age_damage_prefix[OF age] by blast
  have len: "length old \<le> length (rs_old_damage st)" "length (rs_old_damage st) \<le> length hist"
    using st(2) by (simp_all add: k history_ok_def)
  have older: "shown p = ((shown # hist) ! n) p"
    if p: "p \<in> pixels (frame_area fr)" and n: "n < length (new # old)" "p \<notin> pixels_of (concat (take n (new # old)))" for p n
  proof (cases n)
    case 0
    then show ?thesis by simp
  next
    case (Suc m)
    with n have m: "m < length old" "p \<notin> pixels_of new" "p \<notin> pixels_of (concat (take m old))" by simp_all
    have pn: "p \<notin> pixels_of (plain_damage sc (frame_area fr) t (Some (fr_clear fr)) st states vis)"
      using m(2) by (simp add: new)
    note f = fresh_pixel[OF og p st(1,2) vv vl states pn]
    have "take m old = take m (rs_old_damage st)" using m(1) by (simp add: k min_def split: if_splits)
    then have "(hist ! 0) p = (hist ! m) p" using f(3)[of m] m(1,3) len by simp
    moreover have "shown p = (hist ! 0) p" using shown p f(2) frame_scene_visible[OF fr p] by (simp add: vis)
    ultimately show ?thesis by (simp add: Suc)
  qed
  have same: "og' = frame_area fr" if "output_ok og'" "rsize og' = rsize (frame_area fr)" for og'
    using that og by (simp add: output_ok_def rect.equality)
  show ?thesis
    unfolding history_ok_def st'
  proof (intro conjI allI impI ballI)
    show "length (new # old) \<le> length (shown # hist)" using len by simp
    fix og' col p
    assume a: "output_ok og' \<and> Some (rsize (frame_area fr)) = Some (rsize og') \<and> Some (fr_clear fr) = Some col"
    show "shown # hist \<noteq> []" by simp
    assume "p \<in> pixels og'"
    moreover have "og' = frame_area fr" by (rule same) (use a in simp_all)
    ultimately have p: "p \<in> pixels (frame_area fr)" by simp
    show "((shown # hist) ! 0) p = scene_at paint vis p (background col)"
      using shown p frame_scene_visible[OF fr p] a by (simp add: vis)
    fix n
    assume "n < length (new # old)" "p \<notin> pixels_of (concat (take n (new # old)))"
    then show "((shown # hist) ! 0) p = ((shown # hist) ! n) p" using older[OF p] by simp
  qed
qed

text \<open>What holds between frames.\<close>

definition tracker_inv :: "'id tracker \<Rightarrow> (pixel \<Rightarrow> 'c) list \<Rightarrow> ('id, 'd) element set \<Rightarrow> bool" where
  "tracker_inv tr hist seen \<longleftrightarrow>
     (\<exists>R. remembers (tr_state tr) R \<and> history_ok (tr_state tr) R hist \<and> set R \<subseteq> seen)"

lemma tracker_inv_default: "tr_state tr = renderer_state_default \<Longrightarrow> tracker_inv tr hist seen"
  unfolding tracker_inv_def
  by (intro exI[of _ "[]"]) (simp add: remembers_def history_ok_def renderer_state_default_def remember_elements_def)

text \<open>What a frame gives: an error resets the state, otherwise the scene is what is shown.\<close>

definition frame_outcome :: "'id tracker \<Rightarrow> (pixel \<Rightarrow> 'c) list \<Rightarrow> ('id, 'd) element set \<Rightarrow> ('id, 'd, 'c) frame \<Rightarrow>
    track_error + ('id, 'd) render_result \<Rightarrow> bool" where
  "frame_outcome tr' hist seen fr r \<longleftrightarrow>
     (case r of
        Inl err \<Rightarrow> err = Rendering_error \<and> (\<exists>cmds. fr_fails fr cmds) \<and> tr_state tr' = renderer_state_default
      | Inr res \<Rightarrow>
          (let hist' = presented_frames paint background (fr_buffer fr) hist res
           in tracker_inv tr' hist' (seen \<union> set (fr_elements fr)) \<and>
              (\<forall>p\<in>pixels (frame_area fr). hist' \<noteq> [] \<and> (hist' ! 0) p = frame_scene paint background fr p)))"

lemma frame_outcome_shown:
  assumes "frame_outcome tr' hist seen fr r"
  shows "case r of
       Inl err \<Rightarrow> err = Rendering_error \<and> (\<exists>cmds. fr_fails fr cmds)
     | Inr res \<Rightarrow> (\<forall>p\<in>pixels (frame_area fr).
         presented_frames paint background (fr_buffer fr) hist res \<noteq> [] \<and>
         (presented_frames paint background (fr_buffer fr) hist res ! 0) p = frame_scene paint background fr p)"
  using assms by (cases r) (simp_all add: frame_outcome_def Let_def)

lemma frame_without_damage:
  assumes fr: "frame_ok valid later sc seen hist fr"
    and st: "remembers (tr_state tr) R" "history_ok (tr_state tr) R hist" "set R \<subseteq> seen"
    and tr': "tr_state tr' = (tr_state tr)\<lparr>rs_old_damage := old\<rparr>"
    and old: "old = take k (rs_old_damage (tr_state tr))"
    and right: "\<And>p. p \<in> pixels (frame_area fr) \<Longrightarrow> hist \<noteq> [] \<and> (hist ! 0) p = frame_scene paint background fr p"
  shows "frame_outcome tr' hist seen fr (Inr (Render_result [] None states))"
proof -
  have "remembers (tr_state tr') R"
    using st(1) in_set_takeD[of _ k "rs_old_damage (tr_state tr)"]
    by (auto simp: remembers_def tr' old wf_rects_concat)
  moreover have "history_ok (tr_state tr') R hist"
    unfolding tr' by (rule history_ok_take[OF st(2) old])
  ultimately have "tracker_inv tr' hist (seen \<union> set (fr_elements fr))"
    using st(3) unfolding tracker_inv_def by blast
  with right show ?thesis by (simp add: frame_outcome_def)
qed

text \<open>A frame as the tracker computes it: its damage, its commands, and the state it leaves.\<close>

definition drawn_state :: "transform \<Rightarrow> rect \<Rightarrow> color \<Rightarrow> rect list \<Rightarrow> rect list list \<Rightarrow> ('id, 'd) element list \<Rightarrow>
    'id renderer_state \<Rightarrow> bool" where
  "drawn_state t og clear new old vis st \<longleftrightarrow>
     rs_transform st = Some t \<and> rs_size st = Some (rsize og) \<and> rs_elements st = remember_elements sc vis \<and>
     rs_old_damage st = new # old \<and> rs_opaque_regions st = concat (map (el_opaque sc og) vis) \<and>
     rs_clear_color st = Some clear"

lemma render_frame_form:
  assumes srt: "sort_ok srt" and fr: "frame_ok valid later sc seen hist fr" and st: "remembers (tr_state tr) R"
    and mode: "mode_source_get (fr_mode fr) = Some (z, sc, t)"
  defines "og \<equiv> frame_area fr"
  defines "vis \<equiv> visible_elements sc og [] (fr_elements fr)"
  obtains states new dm old d tr1 states' where
    "new = plain_damage sc og (transform_invert t) (Some (fr_clear fr)) (tr_state tr) states vis"
    "presented states = el_id ` set vis" "wf_rects new"
    "age_damage (fr_age fr) og new (rs_old_damage (tr_state tr)) = (dm, old)"
    "pixels_of dm \<inter> pixels og \<subseteq> pixels_of d" "shape_damage srt (clip_all og dm) = Some d"
    "d = [] \<Longrightarrow> render_frame srt tr fr = Some (tr1, Inr (Render_result [] None states')) \<and>
       tr_state tr1 = (tr_state tr)\<lparr>rs_old_damage := old\<rparr>"
    "d \<noteq> [] \<Longrightarrow> \<exists>cmds tr2.
       (\<forall>buf p. run_cmds paint background cmds buf p =
          (if p \<in> pixels_of d then scene_at paint vis p (background (fr_clear fr)) else buf p)) \<and>
       drawn_state (transform_invert t) og (fr_clear fr) new old vis (tr_state tr2) \<and>
       render_frame srt tr fr =
         (if fr_fails fr cmds then Some (tr1\<lparr>tr_state := renderer_state_default\<rparr>, Inl Rendering_error)
          else Some (tr2, Inr (Render_result cmds (Some d) states')))"
proof -
  let ?tr = "tr\<lparr>tr_mode := fr_mode fr\<rparr>" let ?es = "fr_elements fr"
  have area: "og = output_geometry z (transform_invert t)" using mode by (simp add: og_def frame_area_def)
  have og: "output_ok og" and es: "\<forall>e\<in>set ?es. valid e \<and> \<not> el_framebuffer_effect e"
    using fr by (auto simp: frame_ok_def og_def)
  have st': "remembers (tr_state ?tr) R" using st by simp
  obtain states new dm old d where
    new: "new = plain_damage sc og (transform_invert t) (Some (fr_clear fr)) (tr_state ?tr) states vis"
    and pr: "presented states = el_id ` set vis"
    and age: "age_damage (fr_age fr) og new (rs_old_damage (tr_state ?tr)) = (dm, old)"
    and d: "wf_rects new" "pixels_of dm \<inter> pixels og \<subseteq> pixels_of d" "wf_rects d" "disjoint_rects d"
    and shape: "shape_damage srt (clip_all og dm) = Some d"
    and "\<exists>states'. damage_output_internal srt (fr_age fr) ?es sc (transform_invert t) og (Some (fr_clear fr))
       (fr_with_states fr) ?tr = Some (frame_result sc (transform_invert t) og (fr_clear fr) new old d vis ?tr, vis, states')"
    unfolding vis_def by (rule damage_output_plain[OF srt og st' es])
  then obtain states' where res: "damage_output_internal srt (fr_age fr) ?es sc (transform_invert t) og
       (Some (fr_clear fr)) (fr_with_states fr) ?tr
     = Some (frame_result sc (transform_invert t) og (fr_clear fr) new old d vis ?tr, vis, states')"
    by blast
  let ?tr1 = "frame_result sc (transform_invert t) og (fr_clear fr) new old d vis ?tr"
  let ?states = "case fr_with_states fr of None \<Rightarrow> states' | Some ws \<Rightarrow> ws"
  have tr1: "tr_damage ?tr1 = d" "tr_mode ?tr1 = fr_mode fr"
    "tr_opaque_regions ?tr1 = concat (map (el_opaque sc og) vis)" "tr_opaque_index ?tr1 = opaque_ranges sc og 0 vis"
    by (simp_all add: frame_result_def Let_def)
  have render: "render_frame srt tr fr =
      (if d = [] then Some (?tr1, Inr (Render_result [] None ?states))
       else render_output_internal (fr_fails fr) ?tr1 vis (fr_clear fr) ?states)"
    using res mode tr1(1) by (simp add: render_frame_def render_output_def area Let_def)
  have vv: "\<forall>e\<in>set vis. valid e" using es visible_elements_set unfolding vis_def by blast
  obtain cmds cache where cmds: "render_commands z (transform_invert t) sc ?tr1 vis (fr_clear fr) ?states = Some (cmds, cache)"
    and run: "\<And>buf p. run_cmds paint background cmds buf p =
      (if p \<in> pixels_of d then scene_at paint vis p (background (fr_clear fr)) else buf p)"
    using render_commands_paint[OF og _ _ vv tr1(3,4), unfolded tr1(1), OF d(3,4)] by blast
  let ?tr2 = "?tr1\<lparr>tr_state := (tr_state ?tr1)\<lparr>rs_effects_cache := cache\<rparr>\<rparr>"
  have internal: "render_output_internal (fr_fails fr) ?tr1 vis (fr_clear fr) ?states =
      (if fr_fails fr cmds then Some (?tr1\<lparr>tr_state := renderer_state_default\<rparr>, Inl Rendering_error)
       else Some (?tr2, Inr (Render_result cmds (Some d) ?states)))"
    using cmds mode by (simp add: render_output_internal_def tr1(1,2))
  show thesis
  proof (rule that[OF _ pr d(1) _ d(2) shape])
    show "new = plain_damage sc og (transform_invert t) (Some (fr_clear fr)) (tr_state tr) states vis"
      using new by simp
    show "age_damage (fr_age fr) og new (rs_old_damage (tr_state tr)) = (dm, old)" using age by simp
    show "render_frame srt tr fr = Some (?tr1, Inr (Render_result [] None ?states)) \<and>
       tr_state ?tr1 = (tr_state tr)\<lparr>rs_old_damage := old\<rparr>" if "d = []"
      using that render by (simp add: frame_result_def Let_def)
    have "drawn_state (transform_invert t) og (fr_clear fr) new old vis (tr_state ?tr2)" if "d \<noteq> []"
      using that by (simp add: drawn_state_def frame_result_def Let_def)
    then show "\<exists>cmds tr2.
       (\<forall>buf p. run_cmds paint background cmds buf p =
          (if p \<in> pixels_of d then scene_at paint vis p (background (fr_clear fr)) else buf p)) \<and>
       drawn_state (transform_invert t) og (fr_clear fr) new old vis (tr_state tr2) \<and>
       render_frame srt tr fr =
         (if fr_fails fr cmds then Some (?tr1\<lparr>tr_state := renderer_state_default\<rparr>, Inl Rendering_error)
          else Some (tr2, Inr (Render_result cmds (Some d) ?states)))" if "d \<noteq> []"
      using that run render internal by (intro exI[of _ cmds] exI[of _ ?tr2]) simp
  qed
qed

lemma drawn_remembers:
  assumes "frame_ok valid later sc seen hist fr" "remembers st R" "wf_rects new"
    and "age_damage (fr_age fr) (frame_area fr) new (rs_old_damage st) = (dm, old)"
    and st': "drawn_state t (frame_area fr) clear new old vis st'"
    and vis: "vis = visible_elements sc (frame_area fr) [] (fr_elements fr)"
  shows "remembers st' vis"
proof -
  have og: "output_ok (frame_area fr)" and es: "\<forall>e\<in>set (fr_elements fr). valid e"
    and dist: "distinct (map el_id (fr_elements fr))" using assms(1) by (auto simp: frame_ok_def)
  have vv: "\<forall>e\<in>set vis. valid e" using es visible_elements_set unfolding vis by blast
  have "distinct (map el_id vis)" unfolding vis by (rule visible_elements_distinct[OF dist])
  moreover have "wf_rects (concat (map (el_opaque sc (frame_area fr)) vis))"
    by (rule wf_rects_opaque[OF og]) (use vv well_formed in blast)
  moreover have "wf_rects (concat old)"
    by (rule age_damage_wf(2)[OF assms(4) output_okD(1)[OF og] assms(3)])
      (use assms(2) in \<open>simp add: remembers_def\<close>)
  ultimately show ?thesis using vv st' assms(3) by (simp add: remembers_def drawn_state_def)
qed

lemma frame_step:
  assumes srt: "sort_ok srt" and fr: "frame_ok valid later sc seen hist fr" and inv: "tracker_inv tr hist seen"
  shows "\<exists>tr' r. render_frame srt tr fr = Some (tr', r) \<and> frame_outcome tr' hist seen fr r"
proof -
  let ?og = "frame_area fr"
  define vis where "vis = visible_elements sc ?og [] (fr_elements fr)"
  obtain R where st: "remembers (tr_state tr) R" "history_ok (tr_state tr) R hist" "set R \<subseteq> seen"
    using inv by (auto simp: tracker_inv_def)
  obtain z t where mode: "mode_source_get (fr_mode fr) = Some (z, sc, t)" using fr by (auto simp: frame_ok_def)
  show ?thesis
  proof (rule render_frame_form[OF srt fr st(1) mode], fold vis_def)
    fix states new dm old d tr1 states'
    assume new: "new = plain_damage sc ?og (transform_invert t) (Some (fr_clear fr)) (tr_state tr) states vis"
      and pr: "presented states = el_id ` set vis" and wf: "wf_rects new"
      and age: "age_damage (fr_age fr) ?og new (rs_old_damage (tr_state tr)) = (dm, old)"
      and sub: "pixels_of dm \<inter> pixels ?og \<subseteq> pixels_of d" and "shape_damage srt (clip_all ?og dm) = Some d"
      and quiet: "d = [] \<Longrightarrow> render_frame srt tr fr = Some (tr1, Inr (Render_result [] None states')) \<and>
         tr_state tr1 = (tr_state tr)\<lparr>rs_old_damage := old\<rparr>"
      and drawn: "d \<noteq> [] \<Longrightarrow> \<exists>cmds tr2.
         (\<forall>buf p. run_cmds paint background cmds buf p =
            (if p \<in> pixels_of d then scene_at paint vis p (background (fr_clear fr)) else buf p)) \<and>
         drawn_state (transform_invert t) ?og (fr_clear fr) new old vis (tr_state tr2) \<and>
         render_frame srt tr fr =
           (if fr_fails fr cmds then Some (tr1\<lparr>tr_state := renderer_state_default\<rparr>, Inl Rendering_error)
            else Some (tr2, Inr (Render_result cmds (Some d) states')))"
    note outside = outside_damage[OF fr _ st vis_def pr new age]
    have dm: "p \<notin> pixels_of dm" if "p \<in> pixels ?og" "p \<notin> pixels_of d" for p using that sub by blast
    show ?thesis
    proof (cases "d = []")
      case True
      obtain k where k: "old = take k (rs_old_damage (tr_state tr))" using age_damage_prefix[OF age] by blast
      have "frame_outcome tr1 hist seen fr (Inr (Render_result [] None states'))"
        by (rule frame_without_damage[OF fr st _ k])
          (use True quiet outside(1,2) dm in auto)
      then show ?thesis using quiet[OF True] by blast
    next
      case False
      obtain cmds tr2 where run: "\<forall>buf p. run_cmds paint background cmds buf p =
          (if p \<in> pixels_of d then scene_at paint vis p (background (fr_clear fr)) else buf p)"
        and tr2: "drawn_state (transform_invert t) ?og (fr_clear fr) new old vis (tr_state tr2)"
        and render: "render_frame srt tr fr =
           (if fr_fails fr cmds then Some (tr1\<lparr>tr_state := renderer_state_default\<rparr>, Inl Rendering_error)
            else Some (tr2, Inr (Render_result cmds (Some d) states')))"
        using drawn[OF False] by blast
      have shown: "\<forall>p\<in>pixels ?og. run_cmds paint background cmds (fr_buffer fr) p = frame_scene paint background fr p"
      proof
        fix p assume p: "p \<in> pixels ?og"
        show "run_cmds paint background cmds (fr_buffer fr) p = frame_scene paint background fr p"
          using run[rule_format, of "fr_buffer fr" p] frame_scene_visible[OF fr p] outside(3)[OF p] dm[OF p]
          by (cases "p \<in> pixels_of d") (simp_all add: vis_def)
      qed
      have "remembers (tr_state tr2) vis" by (rule drawn_remembers[OF fr st(1) wf age tr2 vis_def])
      moreover have "history_ok (tr_state tr2) vis (run_cmds paint background cmds (fr_buffer fr) # hist)"
        by (rule history_extended[OF fr st vis_def pr new age shown]) (use tr2 in \<open>simp_all add: drawn_state_def\<close>)
      moreover have "set vis \<subseteq> seen \<union> set (fr_elements fr)" unfolding vis_def using visible_elements_set by blast
      ultimately have "frame_outcome tr2 hist seen fr (Inr (Render_result cmds (Some d) states'))"
        using shown unfolding frame_outcome_def tracker_inv_def by auto
      moreover have "frame_outcome (tr1\<lparr>tr_state := renderer_state_default\<rparr>) hist seen fr (Inl Rendering_error)"
        if "fr_fails fr cmds" using that by (auto simp: frame_outcome_def)
      ultimately show ?thesis using render by simp
    qed
  qed
qed

lemma run_inv:
  assumes "sort_ok srt" "tracker_run paint background valid later sc srt tr hist seen"
  shows "tracker_inv tr hist seen"
  using assms(2)
proof induction
  case (run_start m)
  show ?case by (rule tracker_inv_default) (simp add: tracker_from_mode_def)
next
  case (run_frame tr hist seen fr tr' res)
  then show ?case using frame_step[OF assms(1) run_frame.hyps(2) run_frame.IH]
    by (auto simp: frame_outcome_def Let_def)
next
  case (run_failed tr hist seen fr tr' err)
  then show ?case using frame_step[OF assms(1) run_failed.hyps(2) run_failed.IH]
    by (auto simp: frame_outcome_def intro: tracker_inv_default)
qed

text \<open>Rendering the same frame once more.\<close>

definition quiet :: "('id, 'd) element \<Rightarrow> bool" where
  "quiet e \<longleftrightarrow> el_damage_since e sc (Some (el_current_commit e)) = [] \<and> looks_same sc e e"

lemma unchanged_damage:
  assumes vis: "\<forall>e\<in>set vis. quiet e" "distinct (map el_id vis)" and pr: "presented states = el_id ` set vis"
    and st: "drawn_state t og clear new old vis st" and clear: "color_eq clear clear"
    and opq: "subtract_rects_many_in_place (rs_opaque_regions st) (rs_opaque_regions st) = Some []"
  shows "plain_damage sc og t (Some clear) st states vis = []"
proof -
  let ?prev = "remember_elements sc vis"
  have prev: "rs_elements st = ?prev" using st by (simp add: drawn_state_def)
  have "element_damage sc og (map_of ?prev (el_id (vis ! z))) z (vis ! z) = []" if z: "z < length vis" for z
  proof -
    define s where "s = \<lparr>last_commit = el_current_commit (vis ! z), last_instances = [element_instance sc z (vis ! z)]\<rparr>"
    have "map_of ?prev (el_id (vis ! z)) = Some s"
      unfolding remember_lookup[OF vis(2)] s_def using z by blast
    moreover have "quiet (vis ! z)" using vis(1) nth_mem[OF z] by blast
    ultimately show ?thesis
      by (simp add: element_damage_def quiet_def s_def instance_matches_remembered)
  qed
  then have no_new: "frame_new_damage sc og ?prev 0 vis = []"
    by (auto simp: frame_new_damage_def in_set_enumerate_eq)
  have "fst x \<in> presented states" if "x \<in> set ?prev" for x
    using that unfolding remember_elements_distinct[OF vis(2)] pr
    by (auto simp: remembered_def in_set_enumerate_eq)
  then have "elements_gone states ?prev = []"
    by (fastforce simp: elements_gone_def filter_empty_conv presented_iff split: option.splits)
  moreover have "\<not> output_changed st og t (Some clear)"
    using st clear by (simp add: output_changed_def drawn_state_def)
  moreover have "subtract_many (rs_opaque_regions st) (concat (map (el_opaque sc og) vis)) = []"
    using opq st by (simp add: subtract_many_def drawn_state_def)
  ultimately show ?thesis using no_new by (simp add: plain_damage_def prev gone_damage_def)
qed

lemma frame_ok_again:
  "frame_ok valid later sc seen hist fr \<Longrightarrow> frame_ok valid later sc {} [] (fr\<lparr>fr_age := age, fr_buffer := b\<rparr>)"
  by (auto simp: frame_ok_def frame_area_def)

lemma unchanged_frame:
  assumes srt: "sort_ok srt" and fr: "frame_ok valid later sc seen hist fr" and inv: "tracker_inv tr hist seen"
    and first: "render_frame srt tr fr = Some (tr', Inr (Render_result cmds (Some d) states))"
    and still: "\<forall>e\<in>set (fr_elements fr). quiet e" "color_eq (fr_clear fr) (fr_clear fr)"
    and opq: "subtract_rects_many_in_place (rs_opaque_regions (tr_state tr')) (rs_opaque_regions (tr_state tr')) = Some []"
  shows "\<exists>tr'' states'. render_frame srt tr' (fr\<lparr>fr_age := 1, fr_buffer := b\<rparr>) = Some (tr'', Inr (Render_result [] None states'))"
proof -
  let ?og = "frame_area fr" let ?fr = "fr\<lparr>fr_age := 1, fr_buffer := b\<rparr>"
  define vis where "vis = visible_elements sc ?og [] (fr_elements fr)"
  obtain R where st: "remembers (tr_state tr) R" using inv by (auto simp: tracker_inv_def)
  obtain z t where mode: "mode_source_get (fr_mode fr) = Some (z, sc, t)" using fr by (auto simp: frame_ok_def)
  have vis: "\<forall>e\<in>set vis. quiet e" "distinct (map el_id vis)"
    using still(1) visible_elements_set visible_elements_distinct fr unfolding vis_def frame_ok_def by blast+
  obtain new old where tr': "drawn_state (transform_invert t) ?og (fr_clear fr) new old vis (tr_state tr')"
    "remembers (tr_state tr') vis"
  proof (rule render_frame_form[OF srt fr st mode], fold vis_def, goal_cases)
    case (1 states new dm old d tr1 states')
    then show ?case using first drawn_remembers[OF fr st _ _ _ vis_def]
      by (cases "d = []") (auto split: if_splits)
  qed
  have area: "frame_area (fr\<lparr>fr_age := a, fr_buffer := b\<rparr>) = ?og" for a by (simp add: frame_area_def)
  show ?thesis
  proof (rule render_frame_form[OF srt frame_ok_again[OF fr] tr'(2), of b 1 z t], goal_cases)
    case 1
    then show ?case using mode by simp
  next
    case (2 states new' dm old' d tr1 states')
    have "new' = []"
      using 2(1,2) unchanged_damage[OF vis _ tr'(1) still(2) opq, of states] by (simp add: area vis_def)
    then have "dm = []" using 2(4) tr'(1) by (simp add: age_damage_def drawn_state_def Let_def)
    then have "d = []" using 2(6) by (simp add: shape_damage_nil)
    then show ?case using 2(7) by blast
  qed
qed

end

end
