(* ===== verification/Solid.thy ===== *)
theory Solid
  imports Tracker_Run
begin

text \<open>
  Elements of one colour: \<open>src/backend/renderer/element/solid.rs\<close> and
  \<open>src/backend/renderer/color.rs\<close>. Whatever the renderer does to blend, a colour drawn on a pixel
  is the colour over what was there and an opaque colour hides it, so a pixel is the list of
  colours that show on it. With that meaning solid elements meet the locale of \<open>Painting\<close>, and
  the buffer of a solid colour counts commits the way the tracker relies on.
\<close>

section \<open>Colours\<close>

definition color_default :: color where
  "color_default = \<lparr>c_r = Fl_num 0, c_g = Fl_num 0, c_b = Fl_num 0, c_a = Fl_num 0\<rparr>"

definition color_is_opaque :: "color \<Rightarrow> bool" where
  "color_is_opaque c = fl_eq (c_a c) (Fl_num 1)"

definition color_mul :: "color \<Rightarrow> fl \<Rightarrow> color" where
  "color_mul c k = \<lparr>c_r = fl_mul round32 (c_r c) k, c_g = fl_mul round32 (c_g c) k,
     c_b = fl_mul round32 (c_b c) k, c_a = fl_mul round32 (c_a c) k\<rparr>"

section \<open>The buffer\<close>

record 'id solid_buffer =
  sb_id :: 'id
  sb_size :: sz
  sb_commit :: commit_counter
  sb_color :: color

definition solid_buffer_new :: "'id \<Rightarrow> sz \<Rightarrow> color \<Rightarrow> 'id solid_buffer" where
  "solid_buffer_new i z col = \<lparr>sb_id = i, sb_size = z, sb_commit = counter_default, sb_color = col\<rparr>"

definition solid_buffer_default :: "'id \<Rightarrow> 'id solid_buffer" where
  "solid_buffer_default i = solid_buffer_new i (size_new 0 0) color_default"

definition solid_resize :: "sz \<Rightarrow> 'id solid_buffer \<Rightarrow> 'id solid_buffer" where
  "solid_resize z b =
     (if z \<noteq> sb_size b then b\<lparr>sb_size := z, sb_commit := cc_increment (sb_commit b)\<rparr> else b)"

definition solid_set_color :: "color \<Rightarrow> 'id solid_buffer \<Rightarrow> 'id solid_buffer" where
  "solid_set_color col b =
     (if \<not> color_eq col (sb_color b) then b\<lparr>sb_color := col, sb_commit := cc_increment (sb_commit b)\<rparr> else b)"

definition solid_update :: "sz \<Rightarrow> color \<Rightarrow> 'id solid_buffer \<Rightarrow> 'id solid_buffer" where
  "solid_update z col b =
     (if z \<noteq> sb_size b \<or> \<not> color_eq col (sb_color b)
      then b\<lparr>sb_size := z, sb_color := col, sb_commit := cc_increment (sb_commit b)\<rparr> else b)"

section \<open>The element\<close>

text \<open>The scale of an element may differ on the two axes.\<close>

definition size_to_physical_round :: "sz \<Rightarrow> fscale \<Rightarrow> sz" where
  "size_to_physical_round z s =
     \<lparr>sw = fl_to_i32 (fl_round (fl_mul round64 (i32_to_f64 (sw z)) (fst s))),
      sh = fl_to_i32 (fl_round (fl_mul round64 (i32_to_f64 (sh z)) (snd s)))\<rparr>"

text \<open>The source goes through the logical space at scale one; the transform \<open>Normal\<close> keeps it.\<close>

definition solid_element_new :: "'id \<Rightarrow> rect \<Rightarrow> commit_counter \<Rightarrow> color \<Rightarrow> ('id, color) element" where
  "solid_element_new i geometry commit col =
     (let src = frect_upscale (frect_downscale (rect_to_f64 (rect_from_size (rsize geometry))) (Fl_num 1)) (Fl_num 1);
          opaque = (if color_is_opaque col then [rect_from_size (rsize geometry)] else [])
      in \<lparr>el_id = i, el_current_commit = commit, el_src = src, el_transform = Normal,
          el_geometry = (\<lambda>_. geometry),
          el_damage_since = (\<lambda>_. default_damage_since commit (rsize geometry)),
          el_opaque_regions = (\<lambda>_. opaque), el_alpha = c_a col, el_framebuffer_effect = False, el_draw = col\<rparr>)"

definition solid_from_buffer :: "'id solid_buffer \<Rightarrow> point \<Rightarrow> fscale \<Rightarrow> fl \<Rightarrow> ('id, color) element" where
  "solid_from_buffer b location s alpha =
     (let geo = rect_new location (size_to_physical_round (sb_size b) s)
      in solid_element_new (sb_id b) geo (sb_commit b) (color_mul (sb_color b) alpha))"

definition solid_render_elements :: "'id solid_buffer \<Rightarrow> point \<Rightarrow> fscale \<Rightarrow> fl \<Rightarrow> ('id, color) element list" where
  "solid_render_elements b location s alpha = [solid_from_buffer b location s alpha]"

lemma solid_element_sel [simp]:
  "el_id (solid_element_new i g k col) = i" "el_current_commit (solid_element_new i g k col) = k"
  "el_geometry (solid_element_new i g k col) = (\<lambda>_. g)" "el_draw (solid_element_new i g k col) = col"
  "el_damage_since (solid_element_new i g k col) = (\<lambda>_. default_damage_since k (rsize g))"
  "el_opaque_regions (solid_element_new i g k col) =
     (\<lambda>_. if color_is_opaque col then [rect_from_size (rsize g)] else [])"
  "el_framebuffer_effect (solid_element_new i g k col) \<longleftrightarrow> False"
  by (simp_all add: solid_element_new_def Let_def)

section \<open>Painting\<close>

text \<open>\<open>draw_solid\<close> on the colours that show on a pixel, topmost first.\<close>

definition draw_solid :: "color \<Rightarrow> color list \<Rightarrow> color list" where
  "draw_solid col below = (if color_is_opaque col then [col] else col # below)"

definition solid_paint :: "fscale \<Rightarrow> ('id, color) element \<Rightarrow> pixel \<Rightarrow> color list \<Rightarrow> color list" where
  "solid_paint s e p below = (if p \<in> pixels (el_geometry e s) then draw_solid (el_draw e) below else below)"

definition solid_background :: "color \<Rightarrow> color list" where
  "solid_background col = [col]"

definition solid_valid :: "('id, color) element \<Rightarrow> bool" where
  "solid_valid e \<longleftrightarrow> (\<exists>i g k col. e = solid_element_new i g k col \<and> wf_rect g)"

text \<open>What \<open>SolidColorRenderElement::new\<close> asks of its caller: a new colour comes with a new commit.\<close>

definition solid_later :: "('id, color) element \<Rightarrow> ('id, color) element \<Rightarrow> bool" where
  "solid_later old new \<longleftrightarrow> (el_current_commit new = el_current_commit old \<longrightarrow> el_draw new = el_draw old)"

lemma fl_eq_eq: "fl_eq a b \<Longrightarrow> a = b"
  by (cases a; cases b) auto

lemma color_eq_eq: "color_eq a b \<Longrightarrow> a = b"
  by (auto simp: color_eq_def intro!: color.equality dest: fl_eq_eq)

lemma shift_from_size: "wf_rect g \<Longrightarrow> rect_shift (rloc g) (rect_from_size (rsize g)) = g"
  by (auto simp: rect_shift_def rect_from_size_def point_add_def wf_rect_def wf_point_def range_simps
      intro!: rect.equality point.equality)

interpretation solid: painted_elements "solid_paint s" solid_background solid_valid solid_later s
proof
  fix e :: "('a, color) element"
  assume "solid_valid e"
  then obtain i g k col where e: "e = solid_element_new i g k col" "wf_rect g" by (auto simp: solid_valid_def)
  have "wf_rect (rect_from_size (rsize g))"
    using e(2) by (simp add: wf_rect_def wf_point_def rect_from_size_def point_new_def)
  with e show "wf_element s e" by (simp add: wf_element_def default_damage_since_def)
next
  fix e :: "('a, color) element" and p c
  assume "p \<notin> pixels (el_geometry e s)"
  then show "solid_paint s e p c = c" by (simp add: solid_paint_def)
next
  fix e :: "('a, color) element" and p c c'
  assume "solid_valid e"
    and p: "p \<in> pixels_of (map (rect_shift (rloc (el_geometry e s))) (el_opaque_regions e s))"
  then obtain i g k col where e: "e = solid_element_new i g k col" "wf_rect g" by (auto simp: solid_valid_def)
  with p show "solid_paint s e p c = solid_paint s e p c'"
    by (auto simp: solid_paint_def draw_solid_def shift_from_size split: if_splits)
next
  fix old new :: "('a, color) element" and p c
  assume v: "solid_valid old" "solid_valid new" and later: "solid_later old new" and same: "looks_same s old new"
    and p: "p \<notin> pixels_of (own_damage s new (el_current_commit old))"
  obtain i g k col where new: "new = solid_element_new i g k col" "wf_rect g"
    using v(2) by (auto simp: solid_valid_def)
  have geo: "el_geometry old s = g"
    using same new(1) by (simp add: looks_same_def instance_state_matches_def element_instance_def)
  show "solid_paint s new p c = solid_paint s old p c"
  proof (cases "el_current_commit old = k")
    case True
    then show ?thesis using later geo by (simp add: solid_paint_def solid_later_def new)
  next
    case False
    then have "p \<notin> pixels g"
      using p new by (simp add: own_damage_def default_damage_since_def shift_from_size)
    then show ?thesis using geo by (simp add: solid_paint_def new)
  qed
next
  show "color_eq a b \<Longrightarrow> solid_background a = solid_background b" for a b
    using color_eq_eq by (auto simp: solid_background_def)
qed

section \<open>The commits of a buffer\<close>

datatype solid_op = Solid_resize sz | Solid_set_color color | Solid_update sz color

fun solid_step :: "solid_op \<Rightarrow> 'id solid_buffer \<Rightarrow> 'id solid_buffer" where
  "solid_step (Solid_resize z) = solid_resize z"
| "solid_step (Solid_set_color col) = solid_set_color col"
| "solid_step (Solid_update z col) = solid_update z col"

definition solid_run :: "solid_op list \<Rightarrow> 'id solid_buffer \<Rightarrow> 'id solid_buffer" where
  "solid_run ops b = fold solid_step ops b"

lemma solid_step_cases:
  "sb_id (solid_step op b) = sb_id b"
  "(\<exists>k\<le>1. cc_value (sb_commit (solid_step op b)) = cc_value (sb_commit b) + of_nat k \<and>
     (k = 0 \<longrightarrow> solid_step op b = b))"
proof -
  have inc: "cc_value (cc_increment c) = cc_value c + 1" for c by (cases c) (simp add: cc_increment_def)
  show "sb_id (solid_step op b) = sb_id b"
    by (cases op) (simp_all add: solid_resize_def solid_set_color_def solid_update_def)
  have "solid_step op b = b \<or> sb_commit (solid_step op b) = cc_increment (sb_commit b)"
    by (cases op) (simp_all add: solid_resize_def solid_set_color_def solid_update_def)
  then show "\<exists>k\<le>1. cc_value (sb_commit (solid_step op b)) = cc_value (sb_commit b) + of_nat k \<and>
     (k = 0 \<longrightarrow> solid_step op b = b)"
  proof
    assume "solid_step op b = b"
    then show ?thesis by (intro exI[of _ 0]) simp
  next
    assume "sb_commit (solid_step op b) = cc_increment (sb_commit b)"
    then show ?thesis by (intro exI[of _ 1]) (simp add: inc)
  qed
qed

lemma solid_run_commits:
  "sb_id (solid_run ops b) = sb_id b \<and>
   (\<exists>k\<le>length ops. cc_value (sb_commit (solid_run ops b)) = cc_value (sb_commit b) + of_nat k \<and>
      (k = 0 \<longrightarrow> solid_run ops b = b))"
proof (induction ops arbitrary: b)
  case Nil
  then show ?case by (simp add: solid_run_def)
next
  case (Cons op ops)
  obtain k where k: "k \<le> 1" "cc_value (sb_commit (solid_step op b)) = cc_value (sb_commit b) + of_nat k"
    "k = 0 \<longrightarrow> solid_step op b = b" using solid_step_cases(2)[of op b] by blast
  obtain m where m: "m \<le> length ops" "sb_id (solid_run ops (solid_step op b)) = sb_id (solid_step op b)"
    "cc_value (sb_commit (solid_run ops (solid_step op b))) = cc_value (sb_commit (solid_step op b)) + of_nat m"
    "m = 0 \<longrightarrow> solid_run ops (solid_step op b) = solid_step op b" using Cons.IH[of "solid_step op b"] by blast
  have "solid_run (op # ops) b = solid_run ops (solid_step op b)" by (simp add: solid_run_def)
  with k m show ?case
    by (intro conjI exI[of _ "k + m"]) (auto simp: solid_step_cases(1))
qed

lemma solid_run_same_commit:
  assumes "length ops < 2 ^ 64" "sb_commit (solid_run ops b) = sb_commit b"
  shows "solid_run ops b = b"
proof -
  obtain k where k: "k \<le> length ops" "cc_value (sb_commit (solid_run ops b)) = cc_value (sb_commit b) + of_nat k"
    "k = 0 \<longrightarrow> solid_run ops b = b" using solid_run_commits[of ops b] by blast
  have "(of_nat k :: usize) = 0" using k(2) assms(2) by simp
  moreover have "k < 2 ^ 64" using k(1) assms(1) by simp
  then have "unat (of_nat k :: usize) = k" by (simp add: unat_of_nat take_bit_nat_eq_self)
  ultimately have "k = 0" by simp
  with k(3) show ?thesis by simp
qed

end
