(* ===== verification/Tracker_Props.thy ===== *)
theory Tracker_Props
  imports Solid
begin

text \<open>
  The properties of the output damage tracker: what its frames show, over any run, and what it
  does to elements with several instances and to scenes of overlapping opaque elements.
\<close>

section \<open>Frames show the scene\<close>

text \<open>C2. Damage tracking is invisible, for elements with different ids and without framebuffer effects, at
  one fixed scale. In every run of the tracker over such frames, with buffers of any age, changes of
  the size and the transform of the output, hidden elements and failed frames in between, rendering
  the next such frame returns; it fails only when the renderer does, and otherwise every pixel of the
  output shows exactly the elements of the frame painted over the clear colour: in the buffer just
  drawn, or, when the tracker reports no damage and draws nothing, in the frame presented last.
  Elements are anything that keeps the contract of the trait \<open>Element\<close>; those shown in several instances
  of one id are excluded, \<open>vanished_instance_not_damaged\<close> shows why.\<close>

theorem frames_show_scene:
  assumes "painted_elements paint background valid later sc" and "sort_ok srt"
    and "tracker_run paint background valid later sc srt tr hist seen"
    and "frame_ok valid later sc seen hist fr"
  shows "\<exists>tr' r. render_frame srt tr fr = Some (tr', r) \<and>
    (case r of
       Inl err \<Rightarrow> err = Rendering_error \<and> (\<exists>cmds. fr_fails fr cmds)
     | Inr res \<Rightarrow> (\<forall>p\<in>pixels (frame_area fr).
         presented_frames paint background (fr_buffer fr) hist res \<noteq> [] \<and>
         (presented_frames paint background (fr_buffer fr) hist res ! 0) p = frame_scene paint background fr p))"
  using painted_elements.frame_step[OF assms(1,2,4) painted_elements.run_inv[OF assms(1,2,3)]]
    painted_elements.frame_outcome_shown[OF assms(1)]
  by blast

text \<open>A pane of one colour, at full opacity and scale one.\<close>

definition pane :: "nat \<Rightarrow> rect \<Rightarrow> nat \<Rightarrow> (nat, color) element" where
  "pane i geometry commits = solid_element_new i geometry (CommitCounter (of_nat commits)) color_default"

definition pane_frame :: "nat \<Rightarrow> (nat, color) element list \<Rightarrow> (nat, color, color list) frame" where
  "pane_frame age es = \<lparr>fr_mode = Mode_static (size_new 100 100) (Fl_num 1, Fl_num 1) Normal, fr_age = age,
     fr_elements = es, fr_clear = color_default, fr_with_states = None, fr_buffer = (\<lambda>_. []), fr_fails = (\<lambda>_. False)\<rparr>"

lemma strip_loc: "rloc (strip x y w h) = point_new x y"
  by (simp add: strip_def)

lemma pane_area: "frame_area (pane_frame age es) = strip 0 0 100 100"
  by (simp add: frame_area_def pane_frame_def output_geometry_def transform_size_def
      rect_from_size_def strip_def rect_new_def point_new_def size_new_def)

definition one_pane :: "(nat, color, color list) frame" where
  "one_pane = pane_frame 0 [pane 1 (strip 10 10 20 20) 0]"

theorem frames_show_scene_witness:
  "\<exists>tr' r. render_frame axis_sort (tracker_from_mode (Mode_auto None)) one_pane = Some (tr', r) \<and>
    (case r of
       Inl err \<Rightarrow> err = Rendering_error \<and> (\<exists>cmds. fr_fails one_pane cmds)
     | Inr res \<Rightarrow> (\<forall>p\<in>pixels (frame_area one_pane).
         presented_frames (solid_paint (Fl_num 1, Fl_num 1)) solid_background (fr_buffer one_pane) [] res \<noteq> [] \<and>
         (presented_frames (solid_paint (Fl_num 1, Fl_num 1)) solid_background (fr_buffer one_pane) [] res ! 0) p =
           frame_scene (solid_paint (Fl_num 1, Fl_num 1)) solid_background one_pane p))"
proof (rule frames_show_scene[OF solid.painted_elements_axioms axis_sort_ok run_start])
  have "solid_valid (pane 1 (strip 10 10 20 20) 0)"
    unfolding solid_valid_def pane_def by (intro exI conjI, rule refl) (simp add: in_i32_def)
  moreover have "output_ok (strip 0 0 100 100)"
    by (simp add: output_ok_def in_i32_def strip_loc)
  ultimately show "frame_ok solid_valid solid_later (Fl_num 1, Fl_num 1) {} [] one_pane"
    by (simp add: frame_ok_def pane_area one_pane_def) (simp add: pane_frame_def pane_def)
qed

section \<open>Frames that change nothing\<close>

text \<open>A frame that repeats the one just presented is not drawn: when no element reports damage
  since its own commit and the opaque regions subtract from themselves without a rest, rendering the
  same elements again into the buffer of that frame reports no damage and issues no command.\<close>

theorem repeated_frame_not_drawn:
  assumes "painted_elements paint background valid later sc" and "sort_ok srt"
    and "tracker_run paint background valid later sc srt tr hist seen"
    and "frame_ok valid later sc seen hist fr"
    and "render_frame srt tr fr = Some (tr', Inr (Render_result cmds (Some d) states))"
    and "\<forall>e\<in>set (fr_elements fr).
      el_damage_since e sc (Some (el_current_commit e)) = [] \<and> looks_same sc e e"
    and "color_eq (fr_clear fr) (fr_clear fr)"
    and "subtract_rects_many_in_place (rs_opaque_regions (tr_state tr')) (rs_opaque_regions (tr_state tr')) = Some []"
  shows "\<exists>tr'' states'. render_frame srt tr' (fr\<lparr>fr_age := 1, fr_buffer := b\<rparr>) =
    Some (tr'', Inr (Render_result [] None states'))"
  by (rule painted_elements.unchanged_frame[OF assms(1,2,4) painted_elements.run_inv[OF assms(1,2,3)] assms(5) _ assms(7,8)])
    (use assms(6) in \<open>simp add: painted_elements.quiet_def[OF assms(1)]\<close>)

definition rendered_damage :: "('id tracker \<times> (track_error + ('id, 'd) render_result)) option \<Rightarrow> rect list option option" where
  "rendered_damage r = (case r of Some (_, Inr (Render_result _ d _)) \<Rightarrow> Some d | _ \<Rightarrow> None)"

definition plain_pane :: "nat \<Rightarrow> rect \<Rightarrow> bool \<Rightarrow> (nat, unit) element" where
  "plain_pane i g opaque =
     \<lparr>el_id = i, el_current_commit = counter_default,
      el_src = \<lparr>frloc = \<lparr>fpx = Fl_num 0, fpy = Fl_num 0\<rparr>, frsize = \<lparr>fsw = Fl_num 8, fsh = Fl_num 8\<rparr>\<rparr>,
      el_transform = Normal, el_geometry = (\<lambda>_. g),
      el_damage_since = (\<lambda>_. default_damage_since counter_default (rsize g)),
      el_opaque_regions = (\<lambda>_. if opaque then [rect_from_size (rsize g)] else []),
      el_alpha = Fl_num 1, el_framebuffer_effect = False, el_draw = ()\<rparr>"

definition pane_paint :: "(nat, unit) element \<Rightarrow> pixel \<Rightarrow> nat list \<Rightarrow> nat list" where
  "pane_paint e p below = (if p \<in> pixels (el_geometry e (Fl_num 1, Fl_num 1)) then el_id e # below else below)"

definition plain_frame :: "nat \<Rightarrow> (nat, unit, nat list) frame" where
  "plain_frame age = \<lparr>fr_mode = Mode_static (size_new 100 100) (Fl_num 1, Fl_num 1) Normal, fr_age = age,
     fr_elements = [plain_pane 1 (strip 10 10 20 20) False], fr_clear = color_default, fr_with_states = None,
     fr_buffer = (\<lambda>_. []), fr_fails = (\<lambda>_. False)\<rparr>"

theorem repeated_frame_not_drawn_witness:
  "\<exists>tr' cmds d states tr'' states'.
     render_frame axis_sort (tracker_from_mode (Mode_auto None)) (plain_frame 0) = Some (tr', Inr (Render_result cmds (Some d) states)) \<and>
     render_frame axis_sort tr' ((plain_frame 0)\<lparr>fr_age := 1, fr_buffer := \<lambda>_. []\<rparr>) = Some (tr'', Inr (Render_result [] None states'))"
proof -
  let ?sc = "(Fl_num 1, Fl_num 1)" let ?fr = "plain_frame 0"
  let ?valid = "\<lambda>e. e = plain_pane 1 (strip 10 10 20 20) False"
  let ?r = "render_frame axis_sort (tracker_from_mode (Mode_auto None)) ?fr"
  have loc: "painted_elements pane_paint (\<lambda>_. []) ?valid (\<lambda>_ _. True) ?sc"
    by unfold_locales (auto simp: wf_element_def plain_pane_def default_damage_since_def pane_paint_def in_i32_def
        rect_from_size_def wf_rect_def wf_point_def wf_size_def strip_def rect_new_def point_new_def size_new_def)
  have area: "frame_area ?fr = strip 0 0 100 100" by code_simp
  have "output_ok (strip 0 0 100 100)" by (simp add: output_ok_def in_i32_def strip_loc)
  then have ok: "frame_ok ?valid (\<lambda>_ _. True) ?sc {} [] ?fr"
    by (simp add: frame_ok_def area) (simp add: plain_frame_def plain_pane_def)
  have "rendered_damage ?r = Some (Some [strip 0 0 100 100])"
    and opq: "map_option (\<lambda>(tr, _). rs_opaque_regions (tr_state tr)) ?r = Some []"
    by code_simp+
  then obtain tr' cmds states where r: "?r = Some (tr', Inr (Render_result cmds (Some [strip 0 0 100 100]) states))"
    by (auto simp: rendered_damage_def split: option.splits sum.splits render_result.splits)
  have still: "\<forall>e\<in>set (fr_elements ?fr). el_damage_since e ?sc (Some (el_current_commit e)) = [] \<and> looks_same ?sc e e"
    by (simp add: plain_frame_def plain_pane_def default_damage_since_def looks_same_def instance_state_matches_def
        element_instance_def frect_eq_def)
  have "rs_opaque_regions (tr_state tr') = []" using opq r by simp
  then show ?thesis
    using r repeated_frame_not_drawn[OF loc axis_sort_ok run_start ok r still, of "\<lambda>_. []"]
    by (simp add: plain_frame_def color_eq_def color_default_def)
qed

section \<open>Solid colours\<close>

text \<open>The buffer of a solid colour keeps the promise the tracker relies on: after fewer than
  \<open>2 ^ 64\<close> updates, an element made from it is a later state of the element made before, so one with
  the same commit draws the same colour in the same size, and the identifier stays.\<close>

theorem solid_buffer_keeps_contract:
  assumes "length ops < 2 ^ 64"
  shows "let old = solid_from_buffer b location s alpha; new = solid_from_buffer (solid_run ops b) location s alpha
    in el_id new = el_id old \<and> solid_later old new \<and>
       (el_current_commit new = el_current_commit old \<longrightarrow> new = old)"
proof -
  have "sb_id (solid_run ops b) = sb_id b" using solid_run_commits[of ops b] by blast
  moreover have "sb_commit (solid_run ops b) = sb_commit b \<Longrightarrow> solid_run ops b = b"
    by (rule solid_run_same_commit[OF assms])
  ultimately show ?thesis by (auto simp: solid_from_buffer_def solid_later_def Let_def)
qed

theorem solid_buffer_keeps_contract_witness:
  "let b = solid_buffer_new (1 :: nat) (size_new 10 10) color_default;
       ops = [Solid_resize (size_new 10 10), Solid_update (size_new 20 10) color_default, Solid_resize (size_new 10 10)];
       old = solid_from_buffer b (point_new 5 5) (Fl_num 1, Fl_num 1) (Fl_num 1);
       new = solid_from_buffer (solid_run ops b) (point_new 5 5) (Fl_num 1, Fl_num 1) (Fl_num 1)
   in el_id new = el_id old \<and> solid_later old new"
  using solid_buffer_keeps_contract[of "[Solid_resize (size_new 10 10), Solid_update (size_new 20 10) color_default,
      Solid_resize (size_new 10 10)]" "solid_buffer_new (1 :: nat) (size_new 10 10) color_default"]
  by (simp add: Let_def)

section \<open>Several instances of one element\<close>

text \<open>Two frames rendered one after the other, the second into the buffer of the first.\<close>

definition second_frame :: "(nat, unit) element list \<Rightarrow> (nat, unit) element list \<Rightarrow>
    (nat tracker \<times> (track_error + (nat, unit) render_result)) option" where
  "second_frame es es' =
     (case render_output axis_sort (\<lambda>_. False) 0 es color_default None
             (tracker_new (size_new 100 100) (Fl_num 1, Fl_num 1) Normal) of
        None \<Rightarrow> None
      | Some (tr, _) \<Rightarrow> render_output axis_sort (\<lambda>_. False) 1 es' color_default None tr)"

text \<open>An element may be shown several times, and the tracker remembers every instance, but an
  instance that goes away while another stays in place is not damaged: two panes with the same
  identifier, then only the first, and the second frame reports that nothing changed, so the second
  pane stays on the screen.\<close>

theorem vanished_instance_not_damaged:
  "rendered_damage (second_frame [plain_pane 1 (strip 0 0 10 10) False, plain_pane 1 (strip 50 0 10 10) False]
     [plain_pane 1 (strip 0 0 10 10) False]) = Some None"
  by code_simp

text \<open>A scene that does not change can be redrawn for ever: where three opaque elements overlap,
  subtracting the opaque regions of a frame from the same regions of the frame before leaves a
  piece, which the tracker takes for a region that is no longer covered.\<close>

theorem static_scene_damaged:
  fixes a b c :: "(nat, unit) element"
  defines "a \<equiv> plain_pane 1 (strip 30 40 10 40) True"
    and "b \<equiv> plain_pane 2 (strip 0 60 80 20) True"
    and "c \<equiv> plain_pane 3 (strip 70 60 20 20) True"
  shows "rendered_damage (second_frame [a, b, c] [a, b, c]) = Some (Some [strip 0 60 30 20])"
  unfolding a_def b_def c_def by code_simp

end
