(* ===== verification/Effects.thy ===== *)
theory Effects
  imports Tracker_Run
begin

text \<open>
  Framebuffer effects in the output damage tracker: an effect shows what is below it, so whenever
  something below it or the effect itself is damaged, its whole area must be damaged, its
  framebuffer must be captured again, and no opaque region above it may keep the elements below
  from being redrawn there.
\<close>

section \<open>Cutting opaque regions\<close>

definition shrinks :: "rect list \<Rightarrow> rect list \<Rightarrow> bool" where
  "shrinks rs qs \<longleftrightarrow> list_all2 (\<lambda>r q. wf_rect r \<and> pixels r \<subseteq> pixels q) rs qs"

lemma shrinks_refl: "wf_rects rs \<Longrightarrow> shrinks rs rs"
  by (simp add: shrinks_def list_all2_same wf_rects_def)

lemma shrinks_trans: "shrinks a b \<Longrightarrow> shrinks b c \<Longrightarrow> shrinks a c"
  unfolding shrinks_def by (rule list_all2_trans) auto

lemma shrinks_wf: "shrinks rs qs \<Longrightarrow> wf_rects rs"
  by (auto simp: shrinks_def wf_rects_def list_all2_conv_all_nth in_set_conv_nth)

definition clear_of :: "rect \<Rightarrow> nat \<Rightarrow> rect list \<Rightarrow> bool" where
  "clear_of area n rs \<longleftrightarrow> (\<forall>r\<in>set (take n rs). pixels r \<inter> pixels area = {})"

lemma clear_of_shrinks: "shrinks rs qs \<Longrightarrow> clear_of area n qs \<Longrightarrow> clear_of area n rs"
  unfolding shrinks_def clear_of_def
  by (fastforce simp: list_all2_conv_all_nth in_set_conv_nth)

lemma first_piece_spec:
  assumes "wf_rect r" "wf_rect area"
  shows "\<exists>p. first_piece r area = Some p \<and> wf_rect p \<and> pixels p \<subseteq> pixels r - pixels area"
proof -
  obtain res where res: "subtract_rect r area = Some res" "wf_rects res" "pixels_of res = pixels r - pixels area"
    using subtract_scan_single[OF assms] by (auto simp: subtract_rect_def subtract_rects_def)
  show ?thesis
  proof (cases res)
    case Nil
    have "wf_rect rect_zero" "pixels rect_zero = {}"
      by (auto simp: rect_zero_def wf_rect_def wf_point_def wf_size_def point_new_def size_new_def pixels_def range_simps)
    with Nil res show ?thesis by (simp add: first_piece_def)
  next
    case (Cons p ps)
    with res show ?thesis by (auto simp: first_piece_def)
  qed
qed

lemma cut_opaque_spec:
  assumes "wf_rects rs" "wf_rect area"
  shows "\<exists>qs. cut_opaque area n rs = Some qs \<and> shrinks qs rs \<and> clear_of area n qs"
  using assms(1)
proof (induction n arbitrary: rs)
  case 0
  then show ?case by (simp add: shrinks_refl clear_of_def)
next
  case (Suc n)
  show ?case
  proof (cases rs)
    case Nil
    then show ?thesis by (simp add: shrinks_def clear_of_def)
  next
    case (Cons r rs')
    then obtain p where p: "first_piece r area = Some p" "wf_rect p" "pixels p \<subseteq> pixels r - pixels area"
      using first_piece_spec[OF _ assms(2), of r] Suc.prems by auto
    obtain qs where qs: "cut_opaque area n rs' = Some qs" "shrinks qs rs'" "clear_of area n qs"
      using Suc.IH[of rs'] Suc.prems Cons by auto
    have "shrinks (p # qs) rs" using p qs(2) Cons by (auto simp: shrinks_def)
    moreover have "clear_of area (Suc n) (p # qs)" using p(3) qs(3) by (auto simp: clear_of_def)
    ultimately show ?thesis using p(1) qs(1) Cons by simp
  qed
qed

section \<open>The loop over the effects\<close>

definition captures :: "'id render_states \<Rightarrow> 'id \<Rightarrow> bool" where
  "captures states i \<longleftrightarrow> (\<exists>st. states i = Some st \<and> needs_capture st)"

text \<open>What no step takes back.\<close>

definition effect_grows :: "'id effect_scan \<Rightarrow> 'id effect_scan \<Rightarrow> bool" where
  "effect_grows s s' \<longleftrightarrow> (\<exists>xs. ef_damage s' = ef_damage s @ xs) \<and> shrinks (ef_opaque s') (ef_opaque s) \<and>
     (\<forall>i. captures (ef_states s) i \<longrightarrow> captures (ef_states s') i)"

lemma effect_grows_trans: "effect_grows a b \<Longrightarrow> effect_grows b c \<Longrightarrow> effect_grows a c"
  unfolding effect_grows_def by (metis append_assoc shrinks_trans)

definition effect_done :: "'id effect_scan \<Rightarrow> 'id \<Rightarrow> rect \<Rightarrow> nat \<Rightarrow> bool" where
  "effect_done s i area n \<longleftrightarrow> area \<in> set (ef_damage s) \<and> captures (ef_states s) i \<and> clear_of area n (ef_opaque s)"

lemma effect_done_grows: "effect_grows s s' \<Longrightarrow> effect_done s i area n \<Longrightarrow> effect_done s' i area n"
  unfolding effect_grows_def effect_done_def using clear_of_shrinks by fastforce

lemma effect_step_spec:
  assumes step: "effect_step sc og fr di oi ws (z, e) s = Some s'" and wf: "wf_rects (ef_opaque s)"
    and area: "rect_intersection (el_geometry e sc) og = Some area" "wf_rect area"
  shows "effect_grows s s'"
    and "d \<in> set (drop (if fr then 0 else di ! z) (ef_damage s)) \<Longrightarrow> rect_overlaps d area \<Longrightarrow>
      effect_done s' (el_id e) area (if fr then length (ef_opaque s) else fst (oi ! z))"
proof -
  let ?di = "if fr then 0 else di ! z" let ?oi = "if fr then length (ef_opaque s) else fst (oi ! z)"
  obtain st where st: "ef_states s (el_id e) = Some st"
    using step area(1) by (cases "ef_states s (el_id e)") (simp_all add: effect_step_def Let_def)
  obtain qs where qs: "cut_opaque area ?oi (ef_opaque s) = Some qs" "shrinks qs (ef_opaque s)" "clear_of area ?oi qs"
    using cut_opaque_spec[OF wf area(2)] by blast
  let ?need = "effect_needed (ef_states s) ws (el_id e) (ef_damage s) ?di area"
  have s': "s' = (if ?need then \<lparr>ef_damage = ef_damage s @ [area], ef_opaque = qs,
      ef_states = (ef_states s)(el_id e \<mapsto> st\<lparr>needs_capture := True\<rparr>)\<rparr> else s)"
    using step area(1) st qs(1) unfolding effect_step_def by (simp only: Let_def prod.case option.case split: if_splits) simp_all
  show "effect_grows s s'"
    using qs(2) shrinks_refl[OF wf] by (auto simp: s' effect_grows_def captures_def)
  assume "d \<in> set (drop ?di (ef_damage s))" "rect_overlaps d area"
  then have ?need unfolding effect_needed_def list_ex_iff by blast
  then show "effect_done s' (el_id e) area ?oi" using qs(3) by (simp add: s' effect_done_def captures_def)
qed

lemma effect_steps_spec:
  assumes "effect_steps sc og fr di oi ws zes s = Some s'" "wf_rects (ef_opaque s)"
    and "\<forall>(z, e)\<in>set zes. \<exists>area. rect_intersection (el_geometry e sc) og = Some area \<and> wf_rect area"
  shows "effect_grows s s' \<and>
    (\<forall>z e area d. (z, e) \<in> set zes \<and> rect_intersection (el_geometry e sc) og = Some area \<and>
       d \<in> set (drop (if fr then 0 else di ! z) (ef_damage s)) \<and> rect_overlaps d area \<longrightarrow>
       effect_done s' (el_id e) area (if fr then length (ef_opaque s) else fst (oi ! z)))"
  using assms
proof (induction zes arbitrary: s)
  case Nil
  then show ?case by (simp add: effect_grows_def shrinks_refl)
next
  case (Cons ze zes)
  obtain z e where ze: "ze = (z, e)" by (cases ze)
  obtain mid where mid: "effect_step sc og fr di oi ws (z, e) s = Some mid"
    and rest: "effect_steps sc og fr di oi ws zes mid = Some s'"
    using Cons.prems(1) by (auto simp: ze split: option.splits)
  obtain area where area: "rect_intersection (el_geometry e sc) og = Some area" "wf_rect area"
    using Cons.prems(3) by (auto simp: ze)
  note step = effect_step_spec[OF mid Cons.prems(2) area]
  have wf: "wf_rects (ef_opaque mid)" and len: "length (ef_opaque mid) = length (ef_opaque s)"
    using step(1) shrinks_wf by (auto simp: effect_grows_def shrinks_def list_all2_lengthD)
  have zes: "\<forall>(z, e)\<in>set zes. \<exists>area. rect_intersection (el_geometry e sc) og = Some area \<and> wf_rect area"
    using Cons.prems(3) by simp
  note IH = Cons.IH[OF rest wf zes]
  have grows: "effect_grows s s'" using effect_grows_trans[OF step(1)] IH by blast
  have more: "d \<in> set (drop n (ef_damage mid))" if "d \<in> set (drop n (ef_damage s))" for d n
    using that step(1) by (auto simp: effect_grows_def)
  show ?case
  proof (intro conjI allI impI, rule grows)
    fix z' e' area' d
    assume a: "(z', e') \<in> set (ze # zes) \<and> rect_intersection (el_geometry e' sc) og = Some area' \<and>
       d \<in> set (drop (if fr then 0 else di ! z') (ef_damage s)) \<and> rect_overlaps d area'"
    show "effect_done s' (el_id e') area' (if fr then length (ef_opaque s) else fst (oi ! z'))"
    proof (cases "(z', e') = (z, e)")
      case True
      then have z: "z' = z" "e' = e" by simp_all
      with a area(1) have ar: "area' = area" by simp
      have "effect_done mid (el_id e') area' (if fr then length (ef_opaque s) else fst (oi ! z'))"
        unfolding z ar
        by (rule step(2)[OF a[THEN conjunct2, THEN conjunct2, THEN conjunct1, unfolded z]
              a[THEN conjunct2, THEN conjunct2, THEN conjunct2, unfolded ar]])
      then show ?thesis by (rule effect_done_grows[OF IH[THEN conjunct1]])
    next
      case False
      with a have "(z', e') \<in> set zes" by (auto simp: ze)
      moreover have "d \<in> set (drop (if fr then 0 else di ! z') (ef_damage mid))"
        by (rule more[OF a[THEN conjunct2, THEN conjunct2, THEN conjunct1]])
      ultimately show ?thesis
        using IH[THEN conjunct2, rule_format, of z' e' area' d] a unfolding len by blast
    qed
  qed
qed

section \<open>The indices of the scan\<close>





section \<open>A frame\<close>


lemma visible_elements_overlap:
  "e \<in> set (visible_elements sc og opq es) \<Longrightarrow> \<exists>area. rect_intersection (el_geometry e sc) og = Some area"
  by (induction es arbitrary: opq) (auto simp: hidden_def split: if_splits option.splits)



text \<open>What the tracker remembers of the last frame is well-formed.\<close>

definition remembered_ok :: "'id renderer_state \<Rightarrow> bool" where
  "remembered_ok st \<longleftrightarrow> wf_rects (rs_opaque_regions st) \<and>
     (\<forall>(i, old)\<in>set (rs_elements st). wf_rects (map last_geometry (last_instances old)))"



text \<open>Where the frame is disturbed, the damage seen by the effects says so.\<close>

definition effect_scan_start :: "'id renderer_state \<Rightarrow> rect \<Rightarrow> transform \<Rightarrow> color option \<Rightarrow> ('id, 'd) scan \<Rightarrow> rect list \<Rightarrow> 'id effect_scan" where
  "effect_scan_start st og t clear s uncovered =
     \<lparr>ef_damage = (if output_changed st og t clear then [og]
        else sc_damage s @ gone_damage og (elements_gone (sc_states s) (rs_elements st)) @ uncovered),
      ef_opaque = sc_opaque s, ef_states = sc_states s\<rparr>"

definition effects_forced :: "'id renderer_state \<Rightarrow> rect \<Rightarrow> transform \<Rightarrow> color option \<Rightarrow> ('id, 'd) scan \<Rightarrow> rect list \<Rightarrow> bool" where
  "effects_forced st og t clear s uncovered \<longleftrightarrow>
     elements_gone (sc_states s) (rs_elements st) \<noteq> [] \<or> list_ex (\<lambda>r. \<not> rect_is_empty r) uncovered \<or> output_changed st og t clear"

lemma frame_damage_steps:
  assumes og: "output_ok og" and es: "\<forall>e\<in>set es. wf_element sc e" and opq: "wf_rects (rs_opaque_regions st)"
    and frame: "frame_damage st es sc t og clear ws = Some (s, ef)"
  shows "scan_elements sc og (rs_elements st) es scan_init = Some s" "sc_rendered s = visible_elements sc og [] es"
    "sc_opaque s = concat (map (el_opaque sc og) (sc_rendered s))" "sc_opaque_index s = opaque_ranges sc og 0 (sc_rendered s)"
    "presented (sc_states s) = el_id ` set (sc_rendered s)" "\<forall>e\<in>set (sc_rendered s). wf_element sc e"
    "effect_steps sc og (effects_forced st og t clear s (subtract_many (rs_opaque_regions st) (sc_opaque s)))
       (sc_damage_index s) (sc_opaque_index s) ws (framebuffer_effects (sc_rendered s))
       (effect_scan_start st og t clear s (subtract_many (rs_opaque_regions st) (sc_opaque s))) = Some ef"
proof -
  obtain s1 where s1: "scan_elements sc og (rs_elements st) es scan_init = Some s1"
    "sc_rendered s1 = visible_elements sc og [] es" "sc_opaque s1 = concat (map (el_opaque sc og) (visible_elements sc og [] es))"
    "sc_opaque_index s1 = opaque_ranges sc og 0 (visible_elements sc og [] es)"
    "presented (sc_states s1) = el_id ` set (visible_elements sc og [] es)"
    using scan_elements_result[OF og es, of scan_init "rs_elements st"] by (auto simp: scan_init_def)
  have s: "s1 = s" using frame s1(1) by (auto simp: frame_damage_def Let_def split: option.splits)
  note s1 = s1[unfolded s]
  have v: "set (visible_elements sc og [] es) \<subseteq> set es" by (rule visible_elements_set)
  show "scan_elements sc og (rs_elements st) es scan_init = Some s" "sc_rendered s = visible_elements sc og [] es"
    "sc_opaque s = concat (map (el_opaque sc og) (sc_rendered s))" "sc_opaque_index s = opaque_ranges sc og 0 (sc_rendered s)"
    "presented (sc_states s) = el_id ` set (sc_rendered s)" and wf: "\<forall>e\<in>set (sc_rendered s). wf_element sc e"
    using s1 es v by auto
  then have "wf_rects (sc_opaque s)" using wf_rects_opaque[OF og] by simp
  note u = subtract_many_spec(1)[OF opq this]
  show "effect_steps sc og (effects_forced st og t clear s (subtract_many (rs_opaque_regions st) (sc_opaque s)))
       (sc_damage_index s) (sc_opaque_index s) ws (framebuffer_effects (sc_rendered s))
       (effect_scan_start st og t clear s (subtract_many (rs_opaque_regions st) (sc_opaque s))) = Some ef"
  proof -
    have "frame_damage st es sc t og clear ws =
       (case effect_steps sc og (effects_forced st og t clear s (subtract_many (rs_opaque_regions st) (sc_opaque s)))
          (sc_damage_index s) (sc_opaque_index s) ws (framebuffer_effects (sc_rendered s))
          (effect_scan_start st og t clear s (subtract_many (rs_opaque_regions st) (sc_opaque s))) of
          None \<Rightarrow> None | Some ef \<Rightarrow> Some (s, ef))"
      unfolding frame_damage_def effects_forced_def effect_scan_start_def output_changed_def
      by (simp only: s1(1) u option.case Let_def)
    then show ?thesis using frame by (auto split: option.splits)
  qed
qed


lemma effect_areas:
  assumes og: "output_ok og" and vis: "vs = visible_elements sc og [] es" and wf: "\<forall>e\<in>set vs. wf_element sc e"
  shows "\<forall>(z, e)\<in>set (framebuffer_effects vs). \<exists>area. rect_intersection (el_geometry e sc) og = Some area \<and> wf_rect area"
proof clarify
  fix z e
  assume "(z, e) \<in> set (framebuffer_effects vs)"
  then have e: "e \<in> set vs" by (auto simp: framebuffer_effects_def in_set_enumerate_eq)
  then obtain area where area: "rect_intersection (el_geometry e sc) og = Some area"
    using visible_elements_overlap unfolding vis by fastforce
  moreover have "wf_rect area"
    using intersection_pixels(1)[OF _ output_okD(1)[OF og] area] wf e by (simp add: wf_element_def)
  ultimately show "\<exists>area. rect_intersection (el_geometry e sc) og = Some area \<and> wf_rect area" by blast
qed



text \<open>A new tracker remembers nothing, and every frame remembers well-formed rectangles.\<close>

lemma remember_elements_wf:
  assumes "\<forall>e\<in>set es. wf_rect (el_geometry e sc)"
  shows "\<forall>(i, old)\<in>set (remember_elements sc es). wf_rects (map last_geometry (last_instances old))"
proof -
  have step: "\<forall>(i, old)\<in>set (fold (remember_element sc) zes m). wf_rects (map last_geometry (last_instances old))"
    if "\<forall>(i, old)\<in>set m. wf_rects (map last_geometry (last_instances old))" "\<forall>ze\<in>set zes. wf_rect (el_geometry (snd ze) sc)" for zes m
    using that
  proof (induction zes arbitrary: m)
    case (Cons ze zes)
    have "\<forall>(i, old)\<in>set (remember_element sc ze m). wf_rects (map last_geometry (last_instances old))"
      using Cons.prems by (auto simp: remember_element_def element_instance_def Let_def case_prod_beta split: if_splits)
    from Cons.IH[OF this] show ?case using Cons.prems(2) by simp
  qed simp
  show ?thesis
    unfolding remember_elements_def by (rule step) (use assms in \<open>auto simp: in_set_enumerate_eq\<close>)
qed

lemma remembered_ok_new: "remembered_ok (tr_state (tracker_from_mode m))"
  by (simp add: remembered_ok_def tracker_from_mode_def renderer_state_default_def)

lemma remembered_ok_frame:
  assumes "output_ok og" "\<forall>e\<in>set es. wf_element sc e" "remembered_ok (tr_state tr)"
    and out: "damage_output_internal srt age es sc t og clear ws tr = Some (tr', rendered, states)"
  shows "remembered_ok (tr_state tr')"
proof -
  have opq: "wf_rects (rs_opaque_regions (tr_state tr))" using assms(3) by (simp add: remembered_ok_def)
  obtain s ef where f: "frame_damage (tr_state tr) es sc t og clear ws = Some (s, ef)"
    using out by (auto simp: damage_output_internal_def Let_def split: option.splits)
  note S = frame_damage_steps[OF assms(1,2) opq f]
  have "effect_grows (effect_scan_start (tr_state tr) og t clear s (subtract_many (rs_opaque_regions (tr_state tr)) (sc_opaque s))) ef"
    using effect_steps_spec[OF S(7)] effect_areas[OF assms(1) S(2,6)] wf_rects_opaque[OF assms(1) S(6)]
    by (simp add: effect_scan_start_def S(3))
  then have "wf_rects (ef_opaque ef)" using shrinks_wf by (auto simp: effect_grows_def)
  moreover have "\<forall>(i, old)\<in>set (remember_elements sc (sc_rendered s)). wf_rects (map last_geometry (last_instances old))"
    using S(6) by (intro remember_elements_wf) (auto simp: wf_element_def)
  ultimately show ?thesis
    using out assms(3) f
    by (auto simp: damage_output_internal_def Let_def remembered_ok_def split: option.splits prod.splits if_splits)
qed

section \<open>Properties\<close>






end
