(* ===== verification/Formats.thy ===== *)
theory Formats
  imports Prelude
begin

text \<open>
  Pixel formats: the table of \<open>src/backend/allocator/format.rs\<close> with its lookup functions, and the
  correspondence with the formats of \<open>wl_shm\<close> in \<open>src/wayland/shm/mod.rs\<close>. The two enums belong to
  other crates; the code only compares their members, so a format is its name. The macros expand
  to one \<open>match\<close> per function, which is a search through the table.
\<close>

section \<open>The formats of the allocator\<close>

type_synonym format = string

record format_info =
  f_name :: format
  f_opaque :: "format option"
  f_alpha :: bool
  f_bpp :: nat
  f_depth :: nat

definition fmt :: "format \<Rightarrow> format option \<Rightarrow> bool \<Rightarrow> nat \<Rightarrow> nat \<Rightarrow> format_info" where
  "fmt name opaque alpha bpp depth =
     \<lparr>f_name = name, f_opaque = opaque, f_alpha = alpha, f_bpp = bpp, f_depth = depth\<rparr>"

definition format_table :: "format_info list" where
  "format_table =
    [fmt ''R8'' None False 8 8, fmt ''R16'' None False 16 16, fmt ''Rg88'' None False 16 16,
     fmt ''Gr88'' None False 16 16, fmt ''Rg1616'' None False 32 32, fmt ''Gr1616'' None False 32 32,
     fmt ''Rgb332'' None False 8 8, fmt ''Bgr233'' None False 8 8, fmt ''Argb4444'' (Some ''Xrgb4444'') True 16 16,
     fmt ''Xrgb4444'' None False 16 12, fmt ''Abgr4444'' (Some ''Xbgr4444'') True 16 16,
     fmt ''Xbgr4444'' None False 16 12, fmt ''Rgba4444'' (Some ''Rgbx4444'') True 16 16,
     fmt ''Rgbx4444'' None False 16 12, fmt ''Bgra4444'' (Some ''Bgrx4444'') True 16 16,
     fmt ''Bgrx4444'' None False 16 12, fmt ''Argb1555'' (Some ''Xrgb1555'') True 16 16,
     fmt ''Xrgb1555'' None False 16 15, fmt ''Abgr1555'' (Some ''Xbgr1555'') True 16 16,
     fmt ''Xbgr1555'' None False 16 15, fmt ''Rgba5551'' (Some ''Rgbx5551'') True 16 16,
     fmt ''Rgbx5551'' None False 16 15, fmt ''Bgra5551'' (Some ''Bgrx5551'') True 16 16,
     fmt ''Bgrx5551'' None False 16 15, fmt ''Rgb565'' None False 16 16, fmt ''Bgr565'' None False 16 16,
     fmt ''Rgb888'' None False 24 24, fmt ''Bgr888'' None False 24 24,
     fmt ''Argb8888'' (Some ''Xrgb8888'') True 32 32, fmt ''Xrgb8888'' None False 32 24,
     fmt ''Abgr8888'' (Some ''Xbgr8888'') True 32 32, fmt ''Xbgr8888'' None False 32 24,
     fmt ''Rgba8888'' (Some ''Rgbx8888'') True 32 32, fmt ''Rgbx8888'' None False 32 24,
     fmt ''Bgra8888'' (Some ''Bgrx8888'') True 32 32, fmt ''Bgrx8888'' None False 32 24,
     fmt ''Argb2101010'' (Some ''Xrgb2101010'') True 32 32, fmt ''Xrgb2101010'' None False 32 30,
     fmt ''Abgr2101010'' (Some ''Xbgr2101010'') True 32 32, fmt ''Xbgr2101010'' None False 32 30,
     fmt ''Rgba1010102'' (Some ''Rgbx1010102'') True 32 32, fmt ''Rgbx1010102'' None False 32 30,
     fmt ''Bgra1010102'' (Some ''Bgrx1010102'') True 32 32, fmt ''Bgrx1010102'' None False 32 30,
     fmt ''Argb16161616f'' (Some ''Xrgb16161616f'') True 64 64, fmt ''Xrgb16161616f'' None False 64 48,
     fmt ''Abgr16161616f'' (Some ''Xbgr16161616f'') True 64 64, fmt ''Xbgr16161616f'' None False 64 48,
     fmt ''Axbxgxrx106106106106'' None True 64 40, fmt ''Yuv420'' None False 12 12, fmt ''Nv12'' None False 12 12]"

definition format_info_of :: "format \<Rightarrow> format_info option" where
  "format_info_of f = find (\<lambda>i. f_name i = f) format_table"

definition get_opaque :: "format \<Rightarrow> format option" where
  "get_opaque f = Option.bind (format_info_of f) f_opaque"

definition get_transparent :: "format \<Rightarrow> format option" where
  "get_transparent f = map_option f_name (find (\<lambda>i. f_opaque i = Some f) format_table)"

definition has_alpha :: "format \<Rightarrow> bool" where
  "has_alpha f = (case format_info_of f of None \<Rightarrow> False | Some i \<Rightarrow> f_alpha i)"

definition get_bpp :: "format \<Rightarrow> nat option" where
  "get_bpp f = map_option f_bpp (format_info_of f)"

definition get_depth :: "format \<Rightarrow> nat option" where
  "get_depth f = map_option f_depth (format_info_of f)"

section \<open>The formats of shared memory\<close>

text \<open>A value of a protocol enum may be one the program does not know.\<close>

datatype wenum = Value format | Unknown u32

definition shm_format_table :: "(format \<times> format) list" where
  "shm_format_table =
    [(''Argb8888'', ''Argb8888''), (''Xrgb8888'', ''Xrgb8888''), (''C8'', ''C8''), (''Rgb332'', ''Rgb332''),
     (''Bgr233'', ''Bgr233''), (''Xrgb4444'', ''Xrgb4444''), (''Xbgr4444'', ''Xbgr4444''),
     (''Rgbx4444'', ''Rgbx4444''), (''Bgrx4444'', ''Bgrx4444''), (''Argb4444'', ''Argb4444''),
     (''Abgr4444'', ''Abgr4444''), (''Rgba4444'', ''Rgba4444''), (''Bgra4444'', ''Bgra4444''),
     (''Xrgb1555'', ''Xrgb1555''), (''Xbgr1555'', ''Xbgr1555''), (''Rgbx5551'', ''Rgbx5551''),
     (''Bgrx5551'', ''Bgrx5551''), (''Argb1555'', ''Argb1555''), (''Abgr1555'', ''Abgr1555''),
     (''Rgba5551'', ''Rgba5551''), (''Bgra5551'', ''Bgra5551''), (''Rgb565'', ''Rgb565''), (''Bgr565'', ''Bgr565''),
     (''Rgb888'', ''Rgb888''), (''Bgr888'', ''Bgr888''), (''Xbgr8888'', ''Xbgr8888''), (''Rgbx8888'', ''Rgbx8888''),
     (''Bgrx8888'', ''Bgrx8888''), (''Abgr8888'', ''Abgr8888''), (''Rgba8888'', ''Rgba8888''),
     (''Bgra8888'', ''Bgra8888''), (''Xrgb2101010'', ''Xrgb2101010''), (''Xbgr2101010'', ''Xbgr2101010''),
     (''Rgbx1010102'', ''Rgbx1010102''), (''Bgrx1010102'', ''Bgrx1010102''), (''Argb2101010'', ''Argb2101010''),
     (''Abgr2101010'', ''Abgr2101010''), (''Rgba1010102'', ''Rgba1010102''), (''Bgra1010102'', ''Bgra1010102''),
     (''Yuyv'', ''Yuyv''), (''Yvyu'', ''Yvyu''), (''Uyvy'', ''Uyvy''), (''Vyuy'', ''Vyuy''), (''Ayuv'', ''Ayuv''),
     (''Nv12'', ''Nv12''), (''Nv21'', ''Nv21''), (''Nv16'', ''Nv16''), (''Nv61'', ''Nv61''),
     (''Yuv410'', ''Yuv410''), (''Yvu410'', ''Yvu410''), (''Yuv411'', ''Yuv411''), (''Yvu411'', ''Yvu411''),
     (''Yuv420'', ''Yuv420''), (''Yvu420'', ''Yvu420''), (''Yuv422'', ''Yuv422''), (''Yvu422'', ''Yvu422''),
     (''Yuv444'', ''Yuv444''), (''Yvu444'', ''Yvu444''), (''R8'', ''R8''), (''R16'', ''R16''), (''Rg88'', ''Rg88''),
     (''Gr88'', ''Gr88''), (''Rg1616'', ''Rg1616''), (''Gr1616'', ''Gr1616''),
     (''Xrgb16161616f'', ''Xrgb16161616f''), (''Xbgr16161616f'', ''Xbgr16161616f''),
     (''Argb16161616f'', ''Argb16161616f''), (''Abgr16161616f'', ''Abgr16161616f''), (''Xyuv8888'', ''Xyuv8888''),
     (''Vuy888'', ''Vuy888''), (''Vuy101010'', ''Vuy101010''), (''Y210'', ''Y210''), (''Y212'', ''Y212''),
     (''Y216'', ''Y216''), (''Y410'', ''Y410''), (''Y412'', ''Y412''), (''Y416'', ''Y416''),
     (''Xvyu2101010'', ''Xvyu2101010''), (''Xvyu12_16161616'', ''Xvyu1216161616''),
     (''Xvyu16161616'', ''Xvyu16161616''), (''Y0l0'', ''Y0l0''), (''X0l0'', ''X0l0''), (''Y0l2'', ''Y0l2''),
     (''X0l2'', ''X0l2''), (''Yuv420_8bit'', ''Yuv4208bit''), (''Yuv420_10bit'', ''Yuv42010bit''),
     (''Xrgb8888_a8'', ''Xrgb8888A8''), (''Xbgr8888_a8'', ''Xbgr8888A8''), (''Rgbx8888_a8'', ''Rgbx8888A8''),
     (''Bgrx8888_a8'', ''Bgrx8888A8''), (''Rgb888_a8'', ''Rgb888A8''), (''Bgr888_a8'', ''Bgr888A8''),
     (''Rgb565_a8'', ''Rgb565A8''), (''Bgr565_a8'', ''Bgr565A8''), (''Nv24'', ''Nv24''), (''Nv42'', ''Nv42''),
     (''P210'', ''P210''), (''P010'', ''P010''), (''P012'', ''P012''), (''P016'', ''P016''),
     (''Axbxgxrx106106106106'', ''Axbxgxrx106106106106''), (''Nv15'', ''Nv15''), (''Q410'', ''Q410''),
     (''Q401'', ''Q401'')]"

definition fourcc_to_shm_format :: "format \<Rightarrow> format option" where
  "fourcc_to_shm_format f = map_of shm_format_table f"

definition shm_format_to_fourcc :: "format \<Rightarrow> format option" where
  "shm_format_to_fourcc f = map_option fst (find (\<lambda>(_, s). s = f) shm_format_table)"

definition wl_bytes_per_pixel :: "wenum \<Rightarrow> i32" where
  "wl_bytes_per_pixel f =
     (case f of
        Unknown _ \<Rightarrow> 0
      | Value v \<Rightarrow>
          (case shm_format_to_fourcc v of
             None \<Rightarrow> 0
           | Some fourcc \<Rightarrow> (case get_bpp fourcc of None \<Rightarrow> 0 | Some bpp \<Rightarrow> int (bpp div 8))))"

section \<open>The tables\<close>

lemma format_table_distinct: "distinct (map f_name format_table)"
  by code_simp

definition opaque_entry_ok :: "format_info \<Rightarrow> bool" where
  "opaque_entry_ok i =
     (case f_opaque i of
        None \<Rightarrow> True
      | Some opaque \<Rightarrow>
          (case format_info_of opaque of
             None \<Rightarrow> False
           | Some j \<Rightarrow> f_alpha i \<and> \<not> f_alpha j \<and> f_opaque j = None \<and> f_bpp j = f_bpp i \<and> f_depth j \<le> f_depth i) \<and>
          get_transparent opaque = Some (f_name i))"

lemma format_table_ok: "list_all (\<lambda>i. opaque_entry_ok i \<and> f_depth i \<le> f_bpp i \<and> f_bpp i \<le> 64) format_table"
  by code_simp

lemma shm_table_distinct: "distinct (map fst shm_format_table)" "distinct (map snd shm_format_table)"
  by code_simp+

lemma format_info_of_mem: "format_info_of f = Some i \<Longrightarrow> i \<in> set format_table \<and> f_name i = f"
  by (auto simp: format_info_of_def find_Some_iff in_set_conv_nth)

lemma get_bpp_le: "get_bpp f = Some b \<Longrightarrow> b \<le> 64"
  using format_table_ok format_info_of_mem[of f] by (auto simp: get_bpp_def list_all_iff)

lemma find_snd_distinct:
  "distinct (map snd ps) \<Longrightarrow> map_option fst (find (\<lambda>(_, y). y = s) ps) = Some x \<longleftrightarrow> (x, s) \<in> set ps"
  by (induction ps) (auto simp: image_iff)

lemma wl_bytes_per_pixel_range: "0 \<le> wl_bytes_per_pixel f" "wl_bytes_per_pixel f \<le> 8"
proof -
  have "b div 8 \<le> 8" if "get_bpp x = Some b" for x b using get_bpp_le[OF that] by linarith
  then show "0 \<le> wl_bytes_per_pixel f" "wl_bytes_per_pixel f \<le> 8"
    by (auto simp: wl_bytes_per_pixel_def split: wenum.splits option.splits)
qed

section \<open>Properties\<close>

text \<open>The format tables are consistent: the opaque alternative of a format has no alpha channel,
  the same size per pixel and no alternative of its own, and leads back to the format; and the
  formats of \<open>wl_shm\<close> and of the allocator are translated by two functions inverse to each other.\<close>

theorem formats_roundtrip:
  "(get_opaque f = Some g \<longrightarrow> has_alpha f \<and> \<not> has_alpha g \<and> get_bpp g = get_bpp f \<and> get_opaque g = None \<and>
      get_transparent g = Some f) \<and>
   (fourcc_to_shm_format f = Some s \<longleftrightarrow> shm_format_to_fourcc s = Some f)"
proof (intro conjI impI)
  assume "get_opaque f = Some g"
  then obtain i where i: "format_info_of f = Some i" "f_opaque i = Some g"
    by (auto simp: get_opaque_def bind_eq_Some_conv)
  then have "opaque_entry_ok i" and name: "f_name i = f"
    using format_table_ok format_info_of_mem[OF i(1)] by (auto simp: list_all_iff)
  then obtain j where j: "format_info_of g = Some j" "f_alpha i" "\<not> f_alpha j" "f_opaque j = None" "f_bpp j = f_bpp i"
    and tr: "get_transparent g = Some f"
    using i(2) by (auto simp: opaque_entry_ok_def split: option.splits)
  show "has_alpha f" "\<not> has_alpha g" "get_bpp g = get_bpp f" "get_opaque g = None"
    using i j by (simp_all add: has_alpha_def get_bpp_def get_opaque_def)
  show "get_transparent g = Some f" by (rule tr)
next
  have "fourcc_to_shm_format f = Some s \<longleftrightarrow> (f, s) \<in> set shm_format_table"
    unfolding fourcc_to_shm_format_def by (rule map_of_eq_Some_iff[OF shm_table_distinct(1)])
  then show "fourcc_to_shm_format f = Some s \<longleftrightarrow> shm_format_to_fourcc s = Some f"
    unfolding shm_format_to_fourcc_def find_snd_distinct[OF shm_table_distinct(2)] .
qed

theorem formats_roundtrip_witness:
  "get_opaque ''Argb8888'' = Some ''Xrgb8888'' \<and> get_transparent ''Xrgb8888'' = Some ''Argb8888'' \<and>
   get_bpp ''Xrgb8888'' = get_bpp ''Argb8888''"
proof -
  have "get_opaque ''Argb8888'' = Some ''Xrgb8888''" by code_simp
  then show ?thesis using formats_roundtrip[of "''Argb8888''" "''Xrgb8888''" "''Argb8888''"] by simp
qed

end
