(* ===== verification/Shm.thy ===== *)
theory Shm
  imports Formats
begin

text \<open>
  Shared memory buffers: \<open>src/wayland/shm/{mod,handlers,pool}.rs\<close>. The kernel is a parameter: what
  \<open>mmap\<close> answers, whether the replacement mapping of the signal handler succeeds, and which
  addresses fault because the client made the file shorter. A map is an address (none is the null
  pointer) and a size. A panic is \<open>None\<close>.
\<close>

section \<open>Memory maps\<close>

record mem_map =
  mm_ptr :: "nat option"
  mm_size :: nat

definition memmap_new :: "nat option \<Rightarrow> nat \<Rightarrow> mem_map option" where
  "memmap_new mmap bytes =
     (case mmap of None \<Rightarrow> None | Some p \<Rightarrow> Some \<lparr>mm_ptr = Some p, mm_size = bytes\<rparr>)"

definition memmap_remap :: "nat option \<Rightarrow> nat \<Rightarrow> mem_map \<Rightarrow> mem_map \<times> bool" where
  "memmap_remap mmap newsize m =
     (if mm_ptr m = None then (m, False)
      else case mmap of
        Some p \<Rightarrow> (\<lparr>mm_ptr = Some p, mm_size = newsize\<rparr>, True)
      | None \<Rightarrow> (\<lparr>mm_ptr = None, mm_size = 0\<rparr>, False))"

definition memmap_contains :: "mem_map \<Rightarrow> nat \<Rightarrow> bool" where
  "memmap_contains m a \<longleftrightarrow> (case mm_ptr m of None \<Rightarrow> a < mm_size m | Some p \<Rightarrow> p \<le> a \<and> a < p + mm_size m)"

datatype resize_error = Invalid_size | Mremap_failed

definition pool_resize :: "nat option \<Rightarrow> nat \<Rightarrow> mem_map \<Rightarrow> mem_map \<times> resize_error option" where
  "pool_resize mmap newsize m =
     (if mm_size m > newsize then (m, Some Invalid_size)
      else let (m', ok) = memmap_remap mmap newsize m in (m', if ok then None else Some Mremap_failed))"

section \<open>The requests\<close>

datatype shm_error = Invalid_format | Invalid_stride | Invalid_fd

record buffer_data =
  bd_offset :: i32
  bd_width :: i32
  bd_height :: i32
  bd_stride :: i32
  bd_format :: format

text \<open>\<open>size as usize\<close> of an \<open>i32\<close>.\<close>

definition i32_as_usize :: "i32 \<Rightarrow> nat" where
  "i32_as_usize x = nat (if 0 \<le> x then x else x + 2 ^ 64)"

definition create_pool :: "nat option \<Rightarrow> i32 \<Rightarrow> shm_error + mem_map" where
  "create_pool mmap bytes =
     (if bytes \<le> 0 then Inl Invalid_stride
      else case memmap_new mmap (i32_as_usize bytes) of None \<Rightarrow> Inl Invalid_fd | Some m \<Rightarrow> Inr m)"

text \<open>The checks of \<open>CreateBuffer\<close>, in their order; \<open>checked_div\<close> answers nothing for a zero divisor.\<close>

definition buffer_params_ok :: "mem_map \<Rightarrow> i32 \<Rightarrow> i32 \<Rightarrow> i32 \<Rightarrow> i32 \<Rightarrow> wenum \<Rightarrow> bool" where
  "buffer_params_ok m offset width height stride format =
     (if offset < 0 then False
      else if width \<le> 0 \<or> height \<le> 0 then False
      else if (case i32_div stride (wl_bytes_per_pixel format) of None \<Rightarrow> 0 | Some w \<Rightarrow> w) < width then False
      else if trunc_div I32_MAX stride < height then False
      else if offset > i32_sub (wrap32 (int (mm_size m))) (i32_mul stride height) then False
      else True)"

definition create_buffer :: "format list \<Rightarrow> mem_map \<Rightarrow> i32 \<Rightarrow> i32 \<Rightarrow> i32 \<Rightarrow> i32 \<Rightarrow> wenum \<Rightarrow> shm_error + buffer_data" where
  "create_buffer formats m offset width height stride format =
     (if \<not> buffer_params_ok m offset width height stride format then Inl Invalid_stride
      else case format of
        Value f \<Rightarrow>
          if f \<notin> set formats then Inl Invalid_format
          else Inr \<lparr>bd_offset = offset, bd_width = width, bd_height = height, bd_stride = stride, bd_format = f\<rparr>
      | Unknown _ \<Rightarrow> Inl Invalid_format)"

text \<open>The error for a size that is not positive does not end the request.\<close>

definition resize_request :: "nat option \<Rightarrow> i32 \<Rightarrow> mem_map \<Rightarrow> (shm_error list \<times> mem_map) option" where
  "resize_request mmap bytes m =
     (let errors = (if bytes \<le> 0 then [Invalid_fd] else [])
      in if i32_as_usize bytes = 0 then None
         else case pool_resize mmap (i32_as_usize bytes) m of
           (m', None) \<Rightarrow> Some (errors, m')
         | (m', Some err) \<Rightarrow> Some (errors @ [Invalid_fd], m'))"

section \<open>The formats of the global\<close>

definition MANDATORY_FORMATS :: "format list" where "MANDATORY_FORMATS = [''Argb8888'', ''Xrgb8888'']"

text \<open>What \<open>ShmState::new\<close> and \<open>update_formats\<close> keep: a set, here a list without duplicates.\<close>

definition shm_formats :: "format list \<Rightarrow> format list" where
  "shm_formats formats = fold List.insert MANDATORY_FORMATS (remdups formats)"

section \<open>The pools and buffers of a client\<close>

record shm_world =
  sh_formats :: "format list"
  sh_pools :: "nat \<Rightarrow> mem_map option"
  sh_buffers :: "nat \<Rightarrow> (nat \<times> buffer_data) option"
  sh_errors :: "shm_error list"

definition shm_new :: "format list \<Rightarrow> shm_world" where
  "shm_new formats = \<lparr>sh_formats = shm_formats formats, sh_pools = Map.empty, sh_buffers = Map.empty, sh_errors = []\<rparr>"

definition shm_update_formats :: "format list \<Rightarrow> shm_world \<Rightarrow> shm_world" where
  "shm_update_formats formats w = w\<lparr>sh_formats := shm_formats formats\<rparr>"

definition shm_create_pool :: "nat option \<Rightarrow> nat \<Rightarrow> i32 \<Rightarrow> shm_world \<Rightarrow> shm_world" where
  "shm_create_pool mmap p bytes w =
     (case create_pool mmap bytes of
        Inl e \<Rightarrow> w\<lparr>sh_errors := sh_errors w @ [e]\<rparr>
      | Inr m \<Rightarrow> w\<lparr>sh_pools := (sh_pools w)(p \<mapsto> m)\<rparr>)"

definition shm_create_buffer :: "nat \<Rightarrow> nat \<Rightarrow> i32 \<Rightarrow> i32 \<Rightarrow> i32 \<Rightarrow> i32 \<Rightarrow> wenum \<Rightarrow> shm_world \<Rightarrow> shm_world" where
  "shm_create_buffer p b offset width height stride format w =
     (case sh_pools w p of
        None \<Rightarrow> w
      | Some m \<Rightarrow>
          (case create_buffer (sh_formats w) m offset width height stride format of
             Inl e \<Rightarrow> w\<lparr>sh_errors := sh_errors w @ [e]\<rparr>
           | Inr d \<Rightarrow> w\<lparr>sh_buffers := (sh_buffers w)(b \<mapsto> (p, d))\<rparr>))"

definition shm_resize :: "nat option \<Rightarrow> nat \<Rightarrow> i32 \<Rightarrow> shm_world \<Rightarrow> shm_world option" where
  "shm_resize mmap p bytes w =
     (case sh_pools w p of
        None \<Rightarrow> Some w
      | Some m \<Rightarrow>
          (case resize_request mmap bytes m of
             None \<Rightarrow> None
           | Some (es, m') \<Rightarrow> Some (w\<lparr>sh_errors := sh_errors w @ es, sh_pools := (sh_pools w)(p \<mapsto> m')\<rparr>)))"

definition shm_destroy_buffer :: "nat \<Rightarrow> shm_world \<Rightarrow> shm_world" where
  "shm_destroy_buffer b w = w\<lparr>sh_buffers := (sh_buffers w)(b := None)\<rparr>"

text \<open>
  Everything a client can do, with any arguments. Identifiers of new objects are unused; a
  destroyed pool lives on in its buffers, so nothing happens to it here. Requests after a protocol
  error, which the library no longer delivers, are included.
\<close>

inductive shm_reachable :: "shm_world \<Rightarrow> bool" where
  shm_start: "shm_reachable (shm_new formats)"
| shm_formats_step: "shm_reachable w \<Longrightarrow> shm_reachable (shm_update_formats formats w)"
| shm_pool_step: "shm_reachable w \<Longrightarrow> sh_pools w p = None \<Longrightarrow> in_i32 bytes \<Longrightarrow>
    shm_reachable (shm_create_pool mmap p bytes w)"
| shm_buffer_step: "shm_reachable w \<Longrightarrow> sh_buffers w b = None \<Longrightarrow>
    in_i32 offset \<Longrightarrow> in_i32 width \<Longrightarrow> in_i32 height \<Longrightarrow> in_i32 stride \<Longrightarrow>
    shm_reachable (shm_create_buffer p b offset width height stride format w)"
| shm_resize_step: "shm_reachable w \<Longrightarrow> in_i32 bytes \<Longrightarrow> shm_resize mmap p bytes w = Some w' \<Longrightarrow> shm_reachable w'"
| shm_destroy_step: "shm_reachable w \<Longrightarrow> shm_reachable (shm_destroy_buffer b w)"

section \<open>Access to the contents\<close>

text \<open>
  The guard of the thread: the map that is being accessed and whether a fault was caught. The
  handler survives a fault inside that map when it can replace the mapping by anonymous memory,
  and then the map does not fault again; any other fault kills the process.
\<close>

record sigbus_guard =
  sg_map :: "mem_map option"
  sg_triggered :: bool

definition guard_idle :: sigbus_guard where
  "guard_idle = \<lparr>sg_map = None, sg_triggered = False\<rparr>"

definition sigbus_handler :: "bool \<Rightarrow> nat \<Rightarrow> sigbus_guard \<Rightarrow> sigbus_guard option" where
  "sigbus_handler nullified a g =
     (case sg_map g of
        None \<Rightarrow> None
      | Some m \<Rightarrow> if memmap_contains m a \<and> nullified then Some (g\<lparr>sg_triggered := True\<rparr>) else None)"

definition touch :: "(nat \<Rightarrow> bool) \<Rightarrow> bool \<Rightarrow> nat \<Rightarrow> sigbus_guard \<Rightarrow> sigbus_guard option" where
  "touch faults nullified a g =
     (if faults a \<and> \<not> (sg_triggered g \<and> (case sg_map g of None \<Rightarrow> False | Some m \<Rightarrow> memmap_contains m a))
      then sigbus_handler nullified a g else Some g)"

fun touch_all :: "(nat \<Rightarrow> bool) \<Rightarrow> bool \<Rightarrow> nat list \<Rightarrow> sigbus_guard \<Rightarrow> sigbus_guard option" where
  "touch_all faults nullified [] g = Some g"
| "touch_all faults nullified (a # as) g =
     (case touch faults nullified a g of None \<Rightarrow> None | Some g' \<Rightarrow> touch_all faults nullified as g')"

datatype 't access = Recursive_panic | Process_dies | Returns "'t option" sigbus_guard

text \<open>The closure gets the pointer and the size; what it does is the addresses it touches and its result.\<close>

definition with_data :: "(nat \<Rightarrow> bool) \<Rightarrow> bool \<Rightarrow> mem_map \<Rightarrow> (nat option \<Rightarrow> nat \<Rightarrow> nat list \<times> 't) \<Rightarrow> sigbus_guard \<Rightarrow> 't access" where
  "with_data faults nullified m f g =
     (if sg_map g \<noteq> None then Recursive_panic
      else let (addresses, t) = f (mm_ptr m) (mm_size m)
           in case touch_all faults nullified addresses \<lparr>sg_map = Some m, sg_triggered = False\<rparr> of
                None \<Rightarrow> Process_dies
              | Some g' \<Rightarrow> Returns (if sg_triggered g' then None else Some t) guard_idle)"

text \<open>\<open>with_buffer_contents\<close>: \<open>None\<close> is a buffer of another kind, and a fault is a protocol error.\<close>

definition with_buffer_contents :: "(nat \<Rightarrow> bool) \<Rightarrow> bool \<Rightarrow> nat \<Rightarrow> (nat option \<Rightarrow> nat \<Rightarrow> buffer_data \<Rightarrow> nat list \<times> 't) \<Rightarrow>
    sigbus_guard \<Rightarrow> shm_world \<Rightarrow> (shm_world \<times> 't access) option" where
  "with_buffer_contents faults nullified b f g w =
     (case sh_buffers w b of
        None \<Rightarrow> None
      | Some (p, d) \<Rightarrow>
          (case sh_pools w p of
             None \<Rightarrow> None
           | Some m \<Rightarrow>
               let r = with_data faults nullified m (\<lambda>ptr len. f ptr len d) g
               in Some (case r of Returns None _ \<Rightarrow> w\<lparr>sh_errors := sh_errors w @ [Invalid_fd]\<rparr> | _ \<Rightarrow> w, r)))"

section \<open>What a pool and a buffer keep\<close>

text \<open>
  A pool has a size that fits in an \<open>i32\<close>, or one no mapping can have (the cast of a negative
  number). The rows of a buffer lie inside of its pool, unless the mapping is lost.
\<close>

definition pool_wf :: "mem_map \<Rightarrow> bool" where
  "pool_wf m \<longleftrightarrow> int (mm_size m) \<le> I32_MAX \<or> 2 ^ 64 - 2 ^ 31 \<le> int (mm_size m)"

definition buffer_wf :: "buffer_data \<Rightarrow> bool" where
  "buffer_wf d \<longleftrightarrow> 0 \<le> bd_offset d \<and> bd_offset d \<le> I32_MAX \<and> 0 < bd_width d \<and> 0 < bd_height d \<and>
     0 < wl_bytes_per_pixel (Value (bd_format d)) \<and>
     bd_width d * wl_bytes_per_pixel (Value (bd_format d)) \<le> bd_stride d \<and>
     bd_stride d * bd_height d \<le> I32_MAX"

definition buffer_in_map :: "mem_map \<Rightarrow> buffer_data \<Rightarrow> bool" where
  "buffer_in_map m d \<longleftrightarrow> bd_offset d + bd_stride d * bd_height d \<le> int (mm_size m)"

definition map_lost :: "mem_map \<Rightarrow> bool" where
  "map_lost m \<longleftrightarrow> mm_ptr m = None \<and> mm_size m = 0"

definition buffer_backed :: "shm_world \<Rightarrow> nat \<times> buffer_data \<Rightarrow> bool" where
  "buffer_backed w e \<longleftrightarrow> (\<exists>m. sh_pools w (fst e) = Some m \<and> buffer_wf (snd e) \<and> (map_lost m \<or> buffer_in_map m (snd e)))"

definition shm_inv :: "shm_world \<Rightarrow> bool" where
  "shm_inv w \<longleftrightarrow> (\<forall>p m. sh_pools w p = Some m \<longrightarrow> pool_wf m) \<and> (\<forall>b e. sh_buffers w b = Some e \<longrightarrow> buffer_backed w e)"

lemma shm_invI:
  "(\<And>p m. sh_pools w p = Some m \<Longrightarrow> pool_wf m) \<Longrightarrow> (\<And>b e. sh_buffers w b = Some e \<Longrightarrow> buffer_backed w e) \<Longrightarrow> shm_inv w"
  by (auto simp: shm_inv_def)

lemma shm_inv_pool: "shm_inv w \<Longrightarrow> sh_pools w p = Some m \<Longrightarrow> pool_wf m"
  by (auto simp: shm_inv_def)

lemma shm_inv_buffer: "shm_inv w \<Longrightarrow> sh_buffers w b = Some e \<Longrightarrow> buffer_backed w e"
  unfolding shm_inv_def by blast

lemma shm_inv_cong: "shm_inv w \<Longrightarrow> sh_pools w' = sh_pools w \<Longrightarrow> sh_buffers w' = sh_buffers w \<Longrightarrow> shm_inv w'"
  by (simp add: shm_inv_def buffer_backed_def)

lemma i32_as_usize_pos: "in_i32 x \<Longrightarrow> 0 \<le> x \<Longrightarrow> int (i32_as_usize x) = x"
  and i32_as_usize_neg: "in_i32 x \<Longrightarrow> x < 0 \<Longrightarrow> int (i32_as_usize x) = x + 2 ^ 64"
  by (simp_all add: i32_as_usize_def in_i32_def)

lemma pool_wf_size: "in_i32 x \<Longrightarrow> pool_wf \<lparr>mm_ptr = p, mm_size = i32_as_usize x\<rparr>"
  using i32_as_usize_pos[of x] i32_as_usize_neg[of x] by (cases "0 \<le> x") (simp_all add: pool_wf_def in_i32_def)

lemma trunc_div_ge_iff: "0 < k \<Longrightarrow> 0 < n \<Longrightarrow> n \<le> trunc_div a k \<longleftrightarrow> n * k \<le> a"
proof -
  assume k: "0 < k" and n: "0 < n"
  show ?thesis
  proof (cases "0 \<le> a")
    case True
    then have "trunc_div a k = a div k" using k by (simp add: trunc_div_nonneg)
    moreover have "n \<le> a div k" if "n * k \<le> a" using zdiv_mono1[OF that k] k by simp
    moreover have "n * k \<le> a" if "n \<le> a div k"
      using mult_right_mono[OF that, of k] k minus_mod_eq_div_mult[of a k] pos_mod_sign[OF k, of a] by linarith
    ultimately show ?thesis by auto
  next
    case False
    then have "trunc_div a k \<le> 0" using k by (simp add: trunc_div_def sgn_if pos_imp_zdiv_nonneg_iff)
    moreover have "0 < n * k" using k n by simp
    ultimately show ?thesis using False n by linarith
  qed
qed

definition buffer_rows_ok :: "i32 \<Rightarrow> i32 \<Rightarrow> i32 \<Rightarrow> i32 \<Rightarrow> wenum \<Rightarrow> bool" where
  "buffer_rows_ok offset width height stride format \<longleftrightarrow> 0 \<le> offset \<and> 0 < width \<and> 0 < height \<and>
     0 < wl_bytes_per_pixel format \<and> width * wl_bytes_per_pixel format \<le> stride \<and> stride * height \<le> I32_MAX"

lemma stride_check:
  assumes "in_i32 stride" "0 < width"
  shows "(case i32_div stride (wl_bytes_per_pixel f) of None \<Rightarrow> 0 | Some w \<Rightarrow> w) < width \<longleftrightarrow>
    \<not> (0 < wl_bytes_per_pixel f \<and> width * wl_bytes_per_pixel f \<le> stride)"
proof (cases "wl_bytes_per_pixel f = 0")
  case True
  then show ?thesis using assms by (simp add: i32_div_def)
next
  case False
  then have k: "0 < wl_bytes_per_pixel f" using wl_bytes_per_pixel_range(1)[of f] by linarith
  then have "i32_div stride (wl_bytes_per_pixel f) = Some (trunc_div stride (wl_bytes_per_pixel f))"
    by (simp add: i32_div_def)
  then show ?thesis using trunc_div_ge_iff[OF k assms(2), of stride] k by (simp add: not_le[symmetric])
qed

lemma height_check:
  assumes "0 < stride" "0 < height"
  shows "trunc_div I32_MAX stride < height \<longleftrightarrow> \<not> stride * height \<le> I32_MAX"
  using trunc_div_ge_iff[OF assms, of I32_MAX] by (simp add: not_le[symmetric] mult.commute)

lemma rows_pos:
  assumes "buffer_rows_ok offset width height stride f"
  shows "0 < stride" "0 < stride * height"
proof -
  have "0 < width * wl_bytes_per_pixel f" using assms by (simp add: buffer_rows_ok_def)
  moreover have "width * wl_bytes_per_pixel f \<le> stride" using assms by (simp add: buffer_rows_ok_def)
  ultimately show "0 < stride" by linarith
  then show "0 < stride * height" using assms by (simp add: buffer_rows_ok_def)
qed

lemma buffer_params_ok_iff:
  assumes "in_i32 stride"
  shows "buffer_params_ok m offset width height stride f \<longleftrightarrow> buffer_rows_ok offset width height stride f \<and>
    offset \<le> i32_sub (wrap32 (int (mm_size m))) (stride * height)"
proof (cases "0 < width \<and> 0 < height \<and> 0 < wl_bytes_per_pixel f \<and> width * wl_bytes_per_pixel f \<le> stride")
  case True
  then have "0 < width * wl_bytes_per_pixel f" by simp
  then have "0 < stride" using True by linarith
  then have pos: "0 < stride * height" using True by simp
  have mul: "i32_mul stride height = stride * height" if "stride * height \<le> I32_MAX"
    using pos that by (simp add: i32_mul_def wrap32_id in_i32_def)
  show ?thesis
    using True stride_check[OF assms, of width f] height_check[OF \<open>0 < stride\<close>, of height] mul
    by (auto simp: buffer_params_ok_def buffer_rows_ok_def)
next
  case False
  then show ?thesis using stride_check[OF assms, of width f] by (auto simp: buffer_params_ok_def buffer_rows_ok_def)
qed

lemma buffer_params_ok_small:
  assumes "in_i32 stride" "int (mm_size m) \<le> I32_MAX"
  shows "buffer_params_ok m offset width height stride f \<longleftrightarrow> buffer_rows_ok offset width height stride f \<and>
    offset + stride * height \<le> int (mm_size m)"
proof (cases "buffer_rows_ok offset width height stride f")
  case True
  then have "in_i32 (int (mm_size m) - stride * height)" "in_i32 (int (mm_size m))"
    using rows_pos(2)[OF True] assms(2) by (simp_all add: in_i32_def buffer_rows_ok_def)
  then show ?thesis
    using True by (simp add: buffer_params_ok_iff[OF assms(1)] i32_sub_def wrap32_id le_diff_eq)
qed (simp add: buffer_params_ok_iff[OF assms(1)])

lemma buffer_params_ok_in_map:
  assumes "in_i32 stride" "in_i32 offset" "pool_wf m" "buffer_params_ok m offset width height stride f"
  shows "buffer_rows_ok offset width height stride f" "offset + stride * height \<le> int (mm_size m)"
proof -
  show r: "buffer_rows_ok offset width height stride f" using assms(4) by (simp add: buffer_params_ok_iff[OF assms(1)])
  show "offset + stride * height \<le> int (mm_size m)"
  proof (cases "int (mm_size m) \<le> I32_MAX")
    case True
    then show ?thesis using assms(4) by (simp add: buffer_params_ok_small[OF assms(1)])
  next
    case False
    then have "2 ^ 64 - 2 ^ 31 \<le> int (mm_size m)" using assms(3) by (simp add: pool_wf_def)
    moreover have "offset \<le> I32_MAX" "stride * height \<le> I32_MAX" using assms(2) r by (simp_all add: in_i32_def buffer_rows_ok_def)
    ultimately show ?thesis by simp
  qed
qed

lemma create_buffer_Inr:
  "create_buffer formats m offset width height stride format = Inr d \<longleftrightarrow>
     buffer_params_ok m offset width height stride format \<and>
     (\<exists>f. format = Value f \<and> f \<in> set formats \<and>
        d = \<lparr>bd_offset = offset, bd_width = width, bd_height = height, bd_stride = stride, bd_format = f\<rparr>)"
  by (auto simp: create_buffer_def split: wenum.splits)

lemma create_buffer_backed:
  assumes "create_buffer formats m offset width height stride format = Inr d" "in_i32 stride" "in_i32 offset" "pool_wf m"
  shows "buffer_wf d" "buffer_in_map m d"
  using assms buffer_params_ok_in_map[of stride offset m width height format]
  by (auto simp: create_buffer_Inr buffer_wf_def buffer_in_map_def buffer_rows_ok_def in_i32_def)

lemma resize_request_cases:
  assumes "resize_request mmap bytes m = Some (es, m')" "in_i32 bytes" "pool_wf m"
  shows "pool_wf m' \<and> (m' = m \<or> map_lost m' \<or> mm_ptr m \<noteq> None \<and> mm_size m \<le> mm_size m')"
proof -
  obtain err where r: "pool_resize mmap (i32_as_usize bytes) m = (m', err)"
    using assms(1) by (auto simp: resize_request_def Let_def split: if_splits prod.splits option.splits)
  then show ?thesis using assms(3) pool_wf_size[OF assms(2)]
    by (auto simp: pool_resize_def memmap_remap_def map_lost_def pool_wf_def split: if_splits option.splits)
qed

lemma buffer_backed_resize:
  assumes "buffer_backed w e" "sh_pools w p = Some m"
    "m' = m \<or> map_lost m' \<or> mm_ptr m \<noteq> None \<and> mm_size m \<le> mm_size m'"
  shows "buffer_backed (w\<lparr>sh_errors := es, sh_pools := (sh_pools w)(p \<mapsto> m')\<rparr>) e"
proof -
  obtain m0 where m0: "sh_pools w (fst e) = Some m0" "buffer_wf (snd e)" "map_lost m0 \<or> buffer_in_map m0 (snd e)"
    using assms(1) by (auto simp: buffer_backed_def)
  have "map_lost m' \<or> buffer_in_map m' (snd e)" if "m0 = m"
    using assms(3) m0(3) that by (auto simp: map_lost_def buffer_in_map_def)
  then show ?thesis using m0 assms(2) by (auto simp: buffer_backed_def)
qed

lemma shm_inv_reachable: "shm_reachable w \<Longrightarrow> shm_inv w"
proof (induction rule: shm_reachable.induct)
  case (shm_start formats)
  show ?case by (rule shm_invI) (simp_all add: shm_new_def)
next
  case (shm_formats_step w formats)
  show ?case by (rule shm_inv_cong[OF shm_formats_step.IH]) (simp_all add: shm_update_formats_def)
next
  case (shm_pool_step w p bytes mmap)
  show ?case
  proof (cases "create_pool mmap bytes")
    case (Inl e)
    then show ?thesis by (intro shm_inv_cong[OF shm_pool_step.IH]) (simp_all add: shm_create_pool_def)
  next
    case (Inr m)
    then have wf: "pool_wf m" using pool_wf_size[OF shm_pool_step.hyps(3)]
      by (auto simp: create_pool_def memmap_new_def split: if_splits option.splits)
    have "buffer_backed (shm_create_pool mmap p bytes w) e" if "sh_buffers w b = Some e" for b e
      using shm_inv_buffer[OF shm_pool_step.IH that] shm_pool_step.hyps(2) Inr
      by (auto simp: buffer_backed_def shm_create_pool_def)
    then show ?thesis using wf shm_inv_pool[OF shm_pool_step.IH] Inr
      by (intro shm_invI) (auto simp: shm_create_pool_def split: if_splits)
  qed
next
  case (shm_buffer_step w b offset width height stride p format)
  show ?case
  proof (cases "sh_pools w p")
    case None
    then show ?thesis using shm_buffer_step.IH by (simp add: shm_create_buffer_def)
  next
    case (Some m)
    show ?thesis
    proof (cases "create_buffer (sh_formats w) m offset width height stride format")
      case (Inl e)
      then show ?thesis using Some by (intro shm_inv_cong[OF shm_buffer_step.IH]) (simp_all add: shm_create_buffer_def)
    next
      case (Inr d)
      have "buffer_wf d" "buffer_in_map m d"
        by (rule create_buffer_backed[OF Inr shm_buffer_step.hyps(6,3) shm_inv_pool[OF shm_buffer_step.IH Some]])+
      then have "buffer_backed w (p, d)" using Some by (simp add: buffer_backed_def)
      then have "shm_inv (w\<lparr>sh_buffers := (sh_buffers w)(b \<mapsto> (p, d))\<rparr>)"
        using shm_inv_pool[OF shm_buffer_step.IH] shm_inv_buffer[OF shm_buffer_step.IH]
        by (intro shm_invI) (auto simp: buffer_backed_def split: if_splits)
      then show ?thesis using Some Inr by (simp add: shm_create_buffer_def)
    qed
  qed
next
  case (shm_resize_step w bytes mmap p w')
  show ?case
  proof (cases "sh_pools w p")
    case None
    then show ?thesis using shm_resize_step by (simp add: shm_resize_def)
  next
    case (Some m)
    then obtain es m' where r: "resize_request mmap bytes m = Some (es, m')"
      and w': "w' = w\<lparr>sh_errors := sh_errors w @ es, sh_pools := (sh_pools w)(p \<mapsto> m')\<rparr>"
      using shm_resize_step.hyps(3) by (auto simp: shm_resize_def split: option.splits)
    note c = resize_request_cases[OF r shm_resize_step.hyps(2) shm_inv_pool[OF shm_resize_step.IH Some]]
    show ?thesis
    proof (rule shm_invI)
      fix q n
      assume "sh_pools w' q = Some n"
      then show "pool_wf n" using c shm_inv_pool[OF shm_resize_step.IH] by (auto simp: w' split: if_splits)
    next
      fix b e
      assume "sh_buffers w' b = Some e"
      then have "buffer_backed w e" using shm_inv_buffer[OF shm_resize_step.IH] by (simp add: w')
      then show "buffer_backed w' e" unfolding w' by (rule buffer_backed_resize[OF _ Some conjunct2[OF c]])
    qed
  qed
next
  case (shm_destroy_step w b)
  show ?case
    using shm_inv_pool[OF shm_destroy_step.IH] shm_inv_buffer[OF shm_destroy_step.IH]
    by (intro shm_invI) (auto simp: shm_destroy_buffer_def buffer_backed_def split: if_splits)
qed

section \<open>The bytes of a buffer\<close>

text \<open>The position in the pool of every byte of every pixel.\<close>

definition buffer_byte :: "buffer_data \<Rightarrow> int \<Rightarrow> bool" where
  "buffer_byte d k \<longleftrightarrow> (\<exists>y x. 0 \<le> y \<and> y < bd_height d \<and> 0 \<le> x \<and>
     x < bd_width d * wl_bytes_per_pixel (Value (bd_format d)) \<and> k = bd_offset d + y * bd_stride d + x)"

lemma buffer_byte_bounds:
  assumes "buffer_wf d" "buffer_in_map m d" "buffer_byte d k"
  shows "0 \<le> k" "k < int (mm_size m)"
proof -
  obtain y x where k: "0 \<le> y" "y < bd_height d" "0 \<le> x" "x < bd_width d * wl_bytes_per_pixel (Value (bd_format d))"
    "k = bd_offset d + y * bd_stride d + x"
    using assms(3) by (auto simp: buffer_byte_def)
  have d: "0 \<le> bd_offset d" "bd_width d * wl_bytes_per_pixel (Value (bd_format d)) \<le> bd_stride d"
    using assms(1) by (simp_all add: buffer_wf_def)
  have s: "x < bd_stride d" "0 < bd_stride d" using k(3,4) d(2) by linarith+
  have "(y + 1) * bd_stride d \<le> bd_height d * bd_stride d" using k(2) s(2) by (intro mult_right_mono) simp_all
  then have "y * bd_stride d + x < bd_stride d * bd_height d" using s(1) by (simp add: algebra_simps)
  then show "k < int (mm_size m)" using assms(2) k(5) by (simp add: buffer_in_map_def)
  show "0 \<le> k" using k s d by simp
qed

lemma touch_all_contained:
  "sg_map g = Some m \<Longrightarrow> (\<And>a. a \<in> set as \<Longrightarrow> memmap_contains m a) \<Longrightarrow>
   touch_all faults True as g = Some (g\<lparr>sg_triggered := sg_triggered g \<or> (\<exists>a\<in>set as. faults a)\<rparr>)"
proof (induction as arbitrary: g)
  case (Cons a as)
  let ?g = "g\<lparr>sg_triggered := sg_triggered g \<or> faults a\<rparr>"
  have "touch faults True a g = Some ?g"
    using Cons.prems(1) Cons.prems(2)[of a] by (auto simp: touch_def sigbus_handler_def)
  moreover have "touch_all faults True as ?g = Some (?g\<lparr>sg_triggered := sg_triggered ?g \<or> (\<exists>a\<in>set as. faults a)\<rparr>)"
    using Cons.prems by (intro Cons.IH) simp_all
  ultimately show ?case by (simp add: disj_assoc)
qed simp

section \<open>Properties\<close>

text \<open>C11. The bytes of every buffer lie in its pool. Whatever pools and buffers a client creates, with
  whatever sizes, offsets and strides, and however it resizes the pools, each byte of each pixel of
  each buffer is inside of the mapping, or the mapping is lost and is known to be empty.\<close>

theorem shm_buffers_in_pool:
  assumes "shm_reachable w" "sh_buffers w b = Some (p, d)"
  shows "\<exists>m. sh_pools w p = Some m \<and> (map_lost m \<or> (\<forall>k. buffer_byte d k \<longrightarrow> 0 \<le> k \<and> k < int (mm_size m)))"
proof -
  have "buffer_backed w (p, d)" by (rule shm_inv_buffer[OF shm_inv_reachable[OF assms(1)] assms(2)])
  then show ?thesis using buffer_byte_bounds[of d] by (auto simp: buffer_backed_def)
qed

definition example_shm :: shm_world where
  "example_shm = shm_create_buffer 1 2 64 4 2 16 (Value ''Argb8888'') (shm_create_pool (Some 4096) 1 96 (shm_new []))"

definition example_buffer :: buffer_data where
  "example_buffer = \<lparr>bd_offset = 64, bd_width = 4, bd_height = 2, bd_stride = 16, bd_format = ''Argb8888''\<rparr>"

lemma argb_bytes: "wl_bytes_per_pixel (Value ''Argb8888'') = 4"
  by code_simp

lemma example_shm_eq:
  "shm_reachable example_shm" "sh_pools example_shm 1 = Some \<lparr>mm_ptr = Some 4096, mm_size = 96\<rparr>"
  "sh_buffers example_shm 2 = Some (1, example_buffer)"
proof -
  let ?m = "\<lparr>mm_ptr = Some 4096, mm_size = 96\<rparr>"
  have c: "create_pool (Some 4096) 96 = Inr ?m" by (simp add: create_pool_def memmap_new_def i32_as_usize_def)
  have "buffer_params_ok ?m 64 4 2 16 (Value ''Argb8888'')"
    by (simp add: buffer_params_ok_small in_i32_def buffer_rows_ok_def argb_bytes)
  then have b: "create_buffer (shm_formats []) ?m 64 4 2 16 (Value ''Argb8888'') = Inr example_buffer"
    by (simp add: create_buffer_def example_buffer_def shm_formats_def MANDATORY_FORMATS_def)
  show "sh_pools example_shm 1 = Some ?m" "sh_buffers example_shm 2 = Some (1, example_buffer)"
    using b by (simp_all add: example_shm_def shm_create_buffer_def shm_create_pool_def shm_new_def c)
  show "shm_reachable example_shm"
    unfolding example_shm_def
    by (intro shm_buffer_step shm_pool_step shm_start)
      (simp_all add: in_i32_def shm_new_def shm_create_pool_def c)
qed

theorem shm_buffers_in_pool_witness:
  "\<exists>m. sh_pools example_shm 1 = Some m \<and>
     (map_lost m \<or> (\<forall>k. buffer_byte example_buffer k \<longrightarrow> 0 \<le> k \<and> k < int (mm_size m)))"
  by (rule shm_buffers_in_pool[OF example_shm_eq(1,3)])

text \<open>The checks of \<open>create_buffer\<close> are exact. In a pool whose size fits in an \<open>i32\<close> no product or
  difference overflows and no quotient rounds the wrong way: a buffer is accepted exactly when its
  rows fit into the stride, its stride and height into an \<open>i32\<close>, and its end into the pool; then
  the format decides.\<close>

theorem create_buffer_exact:
  assumes "in_i32 stride" "int (mm_size m) \<le> I32_MAX"
  shows "create_buffer formats m offset width height stride format =
    (if buffer_rows_ok offset width height stride format \<and> offset + stride * height \<le> int (mm_size m)
     then (case format of
        Value f \<Rightarrow> (if f \<in> set formats
          then Inr \<lparr>bd_offset = offset, bd_width = width, bd_height = height, bd_stride = stride, bd_format = f\<rparr>
          else Inl Invalid_format)
      | Unknown x \<Rightarrow> Inl Invalid_format)
     else Inl Invalid_stride)"
  by (simp add: create_buffer_def buffer_params_ok_small[OF assms] split: wenum.splits)

theorem create_buffer_exact_witness:
  "create_buffer [''Argb8888''] \<lparr>mm_ptr = Some 4096, mm_size = 96\<rparr> 64 4 2 16 (Value ''Argb8888'') = Inr example_buffer"
proof -
  have r: "buffer_rows_ok 64 4 2 16 (Value ''Argb8888'')" by (simp add: buffer_rows_ok_def argb_bytes)
  show ?thesis
    using r create_buffer_exact[of 16 "\<lparr>mm_ptr = Some 4096, mm_size = 96\<rparr>" "[''Argb8888'']" 64 4 2 "Value ''Argb8888''"]
    by (simp add: in_i32_def example_buffer_def)
qed

text \<open>Access to a buffer survives a client that truncates its file. A closure that only touches
  bytes of the buffer returns whatever addresses fault, as long as the handler can replace the
  mapping: its result is given exactly when nothing it touched faulted, else the client gets a
  protocol error, and the guard is idle again for the next access.\<close>

theorem shm_access_survives:
  assumes "shm_reachable w" "sh_buffers w b = Some (p, d)" "sh_pools w p = Some m"
    and "f (mm_ptr m) (mm_size m) d = (addresses, t)"
    and "\<forall>a\<in>set addresses. \<exists>start k. mm_ptr m = Some start \<and> buffer_byte d k \<and> int a = int start + k"
  shows "with_buffer_contents faults True b f guard_idle w =
    (if \<exists>a\<in>set addresses. faults a
     then Some (w\<lparr>sh_errors := sh_errors w @ [Invalid_fd]\<rparr>, Returns None guard_idle)
     else Some (w, Returns (Some t) guard_idle))"
proof -
  have "buffer_backed w (p, d)" by (rule shm_inv_buffer[OF shm_inv_reachable[OF assms(1)] assms(2)])
  then have wf: "buffer_wf d" and m: "map_lost m \<or> buffer_in_map m d" using assms(3) by (auto simp: buffer_backed_def)
  have "memmap_contains m a" if "a \<in> set addresses" for a
  proof -
    from bspec[OF assms(5) that]
    obtain start k where a: "mm_ptr m = Some start" "buffer_byte d k" "int a = int start + k" by (elim exE conjE)
    have "buffer_in_map m d" using m a(1) by (simp add: map_lost_def)
    from buffer_byte_bounds[OF wf this a(2)] show ?thesis using a(1,3) by (simp add: memmap_contains_def)
  qed
  then have "touch_all faults True addresses \<lparr>sg_map = Some m, sg_triggered = False\<rparr> =
      Some \<lparr>sg_map = Some m, sg_triggered = (\<exists>a\<in>set addresses. faults a)\<rparr>"
    using touch_all_contained[of "\<lparr>sg_map = Some m, sg_triggered = False\<rparr>" m addresses faults] by simp
  then show ?thesis
    using assms(2-4) by (simp add: with_buffer_contents_def with_data_def guard_idle_def)
qed

theorem shm_access_survives_witness:
  "with_buffer_contents (\<lambda>a. 4096 \<le> a) True 2 (\<lambda>ptr len d. ([4175], True)) guard_idle example_shm =
     Some (example_shm\<lparr>sh_errors := sh_errors example_shm @ [Invalid_fd]\<rparr>, Returns None guard_idle)"
proof -
  have "buffer_byte example_buffer 79"
    unfolding buffer_byte_def by (rule exI[of _ 0], rule exI[of _ 15]) (simp add: example_buffer_def argb_bytes)
  then show ?thesis
    by (subst shm_access_survives[OF example_shm_eq(1,3,2), where addresses = "[4175]" and t = True]) auto
qed

text \<open>A resize to a size that is not positive is reported but carried out. A client that asks for
  zero bytes ends the compositor by a panic; for a negative size, which no mapping can have, the
  pool loses its mapping although the request is invalid.\<close>

theorem shm_resize_not_positive:
  assumes "sh_pools w p = Some m" "mm_ptr m = Some start" "int (mm_size m) \<le> I32_MAX" "in_i32 bytes" "bytes < 0"
  shows "shm_resize mmap p 0 w = None \<and>
    (\<exists>w'. shm_resize None p bytes w = Some w' \<and> sh_errors w' = sh_errors w @ [Invalid_fd, Invalid_fd] \<and>
       (\<exists>m'. sh_pools w' p = Some m' \<and> map_lost m'))"
proof -
  have big: "int (i32_as_usize bytes) = bytes + 2 ^ 64" by (rule i32_as_usize_neg[OF assms(4,5)])
  then have "\<not> i32_as_usize bytes < mm_size m" "i32_as_usize bytes \<noteq> 0" using assms(3,4) by (simp_all add: in_i32_def)
  then have "resize_request None bytes m = Some ([Invalid_fd, Invalid_fd], \<lparr>mm_ptr = None, mm_size = 0\<rparr>)"
    using assms(2,5) by (simp add: resize_request_def pool_resize_def memmap_remap_def)
  then show ?thesis
    using assms(1) by (simp add: shm_resize_def map_lost_def resize_request_def i32_as_usize_def)
qed

theorem shm_resize_not_positive_witness:
  "shm_resize (Some 4096) 1 0 example_shm = None"
  using shm_resize_not_positive[OF example_shm_eq(2), of 4096 "-1" "Some 4096"] by (simp add: in_i32_def)

end
