(* ===== verification/Swapchain.thy ===== *)
theory Swapchain
  imports Formats
begin

text \<open>
  The swapchain of \<open>src/backend/allocator/swapchain.rs\<close>. A slot lives at an address, its \<open>Arc\<close>; the
  swapchain holds four addresses and the compositor holds those of the \<open>Slot\<close>s it was given. The
  allocator is a parameter. A panic is \<open>None\<close>; user data of slots is left out.
\<close>

section \<open>State\<close>

abbreviation U8_MAX :: nat where "U8_MAX \<equiv> 255"

definition SLOT_CAP :: nat where "SLOT_CAP = 4"

record 'b internal_slot =
  sl_buffer :: "'b option"
  sl_acquired :: bool
  sl_age :: nat

definition slot_default :: "'b internal_slot" where
  "slot_default = \<lparr>sl_buffer = None, sl_acquired = False, sl_age = 0\<rparr>"

record 'b swapchain =
  sw_width :: nat
  sw_height :: nat
  sw_fourcc :: format
  sw_modifiers :: "nat list"
  sw_slots :: "nat list"
  sw_heap :: "nat \<Rightarrow> 'b internal_slot"
  sw_next :: nat
  sw_held :: "nat list"

definition on_slot :: "nat \<Rightarrow> ('b internal_slot \<Rightarrow> 'b internal_slot) \<Rightarrow> 'b swapchain \<Rightarrow> 'b swapchain" where
  "on_slot a f w = w\<lparr>sw_heap := (sw_heap w)(a := f (sw_heap w a))\<rparr>"

text \<open>\<open>Default::default()\<close> of an \<open>Arc\<close>: a new address.\<close>

definition new_slot :: "'b swapchain \<Rightarrow> nat \<times> 'b swapchain" where
  "new_slot w = (sw_next w, w\<lparr>sw_heap := (sw_heap w)(sw_next w := slot_default), sw_next := Suc (sw_next w)\<rparr>)"

text \<open>A loop over the slots that may replace each.\<close>

fun for_slots :: "(nat \<Rightarrow> 'b swapchain \<Rightarrow> nat \<times> 'b swapchain) \<Rightarrow> nat list \<Rightarrow> 'b swapchain \<Rightarrow> nat list \<times> 'b swapchain" where
  "for_slots f [] w = ([], w)"
| "for_slots f (s # ss) w =
     (let (s', w1) = f s w; (ss', w2) = for_slots f ss w1 in (s' # ss', w2))"

definition each_slot :: "(nat \<Rightarrow> 'b swapchain \<Rightarrow> nat \<times> 'b swapchain) \<Rightarrow> 'b swapchain \<Rightarrow> 'b swapchain" where
  "each_slot f w = (let (ss, w') = for_slots f (sw_slots w) w in w'\<lparr>sw_slots := ss\<rparr>)"

definition default_slots :: "'b swapchain \<Rightarrow> 'b swapchain" where
  "default_slots w = each_slot (\<lambda>_. new_slot) w"

definition swapchain_new :: "nat \<Rightarrow> nat \<Rightarrow> format \<Rightarrow> nat list \<Rightarrow> 'b swapchain" where
  "swapchain_new width height fourcc modifiers =
     \<lparr>sw_width = width, sw_height = height, sw_fourcc = fourcc, sw_modifiers = modifiers,
      sw_slots = [0..<SLOT_CAP], sw_heap = (\<lambda>_. slot_default), sw_next = SLOT_CAP, sw_held = []\<rparr>"

section \<open>Operations\<close>

text \<open>The references to a slot: the swapchain's and those of the compositor.\<close>

definition arc_count :: "nat \<Rightarrow> 'b swapchain \<Rightarrow> nat" where
  "arc_count a w = count_list (sw_slots w) a + count_list (sw_held w) a"

definition hand_out :: "nat \<Rightarrow> 'b swapchain \<Rightarrow> 'b swapchain" where
  "hand_out a w = w\<lparr>sw_held := a # sw_held w\<rparr>"

definition swapchain_acquire :: "(nat \<Rightarrow> nat \<Rightarrow> format \<Rightarrow> nat list \<Rightarrow> 'e + 'b) \<Rightarrow> 'b swapchain \<Rightarrow>
    ('b swapchain \<times> ('e + nat option)) option" where
  "swapchain_acquire alloc w =
     (case find (\<lambda>a. \<not> sl_acquired (sw_heap w a)) (sw_slots w) of
        None \<Rightarrow> Some (w, Inr None)
      | Some a \<Rightarrow>
          let w1 = on_slot a (\<lambda>s. s\<lparr>sl_acquired := True\<rparr>) w
          in if sl_buffer (sw_heap w1 a) = None
             then if arc_count a w1 \<noteq> 1 then None
                  else (case alloc (sw_width w1) (sw_height w1) (sw_fourcc w1) (sw_modifiers w1) of
                    Inr b \<Rightarrow> Some (hand_out a (on_slot a (\<lambda>s. s\<lparr>sl_buffer := Some b\<rparr>) w1), Inr (Some a))
                  | Inl e \<Rightarrow> Some (on_slot a (\<lambda>s. s\<lparr>sl_acquired := False\<rparr>) w1, Inl e))
             else Some (hand_out a w1, Inr (Some a)))"

definition slot_drop :: "nat \<Rightarrow> 'b swapchain \<Rightarrow> 'b swapchain" where
  "slot_drop a w = (on_slot a (\<lambda>s. s\<lparr>sl_acquired := False\<rparr>) w)\<lparr>sw_held := remove1 a (sw_held w)\<rparr>"

definition next_age :: "nat \<Rightarrow> nat option" where
  "next_age age = (if age > 0 then (if age < U8_MAX then Some (age + 1) else None) else Some 0)"

definition age_slot :: "nat \<Rightarrow> nat \<Rightarrow> 'b swapchain \<Rightarrow> nat \<times> 'b swapchain" where
  "age_slot submitted s w =
     (if s \<noteq> submitted \<and> sl_buffer (sw_heap w s) \<noteq> None
      then (case next_age (sl_age (sw_heap w s)) of
              Some age \<Rightarrow> (s, on_slot s (\<lambda>sl. sl\<lparr>sl_age := age\<rparr>) w)
            | None \<Rightarrow> new_slot w)
      else (s, w))"

definition swapchain_submitted :: "nat \<Rightarrow> 'b swapchain \<Rightarrow> 'b swapchain" where
  "swapchain_submitted a w =
     (if a \<notin> set (sw_slots w) then w
      else each_slot (age_slot a) (on_slot a (\<lambda>s. s\<lparr>sl_age := 1\<rparr>) w))"

definition swapchain_resize :: "nat \<Rightarrow> nat \<Rightarrow> 'b swapchain \<Rightarrow> 'b swapchain" where
  "swapchain_resize width height w =
     (if sw_width w = width \<and> sw_height w = height then w
      else default_slots (w\<lparr>sw_width := width, sw_height := height\<rparr>))"

definition swapchain_reset_buffers :: "'b swapchain \<Rightarrow> 'b swapchain" where
  "swapchain_reset_buffers w = default_slots w"

definition reset_age :: "nat \<Rightarrow> 'b swapchain \<Rightarrow> nat \<times> 'b swapchain" where
  "reset_age s w = (if arc_count s w = 1 then (s, on_slot s (\<lambda>sl. sl\<lparr>sl_age := 0\<rparr>) w) else new_slot w)"

definition swapchain_reset_buffer_ages :: "'b swapchain \<Rightarrow> 'b swapchain" where
  "swapchain_reset_buffer_ages w = each_slot reset_age w"

text \<open>
  Everything a compositor can do with its swapchain. The list holds the slots of the swapchain that
  were submitted since the ages were reset, the latest first.
\<close>

definition submissions :: "nat \<Rightarrow> 'b swapchain \<Rightarrow> nat list \<Rightarrow> nat list" where
  "submissions a w subs = (if a \<in> set (sw_slots w) then a # subs else subs)"

inductive swapchain_run :: "nat list \<Rightarrow> 'b swapchain \<Rightarrow> bool" where
  swap_start: "swapchain_run [] (swapchain_new width height fourcc modifiers)"
| swap_acquire: "swapchain_run subs w \<Longrightarrow> swapchain_acquire (alloc :: nat \<Rightarrow> nat \<Rightarrow> format \<Rightarrow> nat list \<Rightarrow> string + 'b) w = Some (w', r) \<Longrightarrow>
    swapchain_run subs w'"
| swap_submit: "swapchain_run subs w \<Longrightarrow> a \<in> set (sw_held w) \<Longrightarrow>
    swapchain_run (submissions a w subs) (swapchain_submitted a w)"
| swap_drop: "swapchain_run subs w \<Longrightarrow> a \<in> set (sw_held w) \<Longrightarrow> swapchain_run subs (slot_drop a w)"
| swap_resize: "swapchain_run subs w \<Longrightarrow> swapchain_run subs (swapchain_resize width height w)"
| swap_reset: "swapchain_run subs w \<Longrightarrow> swapchain_run subs (swapchain_reset_buffers w)"
| swap_reset_ages: "swapchain_run subs w \<Longrightarrow> swapchain_run [] (swapchain_reset_buffer_ages w)"

section \<open>Loops over the slots\<close>

lemma on_slot_simps [simp]:
  "sw_slots (on_slot a f w) = sw_slots w" "sw_held (on_slot a f w) = sw_held w" "sw_next (on_slot a f w) = sw_next w"
  "sw_width (on_slot a f w) = sw_width w" "sw_height (on_slot a f w) = sw_height w"
  "sw_heap (on_slot a f w) = (sw_heap w)(a := f (sw_heap w a))"
  by (simp_all add: on_slot_def)

lemma on_slot_cong: "f (sw_heap w a) = g (sw_heap w a) \<Longrightarrow> on_slot a f w = on_slot a g w"
  by (simp add: on_slot_def)

lemma on_slot_id: "f (sw_heap w a) = sw_heap w a \<Longrightarrow> on_slot a f w = w"
  by (simp add: on_slot_def)

text \<open>What a loop body may do: change the slot as \<open>P\<close> says or replace it.\<close>

definition slot_body :: "'b swapchain \<Rightarrow> (nat \<Rightarrow> 'b internal_slot \<Rightarrow> bool) \<Rightarrow> (nat \<Rightarrow> 'b swapchain \<Rightarrow> nat \<times> 'b swapchain) \<Rightarrow> bool" where
  "slot_body w0 P f \<longleftrightarrow> (\<forall>s w. s \<in> set (sw_slots w0) \<and> sw_slots w = sw_slots w0 \<and> sw_held w = sw_held w0 \<and>
     sw_heap w s = sw_heap w0 s \<longrightarrow> (\<exists>c. P s c \<and> f s w = (s, on_slot s (\<lambda>_. c) w)) \<or> f s w = new_slot w)"

lemma for_slots_spec:
  assumes "slot_body w0 P f" "for_slots f ss w = (ss', w')"
    and "distinct ss" "set ss \<subseteq> set (sw_slots w0)" "\<forall>a\<in>set ss. a < sw_next w \<and> sw_heap w a = sw_heap w0 a"
    and "sw_slots w = sw_slots w0" "sw_held w = sw_held w0"
  shows "length ss' = length ss \<and> distinct ss' \<and> sw_slots w' = sw_slots w0 \<and> sw_held w' = sw_held w0 \<and>
    sw_next w \<le> sw_next w' \<and>
    (\<forall>a\<in>set ss'. a \<in> set ss \<and> P a (sw_heap w' a) \<or>
       sw_next w \<le> a \<and> a < sw_next w' \<and> sw_heap w' a = slot_default) \<and>
    (\<forall>a. a < sw_next w \<and> a \<notin> set ss \<inter> set ss' \<longrightarrow> sw_heap w' a = sw_heap w a)"
  using assms(2-)
proof (induction ss arbitrary: ss' w w')
  case (Cons s ss)
  obtain s' w1 where s: "f s w = (s', w1)" by fastforce
  obtain ss1 w2 where r: "for_slots f ss w1 = (ss1, w2)" by fastforce
  have res: "ss' = s' # ss1" "w' = w2" using Cons.prems(1) s r by simp_all
  have s_in: "s \<in> set (sw_slots w0)" "s < sw_next w" "sw_heap w s = sw_heap w0 s" "s \<notin> set ss"
    using Cons.prems(2-4) by auto
  then have step: "(\<exists>c. P s c \<and> f s w = (s, on_slot s (\<lambda>_. c) w)) \<or> f s w = new_slot w"
    using assms(1) Cons.prems(5,6) unfolding slot_body_def by blast
  then have w1: "sw_slots w1 = sw_slots w0" "sw_held w1 = sw_held w0" "sw_next w \<le> sw_next w1"
    "\<forall>a. a < sw_next w \<and> \<not> (a = s \<and> s' = s) \<longrightarrow> sw_heap w1 a = sw_heap w a"
    using s Cons.prems(5,6) by (auto simp: new_slot_def)
  have s': "s' = s \<and> P s (sw_heap w1 s) \<or>
      s' = sw_next w \<and> sw_next w < sw_next w1 \<and> sw_heap w1 s' = slot_default"
    using step s by (auto simp: new_slot_def)
  have ih: "length ss1 = length ss \<and> distinct ss1 \<and> sw_slots w2 = sw_slots w0 \<and> sw_held w2 = sw_held w0 \<and>
    sw_next w1 \<le> sw_next w2 \<and>
    (\<forall>a\<in>set ss1. a \<in> set ss \<and> P a (sw_heap w2 a) \<or>
       sw_next w1 \<le> a \<and> a < sw_next w2 \<and> sw_heap w2 a = slot_default) \<and>
    (\<forall>a. a < sw_next w1 \<and> a \<notin> set ss \<inter> set ss1 \<longrightarrow> sw_heap w2 a = sw_heap w1 a)"
  proof (rule Cons.IH[OF r])
    show "distinct ss" "set ss \<subseteq> set (sw_slots w0)" using Cons.prems(2,3) by simp_all
    show "\<forall>a\<in>set ss. a < sw_next w1 \<and> sw_heap w1 a = sw_heap w0 a"
    proof
      fix a assume a: "a \<in> set ss"
      then have "a < sw_next w" "sw_heap w a = sw_heap w0 a" "a \<noteq> s" using Cons.prems(2,4) by auto
      then show "a < sw_next w1 \<and> sw_heap w1 a = sw_heap w0 a" using w1(3,4) by auto
    qed
  qed (use w1 in auto)
  have old: "a < sw_next w" if "a \<in> set ss" for a using Cons.prems(4) that by auto
  have "s' \<notin> set ss1"
  proof
    assume "s' \<in> set ss1"
    then have "s' \<in> set ss \<or> sw_next w1 \<le> s'" using ih by blast
    then show False using s' s_in(2,4) w1(3) old[of s'] by auto
  qed
  moreover have "sw_heap w2 s' = sw_heap w1 s'"
    using ih s' s_in(2) w1(3) \<open>s' \<notin> set ss1\<close> by auto
  moreover have "sw_heap w2 a = sw_heap w a" if "a < sw_next w" "a \<notin> set (s # ss) \<inter> set (s' # ss1)" for a
    using that ih w1(3,4) by auto
  ultimately show ?case unfolding res using ih s' w1 by auto
qed simp

lemma each_slot_spec:
  assumes "slot_body w P f" "distinct (sw_slots w)" "\<forall>a\<in>set (sw_slots w). a < sw_next w"
  defines "w' \<equiv> each_slot f w"
  shows "length (sw_slots w') = length (sw_slots w)" "distinct (sw_slots w')" "sw_held w' = sw_held w"
    "sw_next w \<le> sw_next w'"
    "a \<in> set (sw_slots w') \<Longrightarrow> a \<in> set (sw_slots w) \<and> P a (sw_heap w' a) \<or>
       sw_next w \<le> a \<and> a < sw_next w' \<and> sw_heap w' a = slot_default"
    "a < sw_next w \<Longrightarrow> a \<notin> set (sw_slots w) \<inter> set (sw_slots w') \<Longrightarrow> sw_heap w' a = sw_heap w a"
proof -
  obtain ss' w1 where r: "for_slots f (sw_slots w) w = (ss', w1)" by fastforce
  then have w': "w' = w1\<lparr>sw_slots := ss'\<rparr>" by (simp add: w'_def each_slot_def)
  note spec = for_slots_spec[OF assms(1) r assms(2) subset_refl _ refl refl]
  have "\<forall>a\<in>set (sw_slots w). a < sw_next w \<and> sw_heap w a = sw_heap w a" using assms(3) by simp
  note spec = spec[OF this]
  show "length (sw_slots w') = length (sw_slots w)" "distinct (sw_slots w')" "sw_held w' = sw_held w"
    "sw_next w \<le> sw_next w'"
    "a \<in> set (sw_slots w') \<Longrightarrow> a \<in> set (sw_slots w) \<and> P a (sw_heap w' a) \<or>
       sw_next w \<le> a \<and> a < sw_next w' \<and> sw_heap w' a = slot_default"
    "a < sw_next w \<Longrightarrow> a \<notin> set (sw_slots w) \<inter> set (sw_slots w') \<Longrightarrow> sw_heap w' a = sw_heap w a"
    using spec by (simp_all add: w')
qed

section \<open>The invariant\<close>

text \<open>How many submissions ago the slot was submitted: 1 for the last one, 0 for never.\<close>

fun age_of :: "nat \<Rightarrow> nat list \<Rightarrow> nat" where
  "age_of a [] = 0"
| "age_of a (x # xs) = (if x = a then 1 else if age_of a xs = 0 then 0 else age_of a xs + 1)"

lemma age_of_0_iff: "age_of a xs = 0 \<longleftrightarrow> a \<notin> set xs"
  by (induction xs) auto

lemma age_of_nth: "0 < age_of a xs \<Longrightarrow> age_of a xs \<le> length xs \<and> xs ! (age_of a xs - 1) = a \<and> a \<notin> set (take (age_of a xs - 1) xs)"
proof (induction xs)
  case (Cons x xs)
  show ?case
  proof (cases "x = a")
    case False
    then have "0 < age_of a xs" "age_of a (x # xs) = Suc (age_of a xs)" using Cons.prems by (auto split: if_splits)
    moreover obtain n where "age_of a xs = Suc n" using \<open>0 < age_of a xs\<close> by (cases "age_of a xs") simp_all
    ultimately show ?thesis using Cons.IH False by simp
  qed simp
qed simp

definition slot_ok :: "nat list \<Rightarrow> nat \<Rightarrow> 'b internal_slot \<Rightarrow> bool" where
  "slot_ok subs a c \<longleftrightarrow> sl_age c = age_of a subs \<and> sl_age c \<le> U8_MAX \<and> (sl_buffer c = None \<longrightarrow> sl_age c = 0)"

lemma slot_ok_acquired [simp]: "slot_ok subs a (c\<lparr>sl_acquired := x\<rparr>) = slot_ok subs a c"
  by (simp add: slot_ok_def)

definition acquired_ok :: "'b swapchain \<Rightarrow> nat \<Rightarrow> bool" where
  "acquired_ok w a \<longleftrightarrow> a < sw_next w \<and> (sl_acquired (sw_heap w a) \<longleftrightarrow> a \<in> set (sw_held w))"

definition held_ok :: "'b swapchain \<Rightarrow> nat \<Rightarrow> bool" where
  "held_ok w a \<longleftrightarrow> a < sw_next w \<and> sl_buffer (sw_heap w a) \<noteq> None"

definition swap_shape :: "'b swapchain \<Rightarrow> bool" where
  "swap_shape w \<longleftrightarrow> length (sw_slots w) = SLOT_CAP \<and> distinct (sw_slots w) \<and> distinct (sw_held w) \<and>
     (\<forall>a\<in>set (sw_slots w). acquired_ok w a) \<and> (\<forall>a\<in>set (sw_held w). held_ok w a)"

definition swap_inv :: "nat list \<Rightarrow> 'b swapchain \<Rightarrow> bool" where
  "swap_inv subs w \<longleftrightarrow> swap_shape w \<and> (\<forall>a\<in>set (sw_slots w). slot_ok subs a (sw_heap w a)) \<and> set subs \<subseteq> {..<sw_next w}"

lemma swap_shapeI:
  "length (sw_slots w) = SLOT_CAP \<Longrightarrow> distinct (sw_slots w) \<Longrightarrow> distinct (sw_held w) \<Longrightarrow>
   (\<And>a. a \<in> set (sw_slots w) \<Longrightarrow> acquired_ok w a) \<Longrightarrow> (\<And>a. a \<in> set (sw_held w) \<Longrightarrow> held_ok w a) \<Longrightarrow> swap_shape w"
  by (simp add: swap_shape_def)

lemma swap_shapeD:
  assumes "swap_shape w"
  shows "length (sw_slots w) = SLOT_CAP" "distinct (sw_slots w)" "distinct (sw_held w)"
    "a \<in> set (sw_slots w) \<Longrightarrow> acquired_ok w a" "a \<in> set (sw_held w) \<Longrightarrow> held_ok w a"
    "\<forall>a\<in>set (sw_slots w). a < sw_next w"
  using assms by (simp_all add: swap_shape_def acquired_ok_def)

lemma swap_invI:
  "swap_shape w \<Longrightarrow> (\<And>a. a \<in> set (sw_slots w) \<Longrightarrow> slot_ok subs a (sw_heap w a)) \<Longrightarrow> set subs \<subseteq> {..<sw_next w} \<Longrightarrow>
   swap_inv subs w"
  by (simp add: swap_inv_def)

lemma swap_invD:
  assumes "swap_inv subs w"
  shows "swap_shape w" "a \<in> set (sw_slots w) \<Longrightarrow> slot_ok subs a (sw_heap w a)" "set subs \<subseteq> {..<sw_next w}"
  using assms by (simp_all add: swap_inv_def)

text \<open>A loop keeps the invariant when its body leaves the buffer and the flag and sets the right age.\<close>

definition kept_slot :: "nat list \<Rightarrow> 'b swapchain \<Rightarrow> nat \<Rightarrow> 'b internal_slot \<Rightarrow> bool" where
  "kept_slot subs w a c \<longleftrightarrow> sl_buffer c = sl_buffer (sw_heap w a) \<and> sl_acquired c = sl_acquired (sw_heap w a) \<and> slot_ok subs a c"

lemma each_slot_inv:
  assumes shape: "swap_shape w" and body: "slot_body w (kept_slot subs w) f" and subs: "set subs \<subseteq> {..<sw_next w}"
  shows "swap_inv subs (each_slot f w)"
proof -
  let ?w = "each_slot f w"
  note D = swap_shapeD[OF shape] and S = each_slot_spec[OF body swap_shapeD(2)[OF shape] swap_shapeD(6)[OF shape]]
  have new: "a \<notin> set (sw_held w)" "a \<notin> set subs" if "sw_next w \<le> a" for a
    using that D(5)[of a] subs by (auto simp: held_ok_def)
  show ?thesis
  proof (intro swap_invI swap_shapeI)
    show "length (sw_slots ?w) = SLOT_CAP" "distinct (sw_slots ?w)" "distinct (sw_held ?w)" using S(1-3) D(1,3) by simp_all
    show "set subs \<subseteq> {..<sw_next ?w}" using subs S(4) by auto
    show "held_ok ?w a" if a: "a \<in> set (sw_held ?w)" for a
    proof -
      have h: "held_ok w a" using D(5) a S(3) by simp
      then have n: "a < sw_next w" by (simp add: held_ok_def)
      have "sl_buffer (sw_heap ?w a) = sl_buffer (sw_heap w a)"
        using S(5)[of a] S(6)[OF n] n by (cases "a \<in> set (sw_slots w) \<inter> set (sw_slots ?w)") (auto simp: kept_slot_def)
      then show ?thesis using h n S(4) by (simp add: held_ok_def)
    qed
    fix a assume a: "a \<in> set (sw_slots ?w)"
    show "acquired_ok ?w a"
      using S(5)[OF a] D(4)[of a] S(3,4) new by (auto simp: acquired_ok_def kept_slot_def slot_default_def)
    show "slot_ok subs a (sw_heap ?w a)"
      using S(5)[OF a] new age_of_0_iff[of a subs] by (auto simp: kept_slot_def slot_default_def slot_ok_def)
  qed
qed

lemma swap_inv_new: "swap_inv [] (swapchain_new width height fourcc modifiers)"
  by (intro swap_invI swap_shapeI)
    (simp_all add: swapchain_new_def SLOT_CAP_def slot_ok_def acquired_ok_def held_ok_def slot_default_def)

lemma swap_inv_default:
  assumes "swap_inv subs w"
  shows "swap_inv subs (default_slots w)"
  unfolding default_slots_def
  by (rule each_slot_inv[OF swap_invD(1)[OF assms] _ swap_invD(3)[OF assms]]) (simp add: slot_body_def)

lemma swap_inv_size: "swap_inv subs w \<Longrightarrow> swap_inv subs (w\<lparr>sw_width := width, sw_height := height\<rparr>)"
  by (simp add: swap_inv_def swap_shape_def held_ok_def acquired_ok_def)

lemma swap_inv_reset_ages:
  fixes w :: "'b swapchain"
  assumes "swap_inv subs w"
  shows "swap_inv [] (swapchain_reset_buffer_ages w)"
  unfolding swapchain_reset_buffer_ages_def
proof (rule each_slot_inv[OF swap_invD(1)[OF assms]])
  show "slot_body w (kept_slot [] w) reset_age"
    unfolding slot_body_def
  proof (intro allI impI, elim conjE)
    fix s and w' :: "'b swapchain" assume h: "sw_heap w' s = sw_heap w s"
    have "kept_slot [] w s ((sw_heap w s)\<lparr>sl_age := 0\<rparr>)" by (simp add: kept_slot_def slot_ok_def)
    moreover have "reset_age s w' = (s, on_slot s (\<lambda>_. (sw_heap w s)\<lparr>sl_age := 0\<rparr>) w') \<or> reset_age s w' = new_slot w'"
      using h by (simp add: reset_age_def on_slot_def)
    ultimately show "(\<exists>c. kept_slot [] w s c \<and> reset_age s w' = (s, on_slot s (\<lambda>_. c) w')) \<or> reset_age s w' = new_slot w'"
      by blast
  qed
qed simp

lemma next_age_of:
  assumes "next_age (age_of s subs) = Some n" "s \<noteq> a" "age_of s subs \<le> U8_MAX"
  shows "n = age_of s (a # subs)" "n \<le> U8_MAX"
  using assms by (auto simp: next_age_def split: if_splits)

lemma age_slot_cases:
  assumes "slot_ok subs s c" "s \<noteq> a" "sw_heap w s = c"
  shows "(\<exists>c'. sl_buffer c' = sl_buffer c \<and> sl_acquired c' = sl_acquired c \<and> slot_ok (a # subs) s c' \<and>
      age_slot a s w = (s, on_slot s (\<lambda>_. c') w)) \<or> age_slot a s w = new_slot w"
proof (cases "sl_buffer c")
  case None
  then have "slot_ok (a # subs) s c" "age_slot a s w = (s, on_slot s (\<lambda>_. c) w)"
    using assms by (auto simp: slot_ok_def age_slot_def on_slot_def)
  then show ?thesis by blast
next
  case (Some b)
  show ?thesis
  proof (cases "next_age (sl_age c)")
    case None
    then show ?thesis using Some assms by (simp add: age_slot_def)
  next
    case n: (Some n)
    have "slot_ok (a # subs) s (c\<lparr>sl_age := n\<rparr>)"
      using n Some assms(1) next_age_of[OF _ assms(2), of subs n] by (simp add: slot_ok_def)
    moreover have "age_slot a s w = (s, on_slot s (\<lambda>_. c\<lparr>sl_age := n\<rparr>) w)"
      using n Some assms(2,3) by (simp add: age_slot_def on_slot_def)
    ultimately show ?thesis by (intro disjI1 exI[of _ "c\<lparr>sl_age := n\<rparr>"]) simp
  qed
qed

lemma swap_inv_submitted:
  fixes w :: "'b swapchain"
  assumes inv: "swap_inv subs w" and held: "a \<in> set (sw_held w)"
  shows "swap_inv (submissions a w subs) (swapchain_submitted a w)"
proof (cases "a \<in> set (sw_slots w)")
  case True
  let ?w = "on_slot a (\<lambda>s. s\<lparr>sl_age := 1\<rparr>) w"
  note D = swap_shapeD[OF swap_invD(1)[OF inv]]
  have a: "sl_buffer (sw_heap w a) \<noteq> None" "a < sw_next w" using D(5)[OF held] by (simp_all add: held_ok_def)
  have "swap_inv (a # subs) (each_slot (age_slot a) ?w)"
  proof (rule each_slot_inv)
    show "swap_shape ?w"
      using D by (intro swap_shapeI) (auto simp: acquired_ok_def held_ok_def)
    show "set (a # subs) \<subseteq> {..<sw_next ?w}" using a(2) swap_invD(3)[OF inv] by simp
    show "slot_body ?w (kept_slot (a # subs) ?w) (age_slot a)"
      unfolding slot_body_def
    proof (intro allI impI, elim conjE)
      fix s and w' :: "'b swapchain" assume s: "s \<in> set (sw_slots ?w)" and h: "sw_heap w' s = sw_heap ?w s"
      show "(\<exists>c. kept_slot (a # subs) ?w s c \<and> age_slot a s w' = (s, on_slot s (\<lambda>_. c) w')) \<or> age_slot a s w' = new_slot w'"
      proof (cases "s = a")
        case True
        then have "kept_slot (a # subs) ?w s (sw_heap w' s)" "age_slot a s w' = (s, on_slot s (\<lambda>_. sw_heap w' s) w')"
          using h a(1) by (simp_all add: kept_slot_def slot_ok_def age_slot_def on_slot_id)
        then show ?thesis by blast
      next
        case False
        then have "slot_ok subs s (sw_heap w s)" "sw_heap w' s = sw_heap w s" using s h swap_invD(2)[OF inv] by simp_all
        from age_slot_cases[OF this(1) False this(2)] show ?thesis using False by (auto simp: kept_slot_def)
      qed
    qed
  qed
  then show ?thesis using True by (simp add: swapchain_submitted_def submissions_def)
qed (simp add: swapchain_submitted_def submissions_def inv)

lemma swap_inv_drop:
  assumes "swap_inv subs w"
  shows "swap_inv subs (slot_drop a w)"
proof -
  note D = swap_shapeD[OF swap_invD(1)[OF assms]]
  have "swap_shape (slot_drop a w)"
    using D by (intro swap_shapeI) (auto simp: slot_drop_def acquired_ok_def held_ok_def dest: notin_set_remove1)
  then show ?thesis using swap_invD(2,3)[OF assms] by (intro swap_invI) (auto simp: slot_drop_def)
qed

text \<open>The allocator is only asked for a slot without a buffer, and that slot is not shared.\<close>

lemma count_list_distinct: "distinct xs \<Longrightarrow> a \<in> set xs \<Longrightarrow> count_list xs a = 1"
  by (induction xs) (auto simp: count_list_0_iff)

lemma arc_count_free:
  assumes "swap_shape w" "a \<in> set (sw_slots w)" "sl_buffer (sw_heap w a) = None"
  shows "arc_count a w = 1" "a \<notin> set (sw_held w)"
proof -
  show "a \<notin> set (sw_held w)" using swap_shapeD(5)[OF assms(1), of a] assms(3) by (auto simp: held_ok_def)
  then show "arc_count a w = 1"
    using assms(2) swap_shapeD(2)[OF assms(1)] by (simp add: arc_count_def count_list_0_iff count_list_distinct)
qed

lemma find_free: "find P xs = Some a \<Longrightarrow> a \<in> set xs \<and> P a"
  by (auto simp: find_Some_iff in_set_conv_nth)

lemma acquire_cases:
  assumes shape: "swap_shape w"
  obtains (none) "swapchain_acquire alloc w = Some (w, Inr None)" "\<forall>a\<in>set (sw_slots w). a \<in> set (sw_held w)"
  | (failed) a e where "swapchain_acquire alloc w = Some (on_slot a (\<lambda>s. s\<lparr>sl_acquired := False\<rparr>) w, Inl e)"
      "a \<in> set (sw_slots w)" "a \<notin> set (sw_held w)" "sl_buffer (sw_heap w a) = None"
      "alloc (sw_width w) (sw_height w) (sw_fourcc w) (sw_modifiers w) = Inl e"
  | (got) a b where "swapchain_acquire alloc w =
        Some (hand_out a (on_slot a (\<lambda>s. s\<lparr>sl_acquired := True, sl_buffer := Some b\<rparr>) w), Inr (Some a))"
      "a \<in> set (sw_slots w)" "a \<notin> set (sw_held w)"
      "sl_buffer (sw_heap w a) = Some b \<or> sl_buffer (sw_heap w a) = None \<and>
         alloc (sw_width w) (sw_height w) (sw_fourcc w) (sw_modifiers w) = Inr b"
proof (cases "find (\<lambda>a. \<not> sl_acquired (sw_heap w a)) (sw_slots w)")
  case None
  then have "\<forall>a\<in>set (sw_slots w). sl_acquired (sw_heap w a)" by (simp add: find_None_iff)
  then show ?thesis using None swap_shapeD(4)[OF shape] by (intro none) (auto simp: swapchain_acquire_def acquired_ok_def)
next
  case (Some a)
  from find_free[OF Some] have a: "a \<in> set (sw_slots w)" "\<not> sl_acquired (sw_heap w a)" by simp_all
  then have free: "a \<notin> set (sw_held w)" using swap_shapeD(4)[OF shape] by (auto simp: acquired_ok_def)
  show ?thesis
  proof (cases "sl_buffer (sw_heap w a)")
    case (Some b)
    then have "on_slot a (\<lambda>s. s\<lparr>sl_acquired := True, sl_buffer := Some b\<rparr>) w = on_slot a (\<lambda>s. s\<lparr>sl_acquired := True\<rparr>) w"
      by (intro on_slot_cong) simp
    then show ?thesis using Some \<open>find _ _ = _\<close> a(1) free by (intro got[of a b]) (simp_all add: swapchain_acquire_def)
  next
    case None
    have "arc_count a (on_slot a (\<lambda>s. s\<lparr>sl_acquired := True\<rparr>) w) = 1"
      using arc_count_free(1)[OF shape a(1) None] by (simp add: arc_count_def)
    then show ?thesis
      using None Some a(1) free
      by (cases "alloc (sw_width w) (sw_height w) (sw_fourcc w) (sw_modifiers w)")
        (auto simp: swapchain_acquire_def on_slot_def intro: got failed)
  qed
qed

lemma swap_inv_hand_out:
  assumes inv: "swap_inv subs w" and a: "a \<in> set (sw_slots w)" "a \<notin> set (sw_held w)"
    and b: "sl_buffer (sw_heap w a) = Some b \<or> sl_buffer (sw_heap w a) = None"
  shows "swap_inv subs (hand_out a (on_slot a (\<lambda>s. s\<lparr>sl_acquired := True, sl_buffer := Some b\<rparr>) w))"
    (is "swap_inv subs ?w")
proof -
  note D = swap_shapeD[OF swap_invD(1)[OF inv]]
  have "swap_shape ?w"
    using D a D(4)[of a] by (intro swap_shapeI) (auto simp: hand_out_def acquired_ok_def held_ok_def)
  moreover have "slot_ok subs x (sw_heap ?w x)" if "x \<in> set (sw_slots ?w)" for x
    using swap_invD(2)[OF inv, of x] that by (auto simp: hand_out_def slot_ok_def)
  ultimately show ?thesis using swap_invD(3)[OF inv] by (intro swap_invI) (simp_all add: hand_out_def)
qed

lemma swap_inv_run: "swapchain_run subs w \<Longrightarrow> swap_inv subs w"
proof (induction rule: swapchain_run.induct)
  case (swap_acquire subs w alloc w' r)
  note inv = swap_acquire.IH
  show ?case
  proof (rule acquire_cases[OF swap_invD(1)[OF inv], of alloc], goal_cases none failed got)
    case none
    then show ?thesis using swap_acquire by simp
  next
    case (failed a e)
    then have "\<not> sl_acquired (sw_heap w a)" using swap_shapeD(4)[OF swap_invD(1)[OF inv]] by (auto simp: acquired_ok_def)
    then have "w' = w" using failed(1) swap_acquire.hyps(2) by (simp add: on_slot_id)
    then show ?thesis using inv by simp
  next
    case (got a b)
    then show ?thesis using swap_acquire.hyps(2) swap_inv_hand_out[OF inv got(2,3), of b] by auto
  qed
qed (simp_all add: swap_inv_new swap_inv_submitted swap_inv_drop swapchain_resize_def swapchain_reset_buffers_def
    swap_inv_default swap_inv_size swap_inv_reset_ages)

section \<open>Properties\<close>

text \<open>C18. The age of a slot is exact: the number of submissions since the slot itself was submitted,
  counting from one, or zero for a slot without contents that are known. It never leaves the range
  of a byte, because a slot that would is replaced.\<close>

theorem swapchain_age_exact:
  assumes "swapchain_run subs w" "a \<in> set (sw_slots w)"
  shows "sl_age (sw_heap w a) = age_of a subs \<and> sl_age (sw_heap w a) \<le> U8_MAX"
  using swap_invD(2)[OF swap_inv_run[OF assms(1)] assms(2)] by (auto simp: slot_ok_def)

definition example_acquired :: "unit swapchain" where
  "example_acquired = hand_out 0 (on_slot 0 (\<lambda>s. s\<lparr>sl_acquired := True, sl_buffer := Some ()\<rparr>) (swapchain_new 64 64 ''Xrgb8888'' []))"

definition example_chain :: "unit swapchain" where
  "example_chain = swapchain_submitted 0 example_acquired"

lemma example_acquire:
  "swapchain_acquire (\<lambda>_ _ _ _. Inr () :: string + unit) (swapchain_new 64 64 ''Xrgb8888'' []) = Some (example_acquired, Inr (Some 0))"
  by (simp add: swapchain_acquire_def swapchain_new_def SLOT_CAP_def slot_default_def upt_rec arc_count_def
      example_acquired_def on_slot_def hand_out_def)

lemma example_run: "swapchain_run [0] example_chain"
proof -
  have "swapchain_run [] example_acquired" by (rule swap_acquire[OF swap_start example_acquire])
  moreover have "submissions 0 example_acquired [] = [0]" "0 \<in> set (sw_held example_acquired)"
    by (simp_all add: submissions_def example_acquired_def hand_out_def swapchain_new_def SLOT_CAP_def)
  ultimately show ?thesis unfolding example_chain_def using swap_submit[of "[]" example_acquired 0] by simp
qed

lemma example_slots: "sw_slots example_chain = [0, 1, 2, 3]" "sw_held example_chain = [0]"
  by (simp_all add: example_chain_def example_acquired_def swapchain_submitted_def each_slot_def age_slot_def
      hand_out_def swapchain_new_def SLOT_CAP_def slot_default_def upt_rec on_slot_def)

theorem swapchain_age_exact_witness: "sl_age (sw_heap example_chain 0) = 1"
  using swapchain_age_exact[OF example_run, of 0] by (simp add: example_slots)

text \<open>A swapchain never panics and never gives out a slot twice. It has four slots; a slot it
  gives out is one of them, was free, and has a buffer, and it has none to give only if all four are held.\<close>

theorem swapchain_acquire_free:
  assumes "swapchain_run subs w"
  shows "\<exists>w' r. swapchain_acquire alloc w = Some (w', r) \<and> distinct (sw_held w') \<and>
    (case r of
       Inl e \<Rightarrow> w' = w \<and> alloc (sw_width w) (sw_height w) (sw_fourcc w) (sw_modifiers w) = Inl e
     | Inr None \<Rightarrow> w' = w \<and> card (set (sw_slots w) \<inter> set (sw_held w)) = SLOT_CAP
     | Inr (Some a) \<Rightarrow> a \<in> set (sw_slots w') \<and> a \<notin> set (sw_held w) \<and> sw_held w' = a # sw_held w \<and>
         sl_buffer (sw_heap w' a) \<noteq> None \<and> sl_age (sw_heap w' a) = age_of a subs)"
proof -
  have inv: "swap_inv subs w" by (rule swap_inv_run[OF assms])
  note shape = swap_invD(1)[OF inv]
  note D = swap_shapeD[OF shape]
  show ?thesis
  proof (rule acquire_cases[OF shape, of alloc], goal_cases none failed got)
    case none
    then have "set (sw_slots w) \<inter> set (sw_held w) = set (sw_slots w)" by blast
    then have "card (set (sw_slots w) \<inter> set (sw_held w)) = SLOT_CAP" using D(1,2) by (simp add: distinct_card)
    then show ?thesis using none(1) D(3) by simp
  next
    case (failed a e)
    then have "\<not> sl_acquired (sw_heap w a)" using D(4) by (auto simp: acquired_ok_def)
    then have "on_slot a (\<lambda>s. s\<lparr>sl_acquired := False\<rparr>) w = w" by (simp add: on_slot_id)
    then show ?thesis using failed(1,5) D(3) by simp
  next
    case (got a b)
    then have "sl_age (sw_heap w a) = age_of a subs" using swap_invD(2)[OF inv got(2)] by (simp add: slot_ok_def)
    then show ?thesis using got D(3) by (simp add: hand_out_def)
  qed
qed

theorem swapchain_acquire_free_witness:
  "\<exists>w' r. swapchain_acquire (\<lambda>_ _ _ _. Inl ''no memory'' :: string + unit) example_chain = Some (w', r) \<and> distinct (sw_held w')"
  using swapchain_acquire_free[OF example_run, of "\<lambda>_ _ _ _. Inl ''no memory''"] by blast

end
