(* ===== verification/Swapchain_Run.thy ===== *)
theory Swapchain_Run
  imports Swapchain Tracker_Props
begin

text \<open>
  A swapchain and an output damage tracker driven together, as a compositor does: it acquires a
  slot, renders with the age of the slot, submits the slot when something was drawn and drops it
  otherwise. What a buffer holds is a function of the slot's address. The ages of the swapchain are
  those the tracker relies on, so every frame shows its scene.
\<close>

inductive scanout_run :: "(('id, 'd) element \<Rightarrow> pixel \<Rightarrow> 'c \<Rightarrow> 'c) \<Rightarrow> (color \<Rightarrow> 'c) \<Rightarrow> (('id, 'd) element \<Rightarrow> bool) \<Rightarrow>
    (('id, 'd) element \<Rightarrow> ('id, 'd) element \<Rightarrow> bool) \<Rightarrow> fscale \<Rightarrow> (damage_split_axis \<Rightarrow> rect list \<Rightarrow> rect list) \<Rightarrow>
    nat list \<Rightarrow> 'b swapchain \<Rightarrow> (nat \<Rightarrow> pixel \<Rightarrow> 'c) \<Rightarrow> 'id tracker \<Rightarrow> (pixel \<Rightarrow> 'c) list \<Rightarrow> ('id, 'd) element set \<Rightarrow> bool"
  for paint background valid later sc srt where
    so_start: "scanout_run paint background valid later sc srt [] (swapchain_new width height fourcc modifiers) contents
      (tracker_from_mode m) [] {}"
  | so_nothing: "scanout_run paint background valid later sc srt subs w contents tr hist seen \<Longrightarrow>
      swapchain_acquire (alloc :: nat \<Rightarrow> nat \<Rightarrow> format \<Rightarrow> nat list \<Rightarrow> string + 'b) w = Some (w1, r) \<Longrightarrow> (\<forall>a. r \<noteq> Inr (Some a)) \<Longrightarrow>
      scanout_run paint background valid later sc srt subs w1 contents tr hist seen"
  | so_frame: "scanout_run paint background valid later sc srt subs w contents tr hist seen \<Longrightarrow>
      swapchain_acquire (alloc :: nat \<Rightarrow> nat \<Rightarrow> format \<Rightarrow> nat list \<Rightarrow> string + 'b) w = Some (w1, Inr (Some a)) \<Longrightarrow>
      frame_ok valid later sc seen [] fr \<Longrightarrow> fr_age fr = sl_age (sw_heap w1 a) \<Longrightarrow> fr_buffer fr = contents a \<Longrightarrow>
      render_frame srt tr fr = Some (tr', Inr (Render_result cmds (Some d) states)) \<Longrightarrow>
      scanout_run paint background valid later sc srt (submissions a w1 subs) (swapchain_submitted a w1)
        (contents(a := run_cmds paint background cmds (contents a))) tr'
        (run_cmds paint background cmds (contents a) # hist) (seen \<union> set (fr_elements fr))"
  | so_unchanged: "scanout_run paint background valid later sc srt subs w contents tr hist seen \<Longrightarrow>
      swapchain_acquire (alloc :: nat \<Rightarrow> nat \<Rightarrow> format \<Rightarrow> nat list \<Rightarrow> string + 'b) w = Some (w1, Inr (Some a)) \<Longrightarrow>
      frame_ok valid later sc seen [] fr \<Longrightarrow> fr_age fr = sl_age (sw_heap w1 a) \<Longrightarrow> fr_buffer fr = contents a \<Longrightarrow>
      render_frame srt tr fr = Some (tr', Inr (Render_result cmds None states)) \<Longrightarrow>
      scanout_run paint background valid later sc srt subs (slot_drop a w1) contents tr' hist (seen \<union> set (fr_elements fr))"
  | so_failed: "scanout_run paint background valid later sc srt subs w contents tr hist seen \<Longrightarrow>
      swapchain_acquire (alloc :: nat \<Rightarrow> nat \<Rightarrow> format \<Rightarrow> nat list \<Rightarrow> string + 'b) w = Some (w1, Inr (Some a)) \<Longrightarrow>
      frame_ok valid later sc seen [] fr \<Longrightarrow> fr_age fr = sl_age (sw_heap w1 a) \<Longrightarrow> fr_buffer fr = contents a \<Longrightarrow>
      render_frame srt tr fr = Some (tr', Inl err) \<Longrightarrow>
      scanout_run paint background valid later sc srt subs (slot_drop a w1) (contents(a := garbage)) tr' []
        (seen \<union> set (fr_elements fr))"
  | so_drop: "scanout_run paint background valid later sc srt subs w contents tr hist seen \<Longrightarrow> a \<in> set (sw_held w) \<Longrightarrow>
      scanout_run paint background valid later sc srt subs (slot_drop a w) contents tr hist seen"
  | so_resize: "scanout_run paint background valid later sc srt subs w contents tr hist seen \<Longrightarrow>
      scanout_run paint background valid later sc srt subs (swapchain_resize width height w) contents tr hist seen"
  | so_reset: "scanout_run paint background valid later sc srt subs w contents tr hist seen \<Longrightarrow>
      scanout_run paint background valid later sc srt subs (swapchain_reset_buffers w) contents tr hist seen"
  | so_reset_ages: "scanout_run paint background valid later sc srt subs w contents tr hist seen \<Longrightarrow>
      scanout_run paint background valid later sc srt [] (swapchain_reset_buffer_ages w) contents tr hist seen"

section \<open>What the buffers hold\<close>

definition contents_ok :: "nat list \<Rightarrow> (nat \<Rightarrow> pixel \<Rightarrow> 'c) \<Rightarrow> (pixel \<Rightarrow> 'c) list \<Rightarrow> bool" where
  "contents_ok subs contents hist \<longleftrightarrow>
     (\<forall>a. 0 < age_of a subs \<and> age_of a subs \<le> length hist \<longrightarrow> contents a = hist ! (age_of a subs - 1))"

lemma contents_ok_submit:
  assumes "contents_ok subs contents hist"
  shows "contents_ok (a # subs) (contents(a := c)) (c # hist)"
  using assms by (auto simp: contents_ok_def nth_Cons split: nat.splits)

lemma acquired_slot:
  assumes "swapchain_run subs w" "swapchain_acquire alloc w = Some (w1, Inr (Some a))"
  shows "a \<in> set (sw_slots w1)" "a \<in> set (sw_held w1)" "sl_age (sw_heap w1 a) = age_of a subs"
proof -
  have inv: "swap_inv subs w" by (rule swap_inv_run[OF assms(1)])
  obtain b where "w1 = hand_out a (on_slot a (\<lambda>s. s\<lparr>sl_acquired := True, sl_buffer := Some b\<rparr>) w)" "a \<in> set (sw_slots w)"
    by (rule acquire_cases[OF swap_invD(1)[OF inv], of alloc]) (use assms(2) in auto)
  then show "a \<in> set (sw_slots w1)" "a \<in> set (sw_held w1)" "sl_age (sw_heap w1 a) = age_of a subs"
    using swap_invD(2)[OF inv, of a] by (simp_all add: hand_out_def slot_ok_def)
qed

text \<open>The age of the slot makes its buffer the one the tracker expects.\<close>

lemma frame_ok_acquired:
  assumes "frame_ok valid later sc seen [] fr" "contents_ok subs contents hist"
    and "fr_age fr = age_of a subs" "fr_buffer fr = contents a"
  shows "frame_ok valid later sc seen hist fr"
  using assms by (auto simp: frame_ok_def contents_ok_def)

lemma scanout_run_inv:
  "scanout_run paint background valid later sc srt subs w contents tr hist seen \<Longrightarrow>
   swapchain_run subs w \<and> tracker_run paint background valid later sc srt tr hist seen \<and> contents_ok subs contents hist"
proof (induction rule: scanout_run.induct)
  case (so_start width height fourcc modifiers contents m)
  then show ?case by (simp add: swap_start run_start contents_ok_def)
next
  case (so_nothing subs w contents tr hist seen alloc w1 r)
  then show ?case using swap_acquire by blast
next
  case (so_frame subs w contents tr hist seen alloc w1 a fr tr' cmds d states)
  let ?c = "run_cmds paint background cmds (contents a)"
  have w1: "swapchain_run subs w1" using so_frame.IH so_frame.hyps(2) swap_acquire by blast
  note got = acquired_slot[OF conjunct1[OF so_frame.IH] so_frame.hyps(2)]
  have ok: "frame_ok valid later sc seen hist fr"
    by (rule frame_ok_acquired[OF so_frame.hyps(3) conjunct2[OF conjunct2[OF so_frame.IH]]])
      (use so_frame.hyps(4,5) got(3) in simp_all)
  have run: "tracker_run paint background valid later sc srt tr' (presented_frames paint background (fr_buffer fr) hist
      (Render_result cmds (Some d) states)) (seen \<union> set (fr_elements fr))"
    by (rule run_frame[OF conjunct1[OF conjunct2[OF so_frame.IH]] ok so_frame.hyps(6)])
  have subs: "submissions a w1 subs = a # subs" using got(1) by (simp add: submissions_def)
  show ?case
  proof (intro conjI)
    show "swapchain_run (submissions a w1 subs) (swapchain_submitted a w1)" by (rule swap_submit[OF w1 got(2)])
    show "tracker_run paint background valid later sc srt tr' (?c # hist) (seen \<union> set (fr_elements fr))"
      using run so_frame.hyps(5) by simp
    show "contents_ok (submissions a w1 subs) (contents(a := ?c)) (?c # hist)"
      unfolding subs by (rule contents_ok_submit[OF conjunct2[OF conjunct2[OF so_frame.IH]]])
  qed
next
  case (so_unchanged subs w contents tr hist seen alloc w1 a fr tr' cmds states)
  have w1: "swapchain_run subs w1" using so_unchanged.IH so_unchanged.hyps(2) swap_acquire by blast
  note got = acquired_slot[OF conjunct1[OF so_unchanged.IH] so_unchanged.hyps(2)]
  have ok: "frame_ok valid later sc seen hist fr"
    by (rule frame_ok_acquired[OF so_unchanged.hyps(3) conjunct2[OF conjunct2[OF so_unchanged.IH]]])
      (use so_unchanged.hyps(4,5) got(3) in simp_all)
  have "tracker_run paint background valid later sc srt tr' (presented_frames paint background (fr_buffer fr) hist
      (Render_result cmds None states)) (seen \<union> set (fr_elements fr))"
    by (rule run_frame[OF conjunct1[OF conjunct2[OF so_unchanged.IH]] ok so_unchanged.hyps(6)])
  then show ?case using swap_drop[OF w1 got(2)] so_unchanged.IH by simp
next
  case (so_failed subs w contents tr hist seen alloc w1 a fr tr' err garbage)
  have w1: "swapchain_run subs w1" using so_failed.IH so_failed.hyps(2) swap_acquire by blast
  note got = acquired_slot[OF conjunct1[OF so_failed.IH] so_failed.hyps(2)]
  have ok: "frame_ok valid later sc seen hist fr"
    by (rule frame_ok_acquired[OF so_failed.hyps(3) conjunct2[OF conjunct2[OF so_failed.IH]]])
      (use so_failed.hyps(4,5) got(3) in simp_all)
  have "tracker_run paint background valid later sc srt tr' [] (seen \<union> set (fr_elements fr))"
    by (rule run_failed[OF conjunct1[OF conjunct2[OF so_failed.IH]] ok so_failed.hyps(6)])
  moreover have "contents_ok subs (contents(a := garbage)) []" unfolding contents_ok_def by auto
  ultimately show ?case using swap_drop[OF w1 got(2)] by blast
qed (auto simp: contents_ok_def intro: swap_drop swap_resize swap_reset swap_reset_ages)

section \<open>Properties\<close>

text \<open>C1. A swapchain with a damage tracker shows the right picture. Acquire a slot, render any later
  scene with the age of the slot, submit it if there was damage and drop it if not; then, after any
  number of frames, failures, resizes and resets, the buffer that was just drawn, or the one last
  submitted when there is no damage, holds exactly the scene of the elements. The frames are those of
  \<open>frame_ok\<close>: on an output with a mode at one scale that stays the same, of valid elements with
  different ids, so that none is shown in several instances, and without framebuffer effects.\<close>

theorem swapchain_frames_show_scene:
  fixes alloc :: "nat \<Rightarrow> nat \<Rightarrow> format \<Rightarrow> nat list \<Rightarrow> string + 'b"
  assumes "painted_elements paint background valid later sc" and "sort_ok srt"
    and "scanout_run paint background valid later sc srt subs w contents tr hist seen"
    and "swapchain_acquire alloc w = Some (w1, Inr (Some a))"
    and "frame_ok valid later sc seen [] fr" "fr_age fr = sl_age (sw_heap w1 a)" "fr_buffer fr = contents a"
  shows "\<exists>tr' r. render_frame srt tr fr = Some (tr', r) \<and>
    (case r of
       Inl err \<Rightarrow> err = Rendering_error \<and> (\<exists>cmds. fr_fails fr cmds)
     | Inr (Render_result cmds (Some d) states) \<Rightarrow>
         (\<forall>p\<in>pixels (frame_area fr). run_cmds paint background cmds (contents a) p = frame_scene paint background fr p)
     | Inr (Render_result cmds None states) \<Rightarrow>
         (\<forall>p\<in>pixels (frame_area fr). hist \<noteq> [] \<and> (hist ! 0) p = frame_scene paint background fr p))"
proof -
  note inv = scanout_run_inv[OF assms(3)]
  have ok: "frame_ok valid later sc seen hist fr"
    by (rule frame_ok_acquired[OF assms(5) conjunct2[OF conjunct2[OF inv]]])
      (use assms(6,7) acquired_slot(3)[OF conjunct1[OF inv] assms(4)] in simp_all)
  obtain tr' r where r: "render_frame srt tr fr = Some (tr', r)"
    and out: "painted_elements.frame_outcome paint background valid sc tr' hist seen fr r"
    using painted_elements.frame_step[OF assms(1,2) ok painted_elements.run_inv[OF assms(1,2) conjunct1[OF conjunct2[OF inv]]]]
    by blast
  note shown = painted_elements.frame_outcome_shown[OF assms(1) out]
  show ?thesis
  proof (cases r)
    case (Inl err)
    then show ?thesis using r shown by simp
  next
    case (Inr res)
    then show ?thesis using r shown assms(7) by (cases res) (auto split: option.splits)
  qed
qed

lemma one_pane_ok: "frame_ok solid_valid solid_later (Fl_num 1, Fl_num 1) {} [] one_pane"
proof -
  have "solid_valid (pane 1 (strip 10 10 20 20) 0)"
    unfolding solid_valid_def pane_def by (intro exI conjI, rule refl) (simp add: in_i32_def)
  moreover have "output_ok (strip 0 0 100 100)"
    by (simp add: output_ok_def in_i32_def strip_loc)
  ultimately show ?thesis by (simp add: frame_ok_def pane_area one_pane_def) (simp add: pane_frame_def pane_def)
qed

theorem swapchain_frames_show_scene_witness:
  "\<exists>tr' r. render_frame axis_sort (tracker_from_mode (Mode_auto None)) one_pane = Some (tr', r) \<and>
    (case r of
       Inl err \<Rightarrow> err = Rendering_error \<and> (\<exists>cmds. fr_fails one_pane cmds)
     | Inr (Render_result cmds (Some d) states) \<Rightarrow>
         (\<forall>p\<in>pixels (frame_area one_pane).
            run_cmds (solid_paint (Fl_num 1, Fl_num 1)) solid_background cmds (fr_buffer one_pane) p =
            frame_scene (solid_paint (Fl_num 1, Fl_num 1)) solid_background one_pane p)
     | Inr (Render_result cmds None states) \<Rightarrow>
         (\<forall>p\<in>pixels (frame_area one_pane). [] \<noteq> ([] :: (pixel \<Rightarrow> color list) list) \<and>
            ([] ! 0) p = frame_scene (solid_paint (Fl_num 1, Fl_num 1)) solid_background one_pane p))"
  by (rule swapchain_frames_show_scene[OF solid.painted_elements_axioms axis_sort_ok so_start example_acquire one_pane_ok,
        where contents = "\<lambda>_. fr_buffer one_pane"])
    (simp_all add: one_pane_def pane_frame_def example_acquired_def hand_out_def swapchain_new_def slot_default_def)

end
