(* ===== verification/Positioner.thy ===== *)
theory Positioner
  imports Geometry Serials
begin

text \<open>
  The positioner of popups: \<open>PositionerState\<close> in \<open>src/wayland/shell/xdg/mod.rs\<close> and its requests in
  \<open>src/wayland/shell/xdg/handlers/positioner.rs\<close>. The arithmetic is that of \<open>i32\<close>: the operators of
  \<open>Point\<close> saturate, those on fields wrap. The edges an anchor or a gravity is asked for are the four
  single ones.
\<close>

section \<open>State\<close>

datatype side = Side_top | Side_bottom | Side_left | Side_right

datatype anchor = Anchor_none | Anchor_top | Anchor_bottom | Anchor_left | Anchor_right
  | Anchor_top_left | Anchor_bottom_left | Anchor_top_right | Anchor_bottom_right

datatype gravity = Gravity_none | Gravity_top | Gravity_bottom | Gravity_left | Gravity_right
  | Gravity_top_left | Gravity_bottom_left | Gravity_top_right | Gravity_bottom_right

record constraint_adjustment =
  ca_slide_x :: bool
  ca_slide_y :: bool
  ca_flip_x :: bool
  ca_flip_y :: bool
  ca_resize_x :: bool
  ca_resize_y :: bool

record positioner =
  po_rect_size :: sz
  po_anchor_rect :: rect
  po_anchor_edges :: anchor
  po_gravity :: gravity
  po_adjustment :: constraint_adjustment
  po_offset :: point
  po_reactive :: bool
  po_parent_size :: "sz option"
  po_parent_configure :: "serial option"

definition positioner_default :: positioner where
  "positioner_default = \<lparr>po_rect_size = size_new 0 0, po_anchor_rect = rect_new (point_new 0 0) (size_new 0 0),
     po_anchor_edges = Anchor_none, po_gravity = Gravity_none,
     po_adjustment = \<lparr>ca_slide_x = False, ca_slide_y = False, ca_flip_x = False, ca_flip_y = False,
       ca_resize_x = False, ca_resize_y = False\<rparr>,
     po_offset = point_new 0 0, po_reactive = False, po_parent_size = None, po_parent_configure = None\<rparr>"

fun anchor_has_edge :: "positioner \<Rightarrow> side \<Rightarrow> bool" where
  "anchor_has_edge p Side_top = (po_anchor_edges p = Anchor_top \<or> po_anchor_edges p = Anchor_top_left \<or>
     po_anchor_edges p = Anchor_top_right)"
| "anchor_has_edge p Side_bottom = (po_anchor_edges p = Anchor_bottom \<or> po_anchor_edges p = Anchor_bottom_left \<or>
     po_anchor_edges p = Anchor_bottom_right)"
| "anchor_has_edge p Side_left = (po_anchor_edges p = Anchor_left \<or> po_anchor_edges p = Anchor_top_left \<or>
     po_anchor_edges p = Anchor_bottom_left)"
| "anchor_has_edge p Side_right = (po_anchor_edges p = Anchor_right \<or> po_anchor_edges p = Anchor_top_right \<or>
     po_anchor_edges p = Anchor_bottom_right)"

fun gravity_has_edge :: "positioner \<Rightarrow> side \<Rightarrow> bool" where
  "gravity_has_edge p Side_top = (po_gravity p = Gravity_top \<or> po_gravity p = Gravity_top_left \<or>
     po_gravity p = Gravity_top_right)"
| "gravity_has_edge p Side_bottom = (po_gravity p = Gravity_bottom \<or> po_gravity p = Gravity_bottom_left \<or>
     po_gravity p = Gravity_bottom_right)"
| "gravity_has_edge p Side_left = (po_gravity p = Gravity_left \<or> po_gravity p = Gravity_top_left \<or>
     po_gravity p = Gravity_bottom_left)"
| "gravity_has_edge p Side_right = (po_gravity p = Gravity_right \<or> po_gravity p = Gravity_top_right \<or>
     po_gravity p = Gravity_bottom_right)"

section \<open>The geometry\<close>

definition get_anchor_point :: "positioner \<Rightarrow> point" where
  "get_anchor_point p =
     (let r = po_anchor_rect p;
          y = (if anchor_has_edge p Side_top then 0
               else if anchor_has_edge p Side_bottom then sh (rsize r)
               else trunc_div (sh (rsize r)) 2);
          x = (if anchor_has_edge p Side_left then 0
               else if anchor_has_edge p Side_right then sw (rsize r)
               else trunc_div (sw (rsize r)) 2)
      in \<lparr>px = i32_add (px (rloc r)) x, py = i32_add (py (rloc r)) y\<rparr>)"

definition get_geometry :: "positioner \<Rightarrow> rect" where
  "get_geometry p =
     (let loc = point_add (po_offset p) (get_anchor_point p);
          size = po_rect_size p;
          y = (if gravity_has_edge p Side_top then i32_sub (py loc) (sh size)
               else if \<not> gravity_has_edge p Side_bottom then i32_sub (py loc) (trunc_div (sh size) 2)
               else py loc);
          x = (if gravity_has_edge p Side_left then i32_sub (px loc) (sw size)
               else if \<not> gravity_has_edge p Side_right then i32_sub (px loc) (trunc_div (sw size) 2)
               else px loc)
      in \<lparr>rloc = \<lparr>px = x, py = y\<rparr>, rsize = size\<rparr>)"

record offsets =
  off_left :: i32
  off_right :: i32
  off_top :: i32
  off_bottom :: i32

definition compute_offsets :: "rect \<Rightarrow> rect \<Rightarrow> offsets" where
  "compute_offsets target popup =
     \<lparr>off_left = i32_sub (px (rloc target)) (px (rloc popup)),
      off_right = i32_sub (i32_add (px (rloc popup)) (sw (rsize popup))) (i32_add (px (rloc target)) (sw (rsize target))),
      off_top = i32_sub (py (rloc target)) (py (rloc popup)),
      off_bottom = i32_sub (i32_add (py (rloc popup)) (sh (rsize popup))) (i32_add (py (rloc target)) (sh (rsize target)))\<rparr>"

fun invert_anchor_x :: "anchor \<Rightarrow> anchor" where
  "invert_anchor_x Anchor_left = Anchor_right"
| "invert_anchor_x Anchor_right = Anchor_left"
| "invert_anchor_x Anchor_top_left = Anchor_top_right"
| "invert_anchor_x Anchor_top_right = Anchor_top_left"
| "invert_anchor_x Anchor_bottom_left = Anchor_bottom_right"
| "invert_anchor_x Anchor_bottom_right = Anchor_bottom_left"
| "invert_anchor_x x = x"

fun invert_anchor_y :: "anchor \<Rightarrow> anchor" where
  "invert_anchor_y Anchor_top = Anchor_bottom"
| "invert_anchor_y Anchor_bottom = Anchor_top"
| "invert_anchor_y Anchor_top_left = Anchor_bottom_left"
| "invert_anchor_y Anchor_top_right = Anchor_bottom_right"
| "invert_anchor_y Anchor_bottom_left = Anchor_top_left"
| "invert_anchor_y Anchor_bottom_right = Anchor_top_right"
| "invert_anchor_y x = x"

fun invert_gravity_x :: "gravity \<Rightarrow> gravity" where
  "invert_gravity_x Gravity_left = Gravity_right"
| "invert_gravity_x Gravity_right = Gravity_left"
| "invert_gravity_x Gravity_top_left = Gravity_top_right"
| "invert_gravity_x Gravity_top_right = Gravity_top_left"
| "invert_gravity_x Gravity_bottom_left = Gravity_bottom_right"
| "invert_gravity_x Gravity_bottom_right = Gravity_bottom_left"
| "invert_gravity_x x = x"

fun invert_gravity_y :: "gravity \<Rightarrow> gravity" where
  "invert_gravity_y Gravity_top = Gravity_bottom"
| "invert_gravity_y Gravity_bottom = Gravity_top"
| "invert_gravity_y Gravity_top_left = Gravity_bottom_left"
| "invert_gravity_y Gravity_top_right = Gravity_bottom_right"
| "invert_gravity_y Gravity_bottom_left = Gravity_top_left"
| "invert_gravity_y Gravity_bottom_right = Gravity_top_right"
| "invert_gravity_y x = x"

text \<open>The six adjustments, on the positioner, the geometry and the offsets that are still left.\<close>

type_synonym adjusting = "positioner \<times> rect \<times> offsets"

fun try_flip_x :: "rect \<Rightarrow> adjusting \<Rightarrow> adjusting" where
  "try_flip_x target (p, geo, off) =
     (if (off_left off > 0 \<or> off_right off > 0) \<and> ca_flip_x (po_adjustment p)
      then let new = p\<lparr>po_anchor_edges := invert_anchor_x (po_anchor_edges p),
                       po_gravity := invert_gravity_x (po_gravity p)\<rparr>;
               new_geo = get_geometry new;
               new_off = compute_offsets target new_geo
           in if off_left new_off \<le> 0 \<and> off_right new_off \<le> 0
              then (new, new_geo, off\<lparr>off_left := 0, off_right := 0\<rparr>) else (p, geo, off)
      else (p, geo, off))"

fun try_flip_y :: "rect \<Rightarrow> adjusting \<Rightarrow> adjusting" where
  "try_flip_y target (p, geo, off) =
     (if (off_top off > 0 \<or> off_bottom off > 0) \<and> ca_flip_y (po_adjustment p)
      then let new = p\<lparr>po_anchor_edges := invert_anchor_y (po_anchor_edges p),
                       po_gravity := invert_gravity_y (po_gravity p)\<rparr>;
               new_geo = get_geometry new;
               new_off = compute_offsets target new_geo
           in if off_top new_off \<le> 0 \<and> off_bottom new_off \<le> 0
              then (new, new_geo, off\<lparr>off_top := 0, off_bottom := 0\<rparr>) else (p, geo, off)
      else (p, geo, off))"

fun try_slide_x :: "rect \<Rightarrow> adjusting \<Rightarrow> adjusting" where
  "try_slide_x target (p, geo, off) =
     (if (off_left off > 0 \<or> off_right off > 0) \<and> ca_slide_x (po_adjustment p)
      then let loc = rloc geo;
               x = (if off_left off > 0 then i32_add (px loc) (off_left off)
                    else if off_right off > 0 then i32_sub (px loc) (min (off_right off) (i32_sub 0 (off_left off)))
                    else px loc);
               geo = geo\<lparr>rloc := loc\<lparr>px := x\<rparr>\<rparr>;
               new_off = compute_offsets target geo
           in (p, geo, off\<lparr>off_left := off_left new_off, off_right := off_right new_off\<rparr>)
      else (p, geo, off))"

fun try_slide_y :: "rect \<Rightarrow> adjusting \<Rightarrow> adjusting" where
  "try_slide_y target (p, geo, off) =
     (if (off_top off > 0 \<or> off_bottom off > 0) \<and> ca_slide_y (po_adjustment p)
      then let loc = rloc geo;
               y = (if off_top off > 0 then i32_add (py loc) (off_top off)
                    else if off_bottom off > 0 then i32_sub (py loc) (min (off_bottom off) (i32_sub 0 (off_top off)))
                    else py loc);
               geo = geo\<lparr>rloc := loc\<lparr>py := y\<rparr>\<rparr>;
               new_off = compute_offsets target geo
           in (p, geo, off\<lparr>off_top := off_top new_off, off_bottom := off_bottom new_off\<rparr>)
      else (p, geo, off))"

fun try_resize_x :: "adjusting \<Rightarrow> adjusting" where
  "try_resize_x (p, geo, off) =
     (if ca_resize_x (po_adjustment p)
      then let geo = (if off_left off > 0 \<and> off_left off < sw (rsize geo)
                 then geo\<lparr>rloc := (rloc geo)\<lparr>px := i32_add (px (rloc geo)) (off_left off)\<rparr>,
                          rsize := (rsize geo)\<lparr>sw := i32_sub (sw (rsize geo)) (off_left off)\<rparr>\<rparr>
                 else geo);
               geo = (if off_right off > 0 \<and> off_right off < sw (rsize geo)
                 then geo\<lparr>rsize := (rsize geo)\<lparr>sw := i32_sub (sw (rsize geo)) (off_right off)\<rparr>\<rparr>
                 else geo)
           in (p, geo, off)
      else (p, geo, off))"

fun try_resize_y :: "adjusting \<Rightarrow> adjusting" where
  "try_resize_y (p, geo, off) =
     (if ca_resize_y (po_adjustment p)
      then let geo = (if off_top off > 0 \<and> off_top off < sh (rsize geo)
                 then geo\<lparr>rloc := (rloc geo)\<lparr>py := i32_add (py (rloc geo)) (off_top off)\<rparr>,
                          rsize := (rsize geo)\<lparr>sh := i32_sub (sh (rsize geo)) (off_top off)\<rparr>\<rparr>
                 else geo);
               geo = (if off_bottom off > 0 \<and> off_bottom off < sh (rsize geo)
                 then geo\<lparr>rsize := (rsize geo)\<lparr>sh := i32_sub (sh (rsize geo)) (off_bottom off)\<rparr>\<rparr>
                 else geo)
           in (p, geo, off)
      else (p, geo, off))"

definition get_unconstrained_geometry :: "positioner \<Rightarrow> rect \<Rightarrow> rect" where
  "get_unconstrained_geometry p target =
     (let geo = get_geometry p; off = compute_offsets target geo;
          (_, geo, _) = try_resize_y (try_resize_x (try_slide_y target (try_slide_x target
            (try_flip_y target (try_flip_x target (p, geo, off))))))
      in geo)"

section \<open>The requests\<close>

datatype positioner_request = Set_size i32 i32 | Set_anchor_rect i32 i32 i32 i32 | Set_anchor "anchor option"
  | Set_gravity "gravity option" | Set_constraint_adjustment "constraint_adjustment option" | Set_offset i32 i32
  | Set_reactive | Set_parent_size i32 i32 | Set_parent_configure serial | Destroy_positioner

text \<open>The new state and whether \<open>invalid_input\<close> is posted. An unknown enum value is \<open>None\<close>.\<close>

fun positioner_handle :: "positioner_request \<Rightarrow> positioner \<Rightarrow> positioner \<times> bool" where
  "positioner_handle (Set_size width height) p =
     (if width < 1 \<or> height < 1 then (p, True) else (p\<lparr>po_rect_size := size_new width height\<rparr>, False))"
| "positioner_handle (Set_anchor_rect x y width height) p =
     (if width < 1 \<or> height < 1 then (p, True)
      else (p\<lparr>po_anchor_rect := rect_new (point_new x y) (size_new width height)\<rparr>, False))"
| "positioner_handle (Set_anchor a) p = (case a of Some anchor \<Rightarrow> p\<lparr>po_anchor_edges := anchor\<rparr> | None \<Rightarrow> p, False)"
| "positioner_handle (Set_gravity g) p = (case g of Some gravity \<Rightarrow> p\<lparr>po_gravity := gravity\<rparr> | None \<Rightarrow> p, False)"
| "positioner_handle (Set_constraint_adjustment c) p =
     (case c of Some adjustment \<Rightarrow> p\<lparr>po_adjustment := adjustment\<rparr> | None \<Rightarrow> p, False)"
| "positioner_handle (Set_offset x y) p = (p\<lparr>po_offset := point_new x y\<rparr>, False)"
| "positioner_handle Set_reactive p = (p\<lparr>po_reactive := True\<rparr>, False)"
| "positioner_handle (Set_parent_size width height) p = (p\<lparr>po_parent_size := Some (size_new width height)\<rparr>, False)"
| "positioner_handle (Set_parent_configure serial) p = (p\<lparr>po_parent_configure := Some serial\<rparr>, False)"
| "positioner_handle Destroy_positioner p = (p, False)"

declare anchor_has_edge.simps [simp del] gravity_has_edge.simps [simp del]

section \<open>One axis\<close>

text \<open>
  The reference: what the protocol says about one axis, on unbounded integers. A popup that fits
  stays. Otherwise it is flipped if that makes it fit; else it is slid to the near edge of the
  target, the low edge if it is too long; and what still sticks out is cut off.
\<close>

record axis =
  ax_anchor_low :: bool
  ax_anchor_high :: bool
  ax_gravity_low :: bool
  ax_gravity_high :: bool
  ax_start :: int
  ax_len :: int
  ax_offset :: int
  ax_flip :: bool
  ax_slide :: bool
  ax_resize :: bool

definition axis_place :: "axis \<Rightarrow> int \<Rightarrow> int" where
  "axis_place a ext = ax_offset a +
     (ax_start a + (if ax_anchor_low a then 0 else if ax_anchor_high a then ax_len a else ax_len a div 2)) -
     (if ax_gravity_low a then ext else if ax_gravity_high a then 0 else ext div 2)"

definition axis_flipped :: "axis \<Rightarrow> axis" where
  "axis_flipped a = a\<lparr>ax_anchor_low := ax_anchor_high a, ax_anchor_high := ax_anchor_low a,
     ax_gravity_low := ax_gravity_high a, ax_gravity_high := ax_gravity_low a\<rparr>"

definition axis_fits :: "int \<Rightarrow> int \<Rightarrow> int \<Rightarrow> int \<Rightarrow> bool" where
  "axis_fits t len pos ext \<longleftrightarrow> t \<le> pos \<and> pos + ext \<le> t + len"

definition axis_adjust :: "axis \<Rightarrow> int \<Rightarrow> int \<Rightarrow> int \<Rightarrow> int \<times> int" where
  "axis_adjust a ext t len =
     (if axis_fits t len (axis_place a ext) ext then (axis_place a ext, ext)
      else if ax_flip a \<and> axis_fits t len (axis_place (axis_flipped a) ext) ext
      then (axis_place (axis_flipped a) ext, ext)
      else
        let pos = (if \<not> ax_slide a then axis_place a ext
                   else if axis_place a ext < t then t else max t (t + len - ext))
        in if ax_resize a \<and> pos < t + len \<and> t < pos + ext
           then (max pos t, min (pos + ext) (t + len) - max pos t) else (pos, ext))"

text \<open>The steps of the code on one axis: position, size and the offsets to both edges.\<close>

type_synonym axis_state = "axis \<times> int \<times> int \<times> int \<times> int"

fun flip1 :: "int \<Rightarrow> int \<Rightarrow> axis_state \<Rightarrow> axis_state" where
  "flip1 t len (a, pos, ext, lo, hi) =
     (if (lo > 0 \<or> hi > 0) \<and> ax_flip a \<and> axis_fits t len (axis_place (axis_flipped a) ext) ext
      then (axis_flipped a, axis_place (axis_flipped a) ext, ext, 0, 0) else (a, pos, ext, lo, hi))"

fun slide1 :: "int \<Rightarrow> int \<Rightarrow> axis_state \<Rightarrow> axis_state" where
  "slide1 t len (a, pos, ext, lo, hi) =
     (if (lo > 0 \<or> hi > 0) \<and> ax_slide a
      then let pos' = (if lo > 0 then pos + lo else pos - min hi (- lo))
           in (a, pos', ext, t - pos', pos' + ext - (t + len))
      else (a, pos, ext, lo, hi))"

fun resize1 :: "axis_state \<Rightarrow> axis_state" where
  "resize1 (a, pos, ext, lo, hi) =
     (if ax_resize a
      then let (pos', ext') = (if lo > 0 \<and> lo < ext then (pos + lo, ext - lo) else (pos, ext));
               ext'' = (if hi > 0 \<and> hi < ext' then ext' - hi else ext')
           in (a, pos', ext'', lo, hi)
      else (a, pos, ext, lo, hi))"

lemma axis_steps_adjust:
  fixes a :: axis and ext t len :: int
  assumes "0 < len"
  defines "st \<equiv> (a, axis_place a ext, ext, t - axis_place a ext, axis_place a ext + ext - (t + len))"
  shows "case resize1 (slide1 t len (flip1 t len st)) of (_, pos', ext', _, _) \<Rightarrow> (pos', ext') = axis_adjust a ext t len"
proof (cases "axis_fits t len (axis_place a ext) ext")
  case True
  then show ?thesis by (simp add: st_def axis_adjust_def axis_fits_def)
next
  case False
  then have out: "t - axis_place a ext > 0 \<or> axis_place a ext + ext - (t + len) > 0" by (auto simp: axis_fits_def)
  show ?thesis
  proof (cases "ax_flip a \<and> axis_fits t len (axis_place (axis_flipped a) ext) ext")
    case True
    then show ?thesis using False out by (simp add: st_def axis_adjust_def)
  next
    case noflip: False
    have f: "flip1 t len st = st" using noflip by (auto simp: st_def)
    define pos where "pos = (if \<not> ax_slide a then axis_place a ext
                   else if axis_place a ext < t then t else max t (t + len - ext))"
    have s: "slide1 t len st = (a, pos, ext, t - pos, pos + ext - (t + len))"
      using out by (auto simp: st_def pos_def Let_def min_def max_def)
    have r: "axis_adjust a ext t len = (if ax_resize a \<and> pos < t + len \<and> t < pos + ext
           then (max pos t, min (pos + ext) (t + len) - max pos t) else (pos, ext))"
      by (simp only: axis_adjust_def pos_def Let_def if_not_P[OF False] if_not_P[OF noflip])
    show ?thesis unfolding f s r using assms(1) by (auto simp: max_def min_def)
  qed
qed

section \<open>The code acts on each axis alone\<close>

text \<open>Values far from the limits of \<open>i32\<close>, so that no operation overflows.\<close>

abbreviation POS_MAX :: int where "POS_MAX \<equiv> 67108864"

definition small_rect :: "rect \<Rightarrow> bool" where
  "small_rect r \<longleftrightarrow> \<bar>px (rloc r)\<bar> \<le> POS_MAX \<and> \<bar>py (rloc r)\<bar> \<le> POS_MAX \<and>
     0 \<le> sw (rsize r) \<and> sw (rsize r) \<le> POS_MAX \<and> 0 \<le> sh (rsize r) \<and> sh (rsize r) \<le> POS_MAX"

definition small_positioner :: "positioner \<Rightarrow> bool" where
  "small_positioner p \<longleftrightarrow> small_rect (po_anchor_rect p) \<and> small_rect (rect_new (po_offset p) (po_rect_size p))"

definition x_axis :: "positioner \<Rightarrow> axis" where
  "x_axis p = \<lparr>ax_anchor_low = anchor_has_edge p Side_left, ax_anchor_high = anchor_has_edge p Side_right,
     ax_gravity_low = gravity_has_edge p Side_left, ax_gravity_high = gravity_has_edge p Side_right,
     ax_start = px (rloc (po_anchor_rect p)), ax_len = sw (rsize (po_anchor_rect p)), ax_offset = px (po_offset p),
     ax_flip = ca_flip_x (po_adjustment p), ax_slide = ca_slide_x (po_adjustment p), ax_resize = ca_resize_x (po_adjustment p)\<rparr>"

definition y_axis :: "positioner \<Rightarrow> axis" where
  "y_axis p = \<lparr>ax_anchor_low = anchor_has_edge p Side_top, ax_anchor_high = anchor_has_edge p Side_bottom,
     ax_gravity_low = gravity_has_edge p Side_top, ax_gravity_high = gravity_has_edge p Side_bottom,
     ax_start = py (rloc (po_anchor_rect p)), ax_len = sh (rsize (po_anchor_rect p)), ax_offset = py (po_offset p),
     ax_flip = ca_flip_y (po_adjustment p), ax_slide = ca_slide_y (po_adjustment p), ax_resize = ca_resize_y (po_adjustment p)\<rparr>"

definition flip_x :: "positioner \<Rightarrow> positioner" where
  "flip_x p = p\<lparr>po_anchor_edges := invert_anchor_x (po_anchor_edges p), po_gravity := invert_gravity_x (po_gravity p)\<rparr>"

definition flip_y :: "positioner \<Rightarrow> positioner" where
  "flip_y p = p\<lparr>po_anchor_edges := invert_anchor_y (po_anchor_edges p), po_gravity := invert_gravity_y (po_gravity p)\<rparr>"

lemma flip_x_axes: "x_axis (flip_x p) = axis_flipped (x_axis p)" "y_axis (flip_x p) = y_axis p"
  by (cases "po_anchor_edges p"; cases "po_gravity p"; simp add: flip_x_def x_axis_def y_axis_def axis_flipped_def
      anchor_has_edge.simps gravity_has_edge.simps)+

lemma flip_y_axes: "y_axis (flip_y p) = axis_flipped (y_axis p)" "x_axis (flip_y p) = x_axis p"
  by (cases "po_anchor_edges p"; cases "po_gravity p"; simp add: flip_y_def x_axis_def y_axis_def axis_flipped_def
      anchor_has_edge.simps gravity_has_edge.simps)+

lemma flip_keeps:
  "po_rect_size (flip_x p) = po_rect_size p" "po_rect_size (flip_y p) = po_rect_size p"
  "small_positioner (flip_x p) = small_positioner p" "small_positioner (flip_y p) = small_positioner p"
  "po_adjustment (flip_x p) = po_adjustment p" "po_adjustment (flip_y p) = po_adjustment p"
  by (simp_all add: flip_x_def flip_y_def small_positioner_def)

lemma half_bounds: "0 \<le> n \<Longrightarrow> 0 \<le> n div 2 \<and> n div 2 \<le> n" for n :: int
  by linarith

lemma pick_bounds:
  fixes n m :: int
  assumes "0 \<le> n" "n \<le> m"
  shows "0 \<le> (if a then 0 else if b then n else n div 2)" "(if a then 0 else if b then n else n div 2) \<le> m"
    "0 \<le> (if a then n else if b then 0 else n div 2)" "(if a then n else if b then 0 else n div 2) \<le> m"
  using assms half_bounds[OF assms(1)] by simp_all

lemma axis_place_bound:
  assumes "\<bar>ax_start a\<bar> \<le> POS_MAX" "0 \<le> ax_len a" "ax_len a \<le> POS_MAX" "\<bar>ax_offset a\<bar> \<le> POS_MAX" "0 \<le> n" "n \<le> POS_MAX"
  shows "\<bar>axis_place a n\<bar> \<le> 4 * POS_MAX"
proof -
  define u where "u = (if ax_anchor_low a then 0 else if ax_anchor_high a then ax_len a else ax_len a div 2)"
  define v where "v = (if ax_gravity_low a then n else if ax_gravity_high a then 0 else n div 2)"
  have "0 \<le> u" "u \<le> POS_MAX" "0 \<le> v" "v \<le> POS_MAX"
    unfolding u_def v_def by (rule pick_bounds; use assms in simp)+
  moreover have "axis_place a n = ax_offset a + (ax_start a + u) - v" by (simp add: axis_place_def u_def v_def)
  ultimately show ?thesis using assms by (simp add: abs_le_iff)
qed

lemma gravity_shift: "in_i32 c \<Longrightarrow>
    (if low then i32_sub c n else if \<not> high then i32_sub c h else c) = i32_sub c (if low then n else if high then 0 else h)"
  by (simp add: i32_sub_def wrap32_id)

lemma get_geometry_axes:
  assumes "small_positioner p"
  shows "get_geometry p = \<lparr>rloc = \<lparr>px = axis_place (x_axis p) (sw (po_rect_size p)),
    py = axis_place (y_axis p) (sh (po_rect_size p))\<rparr>, rsize = po_rect_size p\<rparr>"
proof -
  define r where "r = po_anchor_rect p"
  define n where "n = po_rect_size p"
  define ofs where "ofs = po_offset p"
  have b: "\<bar>px (rloc r)\<bar> \<le> POS_MAX" "\<bar>py (rloc r)\<bar> \<le> POS_MAX" "0 \<le> sw (rsize r)" "sw (rsize r) \<le> POS_MAX"
    "0 \<le> sh (rsize r)" "sh (rsize r) \<le> POS_MAX" "\<bar>px ofs\<bar> \<le> POS_MAX" "\<bar>py ofs\<bar> \<le> POS_MAX"
    "0 \<le> sw n" "sw n \<le> POS_MAX" "0 \<le> sh n" "sh n \<le> POS_MAX"
    using assms by (simp_all add: small_positioner_def small_rect_def r_def n_def ofs_def rect_new_def)
  define gx where "gx = (if gravity_has_edge p Side_left then sw n else if gravity_has_edge p Side_right then 0 else sw n div 2)"
  define gy where "gy = (if gravity_has_edge p Side_top then sh n else if gravity_has_edge p Side_bottom then 0 else sh n div 2)"
  define qx where "qx = (if anchor_has_edge p Side_left then 0 else if anchor_has_edge p Side_right then sw (rsize r) else sw (rsize r) div 2)"
  define qy where "qy = (if anchor_has_edge p Side_top then 0 else if anchor_has_edge p Side_bottom then sh (rsize r) else sh (rsize r) div 2)"
  have q: "0 \<le> qx" "qx \<le> POS_MAX" "0 \<le> qy" "qy \<le> POS_MAX" "0 \<le> gx" "gx \<le> POS_MAX" "0 \<le> gy" "gy \<le> POS_MAX"
    unfolding qx_def qy_def gx_def gy_def by (rule pick_bounds; use b in simp)+
  have half: "trunc_div (sw (rsize r)) 2 = sw (rsize r) div 2" "trunc_div (sh (rsize r)) 2 = sh (rsize r) div 2"
    "trunc_div (sw n) 2 = sw n div 2" "trunc_div (sh n) 2 = sh n div 2"
    using b by (simp_all add: trunc_div_nonneg)
  have a: "get_anchor_point p = \<lparr>px = px (rloc r) + qx, py = py (rloc r) + qy\<rparr>"
  proof -
    have "get_anchor_point p = \<lparr>px = i32_add (px (rloc r)) qx, py = i32_add (py (rloc r)) qy\<rparr>"
      unfolding get_anchor_point_def Let_def r_def[symmetric] half qx_def qy_def by (rule refl)
    then show ?thesis using b q by (simp add: i32_ops_in_range in_i32_def abs_le_iff)
  qed
  have ip: "in_i32 (px ofs + (px (rloc r) + qx))" "in_i32 (py ofs + (py (rloc r) + qy))"
    "in_i32 (px ofs + (px (rloc r) + qx) - gx)" "in_i32 (py ofs + (py (rloc r) + qy) - gy)"
    using b q by (simp_all add: in_i32_def abs_le_iff)
  have loc: "point_add (po_offset p) (get_anchor_point p) =
      \<lparr>px = px ofs + (px (rloc r) + qx), py = py ofs + (py (rloc r) + qy)\<rparr>"
    using ip by (simp add: point_add_def a ofs_def[symmetric] i32_ops_in_range)
  have "get_geometry p = \<lparr>rloc = \<lparr>px = i32_sub (px ofs + (px (rloc r) + qx)) gx, py = i32_sub (py ofs + (py (rloc r) + qy)) gy\<rparr>, rsize = n\<rparr>"
    unfolding get_geometry_def Let_def loc n_def[symmetric] half point.simps
      gravity_shift[OF ip(1)] gravity_shift[OF ip(2)] gx_def gy_def by (rule refl)
  moreover have "axis_place (x_axis p) (sw n) = px ofs + (px (rloc r) + qx) - gx"
    "axis_place (y_axis p) (sh n) = py ofs + (py (rloc r) + qy) - gy"
    unfolding axis_place_def x_axis_def y_axis_def axis.simps n_def[symmetric] ofs_def[symmetric] r_def[symmetric]
      gx_def gy_def qx_def qy_def by (rule refl)+
  ultimately show ?thesis using ip(3,4) by (simp add: n_def[symmetric] i32_ops_in_range)
qed

section \<open>The simulation\<close>

text \<open>The offsets of an axis are exact, or zero after a flip.\<close>

definition axis_off_ok :: "int \<Rightarrow> int \<Rightarrow> int \<Rightarrow> int \<Rightarrow> int \<Rightarrow> int \<Rightarrow> bool" where
  "axis_off_ok t len pos ext lo hi \<longleftrightarrow>
     (lo = t - pos \<and> hi = pos + ext - (t + len)) \<or> (lo = 0 \<and> hi = 0)"

definition x_state :: "adjusting \<Rightarrow> axis_state" where
  "x_state st = (case st of (p, geo, off) \<Rightarrow> (x_axis p, px (rloc geo), sw (rsize geo), off_left off, off_right off))"

definition y_state :: "adjusting \<Rightarrow> axis_state" where
  "y_state st = (case st of (p, geo, off) \<Rightarrow> (y_axis p, py (rloc geo), sh (rsize geo), off_top off, off_bottom off))"

definition st_ok :: "rect \<Rightarrow> adjusting \<Rightarrow> bool" where
  "st_ok t st \<longleftrightarrow> (case st of (p, geo, off) \<Rightarrow> small_positioner p \<and>
     \<bar>px (rloc geo)\<bar> \<le> 4 * POS_MAX \<and> \<bar>py (rloc geo)\<bar> \<le> 4 * POS_MAX \<and> rsize geo = po_rect_size p \<and>
     axis_off_ok (px (rloc t)) (sw (rsize t)) (px (rloc geo)) (sw (rsize geo)) (off_left off) (off_right off) \<and>
     axis_off_ok (py (rloc t)) (sh (rsize t)) (py (rloc geo)) (sh (rsize geo)) (off_top off) (off_bottom off))"

lemma compute_offsets_exact:
  assumes "small_rect t" "\<bar>px (rloc geo)\<bar> \<le> 4 * POS_MAX" "\<bar>py (rloc geo)\<bar> \<le> 4 * POS_MAX"
    "0 \<le> sw (rsize geo)" "sw (rsize geo) \<le> POS_MAX" "0 \<le> sh (rsize geo)" "sh (rsize geo) \<le> POS_MAX"
  shows "compute_offsets t geo =
    \<lparr>off_left = px (rloc t) - px (rloc geo), off_right = px (rloc geo) + sw (rsize geo) - (px (rloc t) + sw (rsize t)),
     off_top = py (rloc t) - py (rloc geo), off_bottom = py (rloc geo) + sh (rsize geo) - (py (rloc t) + sh (rsize t))\<rparr>"
  using assms by (simp add: compute_offsets_def i32_ops_in_range in_i32_def small_rect_def abs_le_iff)

lemma small_positioner_size:
  assumes "small_positioner p"
  shows "0 \<le> sw (po_rect_size p)" "sw (po_rect_size p) \<le> POS_MAX" "0 \<le> sh (po_rect_size p)" "sh (po_rect_size p) \<le> POS_MAX"
  using assms by (simp_all add: small_positioner_def small_rect_def rect_new_def)

lemma place_bounds:
  assumes "small_positioner p"
  shows "\<bar>axis_place (x_axis p) (sw (po_rect_size p))\<bar> \<le> 4 * POS_MAX" "\<bar>axis_place (y_axis p) (sh (po_rect_size p))\<bar> \<le> 4 * POS_MAX"
  by (rule axis_place_bound;
      use assms in \<open>simp add: x_axis_def y_axis_def small_positioner_def small_rect_def rect_new_def\<close>)+

lemma start_ok:
  assumes t: "small_rect t" and p: "small_positioner p"
  defines "st \<equiv> (p, get_geometry p, compute_offsets t (get_geometry p))"
  shows "st_ok t st"
    "x_state st = (x_axis p, axis_place (x_axis p) (sw (po_rect_size p)), sw (po_rect_size p),
      px (rloc t) - axis_place (x_axis p) (sw (po_rect_size p)),
      axis_place (x_axis p) (sw (po_rect_size p)) + sw (po_rect_size p) - (px (rloc t) + sw (rsize t)))"
    "y_state st = (y_axis p, axis_place (y_axis p) (sh (po_rect_size p)), sh (po_rect_size p),
      py (rloc t) - axis_place (y_axis p) (sh (po_rect_size p)),
      axis_place (y_axis p) (sh (po_rect_size p)) + sh (po_rect_size p) - (py (rloc t) + sh (rsize t)))"
  using get_geometry_axes[OF p] compute_offsets_exact[OF t, of "get_geometry p"] place_bounds[OF p] small_positioner_size[OF p] p
  by (simp_all add: st_def st_ok_def x_state_def y_state_def axis_off_ok_def)

text \<open>Before any flip on an axis its position is where the positioner places the popup.\<close>

definition placed :: "adjusting \<Rightarrow> bool" where
  "placed st = (case st of (p, geo, off) \<Rightarrow> geo = get_geometry p)"

lemma try_flip_x_sim:
  assumes t: "small_rect t" and st: "st_ok t st" "placed st"
  shows "st_ok t (try_flip_x t st) \<and> placed (try_flip_x t st) \<and>
    x_state (try_flip_x t st) = flip1 (px (rloc t)) (sw (rsize t)) (x_state st) \<and> y_state (try_flip_x t st) = y_state st"
proof -
  obtain p geo off where s: "st = (p, geo, off)" by (cases st)
  have p: "small_positioner p" "geo = get_geometry p" "small_positioner (flip_x p)"
    using st by (simp_all add: s st_ok_def placed_def flip_keeps)
  note g = get_geometry_axes[OF p(1)] and g' = get_geometry_axes[OF p(3)]
  note o' = compute_offsets_exact[OF t, of "get_geometry (flip_x p)"]
  have off': "compute_offsets t (get_geometry (flip_x p)) =
    \<lparr>off_left = px (rloc t) - axis_place (axis_flipped (x_axis p)) (sw (po_rect_size p)),
     off_right = axis_place (axis_flipped (x_axis p)) (sw (po_rect_size p)) + sw (po_rect_size p) - (px (rloc t) + sw (rsize t)),
     off_top = py (rloc t) - axis_place (y_axis p) (sh (po_rect_size p)),
     off_bottom = axis_place (y_axis p) (sh (po_rect_size p)) + sh (po_rect_size p) - (py (rloc t) + sh (rsize t))\<rparr>"
    using o' g' place_bounds[OF p(3)] small_positioner_size[OF p(1)] by (simp add: flip_x_axes flip_keeps)
  have fits: "(off_left (compute_offsets t (get_geometry (flip_x p))) \<le> 0 \<and> off_right (compute_offsets t (get_geometry (flip_x p))) \<le> 0) \<longleftrightarrow>
    axis_fits (px (rloc t)) (sw (rsize t)) (axis_place (axis_flipped (x_axis p)) (sw (po_rect_size p))) (sw (po_rect_size p))"
    by (auto simp: off' axis_fits_def)
  have step: "try_flip_x t st = (if (off_left off > 0 \<or> off_right off > 0) \<and> ca_flip_x (po_adjustment p) \<and>
      axis_fits (px (rloc t)) (sw (rsize t)) (axis_place (axis_flipped (x_axis p)) (sw (po_rect_size p))) (sw (po_rect_size p))
      then (flip_x p, get_geometry (flip_x p), off\<lparr>off_left := 0, off_right := 0\<rparr>) else st)"
    unfolding fits[symmetric] s try_flip_x.simps Let_def flip_x_def[symmetric] by auto
  have ax: "ax_flip (x_axis p) = ca_flip_x (po_adjustment p)" by (simp add: x_axis_def)
  show ?thesis
    unfolding step
    using st g g' place_bounds[OF p(3)]
    by (auto simp: s p(2) st_ok_def placed_def x_state_def y_state_def flip_x_axes flip_keeps ax axis_off_ok_def p(3))
qed

lemma try_flip_y_sim:
  assumes t: "small_rect t" and st: "st_ok t st" "placed st"
  shows "st_ok t (try_flip_y t st) \<and> placed (try_flip_y t st) \<and>
    y_state (try_flip_y t st) = flip1 (py (rloc t)) (sh (rsize t)) (y_state st) \<and> x_state (try_flip_y t st) = x_state st"
proof -
  obtain p geo off where s: "st = (p, geo, off)" by (cases st)
  have p: "small_positioner p" "geo = get_geometry p" "small_positioner (flip_y p)"
    using st by (simp_all add: s st_ok_def placed_def flip_keeps)
  note g = get_geometry_axes[OF p(1)] and g' = get_geometry_axes[OF p(3)]
  note o' = compute_offsets_exact[OF t, of "get_geometry (flip_y p)"]
  have off': "compute_offsets t (get_geometry (flip_y p)) =
    \<lparr>off_left = px (rloc t) - axis_place (x_axis p) (sw (po_rect_size p)),
     off_right = axis_place (x_axis p) (sw (po_rect_size p)) + sw (po_rect_size p) - (px (rloc t) + sw (rsize t)),
     off_top = py (rloc t) - axis_place (axis_flipped (y_axis p)) (sh (po_rect_size p)),
     off_bottom = axis_place (axis_flipped (y_axis p)) (sh (po_rect_size p)) + sh (po_rect_size p) - (py (rloc t) + sh (rsize t))\<rparr>"
    using o' g' place_bounds[OF p(3)] small_positioner_size[OF p(1)] by (simp add: flip_y_axes flip_keeps)
  have fits: "(off_top (compute_offsets t (get_geometry (flip_y p))) \<le> 0 \<and> off_bottom (compute_offsets t (get_geometry (flip_y p))) \<le> 0) \<longleftrightarrow>
    axis_fits (py (rloc t)) (sh (rsize t)) (axis_place (axis_flipped (y_axis p)) (sh (po_rect_size p))) (sh (po_rect_size p))"
    by (auto simp: off' axis_fits_def)
  have step: "try_flip_y t st = (if (off_top off > 0 \<or> off_bottom off > 0) \<and> ca_flip_y (po_adjustment p) \<and>
      axis_fits (py (rloc t)) (sh (rsize t)) (axis_place (axis_flipped (y_axis p)) (sh (po_rect_size p))) (sh (po_rect_size p))
      then (flip_y p, get_geometry (flip_y p), off\<lparr>off_top := 0, off_bottom := 0\<rparr>) else st)"
    unfolding fits[symmetric] s try_flip_y.simps Let_def flip_y_def[symmetric] by auto
  have ax: "ax_flip (y_axis p) = ca_flip_y (po_adjustment p)" by (simp add: y_axis_def)
  show ?thesis
    unfolding step
    using st g g' place_bounds[OF p(3)]
    by (auto simp: s p(2) st_ok_def placed_def x_state_def y_state_def flip_y_axes flip_keeps ax axis_off_ok_def p(3))
qed

text \<open>Sliding moves at most to the edge of the target, so nothing overflows.\<close>

lemma try_slide_x_sim:
  assumes t: "small_rect t" and st: "st_ok t st"
  shows "st_ok t (try_slide_x t st) \<and>
    x_state (try_slide_x t st) = slide1 (px (rloc t)) (sw (rsize t)) (x_state st) \<and> y_state (try_slide_x t st) = y_state st"
proof -
  obtain p geo off where s: "st = (p, geo, off)" by (cases st)
  define lo where "lo = off_left off"
  define hi where "hi = off_right off"
  define x where "x = px (rloc geo)"
  note b = small_positioner_size[of p]
  have h: "small_positioner p" "\<bar>x\<bar> \<le> 4 * POS_MAX" "\<bar>py (rloc geo)\<bar> \<le> 4 * POS_MAX" "rsize geo = po_rect_size p"
    and off: "axis_off_ok (px (rloc t)) (sw (rsize t)) x (sw (po_rect_size p)) lo hi"
    using st by (auto simp: s st_ok_def x_def lo_def hi_def)
  have tb: "\<bar>px (rloc t)\<bar> \<le> POS_MAX" "0 \<le> sw (rsize t)" "sw (rsize t) \<le> POS_MAX" using t by (simp_all add: small_rect_def)
  define x' where "x' = (if lo > 0 then x + lo else x - min hi (- lo))"
  show ?thesis
  proof (cases "(lo > 0 \<or> hi > 0) \<and> ca_slide_x (po_adjustment p)")
    case False
    then have "try_slide_x t st = st" unfolding s try_slide_x.simps lo_def hi_def by (rule if_not_P)
    moreover have "slide1 (px (rloc t)) (sw (rsize t)) (x_state st) = x_state st"
      using False by (auto simp: s x_state_def x_axis_def lo_def hi_def)
    ultimately show ?thesis using st by simp
  next
    case True
    have e: "lo = px (rloc t) - x" "hi = x + sw (po_rect_size p) - (px (rloc t) + sw (rsize t))"
      using True off by (auto simp: axis_off_ok_def)
    have x'_b: "\<bar>x'\<bar> \<le> 4 * POS_MAX" using True e tb h(2) b[OF h(1)] by (auto simp: x'_def min_def abs_le_iff)
    have i: "in_i32 (x + lo)" "in_i32 (- lo)" "in_i32 (x - min hi (- lo))"
      using e tb h(2) b[OF h(1)] by (auto simp: min_def abs_le_iff in_i32_def)
    have code: "(if lo > 0 then i32_add x lo else if hi > 0 then i32_sub x (min hi (i32_sub 0 lo)) else x) = x'"
      using True i by (auto simp: x'_def i32_ops_in_range)
    define geo' where "geo' = geo\<lparr>rloc := (rloc geo)\<lparr>px := x'\<rparr>\<rparr>"
    have o': "compute_offsets t geo' =
      \<lparr>off_left = px (rloc t) - x', off_right = x' + sw (po_rect_size p) - (px (rloc t) + sw (rsize t)),
       off_top = py (rloc t) - py (rloc geo), off_bottom = py (rloc geo) + sh (po_rect_size p) - (py (rloc t) + sh (rsize t))\<rparr>"
      using compute_offsets_exact[OF t, of geo'] x'_b h(3,4) b[OF h(1)] by (simp add: geo'_def)
    have step: "try_slide_x t st = (p, geo', off\<lparr>off_left := px (rloc t) - x',
        off_right := x' + sw (po_rect_size p) - (px (rloc t) + sw (rsize t))\<rparr>)"
      unfolding s try_slide_x.simps Let_def lo_def[symmetric] hi_def[symmetric] x_def[symmetric] code
        geo'_def[symmetric] if_P[OF True] o' offsets.simps by (rule refl)
    have "slide1 (px (rloc t)) (sw (rsize t)) (x_state st) = x_state (try_slide_x t st)"
      unfolding step using True h(4) by (simp add: s x_state_def x_axis_def lo_def hi_def x_def x'_def geo'_def Let_def)
    moreover have "y_state (try_slide_x t st) = y_state st" unfolding step by (simp add: s y_state_def geo'_def)
    moreover have "st_ok t (try_slide_x t st)"
      unfolding step using st x'_b h(4) by (simp add: s st_ok_def axis_off_ok_def geo'_def)
    ultimately show ?thesis by simp
  qed
qed

lemma try_slide_y_sim:
  assumes t: "small_rect t" and st: "st_ok t st"
  shows "st_ok t (try_slide_y t st) \<and>
    y_state (try_slide_y t st) = slide1 (py (rloc t)) (sh (rsize t)) (y_state st) \<and> x_state (try_slide_y t st) = x_state st"
proof -
  obtain p geo off where s: "st = (p, geo, off)" by (cases st)
  define lo where "lo = off_top off"
  define hi where "hi = off_bottom off"
  define x where "x = py (rloc geo)"
  note b = small_positioner_size[of p]
  have h: "small_positioner p" "\<bar>x\<bar> \<le> 4 * POS_MAX" "\<bar>px (rloc geo)\<bar> \<le> 4 * POS_MAX" "rsize geo = po_rect_size p"
    and off: "axis_off_ok (py (rloc t)) (sh (rsize t)) x (sh (po_rect_size p)) lo hi"
    using st by (auto simp: s st_ok_def x_def lo_def hi_def)
  have tb: "\<bar>py (rloc t)\<bar> \<le> POS_MAX" "0 \<le> sh (rsize t)" "sh (rsize t) \<le> POS_MAX" using t by (simp_all add: small_rect_def)
  define x' where "x' = (if lo > 0 then x + lo else x - min hi (- lo))"
  show ?thesis
  proof (cases "(lo > 0 \<or> hi > 0) \<and> ca_slide_y (po_adjustment p)")
    case False
    then have "try_slide_y t st = st" unfolding s try_slide_y.simps lo_def hi_def by (rule if_not_P)
    moreover have "slide1 (py (rloc t)) (sh (rsize t)) (y_state st) = y_state st"
      using False by (auto simp: s y_state_def y_axis_def lo_def hi_def)
    ultimately show ?thesis using st by simp
  next
    case True
    have e: "lo = py (rloc t) - x" "hi = x + sh (po_rect_size p) - (py (rloc t) + sh (rsize t))"
      using True off by (auto simp: axis_off_ok_def)
    have x'_b: "\<bar>x'\<bar> \<le> 4 * POS_MAX" using True e tb h(2) b[OF h(1)] by (auto simp: x'_def min_def abs_le_iff)
    have i: "in_i32 (x + lo)" "in_i32 (- lo)" "in_i32 (x - min hi (- lo))"
      using e tb h(2) b[OF h(1)] by (auto simp: min_def abs_le_iff in_i32_def)
    have code: "(if lo > 0 then i32_add x lo else if hi > 0 then i32_sub x (min hi (i32_sub 0 lo)) else x) = x'"
      using True i by (auto simp: x'_def i32_ops_in_range)
    define geo' where "geo' = geo\<lparr>rloc := (rloc geo)\<lparr>py := x'\<rparr>\<rparr>"
    have o': "compute_offsets t geo' =
      \<lparr>off_left = px (rloc t) - px (rloc geo), off_right = px (rloc geo) + sw (po_rect_size p) - (px (rloc t) + sw (rsize t)),
       off_top = py (rloc t) - x', off_bottom = x' + sh (po_rect_size p) - (py (rloc t) + sh (rsize t))\<rparr>"
      using compute_offsets_exact[OF t, of geo'] x'_b h(3,4) b[OF h(1)] by (simp add: geo'_def)
    have step: "try_slide_y t st = (p, geo', off\<lparr>off_top := py (rloc t) - x',
        off_bottom := x' + sh (po_rect_size p) - (py (rloc t) + sh (rsize t))\<rparr>)"
      unfolding s try_slide_y.simps Let_def lo_def[symmetric] hi_def[symmetric] x_def[symmetric] code
        geo'_def[symmetric] if_P[OF True] o' offsets.simps by (rule refl)
    have "slide1 (py (rloc t)) (sh (rsize t)) (y_state st) = y_state (try_slide_y t st)"
      unfolding step using True h(4) by (simp add: s y_state_def y_axis_def lo_def hi_def x_def x'_def geo'_def Let_def)
    moreover have "x_state (try_slide_y t st) = x_state st" unfolding step by (simp add: s x_state_def geo'_def)
    moreover have "st_ok t (try_slide_y t st)"
      unfolding step using st x'_b h(4) by (simp add: s st_ok_def axis_off_ok_def geo'_def)
    ultimately show ?thesis by simp
  qed
qed

lemma cut_in_range:
  assumes "\<bar>pos\<bar> \<le> 4 * POS_MAX" "0 \<le> ext" "ext \<le> POS_MAX" "0 < lo" "lo < ext"
  shows "i32_add pos lo = pos + lo" "i32_sub ext lo = ext - lo" "0 \<le> ext - lo" "ext - lo \<le> POS_MAX"
  using assms by (simp_all add: i32_ops_in_range in_i32_def abs_le_iff)

lemma try_resize_x_sim:
  assumes "\<bar>px (rloc (fst (snd st)))\<bar> \<le> 4 * POS_MAX" "0 \<le> sw (rsize (fst (snd st)))" "sw (rsize (fst (snd st))) \<le> POS_MAX"
  shows "x_state (try_resize_x st) = resize1 (x_state st) \<and> y_state (try_resize_x st) = y_state st"
proof -
  obtain p geo off where s: "st = (p, geo, off)" by (cases st)
  have b: "\<bar>px (rloc geo)\<bar> \<le> 4 * POS_MAX" "0 \<le> sw (rsize geo)" "sw (rsize geo) \<le> POS_MAX" using assms by (simp_all add: s)
  have ax: "ax_resize (x_axis p) = ca_resize_x (po_adjustment p)" by (simp add: x_axis_def)
  show ?thesis
  proof (cases "off_left off > 0 \<and> off_left off < sw (rsize geo)")
    case True
    note c = cut_in_range[OF b conjunct1[OF True] conjunct2[OF True]]
    show ?thesis
    proof (cases "off_right off > 0 \<and> off_right off < sw (rsize geo) - off_left off")
      case r: True
      have "i32_sub (sw (rsize geo) - off_left off) (off_right off) = sw (rsize geo) - off_left off - off_right off"
        by (rule cut_in_range(2)[of 0]) (use r c in simp_all)
      then show ?thesis using True r c by (simp add: s x_state_def y_state_def ax Let_def)
    next
      case False
      then show ?thesis using True c by (auto simp: s x_state_def y_state_def ax Let_def)
    qed
  next
    case False
    have r: "i32_sub (sw (rsize geo)) (off_right off) = sw (rsize geo) - off_right off"
      if "off_right off > 0" "off_right off < sw (rsize geo)"
      by (rule cut_in_range(2)[of 0]) (use that b in simp_all)
    show ?thesis using False r by (auto simp: s x_state_def y_state_def ax Let_def)
  qed
qed

lemma try_resize_y_sim:
  assumes "\<bar>py (rloc (fst (snd st)))\<bar> \<le> 4 * POS_MAX" "0 \<le> sh (rsize (fst (snd st)))" "sh (rsize (fst (snd st))) \<le> POS_MAX"
  shows "y_state (try_resize_y st) = resize1 (y_state st) \<and> x_state (try_resize_y st) = x_state st"
proof -
  obtain p geo off where s: "st = (p, geo, off)" by (cases st)
  have b: "\<bar>py (rloc geo)\<bar> \<le> 4 * POS_MAX" "0 \<le> sh (rsize geo)" "sh (rsize geo) \<le> POS_MAX" using assms by (simp_all add: s)
  have ax: "ax_resize (y_axis p) = ca_resize_y (po_adjustment p)" by (simp add: y_axis_def)
  show ?thesis
  proof (cases "off_top off > 0 \<and> off_top off < sh (rsize geo)")
    case True
    note c = cut_in_range[OF b conjunct1[OF True] conjunct2[OF True]]
    show ?thesis
    proof (cases "off_bottom off > 0 \<and> off_bottom off < sh (rsize geo) - off_top off")
      case r: True
      have "i32_sub (sh (rsize geo) - off_top off) (off_bottom off) = sh (rsize geo) - off_top off - off_bottom off"
        by (rule cut_in_range(2)[of 0]) (use r c in simp_all)
      then show ?thesis using True r c by (simp add: s x_state_def y_state_def ax Let_def)
    next
      case False
      then show ?thesis using True c by (auto simp: s x_state_def y_state_def ax Let_def)
    qed
  next
    case False
    have r: "i32_sub (sh (rsize geo)) (off_bottom off) = sh (rsize geo) - off_bottom off"
      if "off_bottom off > 0" "off_bottom off < sh (rsize geo)"
      by (rule cut_in_range(2)[of 0]) (use that b in simp_all)
    show ?thesis using False r by (auto simp: s x_state_def y_state_def ax Let_def)
  qed
qed

lemma x_state_geo: "fst (snd (x_state st)) = px (rloc (fst (snd st)))" "fst (snd (snd (x_state st))) = sw (rsize (fst (snd st)))"
  by (simp_all add: x_state_def split: prod.splits)

lemma y_state_geo: "fst (snd (y_state st)) = py (rloc (fst (snd st)))" "fst (snd (snd (y_state st))) = sh (rsize (fst (snd st)))"
  by (simp_all add: y_state_def split: prod.splits)

lemma st_ok_bounds:
  assumes "st_ok t st"
  shows "\<bar>px (rloc (fst (snd st)))\<bar> \<le> 4 * POS_MAX" "0 \<le> sw (rsize (fst (snd st)))" "sw (rsize (fst (snd st))) \<le> POS_MAX"
    "\<bar>py (rloc (fst (snd st)))\<bar> \<le> 4 * POS_MAX" "0 \<le> sh (rsize (fst (snd st)))" "sh (rsize (fst (snd st))) \<le> POS_MAX"
proof -
  obtain p geo off where s: "st = (p, geo, off)" by (cases st)
  then have "small_positioner p" "rsize geo = po_rect_size p" "\<bar>px (rloc geo)\<bar> \<le> 4 * POS_MAX" "\<bar>py (rloc geo)\<bar> \<le> 4 * POS_MAX"
    using assms by (simp_all add: st_ok_def)
  then show "\<bar>px (rloc (fst (snd st)))\<bar> \<le> 4 * POS_MAX" "0 \<le> sw (rsize (fst (snd st)))" "sw (rsize (fst (snd st))) \<le> POS_MAX"
    "\<bar>py (rloc (fst (snd st)))\<bar> \<le> 4 * POS_MAX" "0 \<le> sh (rsize (fst (snd st)))" "sh (rsize (fst (snd st))) \<le> POS_MAX"
    using small_positioner_size[of p] by (simp_all add: s)
qed

lemma adjusted_axes:
  assumes t: "small_rect t" "0 < sw (rsize t)" "0 < sh (rsize t)" and p: "small_positioner p"
  defines "r \<equiv> get_unconstrained_geometry p t"
  shows "(px (rloc r), sw (rsize r)) = axis_adjust (x_axis p) (sw (po_rect_size p)) (px (rloc t)) (sw (rsize t))"
    "(py (rloc r), sh (rsize r)) = axis_adjust (y_axis p) (sh (po_rect_size p)) (py (rloc t)) (sh (rsize t))"
proof -
  define s0 where "s0 = (p, get_geometry p, compute_offsets t (get_geometry p))"
  define s1 where "s1 = try_flip_x t s0"
  define s2 where "s2 = try_flip_y t s1"
  define s3 where "s3 = try_slide_x t s2"
  define s4 where "s4 = try_slide_y t s3"
  define s5 where "s5 = try_resize_x s4"
  define s6 where "s6 = try_resize_y s5"
  have r: "r = fst (snd s6)"
    by (simp only: r_def get_unconstrained_geometry_def Let_def case_prod_beta s6_def s5_def s4_def s3_def s2_def s1_def s0_def)
  note i0 = start_ok[OF t(1) p, folded s0_def]
  have "placed s0" by (simp add: s0_def placed_def)
  note i1 = try_flip_x_sim[OF t(1) i0(1) this, folded s1_def]
  note i2 = try_flip_y_sim[OF t(1) conjunct1[OF i1] conjunct1[OF conjunct2[OF i1]], folded s2_def]
  note i3 = try_slide_x_sim[OF t(1) conjunct1[OF i2], folded s3_def]
  note i4 = try_slide_y_sim[OF t(1) conjunct1[OF i3], folded s4_def]
  note b = st_ok_bounds[OF conjunct1[OF i4]]
  note i5 = try_resize_x_sim[OF b(1-3), folded s5_def]
  have "\<bar>py (rloc (fst (snd s5)))\<bar> \<le> 4 * POS_MAX" "0 \<le> sh (rsize (fst (snd s5)))" "sh (rsize (fst (snd s5))) \<le> POS_MAX"
    using b(4-6) i5 y_state_geo[of s5] y_state_geo[of s4] by simp_all
  note i6 = try_resize_y_sim[OF this, folded s6_def]
  have x: "x_state s6 = resize1 (slide1 (px (rloc t)) (sw (rsize t)) (flip1 (px (rloc t)) (sw (rsize t)) (x_state s0)))"
    using i1 i2 i3 i4 i5 i6 by simp
  have y: "y_state s6 = resize1 (slide1 (py (rloc t)) (sh (rsize t)) (flip1 (py (rloc t)) (sh (rsize t)) (y_state s0)))"
    using i1 i2 i3 i4 i5 i6 by simp
  show "(px (rloc r), sw (rsize r)) = axis_adjust (x_axis p) (sw (po_rect_size p)) (px (rloc t)) (sw (rsize t))"
    using axis_steps_adjust[OF t(2), of "x_axis p" "sw (po_rect_size p)" "px (rloc t)"] x_state_geo[of s6]
    unfolding r x[symmetric] i0(2)[symmetric] by (simp split: prod.splits)
  show "(py (rloc r), sh (rsize r)) = axis_adjust (y_axis p) (sh (po_rect_size p)) (py (rloc t)) (sh (rsize t))"
    using axis_steps_adjust[OF t(3), of "y_axis p" "sh (po_rect_size p)" "py (rloc t)"] y_state_geo[of s6]
    unfolding r y[symmetric] i0(3)[symmetric] by (simp split: prod.splits)
qed

section \<open>Properties\<close>

text \<open>A popup is adjusted on each axis alone, and as the protocol says. For values that do not
  overflow, the adjusted geometry is that of the reference on the horizontal and on the vertical
  axis: no flip, slide or resize of one axis changes the other.\<close>

theorem positioner_axes_independent:
  assumes "small_rect target" "0 < sw (rsize target)" "0 < sh (rsize target)" "small_positioner p"
  shows "get_unconstrained_geometry p target =
    (case (axis_adjust (x_axis p) (sw (po_rect_size p)) (px (rloc target)) (sw (rsize target)),
           axis_adjust (y_axis p) (sh (po_rect_size p)) (py (rloc target)) (sh (rsize target))) of
       ((x, w), (y, h)) \<Rightarrow> \<lparr>rloc = \<lparr>px = x, py = y\<rparr>, rsize = \<lparr>sw = w, sh = h\<rparr>\<rparr>)"
  unfolding adjusted_axes(1)[OF assms, symmetric] adjusted_axes(2)[OF assms, symmetric] by simp

definition example_positioner :: positioner where
  "example_positioner = positioner_default\<lparr>po_rect_size := size_new 40 30, po_anchor_rect := rect_new (point_new 80 10) (size_new 10 10),
     po_anchor_edges := Anchor_bottom_right, po_gravity := Gravity_bottom_right,
     po_adjustment := \<lparr>ca_slide_x = True, ca_slide_y = False, ca_flip_x = False, ca_flip_y = False,
       ca_resize_x = True, ca_resize_y = False\<rparr>\<rparr>"

theorem positioner_axes_independent_witness:
  "get_unconstrained_geometry example_positioner (rect_new (point_new 0 0) (size_new 100 100)) =
     \<lparr>rloc = \<lparr>px = 60, py = 20\<rparr>, rsize = \<lparr>sw = 40, sh = 30\<rparr>\<rparr>"
  by (subst positioner_axes_independent)
    (simp_all add: small_rect_def small_positioner_def example_positioner_def positioner_default_def rect_new_def
      point_new_def size_new_def x_axis_def y_axis_def axis_adjust_def axis_fits_def axis_place_def
      anchor_has_edge.simps gravity_has_edge.simps Let_def)

text \<open>
  On one axis, a popup of length \<open>n\<close> placed at \<open>place\<close> by the positioner and at \<open>pos\<close> with length \<open>ext\<close> by
  the adjustment, for a target of length \<open>len\<close> at \<open>t\<close>: it is inside of the target and not empty if it
  may be resized or is not longer than the target; it keeps its length if it is not longer than the
  target; and it is not touched if it fits.
\<close>

definition slides_inside :: "bool \<Rightarrow> int \<Rightarrow> int \<Rightarrow> int \<Rightarrow> int \<Rightarrow> int \<Rightarrow> int \<Rightarrow> bool" where
  "slides_inside resizes t len place n pos ext \<longleftrightarrow>
     (resizes \<or> n \<le> len \<longrightarrow> axis_fits t len pos ext \<and> 0 < ext) \<and> (n \<le> len \<longrightarrow> ext = n) \<and>
     (axis_fits t len place n \<longrightarrow> pos = place)"

lemma axis_slides_inside:
  assumes r: "(pos, ext) = axis_adjust a n t len" and slide: "ax_slide a" and len: "0 < len" "0 < n"
  shows "slides_inside (ax_resize a) t len (axis_place a n) n pos ext"
proof -
  define q where "q = (if axis_place a n < t then t else max t (t + len - n))"
  have fit: "axis_adjust a n t len = (axis_place a n, n)" if "axis_fits t len (axis_place a n) n"
    unfolding axis_adjust_def if_P[OF that] by (rule refl)
  have flipped: "axis_adjust a n t len = (axis_place (axis_flipped a) n, n)"
    if "\<not> axis_fits t len (axis_place a n) n" "ax_flip a \<and> axis_fits t len (axis_place (axis_flipped a) n) n"
    unfolding axis_adjust_def if_not_P[OF that(1)] if_P[OF that(2)] by (rule refl)
  have slid: "axis_adjust a n t len =
      (if ax_resize a \<and> q < t + len \<and> t < q + n then (max q t, min (q + n) (t + len) - max q t) else (q, n))"
    if "\<not> axis_fits t len (axis_place a n) n" "\<not> (ax_flip a \<and> axis_fits t len (axis_place (axis_flipped a) n) n)"
    unfolding axis_adjust_def if_not_P[OF that(1)] if_not_P[OF that(2)] Let_def q_def using slide by simp
  have q: "q = t \<or> q = t + len - n \<and> t \<le> t + len - n" by (auto simp: q_def)
  consider "axis_fits t len (axis_place a n) n"
    | "\<not> axis_fits t len (axis_place a n) n" "ax_flip a \<and> axis_fits t len (axis_place (axis_flipped a) n) n"
    | "\<not> axis_fits t len (axis_place a n) n" "\<not> (ax_flip a \<and> axis_fits t len (axis_place (axis_flipped a) n) n)"
    by blast
  then show ?thesis
  proof cases
    case 1
    then show ?thesis using r len fit by (simp add: slides_inside_def)
  next
    case 2
    then show ?thesis using r len flipped by (simp add: slides_inside_def)
  next
    case 3
    then show ?thesis
      using r len q unfolding slid[OF 3] by (auto simp: slides_inside_def axis_fits_def max_def min_def split: if_splits)
  qed
qed

text \<open>C31. On each axis, a popup that may slide and be resized ends up inside of the target and is not
  empty; one that may slide keeps its size when it is not larger than the target, and one that fits is
  not touched at all.\<close>

theorem positioner_popup_inside:
  assumes "small_rect target" "0 < sw (rsize target)" "0 < sh (rsize target)" "small_positioner p"
    and "0 < sw (po_rect_size p)" "0 < sh (po_rect_size p)"
  defines "r \<equiv> get_unconstrained_geometry p target"
  shows "(ca_slide_x (po_adjustment p) \<longrightarrow>
      slides_inside (ca_resize_x (po_adjustment p)) (px (rloc target)) (sw (rsize target))
        (px (rloc (get_geometry p))) (sw (po_rect_size p)) (px (rloc r)) (sw (rsize r))) \<and>
    (ca_slide_y (po_adjustment p) \<longrightarrow>
      slides_inside (ca_resize_y (po_adjustment p)) (py (rloc target)) (sh (rsize target))
        (py (rloc (get_geometry p))) (sh (po_rect_size p)) (py (rloc r)) (sh (rsize r)))"
proof -
  note g = get_geometry_axes[OF assms(4)]
  show ?thesis
    using axis_slides_inside[OF adjusted_axes(1)[OF assms(1-4)] _ assms(2,5)]
      axis_slides_inside[OF adjusted_axes(2)[OF assms(1-4)] _ assms(3,6)]
    by (simp add: g r_def x_axis_def y_axis_def)
qed

text \<open>A popup that may slide and be resized on both axes, on a target it does not fit in.\<close>

definition sliding_positioner :: positioner where
  "sliding_positioner = example_positioner\<lparr>po_adjustment := \<lparr>ca_slide_x = True, ca_slide_y = True, ca_flip_x = False,
     ca_flip_y = False, ca_resize_x = True, ca_resize_y = True\<rparr>\<rparr>"

theorem positioner_popup_inside_witness:
  "let r = get_unconstrained_geometry sliding_positioner (rect_new (point_new 0 0) (size_new 30 20))
   in axis_fits 0 30 (px (rloc r)) (sw (rsize r)) \<and> axis_fits 0 20 (py (rloc r)) (sh (rsize r))"
proof -
  have "small_rect (rect_new (point_new 0 0) (size_new 30 20))" "small_positioner sliding_positioner"
    "0 < sw (po_rect_size sliding_positioner)" "0 < sh (po_rect_size sliding_positioner)"
    by (simp_all add: small_rect_def small_positioner_def sliding_positioner_def example_positioner_def positioner_default_def
      rect_new_def point_new_def size_new_def)
  then show ?thesis
    using positioner_popup_inside[of "rect_new (point_new 0 0) (size_new 30 20)" sliding_positioner]
    by (simp add: slides_inside_def sliding_positioner_def rect_new_def point_new_def size_new_def)
qed

end
