(* ===== verification/Xdg_Role.thy ===== *)
theory Xdg_Role
  imports Positioner Cache
begin

text \<open>
  The roles of \<open>xdg_surface\<close>: \<open>src/wayland/shell/xdg/mod.rs\<close> and the events sent in
  \<open>src/wayland/shell/xdg/handlers/surface\<close>. A configure carries a state, a serial and, for popups,
  the token of a reposition request. The serial counter of the crate is threaded through.
\<close>

section \<open>The macro \<open>xdg_role\<close>\<close>

record ('s, 'x) configure =
  cf_state :: 's
  cf_serial :: serial
  cf_extra :: 'x

record ('s, 'x) role_attributes =
  ra_initial_configure_sent :: bool
  ra_pending_configures :: "('s, 'x) configure list"
  ra_server_pending :: "'s option"
  ra_last_acked :: "('s, 'x) configure option"

definition role_default :: "('s, 'x) role_attributes" where
  "role_default = \<lparr>ra_initial_configure_sent = False, ra_pending_configures = [], ra_server_pending = None, ra_last_acked = None\<rparr>"

definition ack_configure :: "serial \<Rightarrow> ('s, 'x) role_attributes \<Rightarrow> ('s, 'x) role_attributes \<times> ('s, 'x) configure option" where
  "ack_configure serial a =
     (case find (\<lambda>c. cf_serial c = serial) (ra_pending_configures a) of
        None \<Rightarrow> (a, None)
      | Some c \<Rightarrow> (a\<lparr>ra_last_acked := Some c,
                    ra_pending_configures := filter (\<lambda>c. serial_gt (cf_serial c) serial) (ra_pending_configures a)\<rparr>, Some c))"

text \<open>The first argument is the default of the state.\<close>

definition current_server_state :: "'s \<Rightarrow> ('s, 'x) role_attributes \<Rightarrow> 's" where
  "current_server_state d a =
     (if ra_pending_configures a \<noteq> [] then cf_state (last (ra_pending_configures a))
      else case ra_last_acked a of Some c \<Rightarrow> cf_state c | None \<Rightarrow> d)"

definition has_pending_changes :: "'s \<Rightarrow> ('s, 'x) role_attributes \<Rightarrow> bool" where
  "has_pending_changes d a = (case ra_server_pending a of Some s \<Rightarrow> s \<noteq> current_server_state d a | None \<Rightarrow> False)"

definition with_pending_state :: "'s \<Rightarrow> ('s \<Rightarrow> 's) \<Rightarrow> ('s, 'x) role_attributes \<Rightarrow> ('s, 'x) role_attributes" where
  "with_pending_state d f a =
     (let a = (if ra_server_pending a = None then a\<lparr>ra_server_pending := Some (current_server_state d a)\<rparr> else a)
      in a\<lparr>ra_server_pending := map_option f (ra_server_pending a)\<rparr>)"

text \<open>\<open>has_pending_changes\<close> of the surfaces, not of the attributes.\<close>

definition surface_has_pending_changes :: "'s \<Rightarrow> ('s, 'x) role_attributes \<Rightarrow> bool" where
  "surface_has_pending_changes d a \<longleftrightarrow> \<not> ra_initial_configure_sent a \<or> has_pending_changes d a"

text \<open>Unmapping keeps only the configures in flight.\<close>

definition reset_attributes :: "('s, 'x) role_attributes \<Rightarrow> ('s, 'x) role_attributes" where
  "reset_attributes a = role_default\<lparr>ra_pending_configures := ra_pending_configures a\<rparr>"

section \<open>Toplevels\<close>

datatype toplevel_flag = Maximized | Fullscreen | Resizing | Activated | Tiled_left | Tiled_right | Tiled_top
  | Tiled_bottom | Suspended | Constrained_left | Constrained_right | Constrained_top | Constrained_bottom

datatype decoration_mode = Client_side | Server_side

datatype wm_capability = Window_menu | Can_maximize | Can_fullscreen | Can_minimize

definition XDG_TOPLEVEL_STATE_TILED_SINCE :: nat where "XDG_TOPLEVEL_STATE_TILED_SINCE = 2"
definition XDG_TOPLEVEL_STATE_SUSPENDED_SINCE :: nat where "XDG_TOPLEVEL_STATE_SUSPENDED_SINCE = 6"
definition XDG_TOPLEVEL_STATE_CONSTRAINED_SINCE :: nat where "XDG_TOPLEVEL_STATE_CONSTRAINED_SINCE = 7"

definition flags_set :: "toplevel_flag \<Rightarrow> toplevel_flag list \<Rightarrow> toplevel_flag list \<times> bool" where
  "flags_set s states = (if s \<in> set states then (states, False) else (states @ [s], True))"

definition flags_unset :: "toplevel_flag \<Rightarrow> toplevel_flag list \<Rightarrow> toplevel_flag list \<times> bool" where
  "flags_unset s states = (if s \<notin> set states then (states, False) else (filter (\<lambda>x. x \<noteq> s) states, True))"

fun version_needed_for_state :: "toplevel_flag \<Rightarrow> nat" where
  "version_needed_for_state Tiled_left = XDG_TOPLEVEL_STATE_TILED_SINCE"
| "version_needed_for_state Tiled_right = XDG_TOPLEVEL_STATE_TILED_SINCE"
| "version_needed_for_state Tiled_top = XDG_TOPLEVEL_STATE_TILED_SINCE"
| "version_needed_for_state Tiled_bottom = XDG_TOPLEVEL_STATE_TILED_SINCE"
| "version_needed_for_state Constrained_left = XDG_TOPLEVEL_STATE_CONSTRAINED_SINCE"
| "version_needed_for_state Constrained_right = XDG_TOPLEVEL_STATE_CONSTRAINED_SINCE"
| "version_needed_for_state Constrained_top = XDG_TOPLEVEL_STATE_CONSTRAINED_SINCE"
| "version_needed_for_state Constrained_bottom = XDG_TOPLEVEL_STATE_CONSTRAINED_SINCE"
| "version_needed_for_state Suspended = XDG_TOPLEVEL_STATE_SUSPENDED_SINCE"
| "version_needed_for_state _ = 1"

definition into_filtered_states :: "nat \<Rightarrow> toplevel_flag list \<Rightarrow> toplevel_flag list" where
  "into_filtered_states version states =
     (if version \<ge> XDG_TOPLEVEL_STATE_CONSTRAINED_SINCE then states
      else filter (\<lambda>s. version \<ge> version_needed_for_state s) states)"

record toplevel_state =
  ts_size :: "sz option"
  ts_bounds :: "sz option"
  ts_states :: "toplevel_flag list"
  ts_fullscreen_output :: "nat option"
  ts_decoration_mode :: "decoration_mode option"
  ts_capabilities :: "wm_capability set"

definition toplevel_state_default :: toplevel_state where
  "toplevel_state_default = \<lparr>ts_size = None, ts_bounds = None, ts_states = [], ts_fullscreen_output = None,
     ts_decoration_mode = None, ts_capabilities = {}\<rparr>"

type_synonym toplevel_configure = "(toplevel_state, unit) configure"

datatype dialog_hint = Dialog_unknown | Dialog_dialog | Dialog_modal

record toplevel_role =
  tr_attrs :: "(toplevel_state, unit) role_attributes"
  tr_parent :: "nat option"
  tr_dialog_hint :: dialog_hint
  tr_title :: "string option"
  tr_app_id :: "string option"
  tr_decoration_sent :: bool

definition toplevel_role_default :: toplevel_role where
  "toplevel_role_default = \<lparr>tr_attrs = role_default, tr_parent = None, tr_dialog_hint = Dialog_unknown,
     tr_title = None, tr_app_id = None, tr_decoration_sent = False\<rparr>"

text \<open>The state that is sent, if any, and what is left.\<close>

definition toplevel_get_pending_state :: "(toplevel_state, unit) role_attributes \<Rightarrow>
    (toplevel_state, unit) role_attributes \<times> toplevel_state option" where
  "toplevel_get_pending_state a =
     (if \<not> ra_initial_configure_sent a
      then (a\<lparr>ra_server_pending := None\<rparr>,
            Some (case ra_server_pending a of Some s \<Rightarrow> s | None \<Rightarrow> current_server_state toplevel_state_default a))
      else if \<not> has_pending_changes toplevel_state_default a then (a, None)
      else (a\<lparr>ra_server_pending := None\<rparr>, ra_server_pending a))"

text \<open>The versions of the protocol since which the two events exist.\<close>

definition EVT_CONFIGURE_BOUNDS_SINCE :: nat where "EVT_CONFIGURE_BOUNDS_SINCE = 4"
definition EVT_WM_CAPABILITIES_SINCE :: nat where "EVT_WM_CAPABILITIES_SINCE = 5"

datatype xdg_event = Ev_decoration_configure decoration_mode | Ev_configure_bounds i32 i32
  | Ev_wm_capabilities "wm_capability set" | Ev_toplevel_configure i32 i32 "toplevel_flag list"
  | Ev_repositioned nat | Ev_popup_configure i32 i32 i32 i32 | Ev_surface_configure serial

definition send_toplevel_configure :: "nat \<Rightarrow> toplevel_configure \<Rightarrow> bool \<Rightarrow> bool \<Rightarrow> xdg_event list" where
  "send_toplevel_configure version c send_bounds send_capabilities =
     (let s = cf_state c;
          z = (case ts_size s of Some z \<Rightarrow> z | None \<Rightarrow> size_new 0 0);
          states = into_filtered_states version (ts_states s)
      in (if send_bounds \<and> version \<ge> EVT_CONFIGURE_BOUNDS_SINCE
          then (let b = (case ts_bounds s of Some b \<Rightarrow> b | None \<Rightarrow> size_new 0 0) in [Ev_configure_bounds (sw b) (sh b)])
          else []) @
         (if send_capabilities \<and> version \<ge> EVT_WM_CAPABILITIES_SINCE then [Ev_wm_capabilities (ts_capabilities s)] else []) @
         [Ev_toplevel_configure (sw z) (sh z) states, Ev_surface_configure (cf_serial c)])"

text \<open>\<open>send_configure\<close> of a toplevel; the second argument is whether it has a decoration object.\<close>

definition toplevel_send_configure :: "nat \<Rightarrow> bool \<Rightarrow> u32 \<Rightarrow> toplevel_role \<Rightarrow>
    toplevel_configure \<times> u32 \<times> toplevel_role \<times> xdg_event list" where
  "toplevel_send_configure version decoration counter r =
     (let (a, taken) = toplevel_get_pending_state (tr_attrs r);
          pending = (case taken of Some s \<Rightarrow> s | None \<Rightarrow> current_server_state toplevel_state_default a);
          current = current_server_state toplevel_state_default a;
          decoration_changed = (\<not> tr_decoration_sent r \<or> ts_decoration_mode pending \<noteq> ts_decoration_mode current);
          bounds_changed = (\<not> ra_initial_configure_sent a \<or> ts_bounds pending \<noteq> ts_bounds current);
          capabilities_changed = (\<not> ra_initial_configure_sent a \<or> ts_capabilities pending \<noteq> ts_capabilities current);
          (serial, counter') = next_serial counter;
          c = \<lparr>cf_state = pending, cf_serial = serial, cf_extra = ()\<rparr>;
          a' = a\<lparr>ra_pending_configures := ra_pending_configures a @ [c], ra_initial_configure_sent := True\<rparr>;
          r' = r\<lparr>tr_attrs := a', tr_decoration_sent := tr_decoration_sent r \<or> decoration\<rparr>
      in (c, counter', r',
          (if decoration_changed \<and> decoration
           then [Ev_decoration_configure (case ts_decoration_mode pending of Some m \<Rightarrow> m | None \<Rightarrow> Client_side)] else []) @
          send_toplevel_configure version c bounds_changed capabilities_changed))"

definition toplevel_send_pending_configure :: "nat \<Rightarrow> bool \<Rightarrow> u32 \<Rightarrow> toplevel_role \<Rightarrow>
    (toplevel_configure \<times> u32 \<times> toplevel_role \<times> xdg_event list) option" where
  "toplevel_send_pending_configure version decoration counter r =
     (if surface_has_pending_changes toplevel_state_default (tr_attrs r)
      then Some (toplevel_send_configure version decoration counter r) else None)"

datatype xdg_error = Unconfigured_buffer | Not_constructed | Invalid_grab | Wrong_serial | Role_error | Invalid_xdg_size
  | Invalid_parent

text \<open>Whether the surface has a buffer after the commit, given the pending assignment and whether it had one.\<close>

definition buffer_after :: "buffer_assignment option \<Rightarrow> bool \<Rightarrow> bool" where
  "buffer_after b had = (case b of Some (New_buffer _) \<Rightarrow> True | Some Removed \<Rightarrow> False | None \<Rightarrow> had)"

text \<open>The hook before a commit: the pending acknowledged configure and the role, or the error.\<close>

definition toplevel_pre_commit :: "wm_capability set \<Rightarrow> buffer_assignment option \<Rightarrow> toplevel_configure option \<Rightarrow>
    toplevel_role \<Rightarrow> xdg_error + toplevel_configure option \<times> toplevel_role" where
  "toplevel_pre_commit capabilities buffer pending r =
     (let had_buffer_before = pending \<noteq> None;
          has_buffer = buffer_after buffer had_buffer_before;
          got_unmapped = had_buffer_before \<and> \<not> has_buffer
      in if has_buffer \<and> ra_last_acked (tr_attrs r) = None then Inl Unconfigured_buffer
         else let pending' = (if has_buffer then ra_last_acked (tr_attrs r) else None)
              in if got_unmapped
                 then Inr (None, toplevel_role_default\<lparr>tr_attrs := (reset_attributes (tr_attrs r))
                        \<lparr>ra_server_pending := Some (toplevel_state_default\<lparr>ts_capabilities := capabilities\<rparr>)\<rparr>\<rparr>)
                 else Inr (pending', r))"

text \<open>\<open>get_toplevel\<close>: the role data of a surface that may have been a toplevel before.\<close>

definition toplevel_init :: "wm_capability set \<Rightarrow> toplevel_role option \<Rightarrow> toplevel_role" where
  "toplevel_init capabilities old =
     (let r = (case old of Some r \<Rightarrow> r | None \<Rightarrow> toplevel_role_default)
      in r\<lparr>tr_attrs := with_pending_state toplevel_state_default (\<lambda>s. s\<lparr>ts_capabilities := capabilities\<rparr>) (tr_attrs r)\<rparr>)"

section \<open>Popups\<close>

record popup_state =
  pp_positioner :: positioner
  pp_geometry :: rect

definition popup_state_default :: popup_state where
  "popup_state_default = \<lparr>pp_positioner = positioner_default, pp_geometry = rect_new (point_new 0 0) (size_new 0 0)\<rparr>"

type_synonym popup_configure = "(popup_state, nat option) configure"

record popup_role =
  pr_attrs :: "(popup_state, nat option) role_attributes"
  pr_parent :: "nat option"
  pr_requested_grab :: "(nat \<times> serial) option"

definition popup_role_default :: popup_role where
  "popup_role_default = \<lparr>pr_attrs = role_default, pr_parent = None, pr_requested_grab = None\<rparr>"

text \<open>\<open>get_popup\<close>: the role data always starts anew.\<close>

definition popup_init :: "nat option \<Rightarrow> positioner \<Rightarrow> popup_role" where
  "popup_init parent p = popup_role_default\<lparr>pr_parent := parent,
     pr_attrs := role_default\<lparr>ra_server_pending := Some \<lparr>pp_positioner = p, pp_geometry = get_geometry p\<rparr>\<rparr>\<rparr>"

definition send_popup_configure :: "popup_configure \<Rightarrow> xdg_event list" where
  "send_popup_configure c =
     (let g = pp_geometry (cf_state c)
      in (case cf_extra c of Some token \<Rightarrow> [Ev_repositioned token] | None \<Rightarrow> []) @
         [Ev_popup_configure (px (rloc g)) (py (rloc g)) (sw (rsize g)) (sh (rsize g)), Ev_surface_configure (cf_serial c)])"

definition popup_send_configure_internal :: "nat option \<Rightarrow> u32 \<Rightarrow> popup_role \<Rightarrow>
    popup_configure \<times> u32 \<times> popup_role \<times> xdg_event list" where
  "popup_send_configure_internal token counter r =
     (let a = pr_attrs r;
          pending = (case ra_server_pending a of Some s \<Rightarrow> s | None \<Rightarrow> current_server_state popup_state_default a);
          (serial, counter') = next_serial counter;
          c = \<lparr>cf_state = pending, cf_serial = serial, cf_extra = token\<rparr>;
          a' = a\<lparr>ra_server_pending := None, ra_pending_configures := ra_pending_configures a @ [c],
                 ra_initial_configure_sent := True\<rparr>
      in (c, counter', r\<lparr>pr_attrs := a'\<rparr>, send_popup_configure c))"

definition EVT_REPOSITIONED_SINCE :: nat where "EVT_REPOSITIONED_SINCE = 3"

datatype popup_configure_error = Already_configured | Not_reactive

text \<open>The third argument is the current cached state: the configure of the last applied commit.\<close>

definition popup_send_configure :: "nat \<Rightarrow> u32 \<Rightarrow> popup_configure option \<Rightarrow> popup_role \<Rightarrow>
    popup_configure_error + popup_configure \<times> u32 \<times> popup_role \<times> xdg_event list" where
  "popup_send_configure version counter current r =
     (if ra_initial_configure_sent (pr_attrs r) \<and> version < EVT_REPOSITIONED_SINCE then Inl Already_configured
      else let is_reactive = (case current of Some c \<Rightarrow> po_reactive (pp_positioner (cf_state c)) | None \<Rightarrow> False)
           in if ra_initial_configure_sent (pr_attrs r) \<and> \<not> is_reactive then Inl Not_reactive
              else Inr (popup_send_configure_internal None counter r))"

definition popup_send_pending_configure :: "nat \<Rightarrow> u32 \<Rightarrow> popup_configure option \<Rightarrow> popup_role \<Rightarrow>
    popup_configure_error + (popup_configure \<times> u32 \<times> popup_role \<times> xdg_event list) option" where
  "popup_send_pending_configure version counter current r =
     (if surface_has_pending_changes popup_state_default (pr_attrs r)
      then (case popup_send_configure version counter current r of Inl e \<Rightarrow> Inl e | Inr x \<Rightarrow> Inr (Some x))
      else Inr None)"

text \<open>The hook before a commit; the last part is the grab that the compositor is asked for.\<close>

definition popup_pre_commit :: "buffer_assignment option \<Rightarrow> popup_configure option \<Rightarrow> popup_role \<Rightarrow>
    (xdg_error option) \<times> popup_configure option \<times> popup_role \<times> (nat \<times> serial) option" where
  "popup_pre_commit buffer pending r =
     (if pr_parent r = None then (Some Not_constructed, pending, r, None)
      else let had_buffer_before = pending \<noteq> None;
               grab = pr_requested_grab r;
               r1 = r\<lparr>pr_requested_grab := None\<rparr>
           in if grab \<noteq> None \<and> had_buffer_before then (Some Invalid_grab, pending, r1, None)
              else let has_buffer = buffer_after buffer had_buffer_before;
                       got_unmapped = had_buffer_before \<and> \<not> has_buffer
                   in if has_buffer \<and> ra_last_acked (pr_attrs r1) = None then (Some Unconfigured_buffer, pending, r1, None)
                      else if got_unmapped
                      then (None, None, popup_role_default\<lparr>pr_attrs := reset_attributes (pr_attrs r1)\<rparr>, grab)
                      else (None, if has_buffer then ra_last_acked (pr_attrs r1) else None, r1, grab))"

definition popup_grab_request :: "nat \<Rightarrow> serial \<Rightarrow> popup_role \<Rightarrow> popup_role" where
  "popup_grab_request seat serial r = r\<lparr>pr_requested_grab := Some (seat, serial)\<rparr>"

section \<open>Size and geometry requests\<close>

text \<open>\<open>set_max_size\<close> and \<open>set_min_size\<close> of a toplevel, on the pending state of the surface.\<close>

definition toplevel_set_max_size :: "i32 \<Rightarrow> i32 \<Rightarrow> xdg_surface_state \<Rightarrow> xdg_error + xdg_surface_state" where
  "toplevel_set_max_size width height s =
     (if width < 0 \<or> height < 0 then Inl Invalid_xdg_size else Inr (s\<lparr>xs_max_size := size_new width height\<rparr>))"

definition toplevel_set_min_size :: "i32 \<Rightarrow> i32 \<Rightarrow> xdg_surface_state \<Rightarrow> xdg_error + xdg_surface_state" where
  "toplevel_set_min_size width height s =
     (if width < 0 \<or> height < 0 then Inl Invalid_xdg_size else Inr (s\<lparr>xs_min_size := size_new width height\<rparr>))"

datatype xdg_surface_role = Role_toplevel | Role_popup | Role_other

text \<open>\<open>set_window_geometry\<close>; a foreign role is an error that does not end the request.\<close>

definition set_window_geometry :: "xdg_surface_role option \<Rightarrow> i32 \<Rightarrow> i32 \<Rightarrow> i32 \<Rightarrow> i32 \<Rightarrow> xdg_surface_state \<Rightarrow>
    xdg_error list \<times> xdg_surface_state" where
  "set_window_geometry role x y width height s =
     (if role = None then ([Not_constructed], s)
      else let errors = (if role \<noteq> Some Role_toplevel \<and> role \<noteq> Some Role_popup then [Role_error] else [])
           in if width \<le> 0 \<or> height \<le> 0 then (errors @ [Invalid_xdg_size], s)
              else (errors, s\<lparr>xs_geometry := Some (rect_new (point_new x y) (size_new width height))\<rparr>))"

text \<open>\<open>ack_configure\<close> of an \<open>xdg_surface\<close>, on the data of both roles.\<close>

definition ack_configure_request :: "xdg_surface_role option \<Rightarrow> serial \<Rightarrow> toplevel_role \<Rightarrow> popup_role \<Rightarrow>
    xdg_error + toplevel_role \<times> popup_role" where
  "ack_configure_request role serial t p =
     (case role of
        None \<Rightarrow> Inl Not_constructed
      | Some Role_toplevel \<Rightarrow>
          (case ack_configure serial (tr_attrs t) of
             (a, Some _) \<Rightarrow> Inr (t\<lparr>tr_attrs := a\<rparr>, p) | (_, None) \<Rightarrow> Inl Wrong_serial)
      | Some Role_popup \<Rightarrow>
          (case ack_configure serial (pr_attrs p) of
             (a, Some _) \<Rightarrow> Inr (t, p\<lparr>pr_attrs := a\<rparr>) | (_, None) \<Rightarrow> Inl Wrong_serial)
      | Some Role_other \<Rightarrow> Inl Role_error)"

text \<open>\<open>set_title\<close> and \<open>set_app_id\<close>, and whether the handler is told.\<close>

definition toplevel_set_title :: "string \<Rightarrow> toplevel_role \<Rightarrow> toplevel_role \<times> bool" where
  "toplevel_set_title title r = (if tr_title r \<noteq> Some title then (r\<lparr>tr_title := Some title\<rparr>, True) else (r, False))"

definition toplevel_set_app_id :: "string \<Rightarrow> toplevel_role \<Rightarrow> toplevel_role \<times> bool" where
  "toplevel_set_app_id app_id r = (if tr_app_id r \<noteq> Some app_id then (r\<lparr>tr_app_id := Some app_id\<rparr>, True) else (r, False))"

section \<open>Pings\<close>

datatype ping_error = Dead_surface | Ping_already_pending serial

definition send_ping :: "bool \<Rightarrow> serial \<Rightarrow> serial option \<Rightarrow> ping_error + serial option" where
  "send_ping alive serial pending_ping =
     (if \<not> alive then Inl Dead_surface
      else case pending_ping of Some p \<Rightarrow> Inl (Ping_already_pending p) | None \<Rightarrow> Inr (Some serial))"

text \<open>The pong that is waited for; any other is ignored.\<close>

definition pong :: "serial \<Rightarrow> serial option \<Rightarrow> serial option \<times> bool" where
  "pong serial pending_ping = (if pending_ping = Some serial then (None, True) else (pending_ping, False))"

section \<open>Acknowledging\<close>

definition serials_increasing :: "('s, 'x) configure list \<Rightarrow> bool" where
  "serials_increasing cs \<longleftrightarrow> sorted_wrt (\<lambda>c d. serial_lt (cf_serial c) (cf_serial d)) cs"

lemma serials_increasing_distinct: "serials_increasing cs \<Longrightarrow> distinct (map cf_serial cs)"
  unfolding serials_increasing_def by (induction cs) auto

lemma serial_asym: "serial_lt a b \<Longrightarrow> \<not> serial_gt a b"
  by (auto simp: serial_lt_def serial_gt_def)

lemma filter_later:
  assumes "serials_increasing (xs @ c # ys)"
  shows "filter (\<lambda>d. serial_gt (cf_serial d) (cf_serial c)) (xs @ c # ys) = ys"
proof -
  have "filter (\<lambda>d. serial_gt (cf_serial d) (cf_serial c)) xs = []"
    using assms by (auto simp: serials_increasing_def sorted_wrt_append filter_empty_conv dest: serial_asym)
  moreover have "filter (\<lambda>d. serial_gt (cf_serial d) (cf_serial c)) ys = ys"
    using assms by (auto simp: serials_increasing_def sorted_wrt_append filter_id_conv serial_lt_iff_gt)
  ultimately show ?thesis by simp
qed

lemma find_serial:
  assumes "serials_increasing (xs @ c # ys)"
  shows "find (\<lambda>d. cf_serial d = cf_serial c) (xs @ c # ys) = Some c"
proof -
  have "\<forall>d\<in>set xs. cf_serial d \<noteq> cf_serial c"
    using serials_increasing_distinct[OF assms] by (auto simp: image_iff)
  then have "find (\<lambda>d. cf_serial d = cf_serial c) xs = None" by (simp add: find_None_iff)
  then show ?thesis by (induction xs) (auto split: if_splits)
qed

lemma ack_configure_split:
  assumes "ra_pending_configures a = xs @ c # ys" "serials_increasing (xs @ c # ys)"
  shows "ack_configure (cf_serial c) a = (a\<lparr>ra_last_acked := Some c, ra_pending_configures := ys\<rparr>, Some c)"
  unfolding ack_configure_def assms(1) find_serial[OF assms(2)] filter_later[OF assms(2)] by simp

lemma ack_configure_unknown:
  "serial \<notin> cf_serial ` set (ra_pending_configures a) \<Longrightarrow> ack_configure serial a = (a, None)"
  by (auto simp: ack_configure_def find_Some_iff split: option.splits)

end
