(* ===== verification/Xdg_Run.thy ===== *)
theory Xdg_Run
  imports Xdg_Role
begin

text \<open>
  The life of a toplevel: the compositor changes its pending state and sends configures, the client
  acknowledges them, attaches buffers and commits, and commits are applied when they are ready. The
  configures sent and whether the surface has a buffer are recorded beside the model's state.
\<close>

section \<open>The surface of a toplevel\<close>

record toplevel_surface =
  xt_role :: toplevel_role
  xt_cached :: "toplevel_configure option cached_state"
  xt_buffer :: "buffer_assignment option"
  xt_dead :: bool
  xt_sent :: "toplevel_configure list"
  xt_mapped :: bool

definition acked_cacheable :: "toplevel_configure option cacheable" where
  "acked_cacheable = copy_cacheable None"

definition toplevel_surface_new :: "wm_capability set \<Rightarrow> toplevel_surface" where
  "toplevel_surface_new capabilities = \<lparr>xt_role = toplevel_init capabilities None,
     xt_cached = cached_state_default acked_cacheable, xt_buffer = None, xt_dead = False, xt_sent = [], xt_mapped = False\<rparr>"

definition on_attrs :: "((toplevel_state, unit) role_attributes \<Rightarrow> (toplevel_state, unit) role_attributes) \<Rightarrow>
    toplevel_surface \<Rightarrow> toplevel_surface" where
  "on_attrs f x = x\<lparr>xt_role := (xt_role x)\<lparr>tr_attrs := f (tr_attrs (xt_role x))\<rparr>\<rparr>"

definition surface_send_configure :: "nat \<Rightarrow> bool \<Rightarrow> u32 \<Rightarrow> toplevel_surface \<Rightarrow> toplevel_surface" where
  "surface_send_configure version decoration counter x =
     (case toplevel_send_configure version decoration counter (xt_role x) of
        (c, _, r, _) \<Rightarrow> x\<lparr>xt_role := r, xt_sent := xt_sent x @ [c]\<rparr>)"

definition surface_ack :: "serial \<Rightarrow> toplevel_surface \<Rightarrow> toplevel_surface" where
  "surface_ack serial x =
     (case ack_configure_request (Some Role_toplevel) serial (xt_role x) popup_role_default of
        Inl _ \<Rightarrow> x\<lparr>xt_dead := True\<rparr>
      | Inr (r, _) \<Rightarrow> x\<lparr>xt_role := r\<rparr>)"

text \<open>A commit: the hook runs first, and whatever it answers, the state pending after it is committed.\<close>

definition surface_commit :: "wm_capability set \<Rightarrow> serial option \<Rightarrow> toplevel_surface \<Rightarrow> toplevel_surface" where
  "surface_commit capabilities i x =
     (let y = (case toplevel_pre_commit capabilities (xt_buffer x) (cs_pending (xt_cached x)) (xt_role x) of
          Inl _ \<Rightarrow> x\<lparr>xt_dead := True\<rparr>
        | Inr (pending, r) \<Rightarrow> x\<lparr>xt_role := r, xt_cached := (xt_cached x)\<lparr>cs_pending := pending\<rparr>\<rparr>)
      in y\<lparr>xt_cached := fst (cache_commit acked_cacheable i (xt_cached y)),
           xt_buffer := None, xt_mapped := buffer_after (xt_buffer x) (xt_mapped x)\<rparr>)"

definition surface_apply :: "serial \<Rightarrow> toplevel_surface \<Rightarrow> toplevel_surface" where
  "surface_apply i x = x\<lparr>xt_cached := fst (cache_apply_state acked_cacheable i (xt_cached x))\<rparr>"

text \<open>
  A client that was sent a protocol error makes no further request. Serials are ordered as long as
  fewer than half of them are issued while a configure waits for its acknowledgement, the premise of
  sending one.
\<close>

inductive toplevel_run :: "toplevel_surface \<Rightarrow> bool" where
  tl_start: "toplevel_run (toplevel_surface_new capabilities)"
| tl_pending: "toplevel_run x \<Longrightarrow> toplevel_run (on_attrs (with_pending_state toplevel_state_default f) x)"
| tl_send: "toplevel_run x \<Longrightarrow>
    (\<forall>c\<in>set (ra_pending_configures (tr_attrs (xt_role x))). serial_lt (cf_serial c) (fst (next_serial counter))) \<Longrightarrow>
    toplevel_run (surface_send_configure version decoration counter x)"
| tl_ack: "toplevel_run x \<Longrightarrow> \<not> xt_dead x \<Longrightarrow> toplevel_run (surface_ack serial x)"
| tl_attach: "toplevel_run x \<Longrightarrow> \<not> xt_dead x \<Longrightarrow> toplevel_run (x\<lparr>xt_buffer := Some b\<rparr>)"
| tl_commit: "toplevel_run x \<Longrightarrow> \<not> xt_dead x \<Longrightarrow> toplevel_run (surface_commit capabilities i x)"
| tl_apply: "toplevel_run x \<Longrightarrow> toplevel_run (surface_apply i x)"
| tl_title: "toplevel_run x \<Longrightarrow> \<not> xt_dead x \<Longrightarrow> toplevel_run (x\<lparr>xt_role := fst (toplevel_set_title title (xt_role x))\<rparr>)"
| tl_app_id: "toplevel_run x \<Longrightarrow> \<not> xt_dead x \<Longrightarrow> toplevel_run (x\<lparr>xt_role := fst (toplevel_set_app_id title (xt_role x))\<rparr>)"

section \<open>The invariant\<close>

definition cached_values :: "'a cached_state \<Rightarrow> 'a set" where
  "cached_values s = insert (cs_pending s) (insert (cs_current s) (snd ` set (cs_cache s)))"

text \<open>The first \<open>k\<close> configures sent are acknowledged or superseded, the rest waits.\<close>

definition attrs_ok :: "toplevel_configure list \<Rightarrow> nat \<Rightarrow> (toplevel_state, unit) role_attributes \<Rightarrow> bool" where
  "attrs_ok sent k a \<longleftrightarrow> k \<le> length sent \<and> ra_pending_configures a = drop k sent \<and> serials_increasing (drop k sent) \<and>
     (\<forall>c. ra_last_acked a = Some c \<longrightarrow> c \<in> set (take k sent)) \<and>
     (ra_initial_configure_sent a \<longrightarrow> sent \<noteq> [] \<and> (k = length sent \<longrightarrow> ra_last_acked a = Some (last sent)))"

definition surface_inv :: "nat \<Rightarrow> toplevel_surface \<Rightarrow> bool" where
  "surface_inv k x \<longleftrightarrow> attrs_ok (xt_sent x) k (tr_attrs (xt_role x)) \<and>
     (\<forall>c. Some c \<in> cached_values (xt_cached x) \<longrightarrow> c \<in> set (take k (xt_sent x))) \<and>
     (\<not> xt_dead x \<longrightarrow> (xt_mapped x \<longleftrightarrow> cs_pending (xt_cached x) \<noteq> None))"

lemma surface_invI:
  "attrs_ok (xt_sent x) k (tr_attrs (xt_role x)) \<Longrightarrow>
   (\<And>c. Some c \<in> cached_values (xt_cached x) \<Longrightarrow> c \<in> set (take k (xt_sent x))) \<Longrightarrow>
   (\<not> xt_dead x \<Longrightarrow> xt_mapped x \<longleftrightarrow> cs_pending (xt_cached x) \<noteq> None) \<Longrightarrow> surface_inv k x"
  by (simp add: surface_inv_def)

lemma surface_invD:
  assumes "surface_inv k x"
  shows "attrs_ok (xt_sent x) k (tr_attrs (xt_role x))"
    "Some c \<in> cached_values (xt_cached x) \<Longrightarrow> c \<in> set (take k (xt_sent x))"
    "\<not> xt_dead x \<Longrightarrow> xt_mapped x \<longleftrightarrow> cs_pending (xt_cached x) \<noteq> None"
  using assms by (simp_all add: surface_inv_def)

lemma attrs_ok_cong:
  "attrs_ok sent k a \<Longrightarrow> ra_pending_configures b = ra_pending_configures a \<Longrightarrow> ra_last_acked b = ra_last_acked a \<Longrightarrow>
   ra_initial_configure_sent b = ra_initial_configure_sent a \<Longrightarrow> attrs_ok sent k b"
  by (simp add: attrs_ok_def)

lemma with_pending_keeps:
  "ra_pending_configures (with_pending_state d f a) = ra_pending_configures a"
  "ra_last_acked (with_pending_state d f a) = ra_last_acked a"
  "ra_initial_configure_sent (with_pending_state d f a) = ra_initial_configure_sent a"
  by (simp_all add: with_pending_state_def Let_def)

lemma get_pending_keeps:
  assumes "toplevel_get_pending_state a = (b, s)"
  shows "ra_pending_configures b = ra_pending_configures a" "ra_last_acked b = ra_last_acked a"
    "ra_initial_configure_sent b = ra_initial_configure_sent a"
  using assms by (auto simp: toplevel_get_pending_state_def split: if_splits)

lemma send_configure_attrs:
  assumes "toplevel_send_configure version decoration counter r = (c, n, r', evs)"
  shows "ra_pending_configures (tr_attrs r') = ra_pending_configures (tr_attrs r) @ [c]"
    "ra_last_acked (tr_attrs r') = ra_last_acked (tr_attrs r)" "ra_initial_configure_sent (tr_attrs r')"
    "cf_serial c = fst (next_serial counter)" "n = snd (next_serial counter)"
proof -
  obtain b s where g: "toplevel_get_pending_state (tr_attrs r) = (b, s)" by fastforce
  show "ra_pending_configures (tr_attrs r') = ra_pending_configures (tr_attrs r) @ [c]"
    "ra_last_acked (tr_attrs r') = ra_last_acked (tr_attrs r)" "ra_initial_configure_sent (tr_attrs r')"
    "cf_serial c = fst (next_serial counter)" "n = snd (next_serial counter)"
    using assms get_pending_keeps[OF g] by (auto simp: toplevel_send_configure_def Let_def g split: prod.splits)
qed

lemma attrs_ok_send:
  assumes "attrs_ok sent k a" "ra_pending_configures b = ra_pending_configures a @ [c]" "ra_last_acked b = ra_last_acked a"
    and "ra_initial_configure_sent b" "\<forall>d\<in>set (ra_pending_configures a). serial_lt (cf_serial d) (cf_serial c)"
  shows "attrs_ok (sent @ [c]) k b"
  using assms by (auto simp: attrs_ok_def serials_increasing_def sorted_wrt_append)

lemma attrs_ok_ack:
  assumes "attrs_ok sent k a" "ack_configure serial a = (b, Some c)"
  shows "\<exists>j. k \<le> j \<and> attrs_ok sent j b"
proof -
  have "serial \<in> cf_serial ` set (ra_pending_configures a)"
    using assms(2) ack_configure_unknown[of serial a] by force
  then obtain d where d: "d \<in> set (ra_pending_configures a)" "cf_serial d = serial" by blast
  then obtain xs ys where p: "ra_pending_configures a = xs @ d # ys" by (meson split_list)
  have sent: "drop k sent = xs @ d # ys" "k \<le> length sent" "serials_increasing (xs @ d # ys)"
    using assms(1) p by (simp_all add: attrs_ok_def)
  have b: "b = a\<lparr>ra_last_acked := Some d, ra_pending_configures := ys\<rparr>"
    using ack_configure_split[OF p sent(3)] assms(2) d(2) by simp
  define j where "j = Suc (k + length xs)"
  have j: "j \<le> length sent" using arg_cong[OF sent(1), of length] by (simp add: j_def)
  have "drop j sent = drop (Suc (length xs)) (drop k sent)" by (simp add: j_def add.commute)
  then have dj: "drop j sent = ys" by (simp add: sent(1))
  have "take j sent = take k sent @ take (Suc (length xs)) (drop k sent)"
    using take_add[of k "Suc (length xs)" sent] by (simp add: j_def)
  then have tj: "take j sent = take k sent @ xs @ [d]" by (simp add: sent(1))
  have "serials_increasing ys" using sent(3) by (simp add: serials_increasing_def sorted_wrt_append)
  moreover have "last sent = d" if "j = length sent"
  proof -
    have "sent = take k sent @ xs @ [d]" using tj that by simp
    then show ?thesis by (metis last_appendR last_snoc snoc_eq_iff_butlast)
  qed
  moreover have "sent \<noteq> []" using sent(1) by auto
  ultimately have "attrs_ok sent j b" using j dj tj by (simp add: attrs_ok_def b)
  then show ?thesis by (intro exI[of _ j]) (simp add: j_def)
qed

lemma set_take_mono: "k \<le> j \<Longrightarrow> x \<in> set (take k xs) \<Longrightarrow> x \<in> set (take j xs)"
  using set_take_subset_set_take[of k j xs] by blast

lemma commit_copied:
  "cached_values (fst (cache_commit (copy_cacheable d) i s)) \<subseteq> cached_values s"
  "cs_pending (fst (cache_commit (copy_cacheable d) i s)) = cs_pending s"
  by (auto simp: cache_commit_def copy_cacheable_def cached_values_def Let_def
      dest: in_set_butlastD split: option.splits prod.splits)

lemma apply_loop_copied:
  "apply_loop (copy_cacheable d) i q cur = (q', cur', e) \<Longrightarrow> insert cur' (snd ` set q') \<subseteq> insert cur (snd ` set q)"
proof (induction q arbitrary: cur e)
  case (Cons x q)
  obtain s y where x: "x = (s, y)" by fastforce
  show ?case
  proof (cases "serial_gt s i")
    case True
    then show ?thesis using Cons.prems by (simp add: x)
  next
    case False
    then obtain e' where "apply_loop (copy_cacheable d) i q y = (q', cur', e')"
      using Cons.prems by (auto simp: x copy_cacheable_def split: prod.splits)
    from Cons.IH[OF this] show ?thesis by (auto simp: x)
  qed
qed simp

lemma apply_copied:
  "cached_values (fst (cache_apply_state (copy_cacheable d) i s)) \<subseteq> cached_values s"
  "cs_pending (fst (cache_apply_state (copy_cacheable d) i s)) = cs_pending s"
proof -
  obtain q cur e where r: "apply_loop (copy_cacheable d) i (cs_cache s) (cs_current s) = (q, cur, e)"
    by (cases "apply_loop (copy_cacheable d) i (cs_cache s) (cs_current s)") auto
  show "cached_values (fst (cache_apply_state (copy_cacheable d) i s)) \<subseteq> cached_values s"
    using apply_loop_copied[OF r] by (simp add: cache_apply_state_def r cached_values_def) blast
  show "cs_pending (fst (cache_apply_state (copy_cacheable d) i s)) = cs_pending s"
    by (simp add: cache_apply_state_def r)
qed

lemma pre_commit_cases:
  assumes "toplevel_pre_commit capabilities b pending r = Inr (pending', r')"
  obtains (stays) "r' = r" "pending' = (if buffer_after b (pending \<noteq> None) then ra_last_acked (tr_attrs r) else None)"
      "pending' \<noteq> None \<longleftrightarrow> buffer_after b (pending \<noteq> None)"
  | (unmapped) "pending' = None" "\<not> buffer_after b (pending \<noteq> None)"
      "ra_pending_configures (tr_attrs r') = ra_pending_configures (tr_attrs r)" "ra_last_acked (tr_attrs r') = None"
      "\<not> ra_initial_configure_sent (tr_attrs r')"
proof (cases "pending \<noteq> None \<and> \<not> buffer_after b (pending \<noteq> None)")
  case True
  then show ?thesis using assms by (intro unmapped) (auto simp: toplevel_pre_commit_def Let_def reset_attributes_def role_default_def split: if_splits)
next
  case False
  then show ?thesis using assms by (intro stays) (auto simp: toplevel_pre_commit_def Let_def split: if_splits)
qed

lemma surface_commit_inv:
  assumes inv: "surface_inv k x" and alive: "\<not> xt_dead x"
  shows "surface_inv k (surface_commit capabilities i x)"
proof (cases "toplevel_pre_commit capabilities (xt_buffer x) (cs_pending (xt_cached x)) (xt_role x)")
  case (Inl e)
  then show ?thesis
    using surface_invD(1,2)[OF inv] commit_copied(1)[of None i "xt_cached x"]
    by (intro surface_invI) (auto simp: surface_commit_def Let_def acked_cacheable_def)
next
  case (Inr res)
  obtain pending r where res: "res = (pending, r)" by fastforce
  let ?cached = "fst (cache_commit acked_cacheable i ((xt_cached x)\<lparr>cs_pending := pending\<rparr>))"
  have x': "surface_commit capabilities i x = x\<lparr>xt_role := r, xt_cached := ?cached, xt_buffer := None,
      xt_mapped := buffer_after (xt_buffer x) (xt_mapped x)\<rparr>"
    using Inr by (simp add: surface_commit_def res Let_def)
  note D = surface_invD[OF inv]
  have mapped: "xt_mapped x \<longleftrightarrow> cs_pending (xt_cached x) \<noteq> None" by (rule D(3)[OF alive])
  have vals: "cached_values ?cached \<subseteq> insert pending (cached_values (xt_cached x))" "cs_pending ?cached = pending"
    unfolding acked_cacheable_def using commit_copied[of None i "(xt_cached x)\<lparr>cs_pending := pending\<rparr>"]
    by (auto simp: cached_values_def)
  have goal: "?thesis" if "attrs_ok (xt_sent x) k (tr_attrs r)" "\<And>c. pending = Some c \<Longrightarrow> c \<in> set (take k (xt_sent x))"
    "pending \<noteq> None \<longleftrightarrow> buffer_after (xt_buffer x) (xt_mapped x)"
    unfolding x' using that vals D(2) by (intro surface_invI) auto
  show ?thesis
  proof (rule pre_commit_cases[OF Inr[unfolded res]], goal_cases stays unmapped)
    case stays
    then show ?case using D(1) mapped by (intro goal) (auto simp: attrs_ok_def split: if_splits)
  next
    case unmapped
    then show ?case using D(1) mapped by (intro goal) (auto simp: attrs_ok_def)
  qed
qed

lemma surface_inv_run: "toplevel_run x \<Longrightarrow> \<exists>k. surface_inv k x"
proof (induction rule: toplevel_run.induct)
  case (tl_start capabilities)
  have "surface_inv 0 (toplevel_surface_new capabilities)"
    by (rule surface_invI) (simp_all add: toplevel_surface_new_def toplevel_init_def Let_def attrs_ok_def with_pending_keeps
        toplevel_role_default_def role_default_def serials_increasing_def cached_values_def cached_state_default_def
        acked_cacheable_def copy_cacheable_def)
  then show ?case by blast
next
  case (tl_pending x f)
  then obtain k where k: "surface_inv k x" by blast
  then have "surface_inv k (on_attrs (with_pending_state toplevel_state_default f) x)"
    using surface_invD[OF k] attrs_ok_cong[OF surface_invD(1)[OF k] with_pending_keeps]
    by (intro surface_invI) (auto simp: on_attrs_def)
  then show ?case by blast
next
  case (tl_send x counter version decoration)
  then obtain k where k: "surface_inv k x" by blast
  obtain c n r evs where s: "toplevel_send_configure version decoration counter (xt_role x) = (c, n, r, evs)"
    using prod_cases4 by blast
  note S = send_configure_attrs[OF s]
  have "attrs_ok (xt_sent x @ [c]) k (tr_attrs r)"
    by (rule attrs_ok_send[OF surface_invD(1)[OF k] S(1-3)]) (use tl_send.hyps(2) S(4) in simp)
  moreover have "k \<le> length (xt_sent x)" using surface_invD(1)[OF k] by (simp add: attrs_ok_def)
  ultimately have "surface_inv k (surface_send_configure version decoration counter x)"
    using surface_invD(2,3)[OF k] by (intro surface_invI) (auto simp: surface_send_configure_def s)
  then show ?case by blast
next
  case (tl_ack x serial)
  then obtain k where k: "surface_inv k x" by blast
  obtain a c where a: "ack_configure serial (tr_attrs (xt_role x)) = (a, c)" by fastforce
  show ?case
  proof (cases c)
    case None
    then have "surface_inv k (surface_ack serial x)"
      using surface_invD[OF k] by (intro surface_invI) (simp_all add: surface_ack_def ack_configure_request_def a)
    then show ?thesis by blast
  next
    case (Some d)
    from attrs_ok_ack[OF surface_invD(1)[OF k] a[unfolded Some]]
    obtain j where j: "k \<le> j" "attrs_ok (xt_sent x) j a" by blast
    then have "surface_inv j (surface_ack serial x)"
      using surface_invD(3)[OF k] Some
      by (intro surface_invI) (auto simp: surface_ack_def ack_configure_request_def a
          intro: set_take_mono[OF j(1)] surface_invD(2)[OF k])
    then show ?thesis by blast
  qed
next
  case (tl_attach x b)
  then obtain k where k: "surface_inv k x" by blast
  then have "surface_inv k (x\<lparr>xt_buffer := Some b\<rparr>)" by (simp add: surface_inv_def)
  then show ?case by blast
next
  case (tl_commit x capabilities i)
  then show ?case using surface_commit_inv by blast
next
  case (tl_apply x i)
  then obtain k where k: "surface_inv k x" by blast
  then have "surface_inv k (surface_apply i x)"
    using surface_invD[OF k] apply_copied[of None i "xt_cached x"]
    by (intro surface_invI) (auto simp: surface_apply_def acked_cacheable_def)
  then show ?case by blast
next
  case (tl_title x title)
  then obtain k where "surface_inv k x" by blast
  then have "surface_inv k (x\<lparr>xt_role := fst (toplevel_set_title title (xt_role x))\<rparr>)"
    by (simp add: surface_inv_def toplevel_set_title_def)
  then show ?case by blast
next
  case (tl_app_id x title)
  then obtain k where "surface_inv k x" by blast
  then have "surface_inv k (x\<lparr>xt_role := fst (toplevel_set_app_id title (xt_role x))\<rparr>)"
    by (simp add: surface_inv_def toplevel_set_app_id_def)
  then show ?case by blast
qed

lemma current_server_state_sent:
  assumes "attrs_ok sent k a" "ra_initial_configure_sent a"
  shows "sent \<noteq> [] \<and> current_server_state d a = cf_state (last sent)"
proof (cases "k = length sent")
  case True
  then show ?thesis using assms by (simp add: attrs_ok_def current_server_state_def)
next
  case False
  then have "drop k sent \<noteq> []" using assms(1) by (simp add: attrs_ok_def)
  then show ?thesis using assms by (auto simp: attrs_ok_def current_server_state_def)
qed

section \<open>Properties\<close>

text \<open>Acknowledging a configure keeps exactly those that were sent after it. With serials in their
  order, also across the wrap-around of the counter, the acknowledged configure becomes the last
  acknowledged one, it and all earlier ones are gone, and an unknown serial changes nothing.\<close>

theorem ack_configure_exact:
  assumes "serials_increasing (ra_pending_configures a)"
  shows "(\<forall>i. i < length (ra_pending_configures a) \<longrightarrow>
      ack_configure (cf_serial (ra_pending_configures a ! i)) a =
        (a\<lparr>ra_last_acked := Some (ra_pending_configures a ! i),
           ra_pending_configures := drop (Suc i) (ra_pending_configures a)\<rparr>, Some (ra_pending_configures a ! i))) \<and>
    (\<forall>s. s \<notin> cf_serial ` set (ra_pending_configures a) \<longrightarrow> ack_configure s a = (a, None))"
proof (intro conjI allI impI)
  fix i assume "i < length (ra_pending_configures a)"
  then have "ra_pending_configures a = take i (ra_pending_configures a) @ ra_pending_configures a ! i # drop (Suc i) (ra_pending_configures a)"
    by (rule id_take_nth_drop)
  then show "ack_configure (cf_serial (ra_pending_configures a ! i)) a =
        (a\<lparr>ra_last_acked := Some (ra_pending_configures a ! i),
           ra_pending_configures := drop (Suc i) (ra_pending_configures a)\<rparr>, Some (ra_pending_configures a ! i))"
    using ack_configure_split[of a] assms by metis
qed (rule ack_configure_unknown)

definition example_configure :: "u32 \<Rightarrow> (unit, unit) configure" where
  "example_configure n = \<lparr>cf_state = (), cf_serial = Serial n, cf_extra = ()\<rparr>"

theorem ack_configure_exact_witness:
  "snd (ack_configure (Serial 0) (role_default\<lparr>ra_pending_configures := [example_configure (- 1), example_configure 0, example_configure 1]\<rparr>)) =
     Some (example_configure 0)"
proof -
  define a where "a = (role_default :: (unit, unit) role_attributes)\<lparr>ra_pending_configures := [example_configure (- 1), example_configure 0, example_configure 1]\<rparr>"
  have "serials_increasing (ra_pending_configures a)"
    using serial_lt_add[of 1 "Serial (- 1)"] serial_lt_add[of 2 "Serial (- 1)"] serial_lt_add[of 1 "Serial 0"]
    by (simp add: a_def example_configure_def serials_increasing_def)
  from conjunct1[OF ack_configure_exact[OF this], rule_format, of 1]
  show ?thesis unfolding a_def[symmetric] by (simp add: a_def example_configure_def)
qed

text \<open>C10. A mapped toplevel has acknowledged what it shows. As long as the client keeps to the protocol,
  the surface has a buffer exactly when its pending state holds an acknowledged configure; the
  configures waiting are those sent after some point, and every configure in the pending, queued or
  current state of the surface was sent before that point.\<close>

theorem toplevel_mapped_configured:
  assumes "toplevel_run x" "\<not> xt_dead x"
  shows "(xt_mapped x \<longleftrightarrow> cs_pending (xt_cached x) \<noteq> None) \<and>
    (\<exists>k \<le> length (xt_sent x). ra_pending_configures (tr_attrs (xt_role x)) = drop k (xt_sent x) \<and>
       {c. Some c \<in> cached_values (xt_cached x)} \<subseteq> set (take k (xt_sent x)))"
proof -
  obtain k where k: "surface_inv k x" using surface_inv_run[OF assms(1)] by blast
  note D = surface_invD[OF k]
  show ?thesis using D(1) D(2) D(3)[OF assms(2)] by (intro conjI exI[of _ k]) (auto simp: attrs_ok_def)
qed

text \<open>No state is lost between configures: from its initial configure until it is unmapped, the state
  the compositor continues from is the one it sent last, whether that is still waiting,
  acknowledged or committed.\<close>

theorem toplevel_server_state_is_last_sent:
  assumes "toplevel_run x" "ra_initial_configure_sent (tr_attrs (xt_role x))"
  shows "xt_sent x \<noteq> [] \<and>
    current_server_state toplevel_state_default (tr_attrs (xt_role x)) = cf_state (last (xt_sent x))"
proof -
  obtain k where k: "surface_inv k x" using surface_inv_run[OF assms(1)] by blast
  show ?thesis by (rule current_server_state_sent[OF surface_invD(1)[OF k] assms(2)])
qed

definition example_toplevel :: toplevel_surface where
  "example_toplevel = surface_send_configure 6 False 1 (toplevel_surface_new {})"

lemma example_toplevel_run: "toplevel_run example_toplevel"
  unfolding example_toplevel_def
  by (rule tl_send[OF tl_start])
    (simp add: toplevel_surface_new_def toplevel_init_def with_pending_keeps toplevel_role_default_def role_default_def Let_def)

lemma example_toplevel_sent:
  "ra_initial_configure_sent (tr_attrs (xt_role example_toplevel))" "\<not> xt_dead example_toplevel"
  by (simp_all add: example_toplevel_def surface_send_configure_def toplevel_send_configure_def Let_def
      toplevel_surface_new_def split: prod.splits)

theorem toplevel_mapped_configured_witness:
  "\<exists>k \<le> length (xt_sent example_toplevel). ra_pending_configures (tr_attrs (xt_role example_toplevel)) = drop k (xt_sent example_toplevel)"
  using toplevel_mapped_configured[OF example_toplevel_run example_toplevel_sent(2)] by blast

theorem toplevel_server_state_is_last_sent_witness:
  "xt_sent example_toplevel \<noteq> []"
  using toplevel_server_state_is_last_sent[OF example_toplevel_run example_toplevel_sent(1)] by blast

text \<open>A configure is sent when something changed and only then. It carries the pending state, a
  serial just drawn, and is the last of those waiting; afterwards nothing is pending, so asking
  again sends nothing.\<close>

theorem toplevel_send_pending_once:
  "toplevel_send_pending_configure version decoration counter r =
     (if ra_initial_configure_sent (tr_attrs r) \<and>
         (case ra_server_pending (tr_attrs r) of None \<Rightarrow> True | Some s \<Rightarrow> s = current_server_state toplevel_state_default (tr_attrs r))
      then None else Some (toplevel_send_configure version decoration counter r)) \<and>
   (case toplevel_send_configure version decoration counter r of (c, counter', r', events) \<Rightarrow>
      toplevel_send_pending_configure version decoration' counter' r' = None \<and>
      current_server_state toplevel_state_default (tr_attrs r') = cf_state c \<and>
      cf_serial c = fst (next_serial counter) \<and> last events = Ev_surface_configure (cf_serial c))"
proof -
  obtain c n r' evs where s: "toplevel_send_configure version decoration counter r = (c, n, r', evs)"
    using prod_cases4 by blast
  obtain a st where g: "toplevel_get_pending_state (tr_attrs r) = (a, st)" by fastforce
  note S = send_configure_attrs[OF s]
  have "ra_server_pending a = None \<or> ra_server_pending a = Some (current_server_state toplevel_state_default a) \<and> st = None"
    using g by (auto simp: toplevel_get_pending_state_def has_pending_changes_def split: if_splits option.splits)
  moreover have "ra_server_pending (tr_attrs r') = ra_server_pending a"
      "cf_state c = (case st of Some x \<Rightarrow> x | None \<Rightarrow> current_server_state toplevel_state_default a)"
      "last evs = Ev_surface_configure (cf_serial c)"
    using s by (auto simp: toplevel_send_configure_def g Let_def send_toplevel_configure_def split: prod.splits)
  moreover have "current_server_state toplevel_state_default (tr_attrs r') = cf_state c"
    using S(1) by (simp add: current_server_state_def)
  ultimately show ?thesis
    using S(3,4) unfolding s
    by (auto simp: s toplevel_send_pending_configure_def surface_has_pending_changes_def has_pending_changes_def split: option.splits)
qed

text \<open>Unmapping a popup loses its parent and its position. The commit that removes the buffer resets
  the role, so that every later commit is a protocol error, although the popup still exists and a
  toplevel in the same place can be mapped again; a configure in between sends the empty geometry.\<close>

theorem popup_cannot_be_remapped:
  assumes "pr_parent r = Some p" "pr_requested_grab r = None" "pending \<noteq> None"
  shows "\<exists>r'. popup_pre_commit (Some Removed) pending r = (None, None, r', None) \<and>
    popup_pre_commit b acked r' = (Some Not_constructed, acked, r', None) \<and>
    (ra_pending_configures (pr_attrs r') = [] \<longrightarrow>
       cf_state (fst (popup_send_configure_internal token counter r')) = popup_state_default)"
  using assms by (auto simp: popup_pre_commit_def Let_def buffer_after_def popup_role_default_def reset_attributes_def
      role_default_def popup_send_configure_internal_def current_server_state_def split: prod.splits)

theorem popup_cannot_be_remapped_witness:
  "\<exists>r'. popup_pre_commit (Some Removed)
       (Some \<lparr>cf_state = popup_state_default, cf_serial = Serial 1, cf_extra = None\<rparr>) (popup_init (Some 7) example_positioner) =
       (None, None, r', None) \<and> fst (popup_pre_commit None None r') = Some Not_constructed"
proof -
  let ?r = "popup_init (Some 7) example_positioner"
  let ?c = "Some \<lparr>cf_state = popup_state_default, cf_serial = Serial 1, cf_extra = None\<rparr>"
  obtain r' where "popup_pre_commit (Some Removed) ?c ?r = (None, None, r', None)"
    "popup_pre_commit None None r' = (Some Not_constructed, None, r', None)"
    using popup_cannot_be_remapped[of ?r 7 ?c None None None 1] by (auto simp: popup_init_def popup_role_default_def)
  then show ?thesis by (intro exI[of _ r']) simp
qed

end
