(* ===== verification/Xdg_Parents.thy ===== *)
theory Xdg_Parents
  imports Xdg_Role
begin

text \<open>
  Parents of toplevels: \<open>is_valid_parent\<close> in \<open>src/wayland/shell/mod.rs\<close>, \<open>set_parent\<close> in
  \<open>src/wayland/shell/xdg/handlers/surface/toplevel.rs\<close> and the parents set over \<open>xdg_foreign\<close> in
  \<open>src/wayland/xdg_foreign/handlers.rs\<close>. The data of a surface is behind a mutex that is not
  reentrant, so the surfaces locked by a caller are an argument and locking one again is a deadlock.
\<close>

section \<open>The parents\<close>

text \<open>Of each surface its role, and the parent in its toplevel data, if it has any.\<close>

record toplevel_world =
  tw_role :: "nat \<Rightarrow> xdg_surface_role option"
  tw_parent :: "nat \<Rightarrow> nat option option"

datatype 'a locking = Deadlock | Unlocked 'a

definition is_toplevel_equivalent :: "nat list \<Rightarrow> toplevel_world \<Rightarrow> nat \<Rightarrow> bool locking" where
  "is_toplevel_equivalent locked w s = (if s \<in> set locked then Deadlock else Unlocked (tw_role w s = Some Role_toplevel))"

definition parent_of :: "toplevel_world \<Rightarrow> nat \<Rightarrow> nat option" where
  "parent_of w s = (case tw_parent w s of Some p \<Rightarrow> p | None \<Rightarrow> None)"

text \<open>The loop follows parents for as long as there are any; not returning is \<open>None\<close>.\<close>

partial_function (option) parent_loop :: "nat list \<Rightarrow> toplevel_world \<Rightarrow> nat \<Rightarrow> nat option \<Rightarrow> bool locking option" where
  "parent_loop locked w child next_parent =
     (if next_parent = None then Some (Unlocked True)
      else if child = the next_parent then Some (Unlocked False)
      else if the next_parent \<in> set locked then Some Deadlock
      else parent_loop locked w child (parent_of w (the next_parent)))"

definition is_valid_parent :: "nat list \<Rightarrow> toplevel_world \<Rightarrow> nat \<Rightarrow> nat \<Rightarrow> bool locking option" where
  "is_valid_parent locked w child parent =
     (case is_toplevel_equivalent locked w parent of
        Deadlock \<Rightarrow> Some Deadlock
      | Unlocked False \<Rightarrow> Some (Unlocked False)
      | Unlocked True \<Rightarrow> parent_loop locked w child (Some parent))"

definition put_parent :: "nat \<Rightarrow> nat option \<Rightarrow> toplevel_world \<Rightarrow> toplevel_world" where
  "put_parent child parent w = w\<lparr>tw_parent := (tw_parent w)(child := Some parent)\<rparr>"

text \<open>\<open>xdg_toplevel.set_parent\<close>: the new world, whether the request is an error, and whether the
  handler is told.\<close>

definition toplevel_set_parent :: "nat \<Rightarrow> nat option \<Rightarrow> toplevel_world \<Rightarrow> (toplevel_world \<times> bool \<times> bool) locking option" where
  "toplevel_set_parent child parent w =
     (let changed = (tw_parent w child \<noteq> Some parent)
      in case parent of
           None \<Rightarrow> Some (Unlocked (put_parent child None w, False, changed))
         | Some p \<Rightarrow>
             (case is_valid_parent [] w child p of
                None \<Rightarrow> None
              | Some Deadlock \<Rightarrow> Some Deadlock
              | Some (Unlocked True) \<Rightarrow> Some (Unlocked (put_parent child (Some p) w, False, changed))
              | Some (Unlocked False) \<Rightarrow> Some (Unlocked (w, True, changed))))"

text \<open>What else changes roles and parents: \<open>get_toplevel\<close> creates the data, and unmapping or
  destroying a toplevel resets it.\<close>

definition toplevel_data_created :: "nat \<Rightarrow> toplevel_world \<Rightarrow> toplevel_world" where
  "toplevel_data_created s w = w\<lparr>tw_role := (tw_role w)(s := Some Role_toplevel),
     tw_parent := (tw_parent w)(s := Some (case tw_parent w s of Some p \<Rightarrow> p | None \<Rightarrow> None))\<rparr>"

section \<open>Foreign parents\<close>

record exported_state =
  ex_surface :: nat
  ex_requested_child :: "(nat \<times> nat) option"
  ex_imported_by :: "nat list"

record foreign_world =
  fw_top :: toplevel_world
  fw_exported :: "string \<Rightarrow> exported_state option"

text \<open>The handle is a random string; the result is whether the request was in order.\<close>

definition export_toplevel :: "string \<Rightarrow> nat \<Rightarrow> foreign_world \<Rightarrow> foreign_world \<times> bool" where
  "export_toplevel handle surface w =
     (if tw_role (fw_top w) surface \<noteq> Some Role_toplevel then (w, False)
      else (w\<lparr>fw_exported := (fw_exported w)(handle \<mapsto>
              \<lparr>ex_surface = surface, ex_requested_child = None, ex_imported_by = []\<rparr>)\<rparr>, True))"

text \<open>The result is whether the imported object lives; otherwise it is told that it is destroyed.\<close>

definition import_toplevel :: "nat \<Rightarrow> string \<Rightarrow> foreign_world \<Rightarrow> foreign_world \<times> bool" where
  "import_toplevel imported handle w =
     (case fw_exported w handle of
        Some e \<Rightarrow> (w\<lparr>fw_exported := (fw_exported w)(handle \<mapsto> e\<lparr>ex_imported_by := List.insert imported (ex_imported_by e)\<rparr>)\<rparr>, True)
      | None \<Rightarrow> (w, False))"

text \<open>\<open>set_parent_of\<close>: the data of the child is locked while the parent is checked. The result says
  whether the request is invalid.\<close>

definition set_parent_of :: "nat \<Rightarrow> string \<Rightarrow> nat \<Rightarrow> foreign_world \<Rightarrow> (foreign_world \<times> bool) locking option" where
  "set_parent_of imported handle child w =
     (case fw_exported w handle of
        None \<Rightarrow> Some (Unlocked (w, False))
      | Some e \<Rightarrow>
          let parent = ex_surface e;
              requested = (\<lambda>w. w\<lparr>fw_exported := (fw_exported w)(handle \<mapsto> e\<lparr>ex_requested_child := Some (child, imported)\<rparr>)\<rparr>)
          in case tw_parent (fw_top w) child of
               None \<Rightarrow> Some (Unlocked (requested w, False))
             | Some _ \<Rightarrow>
                 (case is_valid_parent [child] (fw_top w) child parent of
                    None \<Rightarrow> None
                  | Some Deadlock \<Rightarrow> Some Deadlock
                  | Some (Unlocked False) \<Rightarrow> Some (Unlocked (w, True))
                  | Some (Unlocked True) \<Rightarrow>
                      Some (Unlocked (requested (w\<lparr>fw_top := put_parent child (Some parent) (fw_top w)\<rparr>), False))))"

definition invalidate_relationship_for :: "string \<Rightarrow> nat option \<Rightarrow> foreign_world \<Rightarrow> foreign_world" where
  "invalidate_relationship_for handle invalidate_for w =
     (case fw_exported w handle of
        None \<Rightarrow> w
      | Some e \<Rightarrow>
          (case ex_requested_child e of
             None \<Rightarrow> w
           | Some (requested_child, requested_by) \<Rightarrow>
               if (case invalidate_for of Some i \<Rightarrow> i \<noteq> requested_by | None \<Rightarrow> False) then w
               else let top = (if tw_parent (fw_top w) requested_child = Some (Some (ex_surface e))
                               then put_parent requested_child None (fw_top w) else fw_top w)
                    in w\<lparr>fw_top := top, fw_exported := (fw_exported w)(handle \<mapsto> e\<lparr>ex_requested_child := None\<rparr>)\<rparr>))"

definition exported_destroyed :: "string \<Rightarrow> foreign_world \<Rightarrow> foreign_world" where
  "exported_destroyed handle w =
     (let w = invalidate_relationship_for handle None w in w\<lparr>fw_exported := (fw_exported w)(handle := None)\<rparr>)"

definition imported_destroyed :: "nat \<Rightarrow> string \<Rightarrow> foreign_world \<Rightarrow> foreign_world" where
  "imported_destroyed imported handle w =
     (let w = (case fw_exported w handle of
                 Some e \<Rightarrow> w\<lparr>fw_exported := (fw_exported w)(handle \<mapsto> e\<lparr>ex_imported_by := remove1 imported (ex_imported_by e)\<rparr>)\<rparr>
               | None \<Rightarrow> w)
      in invalidate_relationship_for handle (Some imported) w)"

text \<open>Everything clients can do to the parents of toplevels; the toplevel data of a surface is never removed.\<close>

inductive parents_reachable :: "foreign_world \<Rightarrow> bool" where
  pr_start: "parents_reachable \<lparr>fw_top = \<lparr>tw_role = (\<lambda>_. None), tw_parent = (\<lambda>_. None)\<rparr>, fw_exported = Map.empty\<rparr>"
| pr_role: "parents_reachable w \<Longrightarrow> tw_role (fw_top w) s = None \<Longrightarrow>
    parents_reachable (w\<lparr>fw_top := (fw_top w)\<lparr>tw_role := (tw_role (fw_top w))(s := Some r)\<rparr>\<rparr>)"
| pr_toplevel: "parents_reachable w \<Longrightarrow> tw_role (fw_top w) s \<in> {None, Some Role_toplevel} \<Longrightarrow>
    parents_reachable (w\<lparr>fw_top := toplevel_data_created s (fw_top w)\<rparr>)"
| pr_set_parent: "parents_reachable w \<Longrightarrow> tw_parent (fw_top w) c \<noteq> None \<Longrightarrow>
    toplevel_set_parent c p (fw_top w) = Some (Unlocked (t, e, ch)) \<Longrightarrow> parents_reachable (w\<lparr>fw_top := t\<rparr>)"
| pr_reset: "parents_reachable w \<Longrightarrow> tw_parent (fw_top w) s \<noteq> None \<Longrightarrow>
    parents_reachable (w\<lparr>fw_top := put_parent s None (fw_top w)\<rparr>)"
| pr_export: "parents_reachable w \<Longrightarrow> parents_reachable (fst (export_toplevel h s w))"
| pr_import: "parents_reachable w \<Longrightarrow> parents_reachable (fst (import_toplevel i h w))"
| pr_set_parent_of: "parents_reachable w \<Longrightarrow> set_parent_of i h c w = Some (Unlocked (w', e)) \<Longrightarrow> parents_reachable w'"
| pr_exported_destroyed: "parents_reachable w \<Longrightarrow> parents_reachable (exported_destroyed h w)"
| pr_imported_destroyed: "parents_reachable w \<Longrightarrow> parents_reachable (imported_destroyed i h w)"

section \<open>The loop returns and is right on a forest\<close>

definition parent_rel :: "toplevel_world \<Rightarrow> (nat \<times> nat) set" where
  "parent_rel w = {(c, p). tw_parent w c = Some (Some p)}"

definition forest :: "toplevel_world \<Rightarrow> bool" where
  "forest w \<longleftrightarrow> acyclic (parent_rel w) \<and> finite {c. tw_parent w c \<noteq> None}"

lemma finite_parent_rel: "forest w \<Longrightarrow> finite (parent_rel w)"
proof -
  assume "forest w"
  then have f: "finite {c. tw_parent w c \<noteq> None}" by (simp add: forest_def)
  have "parent_rel w \<subseteq> (\<lambda>c. (c, the (the (tw_parent w c)))) ` {c. tw_parent w c \<noteq> None}"
    by (force simp: parent_rel_def)
  then show ?thesis using f finite_surj by blast
qed

lemma parent_step: "parent_of w p = Some q \<longleftrightarrow> (p, q) \<in> parent_rel w"
  by (auto simp: parent_rel_def parent_of_def split: option.splits)

lemma parent_loop_forest:
  assumes "forest w" "set locked \<subseteq> {child}"
  shows "parent_loop locked w child (Some p) = Some (Unlocked ((p, child) \<notin> (parent_rel w)\<^sup>*))"
proof -
  have "wf ((parent_rel w)\<inverse>)"
    using finite_acyclic_wf_converse[OF finite_parent_rel[OF assms(1)]] assms(1) by (simp add: forest_def)
  then show ?thesis
  proof (induction p rule: wf_induct_rule)
    case (less p)
    show ?case
    proof (cases "child = p")
      case True
      then show ?thesis by (subst parent_loop.simps) simp
    next
      case False
      then have unlocked: "p \<notin> set locked" using assms(2) by auto
      have step: "parent_loop locked w child (Some p) =
          parent_loop locked w child (parent_of w p)"
        using False unlocked by (subst parent_loop.simps) simp
      show ?thesis
      proof (cases "parent_of w p")
        case None
        then have "\<And>q. (p, q) \<notin> parent_rel w" using parent_step[of w p] by simp
        then have "(p, child) \<notin> (parent_rel w)\<^sup>*" using False by (auto elim: converse_rtranclE)
        then show ?thesis unfolding step None by (subst parent_loop.simps) simp
      next
        case (Some q)
        then have q: "(p, q) \<in> parent_rel w" using parent_step[of w p q] by simp
        have "(p, child) \<in> (parent_rel w)\<^sup>* \<longleftrightarrow> (q, child) \<in> (parent_rel w)\<^sup>*"
          using q False by (auto simp: parent_rel_def elim: converse_rtranclE intro: converse_rtrancl_into_rtrancl)
        then show ?thesis unfolding step Some using less.IH[of q] q by simp
      qed
    qed
  qed
qed

lemma is_valid_parent_forest:
  assumes "forest w" "set locked \<subseteq> {child}"
  shows "is_valid_parent locked w child p =
    Some (if p \<in> set locked then Deadlock
          else Unlocked (tw_role w p = Some Role_toplevel \<and> (p, child) \<notin> (parent_rel w)\<^sup>*))"
  using parent_loop_forest[OF assms, of p]
  by (simp add: is_valid_parent_def is_toplevel_equivalent_def split: bool.splits)

section \<open>Every request keeps the forest\<close>

lemma forest_put_parent:
  assumes "forest w" "\<And>p. q = Some p \<Longrightarrow> (p, c) \<notin> (parent_rel w)\<^sup>*"
  shows "forest (put_parent c q w)"
proof -
  have "finite {s. tw_parent (put_parent c q w) s \<noteq> None}"
    by (rule finite_subset[of _ "insert c {s. tw_parent w s \<noteq> None}"]) (use assms(1) in \<open>auto simp: put_parent_def forest_def\<close>)
  moreover have "acyclic (parent_rel (put_parent c q w))"
  proof (cases q)
    case None
    then have "parent_rel (put_parent c q w) \<subseteq> parent_rel w" by (auto simp: parent_rel_def put_parent_def split: if_splits)
    then show ?thesis using assms(1) by (auto simp: forest_def intro: acyclic_subset)
  next
    case (Some p)
    then have "parent_rel (put_parent c q w) \<subseteq> insert (c, p) (parent_rel w)"
      by (auto simp: parent_rel_def put_parent_def split: if_splits)
    moreover have "acyclic (insert (c, p) (parent_rel w))"
      using assms(1) assms(2)[OF Some] by (simp add: forest_def acyclic_insert)
    ultimately show ?thesis by (rule acyclic_subset[rotated])
  qed
  ultimately show ?thesis by (simp add: forest_def)
qed

lemma forest_role: "forest (w\<lparr>tw_role := r\<rparr>) = forest w"
  by (simp add: forest_def parent_rel_def)

lemma forest_created:
  assumes "forest w"
  shows "forest (toplevel_data_created s w)"
proof -
  have "parent_rel (toplevel_data_created s w) = parent_rel w"
    by (auto simp: parent_rel_def toplevel_data_created_def split: if_splits option.splits)
  moreover have "finite {c. tw_parent (toplevel_data_created s w) c \<noteq> None}"
    by (rule finite_subset[of _ "insert s {c. tw_parent w c \<noteq> None}"])
      (use assms in \<open>auto simp: toplevel_data_created_def forest_def\<close>)
  ultimately show ?thesis using assms by (simp add: forest_def)
qed

lemma toplevel_set_parent_result:
  assumes "forest w"
  shows "toplevel_set_parent c q w = Some (Unlocked
    (if (\<forall>p. q = Some p \<longrightarrow> tw_role w p = Some Role_toplevel \<and> (p, c) \<notin> (parent_rel w)\<^sup>*)
     then (put_parent c q w, False, tw_parent w c \<noteq> Some q) else (w, True, tw_parent w c \<noteq> Some q)))"
  using is_valid_parent_forest[OF assms, of "[]" c]
  by (auto simp: toplevel_set_parent_def Let_def split: option.splits bool.splits)

lemma set_parent_of_result:
  assumes "forest (fw_top w)"
  shows "set_parent_of i h c w =
    (case fw_exported w h of
       None \<Rightarrow> Some (Unlocked (w, False))
     | Some e \<Rightarrow>
         if tw_parent (fw_top w) c \<noteq> None \<and> ex_surface e = c then Some Deadlock
         else if tw_parent (fw_top w) c \<noteq> None \<and> \<not> (tw_role (fw_top w) (ex_surface e) = Some Role_toplevel \<and>
             (ex_surface e, c) \<notin> (parent_rel (fw_top w))\<^sup>*) then Some (Unlocked (w, True))
         else Some (Unlocked (w\<lparr>fw_top := (if tw_parent (fw_top w) c = None then fw_top w
                                     else put_parent c (Some (ex_surface e)) (fw_top w)),
             fw_exported := (fw_exported w)(h \<mapsto> e\<lparr>ex_requested_child := Some (c, i)\<rparr>)\<rparr>, False)))"
  using is_valid_parent_forest[OF assms, of "[c]" c]
  by (auto simp: set_parent_of_def Let_def split: option.splits bool.splits)

lemma forest_invalidate: "forest (fw_top w) \<Longrightarrow> forest (fw_top (invalidate_relationship_for h i w))"
  by (auto simp: invalidate_relationship_for_def Let_def intro: forest_put_parent split: option.splits)

lemma forest_reachable: "parents_reachable w \<Longrightarrow> forest (fw_top w)"
proof (induction rule: parents_reachable.induct)
  case pr_start
  then show ?case by (simp add: forest_def parent_rel_def acyclic_def)
next
  case (pr_role w s r)
  then show ?case by (simp add: forest_role)
next
  case (pr_toplevel w s)
  then show ?case by (simp add: forest_created)
next
  case (pr_set_parent w c p t e ch)
  then show ?case using toplevel_set_parent_result[OF pr_set_parent.IH, of c p]
    by (auto split: if_splits intro: forest_put_parent)
next
  case (pr_reset w s)
  then show ?case by (auto intro: forest_put_parent)
next
  case (pr_export w h s)
  then show ?case by (simp add: export_toplevel_def)
next
  case (pr_import w i h)
  then show ?case by (simp add: import_toplevel_def split: option.splits)
next
  case (pr_set_parent_of w i h c w' e)
  then show ?case using set_parent_of_result[OF pr_set_parent_of.IH, of i h c]
    by (auto split: if_splits option.splits intro: forest_put_parent)
next
  case (pr_exported_destroyed w h)
  then show ?case by (simp add: exported_destroyed_def Let_def forest_invalidate)
next
  case (pr_imported_destroyed w i h)
  then show ?case unfolding imported_destroyed_def Let_def by (intro forest_invalidate) (simp split: option.splits)
qed

section \<open>Properties\<close>

text \<open>C29. Toplevels are always a forest. Whatever parents clients set, directly or over exported handles,
  destroy or revoke, no surface becomes its own ancestor. So the search of \<open>is_valid_parent\<close>, called
  with no data locked or, as \<open>set_parent_of\<close> does, with that of the child, ends with the answer whether
  the parent is a toplevel that does not descend from the child, unless the parent is itself the
  locked child: then it deadlocks.\<close>

theorem toplevel_parents_forest:
  assumes "parents_reachable w" "set locked \<subseteq> {child}"
  shows "acyclic (parent_rel (fw_top w)) \<and>
    is_valid_parent locked (fw_top w) child parent =
      Some (if parent \<in> set locked then Deadlock
            else Unlocked (tw_role (fw_top w) parent = Some Role_toplevel \<and> (parent, child) \<notin> (parent_rel (fw_top w))\<^sup>*))"
proof -
  have f: "forest (fw_top w)" by (rule forest_reachable[OF assms(1)])
  then show ?thesis using is_valid_parent_forest[OF f assms(2), of parent] by (simp add: forest_def)
qed

definition parents_start :: foreign_world where
  "parents_start = \<lparr>fw_top = \<lparr>tw_role = (\<lambda>_. None), tw_parent = (\<lambda>_. None)\<rparr>, fw_exported = Map.empty\<rparr>"

definition one_exported :: foreign_world where
  "one_exported = fst (export_toplevel ''handle'' 1 (parents_start\<lparr>fw_top := toplevel_data_created 1 (fw_top parents_start)\<rparr>))"

lemma one_exported_reachable: "parents_reachable one_exported"
  unfolding one_exported_def
  by (intro pr_export pr_toplevel) (simp_all add: parents_start_def pr_start)

theorem toplevel_parents_forest_witness:
  "is_valid_parent [] (fw_top one_exported) 1 1 = Some (Unlocked False) \<and>
   is_valid_parent [1] (fw_top one_exported) 1 1 = Some Deadlock"
  using conjunct2[OF toplevel_parents_forest[OF one_exported_reachable, of "[]" 1 1]]
    conjunct2[OF toplevel_parents_forest[OF one_exported_reachable, of "[1]" 1 1]] by simp

text \<open>A client can stop the compositor by becoming its own foreign parent. \<open>set_parent_of\<close> asks about
  the exported parent while it holds the data of the child, so exporting a toplevel, importing it and
  setting it as its own parent locks one mutex twice; with every other child the request returns.\<close>

theorem foreign_self_parent_deadlocks:
  assumes "parents_reachable w" "fw_exported w h = Some e" "tw_parent (fw_top w) c \<noteq> None"
  shows "set_parent_of i h c w = Some Deadlock \<longleftrightarrow> c = ex_surface e"
  using set_parent_of_result[OF forest_reachable[OF assms(1)], of i h c] assms(2,3) by auto

theorem foreign_self_parent_deadlocks_witness:
  "set_parent_of 2 ''handle'' 1 one_exported = Some Deadlock"
proof -
  have e: "fw_exported one_exported ''handle'' = Some \<lparr>ex_surface = 1, ex_requested_child = None, ex_imported_by = []\<rparr>"
    "tw_parent (fw_top one_exported) 1 \<noteq> None"
    by (simp_all add: one_exported_def parents_start_def export_toplevel_def toplevel_data_created_def)
  show ?thesis using foreign_self_parent_deadlocks[OF one_exported_reachable e, of 2] by simp
qed

text \<open>Revoking an export forgets all but the last child. When two surfaces take the same exported
  surface as their parent, destroying the export only resets the second: the first keeps a parent
  that was revoked.\<close>

theorem revoked_parent_stays:
  assumes "parents_reachable w" "fw_exported w h = Some e" "c \<noteq> d" "p = ex_surface e" "p \<noteq> c" "p \<noteq> d"
    and "tw_role (fw_top w) p = Some Role_toplevel"
    and "tw_parent (fw_top w) c = Some None" "tw_parent (fw_top w) d = Some None" "tw_parent (fw_top w) p = Some None"
  shows "\<exists>w1 w2. set_parent_of i h c w = Some (Unlocked (w1, False)) \<and> set_parent_of j h d w1 = Some (Unlocked (w2, False)) \<and>
    tw_parent (fw_top (exported_destroyed h w2)) c = Some (Some p) \<and>
    tw_parent (fw_top (exported_destroyed h w2)) d = Some None"
proof -
  have root: "(p, x) \<notin> (parent_rel t)\<^sup>*" if "p \<noteq> x" "tw_parent t p = Some None" for x t
    using that by (auto simp: parent_rel_def elim: converse_rtranclE)
  define w1 where "w1 = w\<lparr>fw_top := put_parent c (Some p) (fw_top w), fw_exported := (fw_exported w)(h \<mapsto> e\<lparr>ex_requested_child := Some (c, i)\<rparr>)\<rparr>"
  have s1: "set_parent_of i h c w = Some (Unlocked (w1, False))"
    using set_parent_of_result[OF forest_reachable[OF assms(1)], of i h c] root[of c "fw_top w"] assms(2-)
    by (simp add: w1_def)
  have r1: "parents_reachable w1" by (rule pr_set_parent_of[OF assms(1) s1])
  have top1: "tw_role (fw_top w1) p = Some Role_toplevel" "tw_parent (fw_top w1) p = Some None" "tw_parent (fw_top w1) d = Some None"
    "fw_exported w1 h = Some (e\<lparr>ex_requested_child := Some (c, i)\<rparr>)"
    using assms by (simp_all add: w1_def put_parent_def)
  define w2 where "w2 = w1\<lparr>fw_top := put_parent d (Some p) (fw_top w1), fw_exported := (fw_exported w1)(h \<mapsto> e\<lparr>ex_requested_child := Some (d, j)\<rparr>)\<rparr>"
  have s2: "set_parent_of j h d w1 = Some (Unlocked (w2, False))"
    using set_parent_of_result[OF forest_reachable[OF r1], of j h d] root[of d "fw_top w1"] assms(4,6) top1
    by (simp add: w2_def)
  have "tw_parent (fw_top (exported_destroyed h w2)) c = Some (Some p)" "tw_parent (fw_top (exported_destroyed h w2)) d = Some None"
    using assms(3,4) by (simp_all add: exported_destroyed_def invalidate_relationship_for_def w2_def w1_def put_parent_def Let_def)
  then show ?thesis using s1 s2 by blast
qed

definition two_children :: foreign_world where
  "two_children = fst (export_toplevel ''handle'' 1 (parents_start\<lparr>fw_top := toplevel_data_created 3
     (toplevel_data_created 2 (toplevel_data_created 1 (fw_top parents_start)))\<rparr>))"

theorem revoked_parent_stays_witness:
  "\<exists>w1 w2. set_parent_of 7 ''handle'' 2 two_children = Some (Unlocked (w1, False)) \<and>
     set_parent_of 8 ''handle'' 3 w1 = Some (Unlocked (w2, False)) \<and>
     tw_parent (fw_top (exported_destroyed ''handle'' w2)) 2 = Some (Some 1) \<and>
     tw_parent (fw_top (exported_destroyed ''handle'' w2)) 3 = Some None"
proof (rule revoked_parent_stays[where e = "\<lparr>ex_surface = 1, ex_requested_child = None, ex_imported_by = []\<rparr>"])
  have "parents_reachable (parents_start\<lparr>fw_top := toplevel_data_created 1 (fw_top parents_start)\<rparr>)"
    by (intro pr_toplevel) (simp_all add: parents_start_def pr_start)
  from pr_toplevel[OF this, of 2]
  have "parents_reachable (parents_start\<lparr>fw_top := toplevel_data_created 2 (toplevel_data_created 1 (fw_top parents_start))\<rparr>)"
    by (simp add: parents_start_def toplevel_data_created_def)
  from pr_toplevel[OF this, of 3]
  show "parents_reachable two_children"
    unfolding two_children_def by (intro pr_export) (simp add: parents_start_def toplevel_data_created_def)
qed (simp_all add: two_children_def parents_start_def export_toplevel_def toplevel_data_created_def)

end
