(* ===== verification/Fifo.thy ===== *)
theory Fifo
  imports Transactions
begin

text \<open>
  The \<open>wp-fifo\<close> protocol of \<open>src/wayland/fifo/mod.rs\<close>: a commit may set a barrier and may wait for
  the barrier set by an earlier commit. Barriers are atomic flags on a heap, as in the transactions.
  The commits of one surface that are not applied yet form a queue; a commit that waits is blocked
  by its barrier. The compositor signals the current barrier when it presents the surface.
\<close>

section \<open>State\<close>

record fifo_state =
  fi_set_barrier :: bool
  fi_wait_barrier :: bool

definition fifo_default :: fifo_state where
  "fifo_default = \<lparr>fi_set_barrier = False, fi_wait_barrier = False\<rparr>"

text \<open>Taking the state on commit.\<close>

definition fifo_commit :: "fifo_state \<Rightarrow> fifo_state \<times> fifo_state" where
  "fifo_commit s = (s, fifo_default)"

text \<open>\<open>merge_into\<close> of the barrier state, on the heap of barriers; a barrier that is replaced is signalled.\<close>

definition barrier_merge_into :: "barrier option \<Rightarrow> barrier option \<Rightarrow> barrier_heap \<Rightarrow> barrier option \<times> barrier_heap" where
  "barrier_merge_into self into h =
     (case self of
        None \<Rightarrow> (into, h)
      | Some b \<Rightarrow>
          if into = Some b \<or> barrier_is_signaled b h then (into, h)
          else (case into of None \<Rightarrow> (Some b, h) | Some old \<Rightarrow> (Some b, barrier_signal old h)))"

text \<open>A commit in the queue: what blocks it, and the barrier state it carries.\<close>

record fifo_surface =
  fs_alive :: bool
  fs_marker :: "bool option"
  fs_hooked :: bool
  fs_pending :: fifo_state
  fs_pending_barrier :: "barrier option"
  fs_queue :: "(barrier option \<times> barrier option) list"
  fs_current :: "barrier option"
  fs_heap :: barrier_heap
  fs_next :: barrier

definition fifo_surface_new :: fifo_surface where
  "fifo_surface_new = \<lparr>fs_alive = True, fs_marker = None, fs_hooked = False, fs_pending = fifo_default,
     fs_pending_barrier = None, fs_queue = [], fs_current = None, fs_heap = (\<lambda>_. False), fs_next = 0\<rparr>"

section \<open>Requests\<close>

datatype fifo_error = Fifo_already_exists | Fifo_surface_destroyed

text \<open>
  \<open>get_fifo\<close> of a manager that is managed or not. The marker tells whether the surface ever had a
  \<open>wp_fifo\<close> object, and whether it has one now; the hook is installed at most once.
\<close>

definition get_fifo :: "bool \<Rightarrow> fifo_surface \<Rightarrow> fifo_error + fifo_surface" where
  "get_fifo is_managed s =
     (let is_initial = fs_marker s = None; has_active_fifo = fs_marker s = Some True
      in if has_active_fifo then Inl Fifo_already_exists
         else Inr (s\<lparr>fs_marker := Some True, fs_hooked := fs_hooked s \<or> is_managed \<and> is_initial\<rparr>))"

definition set_barrier :: "fifo_surface \<Rightarrow> fifo_error + fifo_surface" where
  "set_barrier s =
     (if \<not> fs_alive s then Inl Fifo_surface_destroyed
      else Inr (s\<lparr>fs_pending := (fs_pending s)\<lparr>fi_set_barrier := True\<rparr>\<rparr>))"

definition wait_barrier :: "fifo_surface \<Rightarrow> fifo_error + fifo_surface" where
  "wait_barrier s =
     (if \<not> fs_alive s then Inl Fifo_surface_destroyed
      else Inr (s\<lparr>fs_pending := (fs_pending s)\<lparr>fi_wait_barrier := True\<rparr>\<rparr>))"

definition destroy_fifo :: "fifo_surface \<Rightarrow> fifo_surface" where
  "destroy_fifo s = (if fs_alive s then s\<lparr>fs_marker := Some False\<rparr> else s)"

text \<open>The hook before a commit: the barrier that blocks the commit, if any.\<close>

definition fifo_pre_commit :: "bool \<Rightarrow> fifo_surface \<Rightarrow> fifo_surface \<times> barrier option" where
  "fifo_pre_commit sync s =
     (let fifo_state = fs_pending s;
          fifo_barrier = (if fi_wait_barrier fifo_state then fs_pending_barrier s else None);
          s = (if fi_wait_barrier fifo_state then s\<lparr>fs_pending_barrier := None\<rparr> else s);
          s = (if fi_set_barrier fifo_state
               then s\<lparr>fs_pending_barrier := Some (fs_next s), fs_heap := barrier_new (fs_next s) False (fs_heap s),
                      fs_next := Suc (fs_next s)\<rparr>
               else s)
      in (s, case fifo_barrier of
               None \<Rightarrow> None
             | Some b \<Rightarrow> if barrier_is_signaled b (fs_heap s) \<or> sync then None else Some b))"

text \<open>
  A commit: the hook if it is installed, then the states are taken into the queue. Commits of a
  synchronised subsurface under the same identifier are merged into one.
\<close>

definition fifo_surface_commit :: "bool \<Rightarrow> bool \<Rightarrow> fifo_surface \<Rightarrow> fifo_surface" where
  "fifo_surface_commit sync same s =
     (let (s, blocker) = (if fs_hooked s then fifo_pre_commit sync s else (s, None));
          s = s\<lparr>fs_pending := snd (fifo_commit (fs_pending s))\<rparr>
      in if sync \<and> same \<and> fs_queue s \<noteq> []
         then (let (bl, v) = last (fs_queue s); (v', h) = barrier_merge_into (fs_pending_barrier s) v (fs_heap s)
               in s\<lparr>fs_queue := butlast (fs_queue s) @ [(bl, v')], fs_heap := h\<rparr>)
         else s\<lparr>fs_queue := fs_queue s @ [(blocker, fs_pending_barrier s)]\<rparr>)"

definition unblocked :: "barrier_heap \<Rightarrow> barrier option \<Rightarrow> bool" where
  "unblocked h bl \<longleftrightarrow> (case bl of None \<Rightarrow> True | Some b \<Rightarrow> barrier_state h b = Released)"

definition fifo_apply :: "fifo_surface \<Rightarrow> fifo_surface" where
  "fifo_apply s =
     (case fs_queue s of
        [] \<Rightarrow> s
      | (bl, v) # q \<Rightarrow>
          if unblocked (fs_heap s) bl
          then (let (cur, h) = barrier_merge_into v (fs_current s) (fs_heap s)
                in s\<lparr>fs_queue := q, fs_current := cur, fs_heap := h\<rparr>)
          else s)"

text \<open>What the compositor is asked to do when it presents the surface.\<close>

definition fifo_present :: "fifo_surface \<Rightarrow> fifo_surface" where
  "fifo_present s =
     (case fs_current s of
        None \<Rightarrow> s
      | Some b \<Rightarrow> s\<lparr>fs_current := None, fs_heap := barrier_signal b (fs_heap s)\<rparr>)"

inductive fifo_run :: "fifo_surface \<Rightarrow> bool" where
  ff_start: "fifo_run fifo_surface_new"
| ff_get: "fifo_run s \<Longrightarrow> get_fifo managed s = Inr s' \<Longrightarrow> fifo_run s'"
| ff_set: "fifo_run s \<Longrightarrow> set_barrier s = Inr s' \<Longrightarrow> fifo_run s'"
| ff_wait: "fifo_run s \<Longrightarrow> wait_barrier s = Inr s' \<Longrightarrow> fifo_run s'"
| ff_destroy: "fifo_run s \<Longrightarrow> fifo_run (destroy_fifo s)"
| ff_commit: "fifo_run s \<Longrightarrow> fifo_run (fifo_surface_commit sync same s)"
| ff_apply: "fifo_run s \<Longrightarrow> fifo_run (fifo_apply s)"
| ff_present: "fifo_run s \<Longrightarrow> fifo_run (fifo_present s)"
| ff_destroyed: "fifo_run s \<Longrightarrow> fifo_run (s\<lparr>fs_alive := False\<rparr>)"

section \<open>Where a barrier is held\<close>

fun last_some :: "'a option list \<Rightarrow> 'a option" where
  "last_some [] = None"
| "last_some (x # xs) = (case last_some xs of None \<Rightarrow> x | Some y \<Rightarrow> Some y)"

lemma last_some_append: "last_some (xs @ ys) = (case last_some ys of None \<Rightarrow> last_some xs | Some y \<Rightarrow> Some y)"
  by (induction xs) (auto split: option.splits)

text \<open>Signalled, or the last barrier among those of the current state and the given commits.\<close>

definition barrier_held :: "fifo_surface \<Rightarrow> (barrier option \<times> barrier option) list \<Rightarrow> barrier option \<Rightarrow> bool" where
  "barrier_held s xs bl \<longleftrightarrow>
     (case bl of None \<Rightarrow> True | Some b \<Rightarrow> fs_heap s b \<or> last_some (fs_current s # map snd xs) = Some b)"

definition entry_barriers :: "barrier option \<times> barrier option \<Rightarrow> barrier set" where
  "entry_barriers e = set_option (fst e) \<union> set_option (snd e)"

definition below_next :: "fifo_surface \<Rightarrow> bool" where
  "below_next s \<longleftrightarrow> set_option (fs_current s) \<union> set_option (fs_pending_barrier s) \<union>
     (\<Union>e\<in>set (fs_queue s). entry_barriers e) \<subseteq> {..<fs_next s}"

text \<open>Everything a commit waits for is held by the current state or by a commit before it.\<close>

fun queue_held :: "fifo_surface \<Rightarrow> (barrier option \<times> barrier option) list \<Rightarrow> (barrier option \<times> barrier option) list \<Rightarrow> bool" where
  "queue_held s xs [] = True"
| "queue_held s xs (e # ys) = (barrier_held s xs (fst e) \<and> queue_held s (xs @ [e]) ys)"

lemma queue_held_append: "queue_held s xs (ys @ zs) \<longleftrightarrow> queue_held s xs ys \<and> queue_held s (xs @ ys) zs"
  by (induction ys arbitrary: xs) simp_all

definition fifo_inv :: "fifo_surface \<Rightarrow> bool" where
  "fifo_inv s \<longleftrightarrow> below_next s \<and> barrier_held s (fs_queue s) (fs_pending_barrier s) \<and> queue_held s [] (fs_queue s)"

lemma barrier_held_mono:
  assumes "barrier_held s xs bl" "last_some (fs_current s' # map snd xs') = last_some (fs_current s # map snd xs)"
    and "\<And>b. b \<in> set_option bl \<Longrightarrow> fs_heap s b \<Longrightarrow> fs_heap s' b"
  shows "barrier_held s' xs' bl"
  using assms by (cases bl) (auto simp: barrier_held_def)

lemma queue_held_mono:
  assumes "queue_held s xs ys" "fs_current s' = fs_current s" "\<And>b. b < n \<Longrightarrow> fs_heap s b \<Longrightarrow> fs_heap s' b"
    and "(\<Union>e\<in>set ys. entry_barriers e) \<subseteq> {..<n}"
  shows "queue_held s' xs ys"
  using assms
proof (induction ys arbitrary: xs)
  case (Cons e ys)
  have "barrier_held s' xs (fst e)"
  proof (rule barrier_held_mono[of s xs])
    fix b assume "b \<in> set_option (fst e)" "fs_heap s b"
    moreover have "b < n" using Cons.prems(4) calculation(1) by (auto simp: entry_barriers_def)
    ultimately show "fs_heap s' b" using Cons.prems(3) by blast
  qed (use Cons.prems in simp_all)
  then show ?case using Cons by simp
qed simp

lemma fifo_pre_commit_eq:
  "fifo_pre_commit sync s =
     (s\<lparr>fs_pending_barrier := if fi_set_barrier (fs_pending s) then Some (fs_next s)
          else if fi_wait_barrier (fs_pending s) then None else fs_pending_barrier s,
        fs_heap := if fi_set_barrier (fs_pending s) then barrier_new (fs_next s) False (fs_heap s) else fs_heap s,
        fs_next := if fi_set_barrier (fs_pending s) then Suc (fs_next s) else fs_next s\<rparr>,
      case if fi_wait_barrier (fs_pending s) then fs_pending_barrier s else None of
        None \<Rightarrow> None
      | Some b \<Rightarrow> if barrier_is_signaled b (if fi_set_barrier (fs_pending s) then barrier_new (fs_next s) False (fs_heap s) else fs_heap s) \<or> sync
                 then None else Some b)"
  by (cases "fi_wait_barrier (fs_pending s)"; cases "fi_set_barrier (fs_pending s)") (simp_all add: fifo_pre_commit_def Let_def split: option.split)

lemma fifo_pre_commit_result:
  assumes "fifo_pre_commit sync s = (s', bl)" "below_next s" "barrier_held s (fs_queue s) (fs_pending_barrier s)"
  shows "fs_queue s' = fs_queue s" "fs_current s' = fs_current s" "fs_next s \<le> fs_next s'" "fs_alive s' = fs_alive s"
    "\<And>b. b < fs_next s \<Longrightarrow> fs_heap s' b = fs_heap s b"
    "set_option (fs_pending_barrier s') \<subseteq> {..<fs_next s'}" "set_option bl \<subseteq> {..<fs_next s}"
    "barrier_held s (fs_queue s) bl" "sync \<Longrightarrow> bl = None"
proof -
  note eq = assms(1)[unfolded fifo_pre_commit_eq, symmetric]
  define b where "b = (if fi_wait_barrier (fs_pending s) then fs_pending_barrier s else None)"
  have p: "set_option (fs_pending_barrier s) \<subseteq> {..<fs_next s}" using assms(2) by (simp add: below_next_def)
  show "fs_queue s' = fs_queue s" "fs_current s' = fs_current s" "fs_next s \<le> fs_next s'" "fs_alive s' = fs_alive s"
    "\<And>b. b < fs_next s \<Longrightarrow> fs_heap s' b = fs_heap s b" using eq by (simp_all add: barrier_new_def)
  show "set_option (fs_pending_barrier s') \<subseteq> {..<fs_next s'}" using eq p by auto
  have bl: "bl = None \<or> bl = b" using eq by (auto simp: b_def split: option.splits if_splits)
  have b: "set_option b \<subseteq> {..<fs_next s}" "barrier_held s (fs_queue s) b"
    using p assms(3) by (simp_all add: b_def barrier_held_def)
  show "set_option bl \<subseteq> {..<fs_next s}" using bl b(1) by (elim disjE) simp_all
  show "barrier_held s (fs_queue s) bl" using bl b(2) by (elim disjE) (simp_all add: barrier_held_def)
  show "sync \<Longrightarrow> bl = None" using eq by (simp split: option.splits)
qed

lemma barrier_merge_result:
  "barrier_merge_into v cur h =
     (if v = None \<or> v = cur \<or> (\<exists>b. v = Some b \<and> h b) then (cur, h)
      else (v, case cur of None \<Rightarrow> h | Some old \<Rightarrow> h(old := True)))"
  by (cases v; cases cur) (simp_all add: barrier_merge_into_def barrier_is_signaled_def barrier_signal_def)

lemma barrier_merge_cases:
  assumes "barrier_merge_into v cur h = (cur', h')"
  obtains (kept) "cur' = cur" "h' = h" "v = None \<or> v = cur \<or> (\<exists>b. v = Some b \<and> h b)"
  | (replaced) b where "v = Some b" "cur' = v" "\<not> h b" "h' = (case cur of None \<Rightarrow> h | Some old \<Rightarrow> h(old := True))"
proof (cases "v = None \<or> v = cur \<or> (\<exists>b. v = Some b \<and> h b)")
  case True
  with assms have "cur' = cur" "h' = h" by (simp_all add: barrier_merge_result)
  then show ?thesis using True by (rule kept)
next
  case False
  then obtain b where b: "v = Some b" "\<not> h b" by auto
  from assms False have "cur' = v" "h' = (case cur of None \<Rightarrow> h | Some old \<Rightarrow> h(old := True))"
    unfolding barrier_merge_result if_not_P[OF False] by simp_all
  then show ?thesis using b by (intro replaced)
qed

lemma merge_heap_mono: "barrier_merge_into v cur h = (cur', h') \<Longrightarrow> h b \<Longrightarrow> h' b"
  by (auto simp: barrier_merge_result split: option.splits if_splits)

lemma fifo_inv_push:
  assumes inv: "below_next s" "queue_held s [] (fs_queue s)"
    and p: "set_option (fs_pending_barrier s) \<subseteq> {..<fs_next s}" and bl: "set_option bl \<subseteq> {..<fs_next s}"
    and held: "barrier_held s (fs_queue s) bl"
  shows "fifo_inv (s\<lparr>fs_pending := x, fs_queue := fs_queue s @ [(bl, fs_pending_barrier s)]\<rparr>)" (is "fifo_inv ?s")
proof -
  have "queue_held ?s [] (fs_queue s @ [(bl, fs_pending_barrier s)])"
    using queue_held_mono[OF inv(2), of ?s "fs_next s"] inv(1) barrier_held_mono[OF held, of ?s "fs_queue s"]
    by (simp add: queue_held_append below_next_def)
  moreover have "barrier_held ?s (fs_queue s @ [(bl, fs_pending_barrier s)]) (fs_pending_barrier s)"
    by (auto simp: barrier_held_def last_some_append split: option.splits)
  moreover have "below_next ?s" using inv(1) p bl by (auto simp: below_next_def entry_barriers_def)
  ultimately show ?thesis by (simp add: fifo_inv_def)
qed

lemma fifo_inv_merge:
  assumes inv: "below_next s" "queue_held s [] (fs_queue s)" and q: "fs_queue s = q @ [(bl, v)]"
    and p: "set_option (fs_pending_barrier s) \<subseteq> {..<fs_next s}"
    and m: "barrier_merge_into (fs_pending_barrier s) v (fs_heap s) = (v', h')"
  shows "fifo_inv (s\<lparr>fs_pending := x, fs_queue := q @ [(bl, v')], fs_heap := h'\<rparr>)" (is "fifo_inv ?s")
proof -
  have mono: "h' b" if "fs_heap s b" for b by (rule merge_heap_mono[OF m that])
  have qh: "queue_held s [] q" "barrier_held s q bl" using inv(2) by (simp_all add: q queue_held_append)
  have b: "(\<Union>e\<in>set q. entry_barriers e) \<subseteq> {..<fs_next s}" "set_option v \<subseteq> {..<fs_next s}" "set_option bl \<subseteq> {..<fs_next s}"
    using inv(1) by (simp_all add: below_next_def q entry_barriers_def)
  have "queue_held ?s [] q" by (rule queue_held_mono[OF qh(1) _ _ b(1)]) (simp_all add: mono)
  moreover have "barrier_held ?s q bl" by (rule barrier_held_mono[OF qh(2)]) (simp_all add: mono)
  moreover have "barrier_held ?s (q @ [(bl, v')]) (fs_pending_barrier s)"
    using m by (auto simp: barrier_held_def last_some_append barrier_merge_result split: option.splits if_splits)
  moreover have "set_option v' \<subseteq> {..<fs_next s}" using m b(2) p by (auto simp: barrier_merge_result split: if_splits)
  then have "below_next ?s" using inv(1) by (simp add: below_next_def q entry_barriers_def)
  ultimately show ?thesis by (simp add: fifo_inv_def queue_held_append)
qed

lemma fifo_inv_commit:
  assumes "fifo_inv s"
  shows "fifo_inv (fifo_surface_commit sync same s)"
proof -
  obtain s2 bl where pc: "(if fs_hooked s then fifo_pre_commit sync s else (s, None)) = (s2, bl)" by fastforce
  have inv: "below_next s" "barrier_held s (fs_queue s) (fs_pending_barrier s)" "queue_held s [] (fs_queue s)"
    using assms by (simp_all add: fifo_inv_def)
  let ?r = "fs_queue s2 = fs_queue s \<and> fs_current s2 = fs_current s \<and> fs_next s \<le> fs_next s2 \<and>
      (\<forall>b. b < fs_next s \<longrightarrow> fs_heap s2 b = fs_heap s b) \<and> set_option (fs_pending_barrier s2) \<subseteq> {..<fs_next s2} \<and>
      set_option bl \<subseteq> {..<fs_next s} \<and> barrier_held s (fs_queue s) bl"
  have ?r
  proof (cases "fs_hooked s")
    case True
    then have "fifo_pre_commit sync s = (s2, bl)" using pc by simp
    from fifo_pre_commit_result[OF this inv(1,2)] show ?r by simp
  next
    case False
    then have "s2 = s" "bl = None" using pc by simp_all
    then show ?r using inv(1) by (simp add: below_next_def barrier_held_def)
  qed
  then have r: "fs_queue s2 = fs_queue s" "fs_current s2 = fs_current s" "fs_next s \<le> fs_next s2"
    "\<And>b. b < fs_next s \<Longrightarrow> fs_heap s2 b = fs_heap s b"
    "set_option (fs_pending_barrier s2) \<subseteq> {..<fs_next s2}" "set_option bl \<subseteq> {..<fs_next s}" "barrier_held s (fs_queue s) bl"
    by simp_all
  have q: "(\<Union>e\<in>set (fs_queue s). entry_barriers e) \<subseteq> {..<fs_next s}" "set_option (fs_current s) \<subseteq> {..<fs_next s}"
    using inv(1) by (simp_all add: below_next_def)
  have qh: "queue_held s2 [] (fs_queue s2)"
    unfolding r(1) by (rule queue_held_mono[OF inv(3) r(2) _ q(1)]) (simp add: r(4))
  have bh: "barrier_held s2 (fs_queue s2) bl"
    unfolding r(1) by (rule barrier_held_mono[OF r(7)]) (use r(2,4,6) in auto)
  have bl: "set_option bl \<subseteq> {..<fs_next s2}" using r(3,6) by (auto intro: less_le_trans)
  have bn: "below_next s2"
    using q r(3,5) unfolding below_next_def r(1,2) by (fastforce intro: less_le_trans)
  show ?thesis
  proof (cases "sync \<and> same \<and> fs_queue s2 \<noteq> []")
    case True
    obtain bl' v where l: "last (fs_queue s2) = (bl', v)" by fastforce
    obtain v' h' where m: "barrier_merge_into (fs_pending_barrier s2) v (fs_heap s2) = (v', h')" by fastforce
    have "fs_queue s2 = butlast (fs_queue s2) @ [(bl', v)]" using True l by (metis append_butlast_last_id)
    from fifo_inv_merge[OF bn qh this r(5) m, of "snd (fifo_commit (fs_pending s2))"] show ?thesis
      using True unfolding fifo_surface_commit_def pc by (simp add: l m)
  next
    case False
    then have "fifo_surface_commit sync same s =
        s2\<lparr>fs_pending := snd (fifo_commit (fs_pending s2)), fs_queue := fs_queue s2 @ [(bl, fs_pending_barrier s2)]\<rparr>"
      unfolding fifo_surface_commit_def pc by auto
    then show ?thesis using fifo_inv_push[OF bn qh r(5) bl bh] by simp
  qed
qed

lemma held_after_apply:
  assumes "barrier_merge_into v (fs_current s) (fs_heap s) = (cur, h)" "barrier_held s ((bl', v) # xs) bl"
    and "fs_current s' = cur" "fs_heap s' = h"
  shows "barrier_held s' xs bl"
proof (cases bl)
  case (Some b)
  have "h b" if "fs_heap s b" using merge_heap_mono[OF assms(1) that] .
  moreover have "fs_heap s b" if "last_some (map snd xs) = None" "last_some [fs_current s, v] = Some b" "cur \<noteq> Some b"
    using that assms(1) by (auto simp: barrier_merge_result split: option.splits if_splits)
  ultimately show ?thesis
    using assms(2) unfolding barrier_held_def assms(3,4) by (auto simp: Some split: option.splits)
qed (simp add: barrier_held_def)

lemma queue_held_after_apply:
  assumes "barrier_merge_into v (fs_current s) (fs_heap s) = (cur, h)" "fs_current s' = cur" "fs_heap s' = h"
  shows "queue_held s ((bl', v) # xs) ys \<Longrightarrow> queue_held s' xs ys"
  by (induction ys arbitrary: xs) (auto intro: held_after_apply[OF assms(1) _ assms(2,3)])

lemma fifo_inv_apply:
  assumes "fifo_inv s"
  shows "fifo_inv (fifo_apply s)"
proof (cases "fs_queue s")
  case (Cons e q)
  obtain bl v where e: "e = (bl, v)" by fastforce
  obtain cur h where m: "barrier_merge_into v (fs_current s) (fs_heap s) = (cur, h)" by fastforce
  let ?s = "s\<lparr>fs_queue := q, fs_current := cur, fs_heap := h\<rparr>"
  have "set_option cur \<subseteq> set_option v \<union> set_option (fs_current s)"
    using m by (auto simp: barrier_merge_result split: if_splits)
  then have "below_next ?s" using assms by (auto simp: fifo_inv_def below_next_def Cons e entry_barriers_def)
  moreover have "barrier_held ?s q (fs_pending_barrier s)"
    by (rule held_after_apply[OF m, of bl]) (use assms in \<open>simp_all add: fifo_inv_def Cons e\<close>)
  moreover have "queue_held ?s [] q"
    by (rule queue_held_after_apply[OF m, of _ bl]) (use assms in \<open>simp_all add: fifo_inv_def Cons e\<close>)
  ultimately show ?thesis using assms by (simp add: fifo_apply_def Cons e m fifo_inv_def)
qed (use assms in \<open>simp add: fifo_apply_def\<close>)

lemma held_after_present:
  "barrier_held s xs bl \<Longrightarrow> fs_current s' = None \<Longrightarrow> fs_heap s' = (case fs_current s of None \<Rightarrow> fs_heap s | Some b \<Rightarrow> (fs_heap s)(b := True)) \<Longrightarrow>
   barrier_held s' xs bl"
  by (cases bl) (auto simp: barrier_held_def split: option.splits)

lemma queue_held_after_present:
  assumes "fs_current s' = None" "fs_heap s' = (case fs_current s of None \<Rightarrow> fs_heap s | Some b \<Rightarrow> (fs_heap s)(b := True))"
  shows "queue_held s xs ys \<Longrightarrow> queue_held s' xs ys"
  by (induction ys arbitrary: xs) (auto intro: held_after_present[OF _ assms])

lemma fifo_inv_present:
  assumes "fifo_inv s"
  shows "fifo_inv (fifo_present s)"
proof (cases "fs_current s")
  case (Some b)
  let ?s = "s\<lparr>fs_current := None, fs_heap := (fs_heap s)(b := True)\<rparr>"
  have "barrier_held ?s (fs_queue s) (fs_pending_barrier s)" "queue_held ?s [] (fs_queue s)"
    using assms held_after_present[of s "fs_queue s" "fs_pending_barrier s" ?s] queue_held_after_present[of ?s s "[]" "fs_queue s"]
    by (simp_all add: fifo_inv_def Some)
  moreover have "below_next ?s" using assms by (simp add: fifo_inv_def below_next_def)
  ultimately show ?thesis by (simp add: fifo_present_def Some fifo_inv_def barrier_signal_def)
qed (use assms in \<open>simp add: fifo_present_def\<close>)

lemma fifo_inv_same:
  assumes "fifo_inv s" "fs_queue s' = fs_queue s" "fs_current s' = fs_current s" "fs_heap s' = fs_heap s"
    "fs_next s' = fs_next s" "fs_pending_barrier s' = fs_pending_barrier s"
  shows "fifo_inv s'"
proof -
  have h: "barrier_held s' = barrier_held s" by (intro ext) (simp add: barrier_held_def assms split: option.split)
  have "queue_held s' xs ys = queue_held s xs ys" for xs ys by (induction ys arbitrary: xs) (simp_all add: h)
  with assms show ?thesis by (simp add: fifo_inv_def below_next_def h)
qed

lemma fifo_run_inv: "fifo_run s \<Longrightarrow> fifo_inv s"
proof (induction rule: fifo_run.induct)
  case ff_start
  show ?case by (simp add: fifo_inv_def fifo_surface_new_def below_next_def barrier_held_def)
next
  case (ff_get s managed s')
  then show ?case by (intro fifo_inv_same[OF ff_get.IH]) (auto simp: get_fifo_def split: if_splits)
next
  case (ff_set s s')
  then show ?case by (intro fifo_inv_same[OF ff_set.IH]) (auto simp: set_barrier_def split: if_splits)
next
  case (ff_wait s s')
  then show ?case by (intro fifo_inv_same[OF ff_wait.IH]) (auto simp: wait_barrier_def split: if_splits)
next
  case (ff_destroy s)
  show ?case by (rule fifo_inv_same[OF ff_destroy.IH]) (simp_all add: destroy_fifo_def)
next
  case (ff_destroyed s)
  show ?case by (rule fifo_inv_same[OF ff_destroyed.IH]) simp_all
qed (auto intro: fifo_inv_commit fifo_inv_apply fifo_inv_present)

section \<open>Progress\<close>

text \<open>The commit at the head of the queue waits for nothing but the barrier of what is on the screen.\<close>

lemma fifo_head_waits_for_current:
  assumes "fifo_run s" "fs_queue s = (bl, v) # q" "\<not> unblocked (fs_heap s) bl"
  shows "\<exists>b. bl = Some b \<and> fs_current s = Some b"
  using fifo_run_inv[OF assms(1)] assms(2,3)
  by (auto simp: fifo_inv_def barrier_held_def unblocked_def barrier_state_def barrier_is_signaled_def split: option.splits if_splits)

lemma present_keeps: "fs_queue (fifo_present s) = fs_queue s" "fs_current (fifo_present s) = None"
  by (simp_all add: fifo_present_def split: option.split)

lemma fifo_progress:
  assumes "fifo_run s"
  shows "fs_queue (fifo_apply (fifo_present s)) = tl (fs_queue s)"
proof (cases "fs_queue s")
  case (Cons e q)
  obtain bl v where e: "e = (bl, v)" by fastforce
  have "unblocked (fs_heap (fifo_present s)) bl"
    using fifo_head_waits_for_current[OF ff_present[OF assms], of bl v q] by (auto simp: present_keeps Cons e)
  then show ?thesis by (simp add: fifo_apply_def present_keeps Cons e split: prod.split)
qed (simp add: fifo_apply_def present_keeps)

text \<open>C15. Whatever a client asks of its \<open>wp_fifo\<close> object, its commits are not stuck: each time the surface
  is presented the barrier of what is shown is released and the oldest commit can be applied, so that
  presenting \<open>n\<close> times applies any queue of \<open>n\<close> commits, in order.
\<close>

theorem fifo_drains:
  assumes "fifo_run s"
  shows "fs_queue (((\<lambda>s. fifo_apply (fifo_present s)) ^^ n) s) = drop n (fs_queue s)"
proof -
  let ?f = "\<lambda>s. fifo_apply (fifo_present s)"
  have "fifo_run ((?f ^^ n) s) \<and> fs_queue ((?f ^^ n) s) = drop n (fs_queue s)" for n
    using assms by (induction n) (auto simp: fifo_progress drop_Suc tl_drop intro: ff_present ff_apply)
  then show ?thesis by blast
qed

text \<open>Two frames with a barrier each, the second and third waiting: three presentations show them all.\<close>

definition fifo_example :: fifo_surface where
  "fifo_example =
     (let s = projr (get_fifo True fifo_surface_new);
          s = fifo_surface_commit False False (projr (set_barrier s));
          s = fifo_surface_commit False False (projr (wait_barrier (projr (set_barrier s))))
      in fifo_surface_commit False False (projr (wait_barrier s)))"

lemma fifo_example_run: "fifo_run fifo_example"
proof -
  have g: "get_fifo m s = Inr (projr (get_fifo m s))" if "fs_marker s = None" for m s using that by (simp add: get_fifo_def)
  have b: "set_barrier s = Inr (projr (set_barrier s))" "wait_barrier s = Inr (projr (wait_barrier s))" if "fs_alive s" for s
    using that by (simp_all add: set_barrier_def wait_barrier_def)
  show ?thesis unfolding fifo_example_def Let_def
    by (intro ff_commit ff_wait[OF _ b(2)] ff_set[OF _ b(1)] ff_get[OF _ g] ff_start)
      (simp_all add: fifo_surface_commit_def fifo_pre_commit_eq get_fifo_def set_barrier_def wait_barrier_def fifo_surface_new_def
        fifo_default_def fifo_commit_def)
qed

lemma fifo_example_queues:
  "map fst (fs_queue fifo_example) = [None, Some 0, Some 1]"
  "map fst (fs_queue (fifo_apply fifo_example)) = [Some 0, Some 1]"
  "map fst (fs_queue (fifo_apply (fifo_apply fifo_example))) = [Some 0, Some 1]"
  by code_simp+

theorem fifo_drains_witness:
  "length (fs_queue fifo_example) = 3 \<and>
   map fst (fs_queue (fifo_apply (fifo_apply fifo_example))) = [Some 0, Some 1] \<and>
   fs_queue (((\<lambda>s. fifo_apply (fifo_present s)) ^^ 3) fifo_example) = []"
proof -
  have "length (fs_queue fifo_example) = 3"
    using arg_cong[OF fifo_example_queues(1), of length] by simp
  then show ?thesis using fifo_drains[OF fifo_example_run, of 3] fifo_example_queues(3) by simp
qed

end
