(* ===== verification/Commit_Timing.thy ===== *)
theory Commit_Timing
  imports Transactions "HOL-Library.Word" "HOL-Library.Product_Lexorder"
begin

text \<open>
  The \<open>wp-commit-timing\<close> protocol of \<open>src/wayland/commit_timing/mod.rs\<close>: a commit with a timestamp is
  blocked by a barrier until the compositor signals a deadline that is not before the timestamp.
  The barriers of one surface wait in a heap ordered by timestamp.
\<close>

unbundle bit_operations_syntax

section \<open>Timestamps\<close>

text \<open>Seconds and nanoseconds, both of 64 signed bits.\<close>

datatype timestamp = Timestamp (tv_sec: int) (tv_nsec: int)

definition timestamp_le :: "timestamp \<Rightarrow> timestamp \<Rightarrow> bool" where
  "timestamp_le s t \<longleftrightarrow> (if tv_sec s = tv_sec t then tv_nsec s \<le> tv_nsec t else tv_sec s \<le> tv_sec t)"

definition timestamp_lt :: "timestamp \<Rightarrow> timestamp \<Rightarrow> bool" where
  "timestamp_lt s t \<longleftrightarrow> (if tv_sec s = tv_sec t then tv_nsec s < tv_nsec t else tv_sec s < tv_sec t)"

instantiation timestamp :: linorder
begin

definition less_eq_timestamp :: "timestamp \<Rightarrow> timestamp \<Rightarrow> bool" where
  "less_eq_timestamp = timestamp_le"

definition less_timestamp :: "timestamp \<Rightarrow> timestamp \<Rightarrow> bool" where
  "less_timestamp = timestamp_lt"

instance
proof
  fix x y z :: timestamp
  note order = less_timestamp_def less_eq_timestamp_def timestamp_lt_def timestamp_le_def
  show "(x < y) = (x \<le> y \<and> \<not> y \<le> x)" by (auto simp: order)
  show "x \<le> x" by (simp add: order)
  show "x \<le> y \<Longrightarrow> y \<le> z \<Longrightarrow> x \<le> z" by (auto simp: order split: if_splits)
  show "x \<le> y \<Longrightarrow> y \<le> x \<Longrightarrow> x = y" by (cases x; cases y) (auto simp: order split: if_splits)
  show "x \<le> y \<or> y \<le> x" by (auto simp: order)
qed

end

text \<open>The timestamp of a request: the two halves of the seconds, read as a signed number of 64 bits.\<close>

definition request_timestamp :: "32 word \<Rightarrow> 32 word \<Rightarrow> 32 word \<Rightarrow> timestamp" where
  "request_timestamp tv_sec_hi tv_sec_lo nsec =
     Timestamp (sint (push_bit 32 (ucast tv_sec_hi :: 64 word) OR ucast tv_sec_lo)) (uint nsec)"

section \<open>The barriers of a surface\<close>

text \<open>The heap is kept as the list of its elements in the order they are popped.\<close>

type_synonym timer_barriers = "(timestamp \<times> barrier) list"

fun heap_push :: "timestamp \<times> barrier \<Rightarrow> timer_barriers \<Rightarrow> timer_barriers" where
  "heap_push x [] = [x]"
| "heap_push x (y # ys) = (if fst x \<le> fst y then x # y # ys else y # heap_push x ys)"

fun signal_loop :: "timestamp \<Rightarrow> timer_barriers \<Rightarrow> barrier_heap \<Rightarrow> timer_barriers \<times> barrier_heap" where
  "signal_loop deadline [] h = ([], h)"
| "signal_loop deadline (x # xs) h =
     (if fst x > deadline then (x # xs, h) else signal_loop deadline xs (barrier_signal (snd x) h))"

definition signal_until :: "timestamp \<Rightarrow> timer_barriers \<Rightarrow> barrier_heap \<Rightarrow> bool \<times> timer_barriers \<times> barrier_heap" where
  "signal_until deadline xs h =
     (let num_barriers = length xs; (xs, h) = signal_loop deadline xs h in (num_barriers \<noteq> length xs, xs, h))"

definition register :: "timestamp \<Rightarrow> barrier \<Rightarrow> timer_barriers \<Rightarrow> barrier_heap \<Rightarrow> timer_barriers \<times> barrier_heap" where
  "register t b xs h = (heap_push (t, b) xs, barrier_new b False h)"


section \<open>Requests\<close>

record timer_surface =
  tm_alive :: bool
  tm_marker :: "bool option"
  tm_hooked :: bool
  tm_timestamp :: "timestamp option"
  tm_barriers :: timer_barriers
  tm_heap :: barrier_heap
  tm_next :: barrier
  tm_queue :: "barrier option list"

definition timer_surface_new :: timer_surface where
  "timer_surface_new = \<lparr>tm_alive = True, tm_marker = None, tm_hooked = False, tm_timestamp = None, tm_barriers = [],
     tm_heap = (\<lambda>_. False), tm_next = 0, tm_queue = []\<rparr>"

datatype timer_error = Commit_timer_exists | Timer_surface_destroyed | Timestamp_exists

definition get_timer :: "bool \<Rightarrow> timer_surface \<Rightarrow> timer_error + timer_surface" where
  "get_timer is_managed s =
     (let is_initial = tm_marker s = None; has_active_commit_timer = tm_marker s = Some True
      in if has_active_commit_timer then Inl Commit_timer_exists
         else Inr (s\<lparr>tm_marker := Some True, tm_hooked := tm_hooked s \<or> is_managed \<and> is_initial\<rparr>))"

definition set_timestamp :: "32 word \<Rightarrow> 32 word \<Rightarrow> 32 word \<Rightarrow> timer_surface \<Rightarrow> timer_error + timer_surface" where
  "set_timestamp tv_sec_hi tv_sec_lo nsec s =
     (if \<not> tm_alive s then Inl Timer_surface_destroyed
      else if tm_timestamp s \<noteq> None then Inl Timestamp_exists
      else Inr (s\<lparr>tm_timestamp := Some (request_timestamp tv_sec_hi tv_sec_lo nsec)\<rparr>))"

definition destroy_timer :: "timer_surface \<Rightarrow> timer_surface" where
  "destroy_timer s = (if tm_alive s then s\<lparr>tm_marker := Some False\<rparr> else s)"

text \<open>The hook before a commit takes the timestamp and returns the barrier that blocks the commit.\<close>

definition timer_pre_commit :: "timer_surface \<Rightarrow> timer_surface \<times> barrier option" where
  "timer_pre_commit s =
     (case tm_timestamp s of
        None \<Rightarrow> (s, None)
      | Some t \<Rightarrow>
          let b = tm_next s; (xs, h) = register t b (tm_barriers s) (tm_heap s)
          in (s\<lparr>tm_timestamp := None, tm_barriers := xs, tm_heap := h, tm_next := Suc b\<rparr>, Some b))"

definition timer_commit :: "timer_surface \<Rightarrow> timer_surface" where
  "timer_commit s =
     (let (s, blocker) = (if tm_hooked s then timer_pre_commit s else (s, None))
      in s\<lparr>tm_queue := tm_queue s @ [blocker]\<rparr>)"

definition timer_signal :: "timestamp \<Rightarrow> timer_surface \<Rightarrow> bool \<times> timer_surface" where
  "timer_signal deadline s =
     (let (r, xs, h) = signal_until deadline (tm_barriers s) (tm_heap s) in (r, s\<lparr>tm_barriers := xs, tm_heap := h\<rparr>))"

text \<open>The oldest commit of the surface is applied when nothing blocks it.\<close>

definition timer_apply :: "timer_surface \<Rightarrow> timer_surface" where
  "timer_apply s =
     (case tm_queue s of
        [] \<Rightarrow> s
      | bl # q \<Rightarrow>
          if (case bl of None \<Rightarrow> True | Some b \<Rightarrow> barrier_state (tm_heap s) b = Released) then s\<lparr>tm_queue := q\<rparr> else s)"

section \<open>The heap of barriers\<close>

lemma heap_push_set [simp]: "set (heap_push x xs) = insert x (set xs)"
  by (induction x xs rule: heap_push.induct) auto

lemma heap_push_distinct: "distinct (map snd (heap_push x xs)) \<longleftrightarrow> snd x \<notin> snd ` set xs \<and> distinct (map snd xs)"
  by (induction x xs rule: heap_push.induct) auto

definition heap_sorted :: "timer_barriers \<Rightarrow> bool" where
  "heap_sorted xs \<longleftrightarrow> sorted_wrt (\<lambda>x y. fst x \<le> fst y) xs"

lemma heap_sorted_simps [simp]:
  "heap_sorted []" "heap_sorted (x # xs) \<longleftrightarrow> (\<forall>y\<in>set xs. fst x \<le> fst y) \<and> heap_sorted xs"
  by (simp_all add: heap_sorted_def)

lemma heap_push_sorted: "heap_sorted xs \<Longrightarrow> heap_sorted (heap_push x xs)"
  by (induction x xs rule: heap_push.induct) auto

text \<open>The loop stops at the first barrier after the deadline, and leaves none that is due.\<close>

lemma signal_loop_exact:
  "heap_sorted xs \<Longrightarrow> signal_loop d xs h = (filter (\<lambda>x. \<not> fst x \<le> d) xs, \<lambda>b. h b \<or> (\<exists>t. (t, b) \<in> set xs \<and> t \<le> d))"
proof (induction d xs h rule: signal_loop.induct)
  case (2 d x xs h)
  show ?case
  proof (cases "fst x > d")
    case True
    then have "\<not> fst y \<le> d" if "y \<in> set (x # xs)" for y using 2(2) that by (auto dest: less_le_trans)
    then have "filter (\<lambda>x. \<not> fst x \<le> d) (x # xs) = x # xs" "(\<lambda>b. h b \<or> (\<exists>t. (t, b) \<in> set (x # xs) \<and> t \<le> d)) = h"
      by (intro filter_True ballI, blast, intro ext) fastforce
    then show ?thesis using True by simp
  next
    case False
    then have "(\<lambda>b. barrier_signal (snd x) h b \<or> (\<exists>t. (t, b) \<in> set xs \<and> t \<le> d)) =
        (\<lambda>b. h b \<or> (\<exists>t. (t, b) \<in> set (x # xs) \<and> t \<le> d))"
      by (cases x) (auto simp: barrier_signal_def fun_eq_iff)
    then show ?thesis using False 2 by simp
  qed
qed simp


text \<open>Signalling leaves the rest of the surface alone.\<close>

lemma timer_signal_exact:
  assumes "heap_sorted (tm_barriers s)"
  shows "timer_signal d s = ((\<exists>x\<in>set (tm_barriers s). fst x \<le> d),
    s\<lparr>tm_barriers := filter (\<lambda>x. \<not> fst x \<le> d) (tm_barriers s),
      tm_heap := (\<lambda>b. tm_heap s b \<or> (\<exists>t. (t, b) \<in> set (tm_barriers s) \<and> t \<le> d))\<rparr>)"
proof -
  have "length xs \<noteq> length (filter P xs) \<longleftrightarrow> (\<exists>x\<in>set xs. \<not> P x)" for xs :: timer_barriers and P
    by (metis filter_True length_filter_less less_irrefl)
  then show ?thesis by (simp add: timer_signal_def signal_until_def signal_loop_exact[OF assms])
qed

section \<open>Histories\<close>

text \<open>What the clients asked for, without the heap: each registered barrier with the timestamp of its commit.\<close>

type_synonym timer_history = "barrier \<rightharpoonup> timestamp"

definition history_commit :: "barrier \<Rightarrow> timestamp option \<Rightarrow> timer_history \<Rightarrow> timer_history" where
  "history_commit b t g = (case t of None \<Rightarrow> g | Some t \<Rightarrow> g(b \<mapsto> t))"

inductive timer_run :: "timer_surface \<Rightarrow> timer_history \<Rightarrow> bool" where
  tr_start: "timer_run timer_surface_new Map.empty"
| tr_get: "timer_run s g \<Longrightarrow> get_timer managed s = Inr s' \<Longrightarrow> timer_run s' g"
| tr_set: "timer_run s g \<Longrightarrow> set_timestamp hi lo nsec s = Inr s' \<Longrightarrow> timer_run s' g"
| tr_destroy: "timer_run s g \<Longrightarrow> timer_run (destroy_timer s) g"
| tr_destroyed: "timer_run s g \<Longrightarrow> timer_run (s\<lparr>tm_alive := False\<rparr>) g"
| tr_commit: "timer_run s g \<Longrightarrow>
    timer_run (timer_commit s) (if tm_hooked s then history_commit (tm_next s) (tm_timestamp s) g else g)"
| tr_signal: "timer_run s g \<Longrightarrow> timer_run (snd (timer_signal d s)) g"
| tr_apply: "timer_run s g \<Longrightarrow> timer_run (timer_apply s) g"

text \<open>The commits that wait: their timestamps and barriers, for a state of the barriers.\<close>

definition timer_waiting :: "timer_history \<Rightarrow> barrier_heap \<Rightarrow> (timestamp \<times> barrier) set" where
  "timer_waiting g h = {(t, b). g b = Some t \<and> \<not> h b}"

definition timer_refines :: "timer_surface \<Rightarrow> timer_history \<Rightarrow> bool" where
  "timer_refines s g \<longleftrightarrow>
     heap_sorted (tm_barriers s) \<and> set (tm_barriers s) = timer_waiting g (tm_heap s) \<and>
     (\<forall>b. tm_next s \<le> b \<longrightarrow> g b = None) \<and> (\<forall>b. tm_heap s b \<longrightarrow> g b \<noteq> None) \<and>
     (\<forall>b. Some b \<in> set (tm_queue s) \<longrightarrow> g b \<noteq> None) \<and> distinct (filter (\<lambda>x. x \<noteq> None) (tm_queue s))"

lemma timer_refines_commit:
  assumes "timer_refines s g"
  shows "timer_refines (timer_commit s) (if tm_hooked s then history_commit (tm_next s) (tm_timestamp s) g else g)"
proof (cases "tm_hooked s \<and> tm_timestamp s \<noteq> None")
  case True
  then obtain t where t: "tm_timestamp s = Some t" by auto
  have fresh: "g (tm_next s) = None" "\<not> tm_heap s (tm_next s)" "Some (tm_next s) \<notin> set (tm_queue s)"
    using assms by (force simp: timer_refines_def)+
  let ?s = "s\<lparr>tm_timestamp := None, tm_barriers := heap_push (t, tm_next s) (tm_barriers s), tm_heap := (tm_heap s)(tm_next s := False),
      tm_next := Suc (tm_next s), tm_queue := tm_queue s @ [Some (tm_next s)]\<rparr>"
  have "timer_commit s = ?s"
    using True by (simp add: timer_commit_def timer_pre_commit_def t register_def barrier_new_def Let_def)
  moreover have "insert (t, tm_next s) (timer_waiting g (tm_heap s)) = timer_waiting (g(tm_next s \<mapsto> t)) ((tm_heap s)(tm_next s := False))"
    using fresh by (auto simp: timer_waiting_def)
  then have "timer_refines ?s (g(tm_next s \<mapsto> t))"
    using assms fresh by (auto simp: timer_refines_def heap_push_sorted)
  ultimately show ?thesis using True by (simp add: t history_commit_def)
next
  case False
  then have "timer_commit s = s\<lparr>tm_queue := tm_queue s @ [None]\<rparr>"
    by (auto simp: timer_commit_def timer_pre_commit_def)
  with assms False show ?thesis by (auto simp: timer_refines_def history_commit_def)
qed

lemma timer_refines_signal:
  assumes "timer_refines s g"
  shows "timer_refines (snd (timer_signal d s)) g"
proof -
  have r: "heap_sorted (tm_barriers s)" "set (tm_barriers s) = timer_waiting g (tm_heap s)"
    using assms by (simp_all add: timer_refines_def)
  have "heap_sorted (filter (\<lambda>x. \<not> fst x \<le> d) (tm_barriers s))"
    using r(1) by (simp add: heap_sorted_def sorted_wrt_filter)
  moreover have "set (filter (\<lambda>x. \<not> fst x \<le> d) (tm_barriers s)) =
      timer_waiting g (\<lambda>b. tm_heap s b \<or> (\<exists>t. (t, b) \<in> set (tm_barriers s) \<and> t \<le> d))"
    using r(2) by (auto simp: timer_waiting_def)
  moreover have "g b \<noteq> None" if "tm_heap s b \<or> (\<exists>t. (t, b) \<in> set (tm_barriers s) \<and> t \<le> d)" for b
    using that assms by (auto simp: timer_refines_def timer_waiting_def)
  ultimately show ?thesis using assms by (simp add: timer_refines_def timer_signal_exact[OF r(1)])
qed

lemma timer_run_refines: "timer_run s g \<Longrightarrow> timer_refines s g"
proof (induction rule: timer_run.induct)
  case tr_start
  show ?case by (simp add: timer_refines_def timer_surface_new_def timer_waiting_def)
next
  case (tr_commit s g)
  show ?case by (rule timer_refines_commit[OF tr_commit.IH])
next
  case (tr_signal s g d)
  show ?case by (rule timer_refines_signal[OF tr_signal.IH])
next
  case (tr_apply s g)
  then show ?case by (auto simp: timer_apply_def timer_refines_def split: list.splits option.splits)
qed (auto simp: get_timer_def set_timestamp_def destroy_timer_def timer_refines_def Let_def split: if_splits)

lemma timer_refinesD:
  assumes "timer_refines s g"
  shows "heap_sorted (tm_barriers s)" "set (tm_barriers s) = timer_waiting g (tm_heap s)"
    "Some b \<in> set (tm_queue s) \<Longrightarrow> g b \<noteq> None" "distinct (filter (\<lambda>x. x \<noteq> None) (tm_queue s))"
  using assms by (simp_all add: timer_refines_def)

text \<open>The barriers a deadline signals are those registered for a timestamp at or before it.\<close>

theorem signal_until_exact:
  assumes "timer_run s g"
  shows "tm_heap (snd (timer_signal d s)) b \<longleftrightarrow> tm_heap s b \<or> (\<exists>t. g b = Some t \<and> t \<le> d)"
  using timer_refinesD(1,2)[OF timer_run_refines[OF assms]] by (auto simp: timer_signal_exact timer_waiting_def)







end
