(* ===== verification/Focus.thy ===== *)
theory Focus
  imports Prelude
begin

text \<open>
  What the input devices of a seat have in common: each has a focus and sends events to targets. The
  contract that a client of the library sees, that a target receives events only between an enter and
  a leave and that at most one target is entered, is stated on the log of events, once for all devices.
\<close>

datatype 's focus_event = Enters 's | Leaves 's | Sent 's | Elsewhere

fun focus_step :: "'s option \<Rightarrow> 's focus_event \<Rightarrow> 's option option" where
  "focus_step None (Enters s) = Some (Some s)"
| "focus_step (Some t) (Leaves s) = (if s = t then Some None else None)"
| "focus_step (Some t) (Sent s) = (if s = t then Some (Some t) else None)"
| "focus_step f Elsewhere = Some f"
| "focus_step _ _ = None"

text \<open>The target that is entered after some events, or nothing if the events break the contract.\<close>

fun focus_trace :: "'s option \<Rightarrow> 's focus_event list \<Rightarrow> 's option option" where
  "focus_trace f [] = Some f"
| "focus_trace f (e # es) = (case focus_step f e of None \<Rightarrow> None | Some g \<Rightarrow> focus_trace g es)"

lemma focus_trace_append:
  "focus_trace f (es @ es') = (case focus_trace f es of None \<Rightarrow> None | Some g \<Rightarrow> focus_trace g es')"
  by (induction f es rule: focus_trace.induct) (auto split: option.split)

lemma focus_trace_snoc [simp]: "focus_trace f es = Some g \<Longrightarrow> focus_trace f (es @ es') = focus_trace g es'"
  by (simp add: focus_trace_append)

text \<open>An event for a target comes after its enter, with no leave of it in between.\<close>

lemma focus_trace_sent:
  assumes "focus_trace None (es @ Sent s # es') = Some f"
  shows "\<exists>xs ys. es = xs @ Enters s # ys \<and> Leaves s \<notin> set ys"
proof -
  have "focus_trace None es = Some (Some s)"
    using assms by (auto simp: focus_trace_append split: option.splits if_splits elim!: focus_step.elims)
  then show ?thesis
  proof (induction es rule: rev_induct)
    case (snoc e es)
    then obtain g where g: "focus_trace None es = Some g" "focus_step g e = Some (Some s)"
      by (auto simp: focus_trace_append split: option.splits)
    show ?case
    proof (cases "e = Enters s")
      case False
      then have "g = Some s" "e \<noteq> Leaves s" using g(2) by (auto elim!: focus_step.elims split: if_splits)
      then show ?thesis using snoc.IH g(1) by fastforce
    qed fastforce
  qed simp
qed

text \<open>A device whose every step extends its log as its focus says.\<close>

locale focus_device =
  fixes focus :: "'d \<Rightarrow> 's option" and events :: "'d \<Rightarrow> 's focus_event list" and step :: "'d \<Rightarrow> 'd \<Rightarrow> bool"
  assumes disciplined: "step d d' \<Longrightarrow> \<exists>es. events d' = events d @ es \<and> focus_trace (focus d) es = Some (focus d')"
begin

definition follows :: "'d \<Rightarrow> bool" where
  "follows d \<longleftrightarrow> focus_trace None (events d) = Some (focus d)"

lemma follows_step: "follows d \<Longrightarrow> step d d' \<Longrightarrow> follows d'"
  using disciplined by (fastforce simp: follows_def)

lemma follows_steps: "step\<^sup>*\<^sup>* d d' \<Longrightarrow> follows d \<Longrightarrow> follows d'"
  by (induction rule: rtranclp_induct) (auto intro: follows_step)

lemma sent_after_enter:
  "follows d \<Longrightarrow> events d = es @ Sent s # es' \<Longrightarrow> \<exists>xs ys. es = xs @ Enters s # ys \<and> Leaves s \<notin> set ys"
  unfolding follows_def by (rule focus_trace_sent) simp

end

end
