(* ===== verification/Keyboard.thy ===== *)
theory Keyboard
  imports Focus Serials
begin

text \<open>
  The keyboard of a seat, \<open>src/input/keyboard/mod.rs\<close>: keys held by several sources, the focus, the keys
  that were forwarded to clients, and grabs. libxkbcommon and the code of a grab are arguments; the
  events sent to targets and callbacks are a log. The order in which a hash set or hash map is iterated
  is an argument where it matters.
\<close>

section \<open>State\<close>

type_synonym keycode = nat

datatype key_state = Pressed | Released

datatype key_direction = Down | Up

datatype keyboard_source = Physical | Auxiliary nat

datatype 'g grab_status = Grab_none | Grab_active serial 'g | Grab_borrowed

datatype ('s, 'm, 'l) kbd_event =
  Kb_enter 's "keycode set" serial
| Kb_leave 's serial
| Kb_key 's keycode key_state serial
| Kb_modifiers 's 'm serial
| Kb_focus_changed 's
| Kb_led_state_changed 'l
| Kb_keymap

record ('s, 'x, 'm, 'l, 'g) kbd =
  kb_focus :: "('s \<times> serial) option"
  kb_pending_focus :: "'s option"
  kb_pressed_keys :: "keycode set"
  kb_key_sources :: "keycode \<rightharpoonup> keyboard_source set"
  kb_forwarded :: "keycode set"
  kb_mods :: 'm
  kb_xkb :: 'x
  kb_leds :: 'l
  kb_grab :: "'g grab_status"
  kb_log :: "('s, 'm, 'l) kbd_event list"

definition kbd_new :: "'x \<Rightarrow> 'm \<Rightarrow> 'l \<Rightarrow> ('s, 'x, 'm, 'l, 'g) kbd" where
  "kbd_new x m l = \<lparr>kb_focus = None, kb_pending_focus = None, kb_pressed_keys = {}, kb_key_sources = Map.empty,
     kb_forwarded = {}, kb_mods = m, kb_xkb = x, kb_leds = l, kb_grab = Grab_none, kb_log = []\<rparr>"

text \<open>What the code uses of libxkbcommon: whether a component of the state changed, modifiers and LEDs.\<close>

record ('x, 'm, 'l) xkb_lib =
  xkb_update_key :: "'x \<Rightarrow> keycode \<Rightarrow> key_direction \<Rightarrow> 'x \<times> bool"
  xkb_update_mods :: "'m \<Rightarrow> 'x \<Rightarrow> 'm"
  xkb_update_leds :: "'l \<Rightarrow> 'x \<Rightarrow> 'l \<times> bool"

definition kbd_emit :: "('s, 'm, 'l) kbd_event list \<Rightarrow> ('s, 'x, 'm, 'l, 'g) kbd \<Rightarrow> ('s, 'x, 'm, 'l, 'g) kbd" where
  "kbd_emit es s = s\<lparr>kb_log := kb_log s @ es\<rparr>"

section \<open>Keys\<close>

text \<open>Which source holds which key; the direction to report to libxkbcommon when the combined state changed.\<close>

definition track_key :: "keyboard_source \<Rightarrow> keycode \<Rightarrow> key_state \<Rightarrow> ('s, 'x, 'm, 'l, 'g) kbd
    \<Rightarrow> ('s, 'x, 'm, 'l, 'g) kbd \<times> key_direction option" where
  "track_key source keycode state s =
     (case state of
        Pressed \<Rightarrow>
          (let holders = (case kb_key_sources s keycode of None \<Rightarrow> {} | Some h \<Rightarrow> h);
               was_held = holders \<noteq> {};
               s = s\<lparr>kb_key_sources := (kb_key_sources s)(keycode \<mapsto> insert source holders)\<rparr>
           in if was_held then (s, None)
              else (s\<lparr>kb_pressed_keys := insert keycode (kb_pressed_keys s)\<rparr>, Some Down))
      | Released \<Rightarrow>
          (case kb_key_sources s keycode of
             None \<Rightarrow> (s, None)
           | Some h \<Rightarrow>
               let holders = h - {source}
               in if holders \<noteq> {} then (s\<lparr>kb_key_sources := (kb_key_sources s)(keycode \<mapsto> holders)\<rparr>, None)
                  else (s\<lparr>kb_key_sources := (kb_key_sources s)(keycode := None),
                          kb_pressed_keys := kb_pressed_keys s - {keycode}\<rparr>, Some Up)))"

definition key_input :: "('x, 'm, 'l) xkb_lib \<Rightarrow> keyboard_source \<Rightarrow> keycode \<Rightarrow> key_state \<Rightarrow> ('s, 'x, 'm, 'l, 'g) kbd
    \<Rightarrow> ('s, 'x, 'm, 'l, 'g) kbd \<times> bool \<times> bool \<times> bool" where
  "key_input lib source keycode state s =
     (case track_key source keycode state s of
        (s, None) \<Rightarrow> (s, False, False, False)
      | (s, Some direction) \<Rightarrow>
          let (x, modifiers_changed) = xkb_update_key lib (kb_xkb s) keycode direction;
              s = s\<lparr>kb_xkb := x, kb_mods := if modifiers_changed then xkb_update_mods lib (kb_mods s) x else kb_mods s\<rparr>;
              (l, leds_changed) = xkb_update_leds lib (kb_leds s) x
          in (s\<lparr>kb_leds := l\<rparr>, modifiers_changed, leds_changed, True))"

text \<open>The keys of \<open>order\<close>, the iteration order of the map, that the source holds are released in turn.\<close>

fun release_keys :: "('x, 'm, 'l) xkb_lib \<Rightarrow> keyboard_source \<Rightarrow> keycode list \<Rightarrow> ('s, 'x, 'm, 'l, 'g) kbd
    \<Rightarrow> ('s, 'x, 'm, 'l, 'g) kbd \<times> keycode list" where
  "release_keys lib source [] s = (s, [])"
| "release_keys lib source (keycode # held) s =
     (let (s, _, _, is_transition) = key_input lib source keycode Released s;
          (s, transitioned) = release_keys lib source held s
      in (s, if is_transition then keycode # transitioned else transitioned))"

definition release_source_keys :: "('x, 'm, 'l) xkb_lib \<Rightarrow> keycode list \<Rightarrow> keyboard_source \<Rightarrow> ('s, 'x, 'm, 'l, 'g) kbd
    \<Rightarrow> ('s, 'x, 'm, 'l, 'g) kbd \<times> keycode list" where
  "release_source_keys lib order source s =
     release_keys lib source (filter (\<lambda>k. case kb_key_sources s k of None \<Rightarrow> False | Some h \<Rightarrow> source \<in> h) order) s"

definition input_intercept :: "('x, 'm, 'l) xkb_lib \<Rightarrow> ('m \<Rightarrow> 'x \<Rightarrow> keycode \<Rightarrow> 't) \<Rightarrow> keyboard_source \<Rightarrow> keycode \<Rightarrow> key_state
    \<Rightarrow> ('s, 'x, 'm, 'l, 'g) kbd \<Rightarrow> ('s, 'x, 'm, 'l, 'g) kbd \<times> ('t \<times> bool) option" where
  "input_intercept lib fltr source keycode state s =
     (let (s, mods_changed, leds_changed, is_transition) = key_input lib source keycode state s;
          s = (if leds_changed then kbd_emit [Kb_led_state_changed (kb_leds s)] s else s)
      in if \<not> is_transition then (s, None)
         else (s, Some (fltr (kb_mods s) (kb_xkb s) keycode, mods_changed)))"

section \<open>The handle that grabs use\<close>

definition inner_input :: "keycode \<Rightarrow> key_state \<Rightarrow> 'm option \<Rightarrow> serial \<Rightarrow> ('s, 'x, 'm, 'l, 'g) kbd \<Rightarrow> ('s, 'x, 'm, 'l, 'g) kbd" where
  "inner_input keycode key_state modifiers serial s =
     (case kb_focus s of
        None \<Rightarrow> s
      | Some (focus, _) \<Rightarrow>
          kbd_emit (Kb_key focus keycode key_state serial # (case modifiers of None \<Rightarrow> [] | Some mods \<Rightarrow> [Kb_modifiers focus mods serial])) s)"

definition inner_set_focus :: "'s option \<Rightarrow> serial \<Rightarrow> ('s, 'x, 'm, 'l, 'g) kbd \<Rightarrow> ('s, 'x, 'm, 'l, 'g) kbd" where
  "inner_set_focus focus serial s =
     (case focus of
        Some focus \<Rightarrow>
          (let old_focus = kb_focus s; s = s\<lparr>kb_focus := Some (focus, serial)\<rparr>
           in case old_focus of
                Some (old_focus, _) \<Rightarrow>
                  if focus = old_focus then s
                  else kbd_emit [Kb_leave old_focus serial, Kb_enter focus (kb_forwarded s) serial,
                                 Kb_modifiers focus (kb_mods s) serial, Kb_focus_changed focus] s
              | None \<Rightarrow>
                  kbd_emit [Kb_enter focus (kb_forwarded s) serial, Kb_modifiers focus (kb_mods s) serial, Kb_focus_changed focus] s)
      | None \<Rightarrow>
          (case kb_focus s of
             None \<Rightarrow> s
           | Some (old_focus, _) \<Rightarrow> kbd_emit [Kb_leave old_focus serial] (s\<lparr>kb_focus := None\<rparr>)))"

text \<open>The operations of the handle, which a grab may call in any order.\<close>

datatype ('s, 'm, 'g) kbd_op =
  Op_input keycode key_state "'m option" serial
| Op_set_focus "'s option" serial
| Op_set_grab serial 'g
| Op_unset_grab serial bool

fun kbd_do :: "('s, 'm, 'g) kbd_op \<Rightarrow> ('s, 'x, 'm, 'l, 'g) kbd \<Rightarrow> ('s, 'x, 'm, 'l, 'g) kbd" where
  "kbd_do (Op_input keycode state modifiers serial) s = inner_input keycode state modifiers serial s"
| "kbd_do (Op_set_focus focus serial) s = inner_set_focus focus serial s"
| "kbd_do (Op_set_grab serial grab) s = s\<lparr>kb_grab := Grab_active serial grab\<rparr>"
| "kbd_do (Op_unset_grab serial restore_focus) s =
     (let s = s\<lparr>kb_grab := Grab_none\<rparr>
      in if restore_focus then inner_set_focus (kb_pending_focus s) serial s else s)"

text \<open>The code of a grab: its start data, and what it does for an input and for a change of focus.\<close>

record ('s, 'x, 'm, 'l, 'g) kbd_grab_api =
  grab_start_focus :: "'g \<Rightarrow> 's option"
  grab_input :: "'g \<Rightarrow> keycode \<Rightarrow> key_state \<Rightarrow> 'm option \<Rightarrow> serial \<Rightarrow> ('s, 'x, 'm, 'l, 'g) kbd \<Rightarrow> 'g \<times> ('s, 'm, 'g) kbd_op list"
  grab_set_focus :: "'g \<Rightarrow> 's option \<Rightarrow> serial \<Rightarrow> ('s, 'x, 'm, 'l, 'g) kbd \<Rightarrow> 'g \<times> ('s, 'm, 'g) kbd_op list"

text \<open>
  \<open>with_grab\<close>: \<open>f\<close> is the code of the active grab, \<open>dflt\<close> the operation of the default one. The value
  is None where the code panics.
\<close>

definition kbd_with_grab :: "('s \<Rightarrow> bool) \<Rightarrow> ('s, 'x, 'm, 'l, 'g) kbd_grab_api
    \<Rightarrow> ('g \<Rightarrow> ('s, 'x, 'm, 'l, 'g) kbd \<Rightarrow> 'g \<times> ('s, 'm, 'g) kbd_op list)
    \<Rightarrow> ('s, 'm, 'g) kbd_op \<Rightarrow> ('s, 'x, 'm, 'l, 'g) kbd \<Rightarrow> ('s, 'x, 'm, 'l, 'g) kbd option" where
  "kbd_with_grab alive api f dflt s =
     (let grab = kb_grab s; s = s\<lparr>kb_grab := Grab_borrowed\<rparr>
      in case grab of
           Grab_borrowed \<Rightarrow> None
         | Grab_active serial handler \<Rightarrow>
             if (case grab_start_focus api handler of Some focus \<Rightarrow> \<not> alive focus | None \<Rightarrow> False)
             then Some (kbd_do dflt (s\<lparr>kb_grab := Grab_none\<rparr>))
             else (let (handler', ops) = f handler s; s = fold kbd_do ops s
                   in Some (if kb_grab s = Grab_borrowed then s\<lparr>kb_grab := Grab_active serial handler'\<rparr> else s))
         | Grab_none \<Rightarrow>
             (let s = kbd_do dflt s
              in Some (if kb_grab s = Grab_borrowed then s\<lparr>kb_grab := Grab_none\<rparr> else s)))"

section \<open>The handle of the compositor\<close>

definition kbd_set_grab :: "'g \<Rightarrow> serial \<Rightarrow> ('s, 'x, 'm, 'l, 'g) kbd \<Rightarrow> ('s, 'x, 'm, 'l, 'g) kbd" where
  "kbd_set_grab grab serial s = s\<lparr>kb_grab := Grab_active serial grab\<rparr>"

definition kbd_unset_grab :: "('s, 'x, 'm, 'l, 'g) kbd \<Rightarrow> ('s, 'x, 'm, 'l, 'g) kbd" where
  "kbd_unset_grab s = s\<lparr>kb_grab := Grab_none\<rparr>"

definition kbd_forward :: "('s \<Rightarrow> bool) \<Rightarrow> ('s, 'x, 'm, 'l, 'g) kbd_grab_api \<Rightarrow> keycode \<Rightarrow> key_state \<Rightarrow> serial \<Rightarrow> bool \<Rightarrow> bool
    \<Rightarrow> ('s, 'x, 'm, 'l, 'g) kbd \<Rightarrow> ('s, 'x, 'm, 'l, 'g) kbd option" where
  "kbd_forward alive api keycode state serial mods_changed bypass_grab s =
     (let s = s\<lparr>kb_forwarded := (case state of Pressed \<Rightarrow> insert keycode (kb_forwarded s) | Released \<Rightarrow> kb_forwarded s - {keycode})\<rparr>;
          modifiers = (if mods_changed then Some (kb_mods s) else None)
      in if bypass_grab then Some (kbd_do (Op_input keycode state modifiers serial) s)
         else kbd_with_grab alive api (\<lambda>grab. grab_input api grab keycode state modifiers serial)
                (Op_input keycode state modifiers serial) s)"

definition input_forward :: "('s \<Rightarrow> bool) \<Rightarrow> ('s, 'x, 'm, 'l, 'g) kbd_grab_api \<Rightarrow> keycode \<Rightarrow> key_state \<Rightarrow> serial \<Rightarrow> bool
    \<Rightarrow> ('s, 'x, 'm, 'l, 'g) kbd \<Rightarrow> ('s, 'x, 'm, 'l, 'g) kbd option" where
  "input_forward alive api keycode state serial mods_changed = kbd_forward alive api keycode state serial mods_changed False"

definition input_forward_bypassing_grab :: "('s \<Rightarrow> bool) \<Rightarrow> ('s, 'x, 'm, 'l, 'g) kbd_grab_api \<Rightarrow> keycode \<Rightarrow> key_state \<Rightarrow> serial
    \<Rightarrow> bool \<Rightarrow> ('s, 'x, 'm, 'l, 'g) kbd \<Rightarrow> ('s, 'x, 'm, 'l, 'g) kbd option" where
  "input_forward_bypassing_grab alive api keycode state serial mods_changed = kbd_forward alive api keycode state serial mods_changed True"

text \<open>The filter answers whether the key is forwarded, or intercepted with a value.\<close>

datatype 't filter_result = Forward | Intercept 't

definition input_from_source :: "('s \<Rightarrow> bool) \<Rightarrow> ('s, 'x, 'm, 'l, 'g) kbd_grab_api \<Rightarrow> ('x, 'm, 'l) xkb_lib
    \<Rightarrow> ('m \<Rightarrow> 'x \<Rightarrow> keycode \<Rightarrow> 't filter_result) \<Rightarrow> keyboard_source \<Rightarrow> keycode \<Rightarrow> key_state \<Rightarrow> serial
    \<Rightarrow> ('s, 'x, 'm, 'l, 'g) kbd \<Rightarrow> (('s, 'x, 'm, 'l, 'g) kbd \<times> 't option) option" where
  "input_from_source alive api lib fltr source keycode state serial s =
     (case input_intercept lib fltr source keycode state s of
        (s, None) \<Rightarrow> Some (s, None)
      | (s, Some (Intercept val, mods_changed)) \<Rightarrow> Some (s, Some val)
      | (s, Some (Forward, mods_changed)) \<Rightarrow>
          map_option (\<lambda>s. (s, None)) (input_forward alive api keycode state serial mods_changed s))"

fun forward_releases :: "('s \<Rightarrow> bool) \<Rightarrow> ('s, 'x, 'm, 'l, 'g) kbd_grab_api \<Rightarrow> serial \<Rightarrow> keycode list
    \<Rightarrow> ('s, 'x, 'm, 'l, 'g) kbd \<Rightarrow> ('s, 'x, 'm, 'l, 'g) kbd option" where
  "forward_releases alive api serial [] s = Some s"
| "forward_releases alive api serial (k # ks) s =
     (case input_forward alive api k Released serial True s of
        None \<Rightarrow> None
      | Some s \<Rightarrow> forward_releases alive api serial ks s)"

definition release_source :: "('s \<Rightarrow> bool) \<Rightarrow> ('s, 'x, 'm, 'l, 'g) kbd_grab_api \<Rightarrow> ('x, 'm, 'l) xkb_lib \<Rightarrow> keycode list
    \<Rightarrow> keyboard_source \<Rightarrow> serial \<Rightarrow> ('s, 'x, 'm, 'l, 'g) kbd \<Rightarrow> ('s, 'x, 'm, 'l, 'g) kbd option" where
  "release_source alive api lib order source serial s =
     (let (s, transitioned) = release_source_keys lib order source s
      in forward_releases alive api serial transitioned s)"

definition kbd_set_focus :: "('s \<Rightarrow> bool) \<Rightarrow> ('s, 'x, 'm, 'l, 'g) kbd_grab_api \<Rightarrow> 's option \<Rightarrow> serial
    \<Rightarrow> ('s, 'x, 'm, 'l, 'g) kbd \<Rightarrow> ('s, 'x, 'm, 'l, 'g) kbd option" where
  "kbd_set_focus alive api focus serial s =
     kbd_with_grab alive api (\<lambda>grab. grab_set_focus api grab focus serial) (Op_set_focus focus serial)
       (s\<lparr>kb_pending_focus := focus\<rparr>)"

text \<open>A new keymap: all pressed keys are reported, in some order, to its fresh state \<open>x\<close>.\<close>

definition update_xkb_state :: "('x, 'm, 'l) xkb_lib \<Rightarrow> 'x \<Rightarrow> keycode list \<Rightarrow> serial \<Rightarrow> ('s, 'x, 'm, 'l, 'g) kbd
    \<Rightarrow> ('s, 'x, 'm, 'l, 'g) kbd" where
  "update_xkb_state lib x order serial s =
     (let x = fold (\<lambda>key x. fst (xkb_update_key lib x key Down)) order x;
          mods = xkb_update_mods lib (kb_mods s) x;
          (l, leds_changed) = xkb_update_leds lib (kb_leds s) x;
          s = s\<lparr>kb_mods := mods, kb_leds := l, kb_xkb := x\<rparr>;
          s = kbd_emit (Kb_keymap # (case kb_focus s of None \<Rightarrow> [] | Some (focus, _) \<Rightarrow> [Kb_modifiers focus mods serial])) s
      in if leds_changed then kbd_emit [Kb_led_state_changed l] s else s)"

text \<open>The callback may change the state of libxkbcommon, the modifiers and the LEDs, and says which it changed.\<close>

definition with_xkb_state :: "('x \<times> 'm \<times> 'l \<Rightarrow> ('x \<times> 'm \<times> 'l) \<times> bool \<times> bool) \<Rightarrow> serial \<Rightarrow> ('s, 'x, 'm, 'l, 'g) kbd
    \<Rightarrow> ('s, 'x, 'm, 'l, 'g) kbd" where
  "with_xkb_state callback serial s =
     (let ((x, m, l), mods_changed, leds_changed) = callback (kb_xkb s, kb_mods s, kb_leds s);
          s = s\<lparr>kb_xkb := x, kb_mods := m, kb_leds := l\<rparr>;
          s = (if mods_changed then (case kb_focus s of None \<Rightarrow> s | Some (focus, _) \<Rightarrow> kbd_emit [Kb_modifiers focus m serial] s) else s)
      in if leds_changed then kbd_emit [Kb_led_state_changed l] s else s)"

definition advertise_modifier_state :: "serial \<Rightarrow> ('s, 'x, 'm, 'l, 'g) kbd \<Rightarrow> ('s, 'x, 'm, 'l, 'g) kbd" where
  "advertise_modifier_state serial s =
     (case kb_focus s of None \<Rightarrow> s | Some (focus, _) \<Rightarrow> kbd_emit [Kb_modifiers focus (kb_mods s) serial] s)"

text \<open>What a \<open>wl_keyboard\<close> object is told when its client, the one of the focus, creates it.\<close>

definition new_kbd :: "('s, 'x, 'm, 'l, 'g) kbd \<Rightarrow> ('s, 'm, 'l) kbd_event list" where
  "new_kbd s =
     (case kb_focus s of
        None \<Rightarrow> []
      | Some (focused, serial) \<Rightarrow> [Kb_enter focused (kb_pressed_keys s) serial, Kb_modifiers focused (kb_mods s) serial])"

section \<open>Runs\<close>

text \<open>The values that filters return do not matter to the keyboard, so they are of type \<open>unit\<close> here.\<close>

inductive kbd_step :: "('x, 'm, 'l) xkb_lib \<Rightarrow> ('s, 'x, 'm, 'l, 'g) kbd_grab_api \<Rightarrow> ('s, 'x, 'm, 'l, 'g) kbd
    \<Rightarrow> ('s, 'x, 'm, 'l, 'g) kbd \<Rightarrow> bool" for lib api where
  ks_input: "input_from_source alive api lib (fltr :: _ \<Rightarrow> _ \<Rightarrow> _ \<Rightarrow> unit filter_result) source k st serial s = Some (s', r) \<Longrightarrow> kbd_step lib api s s'"
| ks_intercept: "input_intercept lib (fltr :: _ \<Rightarrow> _ \<Rightarrow> _ \<Rightarrow> unit) source k st s = (s', r) \<Longrightarrow> kbd_step lib api s s'"
| ks_forward: "input_forward alive api k st serial mc s = Some s' \<Longrightarrow> kbd_step lib api s s'"
| ks_bypass: "input_forward_bypassing_grab alive api k st serial mc s = Some s' \<Longrightarrow> kbd_step lib api s s'"
| ks_release: "distinct order \<Longrightarrow> set order = dom (kb_key_sources s) \<Longrightarrow>
    release_source alive api lib order source serial s = Some s' \<Longrightarrow> kbd_step lib api s s'"
| ks_focus: "kbd_set_focus alive api focus serial s = Some s' \<Longrightarrow> kbd_step lib api s s'"
| ks_set_grab: "kbd_step lib api s (kbd_set_grab grab serial s)"
| ks_unset_grab: "kbd_step lib api s (kbd_unset_grab s)"
| ks_keymap: "set order = kb_pressed_keys s \<Longrightarrow> kbd_step lib api s (update_xkb_state lib x order serial s)"
| ks_xkb: "kbd_step lib api s (with_xkb_state callback serial s)"
| ks_advertise: "kbd_step lib api s (advertise_modifier_state serial s)"

end
