(* ===== verification/Keyboard_Props.thy ===== *)
theory Keyboard_Props
  imports Keyboard
begin

text \<open>
  Properties of the keyboard: the log follows the focus whatever the grabs do; what a client believes
  to be pressed is what was forwarded; the combined state of several sources; no key stays pressed.
\<close>

section \<open>What every operation does\<close>

text \<open>A relation that the primitive operations of the handle establish holds for everything built on them.\<close>

locale kbd_relation =
  fixes R :: "('s, 'x, 'm, 'l, 'g) kbd \<Rightarrow> ('s, 'x, 'm, 'l, 'g) kbd \<Rightarrow> bool"
  assumes trans: "R s t \<Longrightarrow> R t u \<Longrightarrow> R s u"
    and grab: "R s (s\<lparr>kb_grab := g\<rparr>)"
    and forwarded: "R s (s\<lparr>kb_forwarded := keys\<rparr>)"
    and pending: "R s (s\<lparr>kb_pending_focus := f\<rparr>)"
    and input: "R s (inner_input k st m i s)"
    and set_focus: "R s (inner_set_focus f i s)"
begin

lemma do_op: "R s (kbd_do op s)"
proof (cases op)
  case (Op_unset_grab i r)
  show ?thesis by (cases r) (auto simp: Op_unset_grab Let_def intro: grab trans[OF grab set_focus])
qed (simp_all add: input set_focus grab)

lemma refl: "R s s"
  using grab[of s "kb_grab s"] by simp

lemma do_ops: "R s (fold kbd_do ops s)"
  by (induction ops arbitrary: s) (auto intro: refl trans[OF do_op])

lemma with_grab:
  assumes "kbd_with_grab alive api f dflt s = Some s'"
  shows "R s s'"
proof -
  have put_back: "R s (if b then t\<lparr>kb_grab := g\<rparr> else t)" if "R s t" for b t g
    using that by (cases b) (auto intro: trans[OF _ grab])
  have d: "R s (kbd_do dflt (s\<lparr>kb_grab := g\<rparr>))" "R s (fold kbd_do ops (s\<lparr>kb_grab := g\<rparr>))" for g ops
    by (rule trans[OF grab do_op] trans[OF grab do_ops])+
  show ?thesis
  proof (cases "kb_grab s")
    case Grab_none
    then have "s' = (let t = kbd_do dflt (s\<lparr>kb_grab := Grab_borrowed\<rparr>) in if kb_grab t = Grab_borrowed then t\<lparr>kb_grab := Grab_none\<rparr> else t)"
      using assms by (simp add: kbd_with_grab_def Let_def)
    then show ?thesis unfolding Let_def by (simp only:) (rule put_back[OF d(1)])
  next
    case (Grab_active serial handler)
    obtain h' ops where f: "f handler (s\<lparr>kb_grab := Grab_borrowed\<rparr>) = (h', ops)" by fastforce
    define t where "t = fold kbd_do ops (s\<lparr>kb_grab := Grab_borrowed\<rparr>)"
    have t: "R s (if b then t\<lparr>kb_grab := g\<rparr> else t)" for b g unfolding t_def by (rule put_back[OF d(2)])
    show ?thesis
    proof (cases "case grab_start_focus api handler of Some focus \<Rightarrow> \<not> alive focus | None \<Rightarrow> False")
      case True
      then have "s' = kbd_do dflt (s\<lparr>kb_grab := Grab_none\<rparr>)"
        using assms by (simp add: kbd_with_grab_def Grab_active)
      then show ?thesis using d(1) by simp
    next
      case False
      then have "s' = (if kb_grab t = Grab_borrowed then t\<lparr>kb_grab := Grab_active serial h'\<rparr> else t)"
        using assms unfolding kbd_with_grab_def Let_def Grab_active grab_status.case f prod.case t_def[symmetric] if_not_P[OF False]
        by (simp only: option.inject)
      then show ?thesis using t by (simp only:)
    qed
  next
    case Grab_borrowed
    with assms show ?thesis by (simp add: kbd_with_grab_def Let_def)
  qed
qed

lemma forward:
  assumes "kbd_forward alive api k st i mc b s = Some s'"
  shows "R s s'"
proof -
  define t where "t = s\<lparr>kb_forwarded := (case st of Pressed \<Rightarrow> insert k (kb_forwarded s) | Released \<Rightarrow> kb_forwarded s - {k})\<rparr>"
  have "R s t" unfolding t_def by (rule forwarded)
  moreover have "R t s'"
    using assms unfolding kbd_forward_def Let_def t_def[symmetric] by (auto split: if_splits intro: with_grab input)
  ultimately show ?thesis by (rule trans)
qed

lemma releases: "forward_releases alive api i ks s = Some s' \<Longrightarrow> R s s'"
  by (induction alive api i ks s rule: forward_releases.induct)
    (auto split: option.splits simp: refl input_forward_def intro: trans[OF forward])

lemma focus_request: "kbd_set_focus alive api f i s = Some s' \<Longrightarrow> R s s'"
  unfolding kbd_set_focus_def by (rule trans[OF pending with_grab])

end

section \<open>The focus\<close>

fun kbd_class :: "('s, 'm, 'l) kbd_event \<Rightarrow> 's focus_event" where
  "kbd_class (Kb_enter s _ _) = Enters s"
| "kbd_class (Kb_leave s _) = Leaves s"
| "kbd_class (Kb_key s _ _ _) = Sent s"
| "kbd_class (Kb_modifiers s _ _) = Sent s"
| "kbd_class _ = Elsewhere"

definition kbd_target :: "('s, 'x, 'm, 'l, 'g) kbd \<Rightarrow> 's option" where
  "kbd_target s = map_option fst (kb_focus s)"

definition kbd_events :: "('s, 'x, 'm, 'l, 'g) kbd \<Rightarrow> 's focus_event list" where
  "kbd_events s = map kbd_class (kb_log s)"

definition kbd_extends :: "('s, 'x, 'm, 'l, 'g) kbd \<Rightarrow> ('s, 'x, 'm, 'l, 'g) kbd \<Rightarrow> bool" where
  "kbd_extends s s' \<longleftrightarrow> (\<exists>es. kbd_events s' = kbd_events s @ es \<and> focus_trace (kbd_target s) es = Some (kbd_target s'))"

lemma kbd_extends_trans [trans]: "kbd_extends s t \<Longrightarrow> kbd_extends t u \<Longrightarrow> kbd_extends s u"
  by (fastforce simp: kbd_extends_def)

lemma kbd_extends_silent: "kb_focus s' = kb_focus s \<Longrightarrow> kb_log s' = kb_log s \<Longrightarrow> kbd_extends s s'"
  by (simp add: kbd_extends_def kbd_events_def kbd_target_def)

lemma kbd_extends_log:
  "kb_log s' = kb_log s @ es \<Longrightarrow> focus_trace (kbd_target s) (map kbd_class es) = Some (kbd_target s') \<Longrightarrow> kbd_extends s s'"
  by (auto simp: kbd_extends_def kbd_events_def)

lemma kbd_emit_extends:
  "focus_trace (kbd_target s) (map kbd_class es) = Some (kbd_target s) \<Longrightarrow> kbd_extends s (kbd_emit es s)"
  by (rule kbd_extends_log[of _ _ es]) (simp_all add: kbd_emit_def kbd_target_def)

lemma kbd_extends_if: "kbd_extends s t \<Longrightarrow> (b \<Longrightarrow> kbd_extends t u) \<Longrightarrow> kbd_extends s (if b then u else t)"
  by (cases b) (auto intro: kbd_extends_trans)

lemma inner_input_extends: "kbd_extends s (inner_input k st m i s)"
  by (cases "kb_focus s"; cases m)
    (auto simp: inner_input_def kbd_emit_def kbd_target_def intro!: kbd_extends_silent kbd_extends_log)

lemma inner_set_focus_extends: "kbd_extends s (inner_set_focus f i s)"
proof (cases "kb_focus s")
  case None
  show ?thesis
    by (cases f) (auto simp: None inner_set_focus_def kbd_emit_def kbd_target_def intro!: kbd_extends_silent kbd_extends_log)
next
  case (Some old)
  obtain t j where old: "old = (t, j)" by fastforce
  consider "f = None" | "f = Some t" | t' where "f = Some t'" "t' \<noteq> t" by fastforce
  then show ?thesis
  proof cases
    case 2
    then show ?thesis by (simp add: Some old inner_set_focus_def kbd_extends_def kbd_target_def kbd_events_def)
  qed (auto simp: Some old inner_set_focus_def kbd_emit_def kbd_target_def intro!: kbd_extends_log)
qed

interpretation ext: kbd_relation "kbd_extends :: ('s, 'x, 'm, 'l, 'g) kbd \<Rightarrow> ('s, 'x, 'm, 'l, 'g) kbd \<Rightarrow> bool"
  by unfold_locales (fact kbd_extends_trans inner_input_extends inner_set_focus_extends | simp add: kbd_extends_silent)+

lemma track_key_silent:
  assumes "track_key source k st s = (s', d)"
  shows "kb_focus s' = kb_focus s" "kb_log s' = kb_log s" "kb_forwarded s' = kb_forwarded s" "kb_grab s' = kb_grab s"
  using assms by (auto simp: track_key_def Let_def split: key_state.splits option.splits if_splits)

lemma key_input_silent:
  assumes "key_input lib source k st s = (s', r)"
  shows "kb_focus s' = kb_focus s" "kb_log s' = kb_log s" "kb_forwarded s' = kb_forwarded s" "kb_grab s' = kb_grab s"
proof -
  obtain t d where t: "track_key source k st s = (t, d)" by fastforce
  have "\<exists>x m l. s' = t\<lparr>kb_xkb := x, kb_mods := m, kb_leds := l\<rparr>"
  proof (cases d)
    case None
    then have "s' = t\<lparr>kb_xkb := kb_xkb t, kb_mods := kb_mods t, kb_leds := kb_leds t\<rparr>"
      using assms by (simp add: key_input_def t)
    then show ?thesis by blast
  next
    case (Some dir)
    obtain x mc where x: "xkb_update_key lib (kb_xkb t) k dir = (x, mc)" by fastforce
    obtain l lc where l: "xkb_update_leds lib (kb_leds t) x = (l, lc)" by fastforce
    from assms show ?thesis by (auto simp: key_input_def t Some x l Let_def)
  qed
  then obtain x m l where s': "s' = t\<lparr>kb_xkb := x, kb_mods := m, kb_leds := l\<rparr>" by blast
  show "kb_focus s' = kb_focus s" "kb_log s' = kb_log s" "kb_forwarded s' = kb_forwarded s" "kb_grab s' = kb_grab s"
    by (simp_all add: s' track_key_silent[OF t])
qed

lemma input_intercept_extends:
  assumes "input_intercept lib fltr source k st s = (s', r)"
  shows "kbd_extends s s'" "kb_focus s' = kb_focus s" "kb_forwarded s' = kb_forwarded s" "kb_grab s' = kb_grab s"
proof -
  obtain t mc lc tr where k: "key_input lib source k st s = (t, mc, lc, tr)" by (metis prod.collapse)
  have s': "s' = (if lc then kbd_emit [Kb_led_state_changed (kb_leds t)] t else t)"
    using assms by (auto simp: input_intercept_def k Let_def split: if_splits)
  show "kb_focus s' = kb_focus s" "kb_forwarded s' = kb_forwarded s" "kb_grab s' = kb_grab s"
    using key_input_silent[OF k] by (simp_all add: s' kbd_emit_def)
  show "kbd_extends s s'"
    using key_input_silent[OF k] by (intro kbd_extends_log[of _ _ "if lc then [Kb_led_state_changed (kb_leds t)] else []"])
      (simp_all add: s' kbd_emit_def kbd_target_def)
qed

lemma release_keys_silent:
  "release_keys lib source ks s = (s', ts) \<Longrightarrow>
   kb_focus s' = kb_focus s \<and> kb_log s' = kb_log s \<and> kb_forwarded s' = kb_forwarded s \<and> kb_grab s' = kb_grab s"
proof (induction lib source ks s arbitrary: s' ts rule: release_keys.induct)
  case (2 lib source k ks s)
  obtain t mc lc tr where t: "key_input lib source k Released s = (t, mc, lc, tr)" by (metis prod.collapse)
  obtain u us where u: "release_keys lib source ks t = (u, us)" by fastforce
  have "s' = u" using 2(2) by (simp add: t u)
  then show ?case using 2(1)[OF t[symmetric] refl refl refl u] key_input_silent[OF t] by simp
qed simp

lemma release_source_keys_silent:
  assumes "release_source_keys lib order source s = (s', ts)"
  shows "kb_focus s' = kb_focus s \<and> kb_log s' = kb_log s \<and> kb_forwarded s' = kb_forwarded s \<and> kb_grab s' = kb_grab s"
  by (rule release_keys_silent[OF assms[unfolded release_source_keys_def]])

lemma kbd_step_extends: "kbd_step lib api s s' \<Longrightarrow> kbd_extends s s'"
proof (induction rule: kbd_step.induct)
  case (ks_input alive fltr source k st serial s s' r)
  obtain t q where t: "input_intercept lib fltr source k st s = (t, q)" by fastforce
  show ?case
    using ks_input input_intercept_extends(1)[OF t]
    by (auto simp: input_from_source_def t input_forward_def split: option.splits prod.splits filter_result.splits
        intro: kbd_extends_trans ext.forward)
next
  case (ks_release order s alive source serial s')
  obtain t ts where t: "release_source_keys lib order source s = (t, ts)" by fastforce
  show ?case
    using ks_release release_source_keys_silent[OF t]
    by (auto simp: release_source_def t intro!: kbd_extends_trans[OF kbd_extends_silent ext.releases])
next
  case (ks_focus alive focus serial s s')
  then show ?case by (rule ext.focus_request)
next
  case (ks_keymap order s x serial)
  show ?case
    by (auto simp: update_xkb_state_def kbd_emit_def kbd_target_def Let_def split: prod.split option.split intro!: kbd_extends_log)
next
  case (ks_xkb s callback serial)
  obtain x m l mc lc where c: "callback (kb_xkb s, kb_mods s, kb_leds s) = ((x, m, l), mc, lc)" by (metis prod.collapse)
  define t where "t = s\<lparr>kb_xkb := x, kb_mods := m, kb_leds := l\<rparr>"
  define u where "u = (if mc then (case kb_focus t of None \<Rightarrow> t | Some (focus, _) \<Rightarrow> kbd_emit [Kb_modifiers focus m serial] t) else t)"
  have "kbd_extends s t" by (rule kbd_extends_silent) (simp_all add: t_def)
  also have "kbd_extends t u"
    unfolding u_def by (auto simp: kbd_target_def split: option.split intro!: kbd_emit_extends kbd_extends_silent)
  finally have "kbd_extends s (if lc then kbd_emit [Kb_led_state_changed l] u else u)"
    by (rule kbd_extends_if) (simp add: kbd_emit_extends)
  then show ?case unfolding with_xkb_state_def c Let_def prod.case t_def[symmetric] u_def[symmetric] .
next
  case (ks_advertise s serial)
  show ?case
    by (auto simp: advertise_modifier_state_def kbd_target_def split: option.split intro!: kbd_emit_extends kbd_extends_silent)
qed (auto simp: input_forward_def input_forward_bypassing_grab_def kbd_set_grab_def kbd_unset_grab_def
    intro: ext.forward kbd_extends_silent input_intercept_extends(1))

interpretation kb: focus_device kbd_target kbd_events "kbd_step lib api" for lib api
  by unfold_locales (drule kbd_step_extends, simp add: kbd_extends_def)

lemma keyboard_events_follow_focus_facts:
  fixes s :: "('s, 'x, 'm, 'l, 'g) kbd"
  assumes "(kbd_step lib api)\<^sup>*\<^sup>* (kbd_new x m l) s"
  shows "focus_trace None (kbd_events s) = Some (kbd_target s)"
    and "\<And>es t es'. kbd_events s = es @ Sent t # es' \<Longrightarrow> \<exists>xs ys. es = xs @ Enters t # ys \<and> Leaves t \<notin> set ys"
proof -
  have "kb.follows (kbd_new x m l :: ('s, 'x, 'm, 'l, 'g) kbd)"
    by (simp add: kb.follows_def kbd_new_def kbd_events_def kbd_target_def)
  from kb.follows_steps[OF assms this] have f: "kb.follows s" .
  then show "focus_trace None (kbd_events s) = Some (kbd_target s)" by (simp add: kb.follows_def)
  show "\<And>es t es'. kbd_events s = es @ Sent t # es' \<Longrightarrow> \<exists>xs ys. es = xs @ Enters t # ys \<and> Leaves t \<notin> set ys"
    by (rule kb.sent_after_enter[OF f])
qed

text \<open>C6. Whatever the compositor does with the keyboard and whatever its grabs do, the targets see a
  well-formed sequence: at most one target is entered, it is the focus of the keyboard, and keys and
  modifiers go only to a target that was entered and not left since.\<close>

theorem keyboard_events_follow_focus:
  fixes s :: "('s, 'x, 'm, 'l, 'g) kbd"
  assumes "(kbd_step lib api)\<^sup>*\<^sup>* (kbd_new x m l) s"
  shows "focus_trace None (kbd_events s) = Some (kbd_target s) \<and>
    (\<forall>es t es'. kbd_events s = es @ Sent t # es' \<longrightarrow> (\<exists>xs ys. es = xs @ Enters t # ys \<and> Leaves t \<notin> set ys))"
  using keyboard_events_follow_focus_facts[OF assms] by blast


section \<open>What a client believes to be pressed\<close>

fun client_step :: "('s \<times> keycode set) option \<Rightarrow> ('s, 'm, 'l) kbd_event \<Rightarrow> ('s \<times> keycode set) option" where
  "client_step v (Kb_enter s keys _) = Some (s, keys)"
| "client_step v (Kb_leave s _) = None"
| "client_step v (Kb_key s k Pressed _) = map_option (apsnd (insert k)) v"
| "client_step v (Kb_key s k Released _) = map_option (apsnd (\<lambda>keys. keys - {k})) v"
| "client_step v _ = v"

definition client_view :: "('s, 'm, 'l) kbd_event list \<Rightarrow> ('s \<times> keycode set) option" where
  "client_view es = foldl client_step None es"

lemma client_view_append [simp]: "client_view (es @ es') = foldl client_step (client_view es) es'"
  by (simp add: client_view_def)

definition sees_forwarded :: "('s, 'x, 'm, 'l, 'g) kbd \<Rightarrow> bool" where
  "sees_forwarded s \<longleftrightarrow> client_view (kb_log s) = map_option (\<lambda>(focus, _). (focus, kb_forwarded s)) (kb_focus s)"

lemma sees_forwarded_same:
  assumes "kb_focus s' = kb_focus s" "kb_forwarded s' = kb_forwarded s" "kb_log s' = kb_log s @ es"
    and "\<And>e. e \<in> set es \<Longrightarrow> (\<exists>f m i. e = Kb_modifiers f m i) \<or> (\<exists>f. e = Kb_focus_changed f) \<or> (\<exists>l. e = Kb_led_state_changed l) \<or> e = Kb_keymap"
  shows "sees_forwarded s \<Longrightarrow> sees_forwarded s'"
proof -
  have "foldl client_step v es = v" for v using assms(4) by (induction es) fastforce+
  then show "sees_forwarded s \<Longrightarrow> sees_forwarded s'" using assms(1-3) by (simp add: sees_forwarded_def)
qed

lemma inner_set_focus_sees: "sees_forwarded s \<Longrightarrow> sees_forwarded (inner_set_focus f i s)"
  by (cases f; cases "kb_focus s")
    (auto simp: sees_forwarded_def inner_set_focus_def kbd_emit_def Let_def)

text \<open>A key that is sent changes the belief of the client as the code changes the forwarded keys.\<close>

lemma inner_input_sees:
  assumes "sees_forwarded s"
    and "t = s\<lparr>kb_forwarded := (case st of Pressed \<Rightarrow> insert k (kb_forwarded s) | Released \<Rightarrow> kb_forwarded s - {k})\<rparr>"
  shows "sees_forwarded (inner_input k st m i t)"
  using assms(1)
  by (cases st; cases "kb_focus s"; cases m) (auto simp: sees_forwarded_def inner_input_def kbd_emit_def assms(2))

lemma kbd_with_grab_none:
  assumes "kb_grab s = Grab_none" "(\<exists>k st m i. dflt = Op_input k st m i) \<or> (\<exists>f i. dflt = Op_set_focus f i)"
  shows "kbd_with_grab alive api f dflt s = Some (kbd_do dflt s)"
proof -
  have "kb_grab (kbd_do dflt (s\<lparr>kb_grab := g\<rparr>)) = g \<and> (kbd_do dflt (s\<lparr>kb_grab := g\<rparr>))\<lparr>kb_grab := Grab_none\<rparr> = kbd_do dflt s" for g
    using assms by (auto simp: inner_input_def inner_set_focus_def kbd_emit_def Let_def split: option.splits)
  then show ?thesis by (simp add: kbd_with_grab_def assms(1) Let_def)
qed

lemma kbd_forward_sees:
  assumes "kbd_forward alive api k st i mc b s = Some s'" "sees_forwarded s" "kb_grab s = Grab_none"
  shows "sees_forwarded s'" "kb_grab s' = Grab_none" "kb_pressed_keys s' = kb_pressed_keys s"
    "kb_key_sources s' = kb_key_sources s"
    "kb_forwarded s' = (case st of Pressed \<Rightarrow> insert k (kb_forwarded s) | Released \<Rightarrow> kb_forwarded s - {k})"
proof -
  define t where "t = s\<lparr>kb_forwarded := (case st of Pressed \<Rightarrow> insert k (kb_forwarded s) | Released \<Rightarrow> kb_forwarded s - {k})\<rparr>"
  have g: "kb_grab t = Grab_none" using assms(3) by (simp add: t_def)
  have "s' = inner_input k st (if mc then Some (kb_mods t) else None) i t"
    using assms(1) unfolding kbd_forward_def Let_def t_def[symmetric]
    by (simp add: kbd_with_grab_none[OF g] split: if_splits)
  then show "sees_forwarded s'" using inner_input_sees[OF assms(2) t_def] by simp
  show "kb_grab s' = Grab_none" "kb_pressed_keys s' = kb_pressed_keys s" "kb_key_sources s' = kb_key_sources s"
    "kb_forwarded s' = (case st of Pressed \<Rightarrow> insert k (kb_forwarded s) | Released \<Rightarrow> kb_forwarded s - {k})"
    using \<open>s' = _\<close> assms(3) by (auto simp: inner_input_def kbd_emit_def t_def split: option.splits)
qed

lemma forward_releases_sees:
  "forward_releases alive api i ks s = Some s' \<Longrightarrow> sees_forwarded s \<Longrightarrow> kb_grab s = Grab_none \<Longrightarrow>
   sees_forwarded s' \<and> kb_grab s' = Grab_none \<and> kb_pressed_keys s' = kb_pressed_keys s \<and> kb_key_sources s' = kb_key_sources s \<and>
   kb_forwarded s' = kb_forwarded s - set ks"
proof (induction alive api i ks s rule: forward_releases.induct)
  case (2 alive api i k ks s)
  then obtain t where t: "input_forward alive api k Released i True s = Some t" "forward_releases alive api i ks t = Some s'"
    by (auto split: option.splits)
  from kbd_forward_sees[OF t(1)[unfolded input_forward_def] 2(3,4)] 2(1)[OF t] show ?case by auto
qed simp

lemma input_intercept_sees:
  assumes "input_intercept lib fltr source k st s = (s', r)" "sees_forwarded s"
  shows "sees_forwarded s'"
proof -
  obtain t mc lc tr where k: "key_input lib source k st s = (t, mc, lc, tr)" by (metis prod.collapse)
  have s': "s' = (if lc then kbd_emit [Kb_led_state_changed (kb_leds t)] t else t)"
    using assms(1) by (auto simp: input_intercept_def k Let_def split: if_splits)
  show ?thesis
    by (rule sees_forwarded_same[OF _ _ _ _ assms(2), of _ "if lc then [Kb_led_state_changed (kb_leds t)] else []"])
      (auto simp: s' kbd_emit_def key_input_silent[OF k] split: if_splits)
qed

text \<open>The steps of runs in which no grab is active.\<close>

definition ungrabbed_step :: "('x, 'm, 'l) xkb_lib \<Rightarrow> ('s, 'x, 'm, 'l, 'g) kbd_grab_api \<Rightarrow> ('s, 'x, 'm, 'l, 'g) kbd
    \<Rightarrow> ('s, 'x, 'm, 'l, 'g) kbd \<Rightarrow> bool" where
  "ungrabbed_step lib api s s' \<longleftrightarrow> kbd_step lib api s s' \<and> kb_grab s' = Grab_none"

lemma input_from_source_sees:
  assumes "input_from_source alive api lib fltr source k st serial s = Some (s', r)" "sees_forwarded s" "kb_grab s = Grab_none"
  shows "sees_forwarded s'"
proof -
  obtain t q where t: "input_intercept lib fltr source k st s = (t, q)" by fastforce
  have g: "kb_grab t = Grab_none" using input_intercept_extends(4)[OF t] assms(3) by simp
  have v: "sees_forwarded t" by (rule input_intercept_sees[OF t assms(2)])
  show ?thesis
    using assms(1) v kbd_forward_sees(1)[OF _ v g]
    by (auto simp: input_from_source_def t input_forward_def split: option.splits prod.splits filter_result.splits)
qed

lemma release_source_sees:
  assumes "release_source alive api lib order source serial s = Some s'" "sees_forwarded s" "kb_grab s = Grab_none"
  shows "sees_forwarded s'"
proof -
  obtain t ts where t: "release_source_keys lib order source s = (t, ts)" by fastforce
  have "sees_forwarded t" "kb_grab t = Grab_none"
    using assms(2,3) release_source_keys_silent[OF t] by (simp_all add: sees_forwarded_def)
  moreover have "forward_releases alive api serial ts t = Some s'" using assms(1) by (simp add: release_source_def t)
  ultimately show ?thesis using forward_releases_sees[of alive api serial ts t s'] by simp
qed

lemma kbd_set_focus_sees:
  assumes "kbd_set_focus alive api focus serial s = Some s'" "sees_forwarded s" "kb_grab s = Grab_none"
  shows "sees_forwarded s'"
proof -
  have "sees_forwarded (s\<lparr>kb_pending_focus := focus\<rparr>)" using assms(2) by (simp add: sees_forwarded_def)
  then show ?thesis using assms(1,3) inner_set_focus_sees by (auto simp: kbd_set_focus_def kbd_with_grab_none)
qed

lemma update_xkb_state_sees:
  assumes "sees_forwarded s"
  shows "sees_forwarded (update_xkb_state lib x order serial s)"
proof -
  define x' where "x' = fold (\<lambda>key x. fst (xkb_update_key lib x key Down)) order x"
  obtain l lc where l: "xkb_update_leds lib (kb_leds s) x' = (l, lc)" by fastforce
  let ?es = "Kb_keymap # (case kb_focus s of None \<Rightarrow> [] | Some (focus, _) \<Rightarrow> [Kb_modifiers focus (xkb_update_mods lib (kb_mods s) x') serial])
        @ (if lc then [Kb_led_state_changed l] else [])"
  show ?thesis
    by (rule sees_forwarded_same[OF _ _ _ _ assms, of _ ?es])
      (auto simp: update_xkb_state_def kbd_emit_def Let_def l x'_def[symmetric] split: option.splits if_splits)
qed

lemma with_xkb_state_sees:
  fixes s :: "('a, 'b, 'c, 'd, 'e) kbd"
  assumes "sees_forwarded s"
  shows "sees_forwarded (with_xkb_state callback serial s)"
proof -
  obtain x m l mc lc where c: "callback (kb_xkb s, kb_mods s, kb_leds s) = ((x, m, l), mc, lc)" by (metis prod.collapse)
  define t where "t = s\<lparr>kb_xkb := x, kb_mods := m, kb_leds := l\<rparr>"
  define u where "u = (if mc then (case kb_focus t of None \<Rightarrow> t | Some (focus, _) \<Rightarrow> kbd_emit [Kb_modifiers focus m serial] t) else t)"
  have t: "sees_forwarded t" using assms by (simp add: t_def sees_forwarded_def)
  have emit: "sees_forwarded (kbd_emit [e] v)" if "sees_forwarded v" "(\<exists>f m i. e = Kb_modifiers f m i) \<or> (\<exists>l. e = Kb_led_state_changed l)"
    for e and v :: "('a, 'b, 'c, 'd, 'e) kbd"
    by (rule sees_forwarded_same[OF _ _ _ _ that(1), of _ "[e]"]) (use that(2) in \<open>auto simp: kbd_emit_def\<close>)
  have "sees_forwarded u" using t by (auto simp: u_def intro: emit split: option.split)
  then have "sees_forwarded (if lc then kbd_emit [Kb_led_state_changed l] u else u)" by (auto intro: emit)
  then show ?thesis unfolding with_xkb_state_def c Let_def prod.case t_def[symmetric] u_def[symmetric] .
qed

lemma advertise_sees:
  assumes "sees_forwarded s"
  shows "sees_forwarded (advertise_modifier_state serial s)"
  by (rule sees_forwarded_same[OF _ _ _ _ assms, of _ "case kb_focus s of None \<Rightarrow> [] | Some (focus, _) \<Rightarrow>
        [Kb_modifiers focus (kb_mods s) serial]"])
    (auto simp: advertise_modifier_state_def kbd_emit_def split: option.splits)

lemma kbd_step_sees:
  assumes "kbd_step lib api s s'" "sees_forwarded s" "kb_grab s = Grab_none"
  shows "sees_forwarded s'"
  using assms
proof (cases rule: kbd_step.cases)
  case (ks_input alive fltr source k st serial r)
  show ?thesis by (rule input_from_source_sees[OF ks_input assms(2,3)])
next
  case (ks_intercept fltr source k st r)
  show ?thesis by (rule input_intercept_sees[OF ks_intercept assms(2)])
next
  case (ks_forward alive k st serial mc)
  show ?thesis by (rule kbd_forward_sees(1)[OF ks_forward[unfolded input_forward_def] assms(2,3)])
next
  case (ks_bypass alive k st serial mc)
  show ?thesis by (rule kbd_forward_sees(1)[OF ks_bypass[unfolded input_forward_bypassing_grab_def] assms(2,3)])
next
  case (ks_release order alive source serial)
  show ?thesis by (rule release_source_sees[OF ks_release(3) assms(2,3)])
next
  case (ks_focus alive focus serial)
  show ?thesis by (rule kbd_set_focus_sees[OF ks_focus assms(2,3)])
next
  case (ks_set_grab grab serial)
  with assms(2) show ?thesis by (simp add: kbd_set_grab_def sees_forwarded_def)
next
  case ks_unset_grab
  with assms(2) show ?thesis by (simp add: kbd_unset_grab_def sees_forwarded_def)
next
  case (ks_keymap order x serial)
  show ?thesis unfolding ks_keymap(1) by (rule update_xkb_state_sees[OF assms(2)])
next
  case (ks_xkb callback serial)
  show ?thesis unfolding ks_xkb by (rule with_xkb_state_sees[OF assms(2)])
next
  case (ks_advertise serial)
  show ?thesis unfolding ks_advertise by (rule advertise_sees[OF assms(2)])
qed

lemma ungrabbed_sees:
  "(ungrabbed_step lib api)\<^sup>*\<^sup>* (kbd_new x m l) s \<Longrightarrow> sees_forwarded s \<and> kb_grab s = Grab_none"
proof (induction rule: rtranclp_induct)
  case base
  show ?case by (simp add: sees_forwarded_def kbd_new_def client_view_def)
qed (auto simp: ungrabbed_step_def intro: kbd_step_sees)

text \<open>C7. While no grab intercepts the keyboard, the focused target believes exactly the forwarded keys
  to be pressed, and no other target believes that it has the focus, across all changes of focus,
  filters, sources and keymaps. This is the view of a client whose \<open>wl_keyboard\<close> exists before the focus
  enters it, without injected text: the runs exclude \<open>new_kbd\<close>, which tells a keyboard bound while the
  client has the focus all pressed keys instead of the forwarded ones, and \<open>inject_text_keysyms\<close>.\<close>

theorem keyboard_client_sees_forwarded:
  assumes "(ungrabbed_step lib api)\<^sup>*\<^sup>* (kbd_new x m l) s"
  shows "client_view (kb_log s) = map_option (\<lambda>(focus, _). (focus, kb_forwarded s)) (kb_focus s)"
  using ungrabbed_sees[OF assms] by (simp add: sees_forwarded_def)

section \<open>Several sources\<close>

text \<open>The keys as the hardware has them: which source holds which key.\<close>

definition held :: "('s, 'x, 'm, 'l, 'g) kbd \<Rightarrow> (keyboard_source \<times> keycode) set" where
  "held s = {(source, k). \<exists>h. kb_key_sources s k = Some h \<and> source \<in> h}"

definition sources_ok :: "('s, 'x, 'm, 'l, 'g) kbd \<Rightarrow> bool" where
  "sources_ok s \<longleftrightarrow> (\<forall>k. kb_key_sources s k \<noteq> Some {}) \<and> kb_pressed_keys s = dom (kb_key_sources s)"

lemma held_key: "sources_ok s \<Longrightarrow> k \<in> snd ` held s \<longleftrightarrow> kb_key_sources s k \<noteq> None"
proof -
  assume ok: "sources_ok s"
  have "k \<in> snd ` held s \<longleftrightarrow> (\<exists>source h. kb_key_sources s k = Some h \<and> source \<in> h)" by (force simp: held_def)
  also have "\<dots> \<longleftrightarrow> kb_key_sources s k \<noteq> None"
  proof (cases "kb_key_sources s k")
    case (Some h)
    then have "h \<noteq> {}" using ok by (auto simp: sources_ok_def)
    then show ?thesis by (auto simp: Some)
  qed simp
  finally show ?thesis .
qed

lemma sources_ok_pressed: "sources_ok s \<Longrightarrow> kb_pressed_keys s = snd ` held s"
  using held_key[of s] by (auto simp: sources_ok_def dom_def)

lemma track_key_abstract:
  assumes "track_key source k st s = (s', d)" "sources_ok s"
  shows "sources_ok s' \<and> held s' = (case st of Pressed \<Rightarrow> insert (source, k) (held s) | Released \<Rightarrow> held s - {(source, k)}) \<and>
    d = (if (k \<in> snd ` held s') = (k \<in> snd ` held s) then None else Some (if st = Pressed then Down else Up))"
proof -
  have ok: "sources_ok s'"
    using assms by (auto simp: track_key_def sources_ok_def Let_def split: key_state.splits option.splits if_splits)
  have h: "held s' = (case st of Pressed \<Rightarrow> insert (source, k) (held s) | Released \<Rightarrow> held s - {(source, k)})"
    using assms by (auto simp: track_key_def held_def Let_def split: key_state.splits option.splits if_splits)
  have "d = (if (kb_key_sources s' k \<noteq> None) = (kb_key_sources s k \<noteq> None) then None else Some (if st = Pressed then Down else Up))"
    using assms by (auto simp: track_key_def sources_ok_def Let_def split: key_state.splits option.splits if_splits)
  then have "d = (if (k \<in> snd ` held s') = (k \<in> snd ` held s) then None else Some (if st = Pressed then Down else Up))"
    unfolding held_key[OF assms(2)] held_key[OF ok] .
  with ok h show ?thesis by blast
qed

definition held_after :: "keyboard_source \<Rightarrow> keycode \<Rightarrow> key_state \<Rightarrow> (keyboard_source \<times> keycode) set \<Rightarrow> (keyboard_source \<times> keycode) set" where
  "held_after source k st hs = (case st of Pressed \<Rightarrow> insert (source, k) hs | Released \<Rightarrow> hs - {(source, k)})"

lemma held_same: "kb_key_sources s' = kb_key_sources s \<Longrightarrow> held s' = held s"
  by (simp add: held_def)

lemma sources_ok_same:
  "kb_key_sources s' = kb_key_sources s \<Longrightarrow> kb_pressed_keys s' = kb_pressed_keys s \<Longrightarrow> sources_ok s' = sources_ok s"
  by (simp add: sources_ok_def)

lemma key_input_abstract:
  assumes "key_input lib source k st s = (s', mc, lc, tr)" "sources_ok s"
  shows "sources_ok s' \<and> held s' = held_after source k st (held s) \<and>
    (tr \<longleftrightarrow> (k \<in> kb_pressed_keys s') \<noteq> (k \<in> kb_pressed_keys s)) \<and>
    kb_xkb s' = (if tr then fst (xkb_update_key lib (kb_xkb s) k (if st = Pressed then Down else Up)) else kb_xkb s)"
proof -
  obtain t d where t: "track_key source k st s = (t, d)" by fastforce
  note abs = track_key_abstract[OF t assms(2)]
  have x: "kb_xkb t = kb_xkb s"
    using t by (auto simp: track_key_def Let_def split: key_state.splits option.splits if_splits)
  have s': "kb_key_sources s' = kb_key_sources t \<and> kb_pressed_keys s' = kb_pressed_keys t \<and> (tr \<longleftrightarrow> d \<noteq> None) \<and>
     kb_xkb s' = (case d of None \<Rightarrow> kb_xkb t | Some dir \<Rightarrow> fst (xkb_update_key lib (kb_xkb t) k dir))"
  proof (cases d)
    case None
    with assms(1) show ?thesis by (simp add: key_input_def t)
  next
    case (Some dir)
    obtain y m where y: "xkb_update_key lib (kb_xkb t) k dir = (y, m)" by fastforce
    obtain l c where l: "xkb_update_leds lib (kb_leds t) y = (l, c)" by fastforce
    from assms(1) show ?thesis by (auto simp: key_input_def t Some y l Let_def)
  qed
  have ok: "sources_ok t" using abs by blast
  have p: "kb_pressed_keys s' = snd ` held t" "kb_pressed_keys s = snd ` held s"
    using s' sources_ok_pressed[OF ok] sources_ok_pressed[OF assms(2)] by simp_all
  have "sources_ok s'" "held s' = held t" using s' ok sources_ok_same[of s' t] held_same[of s' t] by simp_all
  moreover have "tr \<longleftrightarrow> (k \<in> kb_pressed_keys s') \<noteq> (k \<in> kb_pressed_keys s)"
    using abs s' unfolding p by (metis option.distinct(1))
  moreover have "kb_xkb s' = (if tr then fst (xkb_update_key lib (kb_xkb s) k (if st = Pressed then Down else Up)) else kb_xkb s)"
    using abs s' x by (auto split: if_splits)
  ultimately show ?thesis using abs by (simp add: held_after_def)
qed

lemma input_intercept_abstract:
  assumes "input_intercept lib fltr source k st s = (s', r)" "sources_ok s"
  shows "sources_ok s' \<and> held s' = held_after source k st (held s) \<and> (r \<noteq> None \<longleftrightarrow> (k \<in> kb_pressed_keys s') \<noteq> (k \<in> kb_pressed_keys s))"
proof -
  obtain t mc lc tr where k: "key_input lib source k st s = (t, mc, lc, tr)" by (metis prod.collapse)
  have s': "s' = (if lc then kbd_emit [Kb_led_state_changed (kb_leds t)] t else t)" "r \<noteq> None \<longleftrightarrow> tr"
    using assms(1) by (auto simp: input_intercept_def k Let_def split: if_splits)
  then have "kb_key_sources s' = kb_key_sources t" "kb_pressed_keys s' = kb_pressed_keys t" by (simp_all add: kbd_emit_def)
  then show ?thesis
    using key_input_abstract[OF k assms(2)] s'(2) sources_ok_same[of s' t] held_same[of s' t] by simp
qed

text \<open>Forwarding, grabs and focus do not touch the keys that are held.\<close>

definition same_keys :: "('s, 'x, 'm, 'l, 'g) kbd \<Rightarrow> ('s, 'x, 'm, 'l, 'g) kbd \<Rightarrow> bool" where
  "same_keys s s' \<longleftrightarrow> kb_key_sources s' = kb_key_sources s \<and> kb_pressed_keys s' = kb_pressed_keys s"

lemma same_keys_trans: "same_keys s t \<Longrightarrow> same_keys t u \<Longrightarrow> same_keys s u"
  by (simp add: same_keys_def)

lemma same_keys_ok: "same_keys s s' \<Longrightarrow> sources_ok s' = sources_ok s" "same_keys s s' \<Longrightarrow> held s' = held s"
  by (simp_all add: same_keys_def sources_ok_def held_def)

lemma inner_same_keys: "same_keys s (inner_input k st m i s)" "same_keys s (inner_set_focus f i s)"
  by (auto simp: same_keys_def inner_input_def inner_set_focus_def kbd_emit_def Let_def split: option.split)

interpretation same: kbd_relation "same_keys :: ('s, 'x, 'm, 'l, 'g) kbd \<Rightarrow> ('s, 'x, 'm, 'l, 'g) kbd \<Rightarrow> bool"
  by unfold_locales (fact same_keys_trans inner_same_keys | simp add: same_keys_def)+

text \<open>The releases of a source: what it held is no longer held, and the keys that went up are reported.\<close>

lemma release_keys_abstract:
  "release_keys lib source ks s = (s', ts) \<Longrightarrow> sources_ok s \<Longrightarrow>
   sources_ok s' \<and> held s' = held s - {source} \<times> set ks \<and> kb_pressed_keys s \<subseteq> kb_pressed_keys s' \<union> set ts"
proof (induction lib source ks s arbitrary: s' ts rule: release_keys.induct)
  case (2 lib source k ks s)
  obtain t mc lc tr where t: "key_input lib source k Released s = (t, mc, lc, tr)" by (metis prod.collapse)
  obtain u us where u: "release_keys lib source ks t = (u, us)" by fastforce
  have s': "s' = u" "ts = (if tr then k # us else us)" using 2(2) by (simp_all add: t u)
  note abs = key_input_abstract[OF t 2(3)]
  then have IH: "sources_ok u \<and> held u = held t - {source} \<times> set ks \<and> kb_pressed_keys t \<subseteq> kb_pressed_keys u \<union> set us"
    using 2(1)[OF t[symmetric] refl refl refl u] by blast
  have h: "held t = held s - {(source, k)}" using abs by (simp add: held_after_def)
  have "kb_pressed_keys s - {k} \<subseteq> kb_pressed_keys t"
    using abs sources_ok_pressed[of s] sources_ok_pressed[of t] 2(3) by (auto simp: h)
  moreover have "k \<in> kb_pressed_keys s \<Longrightarrow> k \<in> kb_pressed_keys t \<or> tr" using abs by blast
  ultimately have "kb_pressed_keys s \<subseteq> kb_pressed_keys u \<union> set ts" using IH by (auto simp: s')
  then show ?case using IH by (auto simp: s' h)
qed auto

lemma release_source_keys_abstract:
  assumes "release_source_keys lib order source s = (s', ts)" "sources_ok s" "set order = dom (kb_key_sources s)"
  shows "sources_ok s'" "held s' = held s - {source} \<times> UNIV" "kb_pressed_keys s \<subseteq> kb_pressed_keys s' \<union> set ts"
proof -
  note abs = release_keys_abstract[OF assms(1)[unfolded release_source_keys_def] assms(2)]
  then show "sources_ok s'" "kb_pressed_keys s \<subseteq> kb_pressed_keys s' \<union> set ts" by blast+
  have "(source, k) \<in> held s \<Longrightarrow> k \<in> set (filter (\<lambda>k. case kb_key_sources s k of None \<Rightarrow> False | Some h \<Rightarrow> source \<in> h) order)" for k
    using assms(3) by (auto simp: held_def)
  then show "held s' = held s - {source} \<times> UNIV" using abs by blast
qed

lemma neutral_same_keys:
  "same_keys s (update_xkb_state lib x order i s)" "same_keys s (with_xkb_state cb i s)" "same_keys s (advertise_modifier_state i s)"
  "same_keys s (kbd_set_grab g i s)" "same_keys s (kbd_unset_grab s)"
  by (auto simp: same_keys_def update_xkb_state_def with_xkb_state_def advertise_modifier_state_def kbd_set_grab_def
      kbd_unset_grab_def kbd_emit_def Let_def split: option.split prod.split)

lemma input_from_source_abstract:
  assumes "input_from_source alive api lib fltr source k st i s = Some (s', r)" "sources_ok s"
  shows "sources_ok s'" "held s' = held_after source k st (held s)"
proof -
  obtain t q where t: "input_intercept lib fltr source k st s = (t, q)" by fastforce
  note abs = input_intercept_abstract[OF t assms(2)]
  have "same_keys t s'"
    using assms(1) by (auto simp: input_from_source_def t input_forward_def split: option.splits prod.splits filter_result.splits
        intro: same.refl same.forward)
  from same_keys_ok[OF this] abs show "sources_ok s'" "held s' = held_after source k st (held s)" by simp_all
qed

lemma kbd_step_sources_ok:
  assumes "kbd_step lib api s s'" "sources_ok s"
  shows "sources_ok s'"
  using assms
proof (cases rule: kbd_step.cases)
  case (ks_input alive fltr source k st serial r)
  show ?thesis by (rule input_from_source_abstract(1)[OF ks_input assms(2)])
next
  case (ks_intercept fltr source k st r)
  show ?thesis using input_intercept_abstract[OF ks_intercept assms(2)] by blast
next
  case (ks_release order alive source serial)
  obtain t ts where t: "release_source_keys lib order source s = (t, ts)" by fastforce
  have "same_keys t s'" using ks_release(3) by (auto simp: release_source_def t intro: same.releases)
  then show ?thesis using release_source_keys_abstract(1)[OF t assms(2) ks_release(2)] same_keys_ok(1) by blast
next
  case (ks_forward alive k st serial mc)
  show ?thesis using same_keys_ok(1)[OF same.forward[OF ks_forward[unfolded input_forward_def]]] assms(2) by simp
next
  case (ks_bypass alive k st serial mc)
  show ?thesis using same_keys_ok(1)[OF same.forward[OF ks_bypass[unfolded input_forward_bypassing_grab_def]]] assms(2) by simp
next
  case (ks_focus alive focus serial)
  show ?thesis using same_keys_ok(1)[OF same.focus_request[OF ks_focus]] assms(2) by simp
qed (simp_all add: same_keys_ok(1)[OF neutral_same_keys(1)] same_keys_ok(1)[OF neutral_same_keys(2)] same_keys_ok(1)[OF neutral_same_keys(3)]
    same_keys_ok(1)[OF neutral_same_keys(4)] same_keys_ok(1)[OF neutral_same_keys(5)] assms(2))

lemma kbd_run_sources_ok: "(kbd_step lib api)\<^sup>*\<^sup>* (kbd_new x m l) s \<Longrightarrow> sources_ok s"
proof (induction rule: rtranclp_induct)
  case base
  show ?case by (simp add: sources_ok_def kbd_new_def)
qed (rule kbd_step_sources_ok)

lemma keyboard_combines_sources_facts:
  fixes s :: "('s, 'x, 'm, 'l, 'g) kbd"
  assumes "(kbd_step lib api)\<^sup>*\<^sup>* (kbd_new x m l) s"
    and "key_input lib source k st s = (s', mods_changed, leds_changed, is_transition)"
  shows "kb_pressed_keys s = snd ` held s"
    and "held s' = held_after source k st (held s)"
    and "is_transition \<longleftrightarrow> (k \<in> snd ` held s') \<noteq> (k \<in> snd ` held s)"
    and "kb_xkb s' = (if is_transition then fst (xkb_update_key lib (kb_xkb s) k (if st = Pressed then Down else Up)) else kb_xkb s)"
proof -
  have ok: "sources_ok s" by (rule kbd_run_sources_ok[OF assms(1)])
  note abs = key_input_abstract[OF assms(2) ok]
  show "kb_pressed_keys s = snd ` held s" by (rule sources_ok_pressed[OF ok])
  show "held s' = held_after source k st (held s)" using abs by blast
  show "is_transition \<longleftrightarrow> (k \<in> snd ` held s') \<noteq> (k \<in> snd ` held s)"
    using abs sources_ok_pressed[OF ok] sources_ok_pressed[of s'] by simp
  show "kb_xkb s' = (if is_transition then fst (xkb_update_key lib (kb_xkb s) k (if st = Pressed then Down else Up)) else kb_xkb s)"
    using abs by blast
qed

text \<open>C25. A key is pressed on the seat exactly while some source holds it. An input of one source changes
  only what that source holds; it is reported as a transition, and libxkbcommon is told, exactly when
  the first source presses the key or the last one releases it.\<close>

theorem keyboard_combines_sources:
  fixes s :: "('s, 'x, 'm, 'l, 'g) kbd"
  assumes "(kbd_step lib api)\<^sup>*\<^sup>* (kbd_new x m l) s"
    and "key_input lib source k st s = (s', mods_changed, leds_changed, is_transition)"
  shows "kb_pressed_keys s = snd ` held s \<and> held s' = held_after source k st (held s) \<and>
    (is_transition \<longleftrightarrow> (k \<in> snd ` held s') \<noteq> (k \<in> snd ` held s)) \<and>
    kb_xkb s' = (if is_transition then fst (xkb_update_key lib (kb_xkb s) k (if st = Pressed then Down else Up)) else kb_xkb s)"
  using keyboard_combines_sources_facts[OF assms] by (intro conjI)


end
