(* ===== verification/Keyboard_Run.thy ===== *)
theory Keyboard_Run
  imports Keyboard_Props
begin

text \<open>
  Whole runs of the keyboard: it never panics, keys do not stay pressed for a client, and what a late
  \<open>wl_keyboard\<close> is told; then runs on which the theorems about the keyboard are evaluated.
\<close>

section \<open>No panics\<close>

lemma inner_grab: "kb_grab (inner_input k st m i s) = kb_grab s" "kb_grab (inner_set_focus f i s) = kb_grab s"
  by (auto simp: inner_input_def inner_set_focus_def kbd_emit_def Let_def split: option.split)

lemma kbd_do_grab: "kb_grab s \<noteq> Grab_borrowed \<Longrightarrow> kb_grab (kbd_do op s) \<noteq> Grab_borrowed"
  by (cases op) (simp_all add: inner_grab Let_def)

lemma kbd_with_grab_total:
  fixes s :: "('a, 'b, 'c, 'd, 'e) kbd"
  assumes "kb_grab s \<noteq> Grab_borrowed"
  shows "\<exists>s'. kbd_with_grab alive api f dflt s = Some s' \<and> kb_grab s' \<noteq> Grab_borrowed"
proof -
  have put_back: "kb_grab (if kb_grab t = Grab_borrowed then t\<lparr>kb_grab := g\<rparr> else t) \<noteq> Grab_borrowed" if "g \<noteq> Grab_borrowed"
    for t :: "('a, 'b, 'c, 'd, 'e) kbd" and g using that by simp
  show ?thesis
  proof (cases "kb_grab s")
    case Grab_none
    then show ?thesis by (simp add: kbd_with_grab_def Let_def)
  next
    case (Grab_active i h)
    obtain h' ops where f: "f h (s\<lparr>kb_grab := Grab_borrowed\<rparr>) = (h', ops)" by fastforce
    have "kb_grab (kbd_do dflt (s\<lparr>kb_grab := Grab_none\<rparr>)) \<noteq> Grab_borrowed" by (rule kbd_do_grab) simp
    then show ?thesis using put_back[of "Grab_active i h'"] by (simp add: kbd_with_grab_def Grab_active f Let_def)
  qed (use assms in simp)
qed

lemma kbd_forward_total:
  assumes "kb_grab s \<noteq> Grab_borrowed"
  shows "\<exists>s'. kbd_forward alive api k st i mc b s = Some s' \<and> kb_grab s' \<noteq> Grab_borrowed"
  by (cases b; cases mc) (simp_all add: kbd_forward_def Let_def inner_grab assms kbd_with_grab_total)

lemma forward_releases_total:
  "kb_grab s \<noteq> Grab_borrowed \<Longrightarrow> \<exists>s'. forward_releases alive api i ks s = Some s' \<and> kb_grab s' \<noteq> Grab_borrowed"
proof (induction ks arbitrary: s)
  case (Cons k ks)
  obtain t where "kbd_forward alive api k Released i True False s = Some t" "kb_grab t \<noteq> Grab_borrowed"
    using kbd_forward_total[OF Cons.prems] by blast
  then show ?case using Cons.IH[of t] by (simp add: input_forward_def)
qed simp

lemma input_from_source_total:
  assumes "kb_grab s \<noteq> Grab_borrowed"
  shows "\<exists>s' r. input_from_source alive api lib fltr source k st i s = Some (s', r) \<and> kb_grab s' \<noteq> Grab_borrowed"
proof -
  obtain t q where t: "input_intercept lib fltr source k st s = (t, q)" by fastforce
  have g: "kb_grab t \<noteq> Grab_borrowed" using assms input_intercept_extends(4)[OF t] by simp
  have "\<exists>s'. input_forward alive api k st i mc t = Some s' \<and> kb_grab s' \<noteq> Grab_borrowed" for mc
    using kbd_forward_total[OF g] by (simp add: input_forward_def)
  then have fwd: "\<exists>s' r. map_option (\<lambda>s. (s, None)) (input_forward alive api k st i mc t) = Some (s', r) \<and> kb_grab s' \<noteq> Grab_borrowed" for mc
    by fastforce
  show ?thesis using g fwd by (auto simp: input_from_source_def t split: option.split filter_result.split)
qed

lemma release_source_total:
  assumes "kb_grab s \<noteq> Grab_borrowed"
  shows "\<exists>s'. release_source alive api lib order source i s = Some s' \<and> kb_grab s' \<noteq> Grab_borrowed"
proof -
  obtain t ts where t: "release_source_keys lib order source s = (t, ts)" by fastforce
  have "kb_grab t \<noteq> Grab_borrowed" using assms release_source_keys_silent[OF t] by simp
  from forward_releases_total[OF this] show ?thesis by (simp add: release_source_def t)
qed

lemma kbd_set_focus_total:
  assumes "kb_grab s \<noteq> Grab_borrowed"
  shows "\<exists>s'. kbd_set_focus alive api focus i s = Some s' \<and> kb_grab s' \<noteq> Grab_borrowed"
  unfolding kbd_set_focus_def by (rule kbd_with_grab_total) (simp add: assms)

lemma the_someI: "\<exists>y. x = Some y \<and> P y \<Longrightarrow> x = Some z \<Longrightarrow> P z"
  by simp

lemma kbd_step_not_borrowed:
  assumes "kbd_step lib api s s'" "kb_grab s \<noteq> Grab_borrowed"
  shows "kb_grab s' \<noteq> Grab_borrowed"
  using assms
proof (cases rule: kbd_step.cases)
  case (ks_input alive fltr source k st serial r)
  then show ?thesis using input_from_source_total[OF assms(2), of alive api lib fltr source k st serial] by auto
next
  case (ks_intercept fltr source k st r)
  then show ?thesis using input_intercept_extends(4)[OF ks_intercept] assms(2) by simp
next
  case (ks_forward alive k st serial mc)
  show ?thesis by (rule the_someI[OF kbd_forward_total[OF assms(2)] ks_forward[unfolded input_forward_def]])
next
  case (ks_bypass alive k st serial mc)
  show ?thesis by (rule the_someI[OF kbd_forward_total[OF assms(2)] ks_bypass[unfolded input_forward_bypassing_grab_def]])
next
  case (ks_release order alive source serial)
  show ?thesis by (rule the_someI[OF release_source_total[OF assms(2)] ks_release(3)])
next
  case (ks_focus alive focus serial)
  show ?thesis by (rule the_someI[OF kbd_set_focus_total[OF assms(2)] ks_focus])
qed (auto simp: kbd_set_grab_def kbd_unset_grab_def update_xkb_state_def with_xkb_state_def advertise_modifier_state_def
    kbd_emit_def Let_def split: option.splits prod.splits)

lemma kbd_run_not_borrowed: "(kbd_step lib api)\<^sup>*\<^sup>* (kbd_new x m l) s \<Longrightarrow> kb_grab s \<noteq> Grab_borrowed"
  by (induction rule: rtranclp_induct) (simp add: kbd_new_def, rule kbd_step_not_borrowed)

section \<open>No key stays pressed\<close>

text \<open>Runs without grabs in which the filter lets the release of a key through when the press went through.\<close>

inductive fair_step :: "('x, 'm, 'l) xkb_lib \<Rightarrow> ('s, 'x, 'm, 'l, 'g) kbd_grab_api \<Rightarrow> ('s, 'x, 'm, 'l, 'g) kbd
    \<Rightarrow> ('s, 'x, 'm, 'l, 'g) kbd \<Rightarrow> bool" for lib api where
  fs_input: "input_from_source alive api lib (fltr :: _ \<Rightarrow> _ \<Rightarrow> _ \<Rightarrow> unit filter_result) source k st serial s = Some (s', r) \<Longrightarrow>
    (st = Released \<Longrightarrow> k \<in> kb_forwarded s \<Longrightarrow> \<forall>m x. fltr m x k = Forward) \<Longrightarrow> fair_step lib api s s'"
| fs_release: "distinct order \<Longrightarrow> set order = dom (kb_key_sources s) \<Longrightarrow>
    release_source alive api lib order source serial s = Some s' \<Longrightarrow> fair_step lib api s s'"
| fs_focus: "kbd_set_focus alive api focus serial s = Some s' \<Longrightarrow> fair_step lib api s s'"
| fs_keymap: "set order = kb_pressed_keys s \<Longrightarrow> fair_step lib api s (update_xkb_state lib x order serial s)"
| fs_xkb: "fair_step lib api s (with_xkb_state callback serial s)"

definition fair_inv :: "('s, 'x, 'm, 'l, 'g) kbd \<Rightarrow> bool" where
  "fair_inv s \<longleftrightarrow> sources_ok s \<and> sees_forwarded s \<and> kb_grab s = Grab_none \<and> kb_forwarded s \<subseteq> kb_pressed_keys s"

lemma filter_in_place:
  assumes "sources_ok s" "kb_forwarded s \<subseteq> kb_pressed_keys s"
    and "input_intercept lib fltr source k st s = (t, q)"
  shows "sources_ok t" "kb_forwarded t = kb_forwarded s" "kb_forwarded s - {k} \<subseteq> kb_pressed_keys t"
    and "q = None \<Longrightarrow> kb_forwarded s \<subseteq> kb_pressed_keys t"
    and "q \<noteq> None \<Longrightarrow> (k \<in> kb_pressed_keys t \<longleftrightarrow> st = Pressed)"
proof -
  note abs = input_intercept_abstract[OF assms(3,1)]
  have p: "kb_pressed_keys t = snd ` held t" "kb_pressed_keys s = snd ` held s"
    using abs assms(1) sources_ok_pressed by blast+
  show "sources_ok t" using abs by blast
  show f: "kb_forwarded t = kb_forwarded s" by (rule input_intercept_extends(3)[OF assms(3)])
  have h: "held t = held_after source k st (held s)" and r: "q \<noteq> None \<longleftrightarrow> (k \<in> kb_pressed_keys t) \<noteq> (k \<in> kb_pressed_keys s)"
    using abs by blast+
  have "x \<in> snd ` held t" if "x \<in> snd ` held s" "x \<noteq> k" for x
    using that unfolding h by (cases st) (auto simp: held_after_def image_iff)
  then have sub: "kb_pressed_keys s - {k} \<subseteq> kb_pressed_keys t" unfolding p by blast
  then show "kb_forwarded s - {k} \<subseteq> kb_pressed_keys t" using assms(2) by blast
  show "kb_forwarded s \<subseteq> kb_pressed_keys t" if "q = None" using sub assms(2) r that by auto
  have down: "k \<in> kb_pressed_keys t" if "st = Pressed"
    unfolding p(1) h that held_after_def by (simp add: image_iff)
  have up: "k \<in> kb_pressed_keys s" if "st = Released" "k \<in> kb_pressed_keys t"
    using that(2) unfolding p h that(1) held_after_def by auto
  show "k \<in> kb_pressed_keys t \<longleftrightarrow> st = Pressed" if "q \<noteq> None"
  proof (cases st)
    case Released
    then show ?thesis using r that up by auto
  qed (simp add: down)
qed

lemma fair_input:
  assumes "input_from_source alive api lib fltr source k st serial s = Some (s', r)" "fair_inv s"
    and fair: "st = Released \<Longrightarrow> k \<in> kb_forwarded s \<Longrightarrow> \<forall>m x. fltr m x k = Forward"
  shows "fair_inv s'"
proof -
  obtain t q where t: "input_intercept lib fltr source k st s = (t, q)" by fastforce
  have s: "sources_ok s" "sees_forwarded s" "kb_grab s = Grab_none" "kb_forwarded s \<subseteq> kb_pressed_keys s"
    using assms(2) by (simp_all add: fair_inv_def)
  note p = filter_in_place[OF s(1,4) t]
  have v: "sees_forwarded t" "kb_grab t = Grab_none"
    using input_intercept_sees[OF t s(2)] input_intercept_extends(4)[OF t] s(3) by simp_all
  consider "q = None" "s' = t" | val mc where "q = Some (Intercept val, mc)" "s' = t"
    | mc where "q = Some (Forward, mc)" "kbd_forward alive api k st serial mc False t = Some s'"
    using assms(1) by (auto simp: input_from_source_def t input_forward_def split: option.splits filter_result.splits)
  then show ?thesis
  proof cases
    case 1
    then show ?thesis using p v by (simp add: fair_inv_def)
  next
    case 2
    have "fltr (kb_mods t) (kb_xkb t) k = Intercept val"
      using t 2(1) by (auto simp: input_intercept_def Let_def split: prod.splits if_splits)
    then have "\<not> (st = Released \<and> k \<in> kb_forwarded s)" using fair by auto
    then have "kb_forwarded s \<subseteq> kb_pressed_keys t" using p(3,5) 2(1) by (cases st) auto
    then show ?thesis using p v 2(2) by (simp add: fair_inv_def)
  next
    case 3
    note f = kbd_forward_sees[OF 3(2) v]
    have "kb_forwarded s' \<subseteq> kb_pressed_keys t" using p(2,3,5) 3(1) f(5) by (cases st) auto
    moreover have "sources_ok s'" using same_keys_ok(1)[OF same.forward[OF 3(2)]] p(1) by simp
    ultimately show ?thesis using f by (simp add: fair_inv_def)
  qed
qed

lemma fair_release:
  assumes "set order = dom (kb_key_sources s)" "release_source alive api lib order source serial s = Some s'" "fair_inv s"
  shows "fair_inv s'"
proof -
  obtain t ts where t: "release_source_keys lib order source s = (t, ts)" by fastforce
  have s: "sources_ok s" "sees_forwarded s" "kb_grab s = Grab_none" "kb_forwarded s \<subseteq> kb_pressed_keys s"
    using assms(3) by (simp_all add: fair_inv_def)
  have f: "forward_releases alive api serial ts t = Some s'" using assms(2) by (simp add: release_source_def t)
  have v: "sees_forwarded t" "kb_grab t = Grab_none" "kb_forwarded t = kb_forwarded s"
    using release_source_keys_silent[OF t] s by (simp_all add: sees_forwarded_def)
  note abs = release_source_keys_abstract[OF t s(1) assms(1)] and r = forward_releases_sees[OF f v(1,2)]
  have "kb_forwarded s' \<subseteq> kb_pressed_keys s'" using r v(3) s(4) abs(3) by auto
  moreover have "sources_ok s'" using same_keys_ok(1)[OF same.releases[OF f]] abs(1) by simp
  ultimately show ?thesis using r by (simp add: fair_inv_def)
qed

lemma fair_inv_same:
  assumes "same_keys s s'" "kb_forwarded s' = kb_forwarded s" "kb_grab s' = kb_grab s" "sees_forwarded s'" "fair_inv s"
  shows "fair_inv s'"
  using assms same_keys_ok(1)[OF assms(1)] by (simp add: fair_inv_def same_keys_def)

lemma fair_step_inv:
  assumes "fair_step lib api s s'" "fair_inv s"
  shows "fair_inv s'"
  using assms
proof (cases rule: fair_step.cases)
  case (fs_input alive fltr source k st serial r)
  show ?thesis by (rule fair_input[OF fs_input(1) assms(2) fs_input(2)])
next
  case (fs_release order alive source serial)
  show ?thesis by (rule fair_release[OF fs_release(2,3) assms(2)])
next
  case (fs_focus alive focus serial)
  have g: "kb_grab s = Grab_none" "sees_forwarded s" using assms(2) by (simp_all add: fair_inv_def)
  have "s' = inner_set_focus focus serial (s\<lparr>kb_pending_focus := focus\<rparr>)"
    using fs_focus g(1) by (simp add: kbd_set_focus_def kbd_with_grab_none)
  then have "kb_forwarded s' = kb_forwarded s" "kb_grab s' = kb_grab s"
    by (auto simp: inner_grab inner_set_focus_def kbd_emit_def Let_def split: option.split)
  then show ?thesis
    by (rule fair_inv_same[OF same.focus_request[OF fs_focus] _ _ kbd_set_focus_sees[OF fs_focus g(2,1)] assms(2)])
next
  case (fs_keymap order x serial)
  have "sees_forwarded s" using assms(2) by (simp add: fair_inv_def)
  then show ?thesis unfolding fs_keymap(1)
    by (intro fair_inv_same[OF neutral_same_keys(1) _ _ update_xkb_state_sees assms(2)])
      (auto simp: update_xkb_state_def kbd_emit_def Let_def split: option.split prod.split)
next
  case (fs_xkb callback serial)
  have "sees_forwarded s" using assms(2) by (simp add: fair_inv_def)
  then show ?thesis unfolding fs_xkb(1)
    by (intro fair_inv_same[OF neutral_same_keys(2) _ _ with_xkb_state_sees assms(2)])
      (auto simp: with_xkb_state_def kbd_emit_def Let_def split: option.split prod.split)
qed

text \<open>C26. No key sticks: when the filter forwards the release of each key whose press it forwarded, and no
  grab is active, then as soon as no source holds a key any more the focused client believes no key to
  be pressed, however sources, focus and keymaps changed in between. This is the view of a client whose
  \<open>wl_keyboard\<close> exists before the focus enters it, without injected text: the runs exclude \<open>new_kbd\<close>,
  with which a key can stick as \<open>late_keyboard_key_sticks\<close> shows, and \<open>inject_text_keysyms\<close>.\<close>

theorem keyboard_no_stuck_key:
  assumes "(fair_step lib api)\<^sup>*\<^sup>* (kbd_new x m l) s" "held s = {}"
  shows "client_view (kb_log s) = map_option (\<lambda>(focus, _). (focus, {})) (kb_focus s)"
proof -
  have "fair_inv s"
    using assms(1)
  proof (induction rule: rtranclp_induct)
    case base
    show ?case by (simp add: fair_inv_def sources_ok_def sees_forwarded_def kbd_new_def client_view_def)
  qed (rule fair_step_inv)
  moreover from this have "kb_forwarded s = {}" using sources_ok_pressed[of s] assms(2) by (simp add: fair_inv_def)
  ultimately show ?thesis by (simp add: fair_inv_def sees_forwarded_def)
qed

section \<open>Examples\<close>

text \<open>A library without modifiers and LEDs, and a grab that swallows everything.\<close>

definition demo_xkb :: "(unit, unit, unit) xkb_lib" where
  "demo_xkb = \<lparr>xkb_update_key = (\<lambda>x _ _. (x, False)), xkb_update_mods = (\<lambda>m _. m), xkb_update_leds = (\<lambda>l _. (l, False))\<rparr>"

type_synonym demo_kbd = "(nat, unit, unit, unit, unit) kbd"

definition demo_grabs :: "(nat, unit, unit, unit, unit) kbd_grab_api" where
  "demo_grabs = \<lparr>grab_start_focus = (\<lambda>_. None), grab_input = (\<lambda>g _ _ _ _ _. (g, [])), grab_set_focus = (\<lambda>g _ _ _. (g, []))\<rparr>"

definition demo_focus :: "nat \<Rightarrow> demo_kbd \<Rightarrow> demo_kbd" where
  "demo_focus f s = the (kbd_set_focus (\<lambda>_. True) demo_grabs (Some f) (Serial 1) s)"

definition demo_input :: "bool \<Rightarrow> keyboard_source \<Rightarrow> keycode \<Rightarrow> key_state \<Rightarrow> demo_kbd \<Rightarrow> demo_kbd" where
  "demo_input fwd source k st s = fst (the (input_from_source (\<lambda>_. True) demo_grabs demo_xkb
     (\<lambda>_ _ _. if fwd then Forward else Intercept ()) source k st (Serial 2) s))"

lemma demo_focus_some:
  "kb_grab s \<noteq> Grab_borrowed \<Longrightarrow> kbd_set_focus (\<lambda>_. True) demo_grabs (Some f) (Serial 1) s = Some (demo_focus f s)"
  using kbd_set_focus_total[of s "\<lambda>_. True" demo_grabs "Some f" "Serial 1"] by (auto simp: demo_focus_def)

lemma demo_input_some:
  assumes "kb_grab s \<noteq> Grab_borrowed"
  shows "\<exists>r. input_from_source (\<lambda>_. True) demo_grabs demo_xkb (\<lambda>_ _ _. if fwd then Forward else Intercept ()) source k st (Serial 2) s
    = Some (demo_input fwd source k st s, r)"
  using input_from_source_total[OF assms, of "\<lambda>_. True" demo_grabs demo_xkb "\<lambda>_ _ _. if fwd then Forward else Intercept ()" source k st "Serial 2"]
  by (auto simp: demo_input_def)

lemma demo_fair:
  "kb_grab s \<noteq> Grab_borrowed \<Longrightarrow> fair_step demo_xkb demo_grabs s (demo_focus f s)"
  "kb_grab s \<noteq> Grab_borrowed \<Longrightarrow> fair_step demo_xkb demo_grabs s (demo_input True source k st s)"
  using demo_input_some[of s True source k st] by (auto intro: fs_focus[OF demo_focus_some] fs_input)

lemma demo_kbd_step:
  "kb_grab s \<noteq> Grab_borrowed \<Longrightarrow> kbd_step demo_xkb demo_grabs s (demo_focus f s)"
  "kb_grab s \<noteq> Grab_borrowed \<Longrightarrow> kbd_step demo_xkb demo_grabs s (demo_input fwd source k st s)"
  using demo_input_some[of s fwd source k st] by (auto intro: ks_focus[OF demo_focus_some] ks_input)

text \<open>A key held by two sources while the focus moves; then one source releases it, then the other.\<close>

definition demo_two :: demo_kbd where
  "demo_two = demo_focus 8 (demo_input True (Auxiliary 1) 30 Pressed (demo_input True Physical 30 Pressed (demo_focus 7 (kbd_new () () ()))))"

definition demo_end :: demo_kbd where
  "demo_end = demo_input True (Auxiliary 1) 30 Released (demo_input True Physical 30 Released demo_two)"

lemma demo_grab_none: "kb_grab s = Grab_none \<Longrightarrow> kb_grab (demo_focus f s) = Grab_none"
  "kb_grab s = Grab_none \<Longrightarrow> kb_grab (demo_input fwd source k st s) = Grab_none"
proof -
  show "kb_grab s = Grab_none \<Longrightarrow> kb_grab (demo_focus f s) = Grab_none"
    by (simp add: demo_focus_def kbd_set_focus_def kbd_with_grab_none inner_grab)
  assume g: "kb_grab s = Grab_none"
  obtain t q where t: "input_intercept demo_xkb (\<lambda>_ _ _. if fwd then Forward else Intercept ()) source k st s = (t, q)" by fastforce
  have "kb_grab t = Grab_none" using g input_intercept_extends(4)[OF t] by simp
  then show "kb_grab (demo_input fwd source k st s) = Grab_none"
    by (auto simp: demo_input_def input_from_source_def t input_forward_def kbd_forward_def Let_def kbd_with_grab_none inner_grab
        split: option.split filter_result.split)
qed

lemma kbd_new_grab: "kb_grab (kbd_new x m l) = Grab_none"
  by (simp add: kbd_new_def)

text \<open>Both states are reached by any step relation that these operations satisfy.\<close>

lemma demo_reached:
  assumes f: "\<And>s f. kb_grab s = Grab_none \<Longrightarrow> R s (demo_focus f s)"
    and i: "\<And>s source k st. kb_grab s = Grab_none \<Longrightarrow> R s (demo_input True source k st s)"
  shows "R\<^sup>*\<^sup>* (kbd_new () () ()) demo_two" "R\<^sup>*\<^sup>* (kbd_new () () ()) demo_end"
proof -
  have ff: "R\<^sup>*\<^sup>* t (demo_focus f s)" if "R\<^sup>*\<^sup>* t s" "kb_grab s = Grab_none" for s t f
    by (rule rtranclp.rtrancl_into_rtrancl[of R t s, OF that(1) f[OF that(2)]])
  have ii: "R\<^sup>*\<^sup>* t (demo_input True source k st s)" if "R\<^sup>*\<^sup>* t s" "kb_grab s = Grab_none" for s t source k st
    by (rule rtranclp.rtrancl_into_rtrancl[of R t s, OF that(1) i[OF that(2)]])
  show two: "R\<^sup>*\<^sup>* (kbd_new () () ()) demo_two"
    unfolding demo_two_def by (intro ff ii rtranclp.rtrancl_refl) (simp_all add: demo_grab_none kbd_new_grab)
  show "R\<^sup>*\<^sup>* (kbd_new () () ()) demo_end"
    unfolding demo_end_def by (intro ii two) (simp_all add: demo_two_def demo_grab_none kbd_new_grab)
qed

lemma demo_end_fair: "(fair_step demo_xkb demo_grabs)\<^sup>*\<^sup>* (kbd_new () () ()) demo_end"
  by (rule demo_reached(2)) (simp_all add: demo_fair)

lemma demo_two_run: "(kbd_step demo_xkb demo_grabs)\<^sup>*\<^sup>* (kbd_new () () ()) demo_two"
  by (rule demo_reached(1)) (simp_all add: demo_kbd_step)

lemma demo_two_ungrabbed: "(ungrabbed_step demo_xkb demo_grabs)\<^sup>*\<^sup>* (kbd_new () () ()) demo_two"
  by (rule demo_reached(1)) (simp_all add: ungrabbed_step_def demo_kbd_step demo_grab_none)

lemma demo_values:
  "kb_forwarded demo_two = {30}" "map_option fst (kb_focus demo_two) = Some 8" "map_option fst (kb_focus demo_end) = Some 8"
  "kb_pressed_keys demo_end = {}" "kb_log demo_two = [Kb_enter 7 {} (Serial 1), Kb_modifiers 7 () (Serial 1), Kb_focus_changed 7,
     Kb_key 7 30 Pressed (Serial 2), Kb_leave 7 (Serial 1), Kb_enter 8 {30} (Serial 1), Kb_modifiers 8 () (Serial 1), Kb_focus_changed 8]"
  by code_simp+

theorem keyboard_events_follow_focus_witness:
  "focus_trace None (kbd_events demo_two) = Some (Some 8) \<and>
   (\<exists>xs ys. [Enters 7, Sent 7, Elsewhere] = xs @ Enters (7 :: nat) # ys \<and> Leaves 7 \<notin> set ys)"
proof -
  note f = keyboard_events_follow_focus[OF demo_two_run]
  have "kbd_events demo_two = [Enters 7, Sent 7, Elsewhere] @ Sent 7 # [Leaves 7, Enters 8, Sent 8, Elsewhere]"
    by (simp add: kbd_events_def demo_values(5))
  with f have "\<exists>xs ys. [Enters 7, Sent 7, Elsewhere] = xs @ Enters (7 :: nat) # ys \<and> Leaves 7 \<notin> set ys" by blast
  with f show ?thesis by (simp add: kbd_target_def demo_values(2))
qed

theorem keyboard_client_sees_forwarded_witness: "client_view (kb_log demo_two) = Some (8, {30})"
  using keyboard_client_sees_forwarded[OF demo_two_ungrabbed] demo_values(1,2) by (auto split: option.splits)

theorem keyboard_combines_sources_witness:
  "\<exists>s' mc lc. key_input demo_xkb Physical 30 Released demo_two = (s', mc, lc, False) \<and> held s' = held demo_two - {(Physical, 30)}"
proof -
  obtain s' mc lc tr where k: "key_input demo_xkb Physical 30 Released demo_two = (s', mc, lc, tr)" by (metis prod.collapse)
  have "snd (snd (snd (key_input demo_xkb Physical 30 Released demo_two))) = False" by code_simp
  with k keyboard_combines_sources[OF demo_two_run k] show ?thesis by (auto simp: held_after_def)
qed

theorem keyboard_no_stuck_key_witness: "client_view (kb_log demo_end) = Some (8, {})"
proof -
  have "fair_inv demo_end"
    using demo_end_fair
  proof (induction rule: rtranclp_induct)
    case base
    show ?case by (simp add: fair_inv_def sources_ok_def sees_forwarded_def kbd_new_def client_view_def)
  qed (rule fair_step_inv)
  then have "held demo_end = {}" using sources_ok_pressed[of demo_end] demo_values(4) by (simp add: fair_inv_def)
  from keyboard_no_stuck_key[OF demo_end_fair this] demo_values(3) show ?thesis by (auto split: option.splits)
qed

section \<open>A keyboard that is created late\<close>

text \<open>
  A key whose press and release are both intercepted is told to a \<open>wl_keyboard\<close> that is created in
  between, because \<open>new_kbd\<close> sends all pressed keys and not the forwarded ones; no release follows.
\<close>

definition demo_late :: demo_kbd where
  "demo_late = demo_input False Physical 125 Pressed (demo_focus 7 (kbd_new () () ()))"

lemma late_keyboard_key_sticks:
  "foldl client_step None (new_kbd demo_late @ drop (length (kb_log demo_late)) (kb_log (demo_input False Physical 125 Released demo_late)))
     = Some (7, {125})"
  "kb_pressed_keys (demo_input False Physical 125 Released demo_late) = {}"
  "client_view (kb_log (demo_input False Physical 125 Released demo_late)) = Some (7, {})"
  by code_simp+

end
