(* ===== verification/Pointer.thy ===== *)
theory Pointer
  imports Focus Serials
begin

text \<open>
  The pointer of a seat, \<open>src/input/pointer/mod.rs\<close> and \<open>src/input/pointer/grab.rs\<close>: focus, location,
  pressed buttons, the default grab and the implicit grab of a click. Points are a type with
  subtraction. The code of other grabs is an argument; targets and callbacks are a log of events.
\<close>

section \<open>State\<close>

datatype button_state = Button_pressed | Button_released

datatype gesture = Swipe_begin | Swipe_update | Swipe_end | Pinch_begin | Pinch_update | Pinch_end | Hold_begin | Hold_end

datatype ('s, 'p) ptr_event =
  P_enter 's 'p serial
| P_leave 's serial
| P_motion 's 'p serial
| P_relative_motion 's
| P_button 's nat button_state serial
| P_axis 's
| P_frame 's
| P_gesture 's gesture
| P_default_cursor

text \<open>The implicit grab of a click with its start data, or another grab.\<close>

record ('s, 'p) grab_start_data =
  sd_focus :: "('s \<times> 'p) option"
  sd_button :: nat
  sd_location :: 'p

datatype ('s, 'p, 'g) ptr_grab = Click_grab "('s, 'p) grab_start_data" "('s \<times> 'p) option" | Other_grab 'g

datatype 'g ptr_grab_status = P_none | P_active serial 'g | P_borrowed

record ('s, 'p, 'g) ptr =
  pt_focus :: "('s \<times> 'p) option"
  pt_pending_focus :: "('s \<times> 'p) option"
  pt_location :: 'p
  pt_grab :: "('s, 'p, 'g) ptr_grab ptr_grab_status"
  pt_pressed :: "nat list"
  pt_log :: "('s, 'p) ptr_event list"

definition ptr_new :: "'p \<Rightarrow> ('s, 'p, 'g) ptr" where
  "ptr_new origin = \<lparr>pt_focus = None, pt_pending_focus = None, pt_location = origin, pt_grab = P_none, pt_pressed = [], pt_log = []\<rparr>"

definition ptr_emit :: "('s, 'p) ptr_event list \<Rightarrow> ('s, 'p, 'g) ptr \<Rightarrow> ('s, 'p, 'g) ptr" where
  "ptr_emit es s = s\<lparr>pt_log := pt_log s @ es\<rparr>"

section \<open>What reaches a target\<close>

definition ptr_motion :: "('s \<times> 'p :: minus) option \<Rightarrow> 'p \<Rightarrow> serial \<Rightarrow> ('s, 'p, 'g) ptr \<Rightarrow> ('s, 'p, 'g) ptr" where
  "ptr_motion focus location serial s =
     (let s = s\<lparr>pt_location := location\<rparr>
      in case focus of
           Some (focus, loc) \<Rightarrow>
             (let old_focus = pt_focus s; s = s\<lparr>pt_focus := Some (focus, loc)\<rparr>
              in case old_focus of
                   Some (old_focus, _) \<Rightarrow>
                     if focus = old_focus then ptr_emit [P_motion focus (location - loc) serial] s
                     else ptr_emit [P_leave old_focus serial, P_default_cursor, P_enter focus (location - loc) serial] s
                 | None \<Rightarrow> ptr_emit [P_enter focus (location - loc) serial] s)
         | None \<Rightarrow>
             (case pt_focus s of
                None \<Rightarrow> s
              | Some (old_focus, _) \<Rightarrow> ptr_emit [P_leave old_focus serial, P_default_cursor] (s\<lparr>pt_focus := None\<rparr>)))"

text \<open>Everything else goes to the focus, if there is one.\<close>

definition to_focus :: "('s \<Rightarrow> ('s, 'p) ptr_event) \<Rightarrow> ('s, 'p, 'g) ptr \<Rightarrow> ('s, 'p, 'g) ptr" where
  "to_focus event s = (case pt_focus s of None \<Rightarrow> s | Some (focused, _) \<Rightarrow> ptr_emit [event focused] s)"

definition ptr_relative_motion :: "('s, 'p, 'g) ptr \<Rightarrow> ('s, 'p, 'g) ptr" where
  "ptr_relative_motion = to_focus P_relative_motion"

definition ptr_gesture :: "gesture \<Rightarrow> ('s, 'p, 'g) ptr \<Rightarrow> ('s, 'p, 'g) ptr" where
  "ptr_gesture g = to_focus (\<lambda>f. P_gesture f g)"

definition inner_button :: "nat \<Rightarrow> button_state \<Rightarrow> serial \<Rightarrow> ('s, 'p, 'g) ptr \<Rightarrow> ('s, 'p, 'g) ptr" where
  "inner_button b st serial = to_focus (\<lambda>f. P_button f b st serial)"

definition inner_axis :: "('s, 'p, 'g) ptr \<Rightarrow> ('s, 'p, 'g) ptr" where
  "inner_axis = to_focus P_axis"

definition inner_frame :: "('s, 'p, 'g) ptr \<Rightarrow> ('s, 'p, 'g) ptr" where
  "inner_frame = to_focus P_frame"

section \<open>Grabs\<close>

datatype grab_focus = Keep | Clear

definition internal_set_grab :: "serial \<Rightarrow> ('s, 'p :: minus, 'g) ptr_grab \<Rightarrow> grab_focus \<Rightarrow> ('s, 'p, 'g) ptr \<Rightarrow> ('s, 'p, 'g) ptr" where
  "internal_set_grab serial grab focus s =
     (let s = s\<lparr>pt_grab := P_active serial grab\<rparr>
      in if focus = Clear then ptr_motion None (pt_location s) serial s else s)"

definition internal_unset_grab :: "serial \<Rightarrow> bool \<Rightarrow> ('s, 'p :: minus, 'g) ptr \<Rightarrow> ('s, 'p, 'g) ptr" where
  "internal_unset_grab serial restore_focus s =
     (let s = s\<lparr>pt_grab := P_none\<rparr>
      in if restore_focus then ptr_motion (pt_pending_focus s) (pt_location s) serial s else s)"

text \<open>The operations of the handle inside a grab.\<close>

datatype ('s, 'p, 'g) ptr_op =
  Po_motion "('s \<times> 'p) option" 'p serial
| Po_relative_motion
| Po_button nat button_state serial
| Po_axis
| Po_frame
| Po_gesture gesture
| Po_set_grab serial grab_focus "('s, 'p, 'g) ptr_grab"
| Po_unset_grab serial bool

fun ptr_do :: "('s, 'p :: minus, 'g) ptr_op \<Rightarrow> ('s, 'p, 'g) ptr \<Rightarrow> ('s, 'p, 'g) ptr" where
  "ptr_do (Po_motion focus location serial) s = ptr_motion focus location serial s"
| "ptr_do Po_relative_motion s = ptr_relative_motion s"
| "ptr_do (Po_button b st serial) s = inner_button b st serial s"
| "ptr_do Po_axis s = inner_axis s"
| "ptr_do Po_frame s = inner_frame s"
| "ptr_do (Po_gesture g) s = ptr_gesture g s"
| "ptr_do (Po_set_grab serial focus grab) s = internal_set_grab serial grab focus s"
| "ptr_do (Po_unset_grab serial restore_focus) s = internal_unset_grab serial restore_focus s"

text \<open>What a grab is told.\<close>

datatype ('s, 'p) ptr_input =
  In_motion "('s \<times> 'p) option" 'p serial
| In_relative_motion "('s \<times> 'p) option"
| In_button nat button_state serial
| In_axis
| In_frame
| In_gesture gesture

text \<open>The default grab; a press installs the implicit grab.\<close>

fun default_grab :: "('s, 'p) ptr_input \<Rightarrow> ('s, 'p, 'g) ptr \<Rightarrow> ('s, 'p, 'g) ptr_op list" where
  "default_grab (In_motion focus location serial) s = [Po_motion focus location serial]"
| "default_grab (In_relative_motion focus) s = [Po_relative_motion]"
| "default_grab (In_button b st serial) s =
     Po_button b st serial #
       (if st = Button_pressed
        then [Po_set_grab serial Keep (Click_grab \<lparr>sd_focus = pt_focus s, sd_button = b, sd_location = pt_location s\<rparr> (pt_focus s))]
        else [])"
| "default_grab In_axis s = [Po_axis]"
| "default_grab In_frame s = [Po_frame]"
| "default_grab (In_gesture g) s = [Po_gesture g]"

text \<open>The implicit grab: motions keep its focus, and it ends when no button is pressed.\<close>

definition click_focus :: "('s \<times> 'p) option \<Rightarrow> ('s \<times> 'p) option \<Rightarrow> ('s \<times> 'p) option" where
  "click_focus focus grab_focus =
     (case (focus, grab_focus) of
        (Some (new_target, new_location), Some (grab_target, grab_location)) \<Rightarrow>
          Some (grab_target, if new_target = grab_target then new_location else grab_location)
      | _ \<Rightarrow> grab_focus)"

fun click_grab :: "('s, 'p) ptr_input \<Rightarrow> ('s \<times> 'p) option \<Rightarrow> ('s, 'p, 'g) ptr \<Rightarrow> ('s \<times> 'p) option \<times> ('s, 'p, 'g) ptr_op list" where
  "click_grab (In_motion focus location serial) grab s = (let grab = click_focus focus grab in (grab, [Po_motion grab location serial]))"
| "click_grab (In_relative_motion focus) grab s = (grab, [Po_relative_motion])"
| "click_grab (In_button b st serial) grab s =
     (grab, Po_button b st serial # (if pt_pressed s = [] then [Po_unset_grab serial False] else []))"
| "click_grab In_axis grab s = (grab, [Po_axis])"
| "click_grab In_frame grab s = (grab, [Po_frame])"
| "click_grab (In_gesture g) grab s = (grab, [Po_gesture g])"

text \<open>Other grabs: their start data and what they do for an input.\<close>

record ('s, 'p, 'g) ptr_grab_api =
  pg_start_focus :: "'g \<Rightarrow> ('s \<times> 'p) option"
  pg_handle :: "'g \<Rightarrow> ('s, 'p) ptr_input \<Rightarrow> ('s, 'p, 'g) ptr \<Rightarrow> 'g \<times> ('s, 'p, 'g) ptr_op list"

fun grab_start_focus_of :: "('s, 'p, 'g) ptr_grab_api \<Rightarrow> ('s, 'p, 'g) ptr_grab \<Rightarrow> ('s \<times> 'p) option" where
  "grab_start_focus_of api (Click_grab start _) = sd_focus start"
| "grab_start_focus_of api (Other_grab g) = pg_start_focus api g"

fun grab_handle :: "('s, 'p, 'g) ptr_grab_api \<Rightarrow> ('s, 'p) ptr_input \<Rightarrow> ('s, 'p, 'g) ptr_grab \<Rightarrow> ('s, 'p, 'g) ptr
    \<Rightarrow> ('s, 'p, 'g) ptr_grab \<times> ('s, 'p, 'g) ptr_op list" where
  "grab_handle api input (Click_grab start focus) s = (let (focus', ops) = click_grab input focus s in (Click_grab start focus', ops))"
| "grab_handle api input (Other_grab g) s = (let (g', ops) = pg_handle api g input s in (Other_grab g', ops))"

text \<open>\<open>with_grab\<close> is None where the code panics.\<close>

definition ptr_with_grab :: "('s \<Rightarrow> bool) \<Rightarrow> ('s, 'p :: minus, 'g) ptr_grab_api \<Rightarrow> ('s, 'p) ptr_input \<Rightarrow> ('s, 'p, 'g) ptr
    \<Rightarrow> ('s, 'p, 'g) ptr option" where
  "ptr_with_grab alive api input s =
     (let grab = pt_grab s; s = s\<lparr>pt_grab := P_borrowed\<rparr>
      in case grab of
           P_borrowed \<Rightarrow> None
         | P_active serial handler \<Rightarrow>
             if (case grab_start_focus_of api handler of Some (focus, _) \<Rightarrow> \<not> alive focus | None \<Rightarrow> False)
             then (let s = s\<lparr>pt_grab := P_none\<rparr> in Some (fold ptr_do (default_grab input s) s))
             else (let (handler', ops) = grab_handle api input handler s; s = fold ptr_do ops s
                   in Some (if pt_grab s = P_borrowed then s\<lparr>pt_grab := P_active serial handler'\<rparr> else s))
         | P_none \<Rightarrow>
             (let s = fold ptr_do (default_grab input s) s
              in Some (if pt_grab s = P_borrowed then s\<lparr>pt_grab := P_none\<rparr> else s)))"

section \<open>The handle of the compositor\<close>

definition pointer_motion :: "('s \<Rightarrow> bool) \<Rightarrow> ('s, 'p :: minus, 'g) ptr_grab_api \<Rightarrow> ('s \<times> 'p) option \<Rightarrow> 'p \<Rightarrow> serial \<Rightarrow> ('s, 'p, 'g) ptr
    \<Rightarrow> ('s, 'p, 'g) ptr option" where
  "pointer_motion alive api focus location serial s =
     ptr_with_grab alive api (In_motion focus location serial) (s\<lparr>pt_pending_focus := focus\<rparr>)"

definition pointer_relative_motion :: "('s \<Rightarrow> bool) \<Rightarrow> ('s, 'p :: minus, 'g) ptr_grab_api \<Rightarrow> ('s \<times> 'p) option \<Rightarrow> ('s, 'p, 'g) ptr
    \<Rightarrow> ('s, 'p, 'g) ptr option" where
  "pointer_relative_motion alive api focus s =
     ptr_with_grab alive api (In_relative_motion focus) (s\<lparr>pt_pending_focus := focus\<rparr>)"

definition pointer_button :: "('s \<Rightarrow> bool) \<Rightarrow> ('s, 'p :: minus, 'g) ptr_grab_api \<Rightarrow> nat \<Rightarrow> button_state \<Rightarrow> serial \<Rightarrow> ('s, 'p, 'g) ptr
    \<Rightarrow> ('s, 'p, 'g) ptr option" where
  "pointer_button alive api b st serial s =
     (let s = s\<lparr>pt_pressed := (case st of Button_pressed \<Rightarrow> pt_pressed s @ [b] | Button_released \<Rightarrow> filter (\<lambda>b'. b' \<noteq> b) (pt_pressed s))\<rparr>
      in ptr_with_grab alive api (In_button b st serial) s)"

definition pointer_axis :: "('s \<Rightarrow> bool) \<Rightarrow> ('s, 'p :: minus, 'g) ptr_grab_api \<Rightarrow> ('s, 'p, 'g) ptr \<Rightarrow> ('s, 'p, 'g) ptr option" where
  "pointer_axis alive api s = ptr_with_grab alive api In_axis s"

definition pointer_frame :: "('s \<Rightarrow> bool) \<Rightarrow> ('s, 'p :: minus, 'g) ptr_grab_api \<Rightarrow> ('s, 'p, 'g) ptr \<Rightarrow> ('s, 'p, 'g) ptr option" where
  "pointer_frame alive api s = ptr_with_grab alive api In_frame s"

definition pointer_gesture :: "('s \<Rightarrow> bool) \<Rightarrow> ('s, 'p :: minus, 'g) ptr_grab_api \<Rightarrow> gesture \<Rightarrow> ('s, 'p, 'g) ptr \<Rightarrow> ('s, 'p, 'g) ptr option" where
  "pointer_gesture alive api g s = ptr_with_grab alive api (In_gesture g) s"

definition pointer_set_grab :: "('s, 'p :: minus, 'g) ptr_grab \<Rightarrow> serial \<Rightarrow> grab_focus \<Rightarrow> ('s, 'p, 'g) ptr \<Rightarrow> ('s, 'p, 'g) ptr" where
  "pointer_set_grab grab serial focus s = internal_set_grab serial grab focus s"

definition pointer_unset_grab :: "serial \<Rightarrow> ('s, 'p :: minus, 'g) ptr \<Rightarrow> ('s, 'p, 'g) ptr" where
  "pointer_unset_grab serial s = internal_unset_grab serial True s"

definition pointer_set_location :: "'p \<Rightarrow> ('s, 'p, 'g) ptr \<Rightarrow> ('s, 'p, 'g) ptr" where
  "pointer_set_location location s = s\<lparr>pt_location := location\<rparr>"

section \<open>Runs\<close>

text \<open>The steps of the input backend, and those with which a compositor takes over.\<close>

inductive ptr_device_step :: "('s \<Rightarrow> bool) \<Rightarrow> ('s, 'p :: minus, 'g) ptr_grab_api \<Rightarrow> ('s, 'p, 'g) ptr \<Rightarrow> ('s, 'p, 'g) ptr \<Rightarrow> bool" for alive api where
  pd_motion: "pointer_motion alive api focus location serial s = Some s' \<Longrightarrow> ptr_device_step alive api s s'"
| pd_relative: "pointer_relative_motion alive api focus s = Some s' \<Longrightarrow> ptr_device_step alive api s s'"
| pd_button: "pointer_button alive api b st serial s = Some s' \<Longrightarrow> ptr_device_step alive api s s'"
| pd_axis: "pointer_axis alive api s = Some s' \<Longrightarrow> ptr_device_step alive api s s'"
| pd_frame: "pointer_frame alive api s = Some s' \<Longrightarrow> ptr_device_step alive api s s'"
| pd_gesture: "pointer_gesture alive api g s = Some s' \<Longrightarrow> ptr_device_step alive api s s'"

inductive ptr_step :: "('s, 'p :: minus, 'g) ptr_grab_api \<Rightarrow> ('s, 'p, 'g) ptr \<Rightarrow> ('s, 'p, 'g) ptr \<Rightarrow> bool" for api where
  ps_device: "ptr_device_step alive api s s' \<Longrightarrow> ptr_step api s s'"
| ps_set_grab: "ptr_step api s (pointer_set_grab grab serial focus s)"
| ps_unset_grab: "ptr_step api s (pointer_unset_grab serial s)"
| ps_location: "ptr_step api s (pointer_set_location location s)"

end
