(* ===== verification/Pointer_Props.thy ===== *)
theory Pointer_Props
  imports Pointer
begin

text \<open>
  Properties of the pointer: targets see a well-formed sequence of events whatever the grabs do, and
  with the implicit grab a target sees each of its presses released before it is left.
\<close>

section \<open>Whom an event addresses\<close>

fun ptr_class :: "('s, 'p) ptr_event \<Rightarrow> 's focus_event" where
  "ptr_class (P_enter s _ _) = Enters s"
| "ptr_class (P_leave s _) = Leaves s"
| "ptr_class (P_motion s _ _) = Sent s"
| "ptr_class (P_relative_motion s) = Sent s"
| "ptr_class (P_button s _ _ _) = Sent s"
| "ptr_class (P_axis s) = Sent s"
| "ptr_class (P_frame s) = Sent s"
| "ptr_class (P_gesture s _) = Sent s"
| "ptr_class P_default_cursor = Elsewhere"

definition addressed :: "('s \<Rightarrow> ('s, 'p) ptr_event) \<Rightarrow> bool" where
  "addressed e \<longleftrightarrow> (\<forall>f. ptr_class (e f) = Sent f)"

lemma addressed_simps [simp]:
  "addressed P_relative_motion" "addressed (\<lambda>f. P_button f b st i)" "addressed P_axis" "addressed P_frame" "addressed (\<lambda>f. P_gesture f g)"
  by (simp_all add: addressed_def)

section \<open>What every operation does\<close>

text \<open>A relation that the primitive operations establish holds for everything built on them.\<close>

locale ptr_relation =
  fixes R :: "('s, 'p :: minus, 'g) ptr \<Rightarrow> ('s, 'p, 'g) ptr \<Rightarrow> bool"
  assumes trans: "R s t \<Longrightarrow> R t u \<Longrightarrow> R s u"
    and grab: "R s (s\<lparr>pt_grab := g\<rparr>)"
    and pending: "R s (s\<lparr>pt_pending_focus := f\<rparr>)"
    and pressed: "R s (s\<lparr>pt_pressed := bs\<rparr>)"
    and location: "R s (s\<lparr>pt_location := l\<rparr>)"
    and motion: "R s (ptr_motion f l i s)"
    and sent: "addressed e \<Longrightarrow> R s (to_focus e s)"
begin

lemma refl: "R s s"
  using grab[of s "pt_grab s"] by simp

lemma do_op: "R s (ptr_do op s)"
proof (cases op)
  case (Po_set_grab i f g)
  show ?thesis by (auto simp: Po_set_grab internal_set_grab_def Let_def intro: grab trans[OF grab motion])
next
  case (Po_unset_grab i r)
  show ?thesis by (auto simp: Po_unset_grab internal_unset_grab_def Let_def intro: grab trans[OF grab motion])
qed (simp_all add: motion sent ptr_relative_motion_def ptr_gesture_def inner_button_def inner_axis_def inner_frame_def)

lemma do_ops: "R s (fold ptr_do ops s)"
  by (induction ops arbitrary: s) (auto intro: refl trans[OF do_op])

lemma with_grab:
  assumes "ptr_with_grab alive api inp s = Some s'"
  shows "R s s'"
proof -
  have put_back: "R s (if b then t\<lparr>pt_grab := g\<rparr> else t)" if "R s t" for b t g
    using that by (cases b) (auto intro: trans[OF _ grab])
  have d: "R s (fold ptr_do ops (s\<lparr>pt_grab := g\<rparr>))" for g ops by (rule trans[OF grab do_ops])
  show ?thesis
  proof (cases "pt_grab s")
    case P_none
    then have "s' = (let t = fold ptr_do (default_grab inp (s\<lparr>pt_grab := P_borrowed\<rparr>)) (s\<lparr>pt_grab := P_borrowed\<rparr>)
        in if pt_grab t = P_borrowed then t\<lparr>pt_grab := P_none\<rparr> else t)"
      using assms by (simp add: ptr_with_grab_def Let_def)
    then show ?thesis unfolding Let_def by (simp only:) (rule put_back[OF d])
  next
    case (P_active serial handler)
    obtain h' ops where f: "grab_handle api inp handler (s\<lparr>pt_grab := P_borrowed\<rparr>) = (h', ops)" by fastforce
    define t where "t = fold ptr_do ops (s\<lparr>pt_grab := P_borrowed\<rparr>)"
    have t: "R s (if b then t\<lparr>pt_grab := g\<rparr> else t)" for b g unfolding t_def by (rule put_back[OF d])
    show ?thesis
    proof (cases "case grab_start_focus_of api handler of Some (focus, _) \<Rightarrow> \<not> alive focus | None \<Rightarrow> False")
      case True
      then have "s' = fold ptr_do (default_grab inp (s\<lparr>pt_grab := P_none\<rparr>)) (s\<lparr>pt_grab := P_none\<rparr>)"
        using assms by (simp add: ptr_with_grab_def P_active Let_def)
      then show ?thesis using d by simp
    next
      case False
      then have "s' = (if pt_grab t = P_borrowed then t\<lparr>pt_grab := P_active serial h'\<rparr> else t)"
        using assms unfolding ptr_with_grab_def Let_def P_active ptr_grab_status.case f prod.case t_def[symmetric] if_not_P[OF False]
        by (simp only: option.inject)
      then show ?thesis using t by (simp only:)
    qed
  next
    case P_borrowed
    with assms show ?thesis by (simp add: ptr_with_grab_def Let_def)
  qed
qed

lemma device_step: "ptr_device_step alive api s s' \<Longrightarrow> R s s'"
  by (cases rule: ptr_device_step.cases)
    (auto simp: pointer_motion_def pointer_relative_motion_def pointer_button_def pointer_axis_def pointer_frame_def
      pointer_gesture_def Let_def intro: with_grab trans[OF pending with_grab] trans[OF pressed with_grab])

lemma step: "ptr_step api s s' \<Longrightarrow> R s s'"
  by (cases rule: ptr_step.cases)
    (auto simp: pointer_set_grab_def pointer_unset_grab_def pointer_set_location_def internal_set_grab_def internal_unset_grab_def
      Let_def intro: device_step grab location trans[OF grab motion])

end

section \<open>The focus\<close>

definition ptr_target :: "('s, 'p, 'g) ptr \<Rightarrow> 's option" where
  "ptr_target s = map_option fst (pt_focus s)"

definition ptr_events :: "('s, 'p, 'g) ptr \<Rightarrow> 's focus_event list" where
  "ptr_events s = map ptr_class (pt_log s)"

definition ptr_extends :: "('s, 'p, 'g) ptr \<Rightarrow> ('s, 'p, 'g) ptr \<Rightarrow> bool" where
  "ptr_extends s s' \<longleftrightarrow> (\<exists>es. ptr_events s' = ptr_events s @ es \<and> focus_trace (ptr_target s) es = Some (ptr_target s'))"

lemma ptr_extends_trans: "ptr_extends s t \<Longrightarrow> ptr_extends t u \<Longrightarrow> ptr_extends s u"
  by (fastforce simp: ptr_extends_def)

lemma ptr_extends_silent: "pt_focus s' = pt_focus s \<Longrightarrow> pt_log s' = pt_log s \<Longrightarrow> ptr_extends s s'"
  by (simp add: ptr_extends_def ptr_events_def ptr_target_def)

lemma ptr_extends_log:
  "pt_log s' = pt_log s @ es \<Longrightarrow> focus_trace (ptr_target s) (map ptr_class es) = Some (ptr_target s') \<Longrightarrow> ptr_extends s s'"
  by (auto simp: ptr_extends_def ptr_events_def)

lemma to_focus_extends: "addressed e \<Longrightarrow> ptr_extends s (to_focus e s)"
  by (cases "pt_focus s") (auto simp: addressed_def to_focus_def ptr_emit_def ptr_target_def intro!: ptr_extends_silent ptr_extends_log)

lemma ptr_motion_extends: "ptr_extends s (ptr_motion f l i s)"
proof (cases "pt_focus s")
  case None
  show ?thesis
    by (cases f) (auto simp: None ptr_motion_def ptr_emit_def ptr_target_def Let_def intro!: ptr_extends_silent ptr_extends_log)
next
  case (Some old)
  obtain t j where old: "old = (t, j)" by fastforce
  consider "f = None" | j' where "f = Some (t, j')" | t' j' where "f = Some (t', j')" "t' \<noteq> t" by fastforce
  then show ?thesis
    by cases (auto simp: Some old ptr_motion_def ptr_emit_def ptr_target_def Let_def intro!: ptr_extends_log)
qed

interpretation pext: ptr_relation "ptr_extends :: ('s, 'p :: minus, 'g) ptr \<Rightarrow> ('s, 'p, 'g) ptr \<Rightarrow> bool"
  by unfold_locales (fact ptr_extends_trans ptr_motion_extends to_focus_extends | simp add: ptr_extends_silent)+

interpretation pt: focus_device ptr_target ptr_events "ptr_step api" for api :: "('s, 'p :: minus, 'g) ptr_grab_api"
  by unfold_locales (drule pext.step, simp add: ptr_extends_def)

text \<open>C8. Whatever the compositor and its grabs do with the pointer, the targets see a well-formed sequence:
  at most one target is entered, it is the focus of the pointer, and motions, buttons, scrolling,
  frames and gestures go only to a target that was entered and not left since.\<close>

theorem pointer_events_follow_focus:
  fixes s :: "('s, 'p :: minus, 'g) ptr"
  assumes "(ptr_step api)\<^sup>*\<^sup>* (ptr_new origin) s"
  shows "focus_trace None (ptr_events s) = Some (ptr_target s) \<and>
    (\<forall>es t es'. ptr_events s = es @ Sent t # es' \<longrightarrow> (\<exists>xs ys. es = xs @ Enters t # ys \<and> Leaves t \<notin> set ys))"
proof -
  have "pt.follows (ptr_new origin :: ('s, 'p, 'g) ptr)"
    by (simp add: pt.follows_def ptr_new_def ptr_events_def ptr_target_def)
  from pt.follows_steps[OF assms this] have f: "pt.follows s" .
  then show ?thesis using pt.sent_after_enter[OF f] by (auto simp: pt.follows_def)
qed

end
