(* ===== verification/Implicit_Grab.thy ===== *)
theory Implicit_Grab
  imports Pointer_Props
begin

text \<open>
  The implicit grab of a click: while a button is pressed the focus stays where it was when the first
  button was pressed, so that every press is released on the same target.
\<close>

section \<open>What a client believes to be pressed\<close>

fun button_step :: "('s \<times> nat set) option \<Rightarrow> ('s, 'p) ptr_event \<Rightarrow> ('s \<times> nat set) option" where
  "button_step v (P_enter s _ _) = Some (s, {})"
| "button_step v (P_leave s _) = None"
| "button_step v (P_button s b Button_pressed _) = map_option (apsnd (insert b)) v"
| "button_step v (P_button s b Button_released _) = map_option (apsnd (\<lambda>bs. bs - {b})) v"
| "button_step v _ = v"

definition button_view :: "('s, 'p) ptr_event list \<Rightarrow> ('s \<times> nat set) option" where
  "button_view es = foldl button_step None es"

lemma button_view_append [simp]: "button_view (es @ es') = foldl button_step (button_view es) es'"
  by (simp add: button_view_def)

definition sees_pressed :: "('s, 'p, 'g) ptr \<Rightarrow> bool" where
  "sees_pressed s \<longleftrightarrow> button_view (pt_log s) = map_option (\<lambda>(f, _). (f, set (pt_pressed s))) (pt_focus s)"

text \<open>No grab and no button, or the implicit grab on the current focus.\<close>

definition implicit_ok :: "('s, 'p, 'g) ptr \<Rightarrow> bool" where
  "implicit_ok s \<longleftrightarrow>
     (case pt_grab s of
        P_none \<Rightarrow> pt_pressed s = []
      | P_active _ (Click_grab start focus) \<Rightarrow>
          pt_pressed s \<noteq> [] \<and> map_option fst (sd_focus start) = ptr_target s \<and> map_option fst focus = ptr_target s
      | _ \<Rightarrow> False)"

section \<open>Events do not change the rest of the state\<close>

lemma to_focus_keeps [simp]:
  "pt_focus (to_focus e s) = pt_focus s" "pt_grab (to_focus e s) = pt_grab s" "pt_pressed (to_focus e s) = pt_pressed s"
  "pt_pending_focus (to_focus e s) = pt_pending_focus s" "pt_location (to_focus e s) = pt_location s"
  "ptr_target (to_focus e s) = ptr_target s"
  by (auto simp: to_focus_def ptr_emit_def ptr_target_def split: option.split)

lemma to_focus_grab [simp]: "to_focus e (s\<lparr>pt_grab := g\<rparr>) = (to_focus e s)\<lparr>pt_grab := g\<rparr>"
  by (auto simp: to_focus_def ptr_emit_def split: option.split)

lemma ptr_motion_keeps [simp]:
  "pt_grab (ptr_motion f l i s) = pt_grab s" "pt_pressed (ptr_motion f l i s) = pt_pressed s"
  "ptr_target (ptr_motion f l i s) = map_option fst f"
  by (auto simp: ptr_motion_def ptr_emit_def ptr_target_def Let_def split: option.split)

lemma ptr_motion_grab [simp]: "ptr_motion f l i (s\<lparr>pt_grab := g\<rparr>) = (ptr_motion f l i s)\<lparr>pt_grab := g\<rparr>"
  by (auto simp: ptr_motion_def ptr_emit_def Let_def split: option.split)

text \<open>The code of the default grab and of the implicit grab, run on a target that is alive.\<close>

lemma default_runs:
  assumes "pt_grab s = P_none"
  shows "ptr_with_grab (\<lambda>_. True) api (In_motion f l i) s = Some (ptr_motion f l i s)"
    and "ptr_with_grab (\<lambda>_. True) api (In_button b st i) s =
      Some (let t = inner_button b st i s
            in if st = Button_pressed
               then t\<lparr>pt_grab := P_active i (Click_grab \<lparr>sd_focus = pt_focus s, sd_button = b, sd_location = pt_location s\<rparr> (pt_focus s))\<rparr>
               else t)"
    and "ptr_with_grab (\<lambda>_. True) api (In_relative_motion f) s = Some (ptr_relative_motion s)"
    and "ptr_with_grab (\<lambda>_. True) api In_axis s = Some (inner_axis s)"
    and "ptr_with_grab (\<lambda>_. True) api In_frame s = Some (inner_frame s)"
    and "ptr_with_grab (\<lambda>_. True) api (In_gesture g) s = Some (ptr_gesture g s)"
proof -
  have none: "t\<lparr>pt_grab := P_none\<rparr> = t" if "pt_grab t = P_none" for t :: "('a, 'b, 'c) ptr" using that by (cases t) simp
  show "ptr_with_grab (\<lambda>_. True) api (In_motion f l i) s = Some (ptr_motion f l i s)"
    "ptr_with_grab (\<lambda>_. True) api (In_relative_motion f) s = Some (ptr_relative_motion s)"
    "ptr_with_grab (\<lambda>_. True) api In_axis s = Some (inner_axis s)"
    "ptr_with_grab (\<lambda>_. True) api In_frame s = Some (inner_frame s)"
    "ptr_with_grab (\<lambda>_. True) api (In_gesture g) s = Some (ptr_gesture g s)"
    using assms by (simp_all add: ptr_with_grab_def Let_def ptr_relative_motion_def inner_axis_def inner_frame_def ptr_gesture_def none)
  show "ptr_with_grab (\<lambda>_. True) api (In_button b st i) s =
      Some (let t = inner_button b st i s
            in if st = Button_pressed
               then t\<lparr>pt_grab := P_active i (Click_grab \<lparr>sd_focus = pt_focus s, sd_button = b, sd_location = pt_location s\<rparr> (pt_focus s))\<rparr>
               else t)"
    using assms by (cases st) (simp_all add: ptr_with_grab_def Let_def inner_button_def internal_set_grab_def none)
qed

lemma click_runs:
  assumes "pt_grab s = P_active j (Click_grab start focus)"
  shows "ptr_with_grab (\<lambda>_. True) api (In_motion f l i) s =
      Some ((ptr_motion (click_focus f focus) l i s)\<lparr>pt_grab := P_active j (Click_grab start (click_focus f focus))\<rparr>)"
    and "ptr_with_grab (\<lambda>_. True) api (In_button b st i) s =
      Some (let t = inner_button b st i s in if pt_pressed s = [] then t\<lparr>pt_grab := P_none\<rparr> else t)"
    and "ptr_with_grab (\<lambda>_. True) api (In_relative_motion f) s = Some (ptr_relative_motion s)"
    and "ptr_with_grab (\<lambda>_. True) api In_axis s = Some (inner_axis s)"
    and "ptr_with_grab (\<lambda>_. True) api In_frame s = Some (inner_frame s)"
    and "ptr_with_grab (\<lambda>_. True) api (In_gesture g) s = Some (ptr_gesture g s)"
proof -
  have dead: "\<not> (case sd_focus start of Some (focus, _) \<Rightarrow> \<not> True | None \<Rightarrow> False)" by (simp split: option.split)
  have same: "t\<lparr>pt_grab := P_active j (Click_grab start focus)\<rparr> = t" if "pt_grab t = pt_grab s" for t :: "('a, 'b, 'c) ptr"
    using that assms by (cases t) simp
  show "ptr_with_grab (\<lambda>_. True) api (In_motion f l i) s =
      Some ((ptr_motion (click_focus f focus) l i s)\<lparr>pt_grab := P_active j (Click_grab start (click_focus f focus))\<rparr>)"
    "ptr_with_grab (\<lambda>_. True) api (In_relative_motion f) s = Some (ptr_relative_motion s)"
    "ptr_with_grab (\<lambda>_. True) api In_axis s = Some (inner_axis s)"
    "ptr_with_grab (\<lambda>_. True) api In_frame s = Some (inner_frame s)"
    "ptr_with_grab (\<lambda>_. True) api (In_gesture g) s = Some (ptr_gesture g s)"
    using assms dead
    by (simp_all add: ptr_with_grab_def Let_def ptr_relative_motion_def inner_axis_def inner_frame_def ptr_gesture_def same split: option.split)
  show "ptr_with_grab (\<lambda>_. True) api (In_button b st i) s =
      Some (let t = inner_button b st i s in if pt_pressed s = [] then t\<lparr>pt_grab := P_none\<rparr> else t)"
    using assms dead by (simp add: ptr_with_grab_def Let_def inner_button_def internal_unset_grab_def same split: option.split)
qed

section \<open>The invariant\<close>

definition implicit_inv :: "('s, 'p, 'g) ptr \<Rightarrow> bool" where
  "implicit_inv s \<longleftrightarrow> sees_pressed s \<and> implicit_ok s"

lemma sees_to_focus:
  assumes "sees_pressed s" "\<And>v f. button_step v (e f) = v"
  shows "sees_pressed (to_focus e s)"
  using assms by (cases "pt_focus s") (auto simp: sees_pressed_def to_focus_def ptr_emit_def)

lemma implicit_same:
  "implicit_inv s \<Longrightarrow> sees_pressed s' \<Longrightarrow> pt_grab s' = pt_grab s \<Longrightarrow> pt_pressed s' = pt_pressed s \<Longrightarrow> ptr_target s' = ptr_target s \<Longrightarrow>
   implicit_inv s'"
  unfolding implicit_inv_def implicit_ok_def by (simp only: simp_thms)

lemma implicit_to_focus:
  assumes "implicit_inv s" "\<And>v f. button_step v (e f) = v"
  shows "implicit_inv (to_focus e s)"
  by (rule implicit_same[OF assms(1) sees_to_focus]) (use assms in \<open>simp_all add: implicit_inv_def\<close>)

lemma implicit_cases:
  assumes "implicit_inv s"
  obtains (idle) "pt_grab s = P_none" "pt_pressed s = []" "sees_pressed s"
  | (click) j start focus where "pt_grab s = P_active j (Click_grab start focus)" "pt_pressed s \<noteq> []" "sees_pressed s"
      "map_option fst (sd_focus start) = ptr_target s" "map_option fst focus = ptr_target s"
  using assms by (auto simp: implicit_inv_def implicit_ok_def split: ptr_grab_status.splits ptr_grab.splits)

lemma click_focus_target: "map_option fst (click_focus f focus) = map_option fst focus"
  by (auto simp: click_focus_def split: option.split)

text \<open>A motion with no button pressed, and one that stays on its target.\<close>

lemma sees_motion:
  assumes "sees_pressed s" "pt_pressed s = [] \<or> map_option fst f = ptr_target s"
  shows "sees_pressed (ptr_motion f l i s)"
proof (cases "pt_focus s")
  case None
  then show ?thesis using assms
    by (cases f) (auto simp: sees_pressed_def ptr_motion_def ptr_emit_def ptr_target_def Let_def)
next
  case (Some old)
  then show ?thesis using assms
    by (cases f; cases old) (auto simp: sees_pressed_def ptr_motion_def ptr_emit_def ptr_target_def Let_def)
qed

lemma sees_pressed_button:
  assumes "sees_pressed s"
    and "t = s\<lparr>pt_pressed := (case st of Button_pressed \<Rightarrow> pt_pressed s @ [b] | Button_released \<Rightarrow> filter (\<lambda>b'. b' \<noteq> b) (pt_pressed s))\<rparr>"
  shows "sees_pressed (inner_button b st i t)"
  using assms(1)
  by (cases st; cases "pt_focus s") (auto simp: sees_pressed_def inner_button_def to_focus_def ptr_emit_def assms(2))

lemma sees_pending [simp]: "sees_pressed (s\<lparr>pt_pending_focus := f\<rparr>) = sees_pressed s" "sees_pressed (s\<lparr>pt_grab := g\<rparr>) = sees_pressed s"
  "ptr_target (s\<lparr>pt_pending_focus := f\<rparr>) = ptr_target s" "ptr_target (s\<lparr>pt_grab := g\<rparr>) = ptr_target s"
  by (simp_all add: sees_pressed_def ptr_target_def)

lemma implicit_pending: "implicit_inv s \<Longrightarrow> implicit_inv (s\<lparr>pt_pending_focus := f\<rparr>)"
  by (auto simp: implicit_inv_def implicit_ok_def split: ptr_grab_status.splits ptr_grab.splits)

lemma implicit_motion:
  assumes "implicit_inv s" "pointer_motion (\<lambda>_. True) api f l i s = Some s'"
  shows "implicit_inv s' \<and> (pt_pressed s \<noteq> [] \<longrightarrow> ptr_target s' = ptr_target s)"
proof -
  define t where "t = s\<lparr>pt_pending_focus := f\<rparr>"
  have m: "ptr_with_grab (\<lambda>_. True) api (In_motion f l i) t = Some s'" using assms(2) by (simp add: pointer_motion_def t_def)
  have same: "pt_pressed t = pt_pressed s" "ptr_target t = ptr_target s" by (simp_all add: t_def)
  have "implicit_inv t" unfolding t_def by (rule implicit_pending[OF assms(1)])
  then show ?thesis
  proof (cases rule: implicit_cases)
    case idle
    then have "s' = ptr_motion f l i t" using m by (simp add: default_runs)
    then show ?thesis using idle sees_motion[OF idle(3)] same by (simp add: implicit_inv_def implicit_ok_def)
  next
    case (click j start focus)
    let ?f = "click_focus f focus"
    have "s' = (ptr_motion ?f l i t)\<lparr>pt_grab := P_active j (Click_grab start ?f)\<rparr>"
      using m by (simp add: click_runs(1)[OF click(1)])
    moreover have "sees_pressed (ptr_motion ?f l i t)" using sees_motion[OF click(3)] click(5) by (simp add: click_focus_target)
    ultimately show ?thesis using click same by (simp add: implicit_inv_def implicit_ok_def click_focus_target)
  qed
qed

lemma implicit_button:
  assumes "implicit_inv s" "pointer_button (\<lambda>_. True) api b st i s = Some s'"
  shows "implicit_inv s'"
proof -
  define t where "t = s\<lparr>pt_pressed := (case st of Button_pressed \<Rightarrow> pt_pressed s @ [b] | Button_released \<Rightarrow> filter (\<lambda>b'. b' \<noteq> b) (pt_pressed s))\<rparr>"
  have m: "ptr_with_grab (\<lambda>_. True) api (In_button b st i) t = Some s'"
    using assms(2) unfolding pointer_button_def Let_def t_def .
  have v: "sees_pressed (inner_button b st i t)"
    by (rule sees_pressed_button[OF _ t_def]) (use assms(1) in \<open>simp add: implicit_inv_def\<close>)
  have same: "pt_grab t = pt_grab s" "ptr_target t = ptr_target s" by (simp_all add: t_def ptr_target_def)
  have ib: "pt_grab (inner_button b st i t) = pt_grab t" "pt_pressed (inner_button b st i t) = pt_pressed t"
    "ptr_target (inner_button b st i t) = ptr_target t" "pt_focus (inner_button b st i t) = pt_focus t"
    by (simp_all add: inner_button_def)
  show ?thesis using assms(1)
  proof (cases rule: implicit_cases)
    case idle
    have "s' = (let u = inner_button b st i t
            in if st = Button_pressed
               then u\<lparr>pt_grab := P_active i (Click_grab \<lparr>sd_focus = pt_focus t, sd_button = b, sd_location = pt_location t\<rparr> (pt_focus t))\<rparr>
               else u)"
      using m idle(1) same(1) by (simp add: default_runs(2))
    moreover have "pt_pressed t = (if st = Button_pressed then [b] else [])" using idle(2) by (cases st) (simp_all add: t_def)
    ultimately show ?thesis
      using v idle(1) same ib by (cases st) (simp_all add: implicit_inv_def implicit_ok_def ptr_target_def)
  next
    case (click j start focus)
    have "s' = (let u = inner_button b st i t in if pt_pressed t = [] then u\<lparr>pt_grab := P_none\<rparr> else u)"
      using m click(1) same(1) by (simp add: click_runs(2)[of t j start focus])
    then show ?thesis
      using v click same by (cases "pt_pressed t = []") (simp_all add: implicit_inv_def implicit_ok_def Let_def ib)
  qed
qed

lemma implicit_plain:
  assumes "implicit_inv s" "ptr_with_grab (\<lambda>_. True) api inp s = Some s'" "\<And>v f. button_step v (e f) = v"
    and "pt_grab s = P_none \<Longrightarrow> ptr_with_grab (\<lambda>_. True) api inp s = Some (to_focus e s)"
    and "\<And>j start focus. pt_grab s = P_active j (Click_grab start focus) \<Longrightarrow> ptr_with_grab (\<lambda>_. True) api inp s = Some (to_focus e s)"
  shows "implicit_inv s'"
proof -
  have "s' = to_focus e s" using assms(1) by (cases rule: implicit_cases) (use assms(2,4,5) in auto)
  then show ?thesis using implicit_to_focus[OF assms(1,3)] by simp
qed

lemma implicit_step:
  assumes "ptr_device_step (\<lambda>_. True) api s s'" "implicit_inv s"
  shows "implicit_inv s'"
  using assms(1)
proof (cases rule: ptr_device_step.cases)
  case (pd_motion f l i)
  then show ?thesis using implicit_motion[OF assms(2)] by blast
next
  case (pd_button b st i)
  then show ?thesis by (rule implicit_button[OF assms(2)])
next
  case (pd_relative f)
  show ?thesis
    by (rule implicit_plain[OF implicit_pending[OF assms(2)] pd_relative[unfolded pointer_relative_motion_def], of P_relative_motion])
      (simp_all add: default_runs click_runs ptr_relative_motion_def)
next
  case pd_axis
  show ?thesis
    by (rule implicit_plain[OF assms(2) pd_axis[unfolded pointer_axis_def], of P_axis])
      (simp_all add: default_runs click_runs inner_axis_def)
next
  case pd_frame
  show ?thesis
    by (rule implicit_plain[OF assms(2) pd_frame[unfolded pointer_frame_def], of P_frame])
      (simp_all add: default_runs click_runs inner_frame_def)
next
  case (pd_gesture g)
  show ?thesis
    by (rule implicit_plain[OF assms(2) pd_gesture[unfolded pointer_gesture_def], of "\<lambda>f. P_gesture f g"])
      (simp_all add: default_runs click_runs ptr_gesture_def)
qed

lemma implicit_run: "(ptr_device_step (\<lambda>_. True) api)\<^sup>*\<^sup>* (ptr_new origin) s \<Longrightarrow> implicit_inv s"
proof (induction rule: rtranclp_induct)
  case base
  show ?case by (simp add: implicit_inv_def implicit_ok_def sees_pressed_def ptr_new_def button_view_def)
qed (rule implicit_step)

text \<open>C17. With the implicit grab, and while the targets of grabs are alive, the focused target believes
  exactly the pressed buttons to be pressed: a target sees the release of each of its presses before
  it is left, and it keeps the focus until all buttons are released, wherever the pointer moves.\<close>

theorem implicit_grab_keeps_presses:
  assumes "(ptr_device_step (\<lambda>_. True) api)\<^sup>*\<^sup>* (ptr_new origin) s"
  shows "button_view (pt_log s) = map_option (\<lambda>(f, _). (f, set (pt_pressed s))) (pt_focus s) \<and>
    (\<forall>f l i s'. pt_pressed s \<noteq> [] \<longrightarrow> pointer_motion (\<lambda>_. True) api f l i s = Some s' \<longrightarrow> ptr_target s' = ptr_target s)"
  using implicit_run[OF assms] implicit_motion[OF implicit_run[OF assms]] unfolding implicit_inv_def sees_pressed_def by blast

section \<open>An example\<close>

definition no_grabs :: "(nat, int, unit) ptr_grab_api" where
  "no_grabs = \<lparr>pg_start_focus = (\<lambda>_. None), pg_handle = (\<lambda>g _ _. (g, []))\<rparr>"

definition move_to :: "nat \<Rightarrow> (nat, int, unit) ptr \<Rightarrow> (nat, int, unit) ptr" where
  "move_to f s = the (pointer_motion (\<lambda>_. True) no_grabs (Some (f, 0)) 5 (Serial 1) s)"

definition press :: "nat \<Rightarrow> button_state \<Rightarrow> (nat, int, unit) ptr \<Rightarrow> (nat, int, unit) ptr" where
  "press b st s = the (pointer_button (\<lambda>_. True) no_grabs b st (Serial 2) s)"

text \<open>A press on target 7, a motion over target 8 and a second button.\<close>

definition drag :: "(nat, int, unit) ptr" where
  "drag = press 273 Button_pressed (move_to 8 (press 272 Button_pressed (move_to 7 (ptr_new 0))))"

lemma drag_steps:
  assumes "pt_grab s = P_none \<or> (\<exists>j start focus. pt_grab s = P_active j (Click_grab start focus))"
  shows "ptr_device_step (\<lambda>_. True) no_grabs s (move_to f s)" "ptr_device_step (\<lambda>_. True) no_grabs s (press b st s)"
proof -
  have "pointer_motion (\<lambda>_. True) no_grabs (Some (f, 0)) 5 (Serial 1) s = Some (move_to f s)"
    using assms by (auto simp: move_to_def pointer_motion_def default_runs click_runs)
  then show "ptr_device_step (\<lambda>_. True) no_grabs s (move_to f s)" by (rule pd_motion)
  define t where "t = s\<lparr>pt_pressed := (case st of Button_pressed \<Rightarrow> pt_pressed s @ [b] | Button_released \<Rightarrow> filter (\<lambda>b'. b' \<noteq> b) (pt_pressed s))\<rparr>"
  have "pt_grab t = pt_grab s" by (simp add: t_def)
  then have "pointer_button (\<lambda>_. True) no_grabs b st (Serial 2) s = Some (press b st s)"
    using assms unfolding press_def pointer_button_def Let_def t_def[symmetric] by (auto simp: default_runs click_runs)
  then show "ptr_device_step (\<lambda>_. True) no_grabs s (press b st s)" by (rule pd_button)
qed

lemma drag_reached: "(ptr_device_step (\<lambda>_. True) no_grabs)\<^sup>*\<^sup>* (ptr_new 0) drag"
proof -
  let ?R = "ptr_device_step (\<lambda>_. True) no_grabs"
  have grow: "?R\<^sup>*\<^sup>* (ptr_new 0) (move_to f s)" "?R\<^sup>*\<^sup>* (ptr_new 0) (press b st s)" if "?R\<^sup>*\<^sup>* (ptr_new 0) s" for s f b st
  proof -
    have "implicit_inv s" by (rule implicit_run[OF that])
    then have "pt_grab s = P_none \<or> (\<exists>j start focus. pt_grab s = P_active j (Click_grab start focus))"
      by (cases rule: implicit_cases) auto
    then show "?R\<^sup>*\<^sup>* (ptr_new 0) (move_to f s)" "?R\<^sup>*\<^sup>* (ptr_new 0) (press b st s)"
      using that drag_steps by (blast intro: rtranclp.rtrancl_into_rtrancl)+
  qed
  show ?thesis unfolding drag_def by (intro grow rtranclp.rtrancl_refl)
qed

lemma drag_values: "pt_focus drag = Some (7, 0)" "pt_pressed drag = [272, 273]"
  by code_simp+

theorem implicit_grab_keeps_presses_witness: "button_view (pt_log drag) = Some (7, {272, 273})"
  using implicit_grab_keeps_presses[OF drag_reached] by (simp add: drag_values)

theorem pointer_events_follow_focus_witness: "focus_trace None (ptr_events drag) = Some (Some 7)"
proof -
  have "(ptr_step no_grabs)\<^sup>*\<^sup>* (ptr_new 0) drag"
    by (rule rtranclp_mono[THEN predicate2D, OF _ drag_reached]) (auto intro: ps_device)
  from pointer_events_follow_focus[OF this] show ?thesis by (simp add: ptr_target_def drag_values)
qed

end
