(* ===== verification/Layer_Role.thy ===== *)
theory Layer_Role
  imports Xdg_Run
begin

text \<open>
  The role of a layer surface: \<open>src/wayland/shell/wlr_layer/types.rs\<close>, the requests of
  \<open>src/wayland/shell/wlr_layer/handlers.rs\<close> and the configures and the hook before commits of
  \<open>src/wayland/shell/wlr_layer/mod.rs\<close>. The attributes have the fields and the methods of the macro
  \<open>xdg_role\<close> and are modelled by its definitions; the state of a configure is the suggested size.
\<close>

section \<open>What a client asks for\<close>

text \<open>An anchor is a set of edges; an exclusive edge is a single one.\<close>

datatype wlr_layer = Background | Bottom | Top | Overlay

datatype keyboard_interactivity = Kbd_none | Kbd_exclusive | Kbd_on_demand

datatype edge = Edge_top | Edge_bottom | Edge_left | Edge_right

type_synonym anchor = "edge set"

datatype exclusive_zone = Exclusive u32 | Neutral | DontCare

record margins =
  mg_top :: i32
  mg_right :: i32
  mg_bottom :: i32
  mg_left :: i32

type_synonym layer_configure = "(sz option, unit) configure"
type_synonym layer_attributes = "(sz option, unit) role_attributes"

record layer_state =
  la_size :: sz
  la_anchor :: anchor
  la_exclusive_zone :: exclusive_zone
  la_exclusive_edge :: "edge option"
  la_margin :: margins
  la_keyboard :: keyboard_interactivity
  la_layer :: wlr_layer
  la_last_acked :: "layer_configure option"

definition layer_state_default :: layer_state where
  "layer_state_default = \<lparr>la_size = size_new 0 0, la_anchor = {}, la_exclusive_zone = Neutral, la_exclusive_edge = None,
     la_margin = \<lparr>mg_top = 0, mg_right = 0, mg_bottom = 0, mg_left = 0\<rparr>, la_keyboard = Kbd_none, la_layer = Background,
     la_last_acked = None\<rparr>"

text \<open>The values of the protocol; None is a value it does not define.\<close>

definition layer_try_from :: "u32 \<Rightarrow> wlr_layer option" where
  "layer_try_from v = (if v = 0 then Some Background else if v = 1 then Some Bottom else if v = 2 then Some Top
     else if v = 3 then Some Overlay else None)"

definition keyboard_try_from :: "u32 \<Rightarrow> keyboard_interactivity option" where
  "keyboard_try_from v = (if v = 0 then Some Kbd_none else if v = 1 then Some Kbd_exclusive else if v = 2 then Some Kbd_on_demand
     else None)"

definition anchor_try_from :: "u32 \<Rightarrow> anchor option" where
  "anchor_try_from v =
     (if v < 16
      then Some ((if bit v 0 then {Edge_top} else {}) \<union> (if bit v 1 then {Edge_bottom} else {}) \<union>
                 (if bit v 2 then {Edge_left} else {}) \<union> (if bit v 3 then {Edge_right} else {}))
      else None)"

definition exclusive_zone_from :: "i32 \<Rightarrow> exclusive_zone" where
  "exclusive_zone_from v = (if v > 0 then Exclusive (word_of_int v) else if v = 0 then Neutral else DontCare)"

definition anchored_horizontally :: "anchor \<Rightarrow> bool" where
  "anchored_horizontally a \<longleftrightarrow> Edge_left \<in> a \<and> Edge_right \<in> a"

definition anchored_vertically :: "anchor \<Rightarrow> bool" where
  "anchored_vertically a \<longleftrightarrow> Edge_top \<in> a \<and> Edge_bottom \<in> a"

section \<open>Requests\<close>

datatype layer_error = Invalid_layer | Role_taken | Invalid_anchor | Invalid_keyboard_interactivity
  | Invalid_exclusive_edge | Invalid_size | Invalid_surface_state

datatype layer_request =
  Set_size u32 u32
| Set_anchor u32
| Set_exclusive_zone i32
| Set_margin i32 i32 i32 i32
| Set_keyboard_interactivity u32
| Set_layer u32
| Set_exclusive_edge u32

fun layer_surface_request :: "layer_request \<Rightarrow> layer_state \<Rightarrow> layer_error + layer_state" where
  "layer_surface_request (Set_size w h) s = Inr (s\<lparr>la_size := size_new (sint w) (sint h)\<rparr>)"
| "layer_surface_request (Set_anchor v) s =
     (case anchor_try_from v of Some a \<Rightarrow> Inr (s\<lparr>la_anchor := a\<rparr>) | None \<Rightarrow> Inl Invalid_anchor)"
| "layer_surface_request (Set_exclusive_zone z) s = Inr (s\<lparr>la_exclusive_zone := exclusive_zone_from z\<rparr>)"
| "layer_surface_request (Set_margin t r b l) s = Inr (s\<lparr>la_margin := \<lparr>mg_top = t, mg_right = r, mg_bottom = b, mg_left = l\<rparr>\<rparr>)"
| "layer_surface_request (Set_keyboard_interactivity v) s =
     (case keyboard_try_from v of Some k \<Rightarrow> Inr (s\<lparr>la_keyboard := k\<rparr>) | None \<Rightarrow> Inl Invalid_keyboard_interactivity)"
| "layer_surface_request (Set_layer v) s =
     (case layer_try_from v of Some l \<Rightarrow> Inr (s\<lparr>la_layer := l\<rparr>) | None \<Rightarrow> Inl Invalid_layer)"
| "layer_surface_request (Set_exclusive_edge v) s =
     (case anchor_try_from v of
        Some a \<Rightarrow>
          if a = {} then Inr (s\<lparr>la_exclusive_edge := None\<rparr>)
          else if card a = 1 then Inr (s\<lparr>la_exclusive_edge := Some (the_elem a)\<rparr>)
          else Inl Invalid_exclusive_edge
      | None \<Rightarrow> Inl Invalid_anchor)"

text \<open>
  \<open>get_layer_surface\<close>: whether the role can be given is decided by the compositor module; the
  attributes of a surface that had the role before stay.
\<close>

definition get_layer_surface :: "bool \<Rightarrow> u32 \<Rightarrow> layer_attributes option \<Rightarrow> layer_state \<Rightarrow> layer_error + layer_attributes \<times> layer_state" where
  "get_layer_surface role_given v old pending =
     (case layer_try_from v of
        None \<Rightarrow> Inl Invalid_layer
      | Some layer \<Rightarrow>
          if \<not> role_given then Inl Role_taken
          else Inr (case old of Some a \<Rightarrow> a | None \<Rightarrow> role_default, pending\<lparr>la_layer := layer\<rparr>))"

text \<open>The role object is destroyed: the attributes, the pending and the current state are reset.\<close>

definition layer_destroyed :: "layer_attributes \<Rightarrow> layer_state cached_state \<Rightarrow> layer_attributes \<times> layer_state cached_state" where
  "layer_destroyed a s = (role_default, s\<lparr>cs_pending := layer_state_default, cs_current := layer_state_default\<rparr>)"

definition ack_layer_configure :: "serial \<Rightarrow> layer_attributes \<Rightarrow> layer_error + layer_attributes \<times> layer_configure" where
  "ack_layer_configure serial a =
     (case ack_configure serial a of (a, Some c) \<Rightarrow> Inr (a, c) | (_, None) \<Rightarrow> Inl Invalid_surface_state)"

section \<open>Configures\<close>

definition layer_get_pending_state :: "layer_attributes \<Rightarrow> layer_attributes \<times> sz option option" where
  "layer_get_pending_state a =
     (if \<not> ra_initial_configure_sent a
      then (a\<lparr>ra_server_pending := None\<rparr>, Some (case ra_server_pending a of Some s \<Rightarrow> s | None \<Rightarrow> current_server_state None a))
      else if \<not> has_pending_changes None a then (a, None)
      else (a\<lparr>ra_server_pending := None\<rparr>, ra_server_pending a))"

text \<open>The event carries the serial and the size, none as zero.\<close>

definition layer_send_configure :: "u32 \<Rightarrow> layer_attributes \<Rightarrow> layer_configure \<times> u32 \<times> layer_attributes \<times> serial \<times> u32 \<times> u32" where
  "layer_send_configure counter a =
     (let (a, taken) = layer_get_pending_state a;
          state = (case taken of Some s \<Rightarrow> s | None \<Rightarrow> current_server_state None a);
          (serial, counter) = next_serial counter;
          c = \<lparr>cf_state = state, cf_serial = serial, cf_extra = ()\<rparr>;
          a = a\<lparr>ra_pending_configures := ra_pending_configures a @ [c], ra_initial_configure_sent := True\<rparr>;
          z = (case state of Some z \<Rightarrow> z | None \<Rightarrow> size_new 0 0)
      in (c, counter, a, serial, word_of_int (sw z), word_of_int (sh z)))"

definition layer_send_pending_configure :: "u32 \<Rightarrow> layer_attributes \<Rightarrow>
    (layer_configure \<times> u32 \<times> layer_attributes \<times> serial \<times> u32 \<times> u32) option" where
  "layer_send_pending_configure counter a =
     (if surface_has_pending_changes None a then Some (layer_send_configure counter a) else None)"

section \<open>The hook before a commit\<close>

text \<open>The checks of the requested state.\<close>

definition layer_check :: "layer_state \<Rightarrow> layer_error option" where
  "layer_check s =
     (if sw (la_size s) = 0 \<and> \<not> anchored_horizontally (la_anchor s) then Some Invalid_size
      else if sh (la_size s) = 0 \<and> \<not> anchored_vertically (la_anchor s) then Some Invalid_size
      else case la_exclusive_edge s of
             Some edge \<Rightarrow> if edge \<notin> la_anchor s then Some Invalid_exclusive_edge else None
           | None \<Rightarrow> None)"

definition layer_pre_commit :: "bool \<Rightarrow> buffer_assignment option \<Rightarrow> layer_attributes \<Rightarrow> layer_state \<Rightarrow>
    layer_error + layer_attributes \<times> layer_state" where
  "layer_pre_commit alive buffer a pending =
     (if \<not> alive then Inr (a, pending)
      else case layer_check pending of
        Some e \<Rightarrow> Inl e
      | None \<Rightarrow>
          (let had_buffer_before = la_last_acked pending \<noteq> None;
               has_buffer = buffer_after buffer had_buffer_before;
               got_unmapped = had_buffer_before \<and> \<not> has_buffer
           in if has_buffer \<and> ra_last_acked a = None then Inl Invalid_surface_state
              else let pending = pending\<lparr>la_last_acked := if has_buffer then ra_last_acked a else None\<rparr>
                   in if got_unmapped then Inr (reset_attributes a, layer_state_default) else Inr (a, pending)))"

section \<open>The life of a layer surface\<close>

text \<open>The surface, whether its role object exists, and whether the client was sent an error.\<close>

record layer_client =
  lc_attrs :: layer_attributes
  lc_cached :: "layer_state cached_state"
  lc_alive :: bool
  lc_dead :: bool

definition layer_cacheable :: "layer_state cacheable" where
  "layer_cacheable = copy_cacheable layer_state_default"

definition client_get_layer_surface :: "u32 \<Rightarrow> layer_client \<Rightarrow> layer_client" where
  "client_get_layer_surface v x =
     (case get_layer_surface True v (Some (lc_attrs x)) (cs_pending (lc_cached x)) of
        Inl _ \<Rightarrow> x\<lparr>lc_dead := True\<rparr>
      | Inr (a, p) \<Rightarrow> x\<lparr>lc_attrs := a, lc_cached := (lc_cached x)\<lparr>cs_pending := p\<rparr>, lc_alive := True\<rparr>)"

definition client_request :: "layer_request \<Rightarrow> layer_client \<Rightarrow> layer_client" where
  "client_request r x =
     (case layer_surface_request r (cs_pending (lc_cached x)) of
        Inl _ \<Rightarrow> x\<lparr>lc_dead := True\<rparr>
      | Inr p \<Rightarrow> x\<lparr>lc_cached := (lc_cached x)\<lparr>cs_pending := p\<rparr>\<rparr>)"

definition client_ack :: "serial \<Rightarrow> layer_client \<Rightarrow> layer_client" where
  "client_ack serial x =
     (case ack_layer_configure serial (lc_attrs x) of Inl _ \<Rightarrow> x\<lparr>lc_dead := True\<rparr> | Inr (a, _) \<Rightarrow> x\<lparr>lc_attrs := a\<rparr>)"

text \<open>A commit: the hook runs first, and whatever it answers, the state pending after it is committed.\<close>

definition client_commit :: "buffer_assignment option \<Rightarrow> serial option \<Rightarrow> layer_client \<Rightarrow> layer_client" where
  "client_commit buffer i x =
     (let y = (case layer_pre_commit (lc_alive x) buffer (lc_attrs x) (cs_pending (lc_cached x)) of
          Inl _ \<Rightarrow> x\<lparr>lc_dead := True\<rparr>
        | Inr (a, p) \<Rightarrow> x\<lparr>lc_attrs := a, lc_cached := (lc_cached x)\<lparr>cs_pending := p\<rparr>\<rparr>)
      in y\<lparr>lc_cached := fst (cache_commit layer_cacheable i (lc_cached y))\<rparr>)"

definition client_destroy :: "layer_client \<Rightarrow> layer_client" where
  "client_destroy x =
     (let (a, s) = layer_destroyed (lc_attrs x) (lc_cached x) in x\<lparr>lc_attrs := a, lc_cached := s, lc_alive := False\<rparr>)"

definition layer_client_new :: layer_client where
  "layer_client_new = \<lparr>lc_attrs = role_default, lc_cached = cached_state_default layer_cacheable, lc_alive = False, lc_dead = False\<rparr>"

text \<open>
  A surface has at most one role object at a time; the arguments of requests are of their types. A client
  that was sent a protocol error makes no further request, but what it committed can still be applied.
\<close>

fun request_typed :: "layer_request \<Rightarrow> bool" where
  "request_typed (Set_exclusive_zone z) \<longleftrightarrow> in_i32 z"
| "request_typed (Set_margin t r b l) \<longleftrightarrow> in_i32 t \<and> in_i32 r \<and> in_i32 b \<and> in_i32 l"
| "request_typed _ \<longleftrightarrow> True"

inductive layer_run :: "layer_client \<Rightarrow> bool" where
  lr_new: "layer_run layer_client_new"
| lr_get: "layer_run x \<Longrightarrow> \<not> lc_dead x \<Longrightarrow> \<not> lc_alive x \<Longrightarrow> layer_run (client_get_layer_surface v x)"
| lr_request: "layer_run x \<Longrightarrow> \<not> lc_dead x \<Longrightarrow> lc_alive x \<Longrightarrow> request_typed r \<Longrightarrow> layer_run (client_request r x)"
| lr_ack: "layer_run x \<Longrightarrow> \<not> lc_dead x \<Longrightarrow> lc_alive x \<Longrightarrow> layer_run (client_ack serial x)"
| lr_commit: "layer_run x \<Longrightarrow> \<not> lc_dead x \<Longrightarrow> layer_run (client_commit buffer i x)"
| lr_destroy: "layer_run x \<Longrightarrow> lc_alive x \<Longrightarrow> layer_run (client_destroy x)"
| lr_pending: "layer_run x \<Longrightarrow> lc_alive x \<Longrightarrow> layer_run (x\<lparr>lc_attrs := with_pending_state None f (lc_attrs x)\<rparr>)"
| lr_configure: "layer_run x \<Longrightarrow> lc_alive x \<Longrightarrow> layer_send_configure counter (lc_attrs x) = (c, counter', a, event) \<Longrightarrow>
    layer_run (x\<lparr>lc_attrs := a\<rparr>)"
| lr_apply: "layer_run x \<Longrightarrow> layer_run (x\<lparr>lc_cached := fst (cache_apply_state layer_cacheable i (lc_cached x))\<rparr>)"

end
