(* ===== verification/Layer_Map.thy ===== *)
theory Layer_Map
  imports Layer_Role
begin

text \<open>
  The layer surfaces of an output, \<open>src/desktop/wayland/layer.rs\<close>: where \<open>arrange\<close> puts them, what it
  leaves for windows, and which map a surface belongs to. The arithmetic saturates as in the code.
  Telling surfaces that they enter or leave the output is modelled with the output and left out here.
\<close>

section \<open>The exclusive edge\<close>

definition opposite :: "edge \<Rightarrow> edge" where
  "opposite e = (case e of Edge_top \<Rightarrow> Edge_bottom | Edge_bottom \<Rightarrow> Edge_top | Edge_left \<Rightarrow> Edge_right | Edge_right \<Rightarrow> Edge_left)"

text \<open>With three edges, the one opposite to the missing edge.\<close>

definition implied_exclusive_edge_for_anchor :: "anchor \<Rightarrow> edge option" where
  "implied_exclusive_edge_for_anchor a =
     (if card a = 1 then Some (the_elem a)
      else if card a = 3 then Some (opposite (the_elem ({Edge_top, Edge_bottom, Edge_left, Edge_right} - a)))
      else None)"

definition effective_exclusive_edge :: "layer_state \<Rightarrow> edge option" where
  "effective_exclusive_edge s =
     (case la_exclusive_edge s of Some e \<Rightarrow> Some e | None \<Rightarrow> implied_exclusive_edge_for_anchor (la_anchor s))"

definition effective_exclusive_zone :: "layer_state \<Rightarrow> exclusive_zone" where
  "effective_exclusive_zone s =
     (case la_exclusive_zone s of
        Exclusive n \<Rightarrow> if effective_exclusive_edge s = None then Neutral else Exclusive n
      | z \<Rightarrow> z)"

section \<open>Placing a surface\<close>

text \<open>One axis: the anchors at its start and end, the margins there, the requested extent and the source area.\<close>

definition place_extent :: "bool \<Rightarrow> bool \<Rightarrow> i32 \<Rightarrow> i32 \<Rightarrow> i32" where
  "place_extent at_start at_end requested source =
     (let w = min requested source;
          w = (if w = 0 then trunc_div source 2 else w)
      in if at_start \<and> at_end then source else w)"

definition place_start :: "bool \<Rightarrow> bool \<Rightarrow> i32 \<Rightarrow> i32 \<Rightarrow> i32 \<Rightarrow> i32 \<Rightarrow> i32" where
  "place_start at_start at_end margin_start loc source w =
     (if at_start then sat_add loc margin_start
      else if at_end then sat_add loc (sat_sub source w)
      else sat_add loc (i32_sub (trunc_div source 2) (trunc_div w 2)))"

definition shrink_source :: "bool \<Rightarrow> bool \<Rightarrow> i32 \<Rightarrow> i32 \<Rightarrow> i32 \<Rightarrow> i32" where
  "shrink_source at_start at_end margin_start margin_end w =
     (let w = (if at_start then sat_sub w margin_start else w) in if at_end then sat_sub w margin_end else w)"

definition place_layer :: "rect \<Rightarrow> rect \<Rightarrow> layer_state \<Rightarrow> point \<times> sz" where
  "place_layer output_rect zone data =
     (let source = (case la_exclusive_zone data of DontCare \<Rightarrow> output_rect | _ \<Rightarrow> zone);
          a = la_anchor data; m = la_margin data;
          source_w = shrink_source (Edge_left \<in> a) (Edge_right \<in> a) (mg_left m) (mg_right m) (sw (rsize source));
          source_h = shrink_source (Edge_top \<in> a) (Edge_bottom \<in> a) (mg_top m) (mg_bottom m) (sh (rsize source));
          w = place_extent (Edge_left \<in> a) (Edge_right \<in> a) (sw (la_size data)) source_w;
          h = place_extent (Edge_top \<in> a) (Edge_bottom \<in> a) (sh (la_size data)) source_h;
          x = place_start (Edge_left \<in> a) (Edge_right \<in> a) (mg_left m) (px (rloc source)) source_w w;
          y = place_start (Edge_top \<in> a) (Edge_bottom \<in> a) (mg_top m) (py (rloc source)) source_h h
      in (point_new x y, size_new (max w 0) (max h 0)))"

text \<open>What remains of the zone after an exclusive surface.\<close>

definition shrink_zone :: "layer_state \<Rightarrow> rect \<Rightarrow> rect" where
  "shrink_zone data zone =
     (case la_exclusive_zone data of
        Exclusive amount \<Rightarrow>
          (let amount = sint amount; m = la_margin data; x = px (rloc zone); y = py (rloc zone); w = sw (rsize zone); h = sh (rsize zone)
           in case effective_exclusive_edge data of
                Some Edge_top \<Rightarrow> (let sum = sat_add amount (mg_top m) in rect_new (point_new x (sat_add y sum)) (size_new w (sat_sub h sum)))
              | Some Edge_bottom \<Rightarrow> rect_new (rloc zone) (size_new w (sat_sub h (sat_add amount (mg_bottom m))))
              | Some Edge_left \<Rightarrow> (let sum = sat_add amount (mg_left m) in rect_new (point_new (sat_add x sum) y) (size_new (sat_sub w sum) h))
              | Some Edge_right \<Rightarrow> rect_new (rloc zone) (size_new (sat_sub w (sat_add amount (mg_right m))) h)
              | None \<Rightarrow> zone)
      | _ \<Rightarrow> zone)"

section \<open>Arranging\<close>

text \<open>A layer surface: the state of its last commit, whether the initial configure was sent, the size of its
  pending server state, the location in its user data and the number of calls to
  \<open>send_pending_configure\<close>.\<close>

record layer_surface =
  ly_state :: layer_state
  ly_alive :: bool
  ly_configured :: bool
  ly_pending_size :: "sz option"
  ly_location :: "point option"
  ly_configures :: nat

type_synonym layer_store = "nat \<Rightarrow> layer_surface"

text \<open>The output of a map is gone, or has a logical area.\<close>

record layer_map =
  lm_layers :: "nat list"
  lm_output :: "rect option"
  lm_zone :: rect

fun arrange_loop :: "rect \<Rightarrow> nat list \<Rightarrow> rect \<Rightarrow> layer_store \<Rightarrow> bool \<Rightarrow> rect \<times> layer_store \<times> bool" where
  "arrange_loop output_rect [] zone st changed = (zone, st, changed)"
| "arrange_loop output_rect (i # is) zone st changed =
     (let s = st i; data = ly_state s;
          (location, size) = place_layer output_rect zone data;
          zone = shrink_zone data zone;
          size_changed = ly_pending_size s \<noteq> Some size;
          s = s\<lparr>ly_pending_size := Some size\<rparr>;
          s = (if size_changed \<and> ly_configured s then s\<lparr>ly_configures := Suc (ly_configures s)\<rparr> else s);
          location_changed = ly_location s \<noteq> Some location;
          s = s\<lparr>ly_location := Some location\<rparr>
      in arrange_loop output_rect is zone (st(i := s)) (changed \<or> size_changed \<or> location_changed))"

definition is_exclusive :: "layer_surface \<Rightarrow> bool" where
  "is_exclusive s \<longleftrightarrow> (case effective_exclusive_zone (ly_state s) of Exclusive _ \<Rightarrow> True | _ \<Rightarrow> False)"

definition arrange_order :: "layer_store \<Rightarrow> nat list \<Rightarrow> nat list" where
  "arrange_order st ls = filter (\<lambda>i. is_exclusive (st i)) ls @ filter (\<lambda>i. \<not> is_exclusive (st i)) ls"

definition arrange :: "layer_map \<Rightarrow> layer_store \<Rightarrow> layer_map \<times> layer_store \<times> bool" where
  "arrange m st =
     (case lm_output m of
        None \<Rightarrow> (m, st, False)
      | Some output_rect \<Rightarrow>
          (let (zone, st, changed) = arrange_loop output_rect (arrange_order st (lm_layers m)) output_rect st False
           in (m\<lparr>lm_zone := rect_new (rloc zone) (size_new (max (sw (rsize zone)) 0) (max (sh (rsize zone)) 0))\<rparr>, st, changed)))"

section \<open>Mapping\<close>

datatype layer_map_error = Already_mapped

text \<open>\<open>layer_map_for_output\<close> of an output with that logical area.\<close>

definition layer_map_new :: "rect \<Rightarrow> layer_map" where
  "layer_map_new output_rect = \<lparr>lm_layers = [], lm_output = Some output_rect, lm_zone = output_rect\<rparr>"

text \<open>\<open>layer_geometry\<close>, with the geometry of the surface itself given.\<close>

definition layer_geometry :: "rect \<Rightarrow> nat \<Rightarrow> layer_map \<Rightarrow> layer_store \<Rightarrow> rect option" where
  "layer_geometry geo i m st =
     (if i \<notin> set (lm_layers m) then None
      else Some (rect_new (point_add (rloc geo) (case ly_location (st i) of Some l \<Rightarrow> l | None \<Rightarrow> point_new 0 0)) (rsize geo)))"

text \<open>The surfaces on one of the four layers, lowest first.\<close>

definition layers_on :: "wlr_layer \<Rightarrow> layer_map \<Rightarrow> layer_store \<Rightarrow> nat list" where
  "layers_on l m st = filter (\<lambda>i. la_layer (ly_state (st i)) = l) (lm_layers m)"

definition map_layer :: "nat \<Rightarrow> layer_map \<Rightarrow> layer_store \<Rightarrow> layer_map_error + layer_map \<times> layer_store" where
  "map_layer i m st =
     (if i \<in> set (lm_layers m) then Inr (m, st)
      else if ly_location (st i) \<noteq> None then Inl Already_mapped
      else let (m, st, _) = arrange (m\<lparr>lm_layers := lm_layers m @ [i]\<rparr>) st in Inr (m, st))"

definition unmap_layer :: "nat \<Rightarrow> layer_map \<Rightarrow> layer_store \<Rightarrow> layer_map \<times> layer_store" where
  "unmap_layer i m st =
     (if i \<in> set (lm_layers m)
      then let st = st(i := (st i)\<lparr>ly_location := None\<rparr>); (m, st, _) = arrange (m\<lparr>lm_layers := remove1 i (lm_layers m)\<rparr>) st in (m, st)
      else (m, st))"

definition layer_map_cleanup :: "layer_map \<Rightarrow> layer_store \<Rightarrow> layer_map \<times> layer_store" where
  "layer_map_cleanup m st =
     (if \<exists>i\<in>set (lm_layers m). \<not> ly_alive (st i)
      then let (m, st, _) = arrange (m\<lparr>lm_layers := filter (\<lambda>i. ly_alive (st i)) (lm_layers m)\<rparr>) st in (m, st)
      else (m, st))"

end
