(* ===== verification/Layer_Client.thy ===== *)
theory Layer_Client
  imports Layer_Role
begin

text \<open>
  What the requests and the hook of a layer surface guarantee about its committed states, the states
  the arrangement of layers works on, and what unmapping loses.
\<close>

section \<open>Typed and consistent states\<close>

definition margins_typed :: "margins \<Rightarrow> bool" where
  "margins_typed m \<longleftrightarrow> in_i32 (mg_top m) \<and> in_i32 (mg_right m) \<and> in_i32 (mg_bottom m) \<and> in_i32 (mg_left m)"

text \<open>The zone is a positive i32 whenever it is exclusive.\<close>

fun zone_typed :: "exclusive_zone \<Rightarrow> bool" where
  "zone_typed (Exclusive n) \<longleftrightarrow> 0 < sint n"
| "zone_typed _ \<longleftrightarrow> True"

definition layer_typed :: "layer_state \<Rightarrow> bool" where
  "layer_typed s \<longleftrightarrow> in_i32 (sw (la_size s)) \<and> in_i32 (sh (la_size s)) \<and> margins_typed (la_margin s) \<and> zone_typed (la_exclusive_zone s)"

text \<open>A committed state passed the checks, or is the one a surface without role is left with.\<close>

definition layer_committed :: "layer_state \<Rightarrow> bool" where
  "layer_committed s \<longleftrightarrow> layer_typed s \<and> (s = layer_state_default \<or> layer_check s = None)"

lemma in_i32_sint [simp]: "in_i32 (sint (w :: u32))"
  using sint_ge[of w] sint_lt[of w] by (simp add: in_i32_def)

lemma sint_of_i32: "in_i32 v \<Longrightarrow> sint (word_of_int v :: u32) = v"
  by (simp add: int_word_sint in_i32_def)

lemma default_typed [simp]: "layer_typed layer_state_default" "layer_committed layer_state_default"
  by (simp_all add: layer_typed_def layer_committed_def layer_state_default_def size_new_def margins_typed_def)

lemma typed_keeps [simp]:
  "layer_typed (s\<lparr>la_layer := l\<rparr>) = layer_typed s" "layer_typed (s\<lparr>la_last_acked := c\<rparr>) = layer_typed s"
  "layer_check (s\<lparr>la_layer := l\<rparr>) = layer_check s" "layer_check (s\<lparr>la_last_acked := c\<rparr>) = layer_check s"
  by (simp_all add: layer_typed_def layer_check_def split: option.split)

lemma layer_check_None:
  "layer_check s = None \<longleftrightarrow>
     (sw (la_size s) = 0 \<longrightarrow> {Edge_left, Edge_right} \<subseteq> la_anchor s) \<and> (sh (la_size s) = 0 \<longrightarrow> {Edge_top, Edge_bottom} \<subseteq> la_anchor s) \<and>
     (\<forall>e. la_exclusive_edge s = Some e \<longrightarrow> e \<in> la_anchor s)"
  by (auto simp: layer_check_def anchored_horizontally_def anchored_vertically_def split: option.split)

lemma request_keeps_typed:
  "layer_surface_request r s = Inr s' \<Longrightarrow> request_typed r \<Longrightarrow> layer_typed s \<Longrightarrow> layer_typed s'"
  by (cases r)
    (auto simp: layer_typed_def size_new_def margins_typed_def exclusive_zone_from_def sint_of_i32 split: option.splits if_splits)

lemma pre_commit_committed:
  assumes "layer_pre_commit alive b a p = Inr (a', p')" "layer_typed p" "\<not> alive \<Longrightarrow> p = layer_state_default"
  shows "layer_committed p'" "\<not> alive \<Longrightarrow> p' = layer_state_default"
  using assms by (auto simp: layer_pre_commit_def layer_committed_def Let_def split: if_splits option.splits)

section \<open>The states of a surface\<close>

definition client_inv :: "layer_client \<Rightarrow> bool" where
  "client_inv x \<longleftrightarrow> layer_typed (cs_pending (lc_cached x)) \<and> (\<not> lc_alive x \<longrightarrow> cs_pending (lc_cached x) = layer_state_default) \<and>
     layer_committed (cs_current (lc_cached x)) \<and> (\<forall>(j, s)\<in>set (cs_cache (lc_cached x)). layer_committed s)"

lemma client_invI:
  "layer_typed (cs_pending (lc_cached x)) \<Longrightarrow> (\<not> lc_alive x \<Longrightarrow> cs_pending (lc_cached x) = layer_state_default) \<Longrightarrow>
   layer_committed (cs_current (lc_cached x)) \<Longrightarrow> (\<And>j s. (j, s) \<in> set (cs_cache (lc_cached x)) \<Longrightarrow> layer_committed s) \<Longrightarrow> client_inv x"
  unfolding client_inv_def by blast

lemma client_invD:
  assumes "client_inv x"
  shows "layer_typed (cs_pending (lc_cached x))" "\<not> lc_alive x \<Longrightarrow> cs_pending (lc_cached x) = layer_state_default"
    "layer_committed (cs_current (lc_cached x))" "(j, s) \<in> set (cs_cache (lc_cached x)) \<Longrightarrow> layer_committed s"
  using assms unfolding client_inv_def by blast+

lemma client_inv_cached: "client_inv x \<Longrightarrow> lc_cached y = lc_cached x \<Longrightarrow> lc_alive y = lc_alive x \<Longrightarrow> client_inv y"
  by (simp add: client_inv_def)

lemma commit_values:
  "(j, v) \<in> set (cs_cache (fst (cache_commit (copy_cacheable d) i s))) \<Longrightarrow> (j, v) \<in> set (cs_cache s) \<or> v = cs_pending s \<or> v = cs_current s"
  "cs_current (fst (cache_commit (copy_cacheable d) i s)) \<in> insert (cs_pending s) (insert (cs_current s) (snd ` set (cs_cache s)))"
  by (auto simp: cache_commit_def copy_cacheable_def Let_def dest: in_set_butlastD split: option.splits prod.splits if_splits)

lemma client_commit_inv:
  assumes "client_inv x" "\<not> lc_dead (client_commit b i x)" shows "client_inv (client_commit b i x)"
proof (cases "layer_pre_commit (lc_alive x) b (lc_attrs x) (cs_pending (lc_cached x))")
  case (Inl e)
  then show ?thesis using assms(2) by (simp add: client_commit_def)
next
  case (Inr res)
  obtain a p where res: "res = (a, p)" by fastforce
  note D = client_invD[OF assms(1)]
  note P = pre_commit_committed[OF Inr[unfolded res] D(1,2)]
  let ?s = "(lc_cached x)\<lparr>cs_pending := p\<rparr>"
  let ?c = "fst (cache_commit layer_cacheable i ?s)"
  have x': "client_commit b i x = x\<lparr>lc_attrs := a, lc_cached := ?c\<rparr>" by (simp add: client_commit_def Inr res Let_def)
  have pend: "cs_pending ?c = p" unfolding layer_cacheable_def by (simp add: commit_copied)
  have cur: "layer_committed (cs_current ?c)"
    using commit_values(2)[of layer_state_default i ?s] P(1) D(3,4) unfolding layer_cacheable_def by auto
  have queue: "layer_committed v" if "(j, v) \<in> set (cs_cache ?c)" for j v
    using commit_values(1)[OF that[unfolded layer_cacheable_def]] P(1) D(3,4) by auto
  show ?thesis unfolding x' using pend cur queue P D(2) by (intro client_invI) (auto simp: layer_committed_def)
qed

lemma apply_values:
  assumes "c = fst (cache_apply_state (copy_cacheable d) i s)"
  shows "set (cs_cache c) \<subseteq> set (cs_cache s)" "cs_current c \<in> insert (cs_current s) (snd ` set (cs_cache s))"
proof -
  have *: "set q' \<subseteq> set q \<and> cur' \<in> insert cur (snd ` set q)" if "apply_loop (copy_cacheable d) i q cur = (q', cur', e)" for q cur q' cur' e
    using that
  proof (induction q arbitrary: cur e)
    case (Cons x q)
    then show ?case by (cases x) (fastforce simp: copy_cacheable_def split: if_splits prod.splits)
  qed simp
  obtain q cur e where r: "apply_loop (copy_cacheable d) i (cs_cache s) (cs_current s) = (q, cur, e)"
    by (cases "apply_loop (copy_cacheable d) i (cs_cache s) (cs_current s)") auto
  show "set (cs_cache c) \<subseteq> set (cs_cache s)" "cs_current c \<in> insert (cs_current s) (snd ` set (cs_cache s))"
    using *[OF r] by (simp_all add: assms cache_apply_state_def r)
qed

lemma client_apply_inv:
  assumes "client_inv x" shows "client_inv (x\<lparr>lc_cached := fst (cache_apply_state layer_cacheable i (lc_cached x))\<rparr>)"
proof -
  note D = client_invD[OF assms]
  let ?c = "fst (cache_apply_state layer_cacheable i (lc_cached x))"
  note V = apply_values[of ?c layer_state_default i "lc_cached x", folded layer_cacheable_def, OF refl]
  have "cs_pending ?c = cs_pending (lc_cached x)" unfolding layer_cacheable_def by (rule apply_copied)
  moreover have "layer_committed (cs_current ?c)" using V(2) D(3,4) by auto
  moreover have "layer_committed v" if "(j, v) \<in> set (cs_cache ?c)" for j v using V(1) that D(4) by blast
  ultimately show ?thesis using D(1,2) by (intro client_invI) auto
qed

lemma client_inv_run: "layer_run x \<Longrightarrow> \<not> lc_dead x \<Longrightarrow> client_inv x"
proof (induction rule: layer_run.induct)
  case lr_new
  then show ?case by (simp add: client_inv_def layer_client_new_def cached_state_default_def layer_cacheable_def copy_cacheable_def)
next
  case (lr_get x v)
  then show ?case
    by (auto simp: client_get_layer_surface_def get_layer_surface_def client_inv_def split: option.splits sum.splits)
next
  case (lr_request x r)
  then show ?case
    by (auto simp: client_request_def client_inv_def split: sum.splits dest: request_keeps_typed)
next
  case (lr_ack x serial)
  then show ?case by (auto simp: client_ack_def client_inv_def split: sum.splits)
next
  case (lr_commit x buffer i)
  then show ?case by (simp add: client_commit_inv)
next
  case (lr_destroy x)
  then show ?case by (simp add: client_destroy_def layer_destroyed_def client_inv_def)
next
  case (lr_apply x i)
  then show ?case by (simp add: client_apply_inv)
qed (simp_all add: client_inv_def)

text \<open>C24. As long as the client was not sent a protocol error, whatever it requests, acknowledges, commits and
  destroys, and in whatever order its commits are applied, every state that was committed is of the
  declared types, with an exclusive zone that is positive, and asks for no zero extent without both
  anchors of that axis and for no exclusive edge it is not anchored to, unless it is the state a surface
  is left with when it is unmapped.\<close>

theorem layer_committed_states:
  assumes "layer_run x" "\<not> lc_dead x"
  shows "\<forall>s \<in> insert (cs_current (lc_cached x)) (snd ` set (cs_cache (lc_cached x))). layer_typed s \<and>
    (s = layer_state_default \<or>
     (sw (la_size s) = 0 \<longrightarrow> {Edge_left, Edge_right} \<subseteq> la_anchor s) \<and> (sh (la_size s) = 0 \<longrightarrow> {Edge_top, Edge_bottom} \<subseteq> la_anchor s) \<and>
     (\<forall>e. la_exclusive_edge s = Some e \<longrightarrow> e \<in> la_anchor s))"
proof -
  note D = client_invD[OF client_inv_run[OF assms]]
  have "layer_committed s" if "s \<in> insert (cs_current (lc_cached x)) (snd ` set (cs_cache (lc_cached x)))" for s
    using that D(3,4) by auto
  then show ?thesis
    unfolding layer_committed_def layer_check_None by blast
qed

section \<open>An example\<close>

text \<open>A panel of 30 pixels at the top, on the layer above the windows.\<close>

definition panel_requests :: "layer_request list" where
  "panel_requests = [Set_size 0 30, Set_anchor 13, Set_exclusive_zone 30]"

definition panel_client :: layer_client where
  "panel_client = client_commit None None (fold client_request panel_requests (client_get_layer_surface 2 layer_client_new))"

lemma fold_requests:
  "layer_run (fold client_request rs x) \<Longrightarrow> \<not> lc_dead (fold client_request rs x) \<Longrightarrow> lc_alive (fold client_request rs x) \<Longrightarrow>
   request_typed r \<Longrightarrow> layer_run (fold client_request (rs @ [r]) x)"
  by (simp add: lr_request)

lemma panel_alive:
  "\<not> lc_dead (fold client_request rs (client_get_layer_surface 2 layer_client_new)) \<and>
   lc_alive (fold client_request rs (client_get_layer_surface 2 layer_client_new))"
  if "rs \<in> {[], take 1 panel_requests, take 2 panel_requests, take 3 panel_requests}"
  using that unfolding panel_requests_def by (elim insertE emptyE; hypsubst) code_simp+

lemma panel_run: "layer_run panel_client"
proof -
  let ?x = "client_get_layer_surface 2 layer_client_new"
  have 0: "layer_run ?x" by (rule lr_get[OF lr_new]) (simp_all add: layer_client_new_def)
  have 1: "layer_run (fold client_request [Set_size 0 30] ?x)"
    using fold_requests[of "[]" ?x "Set_size 0 30"] 0 panel_alive[of "[]"] by simp
  have 2: "layer_run (fold client_request [Set_size 0 30, Set_anchor 13] ?x)"
    using fold_requests[of "[Set_size 0 30]" ?x "Set_anchor 13"] 1 panel_alive[of "[Set_size 0 30]"] by (simp add: panel_requests_def)
  have 3: "layer_run (fold client_request panel_requests ?x)"
    using fold_requests[of "[Set_size 0 30, Set_anchor 13]" ?x "Set_exclusive_zone 30"] 2 panel_alive[of "[Set_size 0 30, Set_anchor 13]"]
    by (simp add: panel_requests_def in_i32_def)
  show ?thesis unfolding panel_client_def using 3 panel_alive[of panel_requests] by (intro lr_commit) (simp_all add: panel_requests_def)
qed

lemma panel_not_dead: "\<not> lc_dead panel_client"
  by code_simp

text \<open>
  The commit for which the client is sent an error is made all the same: a surface that asks for no
  width and no anchor gets that state as its current one.
\<close>

theorem refused_state_becomes_current:
  "let x = client_commit None None (client_get_layer_surface 2 layer_client_new)
   in lc_dead x \<and> layer_check (cs_current (lc_cached x)) = Some Invalid_size"
  by code_simp

theorem layer_committed_states_witness: "layer_typed (cs_current (lc_cached panel_client))"
  using layer_committed_states[OF panel_run panel_not_dead] by blast

section \<open>Unmapping\<close>

text \<open>
  Unmapping a layer surface puts it on the background: the commit that removes the buffer replaces the
  whole pending state by its default, with it the layer \<open>get_layer_surface\<close> was given.
\<close>

theorem layer_unmap_loses_layer:
  assumes "layer_check p = None" "la_last_acked p \<noteq> None"
  shows "\<exists>a'. layer_pre_commit True (Some Removed) a p = Inr (a', layer_state_default) \<and> la_layer layer_state_default = Background"
  using assms by (simp add: layer_pre_commit_def buffer_after_def Let_def layer_state_default_def)

theorem layer_unmap_loses_layer_witness:
  "\<exists>a'. layer_pre_commit True (Some Removed) role_default
     (layer_state_default\<lparr>la_size := size_new 10 10, la_layer := Overlay, la_last_acked := Some \<lparr>cf_state = None, cf_serial = Serial 1, cf_extra = ()\<rparr>\<rparr>)
   = Inr (a', layer_state_default)"
  using layer_unmap_loses_layer[of "layer_state_default\<lparr>la_size := size_new 10 10, la_layer := Overlay,
     la_last_acked := Some \<lparr>cf_state = None, cf_serial = Serial 1, cf_extra = ()\<rparr>\<rparr>" role_default]
  by (simp add: layer_check_def layer_state_default_def size_new_def)

end
