(* ===== verification/Layer_Zone.thy ===== *)
theory Layer_Zone
  imports Layer_Map Layer_Client Pixels
begin

text \<open>
  What arranging the layers of an output yields, against a reference that adds up the strips reserved at
  each edge: the zone left for windows is exact, despite the saturation, and the surfaces stay inside.
\<close>

section \<open>The reference\<close>

fun margin_at :: "edge \<Rightarrow> margins \<Rightarrow> int" where
  "margin_at Edge_top m = mg_top m"
| "margin_at Edge_bottom m = mg_bottom m"
| "margin_at Edge_left m = mg_left m"
| "margin_at Edge_right m = mg_right m"

definition reserved_strip :: "edge \<Rightarrow> layer_state \<Rightarrow> int" where
  "reserved_strip e s =
     (case la_exclusive_zone s of
        Exclusive n \<Rightarrow> if effective_exclusive_edge s = Some e then sint n + margin_at e (la_margin s) else 0
      | _ \<Rightarrow> 0)"

definition reserved :: "edge \<Rightarrow> layer_state list \<Rightarrow> int" where
  "reserved e ss = (\<Sum>s\<leftarrow>ss. reserved_strip e s)"

definition plain_layer :: "layer_state \<Rightarrow> bool" where
  "plain_layer s \<longleftrightarrow> layer_typed s \<and> (\<forall>e. 0 \<le> margin_at e (la_margin s))"

lemma plain_layerD:
  assumes "plain_layer s"
  shows "0 \<le> margin_at e (la_margin s)" "in_i32 (margin_at e (la_margin s))" "la_exclusive_zone s = Exclusive n \<Longrightarrow> 0 < sint n"
    "in_i32 (sw (la_size s))" "in_i32 (sh (la_size s))"
proof -
  show "0 \<le> margin_at e (la_margin s)" using assms by (simp add: plain_layer_def)
  show "in_i32 (margin_at e (la_margin s))" using assms by (cases e) (simp_all add: plain_layer_def layer_typed_def margins_typed_def)
  show "la_exclusive_zone s = Exclusive n \<Longrightarrow> 0 < sint n" "in_i32 (sw (la_size s))" "in_i32 (sh (la_size s))"
    using assms by (simp_all add: plain_layer_def layer_typed_def)
qed

lemma reserved_strip_nonneg: "plain_layer s \<Longrightarrow> 0 \<le> reserved_strip e s"
  using plain_layerD(1,3)[of s] by (fastforce simp: reserved_strip_def split: exclusive_zone.split intro: add_nonneg_nonneg)

lemma reserved_nonneg: "\<forall>s\<in>set ss. plain_layer s \<Longrightarrow> 0 \<le> reserved e ss"
  unfolding reserved_def by (intro sum_list_nonneg) (auto intro: reserved_strip_nonneg)

section \<open>One axis of the zone\<close>

text \<open>Start and extent of what is left of \<open>w0\<close> when \<open>a\<close> is reserved at its start and \<open>b\<close> at its end.\<close>

definition axis_left :: "int \<Rightarrow> int \<Rightarrow> int \<Rightarrow> int \<Rightarrow> int \<Rightarrow> bool" where
  "axis_left w0 a b x w \<longleftrightarrow> in_i32 x \<and> in_i32 w \<and> 0 \<le> a \<and> 0 \<le> b \<and> in_i32 w0 \<and>
     (if a + b < w0 then x = a \<and> w = w0 - a - b else w \<le> 0)"

lemma axis_init: "in_i32 w0 \<Longrightarrow> 0 \<le> w0 \<Longrightarrow> axis_left w0 0 0 0 w0"
  by (simp add: axis_left_def)

lemma axis_start:
  assumes "axis_left w0 a b x w" "0 \<le> n" "0 \<le> m" "in_i32 n" "in_i32 m"
  shows "axis_left w0 (a + (n + m)) b (sat_add x (sat_add n m)) (sat_sub w (sat_add n m))"
proof -
  have "sat_add n m = min (n + m) I32_MAX" using assms by (simp add: sat_add_def sat32_def in_i32_def min_def)
  moreover have "0 \<le> sat_add n m" using assms by (simp add: sat_add_def sat32_def in_i32_def)
  ultimately show ?thesis
    using assms unfolding axis_left_def by (auto simp: sat_add_def sat_sub_def sat32_def in_i32_def split: if_splits)
qed

lemma axis_end:
  assumes "axis_left w0 a b x w" "0 \<le> n" "0 \<le> m" "in_i32 n" "in_i32 m"
  shows "axis_left w0 a (b + (n + m)) x (sat_sub w (sat_add n m))"
proof -
  have "sat_add n m = min (n + m) I32_MAX" using assms by (simp add: sat_add_def sat32_def in_i32_def min_def)
  moreover have "0 \<le> sat_add n m" using assms by (simp add: sat_add_def sat32_def in_i32_def)
  ultimately show ?thesis
    using assms unfolding axis_left_def by (auto simp: sat_add_def sat_sub_def sat32_def in_i32_def split: if_splits)
qed

text \<open>A surface is placed inside its source.\<close>

lemma place_axis:
  assumes "in_i32 x" "in_i32 w" "0 \<le> x" "0 < w \<Longrightarrow> x + w \<le> I32_MAX" "in_i32 r" "0 \<le> ms" "0 \<le> me" "in_i32 ms" "in_i32 me"
    and src: "src = shrink_source s t ms me w" and e: "e = place_extent s t r src" and pos: "0 < e"
  shows "x \<le> place_start s t ms x src e \<and> place_start s t ms x src e + e \<le> x + w \<and> 0 < w \<and> in_i32 (place_start s t ms x src e) \<and> in_i32 e"
proof -
  have src': "src \<le> w - (if s then ms else 0) - (if t then me else 0) \<or> src < 0 \<or> src = 0" "in_i32 src"
    "src > 0 \<Longrightarrow> src = w - (if s then ms else 0) - (if t then me else 0)"
    using assms unfolding shrink_source_def by (auto simp: Let_def sat_sub_def sat32_def in_i32_def split: if_splits)
  have half: "src \<ge> 0 \<Longrightarrow> trunc_div src 2 = src div 2" "trunc_div e 2 = e div 2" using pos by (simp_all add: trunc_div_nonneg)
  have zero: "trunc_div 0 2 = 0" by (simp add: trunc_div_def)
  have pos_src: "0 < src" and le: "e \<le> src" and both: "s \<Longrightarrow> t \<Longrightarrow> e = src"
    using pos unfolding e place_extent_def by (auto simp: Let_def half zero min_def split: if_splits)
  have w: "src = w - (if s then ms else 0) - (if t then me else 0)" using src'(3) pos_src by blast
  have wpos: "0 < w" using w pos_src assms(6,7) by (auto split: if_splits)
  have x: "x + w \<le> I32_MAX" using assms(4) wpos by blast
  have mid: "0 \<le> src div 2 - e div 2" "src div 2 - e div 2 + e \<le> src" using le pos by linarith+
  define c d where "c = (if s then ms else 0)" and "d = (if t then me else 0)"
  have cd: "0 \<le> c" "0 \<le> d" "src = w - c - d" using assms(6,7) w by (simp_all add: c_def d_def)
  have rx: "in_i32 e" "in_i32 (src - e)" using le pos src'(2) by (simp_all add: in_i32_def)
  have range: "in_i32 (x + k)" "x \<le> x + k" "x + k + e \<le> x + w" if "0 \<le> k" "k + e \<le> w" for k
  proof -
    have "x + k \<le> I32_MAX" using that pos x by linarith
    then show "in_i32 (x + k)" using that(1) assms(3) by (simp add: in_i32_def)
    show "x \<le> x + k" "x + k + e \<le> x + w" using that by simp_all
  qed
  have goal: ?thesis if "place_start s t ms x src e = x + k" "0 \<le> k" "k + e \<le> w" for k
    using that(1) range[OF that(2,3)] wpos rx(1) by simp
  consider "s" | "\<not> s" "t" | "\<not> s" "\<not> t" by blast
  then show ?thesis
  proof cases
    case 1
    have k: "0 \<le> ms" "ms + e \<le> w" using 1 cd le assms(6) by (simp_all add: c_def)
    show ?thesis using 1 range(1)[OF k] by (intro goal[OF _ k]) (simp add: place_start_def range_simps)
  next
    case 2
    have k: "0 \<le> src - e" "src - e + e \<le> w" using cd le by simp_all
    show ?thesis using 2 range(1)[OF k] rx(2) by (intro goal[OF _ k]) (simp add: place_start_def range_simps)
  next
    case 3
    have k: "0 \<le> src div 2 - e div 2" "src div 2 - e div 2 + e \<le> w" using mid cd by linarith+
    have "in_i32 (src div 2 - e div 2)" using mid src'(2) pos by (simp add: in_i32_def)
    then show ?thesis using 3 range(1)[OF k] half(2) half(1) pos_src by (intro goal[OF _ k]) (simp add: place_start_def range_simps)
  qed
qed

section \<open>The zone while surfaces are arranged\<close>

definition zone_left :: "int \<Rightarrow> int \<Rightarrow> layer_state list \<Rightarrow> rect \<Rightarrow> bool" where
  "zone_left w h ss z \<longleftrightarrow> axis_left w (reserved Edge_left ss) (reserved Edge_right ss) (rx z) (rw z) \<and>
     axis_left h (reserved Edge_top ss) (reserved Edge_bottom ss) (ry z) (rh z)"

lemma reserved_snoc: "reserved e (ss @ [s]) = reserved e ss + reserved_strip e s"
  by (simp add: reserved_def)

lemma zone_init: "in_i32 w \<Longrightarrow> 0 \<le> w \<Longrightarrow> in_i32 h \<Longrightarrow> 0 \<le> h \<Longrightarrow> zone_left w h [] (rect_new (point_new 0 0) (size_new w h))"
  by (simp add: zone_left_def reserved_def axis_init rect_new_def point_new_def size_new_def)

lemma shrink_zone_left:
  assumes z: "zone_left w h ss z" and s: "plain_layer s"
  shows "zone_left w h (ss @ [s]) (shrink_zone s z)"
proof (cases "la_exclusive_zone s")
  case (Exclusive n)
  have n: "0 \<le> sint n" "in_i32 (sint n)" using plain_layerD(3)[OF s Exclusive] by simp_all
  note m = plain_layerD(1,2)[OF s]
  note Z = z[unfolded zone_left_def, THEN conjunct1] z[unfolded zone_left_def, THEN conjunct2]
  note defs = zone_left_def reserved_snoc reserved_strip_def shrink_zone_def Exclusive Let_def rect_new_def point_new_def size_new_def
  show ?thesis
  proof (cases "effective_exclusive_edge s")
    case None
    then show ?thesis using z by (simp add: defs)
  next
    case (Some e)
    show ?thesis
    proof (cases e)
      case Edge_top
      then show ?thesis using Z(1) axis_start[OF Z(2) n(1) m(1)[of Edge_top] n(2) m(2)[of Edge_top]] Some by (simp add: defs)
    next
      case Edge_bottom
      then show ?thesis using Z(1) axis_end[OF Z(2) n(1) m(1)[of Edge_bottom] n(2) m(2)[of Edge_bottom]] Some by (simp add: defs)
    next
      case Edge_left
      then show ?thesis using Z(2) axis_start[OF Z(1) n(1) m(1)[of Edge_left] n(2) m(2)[of Edge_left]] Some by (simp add: defs)
    next
      case Edge_right
      then show ?thesis using Z(2) axis_end[OF Z(1) n(1) m(1)[of Edge_right] n(2) m(2)[of Edge_right]] Some by (simp add: defs)
    qed
  qed
next
  case Neutral
  then show ?thesis using z by (simp add: zone_left_def reserved_snoc reserved_strip_def shrink_zone_def)
next
  case DontCare
  then show ?thesis using z by (simp add: zone_left_def reserved_snoc reserved_strip_def shrink_zone_def)
qed

lemma shrink_zones_left:
  "zone_left w h rs z \<Longrightarrow> \<forall>s\<in>set ss. plain_layer s \<Longrightarrow> zone_left w h (rs @ ss) (fold shrink_zone ss z)"
proof (induction ss arbitrary: rs z)
  case (Cons s ss)
  then show ?case using Cons.IH[OF shrink_zone_left[of w h rs z s]] by simp
qed simp

definition clamp_zone :: "rect \<Rightarrow> rect" where
  "clamp_zone z = rect_new (rloc z) (size_new (max (sw (rsize z)) 0) (max (sh (rsize z)) 0))"

lemma axis_pixels:
  "axis_left w0 a b x w \<Longrightarrow> x \<le> p \<and> p < sat_add x (max w 0) \<longleftrightarrow> a \<le> p \<and> p < w0 - b"
  unfolding axis_left_def by (auto simp: sat_add_def sat32_def in_i32_def max_def split: if_splits)

lemma zone_pixels:
  "zone_left w h ss z \<Longrightarrow> pixels (clamp_zone z) =
     {(x, y). reserved Edge_left ss \<le> x \<and> x < w - reserved Edge_right ss \<and> reserved Edge_top ss \<le> y \<and> y < h - reserved Edge_bottom ss}"
proof -
  assume z: "zone_left w h ss z"
  note X = axis_pixels[OF z[unfolded zone_left_def, THEN conjunct1]]
  note Y = axis_pixels[OF z[unfolded zone_left_def, THEN conjunct2]]
  have "p \<in> pixels (clamp_zone z) \<longleftrightarrow> reserved Edge_left ss \<le> fst p \<and> fst p < w - reserved Edge_right ss \<and>
      reserved Edge_top ss \<le> snd p \<and> snd p < h - reserved Edge_bottom ss" for p
    using X[of "fst p"] Y[of "snd p"] unfolding pixels_def clamp_zone_def by (auto simp: rect_new_def size_new_def case_prod_unfold)
  then show ?thesis by auto
qed

section \<open>Where surfaces are put\<close>

text \<open>A rectangle of a zone in that state holds the surfaces placed in it.\<close>

lemma axis_source: "axis_left w0 a b x w \<Longrightarrow> 0 < w \<Longrightarrow> 0 \<le> x \<and> x + w \<le> I32_MAX"
  by (auto simp: axis_left_def in_i32_def split: if_splits)

lemma place_axis_pixels:
  assumes a: "axis_left w0 a b x w" and r: "in_i32 r" and m: "0 \<le> ms" "0 \<le> me" "in_i32 ms" "in_i32 me"
    and p: "place_start s t ms x src e \<le> p" "p < sat_add (place_start s t ms x src e) (max e 0)"
    and src: "src = shrink_source s t ms me w" and e: "e = place_extent s t r src"
  shows "a \<le> p \<and> p < w0 - b"
proof (cases "0 < e \<and> 0 \<le> x")
  case True
  then have "0 < e" "0 \<le> x" by blast+
  have "in_i32 x" "in_i32 w" using a by (simp_all add: axis_left_def)
  note P = place_axis[OF this \<open>0 \<le> x\<close> _ r m src e \<open>0 < e\<close>, OF axis_source[OF a, THEN conjunct2]]
  have "x \<le> p" using P p(1) by linarith
  moreover have "p < sat_add x (max w 0)"
    using P p(2) \<open>0 < e\<close> axis_source[OF a] \<open>0 \<le> x\<close> by (simp add: sat_add_def sat32_def in_i32_def split: if_splits)
  ultimately show ?thesis using axis_pixels[OF a, of p] by blast
next
  case False
  have "e \<le> 0 \<or> 0 < w"
  proof (rule ccontr)
    assume "\<not> (e \<le> 0 \<or> 0 < w)"
    then have "0 < e" "w \<le> 0" by simp_all
    moreover have "src \<le> 0" using \<open>w \<le> 0\<close> m unfolding src shrink_source_def Let_def by (auto simp: sat_sub_def sat32_def)
    moreover have "trunc_div 0 2 = 0" by (simp add: trunc_div_def)
    ultimately show False unfolding e place_extent_def Let_def by (auto simp: min_def split: if_splits)
  qed
  then have "e \<le> 0" using False axis_source[OF a] by fastforce
  moreover have "in_i32 (place_start s t ms x src e)" unfolding place_start_def by simp
  ultimately show ?thesis using p by (simp add: sat_add_def sat32_def in_i32_def max_def split: if_splits)
qed

lemma place_layer_pixels:
  assumes z: "zone_left w h ss z" and s: "plain_layer s" and "la_exclusive_zone s \<noteq> DontCare \<or> z = out"
    and pl: "place_layer out z s = (l, k)"
  shows "pixels (rect_new l k) \<subseteq> pixels (clamp_zone z)"
proof
  fix p :: pixel assume "p \<in> pixels (rect_new l k)"
  obtain x y where p: "p = (x, y)" by fastforce
  have source: "(case la_exclusive_zone s of DontCare \<Rightarrow> out | _ \<Rightarrow> z) = z" using assms(3) by (auto split: exclusive_zone.split)
  note Z = z[unfolded zone_left_def, THEN conjunct1] z[unfolded zone_left_def, THEN conjunct2]
  note m = plain_layerD(1,2)[OF s]
  note in_p = \<open>p \<in> pixels (rect_new l k)\<close>[unfolded pixels_def p]
  have "reserved Edge_left ss \<le> x \<and> x < w - reserved Edge_right ss"
    by (rule place_axis_pixels[OF Z(1) plain_layerD(4)[OF s] m(1)[of Edge_left] m(1)[of Edge_right] m(2)[of Edge_left] m(2)[of Edge_right]
          _ _ refl refl, of "Edge_left \<in> la_anchor s" "Edge_right \<in> la_anchor s"])
      (use in_p pl in \<open>auto simp: place_layer_def source Let_def rect_new_def point_new_def size_new_def\<close>)
  moreover have "reserved Edge_top ss \<le> y \<and> y < h - reserved Edge_bottom ss"
    by (rule place_axis_pixels[OF Z(2) plain_layerD(5)[OF s] m(1)[of Edge_top] m(1)[of Edge_bottom] m(2)[of Edge_top] m(2)[of Edge_bottom]
          _ _ refl refl, of "Edge_top \<in> la_anchor s" "Edge_bottom \<in> la_anchor s"])
      (use in_p pl in \<open>auto simp: place_layer_def source Let_def rect_new_def point_new_def size_new_def\<close>)
  ultimately show "p \<in> pixels (clamp_zone z)" by (simp add: zone_pixels[OF z] p)
qed

section \<open>Arranging\<close>

lemma arrange_loop_result:
  assumes "arrange_loop out is z st c = (z', st', c')" "distinct is"
  shows "z' = fold shrink_zone (map (\<lambda>i. ly_state (st i)) is) z \<and> (\<forall>j. ly_state (st' j) = ly_state (st j)) \<and>
    (\<forall>j. j \<notin> set is \<longrightarrow> st' j = st j) \<and>
    (\<forall>js j ks l k. is = js @ j # ks \<longrightarrow>
       place_layer out (fold shrink_zone (map (\<lambda>i. ly_state (st i)) js) z) (ly_state (st j)) = (l, k) \<longrightarrow>
       ly_location (st' j) = Some l \<and> ly_pending_size (st' j) = Some k)"
  using assms
proof (induction "is" arbitrary: z st c)
  case (Cons i "is")
  obtain l0 k0 where pl: "place_layer out z (ly_state (st i)) = (l0, k0)" by fastforce
  define s where "s = (let s = (st i)\<lparr>ly_pending_size := Some k0\<rparr> in
      (if ly_pending_size (st i) \<noteq> Some k0 \<and> ly_configured (st i) then s\<lparr>ly_configures := Suc (ly_configures s)\<rparr> else s)\<lparr>ly_location := Some l0\<rparr>)"
  have s: "ly_state s = ly_state (st i)" "ly_location s = Some l0" "ly_pending_size s = Some k0" by (simp_all add: s_def Let_def)
  define d where "d = (c \<or> ly_pending_size (st i) \<noteq> Some k0 \<or> ly_location (st i) \<noteq> Some l0)"
  have d: "arrange_loop out is (shrink_zone (ly_state (st i)) z) (st(i := s)) d = (z', st', c')"
    using Cons.prems(1) by (simp add: pl s_def d_def Let_def split: if_splits)
  have dist: "distinct is" "i \<notin> set is" using Cons.prems(2) by simp_all
  have same: "(\<lambda>j. ly_state ((st(i := s)) j)) = (\<lambda>j. ly_state (st j))" by (simp add: fun_eq_iff s(1))
  note IH = Cons.IH[OF d dist(1), unfolded same fun_cong[OF same]]
  have "st' i = s" using IH dist(2) by simp
  have "ly_location (st' j) = Some l \<and> ly_pending_size (st' j) = Some k"
    if "i # is = js @ j # ks" "place_layer out (fold shrink_zone (map (\<lambda>i. ly_state (st i)) js) z) (ly_state (st j)) = (l, k)" for js j ks l k
  proof (cases js)
    case Nil
    then show ?thesis using that pl s \<open>st' i = s\<close> by simp
  next
    case (Cons j' js')
    then have "is = js' @ j # ks" "j' = i" using that(1) by simp_all
    then show ?thesis
      using IH[THEN conjunct2, THEN conjunct2, THEN conjunct2, rule_format, of js' j ks l k] that(2) Cons by simp
  qed
  moreover have "st' j = st j" if "j \<notin> set (i # is)" for j using IH that by simp
  ultimately show ?case using IH by simp
qed simp

end
