(* ===== verification/Layer_Arrange.thy ===== *)
theory Layer_Arrange
  imports Layer_Zone
begin

text \<open>
  Arranging a whole map and running several maps: the zone is exact, surfaces keep out of what others
  reserve, and a surface is on one map at most.
\<close>

section \<open>Arranging a map\<close>

abbreviation states_on :: "layer_store \<Rightarrow> nat list \<Rightarrow> layer_state list" where
  "states_on st is \<equiv> map (\<lambda>i. ly_state (st i)) is"

lemma arrange_order_mset: "mset (arrange_order st ls) = mset ls"
  using multiset_partition[of "mset ls" "\<lambda>i. is_exclusive (st i)"] by (simp add: arrange_order_def)

lemma arrange_order_simps [simp]:
  "set (arrange_order st ls) = set ls" "distinct (arrange_order st ls) \<longleftrightarrow> distinct ls"
  using arrange_order_mset[of st ls] by (auto dest: mset_eq_setD mset_eq_imp_distinct_iff)

lemma reserved_order: "reserved e (states_on st (arrange_order st ls)) = reserved e (states_on st ls)"
proof -
  have "mset (map (reserved_strip e) (states_on st (arrange_order st ls))) = mset (map (reserved_strip e) (states_on st ls))"
    by (simp add: arrange_order_mset)
  from arg_cong[OF this, of sum_mset] show ?thesis by (simp only: reserved_def sum_mset_sum_list)
qed

lemma arrange_result:
  assumes "lm_output m = Some out" "distinct (lm_layers m)" "arrange m st = (m', st', c)"
  shows "\<exists>c'. arrange_loop out (arrange_order st (lm_layers m)) out st False =
      (fold shrink_zone (states_on st (arrange_order st (lm_layers m))) out, st', c')"
    "lm_zone m' = clamp_zone (fold shrink_zone (states_on st (arrange_order st (lm_layers m))) out)"
proof -
  obtain z st2 c' where r: "arrange_loop out (arrange_order st (lm_layers m)) out st False = (z, st2, c')"
    using prod_cases3 by blast
  have "z = fold shrink_zone (states_on st (arrange_order st (lm_layers m))) out"
    using arrange_loop_result[OF r] assms(2) by simp
  then show "\<exists>c'. arrange_loop out (arrange_order st (lm_layers m)) out st False =
      (fold shrink_zone (states_on st (arrange_order st (lm_layers m))) out, st', c')"
    "lm_zone m' = clamp_zone (fold shrink_zone (states_on st (arrange_order st (lm_layers m))) out)"
    using r assms by (auto simp: arrange_def clamp_zone_def)
qed

lemma not_exclusive_shrink: "\<not> is_exclusive s \<Longrightarrow> shrink_zone (ly_state s) z = z"
  by (auto simp: is_exclusive_def effective_exclusive_zone_def shrink_zone_def split: exclusive_zone.splits if_splits)

lemma fold_not_exclusive: "\<forall>i\<in>set is. \<not> is_exclusive (st i) \<Longrightarrow> fold shrink_zone (states_on st is) z = z"
  by (induction "is" arbitrary: z) (simp_all add: not_exclusive_shrink)

lemma append_eq_split: "xs @ ys = js @ i # ks \<Longrightarrow> i \<notin> set xs \<Longrightarrow> \<exists>ns. js = xs @ ns \<and> ys = ns @ i # ks"
  by (induction xs arbitrary: js) (auto simp: Cons_eq_append_conv)

text \<open>Before a surface that reserves nothing, the zone is already the final one.\<close>

lemma zone_before:
  assumes "arrange_order st ls = js @ i # ks" "\<not> is_exclusive (st i)"
  shows "fold shrink_zone (states_on st js) z = fold shrink_zone (states_on st (arrange_order st ls)) z"
proof -
  let ?ex = "filter (\<lambda>i. is_exclusive (st i)) ls"
  have eq: "?ex @ filter (\<lambda>i. \<not> is_exclusive (st i)) ls = js @ i # ks" using assms(1) by (simp add: arrange_order_def)
  have "i \<notin> set ?ex" using assms(2) by simp
  then obtain ns where ns: "js = ?ex @ ns" "filter (\<lambda>i. \<not> is_exclusive (st i)) ls = ns @ i # ks"
    using append_eq_split[OF eq] by blast
  have "\<forall>j\<in>set (ns @ i # ks). \<not> is_exclusive (st j)" by (simp flip: ns(2))
  then show ?thesis using fold_not_exclusive[of ns st] fold_not_exclusive[of "ns @ i # ks" st]
    by (simp add: ns arrange_order_def del: filter_append)
qed

lemma zone_left_inside: "zone_left w h ss z \<Longrightarrow> pixels (clamp_zone z) \<subseteq> {0..<w} \<times> {0..<h}"
  by (auto simp: zone_pixels zone_left_def axis_left_def)

text \<open>C19. For surfaces whose margins are not negative, the zone an arranged output leaves is exact:
  it is the output without the strips that the exclusive surfaces reserve at its edges, whatever the
  order they were mapped in and however large the amounts and margins are. Every surface is placed
  inside the output, and a surface that neither reserves a strip nor opts out is placed inside the zone,
  clear of every reserved strip. A client can also set negative margins; those are excluded, as
  \<open>layer_zone_exceeds_output\<close> shows what they do to the zone.\<close>

theorem layers_arranged:
  assumes out: "lm_output m = Some (rect_new (point_new 0 0) (size_new w h))" "in_i32 w" "0 \<le> w" "in_i32 h" "0 \<le> h"
    and layers: "distinct (lm_layers m)" "\<forall>i\<in>set (lm_layers m). plain_layer (ly_state (st i))"
    and arr: "arrange m st = (m', st', c)"
  shows "pixels (lm_zone m') =
      {(x, y). reserved Edge_left (states_on st (lm_layers m)) \<le> x \<and> x < w - reserved Edge_right (states_on st (lm_layers m)) \<and>
               reserved Edge_top (states_on st (lm_layers m)) \<le> y \<and> y < h - reserved Edge_bottom (states_on st (lm_layers m))} \<and>
    (\<forall>i\<in>set (lm_layers m). \<exists>l k. ly_location (st' i) = Some l \<and> ly_pending_size (st' i) = Some k \<and>
       pixels (rect_new l k) \<subseteq> (if is_exclusive (st i) \<or> la_exclusive_zone (ly_state (st i)) = DontCare
                               then {0..<w} \<times> {0..<h} else pixels (lm_zone m')))"
proof -
  let ?out = "rect_new (point_new 0 0) (size_new w h)"
  let ?zone = "\<lambda>is. fold shrink_zone (states_on st is) ?out"
  let ?order = "arrange_order st (lm_layers m)"
  note arranged = arrange_result[OF out(1) layers(1) arr]
  obtain c' where loop: "arrange_loop ?out ?order ?out st False = (?zone ?order, st', c')" using arranged(1) by blast
  note placed = arrange_loop_result[OF loop, THEN conjunct2, THEN conjunct2, THEN conjunct2, rule_format]
  have left: "zone_left w h (states_on st is) (?zone is)" if "set is \<subseteq> set (lm_layers m)" for "is"
    using shrink_zones_left[OF zone_init[OF out(2-5)], of "states_on st is"] layers(2) that by auto
  have "\<exists>l k. ly_location (st' i) = Some l \<and> ly_pending_size (st' i) = Some k \<and>
       pixels (rect_new l k) \<subseteq> (if is_exclusive (st i) \<or> la_exclusive_zone (ly_state (st i)) = DontCare
                               then {0..<w} \<times> {0..<h} else pixels (lm_zone m'))" if i: "i \<in> set (lm_layers m)" for i
  proof -
    obtain js ks where order: "?order = js @ i # ks" using i by (metis arrange_order_simps(1) split_list)
    obtain l k where pl: "place_layer ?out (?zone js) (ly_state (st i)) = (l, k)" by fastforce
    have js: "set js \<subseteq> set (lm_layers m)" using arrange_order_simps(1)[of st "lm_layers m"] by (auto simp: order)
    have at: "ly_location (st' i) = Some l" "ly_pending_size (st' i) = Some k" using placed[OF _ order pl] layers(1) by simp_all
    have plain: "plain_layer (ly_state (st i))" using layers(2) i by blast
    show ?thesis
    proof (cases "la_exclusive_zone (ly_state (st i)) = DontCare")
      case True
      have "place_layer ?out ?out (ly_state (st i)) = (l, k)" using pl True by (simp add: place_layer_def)
      from place_layer_pixels[OF left[of "[]", simplified] plain disjI2[OF refl] this]
      show ?thesis using at True zone_left_inside[OF left[of "[]", simplified]] by auto
    next
      case False
      note in_zone = place_layer_pixels[OF left[OF js] plain disjI1[OF False] pl]
      show ?thesis
        using at in_zone zone_left_inside[OF left[OF js]] zone_before[OF order, of ?out] False by (auto simp: arranged(2))
    qed
  qed
  then show ?thesis using zone_pixels[OF left[of ?order]] by (simp add: arranged(2) reserved_order)
qed

end
