(* ===== verification/Layer_Maps.thy ===== *)
theory Layer_Maps
  imports Layer_Arrange
begin

text \<open>
  The layer maps of several outputs: mapping, unmapping, cleaning up and rearranging in any order, an
  example arrangement, and where the code departs from its documentation.
\<close>

section \<open>An example\<close>

definition unplaced :: "layer_state \<Rightarrow> layer_surface" where
  "unplaced s = \<lparr>ly_state = s, ly_alive = True, ly_configured = False, ly_pending_size = None, ly_location = None, ly_configures = 0\<rparr>"

definition panel_state :: layer_state where
  "panel_state = cs_current (lc_cached panel_client)"

lemma panel_state_values:
  "panel_state = layer_state_default\<lparr>la_layer := Top, la_size := size_new 0 30, la_anchor := {Edge_top, Edge_left, Edge_right},
     la_exclusive_zone := Exclusive 30\<rparr>"
  by (simp add: panel_state_def panel_client_def panel_requests_def client_get_layer_surface_def get_layer_surface_def layer_try_from_def
      layer_client_new_def cached_state_default_def layer_cacheable_def copy_cacheable_def client_request_def anchor_try_from_def
      exclusive_zone_from_def client_commit_def layer_pre_commit_def layer_check_def layer_state_default_def size_new_def
      anchored_horizontally_def anchored_vertically_def buffer_after_def cache_commit_def Let_def word_less_def insert_commute)

definition example_store :: layer_store where
  "example_store = (\<lambda>_. unplaced layer_state_default)(0 := unplaced panel_state, 1 := unplaced (layer_state_default\<lparr>la_size := size_new 20 20\<rparr>))"

definition example_map :: layer_map where
  "example_map = (layer_map_new (rect_new (point_new 0 0) (size_new 100 50)))\<lparr>lm_layers := [1, 0]\<rparr>"

lemma panel_edge: "effective_exclusive_edge panel_state = Some Edge_top"
proof -
  have "{Edge_top, Edge_bottom, Edge_left, Edge_right} - {Edge_top, Edge_left, Edge_right} = {Edge_bottom}" by auto
  then show ?thesis
    by (simp add: panel_state_values effective_exclusive_edge_def layer_state_default_def implied_exclusive_edge_for_anchor_def opposite_def)
qed

lemma panel_reserves: "reserved_strip e panel_state = (if e = Edge_top then 30 else 0)"
proof -
  have "la_exclusive_zone panel_state = Exclusive 30" "margin_at Edge_top (la_margin panel_state) = 0"
    by (simp_all add: panel_state_values layer_state_default_def)
  then show ?thesis by (simp add: reserved_strip_def panel_edge)
qed

lemma example_plain: "\<forall>i\<in>set (lm_layers example_map). plain_layer (ly_state (example_store i))"
proof -
  have "0 \<le> margin_at e \<lparr>mg_top = 0, mg_right = 0, mg_bottom = 0, mg_left = 0\<rparr>" for e by (cases e) simp_all
  then show ?thesis
    by (simp add: example_map_def example_store_def unplaced_def plain_layer_def panel_state_values layer_typed_def margins_typed_def
        layer_state_default_def size_new_def in_i32_def)
qed

theorem layers_arranged_witness:
  "pixels (lm_zone (fst (arrange example_map example_store))) = {(x, y). 0 \<le> x \<and> x < 100 \<and> 30 \<le> y \<and> y < 50}"
proof -
  obtain m' st' c where a: "arrange example_map example_store = (m', st', c)" using prod_cases3 by blast
  have out: "lm_output example_map = Some (rect_new (point_new 0 0) (size_new 100 50))" by (simp add: example_map_def layer_map_new_def)
  have "distinct (lm_layers example_map)" by (simp add: example_map_def)
  note arr = layers_arranged[OF out _ _ _ _ this example_plain a, THEN conjunct1]
  have "reserved e (states_on example_store (lm_layers example_map)) = (if e = Edge_top then 30 else 0)" for e
    by (simp add: reserved_def example_map_def example_store_def unplaced_def panel_reserves) (simp add: reserved_strip_def layer_state_default_def)
  then show ?thesis using arr by (simp add: a in_i32_def)
qed

text \<open>
  A negative margin makes the zone larger than the output: a surface that reserves one pixel at the top
  with a margin of -100 there leaves a zone that starts 99 pixels above the output.
\<close>

definition greedy_state :: layer_state where
  "greedy_state = layer_state_default\<lparr>la_size := size_new 10 10, la_anchor := {Edge_top}, la_exclusive_zone := Exclusive 1, la_exclusive_edge := Some Edge_top,
     la_margin := \<lparr>mg_top = - 100, mg_right = 0, mg_bottom = 0, mg_left = 0\<rparr>\<rparr>"

theorem layer_zone_exceeds_output:
  "lm_zone (fst (arrange (example_map\<lparr>lm_layers := [0]\<rparr>) (example_store(0 := unplaced greedy_state)))) =
     rect_new (point_new 0 (- 99)) (size_new 100 149)"
  by (simp add: arrange_def arrange_order_def example_map_def layer_map_new_def unplaced_def greedy_state_def is_exclusive_def
      effective_exclusive_zone_def effective_exclusive_edge_def shrink_zone_def layer_state_default_def Let_def rect_new_def point_new_def
      size_new_def sat_add_def sat_sub_def sat32_def place_layer_def)

section \<open>Several maps\<close>

record layer_world =
  lw_maps :: "nat \<Rightarrow> layer_map"
  lw_store :: layer_store

definition on_map :: "nat \<Rightarrow> (layer_map \<Rightarrow> layer_store \<Rightarrow> layer_map \<times> layer_store) \<Rightarrow> layer_world \<Rightarrow> layer_world" where
  "on_map k f x = (case f (lw_maps x k) (lw_store x) of (m, st) \<Rightarrow> x\<lparr>lw_maps := (lw_maps x)(k := m), lw_store := st\<rparr>)"

text \<open>
  The steps of a compositor and of clients. A map lives as long as its output; the map of an output that
  was removed is dropped and another output may take its number.
\<close>

inductive layer_world_run :: "layer_world \<Rightarrow> bool" where
  lw_start: "\<forall>i. ly_location (st i) = None \<Longrightarrow> layer_world_run \<lparr>lw_maps = (\<lambda>k. layer_map_new (area k)), lw_store = st\<rparr>"
| lw_map: "layer_world_run x \<Longrightarrow> map_layer i (lw_maps x k) (lw_store x) = Inr (m, st) \<Longrightarrow>
    layer_world_run (x\<lparr>lw_maps := (lw_maps x)(k := m), lw_store := st\<rparr>)"
| lw_unmap: "layer_world_run x \<Longrightarrow> layer_world_run (on_map k (unmap_layer i) x)"
| lw_cleanup: "layer_world_run x \<Longrightarrow> layer_world_run (on_map k layer_map_cleanup x)"
| lw_arrange: "layer_world_run x \<Longrightarrow> layer_world_run (on_map k (\<lambda>m st. case arrange m st of (m, st, _) \<Rightarrow> (m, st)) x)"
| lw_mode: "layer_world_run x \<Longrightarrow> layer_world_run (on_map k (\<lambda>m st. (m\<lparr>lm_output := Some r\<rparr>, st)) x)"
| lw_drop: "layer_world_run x \<Longrightarrow> layer_world_run (on_map k (\<lambda>m st. (layer_map_new r, st)) x)"
| lw_surface: "layer_world_run x \<Longrightarrow> ly_location s = ly_location (lw_store x i) \<Longrightarrow>
    layer_world_run (x\<lparr>lw_store := (lw_store x)(i := s)\<rparr>)"

definition maps_inv :: "layer_world \<Rightarrow> bool" where
  "maps_inv x \<longleftrightarrow>
     (\<forall>k. distinct (lm_layers (lw_maps x k)) \<and> lm_output (lw_maps x k) \<noteq> None) \<and>
     (\<forall>k i. i \<in> set (lm_layers (lw_maps x k)) \<longrightarrow> ly_location (lw_store x i) \<noteq> None) \<and>
     (\<forall>i k k'. i \<in> set (lm_layers (lw_maps x k)) \<longrightarrow> i \<in> set (lm_layers (lw_maps x k')) \<longrightarrow> k = k')"

lemma maps_invD:
  assumes "maps_inv x"
  shows "distinct (lm_layers (lw_maps x k))" "lm_output (lw_maps x k) \<noteq> None"
    "i \<in> set (lm_layers (lw_maps x k)) \<Longrightarrow> ly_location (lw_store x i) \<noteq> None"
    "i \<in> set (lm_layers (lw_maps x k)) \<Longrightarrow> i \<in> set (lm_layers (lw_maps x k')) \<Longrightarrow> k = k'"
  using assms unfolding maps_inv_def by blast+

lemma maps_invI:
  "(\<And>k. distinct (lm_layers (lw_maps x k))) \<Longrightarrow> (\<And>k. lm_output (lw_maps x k) \<noteq> None) \<Longrightarrow>
   (\<And>k i. i \<in> set (lm_layers (lw_maps x k)) \<Longrightarrow> ly_location (lw_store x i) \<noteq> None) \<Longrightarrow>
   (\<And>i k k'. i \<in> set (lm_layers (lw_maps x k)) \<Longrightarrow> i \<in> set (lm_layers (lw_maps x k')) \<Longrightarrow> k = k') \<Longrightarrow> maps_inv x"
  unfolding maps_inv_def by blast

text \<open>Rearranging places the surfaces of the map and touches no other.\<close>

lemma arrange_places:
  assumes "arrange m st = (m', st', c)" "lm_output m \<noteq> None" "distinct (lm_layers m)"
  shows "lm_layers m' = lm_layers m" "lm_output m' = lm_output m"
    "i \<in> set (lm_layers m) \<Longrightarrow> ly_location (st' i) \<noteq> None" "i \<notin> set (lm_layers m) \<Longrightarrow> st' i = st i"
proof -
  obtain out where out: "lm_output m = Some out" using assms(2) by blast
  obtain c' where loop: "arrange_loop out (arrange_order st (lm_layers m)) out st False =
      (fold shrink_zone (states_on st (arrange_order st (lm_layers m))) out, st', c')"
    using arrange_result(1)[OF out assms(3,1)] by blast
  note L = arrange_loop_result[OF loop, unfolded arrange_order_simps, OF assms(3)]
  show "lm_layers m' = lm_layers m" "lm_output m' = lm_output m"
    using assms(1) out by (auto simp: arrange_def split: prod.splits)
  show "i \<notin> set (lm_layers m) \<Longrightarrow> st' i = st i" using L by blast
  assume "i \<in> set (lm_layers m)"
  then obtain js ks where order: "arrange_order st (lm_layers m) = js @ i # ks" by (metis arrange_order_simps(1) split_list)
  obtain l k where pl: "place_layer out (fold shrink_zone (states_on st js) out) (ly_state (st i)) = (l, k)" by fastforce
  from L[THEN conjunct2, THEN conjunct2, THEN conjunct2, rule_format, OF order pl] show "ly_location (st' i) \<noteq> None" by simp
qed

text \<open>A change of one map that rearranges it: its surfaces are on no other map.\<close>

lemma maps_inv_rearranged:
  assumes inv: "maps_inv x" and arr: "arrange (m\<lparr>lm_layers := ls\<rparr>) st = (m', st', c)"
    and m: "lm_output m \<noteq> None" "distinct ls" "\<And>i k'. i \<in> set ls \<Longrightarrow> i \<in> set (lm_layers (lw_maps x k')) \<Longrightarrow> k' = k"
    and st: "\<And>i k'. k' \<noteq> k \<Longrightarrow> i \<in> set (lm_layers (lw_maps x k')) \<Longrightarrow> st i = lw_store x i"
  shows "maps_inv (x\<lparr>lw_maps := (lw_maps x)(k := m'), lw_store := st'\<rparr>)"
proof -
  have A: "lm_layers m' = ls" "lm_output m' = lm_output m"
    "i \<in> set ls \<Longrightarrow> ly_location (st' i) \<noteq> None" "i \<notin> set ls \<Longrightarrow> st' i = st i" for i
    using arrange_places[OF arr] m(1,2) by simp_all
  have loc: "ly_location (st' i) \<noteq> None" if "k' \<noteq> k" "i \<in> set (lm_layers (lw_maps x k'))" for i k'
    using A(3,4)[of i] st[OF that] maps_invD(3)[OF inv that(2)] by (cases "i \<in> set ls") simp_all
  have one: "k1 = k2" if "i \<in> set (lm_layers (((lw_maps x)(k := m')) k1))" "i \<in> set (lm_layers (((lw_maps x)(k := m')) k2))" for i k1 k2
    using that A(1) m(3) maps_invD(4)[OF inv, of i k1 k2] by (auto split: if_splits)
  have placed: "ly_location (st' i) \<noteq> None" if "i \<in> set (lm_layers (((lw_maps x)(k := m')) k'))" for i k'
    using that A(1,3) loc by (cases "k' = k") simp_all
  show ?thesis
  proof (rule maps_invI)
    show "distinct (lm_layers (lw_maps (x\<lparr>lw_maps := (lw_maps x)(k := m'), lw_store := st'\<rparr>) k'))" for k'
      using A(1) m(2) maps_invD(1)[OF inv] by simp
    show "lm_output (lw_maps (x\<lparr>lw_maps := (lw_maps x)(k := m'), lw_store := st'\<rparr>) k') \<noteq> None" for k'
      using A(2) m(1) maps_invD(2)[OF inv] by simp
    show "ly_location (lw_store (x\<lparr>lw_maps := (lw_maps x)(k := m'), lw_store := st'\<rparr>) i) \<noteq> None"
      if "i \<in> set (lm_layers (lw_maps (x\<lparr>lw_maps := (lw_maps x)(k := m'), lw_store := st'\<rparr>) k'))" for i k'
      using placed that by simp
    show "k1 = k2" if "i \<in> set (lm_layers (lw_maps (x\<lparr>lw_maps := (lw_maps x)(k := m'), lw_store := st'\<rparr>) k1))"
      "i \<in> set (lm_layers (lw_maps (x\<lparr>lw_maps := (lw_maps x)(k := m'), lw_store := st'\<rparr>) k2))" for i k1 k2
      using one[of i k1 k2] that by simp
  qed
qed

lemma on_map_arranged:
  assumes "f (lw_maps x k) (lw_store x) = (case arrange m st of (m, st, _) \<Rightarrow> (m, st))"
    and "\<And>m' st' c. arrange m st = (m', st', c) \<Longrightarrow> maps_inv (x\<lparr>lw_maps := (lw_maps x)(k := m'), lw_store := st'\<rparr>)"
  shows "maps_inv (on_map k f x)"
proof -
  obtain m' st' c where a: "arrange m st = (m', st', c)" using prod_cases3 by blast
  then show ?thesis using assms(2)[OF a] by (simp add: on_map_def assms(1))
qed

lemma map_step:
  assumes inv: "maps_inv x" and map: "map_layer i (lw_maps x k) (lw_store x) = Inr (m, st)"
  shows "maps_inv (x\<lparr>lw_maps := (lw_maps x)(k := m), lw_store := st\<rparr>)"
proof (cases "i \<in> set (lm_layers (lw_maps x k))")
  case True
  then have "m = lw_maps x k" "st = lw_store x" using map by (simp_all add: map_layer_def)
  then show ?thesis using inv by simp
next
  case False
  then have free: "ly_location (lw_store x i) = None"
    and "\<exists>c. arrange ((lw_maps x k)\<lparr>lm_layers := lm_layers (lw_maps x k) @ [i]\<rparr>) (lw_store x) = (m, st, c)"
    using map by (auto simp: map_layer_def Let_def split: if_splits prod.splits)
  then obtain c where a: "arrange ((lw_maps x k)\<lparr>lm_layers := lm_layers (lw_maps x k) @ [i]\<rparr>) (lw_store x) = (m, st, c)" by blast
  note D = maps_invD[OF inv]
  have "k' = k" if "j \<in> set (lm_layers (lw_maps x k) @ [i])" "j \<in> set (lm_layers (lw_maps x k'))" for j k'
    using that D(4)[of j k' k] D(3)[of j k'] free by auto
  then show ?thesis using D(1,2) False by (intro maps_inv_rearranged[OF inv a]) auto
qed

lemma unmap_step: 
  assumes inv: "maps_inv x" shows "maps_inv (on_map k (unmap_layer i) x)"
proof (cases "i \<in> set (lm_layers (lw_maps x k))")
  case True
  let ?st = "(lw_store x)(i := (lw_store x i)\<lparr>ly_location := None\<rparr>)"
  show ?thesis
  proof (rule on_map_arranged)
    show "unmap_layer i (lw_maps x k) (lw_store x) =
        (case arrange ((lw_maps x k)\<lparr>lm_layers := remove1 i (lm_layers (lw_maps x k))\<rparr>) ?st of (m, st, _) \<Rightarrow> (m, st))"
      using True by (simp add: unmap_layer_def Let_def)
    fix m' st' c assume a: "arrange ((lw_maps x k)\<lparr>lm_layers := remove1 i (lm_layers (lw_maps x k))\<rparr>) ?st = (m', st', c)"
    note D = maps_invD[OF inv]
    show "maps_inv (x\<lparr>lw_maps := (lw_maps x)(k := m'), lw_store := st'\<rparr>)"
    proof (rule maps_inv_rearranged[OF inv a])
      show "lm_output (lw_maps x k) \<noteq> None" by (rule D(2))
      show "distinct (remove1 i (lm_layers (lw_maps x k)))" by (simp add: D(1))
      show "k' = k" if "j \<in> set (remove1 i (lm_layers (lw_maps x k)))" "j \<in> set (lm_layers (lw_maps x k'))" for j k'
        using that D(4)[of j k' k] notin_set_remove1 by fastforce
      show "?st j = lw_store x j" if "k' \<noteq> k" "j \<in> set (lm_layers (lw_maps x k'))" for j k'
        using that True D(4)[of i k k'] by auto
    qed
  qed
next
  case False
  then show ?thesis using inv by (simp add: on_map_def unmap_layer_def)
qed

lemma cleanup_step:
  assumes inv: "maps_inv x" shows "maps_inv (on_map k layer_map_cleanup x)"
proof (cases "\<exists>i\<in>set (lm_layers (lw_maps x k)). \<not> ly_alive (lw_store x i)")
  case True
  show ?thesis
  proof (rule on_map_arranged)
    show "layer_map_cleanup (lw_maps x k) (lw_store x) =
        (case arrange ((lw_maps x k)\<lparr>lm_layers := filter (\<lambda>i. ly_alive (lw_store x i)) (lm_layers (lw_maps x k))\<rparr>) (lw_store x) of
           (m, st, _) \<Rightarrow> (m, st))"
      unfolding layer_map_cleanup_def if_P[OF True] Let_def ..
    show "maps_inv (x\<lparr>lw_maps := (lw_maps x)(k := m'), lw_store := st'\<rparr>)"
      if "arrange ((lw_maps x k)\<lparr>lm_layers := filter (\<lambda>i. ly_alive (lw_store x i)) (lm_layers (lw_maps x k))\<rparr>) (lw_store x) = (m', st', c)"
      for m' st' c
      using maps_invD[OF inv] by (intro maps_inv_rearranged[OF inv that]) auto
  qed
next
  case False
  then show ?thesis using inv by (simp add: on_map_def layer_map_cleanup_def)
qed

lemma arrange_step: "maps_inv x \<Longrightarrow> maps_inv (on_map k (\<lambda>m st. case arrange m st of (m, st, _) \<Rightarrow> (m, st)) x)"
  using maps_inv_rearranged[where x = x and m = "lw_maps x k" and ls = "lm_layers (lw_maps x k)" and st = "lw_store x"] maps_invD[of x]
  by (intro on_map_arranged[OF refl]) simp

lemma maps_inv_run: "layer_world_run x \<Longrightarrow> maps_inv x"
proof (induction rule: layer_world_run.induct)
  case (lw_start st area)
  then show ?case by (simp add: maps_inv_def layer_map_new_def)
next
  case (lw_mode x k r)
  note D = maps_invD[OF lw_mode.IH]
  have same: "lm_layers (lw_maps (on_map k (\<lambda>m st. (m\<lparr>lm_output := Some r\<rparr>, st)) x) k') = lm_layers (lw_maps x k')" for k'
    by (simp add: on_map_def)
  have store: "lw_store (on_map k (\<lambda>m st. (m\<lparr>lm_output := Some r\<rparr>, st)) x) = lw_store x" by (simp add: on_map_def)
  show ?case
  proof (rule maps_invI, unfold same store)
    show "lm_output (lw_maps (on_map k (\<lambda>m st. (m\<lparr>lm_output := Some r\<rparr>, st)) x) k') \<noteq> None" for k'
      using D(2)[of k'] by (simp add: on_map_def)
  qed (rule D; assumption)+
next
  case (lw_drop x k r)
  note D = maps_invD[OF lw_drop.IH]
  show ?case
  proof (rule maps_invI)
    show "k1 = k2" if "i \<in> set (lm_layers (lw_maps (on_map k (\<lambda>m st. (layer_map_new r, st)) x) k1))"
      "i \<in> set (lm_layers (lw_maps (on_map k (\<lambda>m st. (layer_map_new r, st)) x) k2))" for i k1 k2
      using that D(4)[of i k1 k2] by (simp add: on_map_def layer_map_new_def split: if_splits)
  qed (use D(1,2,3) in \<open>auto simp: on_map_def layer_map_new_def split: if_splits\<close>)
next
  case (lw_surface x s i)
  then show ?case by (auto simp: maps_inv_def)
qed (blast intro: map_step unmap_step cleanup_step arrange_step)+

text \<open>C23. However surfaces are mapped, unmapped, cleaned up and rearranged, and outputs added, resized and removed,
  a layer surface is on at most one map and there only once, every mapped surface has a location, and mapping a
  mapped surface on another output is refused.\<close>

theorem layer_on_one_map:
  assumes "layer_world_run x"
  shows "(\<forall>k. distinct (lm_layers (lw_maps x k))) \<and>
    (\<forall>i k. i \<in> set (lm_layers (lw_maps x k)) \<longrightarrow> ly_location (lw_store x i) \<noteq> None \<and>
       (\<forall>k'. k' \<noteq> k \<longrightarrow> i \<notin> set (lm_layers (lw_maps x k')) \<and> map_layer i (lw_maps x k') (lw_store x) = Inl Already_mapped))"
  using maps_invD[OF maps_inv_run[OF assms]] unfolding map_layer_def by (metis (no_types, lifting))

definition example_world :: layer_world where
  "example_world = (let x = \<lparr>lw_maps = (\<lambda>k. layer_map_new (rect_new (point_new 0 0) (size_new 100 50))), lw_store = example_store\<rparr>
     in case map_layer 0 (lw_maps x 0) (lw_store x) of Inr (m, st) \<Rightarrow> x\<lparr>lw_maps := (lw_maps x)(0 := m), lw_store := st\<rparr>)"

lemma example_world_run: "layer_world_run example_world \<and> 0 \<in> set (lm_layers (lw_maps example_world 0))"
proof -
  let ?x = "\<lparr>lw_maps = (\<lambda>k. layer_map_new (rect_new (point_new 0 0) (size_new 100 50))), lw_store = example_store\<rparr>"
  have free: "\<forall>i. ly_location (example_store i) = None" by (simp add: example_store_def unplaced_def)
  let ?m = "(layer_map_new (rect_new (point_new 0 0) (size_new 100 50)))\<lparr>lm_layers := [0]\<rparr>"
  obtain m st c where a: "arrange ?m example_store = (m, st, c)" using prod_cases3 by blast
  have map: "map_layer 0 (lw_maps ?x 0) (lw_store ?x) = Inr (m, st)" using free a by (simp add: map_layer_def layer_map_new_def)
  have "lm_layers m = [0]" using arrange_places(1)[OF a] by (simp add: layer_map_new_def)
  then show ?thesis using lw_map[OF lw_start[OF free] map] map by (simp add: example_world_def Let_def)
qed

theorem layer_on_one_map_witness:
  "map_layer 0 (lw_maps example_world 1) (lw_store example_world) = Inl Already_mapped"
  using layer_on_one_map[OF conjunct1[OF example_world_run]] conjunct2[OF example_world_run] by simp

text \<open>
  A surface on a map that is dropped with its output keeps its location, so that it can be mapped nowhere
  else until the compositor unmaps it from the map that no longer exists.
\<close>

theorem layer_of_removed_output_stuck:
  assumes "layer_world_run x" "i \<in> set (lm_layers (lw_maps x k))"
  shows "map_layer i (lw_maps (on_map k (\<lambda>m st. (layer_map_new r, st)) x) k')
      (lw_store (on_map k (\<lambda>m st. (layer_map_new r, st)) x)) = Inl Already_mapped"
  using maps_invD(3,4)[OF maps_inv_run[OF assms(1)]] assms(2) by (auto simp: on_map_def map_layer_def layer_map_new_def)

theorem layer_of_removed_output_stuck_witness:
  "map_layer 0 (lw_maps (on_map 0 (\<lambda>m st. (layer_map_new (rect_new (point_new 0 0) (size_new 100 50)), st)) example_world) 5)
      (lw_store (on_map 0 (\<lambda>m st. (layer_map_new (rect_new (point_new 0 0) (size_new 100 50)), st)) example_world)) = Inl Already_mapped"
  using layer_of_removed_output_stuck[OF conjunct1[OF example_world_run] conjunct2[OF example_world_run]] .

end
