(* ===== verification/Space.thy ===== *)
theory Space
  imports Layer_Role Geometry
begin

text \<open>
  The plane that windows and outputs are mapped on, \<open>src/desktop/space/mod.rs\<close>. What the code asks of its
  elements and outputs (bounding boxes, z-index, liveness, logical sizes) is a record of functions. The calls
  of \<open>output_enter\<close> and \<open>output_leave\<close> are recorded for each element and output, an overlap or None,
  because a leave loop runs in the order of a hash map.
\<close>

section \<open>State\<close>

record ('e, 'o) space_env =
  se_bbox :: "'e \<Rightarrow> rect"
  se_geometry :: "'e \<Rightarrow> rect"
  se_z_index :: "'e \<Rightarrow> nat"
  se_alive :: "'e \<Rightarrow> bool"
  se_output_size :: "'o \<Rightarrow> sz option"

record ('e, 'o) inner_element =
  ie_element :: 'e
  ie_location :: point
  ie_outputs :: "'o \<Rightarrow> rect option"

record ('e, 'o) space =
  sp_elements :: "('e, 'o) inner_element list"
  sp_outputs :: "'o list"
  sp_locations :: "'o \<Rightarrow> point option"
  sp_active :: "'e \<Rightarrow> bool"
  sp_log :: "'e \<Rightarrow> 'o \<Rightarrow> rect option list"

definition space_default :: "('e, 'o) space" where
  "space_default = \<lparr>sp_elements = [], sp_outputs = [], sp_locations = (\<lambda>_. None), sp_active = (\<lambda>_. False), sp_log = (\<lambda>_ _. [])\<rparr>"

definition elem_geometry :: "('e, 'o) space_env \<Rightarrow> ('e, 'o) inner_element \<Rightarrow> rect" where
  "elem_geometry env e = (se_geometry env (ie_element e))\<lparr>rloc := ie_location e\<rparr>"

definition elem_bbox :: "('e, 'o) space_env \<Rightarrow> ('e, 'o) inner_element \<Rightarrow> rect" where
  "elem_bbox env e =
     (let bbox = se_bbox env (ie_element e)
      in bbox\<lparr>rloc := point_add (rloc bbox) (point_sub (ie_location e) (rloc (se_geometry env (ie_element e))))\<rparr>)"

definition render_location :: "('e, 'o) space_env \<Rightarrow> ('e, 'o) inner_element \<Rightarrow> point" where
  "render_location env e = point_sub (ie_location e) (rloc (se_geometry env (ie_element e)))"

section \<open>Stacking\<close>

fun position :: "('a \<Rightarrow> bool) \<Rightarrow> 'a list \<Rightarrow> nat option" where
  "position P [] = None"
| "position P (x # xs) = (if P x then Some 0 else map_option Suc (position P xs))"

definition elem_position :: "'e \<Rightarrow> ('e, 'o) space \<Rightarrow> nat option" where
  "elem_position e s = position (\<lambda>i. ie_element i = e) (sp_elements s)"

definition vec_put :: "nat \<Rightarrow> 'a \<Rightarrow> 'a list \<Rightarrow> 'a list" where
  "vec_put i x xs = take i xs @ x # drop i xs"

definition insert_elem :: "('e, 'o) space_env \<Rightarrow> nat \<Rightarrow> ('e, 'o) inner_element \<Rightarrow> bool \<Rightarrow> ('e, 'o) space \<Rightarrow> ('e, 'o) space" where
  "insert_elem env index elem activate s =
     (let s = (if activate
               then s\<lparr>sp_active := (\<lambda>e. if e \<in> ie_element ` set (sp_elements s) then False
                                       else if e = ie_element elem then True else sp_active s e)\<rparr>
               else s)
      in s\<lparr>sp_elements := sort_key (\<lambda>i. se_z_index env (ie_element i)) (vec_put index elem (sp_elements s))\<rparr>)"

definition create_inner_element :: "'e \<Rightarrow> point \<Rightarrow> ('e, 'o) space \<Rightarrow> ('e, 'o) inner_element \<times> ('e, 'o) space" where
  "create_inner_element e location s =
     (case elem_position e s of
        Some pos \<Rightarrow> (\<lparr>ie_element = e, ie_location = location, ie_outputs = ie_outputs (sp_elements s ! pos)\<rparr>,
                     s\<lparr>sp_elements := vec_remove pos (sp_elements s)\<rparr>)
      | None \<Rightarrow> (\<lparr>ie_element = e, ie_location = location, ie_outputs = (\<lambda>_. None)\<rparr>, s))"

definition map_element :: "('e, 'o) space_env \<Rightarrow> 'e \<Rightarrow> point \<Rightarrow> bool \<Rightarrow> ('e, 'o) space \<Rightarrow> ('e, 'o) space" where
  "map_element env e location activate s =
     (let (inner, s) = create_inner_element e location s in insert_elem env (length (sp_elements s)) inner activate s)"

definition map_element_above :: "('e, 'o) space_env \<Rightarrow> 'e \<Rightarrow> point \<Rightarrow> 'e \<Rightarrow> bool \<Rightarrow> ('e, 'o) space \<Rightarrow> ('e, 'o) space" where
  "map_element_above env e location reference activate s =
     (case elem_position reference s of
        None \<Rightarrow> s
      | Some reference_pos \<Rightarrow>
          (case elem_position e s of
             Some pos \<Rightarrow>
               insert_elem env (if pos > reference_pos then reference_pos + 1 else reference_pos) (sp_elements s ! pos) activate
                 (s\<lparr>sp_elements := vec_remove pos (sp_elements s)\<rparr>)
           | None \<Rightarrow> (let (inner, s) = create_inner_element e location s in insert_elem env (reference_pos + 1) inner activate s)))"

definition raise_element :: "('e, 'o) space_env \<Rightarrow> 'e \<Rightarrow> bool \<Rightarrow> ('e, 'o) space \<Rightarrow> ('e, 'o) space" where
  "raise_element env e activate s =
     (case elem_position e s of
        None \<Rightarrow> s
      | Some pos \<Rightarrow>
          (let inner = sp_elements s ! pos; s = s\<lparr>sp_elements := vec_remove pos (sp_elements s)\<rparr>
           in insert_elem env (length (sp_elements s)) inner activate s))"

definition raise_element_above :: "('e, 'o) space_env \<Rightarrow> 'e \<Rightarrow> 'e \<Rightarrow> bool \<Rightarrow> ('e, 'o) space \<Rightarrow> ('e, 'o) space" where
  "raise_element_above env e reference activate s =
     (case (elem_position e s, elem_position reference s) of
        (Some pos, Some reference_pos) \<Rightarrow>
          insert_elem env (if pos > reference_pos then reference_pos + 1 else reference_pos) (sp_elements s ! pos) activate
            (s\<lparr>sp_elements := vec_remove pos (sp_elements s)\<rparr>)
      | _ \<Rightarrow> s)"

definition lower_element :: "('e, 'o) space_env \<Rightarrow> 'e \<Rightarrow> ('e, 'o) space \<Rightarrow> ('e, 'o) space" where
  "lower_element env e s =
     (case elem_position e s of
        None \<Rightarrow> s
      | Some pos \<Rightarrow> insert_elem env 0 (sp_elements s ! pos) False (s\<lparr>sp_elements := vec_remove pos (sp_elements s)\<rparr>))"

definition relocate_element :: "'e \<Rightarrow> point \<Rightarrow> ('e, 'o) space \<Rightarrow> ('e, 'o) space" where
  "relocate_element e location s =
     (case elem_position e s of
        None \<Rightarrow> s
      | Some pos \<Rightarrow> s\<lparr>sp_elements := (sp_elements s)[pos := (sp_elements s ! pos)\<lparr>ie_location := location\<rparr>]\<rparr>)"

section \<open>Outputs\<close>

text \<open>A call of \<open>output_enter\<close> with the overlap, or of \<open>output_leave\<close>.\<close>

definition tell :: "'e \<Rightarrow> 'o \<Rightarrow> rect option \<Rightarrow> ('e, 'o) space \<Rightarrow> ('e, 'o) space" where
  "tell e out v s = s\<lparr>sp_log := (sp_log s)(e := (sp_log s e)(out := sp_log s e out @ [v]))\<rparr>"

definition unmap_elem :: "'e \<Rightarrow> ('e, 'o) space \<Rightarrow> ('e, 'o) space" where
  "unmap_elem e s =
     (case elem_position e s of
        None \<Rightarrow> s
      | Some pos \<Rightarrow>
          (let elem = sp_elements s ! pos
           in s\<lparr>sp_elements := vec_remove pos (sp_elements s),
                sp_log := (sp_log s)(e := (\<lambda>out. if ie_outputs elem out \<noteq> None then sp_log s e out @ [None] else sp_log s e out))\<rparr>))"

definition map_output :: "'o \<Rightarrow> point \<Rightarrow> ('e, 'o) space \<Rightarrow> ('e, 'o) space" where
  "map_output out location s =
     (let s = s\<lparr>sp_locations := (sp_locations s)(out := Some location)\<rparr>
      in if out \<in> set (sp_outputs s) then s else s\<lparr>sp_outputs := sp_outputs s @ [out]\<rparr>)"

definition unmap_output :: "'o \<Rightarrow> ('e, 'o) space \<Rightarrow> ('e, 'o) space" where
  "unmap_output out s =
     (if out \<notin> set (sp_outputs s) then s
      else s\<lparr>sp_locations := (sp_locations s)(out := None), sp_outputs := filter (\<lambda>o'. o' \<noteq> out) (sp_outputs s)\<rparr>)"

definition output_location :: "('e, 'o) space \<Rightarrow> 'o \<Rightarrow> point" where
  "output_location s out = (case sp_locations s out of Some l \<Rightarrow> l | None \<Rightarrow> point_new 0 0)"

definition space_output_geometry :: "('e, 'o) space_env \<Rightarrow> ('e, 'o) space \<Rightarrow> 'o \<Rightarrow> rect option" where
  "space_output_geometry env s out =
     (if out \<notin> set (sp_outputs s) then None
      else map_option (\<lambda>size. rect_new (output_location s out) size) (se_output_size env out))"

section \<open>Refreshing\<close>

text \<open>One output for one element, given the bounding box of the element.\<close>

definition refresh_output :: "rect \<Rightarrow> 'o \<Rightarrow> rect \<Rightarrow> ('e, 'o) inner_element \<times> ('e, 'o) space \<Rightarrow> ('e, 'o) inner_element \<times> ('e, 'o) space" where
  "refresh_output bbox out geo es =
     (case es of (e, s) \<Rightarrow>
        (case rect_intersection geo bbox of
           Some overlap \<Rightarrow>
             (let overlap = overlap\<lparr>rloc := point_sub (rloc overlap) (rloc bbox)\<rparr>;
                  old = ie_outputs e out;
                  e = e\<lparr>ie_outputs := (ie_outputs e)(out := Some overlap)\<rparr>
              in (e, if old \<noteq> Some overlap then tell (ie_element e) out (Some overlap) s else s))
         | None \<Rightarrow>
             (if ie_outputs e out \<noteq> None
              then (e\<lparr>ie_outputs := (ie_outputs e)(out := None)\<rparr>, tell (ie_element e) out None s)
              else (e, s))))"

text \<open>An element leaves the outputs that are no longer mapped, then every mapped output is compared.\<close>

definition refresh_retain :: "'o list \<Rightarrow> ('e, 'o) inner_element \<Rightarrow> ('e, 'o) space \<Rightarrow> ('e, 'o) inner_element \<times> ('e, 'o) space" where
  "refresh_retain outs e s =
     (e\<lparr>ie_outputs := (\<lambda>out. if out \<in> set outs then ie_outputs e out else None)\<rparr>,
      s\<lparr>sp_log := (sp_log s)(ie_element e := (\<lambda>out. if ie_outputs e out \<noteq> None \<and> out \<notin> set outs
                                                  then sp_log s (ie_element e) out @ [None] else sp_log s (ie_element e) out))\<rparr>)"

definition refresh_element :: "('e, 'o) space_env \<Rightarrow> ('o \<times> rect) list \<Rightarrow> ('e, 'o) inner_element \<Rightarrow> ('e, 'o) space \<Rightarrow>
    ('e, 'o) inner_element \<times> ('e, 'o) space" where
  "refresh_element env outs e s =
     fold (\<lambda>(out, geo). refresh_output (elem_bbox env e) out geo) outs (refresh_retain (map fst outs) e s)"

fun refresh_elements :: "('e, 'o) space_env \<Rightarrow> ('o \<times> rect) list \<Rightarrow> ('e, 'o) inner_element list \<Rightarrow> ('e, 'o) space \<Rightarrow>
    ('e, 'o) inner_element list \<times> ('e, 'o) space" where
  "refresh_elements env outs [] s = ([], s)"
| "refresh_elements env outs (e # es) s =
     (let (e, s) = refresh_element env outs e s; (es, s) = refresh_elements env outs es s in (e # es, s))"

definition space_refresh :: "('e, 'o) space_env \<Rightarrow> ('e, 'o) space \<Rightarrow> ('e, 'o) space" where
  "space_refresh env s =
     (let elements = filter (\<lambda>e. se_alive env (ie_element e)) (sp_elements s);
          outs = map (\<lambda>out. (out, case space_output_geometry env s out of Some g \<Rightarrow> g | None \<Rightarrow> rect_zero)) (sp_outputs s);
          (elements, s) = refresh_elements env outs elements s
      in s\<lparr>sp_elements := elements\<rparr>)"

section \<open>Drawing\<close>

text \<open>
  The layer surfaces of an output in the order they were mapped: identifier, layer, bounding box and
  geometry relative to the surface, and the arranged location.
\<close>

record space_layer =
  sl_id :: nat
  sl_layer :: wlr_layer
  sl_bbox :: rect
  sl_geometry :: rect
  sl_location :: point

datatype 'e drawn = Drawn_layer nat | Drawn_element 'e

fun render_zindex :: "wlr_layer \<Rightarrow> nat" where
  "render_zindex Background = 10"
| "render_zindex Bottom = 20"
| "render_zindex Top = 40"
| "render_zindex Overlay = 60"

text \<open>One thing to draw: what it is, its z-index, bounding box and location.\<close>

record 'e space_item =
  it_what :: "'e drawn"
  it_z_index :: nat
  it_bbox :: rect
  it_location :: point

definition item_of_layer :: "point \<Rightarrow> space_layer \<Rightarrow> 'e space_item" where
  "item_of_layer offset l =
     (let bbox = (sl_bbox l)\<lparr>rloc := point_add (rloc (sl_bbox l)) offset\<rparr>
      in \<lparr>it_what = Drawn_layer (sl_id l), it_z_index = render_zindex (sl_layer l), it_bbox = bbox, it_location = rloc bbox\<rparr>)"

definition item_of_element :: "('e, 'o) space_env \<Rightarrow> ('e, 'o) inner_element \<Rightarrow> 'e space_item" where
  "item_of_element env e = \<lparr>it_what = Drawn_element (ie_element e), it_z_index = se_z_index env (ie_element e),
     it_bbox = elem_bbox env e, it_location = render_location env e\<rparr>"

datatype render_error = Output_unmapped | Output_without_mode

text \<open>
  \<open>render_elements_for_output\<close>, front to back: what is drawn and where on the output, before the conversion
  to physical coordinates. \<open>Output_without_mode\<close> is the panic of its \<open>unwrap\<close>.
\<close>

definition render_elements_for_output :: "('e, 'o) space_env \<Rightarrow> space_layer list \<Rightarrow> 'o \<Rightarrow> ('e, 'o) space \<Rightarrow>
    render_error + ('e drawn \<times> point) list" where
  "render_elements_for_output env layers out s =
     (if out \<notin> set (sp_outputs s) then Inl Output_unmapped
      else case space_output_geometry env s out of
        None \<Rightarrow> Inl Output_without_mode
      | Some output_geo \<Rightarrow>
          (let items = map (item_of_element env) (rev (sp_elements s)) @ map (item_of_layer (rloc output_geo)) (rev layers);
               items = sort_key (\<lambda>i. - int (it_z_index i)) items
           in Inr (map (\<lambda>i. (it_what i, point_sub (it_location i) (rloc output_geo)))
                    (filter (\<lambda>i. rect_overlaps output_geo (it_bbox i)) items))))"

definition render_elements_for_region :: "('e, 'o) space_env \<Rightarrow> rect \<Rightarrow> ('e, 'o) space \<Rightarrow> ('e drawn \<times> point) list" where
  "render_elements_for_region env region s =
     map (\<lambda>e. (Drawn_element (ie_element e), point_sub (render_location env e) (rloc region)))
       (filter (\<lambda>e. rect_overlaps region (elem_bbox env e)) (rev (sp_elements s)))"

text \<open>\<open>space_render_elements\<close>: the layers above, the elements of each space, the layers below.\<close>

definition space_render_elements :: "('e, 'o) space_env \<Rightarrow> space_layer list \<Rightarrow> 'o \<Rightarrow> ('e, 'o) space list \<Rightarrow> ('e drawn \<times> point) list" where
  "space_render_elements env layers out spaces =
     (let low = (\<lambda>l. sl_layer l = Background \<or> sl_layer l = Bottom);
          draw = (\<lambda>l. (Drawn_layer (sl_id l), point_add (rloc (sl_geometry l)) (sl_location l)))
      in map draw (filter (\<lambda>l. \<not> low l) (rev layers)) @
         concat (map (\<lambda>s. case space_output_geometry env s out of Some g \<Rightarrow> render_elements_for_region env g s | None \<Rightarrow> []) spaces) @
         map draw (filter low (rev layers)))"

section \<open>Runs\<close>

text \<open>
  The operations of the compositor in any order. Geometries and modes change between them and elements die, but
  an element keeps its z-index; a dead element is not mapped again.
\<close>

inductive space_run :: "('e \<Rightarrow> nat) \<Rightarrow> ('e \<Rightarrow> bool) \<Rightarrow> ('e, 'o) space \<Rightarrow> bool" for z :: "'e \<Rightarrow> nat" where
  sr_start: "space_run z (\<lambda>_. True) space_default"
| sr_death: "space_run z alive s \<Longrightarrow> \<forall>e. alive' e \<longrightarrow> alive e \<Longrightarrow> space_run z alive' s"
| sr_map: "space_run z alive s \<Longrightarrow> se_z_index env = z \<Longrightarrow> alive e \<Longrightarrow> space_run z alive (map_element env e location activate s)"
| sr_map_above: "space_run z alive s \<Longrightarrow> se_z_index env = z \<Longrightarrow> alive e \<Longrightarrow>
    space_run z alive (map_element_above env e location reference activate s)"
| sr_raise: "space_run z alive s \<Longrightarrow> se_z_index env = z \<Longrightarrow> space_run z alive (raise_element env e activate s)"
| sr_raise_above: "space_run z alive s \<Longrightarrow> se_z_index env = z \<Longrightarrow> space_run z alive (raise_element_above env e reference activate s)"
| sr_lower: "space_run z alive s \<Longrightarrow> se_z_index env = z \<Longrightarrow> space_run z alive (lower_element env e s)"
| sr_relocate: "space_run z alive s \<Longrightarrow> space_run z alive (relocate_element e location s)"
| sr_unmap: "space_run z alive s \<Longrightarrow> space_run z alive (unmap_elem e s)"
| sr_map_output: "space_run z alive s \<Longrightarrow> space_run z alive (map_output out location s)"
| sr_unmap_output: "space_run z alive s \<Longrightarrow> space_run z alive (unmap_output out s)"
| sr_refresh: "space_run z alive s \<Longrightarrow> se_alive env = alive \<Longrightarrow> space_run z alive (space_refresh env s)"

end
