(* ===== verification/Space_Stack.thy ===== *)
theory Space_Stack
  imports Space
begin

text \<open>
  The stacking order of a space against its abstract content: one stack of elements for each z-index, bottom
  to top. The list of the code is always sorted by z-index and holds each element once.
\<close>

section \<open>Positions in a list\<close>

lemma position_Some: "position P xs = Some i \<longleftrightarrow> i < length xs \<and> P (xs ! i) \<and> (\<forall>j<i. \<not> P (xs ! j))"
proof (induction xs arbitrary: i)
  case (Cons x xs)
  show ?case
  proof (cases i)
    case (Suc j)
    have "(\<forall>k<Suc j. \<not> P ((x # xs) ! k)) \<longleftrightarrow> \<not> P x \<and> (\<forall>k<j. \<not> P (xs ! k))" by (simp add: All_less_Suc2)
    then show ?thesis using Suc Cons.IH[of j] by auto
  qed (auto split: if_splits)
qed simp

lemma position_None: "position P xs = None \<longleftrightarrow> (\<forall>x\<in>set xs. \<not> P x)"
  by (induction xs) auto

lemma position_split: "position P xs = Some i \<Longrightarrow> \<exists>ys x zs. xs = ys @ x # zs \<and> length ys = i \<and> P x \<and> (\<forall>y\<in>set ys. \<not> P y)"
proof (induction xs arbitrary: i)
  case (Cons x xs)
  show ?case
  proof (cases "P x")
    case True
    then show ?thesis using Cons.prems by (intro exI[of _ "[]"]) auto
  next
    case False
    then obtain j where j: "position P xs = Some j" "i = Suc j" using Cons.prems by auto
    obtain ys y zs where ys: "xs = ys @ y # zs" "length ys = j" "P y" "\<forall>y\<in>set ys. \<not> P y" using Cons.IH[OF j(1)] by blast
    show ?thesis using ys False j(2) by (intro exI[of _ "x # ys"] exI[of _ y] exI[of _ zs]) auto
  qed
qed simp

lemma vec_split [simp]:
  "vec_remove (length ys) (ys @ x # zs) = ys @ zs" "(ys @ x # zs) ! length ys = x" "vec_put (length ys) x (ys @ zs) = ys @ x # zs"
  by (simp_all add: vec_remove_def vec_put_def)

lemma vec_put_ends [simp]: "vec_put 0 x xs = x # xs" "vec_put (length xs) x xs = xs @ [x]"
  by (simp_all add: vec_put_def)

section \<open>The abstract stacks\<close>

abbreviation elems :: "('e, 'o) space \<Rightarrow> 'e list" where
  "elems s \<equiv> map ie_element (sp_elements s)"

definition stack :: "('e \<Rightarrow> nat) \<Rightarrow> nat \<Rightarrow> ('e, 'o) space \<Rightarrow> 'e list" where
  "stack z k s = filter (\<lambda>e. z e = k) (elems s)"

definition stack_inv :: "('e \<Rightarrow> nat) \<Rightarrow> ('e, 'o) space \<Rightarrow> bool" where
  "stack_inv z s \<longleftrightarrow> distinct (elems s) \<and> sorted (map z (elems s))"

lemma map_sort_key: "map f (sort_key (\<lambda>x. g (f x)) xs) = sort_key g (map f xs)"
proof -
  have "map f (insort_key (\<lambda>x. g (f x)) x ys) = insort_key g (f x) (map f ys)" for x ys by (induction ys) simp_all
  then show ?thesis by (induction xs) simp_all
qed

lemma filter_sort_key: "filter (\<lambda>x. f x = k) (sort_key f xs) = filter (\<lambda>x. f x = k) xs"
  using sort_key_stable[of f k xs] by simp

lemma elems_insert:
  assumes "se_z_index env = z"
  shows "elems (insert_elem env i e a s) = sort_key z (vec_put i (ie_element e) (elems s))"
proof -
  have "elems (insert_elem env i e a s) = map ie_element (sort_key (\<lambda>i. z (ie_element i)) (vec_put i e (sp_elements s)))"
    by (simp add: insert_elem_def Let_def assms)
  also have "\<dots> = sort_key z (map ie_element (vec_put i e (sp_elements s)))" by (rule map_sort_key)
  finally show ?thesis by (simp add: vec_put_def take_map drop_map)
qed

lemma insert_stack:
  assumes "se_z_index env = z"
  shows "stack z k (insert_elem env i e a s) = filter (\<lambda>e. z e = k) (vec_put i (ie_element e) (elems s))"
  unfolding stack_def elems_insert[OF assms] by (rule filter_sort_key)

lemma insert_stack_inv:
  assumes "se_z_index env = z" "distinct (elems s)" "ie_element e \<notin> set (elems s)"
  shows "stack_inv z (insert_elem env i e a s)"
proof -
  have "distinct (take i (elems s) @ drop i (elems s))" using assms(2) by simp
  then have "distinct (vec_put i (ie_element e) (elems s))"
    using assms(3) in_set_takeD[of "ie_element e" i "elems s"] in_set_dropD[of "ie_element e" i "elems s"]
    unfolding vec_put_def distinct_append by auto
  then show ?thesis unfolding stack_inv_def elems_insert[OF assms(1)] by simp
qed

text \<open>Where an element is in the list.\<close>

lemma elem_position_None: "elem_position e s = None \<longleftrightarrow> e \<notin> set (elems s)"
  by (auto simp: elem_position_def position_None)

lemma elem_position_split:
  assumes "elem_position e s = Some pos"
  obtains xs i ys where "sp_elements s = xs @ i # ys" "ie_element i = e" "length xs = pos" "e \<notin> ie_element ` set xs"
  using position_split[OF assms[unfolded elem_position_def]] by force

lemma elem_position_removed:
  fixes s :: "('e, 'o) space"
  assumes "elem_position e s = Some pos" "distinct (elems s)"
  shows "elems (s\<lparr>sp_elements := vec_remove pos (sp_elements s)\<rparr>) = filter (\<lambda>e'. e' \<noteq> e) (elems s)"
    "ie_element (sp_elements s ! pos) = e"
proof -
  obtain xs i ys where x: "sp_elements s = xs @ i # ys" "ie_element i = e" "length xs = pos" "e \<notin> ie_element ` set xs"
    using elem_position_split[OF assms(1)] .
  have ys: "e \<notin> ie_element ` set ys" using assms(2) x(1,2) by auto
  have f: "filter (\<lambda>e'. e' \<noteq> e) (map ie_element l) = map ie_element l" if "e \<notin> ie_element ` set l" for l :: "('e, 'o) inner_element list"
    using that by (intro filter_True) auto
  show "elems (s\<lparr>sp_elements := vec_remove pos (sp_elements s)\<rparr>) = filter (\<lambda>e'. e' \<noteq> e) (elems s)"
    using x f[of xs] f[OF ys] by (auto simp: vec_remove_def)
  show "ie_element (sp_elements s ! pos) = e" using x by (auto simp: nth_append)
qed

lemma elem_position_nth: "elem_position e s = Some pos \<Longrightarrow> pos < length (elems s) \<and> elems s ! pos = e"
  by (auto simp: elem_position_def position_Some)

text \<open>The index the code computes for placing \<open>e\<close> above \<open>r\<close>, once \<open>e\<close> is removed.\<close>

lemma above_index:
  assumes "distinct xs" "pos < length xs" "xs ! pos = e" "rpos < length xs" "xs ! rpos = r" "e \<noteq> r"
  shows "\<exists>ys zs. filter (\<lambda>e'. e' \<noteq> e) xs = ys @ r # zs \<and> (if pos > rpos then rpos + 1 else rpos) = Suc (length ys)"
proof -
  let ?f = "filter (\<lambda>e'. e' \<noteq> e)"
  have xs: "xs = take rpos xs @ r # drop (Suc rpos) xs" using assms(4,5) id_take_nth_drop by metis
  have "e \<in> set (take rpos xs) \<longleftrightarrow> pos < rpos"
    using assms(1-4) by (auto simp: in_set_conv_nth nth_eq_iff_index_eq)
  have "?f xs = ?f (take rpos xs) @ r # ?f (drop (Suc rpos) xs)" using assms(6) by (subst xs) simp
  moreover have "(if pos > rpos then rpos + 1 else rpos) = Suc (length (?f (take rpos xs)))"
  proof (cases "pos < rpos")
    case True
    then obtain us vs where us: "take rpos xs = us @ e # vs"
      using \<open>e \<in> set (take rpos xs) \<longleftrightarrow> pos < rpos\<close> by (meson split_list)
    have "distinct (us @ e # vs)" using assms(1) distinct_take[of xs rpos] us by simp
    then have "?f us = us" "?f vs = vs" by (auto intro!: filter_True)
    moreover have "length us + Suc (length vs) = rpos" using arg_cong[OF us, of length] assms(4) by simp
    ultimately show ?thesis using True us by simp
  next
    case False
    then have "?f (take rpos xs) = take rpos xs"
      using \<open>e \<in> set (take rpos xs) \<longleftrightarrow> pos < rpos\<close> by (auto intro!: filter_True)
    moreover have "pos \<noteq> rpos" using assms(3,5,6) by blast
    ultimately show ?thesis using False assms(4) by simp
  qed
  ultimately show ?thesis by blast
qed

lemma vec_put_above [simp]: "vec_put (Suc (length ys)) e (ys @ r # zs) = ys @ r # e # zs"
  by (simp add: vec_put_def)

section \<open>The operations on the stacks\<close>

lemma stack_removed: "filter (\<lambda>e. z e = k) (filter (\<lambda>e'. e' \<noteq> e) xs) = filter (\<lambda>e'. e' \<noteq> e) (filter (\<lambda>e. z e = k) xs)"
  by (simp add: filter_filter conj_commute)

text \<open>An element put back at the top or the bottom, or above another.\<close>

lemma reinsert_stack:
  assumes "distinct (elems s)" "se_z_index env = z" "elems s' = filter (\<lambda>e'. e' \<noteq> e) (elems s)" "ie_element i = e"
  shows "stack z k (insert_elem env (length (sp_elements s')) i a s') = filter (\<lambda>e'. e' \<noteq> e) (stack z k s) @ (if z e = k then [e] else [])"
    "stack z k (insert_elem env 0 i a s') = (if z e = k then [e] else []) @ filter (\<lambda>e'. e' \<noteq> e) (stack z k s)"
    "stack_inv z (insert_elem env n i a s')"
proof -
  have n: "length (sp_elements s') = length (elems s')" by simp
  note I = insert_stack[OF assms(2), of k _ i a s', unfolded assms(4)]
  show "stack z k (insert_elem env (length (sp_elements s')) i a s') = filter (\<lambda>e'. e' \<noteq> e) (stack z k s) @ (if z e = k then [e] else [])"
    unfolding I n vec_put_ends unfolding assms(3) filter_append stack_removed unfolding stack_def by simp
  show "stack z k (insert_elem env 0 i a s') = (if z e = k then [e] else []) @ filter (\<lambda>e'. e' \<noteq> e) (stack z k s)"
    unfolding I vec_put_ends unfolding assms(3) filter.simps stack_removed unfolding stack_def by simp
  show "stack_inv z (insert_elem env n i a s')"
    using assms(1) by (intro insert_stack_inv[OF assms(2)]) (simp_all add: assms(3,4))
qed

lemma create_inner_removed:
  assumes "create_inner_element e l s = (i, s')" "distinct (elems s)"
  shows "elems s' = filter (\<lambda>e'. e' \<noteq> e) (elems s)" "ie_element i = e"
proof -
  have "filter (\<lambda>e'. e' \<noteq> e) (elems s) = elems s" if "e \<notin> set (elems s)" using that by (auto intro!: filter_True)
  then show "elems s' = filter (\<lambda>e'. e' \<noteq> e) (elems s)" "ie_element i = e"
    using assms elem_position_removed[of e s] elem_position_None[of e s]
    by (auto simp: create_inner_element_def split: option.splits)
qed

lemma map_element_stack:
  assumes "stack_inv z s" "se_z_index env = z"
  shows "stack z k (map_element env e l a s) = filter (\<lambda>e'. e' \<noteq> e) (stack z k s) @ (if z e = k then [e] else [])"
    "stack_inv z (map_element env e l a s)"
proof -
  obtain i s' where c: "create_inner_element e l s = (i, s')" by fastforce
  have d: "distinct (elems s)" using assms(1) by (simp add: stack_inv_def)
  note R = reinsert_stack[OF d assms(2) create_inner_removed[OF c d]]
  show "stack z k (map_element env e l a s) = filter (\<lambda>e'. e' \<noteq> e) (stack z k s) @ (if z e = k then [e] else [])"
    "stack_inv z (map_element env e l a s)"
    unfolding map_element_def c Let_def prod.case by (rule R)+
qed

lemma raise_element_stack:
  assumes "stack_inv z s" "se_z_index env = z"
  shows "e \<in> set (elems s) \<Longrightarrow> stack z k (raise_element env e a s) = filter (\<lambda>e'. e' \<noteq> e) (stack z k s) @ (if z e = k then [e] else [])"
    "stack_inv z (raise_element env e a s)" "e \<notin> set (elems s) \<Longrightarrow> raise_element env e a s = s"
proof -
  have d: "distinct (elems s)" using assms(1) by (simp add: stack_inv_def)
  note R = reinsert_stack[OF d assms(2) elem_position_removed[OF _ d]]
  show "e \<in> set (elems s) \<Longrightarrow> stack z k (raise_element env e a s) = filter (\<lambda>e'. e' \<noteq> e) (stack z k s) @ (if z e = k then [e] else [])"
    "stack_inv z (raise_element env e a s)" "e \<notin> set (elems s) \<Longrightarrow> raise_element env e a s = s"
    using R(1,3) assms(1) elem_position_None[of e s] unfolding raise_element_def Let_def by (auto split: option.splits)
qed

lemma lower_element_stack:
  assumes "stack_inv z s" "se_z_index env = z"
  shows "e \<in> set (elems s) \<Longrightarrow> stack z k (lower_element env e s) = (if z e = k then [e] else []) @ filter (\<lambda>e'. e' \<noteq> e) (stack z k s)"
    "stack_inv z (lower_element env e s)" "e \<notin> set (elems s) \<Longrightarrow> lower_element env e s = s"
proof -
  have d: "distinct (elems s)" using assms(1) by (simp add: stack_inv_def)
  note R = reinsert_stack[OF d assms(2) elem_position_removed[OF _ d]]
  show "e \<in> set (elems s) \<Longrightarrow> stack z k (lower_element env e s) = (if z e = k then [e] else []) @ filter (\<lambda>e'. e' \<noteq> e) (stack z k s)"
    "stack_inv z (lower_element env e s)" "e \<notin> set (elems s) \<Longrightarrow> lower_element env e s = s"
    using R(2,3) assms(1) elem_position_None[of e s] unfolding lower_element_def by (auto split: option.splits)
qed

text \<open>
  What putting \<open>e\<close> above \<open>r\<close> does to the stack of one z-index. Only the stack of \<open>e\<close> changes: right above
  \<open>r\<close> when both are of one z-index, otherwise to its end that is next to the stack of \<open>r\<close>.
\<close>

definition placed_above :: "('e \<Rightarrow> nat) \<Rightarrow> 'e \<Rightarrow> 'e \<Rightarrow> nat \<Rightarrow> 'e list \<Rightarrow> 'e list \<Rightarrow> bool" where
  "placed_above z r e k old new \<longleftrightarrow>
     (if k \<noteq> z e then new = old
      else if z e < z r then new = filter (\<lambda>e'. e' \<noteq> e) old @ [e]
      else if z r < z e then new = e # filter (\<lambda>e'. e' \<noteq> e) old
      else (\<exists>us vs. filter (\<lambda>e'. e' \<noteq> e) old = us @ r # vs \<and> new = us @ r # e # vs))"

lemma filter_no_key: "(\<And>x. x \<in> set xs \<Longrightarrow> z x \<noteq> k) \<Longrightarrow> filter (\<lambda>e. z e = k) xs = []"
  by (induction xs) auto

lemma reinsert_above:
  assumes inv: "stack_inv z s" and z: "se_z_index env = z" and s': "elems s' = filter (\<lambda>e'. e' \<noteq> e) (elems s)" and i: "ie_element i = e"
    and ys: "elems s' = ys @ r # zs"
  shows "placed_above z r e k (stack z k s) (stack z k (insert_elem env (Suc (length ys)) i a s'))"
proof -
  let ?P = "filter (\<lambda>x. z x = k)"
  have new: "stack z k (insert_elem env (Suc (length ys)) i a s') = ?P (ys @ r # e # zs)"
    unfolding insert_stack[OF z] i ys by simp
  have old: "filter (\<lambda>e'. e' \<noteq> e) (stack z k s) = ?P (ys @ r # zs)"
    unfolding stack_def ys[symmetric] s' by (rule stack_removed[symmetric])
  have same: "filter (\<lambda>e'. e' \<noteq> e) (stack z k s) = stack z k s" if "k \<noteq> z e"
    using that by (intro filter_True) (auto simp: stack_def)
  have "sorted (map z (filter (\<lambda>e'. e' \<noteq> e) (elems s)))"
    using inv by (simp add: stack_inv_def sorted_wrt_map sorted_wrt_filter)
  then have "sorted (map z (ys @ r # zs))" unfolding s'[symmetric] ys .
  then have low: "\<forall>x\<in>set ys. z x \<le> z r" and high: "\<forall>x\<in>set zs. z r \<le> z x"
    by (auto simp: sorted_append)
  consider (other) "k \<noteq> z e" | (below) "k = z e" "z e < z r" | (up) "k = z e" "z r < z e" | (equal) "k = z e" "z r = z e"
    by (metis linorder_neqE_nat)
  then show ?thesis
  proof cases
    case other
    then have "?P (ys @ r # e # zs) = ?P (ys @ r # zs)" by simp
    then show ?thesis using other same old new by (simp add: placed_above_def)
  next
    case below
    have "?P zs = []" using below high by (intro filter_no_key) force
    then show ?thesis using below unfolding placed_above_def new old by simp
  next
    case up
    have "?P ys = []" using up low by (intro filter_no_key) force
    then show ?thesis using up unfolding placed_above_def new old by simp
  next
    case equal
    then show ?thesis unfolding placed_above_def new old
      by (simp add: exI[of _ "?P ys"] exI[of _ "?P zs"])
  qed
qed

text \<open>Placing a mapped element above another one, as both operations do it; above itself it stays.\<close>

lemma above_stack:
  assumes inv: "stack_inv z s" and z: "se_z_index env = z" and pos: "elem_position e s = Some pos" "elem_position r s = Some rpos"
  shows "e \<noteq> r \<Longrightarrow> placed_above z r e k (stack z k s) (stack z k (insert_elem env (if pos > rpos then rpos + 1 else rpos) (sp_elements s ! pos) a
        (s\<lparr>sp_elements := vec_remove pos (sp_elements s)\<rparr>)))"
    "e = r \<Longrightarrow> elems (insert_elem env (if pos > rpos then rpos + 1 else rpos) (sp_elements s ! pos) a
        (s\<lparr>sp_elements := vec_remove pos (sp_elements s)\<rparr>)) = elems s"
    "stack_inv z (insert_elem env n (sp_elements s ! pos) a (s\<lparr>sp_elements := vec_remove pos (sp_elements s)\<rparr>))"
proof -
  have d: "distinct (elems s)" using inv by (simp add: stack_inv_def)
  note E = elem_position_removed[OF pos(1) d]
  show "stack_inv z (insert_elem env n (sp_elements s ! pos) a (s\<lparr>sp_elements := vec_remove pos (sp_elements s)\<rparr>))"
    by (rule reinsert_stack(3)[OF d z E])
  show "placed_above z r e k (stack z k s) (stack z k (insert_elem env (if pos > rpos then rpos + 1 else rpos) (sp_elements s ! pos) a
        (s\<lparr>sp_elements := vec_remove pos (sp_elements s)\<rparr>)))" if ne: "e \<noteq> r"
  proof -
    obtain ys zs where ys: "filter (\<lambda>e'. e' \<noteq> e) (elems s) = ys @ r # zs" "(if pos > rpos then rpos + 1 else rpos) = Suc (length ys)"
      using above_index[OF d _ _ _ _ ne, of pos rpos] elem_position_nth[OF pos(1)] elem_position_nth[OF pos(2)] by blast
    show ?thesis unfolding ys(2) by (rule reinsert_above[OF inv z E]) (simp only: E(1) ys(1))
  qed
  show "elems (insert_elem env (if pos > rpos then rpos + 1 else rpos) (sp_elements s ! pos) a
        (s\<lparr>sp_elements := vec_remove pos (sp_elements s)\<rparr>)) = elems s" if "e = r"
  proof -
    have r: "(if pos > rpos then rpos + 1 else rpos) = pos" using pos that by simp
    obtain xs j ys where x: "sp_elements s = xs @ j # ys" "ie_element j = e" "length xs = pos" "e \<notin> ie_element ` set xs"
      using elem_position_split[OF pos(1)] .
    have "vec_put pos (ie_element (sp_elements s ! pos)) (elems (s\<lparr>sp_elements := vec_remove pos (sp_elements s)\<rparr>)) = elems s"
      using vec_split(3)[of "map ie_element xs" "ie_element j" "map ie_element ys"]
      by (simp add: x(1) x(3)[symmetric])
    then have "elems (insert_elem env pos (sp_elements s ! pos) a (s\<lparr>sp_elements := vec_remove pos (sp_elements s)\<rparr>)) = sort_key z (elems s)"
      unfolding elems_insert[OF z] by (rule arg_cong)
    also have "\<dots> = elems s" using inv by (intro sort_key_id_if_sorted) (simp add: stack_inv_def)
    finally show ?thesis unfolding r .
  qed
qed

lemma raise_element_above_stack:
  assumes "stack_inv z s" "se_z_index env = z"
  shows "e \<in> set (elems s) \<Longrightarrow> r \<in> set (elems s) \<Longrightarrow> e \<noteq> r \<Longrightarrow>
      placed_above z r e k (stack z k s) (stack z k (raise_element_above env e r a s))"
    "stack_inv z (raise_element_above env e r a s)" "e \<notin> set (elems s) \<or> r \<notin> set (elems s) \<Longrightarrow> raise_element_above env e r a s = s"
    "elems (raise_element_above env e e a s) = elems s"
proof -
  note A = above_stack[OF assms]
  show "e \<in> set (elems s) \<Longrightarrow> r \<in> set (elems s) \<Longrightarrow> e \<noteq> r \<Longrightarrow>
      placed_above z r e k (stack z k s) (stack z k (raise_element_above env e r a s))"
    using A(1)[of e _ r] elem_position_None[of e s] elem_position_None[of r s]
    unfolding raise_element_above_def by (auto split: option.splits)
  show "stack_inv z (raise_element_above env e r a s)"
    using A(3)[of e _ r] assms(1) unfolding raise_element_above_def by (auto split: option.splits)
  show "e \<notin> set (elems s) \<or> r \<notin> set (elems s) \<Longrightarrow> raise_element_above env e r a s = s"
    using elem_position_None[of e s] elem_position_None[of r s] unfolding raise_element_above_def by (auto split: option.splits)
  show "elems (raise_element_above env e e a s) = elems s"
    using A(2)[of e _ e] unfolding raise_element_above_def by (auto split: option.splits)
qed

lemma map_element_above_stack:
  assumes inv: "stack_inv z s" and z: "se_z_index env = z"
  shows "r \<in> set (elems s) \<Longrightarrow> e \<noteq> r \<Longrightarrow> placed_above z r e k (stack z k s) (stack z k (map_element_above env e l r a s))"
    "stack_inv z (map_element_above env e l r a s)" "r \<notin> set (elems s) \<Longrightarrow> map_element_above env e l r a s = s"
    "elems (map_element_above env e l e a s) = elems s"
proof -
  note A = above_stack[OF inv z]
  have d: "distinct (elems s)" using inv by (simp add: stack_inv_def)
  show "r \<notin> set (elems s) \<Longrightarrow> map_element_above env e l r a s = s"
    using elem_position_None[of r s] by (simp add: map_element_above_def)
  show "elems (map_element_above env e l e a s) = elems s"
    using A(2)[of e _ e] unfolding map_element_above_def by (auto split: option.splits)
  have "(r \<in> set (elems s) \<longrightarrow> e \<noteq> r \<longrightarrow> placed_above z r e k (stack z k s) (stack z k (map_element_above env e l r a s))) \<and>
     stack_inv z (map_element_above env e l r a s)"
  proof (cases "elem_position r s")
    case None
    then show ?thesis using inv elem_position_None[of r s] by (simp add: map_element_above_def)
  next
    case (Some rpos)
    show ?thesis
    proof (cases "elem_position e s")
      case None
      obtain i s' where c: "create_inner_element e l s = (i, s')" by fastforce
      note C = create_inner_removed[OF c d]
      have s': "s' = s" using c None by (simp add: create_inner_element_def)
      have m: "map_element_above env e l r a s = insert_elem env (rpos + 1) i a s'"
        by (simp add: map_element_above_def Some None c)
      have split: "elems s' = take rpos (elems s) @ r # drop (Suc rpos) (elems s)" "length (take rpos (elems s)) = rpos"
        using elem_position_nth[OF Some] by (simp_all add: s' id_take_nth_drop[symmetric] flip: take_map drop_map) (metis id_take_nth_drop length_map)
      show ?thesis using reinsert_above[OF inv z C split(1), of k a] reinsert_stack(3)[OF d z C]
        unfolding m split(2) by simp
    next
      case (Some pos)
      then show ?thesis using A(1,3)[OF Some \<open>elem_position r s = Some rpos\<close>] \<open>elem_position r s = Some rpos\<close>
        unfolding map_element_above_def by simp
    qed
  qed
  then show "r \<in> set (elems s) \<Longrightarrow> e \<noteq> r \<Longrightarrow> placed_above z r e k (stack z k s) (stack z k (map_element_above env e l r a s))"
    "stack_inv z (map_element_above env e l r a s)" by blast+
qed

section \<open>All runs\<close>

lemma filter_other: "e \<notin> set xs \<Longrightarrow> filter (\<lambda>e'. e' \<noteq> e) xs = xs"
  by (induction xs) auto

lemma unmap_elem_elems: "distinct (elems s) \<Longrightarrow> elems (unmap_elem e s) = filter (\<lambda>e'. e' \<noteq> e) (elems s)"
proof (cases "elem_position e s")
  case None
  then have "e \<notin> set (elems s)" by (rule elem_position_None[THEN iffD1])
  then have "filter (\<lambda>e'. e' \<noteq> e) (elems s) = elems s" by (rule filter_other)
  then show ?thesis by (simp only: unmap_elem_def None option.case)
next
  case (Some pos)
  assume "distinct (elems s)"
  from elem_position_removed(1)[OF Some this] show ?thesis using Some by (simp add: unmap_elem_def Let_def)
qed

lemma relocate_elems: "elems (relocate_element e l s) = elems s"
proof (cases "elem_position e s")
  case (Some pos)
  have "pos < length (sp_elements s)" using elem_position_nth[OF Some] by simp
  then show ?thesis using Some by (simp add: relocate_element_def map_update list_update_same_conv)
qed (simp add: relocate_element_def)

lemma refresh_output_elem:
  "ie_element (fst (refresh_output b out g (e, s))) = ie_element e" "sp_elements (snd (refresh_output b out g (e, s))) = sp_elements s"
  by (simp_all add: refresh_output_def tell_def Let_def split: option.split)

lemma refresh_fold_elem:
  "ie_element (fst (fold (\<lambda>(out, g). refresh_output b out g) outs (e, s))) = ie_element e \<and>
   sp_elements (snd (fold (\<lambda>(out, g). refresh_output b out g) outs (e, s))) = sp_elements s"
proof (induction outs arbitrary: e s)
  case (Cons og outs)
  obtain out g where og: "og = (out, g)" by fastforce
  obtain e' s' where r: "refresh_output b out g (e, s) = (e', s')" by fastforce
  show ?case using refresh_output_elem[of b out g e s] Cons.IH[of e' s'] by (simp add: og r)
qed simp

lemma refresh_elements_elems: "map ie_element (fst (refresh_elements env outs es s)) = map ie_element es"
proof (induction es arbitrary: s)
  case (Cons e es)
  obtain e' s' where r: "refresh_element env outs e s = (e', s')" by fastforce
  have "ie_element e' = ie_element e"
    using refresh_fold_elem[of "elem_bbox env e" outs "fst (refresh_retain (map fst outs) e s)" "snd (refresh_retain (map fst outs) e s)"] r
    by (simp add: refresh_element_def refresh_retain_def)
  moreover obtain es' s'' where "refresh_elements env outs es s' = (es', s'')" by fastforce
  ultimately show ?case using Cons.IH[of s'] by (simp add: r)
qed simp

lemma refresh_elems: "elems (space_refresh env s) = filter (se_alive env) (elems s)"
  by (simp add: space_refresh_def Let_def refresh_elements_elems filter_map comp_def case_prod_unfold)

lemma stack_inv_filter: "stack_inv z s \<Longrightarrow> elems s' = filter P (elems s) \<Longrightarrow> stack_inv z s'"
  unfolding stack_inv_def by (simp add: sorted_wrt_map sorted_wrt_filter)

lemma stack_inv_same: "stack_inv z s \<Longrightarrow> elems s' = elems s \<Longrightarrow> stack_inv z s'"
  by (simp add: stack_inv_def)

lemma space_run_stack_inv: "space_run z alive s \<Longrightarrow> stack_inv z s"
proof (induction rule: space_run.induct)
  case sr_start
  then show ?case by (simp add: stack_inv_def space_default_def)
next
  case (sr_relocate alive s e l)
  show ?case by (rule stack_inv_same[OF sr_relocate.IH relocate_elems])
next
  case (sr_unmap alive s e)
  have "distinct (elems s)" using sr_unmap.IH by (simp add: stack_inv_def)
  from stack_inv_filter[OF sr_unmap.IH unmap_elem_elems[OF this]] show ?case .
next
  case (sr_map_output alive s out l)
  show ?case by (rule stack_inv_same[OF sr_map_output.IH]) (simp add: map_output_def Let_def)
next
  case (sr_unmap_output alive s out)
  show ?case by (rule stack_inv_same[OF sr_unmap_output.IH]) (simp add: unmap_output_def)
next
  case (sr_refresh alive s env)
  show ?case by (rule stack_inv_filter[OF sr_refresh.IH refresh_elems])
qed (blast intro: map_element_stack(2) map_element_above_stack(2) raise_element_stack(2) raise_element_above_stack(2) lower_element_stack(2))+

text \<open>
  The elements of a space are one stack for each z-index: lower indices come before higher ones, and each
  element is there once.
\<close>

lemma unmap_missing: "e \<notin> set (elems s) \<Longrightarrow> unmap_elem e s = s"
  using elem_position_None[of e s] by (simp add: unmap_elem_def)

text \<open>C21. How the operations of a space restack its elements, which are one stack for each z-index, lower
  indices below higher ones, each element once. Mapping and raising put an element on top of the stack of
  its z-index, lowering at its bottom; mapping or raising it above a mapped reference puts it right above
  that one if both have the same z-index, else on top of its stack below or at the bottom of its stack
  above, and leaves it where it is if it is its own reference. Relocating restacks nothing, unmapping and
  refreshing only remove. No operation touches another stack or the order of the other elements, and
  those documented to do nothing for elements or references that are not mapped change nothing at all.\<close>

theorem space_stacking:
  assumes run: "space_run z alive s" and z: "se_z_index env = z"
  shows "distinct (elems s) \<and> sorted (map z (elems s)) \<and>
    (\<forall>e l a k. stack z k (map_element env e l a s) = filter (\<lambda>e'. e' \<noteq> e) (stack z k s) @ (if z e = k then [e] else [])) \<and>
    (\<forall>e\<in>set (elems s). \<forall>a k. stack z k (raise_element env e a s) = filter (\<lambda>e'. e' \<noteq> e) (stack z k s) @ (if z e = k then [e] else [])) \<and>
    (\<forall>e\<in>set (elems s). \<forall>k. stack z k (lower_element env e s) = (if z e = k then [e] else []) @ filter (\<lambda>e'. e' \<noteq> e) (stack z k s)) \<and>
    (\<forall>e. \<forall>r\<in>set (elems s). e \<noteq> r \<longrightarrow> (\<forall>l a k. placed_above z r e k (stack z k s) (stack z k (map_element_above env e l r a s)))) \<and>
    (\<forall>e\<in>set (elems s). \<forall>r\<in>set (elems s). e \<noteq> r \<longrightarrow> (\<forall>a k. placed_above z r e k (stack z k s) (stack z k (raise_element_above env e r a s)))) \<and>
    (\<forall>e l a. elems (map_element_above env e l e a s) = elems s \<and> elems (raise_element_above env e e a s) = elems s) \<and>
    (\<forall>e l. elems (relocate_element e l s) = elems s) \<and>
    (\<forall>e k. stack z k (unmap_elem e s) = filter (\<lambda>e'. e' \<noteq> e) (stack z k s)) \<and>
    (\<forall>k. stack z k (space_refresh env s) = filter (se_alive env) (stack z k s)) \<and>
    (\<forall>e. e \<notin> set (elems s) \<longrightarrow> (\<forall>r l a. raise_element env e a s = s \<and> lower_element env e s = s \<and> unmap_elem e s = s \<and>
       raise_element_above env e r a s = s \<and> raise_element_above env r e a s = s \<and> map_element_above env r l e a s = s))"
proof -
  note inv = space_run_stack_inv[OF run]
  have d: "distinct (elems s)" "sorted (map z (elems s))" using inv by (simp_all add: stack_inv_def)
  have removed: "stack z k (unmap_elem e s) = filter (\<lambda>e'. e' \<noteq> e) (stack z k s)" for e k
    unfolding stack_def unmap_elem_elems[OF d(1)] by (rule stack_removed)
  have refreshed: "stack z k (space_refresh env s) = filter (se_alive env) (stack z k s)" for k
    unfolding stack_def refresh_elems by (simp add: filter_filter conj_commute)
  note R = raise_element_above_stack[OF inv z] and M = map_element_above_stack[OF inv z]
  show ?thesis
    by (intro conjI allI ballI impI)
      (rule d removed refreshed map_element_stack(1)[OF inv z] M(4) R(4) relocate_elems |
       erule raise_element_stack(1,3)[OF inv z] | erule lower_element_stack(1,3)[OF inv z] | erule unmap_missing |
       erule M(3) | rule R(3), simp | rule M(1) R(1), assumption+)+
qed

end
