(* ===== verification/Space_Outputs.thy ===== *)
theory Space_Outputs
  imports Space_Stack
begin

text \<open>
  What the elements of a space are told about outputs, against what the space records for them: the calls of
  \<open>output_enter\<close> and \<open>output_leave\<close> follow the recorded overlaps, and refreshing makes these exact.
\<close>

section \<open>What an element was told\<close>

definition told_overlap :: "rect option list \<Rightarrow> rect option" where
  "told_overlap l = last (None # l)"

text \<open>No call repeats what the element was told before.\<close>

definition fresh_calls :: "rect option list \<Rightarrow> bool" where
  "fresh_calls l \<longleftrightarrow> distinct_adj (None # l)"

lemma told_simps [simp]: "told_overlap [] = None" "told_overlap (l @ [v]) = v" "fresh_calls []"
  by (simp_all add: told_overlap_def fresh_calls_def)

lemma fresh_calls_snoc: "fresh_calls (l @ [v]) \<longleftrightarrow> fresh_calls l \<and> told_overlap l \<noteq> v"
  using distinct_adj_append_iff[of "None # l" "[v]"] by (auto simp: fresh_calls_def told_overlap_def)

text \<open>The view of one element.\<close>

definition elem_view :: "('e, 'o) inner_element \<Rightarrow> ('e, 'o) space \<Rightarrow> bool" where
  "elem_view i s \<longleftrightarrow> (\<forall>out. fresh_calls (sp_log s (ie_element i) out) \<and> told_overlap (sp_log s (ie_element i) out) = ie_outputs i out)"

definition view_inv :: "('e \<Rightarrow> bool) \<Rightarrow> ('e, 'o) space \<Rightarrow> bool" where
  "view_inv alive s \<longleftrightarrow> (\<forall>e out. fresh_calls (sp_log s e out)) \<and> (\<forall>i\<in>set (sp_elements s). elem_view i s) \<and>
     (\<forall>e out. alive e \<longrightarrow> e \<notin> set (elems s) \<longrightarrow> told_overlap (sp_log s e out) = None)"

lemma view_invI:
  "(\<And>e out. fresh_calls (sp_log s e out)) \<Longrightarrow> (\<And>i. i \<in> set (sp_elements s) \<Longrightarrow> elem_view i s) \<Longrightarrow>
   (\<And>e out. alive e \<Longrightarrow> e \<notin> set (elems s) \<Longrightarrow> told_overlap (sp_log s e out) = None) \<Longrightarrow> view_inv alive s"
  unfolding view_inv_def by blast

lemma view_invD:
  assumes "view_inv alive s"
  shows "fresh_calls (sp_log s e out)" "i \<in> set (sp_elements s) \<Longrightarrow> elem_view i s"
    "alive e \<Longrightarrow> e \<notin> set (elems s) \<Longrightarrow> told_overlap (sp_log s e out) = None"
  using assms unfolding view_inv_def by blast+

lemma elem_view_cong:
  "ie_element i = ie_element j \<Longrightarrow> ie_outputs i = ie_outputs j \<Longrightarrow> sp_log s' (ie_element i) = sp_log s (ie_element i) \<Longrightarrow>
   elem_view j s \<Longrightarrow> elem_view i s'"
  by (simp add: elem_view_def)

text \<open>Restacking and moving an element leave what it was told and what is recorded.\<close>

definition same_outputs :: "('e, 'o) space \<Rightarrow> ('e, 'o) space \<Rightarrow> bool" where
  "same_outputs s s' \<longleftrightarrow> sp_log s' = sp_log s \<and> set (elems s) \<subseteq> set (elems s') \<and>
     (\<forall>i\<in>set (sp_elements s'). \<exists>j\<in>set (sp_elements s). ie_element i = ie_element j \<and> ie_outputs i = ie_outputs j)"

lemma view_same: 
  assumes "view_inv alive s" "same_outputs s s'" shows "view_inv alive s'"
proof (rule view_invI)
  have log: "sp_log s' = sp_log s" and more: "set (elems s) \<subseteq> set (elems s')"
    and ex: "\<forall>i\<in>set (sp_elements s'). \<exists>j\<in>set (sp_elements s). ie_element i = ie_element j \<and> ie_outputs i = ie_outputs j"
    using assms(2) unfolding same_outputs_def by blast+
  show "fresh_calls (sp_log s' e out)" for e out unfolding log by (rule view_invD(1)[OF assms(1)])
  show "elem_view i s'" if i: "i \<in> set (sp_elements s')" for i
  proof -
    obtain j where j: "j \<in> set (sp_elements s)" "ie_element i = ie_element j" "ie_outputs i = ie_outputs j" using bspec[OF ex i] by blast
    show ?thesis by (rule elem_view_cong[OF j(2,3) _ view_invD(2)[OF assms(1) j(1)]]) (simp only: log)
  qed
  show "told_overlap (sp_log s' e out) = None" if "alive e" "e \<notin> set (elems s')" for e out
    unfolding log by (rule view_invD(3)[OF assms(1) that(1)]) (use that(2) more in blast)
qed

lemma set_vec_put: "set (vec_put i x xs) = insert x (set xs)"
  using append_take_drop_id[of i xs] by (metis Un_insert_right list.simps(15) set_append vec_put_def)

lemma insert_elem_log [simp]: "sp_log (insert_elem env n i a s) = sp_log s"
  by (simp add: insert_elem_def Let_def)

lemma insert_elem_set: "set (sp_elements (insert_elem env n i a s)) = insert i (set (sp_elements s))"
  by (simp add: insert_elem_def Let_def set_vec_put)

lemma removed_set: "elem_position e s = Some pos \<Longrightarrow> set (sp_elements s) = insert (sp_elements s ! pos) (set (vec_remove pos (sp_elements s)))"
  by (rule elem_position_split) (auto simp: nth_append vec_remove_def)

lemma reinsert_same:
  assumes "elem_position e s = Some pos"
  shows "same_outputs s (insert_elem env n (sp_elements s ! pos) a (s\<lparr>sp_elements := vec_remove pos (sp_elements s)\<rparr>))"
  unfolding same_outputs_def insert_elem_set insert_elem_log set_map using removed_set[OF assms] by auto

lemma map_existing_same:
  assumes "elem_position e s = Some pos" "create_inner_element e l s = (i, s')"
  shows "same_outputs s (insert_elem env n i a s')"
proof -
  have "ie_element (sp_elements s ! pos) = e" using elem_position_nth[OF assms(1)] by (metis length_map nth_map)
  then show ?thesis using removed_set[OF assms(1)] assms(1,2)
    unfolding same_outputs_def insert_elem_set set_map by (auto simp: create_inner_element_def)
qed

lemma map_new_view:
  assumes "view_inv alive s" "alive e" "elem_position e s = None" "create_inner_element e l s = (i, s')"
  shows "view_inv alive (insert_elem env n i a s')"
proof -
  have i: "i = \<lparr>ie_element = e, ie_location = l, ie_outputs = (\<lambda>_. None)\<rparr>" "s' = s" using assms(3,4) by (simp_all add: create_inner_element_def)
  have "e \<notin> set (elems s)" by (rule elem_position_None[THEN iffD1, OF assms(3)])
  note new = view_invD(3)[OF assms(1,2) this]
  show ?thesis
  proof (rule view_invI)
    show "elem_view j (insert_elem env n i a s')" if "j \<in> set (sp_elements (insert_elem env n i a s'))" for j
      using that view_invD(1)[OF assms(1)] view_invD(2)[OF assms(1), of j] new by (auto simp: insert_elem_set i elem_view_def)
  qed (use view_invD[OF assms(1)] in \<open>auto simp: insert_elem_set i(2)\<close>)
qed

section \<open>Refreshing one element\<close>

text \<open>The overlap of an output relative to the element.\<close>

definition overlap_of :: "rect \<Rightarrow> rect \<Rightarrow> rect option" where
  "overlap_of bbox geo = map_option (\<lambda>r. r\<lparr>rloc := point_sub (rloc r) (rloc bbox)\<rparr>) (rect_intersection geo bbox)"

definition other_logs :: "'e \<Rightarrow> ('e, 'o) space \<Rightarrow> ('e, 'o) space \<Rightarrow> bool" where
  "other_logs e s s' \<longleftrightarrow> (\<forall>e'. e' \<noteq> e \<longrightarrow> sp_log s' e' = sp_log s e') \<and> sp_elements s' = sp_elements s"

lemma other_logs_trans: "other_logs e s t \<Longrightarrow> other_logs e t u \<Longrightarrow> other_logs e s u"
  by (simp add: other_logs_def)

lemma refresh_output_view:
  assumes "elem_view i s" "refresh_output bbox out geo (i, s) = (i', s')"
  shows "elem_view i' s'" "ie_outputs i' = (ie_outputs i)(out := overlap_of bbox geo)" "ie_element i' = ie_element i"
    "ie_location i' = ie_location i" "other_logs (ie_element i) s s'"
proof -
  have log: "fresh_calls (sp_log s (ie_element i) o')" "told_overlap (sp_log s (ie_element i) o') = ie_outputs i o'" for o'
    using assms(1) by (simp_all add: elem_view_def)
  show "elem_view i' s'" "ie_outputs i' = (ie_outputs i)(out := overlap_of bbox geo)" "ie_element i' = ie_element i"
    "ie_location i' = ie_location i" "other_logs (ie_element i) s s'"
    using assms(2) log
    by (auto simp: refresh_output_def overlap_of_def elem_view_def tell_def other_logs_def fresh_calls_snoc Let_def fun_upd_idem_iff
        split: option.splits if_splits)
qed

lemma refresh_fold_view:
  assumes "elem_view i s" "fold (\<lambda>(out, g). refresh_output bbox out g) (map (\<lambda>out. (out, G out)) outs) (i, s) = (i', s')"
  shows "elem_view i' s' \<and> ie_outputs i' = (\<lambda>out. if out \<in> set outs then overlap_of bbox (G out) else ie_outputs i out) \<and>
    ie_element i' = ie_element i \<and> ie_location i' = ie_location i \<and> other_logs (ie_element i) s s'"
  using assms
proof (induction outs arbitrary: i s)
  case (Cons out outs)
  obtain i1 s1 where r: "refresh_output bbox out (G out) (i, s) = (i1, s1)" by fastforce
  note R = refresh_output_view[OF Cons.prems(1) r]
  have "fold (\<lambda>(out, g). refresh_output bbox out g) (map (\<lambda>out. (out, G out)) outs) (i1, s1) = (i', s')"
    using Cons.prems(2) by (simp add: r)
  note IH = Cons.IH[OF R(1) this]
  then show ?case using R(2-5) other_logs_trans[of "ie_element i" s s1 s'] by (auto simp: fun_eq_iff)
qed (auto simp: other_logs_def)

lemma refresh_retain_view:
  assumes "elem_view i s" "refresh_retain outs i s = (i', s')"
  shows "elem_view i' s'" "ie_outputs i' = (\<lambda>out. if out \<in> set outs then ie_outputs i out else None)" "ie_element i' = ie_element i"
    "ie_location i' = ie_location i" "other_logs (ie_element i) s s'"
  using assms by (auto simp: refresh_retain_def elem_view_def other_logs_def fresh_calls_snoc)

text \<open>The overlaps of an element with all mapped outputs.\<close>

definition overlaps_with :: "('e, 'o) space_env \<Rightarrow> 'o list \<Rightarrow> ('o \<Rightarrow> rect) \<Rightarrow> ('e, 'o) inner_element \<Rightarrow> 'o \<Rightarrow> rect option" where
  "overlaps_with env outs G i out = (if out \<in> set outs then overlap_of (elem_bbox env i) (G out) else None)"

lemma refresh_element_view:
  assumes "elem_view i s" "refresh_element env (map (\<lambda>out. (out, G out)) outs) i s = (i', s')"
  shows "elem_view i' s'" "ie_outputs i' = overlaps_with env outs G i'" "ie_element i' = ie_element i" "other_logs (ie_element i) s s'"
proof -
  obtain i1 s1 where r: "refresh_retain outs i s = (i1, s1)" by fastforce
  note R = refresh_retain_view[OF assms(1) r]
  have "fold (\<lambda>(out, g). refresh_output (elem_bbox env i) out g) (map (\<lambda>out. (out, G out)) outs) (i1, s1) = (i', s')"
    using assms(2) by (simp add: refresh_element_def r comp_def)
  note F = refresh_fold_view[OF R(1) this]
  have "elem_bbox env i' = elem_bbox env i" using F R(3,4) by (simp add: elem_bbox_def)
  then show "elem_view i' s'" "ie_outputs i' = overlaps_with env outs G i'" "ie_element i' = ie_element i" "other_logs (ie_element i) s s'"
    using F R other_logs_trans[of "ie_element i" s s1 s'] by (auto simp: overlaps_with_def fun_eq_iff)
qed

lemma refresh_elements_view:
  assumes "\<forall>i\<in>set is. elem_view i s" "distinct (map ie_element is)" "refresh_elements env (map (\<lambda>out. (out, G out)) outs) is s = (is', s')"
  shows "(\<forall>i\<in>set is'. elem_view i s' \<and> ie_outputs i = overlaps_with env outs G i) \<and> map ie_element is' = map ie_element is \<and>
    (\<forall>e. e \<notin> ie_element ` set is \<longrightarrow> sp_log s' e = sp_log s e)"
  using assms
proof (induction "is" arbitrary: s is')
  case (Cons i "is")
  obtain i1 s1 where r: "refresh_element env (map (\<lambda>out. (out, G out)) outs) i s = (i1, s1)" by fastforce
  obtain is1 where rs: "refresh_elements env (map (\<lambda>out. (out, G out)) outs) is s1 = (is1, s')" "is' = i1 # is1"
    using Cons.prems(3) by (auto simp: r split: prod.splits)
  have "elem_view i s" using Cons.prems(1) by simp
  note R = refresh_element_view[OF this r]
  have keep: "sp_log s1 e = sp_log s e" if "e \<noteq> ie_element i" for e using R(4) that by (simp add: other_logs_def)
  have "\<forall>j\<in>set is. elem_view j s1"
  proof
    fix j assume j: "j \<in> set is"
    then have "ie_element j \<noteq> ie_element i" using Cons.prems(2) by (metis distinct.simps(2) image_eqI list.simps(9) set_map)
    from keep[OF this] show "elem_view j s1" using Cons.prems(1) j elem_view_cong[of j j s1 s] by simp
  qed
  note IH = Cons.IH[OF this _ rs(1)]
  have d: "distinct (map ie_element is)" "ie_element i \<notin> ie_element ` set is" using Cons.prems(2) by simp_all
  have "sp_log s' (ie_element i1) = sp_log s1 (ie_element i1)" using IH[OF d(1)] d(2) R(3) by simp
  then have "elem_view i1 s'" using R(1) elem_view_cong[of i1 i1 s' s1] by simp
  then show ?case using IH[OF d(1)] R(2,3) keep unfolding rs(2) by auto
qed simp

section \<open>All runs\<close>

definition output_area :: "('e, 'o) space_env \<Rightarrow> ('e, 'o) space \<Rightarrow> 'o \<Rightarrow> rect" where
  "output_area env s out = (case space_output_geometry env s out of Some g \<Rightarrow> g | None \<Rightarrow> rect_zero)"

lemma refresh_view:
  assumes "view_inv alive s" "distinct (elems s)" "se_alive env = alive"
  shows "view_inv alive (space_refresh env s)"
    "i \<in> set (sp_elements (space_refresh env s)) \<Longrightarrow> ie_outputs i = overlaps_with env (sp_outputs s) (output_area env s) i"
proof -
  let ?es = "filter (\<lambda>e. alive (ie_element e)) (sp_elements s)"
  obtain es s' where r: "refresh_elements env (map (\<lambda>out. (out, output_area env s out)) (sp_outputs s)) ?es s = (es, s')" by fastforce
  have ref: "space_refresh env s = s'\<lparr>sp_elements := es\<rparr>" using r by (simp add: space_refresh_def assms(3) output_area_def)
  have dist: "distinct (map ie_element ?es)" using assms(2) by (simp add: distinct_map_filter)
  have views: "\<forall>i\<in>set ?es. elem_view i s" using view_invD(2)[OF assms(1)] by simp
  note R = refresh_elements_view[OF views dist r]
  have el: "elem_view i (s'\<lparr>sp_elements := es\<rparr>) = elem_view i s'" for i by (simp add: elem_view_def)
  show "i \<in> set (sp_elements (space_refresh env s)) \<Longrightarrow> ie_outputs i = overlaps_with env (sp_outputs s) (output_area env s) i"
    using R by (simp add: ref)
  have ids: "ie_element ` set es = ie_element ` set ?es" using R by (metis list.set_map)
  have fresh: "fresh_calls (sp_log s' e out)" for e out
  proof (cases "e \<in> ie_element ` set es")
    case True
    then show ?thesis using R by (auto simp: elem_view_def)
  next
    case False
    then show ?thesis using R view_invD(1)[OF assms(1)] by (simp add: ids)
  qed
  show "view_inv alive (space_refresh env s)"
  proof (rule view_invI)
    show "told_overlap (sp_log (space_refresh env s) e out) = None" if "alive e" "e \<notin> set (elems (space_refresh env s))" for e out
    proof -
      have "e \<notin> ie_element ` set ?es" using that(2) ids by (simp add: ref)
      moreover have "e \<notin> set (elems s)" using that(1) calculation by auto
      ultimately show ?thesis using R view_invD(3)[OF assms(1) that(1)] by (simp add: ref)
    qed
  qed (use fresh R in \<open>auto simp: ref el\<close>)
qed

lemma unmap_view:
  assumes "view_inv alive s" "distinct (elems s)"
  shows "view_inv alive (unmap_elem e s)"
proof (cases "elem_position e s")
  case None
  then show ?thesis using assms(1) by (simp add: unmap_elem_def)
next
  case (Some pos)
  let ?i = "sp_elements s ! pos"
  have i: "?i \<in> set (sp_elements s)" "ie_element ?i = e" using removed_set[OF Some] elem_position_removed(2)[OF Some assms(2)] by auto
  have log: "sp_log (unmap_elem e s) = (sp_log s)(e := (\<lambda>out. if ie_outputs ?i out \<noteq> None then sp_log s e out @ [None] else sp_log s e out))"
    "sp_elements (unmap_elem e s) = vec_remove pos (sp_elements s)" by (simp_all add: unmap_elem_def Some Let_def)
  have told: "told_overlap (sp_log s e out) = ie_outputs ?i out" for out using view_invD(2)[OF assms(1) i(1)] i(2) by (simp add: elem_view_def)
  have sub: "set (vec_remove pos (sp_elements s)) \<subseteq> set (sp_elements s)" using removed_set[OF Some] by blast
  have el: "elems (unmap_elem e s) = filter (\<lambda>e'. e' \<noteq> e) (elems s)" by (rule unmap_elem_elems[OF assms(2)])
  show ?thesis
  proof (rule view_invI)
    show "fresh_calls (sp_log (unmap_elem e s) e' out)" for e' out
      using view_invD(1)[OF assms(1)] told by (simp add: log fresh_calls_snoc)
    show "elem_view j (unmap_elem e s)" if j: "j \<in> set (sp_elements (unmap_elem e s))" for j
    proof -
      have "ie_element j \<in> set (elems (unmap_elem e s))" using j by (simp only: set_map imageI)
      then have "ie_element j \<noteq> e" unfolding el by simp
      then show ?thesis using view_invD(2)[OF assms(1), of j] j sub by (auto simp: log elem_view_def)
    qed
    show "told_overlap (sp_log (unmap_elem e s) e' out) = None" if "alive e'" "e' \<notin> set (elems (unmap_elem e s))" for e' out
    proof (cases "e' = e")
      case True
      then show ?thesis using told[of out] by (simp add: log)
    next
      case False
      then have "e' \<notin> set (elems s)" using that(2) unfolding el by simp
      from view_invD(3)[OF assms(1) that(1) this] show ?thesis using False by (simp add: log)
    qed
  qed
qed

lemma relocate_same: "same_outputs s (relocate_element e l s)"
proof (cases "elem_position e s")
  case (Some pos)
  have pos: "pos < length (sp_elements s)" using elem_position_nth[OF Some] by simp
  have "\<exists>j\<in>set (sp_elements s). ie_element i = ie_element j \<and> ie_outputs i = ie_outputs j"
    if i: "i \<in> set ((sp_elements s)[pos := (sp_elements s ! pos)\<lparr>ie_location := l\<rparr>])" for i
    using subsetD[OF set_update_subset_insert i] nth_mem[OF pos] by auto
  moreover have "set (elems (relocate_element e l s)) = set (elems s)" by (simp only: relocate_elems)
  ultimately show ?thesis unfolding same_outputs_def using Some by (auto simp: relocate_element_def)
qed (auto simp: relocate_element_def same_outputs_def)

lemma map_element_view:
  assumes "view_inv alive s" "alive e" shows "view_inv alive (map_element env e l a s)"
proof -
  obtain i s' where c: "create_inner_element e l s = (i, s')" by fastforce
  show ?thesis unfolding map_element_def c Let_def prod.case
    using map_new_view[OF assms _ c] view_same[OF assms(1) map_existing_same[OF _ c]] by (cases "elem_position e s") blast+
qed

lemma map_element_above_view:
  assumes "view_inv alive s" "alive e" shows "view_inv alive (map_element_above env e l r a s)"
proof -
  obtain i s' where c: "create_inner_element e l s = (i, s')" by fastforce
  show ?thesis
    using assms(1) map_new_view[OF assms _ c] view_same[OF assms(1) reinsert_same]
    by (auto simp: map_element_above_def c split: option.split)
qed

lemma restack_view:
  assumes "view_inv alive s"
  shows "view_inv alive (raise_element env e a s)" "view_inv alive (raise_element_above env e r a s)" "view_inv alive (lower_element env e s)"
  using assms view_same[OF assms reinsert_same] unfolding raise_element_def raise_element_above_def lower_element_def Let_def
  by (auto split: option.split)

lemma view_outputs: "view_inv alive s \<Longrightarrow> sp_log s' = sp_log s \<Longrightarrow> sp_elements s' = sp_elements s \<Longrightarrow> view_inv alive s'"
  by (simp add: view_inv_def elem_view_def)

lemma space_run_view: "space_run z alive s \<Longrightarrow> view_inv alive s"
proof (induction rule: space_run.induct)
  case sr_start
  then show ?case by (simp add: view_inv_def space_default_def)
next
  case (sr_death alive s alive')
  then show ?case unfolding view_inv_def by blast
next
  case (sr_relocate alive s e l)
  show ?case by (rule view_same[OF sr_relocate.IH relocate_same])
next
  case (sr_unmap alive s e)
  have "distinct (elems s)" using space_run_stack_inv[OF sr_unmap.hyps] by (simp add: stack_inv_def)
  from unmap_view[OF sr_unmap.IH this] show ?case .
next
  case (sr_map_output alive s out l)
  show ?case by (rule view_outputs[OF sr_map_output.IH]) (simp_all add: map_output_def Let_def)
next
  case (sr_unmap_output alive s out)
  show ?case by (rule view_outputs[OF sr_unmap_output.IH]) (simp_all add: unmap_output_def)
next
  case (sr_refresh alive s env)
  have "distinct (elems s)" using space_run_stack_inv[OF sr_refresh.hyps(1)] by (simp add: stack_inv_def)
  from refresh_view(1)[OF sr_refresh.IH this sr_refresh.hyps(2)] show ?case .
qed (blast intro: map_element_view map_element_above_view restack_view)+

text \<open>C20. The elements of a space know the outputs they are on. No call of \<open>output_enter\<close> or \<open>output_leave\<close> repeats
  what the element was told last; a mapped element was told exactly the overlaps the space records, an
  element that is alive but not mapped is on no output, and after a refresh the recorded overlaps are those of
  the bounding box with every mapped output and no other.\<close>

theorem space_elements_know_outputs:
  assumes run: "space_run z alive s"
  shows "(\<forall>e out. distinct_adj (None # sp_log s e out)) \<and>
    (\<forall>i\<in>set (sp_elements s). \<forall>out. last (None # sp_log s (ie_element i) out) = ie_outputs i out) \<and>
    (\<forall>e. alive e \<longrightarrow> e \<notin> set (elems s) \<longrightarrow> (\<forall>out. last (None # sp_log s e out) = None)) \<and>
    (\<forall>env. se_alive env = alive \<longrightarrow> (\<forall>i\<in>set (sp_elements (space_refresh env s)). \<forall>out.
       ie_outputs i out = (if out \<in> set (sp_outputs s) then overlap_of (elem_bbox env i) (output_area env s out) else None)))"
proof -
  note D = view_invD[OF space_run_view[OF run], unfolded elem_view_def fresh_calls_def told_overlap_def]
  have d: "distinct (elems s)" using space_run_stack_inv[OF run] by (simp add: stack_inv_def)
  have ref: "ie_outputs i out = (if out \<in> set (sp_outputs s) then overlap_of (elem_bbox env i) (output_area env s out) else None)"
    if "se_alive env = alive" "i \<in> set (sp_elements (space_refresh env s))" for env i out
    using refresh_view(2)[OF space_run_view[OF run] d that] by (simp add: overlaps_with_def)
  show ?thesis using D ref by blast
qed

end
