(* ===== verification/Space_Draw.thy ===== *)
theory Space_Draw
  imports Space_Outputs
begin

text \<open>
  What a space draws on an output and in which order, an example, and where drawing and mapping depart from
  what the interfaces promise.
\<close>

section \<open>The drawing order\<close>

lemma filter_rev_stable: "filter P (map f (rev xs)) = rev (filter P (map f xs))"
  by (simp add: rev_filter rev_map)

lemma sorted_filter_map: "sorted (map g xs) \<Longrightarrow> sorted (map g (filter P xs))"
  by (induction xs) auto

text \<open>The things an output shows, each with its z-index: layers by their layer, elements by their own.\<close>

definition drawn_zindex :: "('e \<Rightarrow> nat) \<Rightarrow> (nat \<Rightarrow> wlr_layer) \<Rightarrow> 'e drawn \<Rightarrow> nat" where
  "drawn_zindex z layer_of d = (case d of Drawn_layer l \<Rightarrow> render_zindex (layer_of l) | Drawn_element e \<Rightarrow> z e)"

text \<open>C22. \<open>render_elements_for_output\<close> draws on a mapped output with a mode exactly the elements and layers whose
  bounding boxes overlap it, front to back by z-index; elements of the same z-index come in the reverse of
  their stack, before layers of that z-index, and of those the last mapped comes first.\<close>

theorem output_draws_in_order:
  assumes run: "space_run z alive s" and z: "se_z_index env = z"
    and out: "out \<in> set (sp_outputs s)" "space_output_geometry env s out = Some g"
    and layers: "\<forall>l\<in>set layers. layer_of (sl_id l) = sl_layer l"
  shows "\<exists>ds. render_elements_for_output env layers out s = Inr ds \<and>
    sorted (map (\<lambda>(d, p). - int (drawn_zindex z layer_of d)) ds) \<and>
    (\<forall>k. map fst (filter (\<lambda>(d, p). drawn_zindex z layer_of d = k) ds) =
       map (\<lambda>i. Drawn_element (ie_element i)) (filter (\<lambda>i. z (ie_element i) = k \<and> rect_overlaps g (elem_bbox env i)) (rev (sp_elements s))) @
       map (\<lambda>l. Drawn_layer (sl_id l)) (filter (\<lambda>l. render_zindex (sl_layer l) = k \<and>
         rect_overlaps g ((sl_bbox l)\<lparr>rloc := point_add (rloc (sl_bbox l)) (rloc g)\<rparr>)) (rev layers)))"
proof -
  let ?items = "map (item_of_element env) (rev (sp_elements s)) @ map (item_of_layer (rloc g)) (rev layers)"
  let ?key = "\<lambda>i. - int (it_z_index i)"
  let ?shown = "\<lambda>i. rect_overlaps g (it_bbox i)"
  define ds where "ds = map (\<lambda>i. (it_what i, point_sub (it_location i) (rloc g))) (filter ?shown (sort_key ?key ?items))"
  have r: "render_elements_for_output env layers out s = Inr ds"
    using out by (simp add: render_elements_for_output_def ds_def Let_def)
  have zi: "drawn_zindex z layer_of (it_what i) = it_z_index i" if "i \<in> set ?items" for i
    using that layers by (auto simp: drawn_zindex_def item_of_element_def item_of_layer_def z Let_def)
  have "map (\<lambda>(d, p). - int (drawn_zindex z layer_of d)) ds = map ?key (filter ?shown (sort_key ?key ?items))"
    unfolding ds_def map_map by (rule map_cong[OF refl]) (use zi in auto)
  then have sorted: "sorted (map (\<lambda>(d, p). - int (drawn_zindex z layer_of d)) ds)"
    using sorted_filter_map[OF sorted_sort_key] by simp
  have order: "map fst (filter (\<lambda>(d, p). drawn_zindex z layer_of d = k) ds) = map it_what (filter (\<lambda>i. it_z_index i = k \<and> ?shown i) ?items)" for k
  proof -
    have "filter (\<lambda>(d, p). drawn_zindex z layer_of d = k) ds =
        map (\<lambda>i. (it_what i, point_sub (it_location i) (rloc g))) (filter (\<lambda>i. it_z_index i = k) (filter ?shown (sort_key ?key ?items)))"
      unfolding ds_def filter_map comp_def by (intro arg_cong[where f = "map _"] filter_cong refl) (use zi in auto)
    moreover have "filter (\<lambda>i. it_z_index i = k) (filter ?shown (sort_key ?key ?items)) =
        filter ?shown (filter (\<lambda>i. ?key i = - int k) (sort_key ?key ?items))" by (simp add: conj_commute)
    moreover have "\<dots> = filter ?shown (filter (\<lambda>i. ?key i = - int k) ?items)" by (simp only: filter_sort_key)
    ultimately show ?thesis by (simp add: comp_def conj_commute del: filter_append map_append)
  qed
  show ?thesis
    using r sorted order
    by (intro exI[of _ ds]) (simp add: filter_map comp_def item_of_element_def item_of_layer_def z Let_def)
qed

section \<open>An example\<close>

text \<open>Windows of 10 by 10 pixels, number 9 with the z-index of the overlay, and an output of 100 by 50.\<close>

definition demo_z :: "nat \<Rightarrow> nat" where
  "demo_z e = (if e = 9 then 60 else 30)"

definition demo_env :: "(nat, nat) space_env" where
  "demo_env = \<lparr>se_bbox = (\<lambda>_. rect_new (point_new 0 0) (size_new 10 10)), se_geometry = (\<lambda>_. rect_new (point_new 0 0) (size_new 10 10)),
     se_z_index = demo_z, se_alive = (\<lambda>_. True), se_output_size = (\<lambda>out. if out = 0 then Some (size_new 100 50) else None)\<rparr>"

definition demo_space :: "(nat, nat) space" where
  "demo_space = space_refresh demo_env (map_output 1 (point_new 100 0) (map_output 0 (point_new 0 0)
     (raise_element demo_env 1 True (map_element demo_env 2 (point_new 95 0) False (map_element demo_env 9 (point_new 5 5) False
       (map_element demo_env 1 (point_new 0 0) False space_default))))))"

lemma demo_env_fields [simp]: "se_z_index demo_env = demo_z" "se_alive demo_env = (\<lambda>_. True)"
  by (simp_all add: demo_env_def)

lemma demo_run: "space_run demo_z (\<lambda>_. True) demo_space"
  unfolding demo_space_def
  by (intro sr_refresh sr_map_output sr_raise sr_map sr_start demo_env_fields TrueI)

lemma demo_elems: "elems demo_space = [2, 1, 9]"
  by code_simp

theorem space_stacking_witness: "stack demo_z 30 (raise_element demo_env 2 False demo_space) = [1, 2]"
proof -
  note all = space_stacking[OF demo_run demo_env_fields(1), THEN conjunct2, THEN conjunct2, THEN conjunct2, THEN conjunct1]
  have "2 \<in> set (elems demo_space)" by (simp add: demo_elems)
  from bspec[OF all this, rule_format, of 30 False] show ?thesis
    by (simp add: stack_def demo_elems demo_z_def)
qed

lemma demo_first:
  "sp_elements demo_space \<noteq> []" "ie_element (hd (sp_elements demo_space)) = 2"
  "ie_outputs (hd (sp_elements demo_space)) 0 = Some (rect_new (point_new 0 0) (size_new 5 10))"
proof -
  have "length (sp_elements demo_space) = 3" by code_simp
  then show "sp_elements demo_space \<noteq> []" by auto
qed code_simp+

theorem space_elements_know_outputs_witness:
  "last (None # sp_log demo_space 2 0) = Some (rect_new (point_new 0 0) (size_new 5 10)) \<and> last (None # sp_log demo_space 7 0) = None"
proof -
  note K = space_elements_know_outputs[OF demo_run]
  have seven: "7 \<notin> set (elems demo_space)" by (simp add: demo_elems)
  have "last (None # sp_log demo_space (ie_element (hd (sp_elements demo_space))) 0) = ie_outputs (hd (sp_elements demo_space)) 0"
    using K hd_in_set[OF demo_first(1)] by blast
  moreover have "last (None # sp_log demo_space 7 0) = None" using K seven by blast
  ultimately show ?thesis by (simp only: demo_first)
qed

definition demo_layers :: "space_layer list" where
  "demo_layers = [\<lparr>sl_id = 0, sl_layer = Overlay, sl_bbox = rect_new (point_new 0 0) (size_new 20 20), sl_geometry = rect_new (point_new 0 0) (size_new 20 20),
       sl_location = point_new 0 30\<rparr>,
     \<lparr>sl_id = 1, sl_layer = Top, sl_bbox = rect_new (point_new 0 0) (size_new 20 20), sl_geometry = rect_new (point_new 0 0) (size_new 20 20),
       sl_location = point_new 0 30\<rparr>]"

theorem output_draws_in_order_witness:
  "\<exists>ds. render_elements_for_output demo_env demo_layers 0 demo_space = Inr ds \<and>
     map fst (filter (\<lambda>(d, p). drawn_zindex demo_z (\<lambda>l. if l = 0 then Overlay else Top) d = 60) ds) = [Drawn_element 9, Drawn_layer 0]"
proof -
  let ?lo = "\<lambda>l. if l = 0 then Overlay else Top"
  let ?g = "rect_new (point_new 0 0) (size_new 100 50)"
  let ?elems = "\<lambda>k. map (\<lambda>i. Drawn_element (ie_element i)) (filter (\<lambda>i. demo_z (ie_element i) = k \<and>
      rect_overlaps ?g (elem_bbox demo_env i)) (rev (sp_elements demo_space)))"
  let ?layers = "\<lambda>k. map (\<lambda>l. Drawn_layer (sl_id l) :: nat drawn) (filter (\<lambda>l. render_zindex (sl_layer l) = k \<and>
      rect_overlaps ?g ((sl_bbox l)\<lparr>rloc := point_add (rloc (sl_bbox l)) (rloc ?g)\<rparr>)) (rev demo_layers))"
  have g: "space_output_geometry demo_env demo_space 0 = Some (rect_new (point_new 0 0) (size_new 100 50))" "0 \<in> set (sp_outputs demo_space)"
    by code_simp+
  have "\<forall>l\<in>set demo_layers. ?lo (sl_id l) = sl_layer l" by (simp add: demo_layers_def)
  from output_draws_in_order[OF demo_run demo_env_fields(1) g(2,1) this]
  obtain ds where ds: "render_elements_for_output demo_env demo_layers 0 demo_space = Inr ds \<and>
      sorted (map (\<lambda>(d, p). - int (drawn_zindex demo_z ?lo d)) ds) \<and>
      (\<forall>k. map fst (filter (\<lambda>(d, p). drawn_zindex demo_z ?lo d = k) ds) = ?elems k @ ?layers k)" ..
  have "?elems 60 = [Drawn_element 9]" by code_simp
  moreover have "?layers 60 = [Drawn_layer 0]" by code_simp
  moreover note ds[THEN conjunct2, THEN conjunct2, THEN spec, of 60]
  ultimately show ?thesis using conjunct1[OF ds] by (intro exI[of _ ds] conjI) (simp_all only: append_Cons append_Nil)
qed

section \<open>Departures\<close>

text \<open>Mapping a mapped element above another does not update its location.\<close>

theorem map_above_ignores_location:
  assumes "e \<in> set (elems s)"
  shows "map_element_above env e l r a s = map_element_above env e l' r a s"
  using assms elem_position_None[of e s] by (auto simp: map_element_above_def split: option.split)

text \<open>An output that is mapped and has no mode makes the drawing panic.\<close>

theorem output_without_mode_panics:
  assumes "out \<in> set (sp_outputs s)" "se_output_size env out = None"
  shows "render_elements_for_output env layers out s = Inl Output_without_mode"
  using assms by (simp add: render_elements_for_output_def space_output_geometry_def)

text \<open>Drawing one output does not read where its layers were arranged.\<close>

theorem output_ignores_layer_location:
  "render_elements_for_output env (map (\<lambda>l. l\<lparr>sl_location := f l\<rparr>) layers) out s = render_elements_for_output env layers out s"
proof -
  have "map (item_of_layer q) (rev (map (\<lambda>l. l\<lparr>sl_location := f l\<rparr>) layers)) = (map (item_of_layer q) (rev layers) :: 'a space_item list)" for q
    by (simp add: item_of_layer_def rev_map)
  then show ?thesis unfolding render_elements_for_output_def by (simp only:)
qed

text \<open>Drawing several spaces puts a layer above another that is meant to be above it, when it was mapped later.\<close>

theorem spaces_draw_top_over_overlay:
  "space_render_elements demo_env demo_layers 0 [demo_space] =
     [(Drawn_layer 1, point_new 0 30), (Drawn_layer 0, point_new 0 30), (Drawn_element 9, point_new 5 5), (Drawn_element 1, point_new 0 0),
      (Drawn_element 2, point_new 95 0)]"
  by code_simp

end
