(* ===== verification/Dmabuf_Params.thy ===== *)
theory Dmabuf_Params
  imports Prelude
begin

text \<open>
  Buffers from dmabuf planes: the requests of \<open>zwp_linux_buffer_params_v1\<close> in
  \<open>src/wayland/dmabuf/dispatch.rs\<close> and the validation in \<open>src/wayland/dmabuf/mod.rs\<close>. A raw addition of
  \<open>u32\<close> wraps, as in a release build. The crate of pixel formats, the file descriptors with the length found
  by seeking to their end, and the nodes of device numbers are arguments.
\<close>

section \<open>State\<close>

definition MAX_PLANES :: nat where "MAX_PLANES = 4"

type_synonym u64 = "64 word"

record 'fd plane =
  pl_fd :: 'fd
  pl_idx :: u32
  pl_offset :: u32
  pl_stride :: u32

record ('fd, 'f, 'n) dmabuf =
  db_planes :: "'fd plane list"
  db_size :: "i32 \<times> i32"
  db_format :: 'f
  db_modifier :: u64
  db_flags :: u32
  db_node :: "'n option"

record ('fd, 'f, 'v) buffer_params =
  bp_used :: bool
  bp_formats :: "'f set"
  bp_modifier :: "u64 option"
  bp_planes :: "'fd plane list"
  bp_device :: "'v option"

definition buffer_params_new :: "'f set \<Rightarrow> ('fd, 'f, 'v) buffer_params" where
  "buffer_params_new formats = \<lparr>bp_used = False, bp_formats = formats, bp_modifier = None, bp_planes = [], bp_device = None\<rparr>"

datatype params_error = Already_used | Plane_idx | Plane_set | Unsupported_format | Out_of_bounds | Invalid_dimensions
  | Incomplete | Invalid_dev_t_size | Invalid_wl_buffer

text \<open>What the code relies on: formats and nodes by number, the modifier that means none, the length of a file.\<close>

record ('fd, 'f, 'n, 'v) dmabuf_env =
  de_fourcc :: "u32 \<Rightarrow> 'f option"
  de_node :: "'v \<Rightarrow> 'n option"
  de_invalid :: u64
  de_seek :: "'fd \<Rightarrow> u64 option"

section \<open>Planes\<close>

text \<open>The errors posted, and the parameters afterwards.\<close>

definition params_add :: "nat \<Rightarrow> 'fd \<Rightarrow> u32 \<Rightarrow> u32 \<Rightarrow> u32 \<Rightarrow> u32 \<Rightarrow> u32 \<Rightarrow> ('fd, 'f, 'v) buffer_params \<Rightarrow>
    params_error list \<times> ('fd, 'f, 'v) buffer_params" where
  "params_add version fd plane_idx offset stride modifier_hi modifier_lo p =
     (if bp_used p then ([Already_used], p)
      else if unat plane_idx \<ge> MAX_PLANES then ([Plane_idx], p)
      else if \<exists>q\<in>set (bp_planes p). pl_idx q = plane_idx then ([Plane_set], p)
      else
        (let p = p\<lparr>bp_planes := bp_planes p @ [\<lparr>pl_fd = fd, pl_idx = plane_idx, pl_offset = offset, pl_stride = stride\<rparr>]\<rparr>;
             modifier = push_bit 32 (ucast modifier_hi) + ucast modifier_lo
         in case bp_modifier p of
              Some m \<Rightarrow> (if version \<ge> 5 \<and> modifier \<noteq> m then [Unsupported_format] else [], p)
            | None \<Rightarrow> ([], p\<lparr>bp_modifier := Some modifier\<rparr>)))"

text \<open>The bytes of the device number parse to a device, or do not.\<close>

definition params_set_device :: "'v option \<Rightarrow> ('fd, 'f, 'v) buffer_params \<Rightarrow> params_error list \<times> ('fd, 'f, 'v) buffer_params" where
  "params_set_device device p = (case device of Some v \<Rightarrow> ([], p\<lparr>bp_device := Some v\<rparr>) | None \<Rightarrow> ([Invalid_dev_t_size], p))"

section \<open>Validation\<close>

definition checked_mul :: "u32 \<Rightarrow> u32 \<Rightarrow> u32 option" where
  "checked_mul a b = (if unat a * unat b < 2 ^ 32 then Some (a * b) else None)"

definition checked_add :: "u32 \<Rightarrow> u32 \<Rightarrow> u32 option" where
  "checked_add a b = (if unat a + unat b < 2 ^ 32 then Some (a + b) else None)"

definition plane_valid :: "('fd \<Rightarrow> u64 option) \<Rightarrow> i32 \<Rightarrow> 'fd plane \<Rightarrow> bool" where
  "plane_valid seek height plane =
     (case Option.bind (checked_mul (pl_stride plane) (word_of_int height)) (\<lambda>o'. checked_add o' (pl_offset plane)) of
        None \<Rightarrow> False
      | Some last_byte \<Rightarrow>
          (case seek (pl_fd plane) of
             None \<Rightarrow> True
           | Some len \<Rightarrow>
               if unat (pl_offset plane) > unat len then False
               else if unat (pl_offset plane + pl_stride plane) > unat len then False
               else if pl_idx plane = 0 \<and> unat last_byte > unat len then False
               else True))"

text \<open>The loop that moves the planes into the buffer, from plane \<open>i\<close> on; None is the error.\<close>

fun drain_planes :: "nat \<Rightarrow> 'fd plane list \<Rightarrow> 'fd plane list \<Rightarrow> 'fd plane list option" where
  "drain_planes i [] buf = Some buf"
| "drain_planes i (p # ps) buf =
     (if unat (pl_idx p) \<noteq> i then None
      else drain_planes (Suc i) ps
             (if length buf = MAX_PLANES then buf
              else buf @ [\<lparr>pl_fd = pl_fd p, pl_idx = of_nat (length buf), pl_offset = pl_offset p, pl_stride = pl_stride p\<rparr>]))"

definition dimension_errors :: "i32 \<Rightarrow> i32 \<Rightarrow> params_error list" where
  "dimension_errors width height = (if width < 1 then [Invalid_dimensions] else []) @ (if height < 1 then [Invalid_dimensions] else [])"

definition create_dmabuf :: "('fd, 'f, 'n, 'v) dmabuf_env \<Rightarrow> i32 \<Rightarrow> i32 \<Rightarrow> u32 \<Rightarrow> u32 \<Rightarrow> ('fd, 'f, 'v) buffer_params \<Rightarrow>
    params_error list \<times> ('fd, 'f, 'n) dmabuf option \<times> ('fd, 'f, 'v) buffer_params" where
  "create_dmabuf env width height format flags p =
     (if bp_used p then ([Already_used], None, p)
      else
        (let p = p\<lparr>bp_used := True\<rparr>
         in case de_fourcc env format of
              None \<Rightarrow> ([Unsupported_format], None, p)
            | Some f \<Rightarrow>
                if f \<notin> bp_formats p then ([Unsupported_format], None, p)
                else
                  (let errors = dimension_errors width height
                   in if \<exists>q\<in>set (bp_planes p). \<not> plane_valid (de_seek env) height q then (errors @ [Out_of_bounds], None, p)
                      else
                        (let planes = sort_key (\<lambda>q. unat (pl_idx q)) (bp_planes p); p = p\<lparr>bp_planes := []\<rparr>
                         in case drain_planes 0 planes [] of
                              None \<Rightarrow> (errors @ [Incomplete], None, p)
                            | Some [] \<Rightarrow> (errors @ [Incomplete], None, p)
                            | Some buf \<Rightarrow>
                                (errors, Some \<lparr>db_planes = buf, db_size = (width, height), db_format = f,
                                   db_modifier = (case bp_modifier p of Some m \<Rightarrow> m | None \<Rightarrow> de_invalid env),
                                   db_flags = flags, db_node = Option.bind (bp_device p) (de_node env)\<rparr>, p)))))"

text \<open>The two requests: a buffer is given to the compositor unless the global is gone.\<close>

datatype ('fd, 'f, 'n) params_outcome = Import_dmabuf bool "('fd, 'f, 'n) dmabuf" | Params_failed | No_buffer

definition params_create :: "('fd, 'f, 'n, 'v) dmabuf_env \<Rightarrow> bool \<Rightarrow> bool \<Rightarrow> i32 \<Rightarrow> i32 \<Rightarrow> u32 \<Rightarrow> u32 \<Rightarrow> ('fd, 'f, 'v) buffer_params \<Rightarrow>
    params_error list \<times> ('fd, 'f, 'n) params_outcome \<times> ('fd, 'f, 'v) buffer_params" where
  "params_create env global_alive immed width height format flags p =
     (case create_dmabuf env width height format flags p of
        (errors, None, p) \<Rightarrow> (errors, No_buffer, p)
      | (errors, Some d, p) \<Rightarrow>
          if global_alive then (errors, Import_dmabuf immed d, p)
          else if immed then (errors @ [Invalid_wl_buffer], No_buffer, p)
          else (errors, Params_failed, p))"

section \<open>Runs\<close>

text \<open>The buffers given to the compositor so far, and whether an error was posted.\<close>

inductive params_run :: "('fd, 'f, 'n, 'v) dmabuf_env \<Rightarrow> ('fd, 'f, 'v) buffer_params \<Rightarrow> ('fd, 'f, 'n) dmabuf list \<Rightarrow> bool \<Rightarrow> bool" for env where
  pr_new: "params_run env (buffer_params_new formats) [] False"
| pr_add: "params_run env p ds err \<Longrightarrow> params_add version fd idx off stride hi lo p = (es, p') \<Longrightarrow>
    params_run env p' ds (err \<or> es \<noteq> [])"
| pr_device: "params_run env p ds err \<Longrightarrow> params_set_device device p = (es, p') \<Longrightarrow> params_run env p' ds (err \<or> es \<noteq> [])"
| pr_create: "params_run env p ds err \<Longrightarrow> params_create env alive immed w h fmt flags p = (es, out, p') \<Longrightarrow>
    params_run env p' (ds @ (case out of Import_dmabuf _ d \<Rightarrow> [d] | _ \<Rightarrow> [])) (err \<or> es \<noteq> [])"

section \<open>What is accepted\<close>

definition planes_ok :: "('fd, 'f, 'v) buffer_params \<Rightarrow> bool" where
  "planes_ok p \<longleftrightarrow> distinct (map pl_idx (bp_planes p)) \<and> (\<forall>q\<in>set (bp_planes p). unat (pl_idx q) < MAX_PLANES)"

lemma create_planes: "create_dmabuf env w h fmt flags p = (es, d, p') \<Longrightarrow> bp_used p' \<and> (bp_planes p' = bp_planes p \<or> bp_planes p' = [])"
  by (auto simp: create_dmabuf_def Let_def split: if_splits option.splits list.splits)

lemma params_run_planes: "params_run env p ds err \<Longrightarrow> planes_ok p"
proof (induction rule: params_run.induct)
  case (pr_create p ds err alive immed w h fmt flags es out p')
  obtain es' d where "create_dmabuf env w h fmt flags p = (es', d, p')"
    using pr_create.hyps(2) by (auto simp: params_create_def split: option.splits if_splits prod.splits)
  from create_planes[OF this] show ?case using pr_create.IH by (auto simp: planes_ok_def)
qed (auto simp: planes_ok_def buffer_params_new_def params_add_def params_set_device_def Let_def split: if_splits option.splits)

text \<open>Draining sorted planes succeeds exactly when their indices are consecutive.\<close>

lemma drain_planes_result:
  "length buf = i \<Longrightarrow> i + length ps \<le> MAX_PLANES \<Longrightarrow> drain_planes i ps buf =
     (if map (\<lambda>q. unat (pl_idx q)) ps = [i..<i + length ps] then Some (buf @ ps) else None)"
proof (induction ps arbitrary: i buf)
  case (Cons q ps)
  show ?case
  proof (cases "unat (pl_idx q) = i")
    case True
    have small: "length buf \<noteq> MAX_PLANES" using Cons.prems by simp
    have "length buf = unat (pl_idx q)" using True Cons.prems(1) by simp
    then have "of_nat (length buf) = pl_idx q" by simp
    then have q: "\<lparr>pl_fd = pl_fd q, pl_idx = of_nat (length buf), pl_offset = pl_offset q, pl_stride = pl_stride q\<rparr> = q" by simp
    have upt: "[i..<i + length (q # ps)] = i # [Suc i..<Suc i + length ps]" by (simp add: upt_conv_Cons del: upt_Suc)
    have "drain_planes i (q # ps) buf = drain_planes (Suc i) ps (buf @ [q])" using True small by (simp only: drain_planes.simps q) simp
    then show ?thesis using Cons.IH[of "buf @ [q]" "Suc i"] Cons.prems True unfolding upt by simp
  next
    case False
    have upt: "[i..<i + length (q # ps)] = i # [Suc i..<Suc i + length ps]" by (simp add: upt_conv_Cons del: upt_Suc)
    show ?thesis using False unfolding upt by simp
  qed
qed simp

lemma sorted_upt:
  assumes "distinct xs" "sorted (xs :: nat list)"
  shows "xs = [0..<length xs] \<longleftrightarrow> set xs = {0..<length xs}"
proof
  assume "set xs = {0..<length xs}"
  then have "set xs = set [0..<length xs]" by simp
  then show "xs = [0..<length xs]" using assms by (intro sorted_distinct_set_unique) simp_all
qed (metis set_upt)

text \<open>The room a plane needs, without wrap-around.\<close>

definition plane_fits :: "('fd \<Rightarrow> u64 option) \<Rightarrow> i32 \<Rightarrow> 'fd plane \<Rightarrow> bool" where
  "plane_fits seek height q \<longleftrightarrow> unat (pl_offset q) + unat (pl_stride q) * nat height < 2 ^ 32 \<and>
     (\<forall>len. seek (pl_fd q) = Some len \<longrightarrow> unat (pl_offset q) + unat (pl_stride q) \<le> unat len \<and>
        (pl_idx q = 0 \<longrightarrow> unat (pl_offset q) + unat (pl_stride q) * nat height \<le> unat len))"

lemma plane_valid_fits:
  assumes "1 \<le> h" "h \<le> I32_MAX"
  shows "plane_valid seek h q \<longleftrightarrow> plane_fits seek h q"
proof -
  have h: "unat (word_of_int h :: u32) = nat h" using assms by (simp add: unat_eq_nat_uint uint_word_of_int)
  let ?o = "unat (pl_offset q)" and ?s = "unat (pl_stride q)"
  show ?thesis
  proof (cases "?o + ?s * nat h < 2 ^ 32")
    case False
    then show ?thesis by (auto simp: plane_valid_def plane_fits_def checked_mul_def checked_add_def h unat_word_ariths)
  next
    case True
    have "1 \<le> nat h" using assms by simp
    then have "?s \<le> ?s * nat h" by simp
    then have small: "?s * nat h < 2 ^ 32" "?o + ?s < 2 ^ 32" using True by linarith+
    have mul: "unat (pl_stride q * word_of_int h) = ?s * nat h" using small(1) by (simp add: unat_word_ariths h)
    have add: "unat (pl_stride q * word_of_int h + pl_offset q) = ?s * nat h + ?o"
    proof -
      have "unat (pl_stride q * word_of_int h) + ?o < 2 ^ 32" using True by (simp add: mul add.commute)
      then show ?thesis using unat_add_lem[of "pl_stride q * word_of_int h" "pl_offset q"] by (simp add: mul)
    qed
    have raw: "unat (pl_offset q + pl_stride q) = ?o + ?s" using small(2) unat_add_lem[of "pl_offset q" "pl_stride q"] by simp
    have bind: "Option.bind (checked_mul (pl_stride q) (word_of_int h)) (\<lambda>o'. checked_add o' (pl_offset q)) =
        Some (pl_stride q * word_of_int h + pl_offset q)"
      using small(1) True unfolding checked_mul_def checked_add_def by (simp add: h mul add.commute)
    show ?thesis
    proof (cases "seek (pl_fd q)")
      case None
      then show ?thesis using True by (simp add: plane_valid_def plane_fits_def bind)
    next
      case (Some len)
      then show ?thesis using True
        by (simp add: plane_valid_def plane_fits_def bind add raw) linarith
    qed
  qed
qed

lemma drain_sorted:
  assumes "planes_ok p"
  shows "drain_planes 0 (sort_key (\<lambda>q. unat (pl_idx q)) (bp_planes p)) [] =
    (if (\<lambda>q. unat (pl_idx q)) ` set (bp_planes p) = {0..<length (bp_planes p)} then Some (sort_key (\<lambda>q. unat (pl_idx q)) (bp_planes p)) else None)"
proof -
  let ?idx = "\<lambda>q. unat (pl_idx q)"
  define ps where "ps = sort_key ?idx (bp_planes p)"
  have "distinct (map ?idx (bp_planes p))" using assms by (auto simp: planes_ok_def distinct_map inj_on_def simp flip: word_unat_eq_iff)
  then have d: "distinct (map ?idx ps)" by (simp add: ps_def distinct_map)
  have "length ps = card (?idx ` set ps)" using distinct_card[OF d] by simp
  moreover have "?idx ` set ps \<subseteq> {0..<MAX_PLANES}" using assms by (auto simp: planes_ok_def ps_def)
  ultimately have "length ps \<le> MAX_PLANES" using card_mono[of "{0..<MAX_PLANES}" "?idx ` set ps"] by simp
  then have "drain_planes 0 ps [] = (if map ?idx ps = [0..<length ps] then Some ps else None)"
    using drain_planes_result[of "[]" 0 ps] by simp
  moreover have "map ?idx ps = [0..<length ps] \<longleftrightarrow> ?idx ` set ps = {0..<length ps}"
    using sorted_upt[OF d] by (simp add: ps_def)
  ultimately show ?thesis by (simp add: ps_def)
qed

lemma create_used: "create_dmabuf env w h fmt flags p = (es, d, p') \<Longrightarrow> bp_used p \<Longrightarrow> d = None \<and> es = [Already_used]"
  by (auto simp: create_dmabuf_def)

lemma dimension_errors_none: "dimension_errors w h = [] \<longleftrightarrow> 1 \<le> w \<and> 1 \<le> h"
  by (auto simp: dimension_errors_def)

lemma create_exact:
  assumes "planes_ok p" "h \<le> I32_MAX"
  shows "(\<exists>d p'. create_dmabuf env w h fmt flags p = ([], Some d, p')) \<longleftrightarrow>
      \<not> bp_used p \<and> (\<exists>f\<in>bp_formats p. de_fourcc env fmt = Some f) \<and> 1 \<le> w \<and> 1 \<le> h \<and> bp_planes p \<noteq> [] \<and>
      (\<lambda>q. unat (pl_idx q)) ` set (bp_planes p) = {0..<length (bp_planes p)} \<and> (\<forall>q\<in>set (bp_planes p). plane_fits (de_seek env) h q)"
proof (cases "1 \<le> w \<and> 1 \<le> h")
  case False
  then have "dimension_errors w h \<noteq> []" using dimension_errors_none[of w h] by blast
  then show ?thesis using False by (auto simp: create_dmabuf_def Let_def split: option.splits if_splits list.splits)
next
  case True
  have none: "dimension_errors w h = []" using True by (simp only: dimension_errors_none)
  have valid: "plane_valid (de_seek env) h q = plane_fits (de_seek env) h q" for q using True assms(2) by (intro plane_valid_fits) auto
  have nonempty: "sort_key (\<lambda>q. unat (pl_idx q)) (bp_planes p) = [] \<longleftrightarrow> bp_planes p = []"
    using length_sort[of "\<lambda>q. unat (pl_idx q)" "bp_planes p"] by (metis length_0_conv)
  have nonempty': "(\<exists>y ys. bp_planes p = y # ys)" if "sort_key (\<lambda>q. unat (pl_idx q)) (bp_planes p) = a # as" for a as
    using that nonempty by (cases "bp_planes p") auto
  show ?thesis using True
    by (auto simp: create_dmabuf_def Let_def none valid drain_sorted[OF assms(1)] nonempty neq_Nil_conv dest: nonempty' split: option.splits if_splits list.splits)
qed

lemma params_run_once: "params_run env p ds err \<Longrightarrow> length ds \<le> 1 \<and> (bp_used p \<or> ds = [])"
proof (induction rule: params_run.induct)
  case (pr_create p ds err alive immed w h fmt flags es out p')
  obtain es' d where c: "create_dmabuf env w h fmt flags p = (es', d, p')"
    using pr_create.hyps(2) by (auto simp: params_create_def split: option.splits if_splits prod.splits)
  have "out = No_buffer" if "bp_used p"
    using pr_create.hyps(2) create_used[OF c that] by (simp add: params_create_def c)
  then show ?case using pr_create.IH create_planes[OF c] by (cases out) auto
next
  case (pr_add p ds err version fd idx off stride hi lo es p')
  then show ?case by (auto simp: params_add_def Let_def split: if_splits option.splits)
next
  case (pr_device p ds err device es p')
  then show ?case by (auto simp: params_set_device_def split: option.splits)
qed simp

text \<open>C33. The parameters of a buffer are accepted exactly when they should be: unused, of a format the global
  offers, with positive dimensions, at least one plane, the planes numbered from 0 without a gap, and every
  plane within 32 bits and, where its file has a length, within the file. Whatever the client does with
  them, the parameters give the compositor at most one buffer.\<close>

theorem dmabuf_params_exact:
  assumes run: "params_run env p ds err" and range: "w \<le> I32_MAX" "h \<le> I32_MAX"
  shows "((\<exists>d p'. create_dmabuf env w h fmt flags p = ([], Some d, p')) \<longleftrightarrow>
      \<not> bp_used p \<and> (\<exists>f\<in>bp_formats p. de_fourcc env fmt = Some f) \<and> 1 \<le> w \<and> 1 \<le> h \<and> bp_planes p \<noteq> [] \<and>
      (\<lambda>q. unat (pl_idx q)) ` set (bp_planes p) = {0..<length (bp_planes p)} \<and> (\<forall>q\<in>set (bp_planes p). plane_fits (de_seek env) h q)) \<and>
    length ds \<le> 1 \<and> (bp_used p \<or> ds = [])"
  by (rule conjI[OF create_exact[OF params_run_planes[OF run] range(2)] params_run_once[OF run]])

section \<open>Examples\<close>

text \<open>Files are their length; two formats, and the modifier 9 means none.\<close>

definition example_dmabuf_env :: "(u64 option, nat, unit, unit) dmabuf_env" where
  "example_dmabuf_env = \<lparr>de_fourcc = (\<lambda>v. if v = 7 then Some 7 else None), de_node = (\<lambda>_. None), de_invalid = 9, de_seek = (\<lambda>l. l)\<rparr>"

definition example_params :: "(u64 option, nat, unit) buffer_params" where
  "example_params = snd (params_add 4 (Some 200) 0 0 40 0 0 (buffer_params_new {7}))"

lemma example_params_run: "params_run example_dmabuf_env example_params [] False"
proof -
  have "params_add 4 (Some 200) 0 0 40 0 0 (buffer_params_new {7} :: (u64 option, nat, unit) buffer_params) = ([], example_params)"
    by (simp add: example_params_def params_add_def buffer_params_new_def MAX_PLANES_def Let_def)
  from pr_add[OF pr_new this] show ?thesis by simp
qed

theorem dmabuf_params_exact_witness:
  "(\<exists>d p'. create_dmabuf example_dmabuf_env 10 5 7 0 example_params = ([], Some d, p')) \<and>
   \<not> (\<exists>d p'. create_dmabuf example_dmabuf_env 10 6 7 0 example_params = ([], Some d, p'))"
proof -
  have p: "\<not> bp_used example_params" "bp_formats example_params = {7}" "bp_planes example_params = [\<lparr>pl_fd = Some 200, pl_idx = 0, pl_offset = 0, pl_stride = 40\<rparr>]"
    by (simp_all add: example_params_def params_add_def buffer_params_new_def MAX_PLANES_def Let_def)
  have fits: "plane_fits (de_seek example_dmabuf_env) h \<lparr>pl_fd = Some 200, pl_idx = 0, pl_offset = 0, pl_stride = 40\<rparr> \<longleftrightarrow> 40 * nat h \<le> 200" for h
    by (auto simp: plane_fits_def example_dmabuf_env_def)
  show ?thesis
    using dmabuf_params_exact[OF example_params_run, of 10 5 7 0] dmabuf_params_exact[OF example_params_run, of 10 6 7 0]
    by (simp add: p fits) (simp add: example_dmabuf_env_def)
qed

text \<open>
  A width or height that is not positive is reported to the client and the buffer is created all the same,
  with the invalid dimensions: the compositor is asked to import it.
\<close>

theorem dmabuf_invalid_dimensions_imported:
  "\<exists>d p'. params_create example_dmabuf_env True False 0 (- 1) 7 0
     (snd (params_add 4 None 0 0 0 0 0 (buffer_params_new {7}))) = ([Invalid_dimensions, Invalid_dimensions], Import_dmabuf False d, p') \<and> db_size d = (0, - 1)"
  by (simp add: params_create_def create_dmabuf_def dimension_errors_def params_add_def buffer_params_new_def MAX_PLANES_def Let_def
      plane_valid_def checked_mul_def checked_add_def example_dmabuf_env_def)

text \<open>With a height of zero the sum of offset and stride wraps around, and a plane far outside its file is taken as valid.\<close>

theorem dmabuf_stride_wraps:
  "plane_valid (\<lambda>_. Some 4294967295) 0 \<lparr>pl_fd = (), pl_idx = 0, pl_offset = 4294967295, pl_stride = 4294967295\<rparr>"
  by (simp add: plane_valid_def checked_mul_def checked_add_def)

end
