(* ===== verification/Dmabuf_Feedback.thy ===== *)
theory Dmabuf_Feedback
  imports Prelude
begin

text \<open>
  The feedback a client gets for allocating dmabufs: its builder, how it is sent, and the objects that are
  kept up to date, \<open>src/wayland/dmabuf/mod.rs\<close> and \<open>src/wayland/dmabuf/dispatch.rs\<close>. Formats with their
  modifiers and devices are types with equality.
\<close>

section \<open>The builder\<close>

datatype tranche_flag = Scanout | Sampling

record 'd tranche =
  tc_device :: 'd
  tc_flags :: "tranche_flag set"
  tc_indices :: "nat list"
  tc_versions :: "nat \<times> nat"

record ('f, 'd) feedback_builder =
  fb_main_device :: 'd
  fb_main_tranche :: "'d tranche"
  fb_formats :: "'f list"
  fb_preferred :: "'d tranche list"

record ('f, 'd) feedback =
  fe_main_device :: 'd
  fe_formats :: "'f list"
  fe_tranches :: "'d tranche list"

text \<open>An \<open>IndexSet\<close> is a list without repetitions in the order of insertion.\<close>

fun set_index :: "'a \<Rightarrow> 'a list \<Rightarrow> nat" where
  "set_index x [] = 0"
| "set_index x (y # ys) = (if x = y then 0 else Suc (set_index x ys))"

definition set_insert :: "'a \<Rightarrow> 'a list \<Rightarrow> 'a list" where
  "set_insert x xs = (if x \<in> set xs then xs else xs @ [x])"

definition feedback_builder_new :: "'d \<Rightarrow> 'f list \<Rightarrow> ('f, 'd) feedback_builder" where
  "feedback_builder_new device formats =
     (let fs = fold set_insert formats []
      in \<lparr>fb_main_device = device,
          fb_main_tranche = \<lparr>tc_device = device, tc_flags = {Sampling}, tc_indices = [0..<length fs], tc_versions = (3, 6)\<rparr>,
          fb_formats = fs, fb_preferred = []\<rparr>)"

text \<open>One format of a preference tranche: the formats and the indices of the tranche.\<close>

definition add_format :: "'d tranche list \<Rightarrow> 'd \<Rightarrow> tranche_flag set \<Rightarrow> 'f \<Rightarrow> 'f list \<times> nat list \<Rightarrow> 'f list \<times> nat list" where
  "add_format preferred device flags format fi =
     (case fi of (formats, indices) \<Rightarrow>
        (let added = format \<notin> set formats; i = set_index format formats; formats = set_insert format formats;
             duplicate = (\<not> added \<and> (\<exists>t\<in>set preferred. tc_device t = device \<and> tc_flags t = flags \<and> i \<in> set (tc_indices t)))
         in if duplicate then (formats, indices) else (formats, set_insert i indices)))"

definition add_preference_tranche :: "'d \<Rightarrow> tranche_flag set \<Rightarrow> 'f list \<Rightarrow> nat \<times> nat \<Rightarrow> ('f, 'd) feedback_builder \<Rightarrow> ('f, 'd) feedback_builder" where
  "add_preference_tranche device flags formats versions b =
     (let (fs, indices) = fold (add_format (fb_preferred b) device flags) formats (fb_formats b, []);
          b = b\<lparr>fb_formats := fs\<rparr>
      in if indices \<noteq> []
         then b\<lparr>fb_preferred := fb_preferred b @ [\<lparr>tc_device = device, tc_flags = flags, tc_indices = indices, tc_versions = versions\<rparr>]\<rparr>
         else b)"

definition feedback_build :: "('f, 'd) feedback_builder \<Rightarrow> ('f, 'd) feedback" where
  "feedback_build b =
     (let main = fb_main_tranche b;
          same = filter (\<lambda>t. tc_device t = tc_device main \<and> tc_flags t = tc_flags main) (fb_preferred b);
          indices = fold (\<lambda>t is. filter (\<lambda>i. i \<notin> set (tc_indices t)) is) same (tc_indices main)
      in \<lparr>fe_main_device = fb_main_device b, fe_formats = fb_formats b,
          fe_tranches = (if indices \<noteq> [] then fb_preferred b @ [main\<lparr>tc_indices := indices\<rparr>] else fb_preferred b)\<rparr>)"

text \<open>The builders a compositor can reach, with the formats of the main device.\<close>

inductive builder_reached :: "'d \<Rightarrow> 'f list \<Rightarrow> ('f, 'd) feedback_builder \<Rightarrow> bool" for device formats where
  fbr_new: "builder_reached device formats (feedback_builder_new device formats)"
| fbr_add: "builder_reached device formats b \<Longrightarrow> builder_reached device formats (add_preference_tranche d flags fs versions b)"

section \<open>Sending\<close>

datatype ('f, 'd) feedback_event =
  Fe_main_device 'd
| Fe_format_table "'f list"
| Fe_tranche_target_device 'd
| Fe_tranche_flags "tranche_flag set"
| Fe_tranche_formats "16 word list"
| Fe_tranche_done
| Fe_done

definition in_versions :: "nat \<Rightarrow> 'd tranche \<Rightarrow> bool" where
  "in_versions v t \<longleftrightarrow> fst (tc_versions t) \<le> v \<and> v \<le> snd (tc_versions t)"

definition sent_flags :: "nat \<Rightarrow> tranche_flag set \<Rightarrow> tranche_flag set" where
  "sent_flags v flags = (if v \<le> 5 then flags - {Sampling} else flags)"

definition tranche_events :: "nat \<Rightarrow> 'd tranche \<Rightarrow> ('f, 'd) feedback_event list" where
  "tranche_events v t = [Fe_tranche_target_device (tc_device t), Fe_tranche_flags (sent_flags v (tc_flags t)),
     Fe_tranche_formats (map of_nat (tc_indices t)), Fe_tranche_done]"

definition feedback_send :: "nat \<Rightarrow> ('f, 'd) feedback \<Rightarrow> ('f, 'd) feedback_event list" where
  "feedback_send v f =
     (if v \<le> 5 then [Fe_main_device (fe_main_device f)] else []) @ [Fe_format_table (fe_formats f)] @
     concat (map (tranche_events v) (filter (in_versions v) (fe_tranches f))) @ [Fe_done]"

text \<open>The formats announced to clients of the first three versions.\<close>

definition main_formats :: "('f, 'd) feedback \<Rightarrow> 'f list" where
  "main_formats f =
     map (\<lambda>i. fe_formats f ! i)
       (fold (\<lambda>t acc. fold set_insert (tc_indices t) acc)
          (filter (\<lambda>t. tc_device t = fe_main_device f \<and> tc_flags t = {Sampling} \<and> in_versions 3 t) (fe_tranches f)) [])"

text \<open>
  The equality that decides whether a new feedback is sent: an \<open>IndexSet\<close> equals another when they have the
  same elements, whatever their order.
\<close>

definition tranche_eq :: "'d tranche \<Rightarrow> 'd tranche \<Rightarrow> bool" where
  "tranche_eq t u \<longleftrightarrow> tc_device t = tc_device u \<and> tc_flags t = tc_flags u \<and> set (tc_indices t) = set (tc_indices u) \<and>
     tc_versions t = tc_versions u"

definition feedback_eq :: "('f, 'd) feedback \<Rightarrow> ('f, 'd) feedback \<Rightarrow> bool" where
  "feedback_eq f g \<longleftrightarrow> fe_main_device f = fe_main_device g \<and> set (fe_formats f) = set (fe_formats g) \<and>
     list_all2 tranche_eq (fe_tranches f) (fe_tranches g)"

section \<open>What a client understands\<close>

text \<open>The client keeps the table, collects the tranches of formats, and uses them once all have come.\<close>

record ('f, 'd) feedback_client =
  fc_table :: "'f list"
  fc_device :: "'d option"
  fc_flags :: "tranche_flag set"
  fc_indices :: "16 word list"
  fc_tranches :: "('d \<times> tranche_flag set \<times> 'f list) list"
  fc_current :: "('d \<times> tranche_flag set \<times> 'f list) list"

fun client_event :: "('f, 'd) feedback_event \<Rightarrow> ('f, 'd) feedback_client \<Rightarrow> ('f, 'd) feedback_client" where
  "client_event (Fe_main_device d) c = c"
| "client_event (Fe_format_table t) c = c\<lparr>fc_table := t\<rparr>"
| "client_event (Fe_tranche_target_device d) c = c\<lparr>fc_device := Some d\<rparr>"
| "client_event (Fe_tranche_flags f) c = c\<lparr>fc_flags := f\<rparr>"
| "client_event (Fe_tranche_formats is) c = c\<lparr>fc_indices := is\<rparr>"
| "client_event Fe_tranche_done c =
     c\<lparr>fc_tranches := fc_tranches c @ [(the (fc_device c), fc_flags c, map (\<lambda>i. fc_table c ! unat i) (fc_indices c))]\<rparr>"
| "client_event Fe_done c = c\<lparr>fc_current := fc_tranches c, fc_tranches := []\<rparr>"

definition client_start :: "('f, 'd) feedback_client" where
  "client_start = \<lparr>fc_table = [], fc_device = None, fc_flags = {}, fc_indices = [], fc_tranches = [], fc_current = []\<rparr>"

definition feedback_meaning :: "nat \<Rightarrow> ('f, 'd) feedback \<Rightarrow> ('d \<times> tranche_flag set \<times> 'f list) list" where
  "feedback_meaning v f = map (\<lambda>t. (tc_device t, sent_flags v (tc_flags t), map (\<lambda>i. fe_formats f ! i) (tc_indices t)))
     (filter (in_versions v) (fe_tranches f))"

definition sendable :: "('f, 'd) feedback \<Rightarrow> bool" where
  "sendable f \<longleftrightarrow> length (fe_formats f) \<le> 2 ^ 16 \<and> (\<forall>t\<in>set (fe_tranches f). \<forall>i\<in>set (tc_indices t). i < length (fe_formats f))"

section \<open>Properties of the builder\<close>

lemma set_insert_set [simp]: "set (set_insert x xs) = insert x (set xs)" "distinct xs \<Longrightarrow> distinct (set_insert x xs)"
  by (auto simp: set_insert_def)

lemma set_insert_prefix: "\<exists>ys. set_insert x xs = xs @ ys"
  by (auto simp: set_insert_def)

lemma set_index_bound: "set_index x xs \<le> length xs" "x \<in> set xs \<Longrightarrow> set_index x xs < length xs \<and> xs ! set_index x xs = x"
  by (induction xs) auto

lemma set_index_absent: "x \<notin> set xs \<Longrightarrow> set_index x xs = length xs"
  by (induction xs) auto

definition tranche_ok :: "'f list \<Rightarrow> 'd tranche \<Rightarrow> bool" where
  "tranche_ok fs t \<longleftrightarrow> tc_indices t \<noteq> [] \<and> distinct (tc_indices t) \<and> (\<forall>i\<in>set (tc_indices t). i < length fs)"

text \<open>Two tranches for the same device and use share no format.\<close>

definition apart :: "'d tranche \<Rightarrow> 'd tranche \<Rightarrow> bool" where
  "apart t u \<longleftrightarrow> tc_device t = tc_device u \<longrightarrow> tc_flags t = tc_flags u \<longrightarrow> set (tc_indices t) \<inter> set (tc_indices u) = {}"

definition builder_ok :: "'d \<Rightarrow> 'f list \<Rightarrow> ('f, 'd) feedback_builder \<Rightarrow> bool" where
  "builder_ok device formats b \<longleftrightarrow> distinct (fb_formats b) \<and> (\<forall>t\<in>set (fb_preferred b). tranche_ok (fb_formats b) t) \<and>
     sorted_wrt apart (fb_preferred b) \<and> fb_main_device b = device \<and>
     (\<exists>n \<le> length (fb_formats b). set (take n (fb_formats b)) = set formats \<and>
        fb_main_tranche b = \<lparr>tc_device = device, tc_flags = {Sampling}, tc_indices = [0..<n], tc_versions = (3, 6)\<rparr>)"

lemma fold_set_insert: "distinct xs \<Longrightarrow> distinct (fold set_insert ys xs) \<and> set (fold set_insert ys xs) = set xs \<union> set ys"
  by (induction ys arbitrary: xs) auto

lemma add_format_step:
  assumes "add_format ts d fl f (fs, is) = (fs', is')" "distinct fs" "distinct is" "\<forall>i\<in>set is. i < length fs"
    and "\<forall>t\<in>set ts. tranche_ok fs t" "\<forall>t\<in>set ts. tc_device t = d \<longrightarrow> tc_flags t = fl \<longrightarrow> set (tc_indices t) \<inter> set is = {}"
  shows "distinct fs'" "distinct is'" "\<forall>i\<in>set is'. i < length fs'" "\<forall>t\<in>set ts. tranche_ok fs' t"
    "\<forall>t\<in>set ts. tc_device t = d \<longrightarrow> tc_flags t = fl \<longrightarrow> set (tc_indices t) \<inter> set is' = {}" "\<exists>ys. fs' = fs @ ys"
proof -
  have eq: "fs' = set_insert f fs" "is' = is \<or> is' = set_insert (set_index f fs) is"
    using assms(1) unfolding add_format_def Let_def prod.case by (simp_all split: if_splits)
  obtain ys where ys: "set_insert f fs = fs @ ys" using set_insert_prefix[of f fs] by (elim exE)
  have fs': "fs' = fs @ ys" by (simp only: eq(1) ys)
  then show "\<exists>ys. fs' = fs @ ys" by (rule exI)
  show "distinct fs'" using set_insert_set(2)[OF assms(2), of f] by (simp only: eq(1))
  have i: "set_index f fs < length fs'"
    using set_index_bound(2)[of f fs] set_index_absent[of f fs] by (cases "f \<in> set fs") (simp_all add: eq(1) set_insert_def)
  note is' = eq(2)
  then show "distinct is'" using assms(3) by auto
  show "\<forall>i\<in>set is'. i < length fs'" using is' i assms(4) fs' by (auto intro: trans_less_add1)
  show "\<forall>t\<in>set ts. tranche_ok fs' t" using assms(5) fs' by (auto simp: tranche_ok_def intro: trans_less_add1)
  have "set_index f fs \<notin> set (tc_indices t)" if t: "t \<in> set ts" "tc_device t = d" "tc_flags t = fl" "is' \<noteq> is" for t
  proof (cases "f \<in> set fs")
    case True
    then show ?thesis using assms(1) t by (auto simp: add_format_def Let_def split: if_splits)
  next
    case False
    then show ?thesis using set_index_absent[OF False] assms(5) t(1) by (auto simp: tranche_ok_def)
  qed
  note new = this
  have "set (tc_indices t) \<inter> set is' = {}" if t: "t \<in> set ts" "tc_device t = d" "tc_flags t = fl" for t
  proof -
    have old: "set (tc_indices t) \<inter> set is = {}" using assms(6) t by blast
    show ?thesis
    proof (cases "is' = is")
      case False
      then have "set is' = insert (set_index f fs) (set is)" using is' by simp
      then show ?thesis using old new[OF t False] by simp
    qed (use old in simp)
  qed
  then show "\<forall>t\<in>set ts. tc_device t = d \<longrightarrow> tc_flags t = fl \<longrightarrow> set (tc_indices t) \<inter> set is' = {}" by simp
qed

lemma add_formats:
  assumes "fold (add_format ts d fl) gs (fs, is) = (fs', is')" "distinct fs" "distinct is" "\<forall>i\<in>set is. i < length fs"
    and "\<forall>t\<in>set ts. tranche_ok fs t" "\<forall>t\<in>set ts. tc_device t = d \<longrightarrow> tc_flags t = fl \<longrightarrow> set (tc_indices t) \<inter> set is = {}"
  shows "distinct fs' \<and> distinct is' \<and> (\<forall>i\<in>set is'. i < length fs') \<and> (\<forall>t\<in>set ts. tranche_ok fs' t) \<and>
    (\<forall>t\<in>set ts. tc_device t = d \<longrightarrow> tc_flags t = fl \<longrightarrow> set (tc_indices t) \<inter> set is' = {}) \<and> (\<exists>ys. fs' = fs @ ys)"
  using assms
proof (induction gs arbitrary: fs "is")
  case (Cons g gs)
  obtain fs1 is1 where s: "add_format ts d fl g (fs, is) = (fs1, is1)" by fastforce
  note S = add_format_step[OF s Cons.prems(2-6)]
  have "fold (add_format ts d fl) gs (fs1, is1) = (fs', is')" using Cons.prems(1) by (simp add: s)
  from Cons.IH[OF this S(1-5)] show ?case using S(6) by auto
qed auto

lemma builder_new_ok: "builder_ok device formats (feedback_builder_new device formats)"
  using fold_set_insert[of "[]" formats] by (auto simp: builder_ok_def feedback_builder_new_def Let_def)

lemma builder_add_ok:
  assumes "builder_ok device formats b"
  shows "builder_ok device formats (add_preference_tranche d fl gs vs b)"
proof -
  note B = assms[unfolded builder_ok_def]
  obtain fs "is" where f: "fold (add_format (fb_preferred b) d fl) gs (fb_formats b, []) = (fs, is)" by fastforce
  have A: "distinct fs \<and> distinct is \<and> (\<forall>i\<in>set is. i < length fs) \<and> (\<forall>t\<in>set (fb_preferred b). tranche_ok fs t) \<and>
    (\<forall>t\<in>set (fb_preferred b). tc_device t = d \<longrightarrow> tc_flags t = fl \<longrightarrow> set (tc_indices t) \<inter> set is = {}) \<and> (\<exists>ys. fs = fb_formats b @ ys)"
    by (rule add_formats[OF f]) (use B in auto)
  then obtain ys where ys: "fs = fb_formats b @ ys" by blast
  obtain n where n: "n \<le> length (fb_formats b)" "set (take n (fb_formats b)) = set formats"
    "fb_main_tranche b = \<lparr>tc_device = device, tc_flags = {Sampling}, tc_indices = [0..<n], tc_versions = (3, 6)\<rparr>" using B by blast
  have n': "n \<le> length fs" "set (take n fs) = set formats" using n by (simp_all add: ys)
  let ?t = "\<lparr>tc_device = d, tc_flags = fl, tc_indices = is, tc_versions = vs\<rparr>"
  have "sorted_wrt apart (fb_preferred b @ [?t])" using A B by (auto simp: sorted_wrt_append apart_def)
  moreover have "tranche_ok fs ?t" if "is \<noteq> []" using A that by (simp add: tranche_ok_def)
  ultimately show ?thesis
    unfolding builder_ok_def add_preference_tranche_def f Let_def prod.case using A B n' n(3) by auto
qed

lemma fold_minus: "fold (\<lambda>t is. filter (\<lambda>i. i \<notin> set (tc_indices t)) is) ts is = filter (\<lambda>i. \<forall>t\<in>set ts. i \<notin> set (tc_indices t)) is"
  by (induction ts arbitrary: "is") (auto intro: filter_cong)

text \<open>C30. A feedback is well-formed: every tranche is non-empty and refers into the format table, no format is
  listed twice for the same device and use, and every format of the main device is offered by some
  tranche for sampling on the main device.\<close>

theorem feedback_tranches_ok:
  assumes "builder_reached device formats b"
  shows "distinct (fe_formats (feedback_build b)) \<and> (\<forall>t\<in>set (fe_tranches (feedback_build b)). tranche_ok (fe_formats (feedback_build b)) t) \<and>
    sorted_wrt apart (fe_tranches (feedback_build b)) \<and>
    (\<forall>f\<in>set formats. \<exists>t\<in>set (fe_tranches (feedback_build b)). tc_device t = device \<and> tc_flags t = {Sampling} \<and>
       f \<in> (\<lambda>i. fe_formats (feedback_build b) ! i) ` set (tc_indices t))"
proof -
  have "builder_ok device formats b" using assms by induction (auto intro: builder_new_ok builder_add_ok)
  note B = this[unfolded builder_ok_def]
  obtain n where n: "n \<le> length (fb_formats b)" "set (take n (fb_formats b)) = set formats"
    "fb_main_tranche b = \<lparr>tc_device = device, tc_flags = {Sampling}, tc_indices = [0..<n], tc_versions = (3, 6)\<rparr>" using B by blast
  let ?same = "filter (\<lambda>t. tc_device t = device \<and> tc_flags t = {Sampling}) (fb_preferred b)"
  define rest where "rest = filter (\<lambda>i. \<forall>t\<in>set ?same. i \<notin> set (tc_indices t)) [0..<n]"
  define main where "main = (fb_main_tranche b)\<lparr>tc_indices := rest\<rparr>"
  have fe: "fe_formats (feedback_build b) = fb_formats b"
    "fe_tranches (feedback_build b) = (if rest \<noteq> [] then fb_preferred b @ [main] else fb_preferred b)"
    by (simp_all add: feedback_build_def Let_def n(3) fold_minus rest_def main_def)
  have main: "tranche_ok (fb_formats b) main" if "rest \<noteq> []"
    using that n(1) by (auto simp: tranche_ok_def main_def rest_def n(3))
  have "apart t main" if "t \<in> set (fb_preferred b)" for t
    using that by (auto simp: apart_def main_def rest_def n(3))
  then have sorted: "sorted_wrt apart (fe_tranches (feedback_build b))" using B by (simp add: fe sorted_wrt_append)
  have "\<exists>t\<in>set (fe_tranches (feedback_build b)). tc_device t = device \<and> tc_flags t = {Sampling} \<and> f \<in> (\<lambda>i. fb_formats b ! i) ` set (tc_indices t)"
    if f: "f \<in> set formats" for f
  proof -
    have "f \<in> set (take n (fb_formats b))" using f unfolding n(2) .
    then obtain i where i: "i < n" "f = fb_formats b ! i" unfolding in_set_conv_nth by auto
    show ?thesis
    proof (cases "i \<in> set rest")
      case True
      then show ?thesis using i by (intro bexI[of _ main]) (auto simp: fe main_def n(3))
    next
      case False
      then obtain t where "t \<in> set ?same" "i \<in> set (tc_indices t)" using i(1) by (auto simp: rest_def)
      then show ?thesis using i(2) by (intro bexI[of _ t]) (auto simp: fe)
    qed
  qed
  then show ?thesis using B main sorted by (auto simp: fe)
qed

section \<open>Properties of sending\<close>

lemma client_tranche:
  assumes "length (fc_table c) \<le> 2 ^ 16" "\<forall>i\<in>set (tc_indices t). i < length (fc_table c)"
  shows "fc_tranches (fold client_event (tranche_events v t) c) =
      fc_tranches c @ [(tc_device t, sent_flags v (tc_flags t), map (\<lambda>i. fc_table c ! i) (tc_indices t))] \<and>
    fc_table (fold client_event (tranche_events v t) c) = fc_table c \<and>
    fc_current (fold client_event (tranche_events v t) c) = fc_current c"
proof -
  have "fc_table c ! unat (of_nat i :: 16 word) = fc_table c ! i" if "i \<in> set (tc_indices t)" for i
    using that assms by (force simp: unat_of_nat)
  then show ?thesis by (simp add: tranche_events_def)
qed

lemma client_tranches:
  assumes "length (fc_table c) \<le> 2 ^ 16" "\<forall>t\<in>set ts. \<forall>i\<in>set (tc_indices t). i < length (fc_table c)"
  shows "fc_tranches (fold client_event (concat (map (tranche_events v) ts)) c) =
      fc_tranches c @ map (\<lambda>t. (tc_device t, sent_flags v (tc_flags t), map (\<lambda>i. fc_table c ! i) (tc_indices t))) ts"
  using assms
proof (induction ts arbitrary: c)
  case (Cons t ts)
  have "\<forall>i\<in>set (tc_indices t). i < length (fc_table c)" using Cons.prems by simp
  note T = client_tranche[OF Cons.prems(1) this, of v]
  show ?case using Cons.IH[of "fold client_event (tranche_events v t) c"] Cons.prems T by simp
qed simp

text \<open>A client that has understood what came before understands exactly the feedback sent.\<close>

lemma client_understands:
  assumes "sendable f" "fc_tranches c = []"
  shows "fc_current (fold client_event (feedback_send v f) c) = feedback_meaning v f \<and>
    fc_tranches (fold client_event (feedback_send v f) c) = []"
proof -
  have "fc_tranches (fold client_event (concat (map (tranche_events v) (filter (in_versions v) (fe_tranches f)))) (c\<lparr>fc_table := fe_formats f\<rparr>)) =
      feedback_meaning v f"
    by (subst client_tranches) (use assms in \<open>auto simp: sendable_def feedback_meaning_def\<close>)
  then show ?thesis by (simp add: feedback_send_def)
qed

text \<open>Equal feedbacks with the same table mean the same.\<close>

definition same_meaning :: "('d \<times> tranche_flag set \<times> 'f list) list \<Rightarrow> ('d \<times> tranche_flag set \<times> 'f list) list \<Rightarrow> bool" where
  "same_meaning = list_all2 (\<lambda>(d, fl, fs) (d', fl', fs'). d = d' \<and> fl = fl' \<and> set fs = set fs')"

lemma feedback_eq_meaning:
  assumes "feedback_eq f g" "fe_formats f = fe_formats g"
  shows "same_meaning (feedback_meaning v f) (feedback_meaning v g)"
proof -
  have M: "list_all2 tranche_eq ts us \<Longrightarrow> same_meaning
      (map (\<lambda>t. (tc_device t, sent_flags v (tc_flags t), map (\<lambda>i. fe_formats f ! i) (tc_indices t))) (filter (in_versions v) ts))
      (map (\<lambda>t. (tc_device t, sent_flags v (tc_flags t), map (\<lambda>i. fe_formats f ! i) (tc_indices t))) (filter (in_versions v) us))" for ts us
    by (induction ts us rule: list_all2_induct) (simp_all add: same_meaning_def tranche_eq_def in_versions_def)
  have "list_all2 tranche_eq (fe_tranches f) (fe_tranches g)" using assms(1) by (simp add: feedback_eq_def)
  from M[OF this] show ?thesis unfolding feedback_meaning_def assms(2) .
qed

section \<open>Examples\<close>

definition example_builder :: "(nat, nat) feedback_builder" where
  "example_builder = add_preference_tranche 1 {Scanout, Sampling} [20, 30] (3, 6) (feedback_builder_new 1 [10, 20, 10])"

theorem feedback_tranches_ok_witness:
  "distinct (fe_formats (feedback_build example_builder)) \<and> length (fe_tranches (feedback_build example_builder)) = 2"
proof -
  have "builder_reached 1 [10, 20, 10] example_builder" unfolding example_builder_def by (intro fbr_add fbr_new)
  from feedback_tranches_ok[OF this] show ?thesis
    by (simp add: example_builder_def add_preference_tranche_def feedback_builder_new_def feedback_build_def add_format_def set_insert_def Let_def upt_rec)
qed

text \<open>
  Two feedbacks of the same formats in another order compare equal, although their indices name other
  formats: one offers the format 10 for scanning out, the other the format 20.
\<close>

definition scanout_feedback :: "nat list \<Rightarrow> (nat, nat) feedback" where
  "scanout_feedback fs = feedback_build (add_preference_tranche 1 {Scanout} [hd fs] (3, 6) (feedback_builder_new 1 fs))"

theorem feedback_order_ignored:
  "feedback_eq (scanout_feedback [10, 20]) (scanout_feedback [20, 10]) \<and>
   \<not> same_meaning (feedback_meaning 5 (scanout_feedback [10, 20])) (feedback_meaning 5 (scanout_feedback [20, 10]))"
  by (simp add: scanout_feedback_def feedback_eq_def tranche_eq_def same_meaning_def feedback_meaning_def in_versions_def
      add_preference_tranche_def feedback_builder_new_def feedback_build_def add_format_def set_insert_def Let_def upt_rec insert_commute)

text \<open>
  Up to version 5 the flag for sampling is not sent: a format of a tranche without flags and of one for
  sampling is sent twice for the same device and flags.
\<close>

theorem feedback_sends_format_twice:
  "feedback_meaning 5 (feedback_build (add_preference_tranche 1 {} [10] (3, 6) (feedback_builder_new (1::nat) [10::nat]))) =
     [(1, {}, [10]), (1, {}, [10])]"
  by (simp add: feedback_meaning_def in_versions_def sent_flags_def
      add_preference_tranche_def feedback_builder_new_def feedback_build_def add_format_def set_insert_def Let_def upt_rec)

text \<open>
  The main tranche gives up what a preference tranche covers, whatever versions that tranche is for: a
  client of another version is not offered the format at all.
\<close>

theorem feedback_loses_format:
  "feedback_meaning 5 (feedback_build (add_preference_tranche 1 {Sampling} [10] (6, 6) (feedback_builder_new (1::nat) [10::nat]))) = []"
  by (simp add: feedback_meaning_def in_versions_def sent_flags_def
      add_preference_tranche_def feedback_builder_new_def feedback_build_def add_format_def set_insert_def Let_def upt_rec)

end
