(* ===== verification/Dmabuf_Bind.thy ===== *)
theory Dmabuf_Bind
  imports Dmabuf_Feedback
begin

text \<open>
  What a client learns when it binds a dmabuf global of one of the first three versions:
  \<open>src/wayland/dmabuf/mod.rs\<close> and \<open>src/wayland/dmabuf/dispatch.rs\<close>. An \<open>IndexMap\<close> is a list of keys and
  values in the order of insertion.
\<close>

section \<open>The formats of a global\<close>

fun group_format :: "'c \<times> 'm \<Rightarrow> ('c \<times> 'm list) list \<Rightarrow> ('c \<times> 'm list) list" where
  "group_format (code, modifier) [] = [(code, [modifier])]"
| "group_format (code, modifier) ((c, ms) # rest) =
     (if c = code then (c, set_insert modifier ms) # rest else (c, ms) # group_format (code, modifier) rest)"

definition global_formats :: "('c \<times> 'm) list option \<Rightarrow> (('c \<times> 'm), 'd) feedback option \<Rightarrow> ('c \<times> 'm list) list option" where
  "global_formats formats feedback =
     map_option (\<lambda>fs. fold group_format fs [])
       (case formats of Some fs \<Rightarrow> Some fs | None \<Rightarrow> map_option main_formats feedback)"

section \<open>Binding\<close>

datatype ('c, 'm) bind_event = Be_format 'c | Be_modifier 'c 'm

text \<open>Requests for feedback exist since version 4, modifiers since version 3.\<close>

definition bind_events :: "nat \<Rightarrow> 'm \<Rightarrow> 'm \<Rightarrow> ('c \<times> 'm list) list \<Rightarrow> ('c, 'm) bind_event list" where
  "bind_events version invalid linear_layout formats =
     (if version < 4
      then concat (map (\<lambda>(code, modifiers).
             if version < 3 then (if invalid \<in> set modifiers \<or> linear_layout \<in> set modifiers then [Be_format code] else [])
             else map (Be_modifier code) modifiers) formats)
      else [])"

section \<open>Properties\<close>

lemma group_format_codes: "fst ` set (group_format f gs) = insert (fst f) (fst ` set gs)"
  by (induction f gs rule: group_format.induct) auto

definition grouped :: "('c \<times> 'm list) list \<Rightarrow> bool" where
  "grouped gs \<longleftrightarrow> distinct (map fst gs) \<and> (\<forall>g\<in>set gs. distinct (snd g))"

definition ungroup :: "('c \<times> 'm list) list \<Rightarrow> ('c \<times> 'm) set" where
  "ungroup gs = {(c, m). \<exists>ms. (c, ms) \<in> set gs \<and> m \<in> set ms}"

lemma ungroup_simps [simp]: "ungroup [] = {}" "ungroup ((c, ms) # gs) = Pair c ` set ms \<union> ungroup gs"
  by (auto simp: ungroup_def)

lemma group_format_ungroup: "ungroup (group_format f gs) = insert f (ungroup gs)"
  by (induction f gs rule: group_format.induct) auto

lemma group_format_grouped: "grouped gs \<Longrightarrow> grouped (group_format f gs)"
proof (induction f gs rule: group_format.induct)
  case (2 code modifier c ms rest)
  then show ?case using group_format_codes[of "(code, modifier)" rest] by (auto simp: grouped_def)
qed (simp add: grouped_def)

lemma fold_group: "grouped gs \<Longrightarrow> grouped (fold group_format fs gs) \<and> ungroup (fold group_format fs gs) = set fs \<union> ungroup gs"
  by (induction fs arbitrary: gs) (auto simp: group_format_grouped group_format_ungroup)

lemma bind_events_distinct: "grouped gs \<Longrightarrow> distinct (bind_events v invalid linear_layout gs)"
proof (induction gs)
  case (Cons g gs)
  obtain c ms where g: "g = (c, ms)" by fastforce
  have "grouped gs" using Cons.prems by (simp add: grouped_def)
  then have d: "distinct (bind_events v invalid linear_layout gs)" by (rule Cons.IH)
  have c: "c \<notin> fst ` set gs" "distinct ms" using Cons.prems by (simp_all add: grouped_def g)
  have tail: "bind_events v invalid linear_layout (g # gs) = bind_events v invalid linear_layout [g] @ bind_events v invalid linear_layout gs"
    by (simp add: bind_events_def)
  have "e \<in> set (bind_events v invalid linear_layout gs) \<Longrightarrow> e \<noteq> Be_format c \<and> (\<forall>m. e \<noteq> Be_modifier c m)" for e
    using c(1) by (force simp: bind_events_def split: if_splits)
  moreover have "e \<in> set (bind_events v invalid linear_layout [g]) \<Longrightarrow> e = Be_format c \<or> (\<exists>m. e = Be_modifier c m)" for e
    by (auto simp: bind_events_def g split: if_splits)
  moreover have "distinct (bind_events v invalid linear_layout [g])" using c(2) by (simp add: bind_events_def g distinct_map inj_on_def)
  ultimately show ?case unfolding tail using d by fastforce
qed (simp add: bind_events_def)

lemma bind_events_modifier: "Be_modifier c m \<in> set (bind_events 3 invalid linear_layout gs) \<longleftrightarrow> (c, m) \<in> ungroup gs"
  by (auto simp: bind_events_def ungroup_def)

lemma bind_events_format:
  "Be_format c \<in> set (bind_events 2 invalid linear_layout gs) \<longleftrightarrow> (c, invalid) \<in> ungroup gs \<or> (c, linear_layout) \<in> ungroup gs"
  by (auto simp: bind_events_def ungroup_def split: if_splits)

lemma fold_extend: "set (fold (\<lambda>t acc. fold set_insert (tc_indices t) acc) ts acc) = set acc \<union> (\<Union>t\<in>set ts. set (tc_indices t))"
proof -
  have "set (fold set_insert xs acc) = set acc \<union> set xs" for xs acc :: "nat list" by (induction xs arbitrary: acc) auto
  then show ?thesis by (induction ts arbitrary: acc) auto
qed

text \<open>
  Clients without feedback objects: in version 3 they are told exactly the formats of the tranches for
  sampling on the main device that version 3 is to see, each once; in the versions before, the codes
  that can be used without a modifier or with linear memory.
\<close>

theorem bind_formats_exact:
  assumes "global_formats None (Some f) = Some gs"
  shows "distinct (bind_events v invalid linear_layout gs)"
    and "Be_modifier c m \<in> set (bind_events 3 invalid linear_layout gs) \<longleftrightarrow>
      (\<exists>t\<in>set (fe_tranches f). tc_device t = fe_main_device f \<and> tc_flags t = {Sampling} \<and> in_versions 3 t \<and>
         (\<exists>i\<in>set (tc_indices t). fe_formats f ! i = (c, m)))"
    and "Be_format c \<in> set (bind_events 2 invalid linear_layout gs) \<longleftrightarrow>
      Be_modifier c invalid \<in> set (bind_events 3 invalid linear_layout gs) \<or> Be_modifier c linear_layout \<in> set (bind_events 3 invalid linear_layout gs)"
    and "v \<ge> 4 \<Longrightarrow> bind_events v invalid linear_layout gs = []"
proof -
  have gs: "gs = fold group_format (main_formats f) []" using assms by (simp add: global_formats_def)
  have G: "grouped gs \<and> ungroup gs = set (main_formats f)" unfolding gs using fold_group[of "[]" "main_formats f"] by (simp add: grouped_def)
  then show "distinct (bind_events v invalid linear_layout gs)" by (simp add: bind_events_distinct)
  have "set (main_formats f) = (\<lambda>i. fe_formats f ! i) `
      (\<Union>t\<in>{t \<in> set (fe_tranches f). tc_device t = fe_main_device f \<and> tc_flags t = {Sampling} \<and> in_versions 3 t}. set (tc_indices t))"
    by (simp add: main_formats_def fold_extend)
  then show "Be_modifier c m \<in> set (bind_events 3 invalid linear_layout gs) \<longleftrightarrow>
      (\<exists>t\<in>set (fe_tranches f). tc_device t = fe_main_device f \<and> tc_flags t = {Sampling} \<and> in_versions 3 t \<and>
         (\<exists>i\<in>set (tc_indices t). fe_formats f ! i = (c, m)))"
    using G by (auto simp: bind_events_modifier image_iff) (metis+)?
  show "Be_format c \<in> set (bind_events 2 invalid linear_layout gs) \<longleftrightarrow>
      Be_modifier c invalid \<in> set (bind_events 3 invalid linear_layout gs) \<or> Be_modifier c linear_layout \<in> set (bind_events 3 invalid linear_layout gs)"
    by (simp only: bind_events_format bind_events_modifier)
  show "v \<ge> 4 \<Longrightarrow> bind_events v invalid linear_layout gs = []" by (simp add: bind_events_def)
qed

end
