(* ===== verification/Dmabuf_Objects.thy ===== *)
theory Dmabuf_Objects
  imports Dmabuf_Feedback
begin

text \<open>
  The feedback objects of clients, which are told again when the feedback they were created for changes:
  \<open>src/wayland/dmabuf/mod.rs\<close> and \<open>src/wayland/dmabuf/dispatch.rs\<close>. A weak reference upgrades as long as the
  object lives; an object is of no surface when it is for the default feedback.
\<close>

section \<open>State\<close>

record ('f, 'd, 'o, 's) feedback_state =
  fs_default :: "('f, 'd) feedback"
  fs_known :: "'o list"
  fs_surfaces :: "'s \<Rightarrow> (('f, 'd) feedback \<times> 'o list) option"
  fs_dead :: "'s set"
  fs_objects :: "'o \<Rightarrow> (nat \<times> 's option) option"
  fs_sent :: "'o \<Rightarrow> ('f, 'd) feedback_event list"

definition feedback_global :: "('f, 'd) feedback \<Rightarrow> ('f, 'd, 'o, 's) feedback_state" where
  "feedback_global f = \<lparr>fs_default = f, fs_known = [], fs_surfaces = (\<lambda>_. None), fs_dead = {}, fs_objects = (\<lambda>_. None), fs_sent = (\<lambda>_. [])\<rparr>"

section \<open>Operations\<close>

definition send_to :: "('f, 'd) feedback \<Rightarrow> 'o \<Rightarrow> ('f, 'd, 'o, 's) feedback_state \<Rightarrow> ('f, 'd, 'o, 's) feedback_state" where
  "send_to f x st =
     (case fs_objects st x of
        None \<Rightarrow> st
      | Some (v, _) \<Rightarrow> st\<lparr>fs_sent := (fs_sent st)(x := fs_sent st x @ feedback_send v f)\<rparr>)"

definition get_default_feedback :: "'o \<Rightarrow> nat \<Rightarrow> ('f, 'd, 'o, 's) feedback_state \<Rightarrow> ('f, 'd, 'o, 's) feedback_state" where
  "get_default_feedback x v st =
     (let st = st\<lparr>fs_objects := (fs_objects st)(x \<mapsto> (v, None))\<rparr>; st = st\<lparr>fs_known := fs_known st @ [x]\<rparr>
      in send_to (fs_default st) x st)"

text \<open>The compositor may choose the first feedback of a surface.\<close>

definition get_surface_feedback :: "'o \<Rightarrow> nat \<Rightarrow> 's \<Rightarrow> ('f, 'd) feedback option \<Rightarrow> ('f, 'd, 'o, 's) feedback_state \<Rightarrow> ('f, 'd, 'o, 's) feedback_state" where
  "get_surface_feedback x v s new_feedback st =
     (let st = st\<lparr>fs_objects := (fs_objects st)(x \<mapsto> (v, Some s))\<rparr>;
          (feedback, instances) = (case fs_surfaces st s of
             None \<Rightarrow> (case new_feedback of Some f \<Rightarrow> f | None \<Rightarrow> fs_default st, [])
           | Some state \<Rightarrow> state);
          st = st\<lparr>fs_surfaces := (fs_surfaces st)(s \<mapsto> (feedback, instances @ [x]))\<rparr>
      in send_to feedback x st)"

definition feedback_destroy :: "'o \<Rightarrow> ('f, 'd, 'o, 's) feedback_state \<Rightarrow> ('f, 'd, 'o, 's) feedback_state" where
  "feedback_destroy x st =
     (case fs_objects st x of
        None \<Rightarrow> st
      | Some (v, surface) \<Rightarrow>
          (let st = st\<lparr>fs_known := filter (\<lambda>y. y \<noteq> x) (fs_known st)\<rparr>;
               st = (case surface of
                       Some s \<Rightarrow>
                         if s \<in> fs_dead st then st
                         else (case fs_surfaces st s of
                                 Some (f, instances) \<Rightarrow> st\<lparr>fs_surfaces := (fs_surfaces st)(s \<mapsto> (f, filter (\<lambda>y. y \<noteq> x) instances))\<rparr>
                               | None \<Rightarrow> st)
                     | None \<Rightarrow> st)
           in st\<lparr>fs_objects := (fs_objects st)(x := None)\<rparr>))"

definition set_default_feedback :: "('f, 'd) feedback \<Rightarrow> ('f, 'd, 'o, 's) feedback_state \<Rightarrow> ('f, 'd, 'o, 's) feedback_state" where
  "set_default_feedback f st =
     (if feedback_eq (fs_default st) f then st else (fold (send_to f) (fs_known st) st)\<lparr>fs_default := f\<rparr>)"

definition set_surface_feedback :: "'s \<Rightarrow> ('f, 'd) feedback \<Rightarrow> ('f, 'd, 'o, 's) feedback_state \<Rightarrow> ('f, 'd, 'o, 's) feedback_state" where
  "set_surface_feedback s f st =
     (case fs_surfaces st s of
        None \<Rightarrow> st
      | Some (current, instances) \<Rightarrow>
          if feedback_eq current f then st
          else (let st = fold (send_to f) instances st in st\<lparr>fs_surfaces := (fs_surfaces st)(s \<mapsto> (f, instances))\<rparr>))"

text \<open>An object goes without a request when its client does; the state of a surface goes with the surface.\<close>

definition feedback_object_dies :: "'o \<Rightarrow> ('f, 'd, 'o, 's) feedback_state \<Rightarrow> ('f, 'd, 'o, 's) feedback_state" where
  "feedback_object_dies x st = st\<lparr>fs_objects := (fs_objects st)(x := None)\<rparr>"

definition feedback_surface_dies :: "'s \<Rightarrow> ('f, 'd, 'o, 's) feedback_state \<Rightarrow> ('f, 'd, 'o, 's) feedback_state" where
  "feedback_surface_dies s st = st\<lparr>fs_surfaces := (fs_surfaces st)(s := None), fs_dead := insert s (fs_dead st)\<rparr>"

section \<open>Runs\<close>

text \<open>New objects have new identities, and feedback is asked for surfaces that are alive.\<close>

inductive feedback_run :: "('f, 'd, 'o, 's) feedback_state \<Rightarrow> 'o set \<Rightarrow> bool" where
  fr_new: "sendable f \<Longrightarrow> feedback_run (feedback_global f) {}"
| fr_default: "feedback_run st used \<Longrightarrow> x \<notin> used \<Longrightarrow> feedback_run (get_default_feedback x v st) (insert x used)"
| fr_surface: "feedback_run st used \<Longrightarrow> x \<notin> used \<Longrightarrow> s \<notin> fs_dead st \<Longrightarrow> \<forall>f. new_feedback = Some f \<longrightarrow> sendable f \<Longrightarrow>
    feedback_run (get_surface_feedback x v s new_feedback st) (insert x used)"
| fr_destroy: "feedback_run st used \<Longrightarrow> feedback_run (feedback_destroy x st) used"
| fr_set_default: "feedback_run st used \<Longrightarrow> sendable f \<Longrightarrow> feedback_run (set_default_feedback f st) used"
| fr_set_surface: "feedback_run st used \<Longrightarrow> sendable f \<Longrightarrow> feedback_run (set_surface_feedback s f st) used"
| fr_object_dies: "feedback_run st used \<Longrightarrow> feedback_run (feedback_object_dies x st) used"
| fr_surface_dies: "feedback_run st used \<Longrightarrow> feedback_run (feedback_surface_dies s st) used"

section \<open>What clients know\<close>

definition client_of :: "('f, 'd, 'o, 's) feedback_state \<Rightarrow> 'o \<Rightarrow> ('f, 'd) feedback_client" where
  "client_of st x = fold client_event (fs_sent st x) client_start"

text \<open>Live objects are on the list for what they were asked for, and only there.\<close>

definition objects_wired :: "('f, 'd, 'o, 's) feedback_state \<Rightarrow> 'o set \<Rightarrow> bool" where
  "objects_wired st used \<longleftrightarrow>
     (\<forall>x. x \<notin> used \<longrightarrow> fs_objects st x = None \<and> x \<notin> set (fs_known st) \<and> (\<forall>s f xs. fs_surfaces st s = Some (f, xs) \<longrightarrow> x \<notin> set xs)) \<and>
     (\<forall>x v. fs_objects st x = Some (v, None) \<longrightarrow> x \<in> set (fs_known st)) \<and>
     (\<forall>x v s. fs_objects st x = Some (v, Some s) \<longrightarrow> s \<notin> fs_dead st \<longrightarrow> fs_surfaces st s \<noteq> None) \<and>
     (\<forall>x\<in>set (fs_known st). \<forall>v s. fs_objects st x \<noteq> Some (v, Some s)) \<and>
     (\<forall>s f xs x v t. fs_surfaces st s = Some (f, xs) \<longrightarrow> fs_objects st x = Some (v, t) \<longrightarrow> (x \<in> set xs \<longleftrightarrow> t = Some s)) \<and>
     (\<forall>s\<in>fs_dead st. fs_surfaces st s = None)"

text \<open>The client of each live object understands the feedback stored for it.\<close>

definition clients_informed :: "('f, 'd, 'o, 's) feedback_state \<Rightarrow> bool" where
  "clients_informed st \<longleftrightarrow>
     (\<forall>x v. fs_objects st x = Some (v, None) \<longrightarrow> fc_current (client_of st x) = feedback_meaning v (fs_default st)) \<and>
     (\<forall>x v s f xs. fs_objects st x = Some (v, Some s) \<longrightarrow> fs_surfaces st s = Some (f, xs) \<longrightarrow>
        fc_current (client_of st x) = feedback_meaning v f)"

definition feedback_state_ok :: "('f, 'd, 'o, 's) feedback_state \<Rightarrow> bool" where
  "feedback_state_ok st \<longleftrightarrow> sendable (fs_default st) \<and> (\<forall>s f xs. fs_surfaces st s = Some (f, xs) \<longrightarrow> sendable f) \<and>
     (\<forall>x. fc_tranches (client_of st x) = [])"

section \<open>Sending to objects\<close>

lemma send_to_same [simp]:
  "fs_default (send_to f x st) = fs_default st" "fs_known (send_to f x st) = fs_known st"
  "fs_surfaces (send_to f x st) = fs_surfaces st" "fs_dead (send_to f x st) = fs_dead st" "fs_objects (send_to f x st) = fs_objects st"
  by (auto simp: send_to_def split: option.splits)

lemma client_of_send_to:
  "client_of (send_to f x st) y =
     (case fs_objects st x of
        Some (v, _) \<Rightarrow> if y = x then fold client_event (feedback_send v f) (client_of st y) else client_of st y
      | None \<Rightarrow> client_of st y)"
  by (simp add: send_to_def client_of_def split: option.split)

lemma send_to_client:
  assumes "sendable f" "fc_tranches (client_of st y) = []"
  shows "fc_tranches (client_of (send_to f x st) y) = []"
    "fs_objects st x = Some (v, s) \<Longrightarrow> y = x \<Longrightarrow> fc_current (client_of (send_to f x st) y) = feedback_meaning v f"
    "y \<noteq> x \<Longrightarrow> client_of (send_to f x st) y = client_of st y"
  using assms(2) client_understands[OF assms] by (cases "y = x"; simp add: client_of_send_to split: option.split)+

lemma send_all_same [simp]:
  "fs_default (fold (send_to f) xs st) = fs_default st" "fs_known (fold (send_to f) xs st) = fs_known st"
  "fs_surfaces (fold (send_to f) xs st) = fs_surfaces st" "fs_dead (fold (send_to f) xs st) = fs_dead st"
  "fs_objects (fold (send_to f) xs st) = fs_objects st"
  by (induction xs arbitrary: st) simp_all

lemma send_all_client:
  assumes "sendable f" "\<forall>y. fc_tranches (client_of st y) = []"
  shows "(\<forall>y. fc_tranches (client_of (fold (send_to f) xs st) y) = []) \<and>
    (\<forall>y. y \<notin> set xs \<longrightarrow> client_of (fold (send_to f) xs st) y = client_of st y) \<and>
    (\<forall>y v s. y \<in> set xs \<longrightarrow> fs_objects st y = Some (v, s) \<longrightarrow> fc_current (client_of (fold (send_to f) xs st) y) = feedback_meaning v f)"
  using assms(2)
proof (induction xs arbitrary: st)
  case (Cons x xs)
  have t: "\<forall>y. fc_tranches (client_of (send_to f x st) y) = []" 
    by (intro allI send_to_client(1)[OF assms(1)]) (simp only: Cons.prems)
  have prem: "fc_tranches (client_of st y) = []" for y by (simp only: Cons.prems)
  from Cons.IH[OF t] have I: "fc_tranches (client_of (fold (send_to f) xs (send_to f x st)) y) = []"
    "y \<notin> set xs \<Longrightarrow> client_of (fold (send_to f) xs (send_to f x st)) y = client_of (send_to f x st) y"
    "y \<in> set xs \<Longrightarrow> fs_objects st y = Some (v, s) \<Longrightarrow> fc_current (client_of (fold (send_to f) xs (send_to f x st)) y) = feedback_meaning v f"
    for y v s by simp_all
  have "fc_current (client_of (fold (send_to f) xs (send_to f x st)) y) = feedback_meaning v f"
    if y: "y \<in> set (x # xs)" "fs_objects st y = Some (v, s)" for y v s
  proof (cases "y \<in> set xs")
    case True
    from I(3)[OF this y(2)] show ?thesis .
  next
    case False
    then show ?thesis using I(2)[OF False] y send_to_client(2)[OF assms(1) prem, of x v s y] by simp
  qed
  moreover have "client_of (fold (send_to f) xs (send_to f x st)) y = client_of st y" if "y \<notin> set (x # xs)" for y
    using I(2)[of y] that send_to_client(3)[OF assms(1) prem, of y x] by simp
  ultimately show ?case using I(1) by simp
qed simp


section \<open>Objects stay on their lists\<close>

lemma wired_global: "objects_wired (feedback_global f) {}"
  by (simp add: objects_wired_def feedback_global_def)

lemma wired_default: "objects_wired st used \<Longrightarrow> x \<notin> used \<Longrightarrow> objects_wired (get_default_feedback x v st) (insert x used)"
  unfolding objects_wired_def get_default_feedback_def Let_def by (auto split: if_splits)

lemma wired_destroy: "objects_wired st used \<Longrightarrow> objects_wired (feedback_destroy x st) used"
  unfolding objects_wired_def feedback_destroy_def Let_def by (auto split: if_splits option.splits)

lemma wired_set_default: "objects_wired st used \<Longrightarrow> objects_wired (set_default_feedback f st) used"
  unfolding objects_wired_def set_default_feedback_def by simp

lemma wired_set_surface: "objects_wired st used \<Longrightarrow> objects_wired (set_surface_feedback s f st) used"
  unfolding objects_wired_def set_surface_feedback_def Let_def by (auto split: if_splits option.splits)

lemma wired_dies:
  "objects_wired st used \<Longrightarrow> objects_wired (feedback_object_dies x st) used"
  "objects_wired st used \<Longrightarrow> objects_wired (feedback_surface_dies s st) used"
  unfolding objects_wired_def feedback_object_dies_def feedback_surface_dies_def by auto

section \<open>Clients stay informed\<close>

lemma get_default_parts [simp]:
  "fs_default (get_default_feedback x v st) = fs_default st" "fs_surfaces (get_default_feedback x v st) = fs_surfaces st"
  "fs_objects (get_default_feedback x v st) = (fs_objects st)(x \<mapsto> (v, None))"
  by (simp_all add: get_default_feedback_def Let_def)

lemma get_default_client:
  "client_of (get_default_feedback x v st) y =
     (if y = x then fold client_event (feedback_send v (fs_default st)) (client_of st y) else client_of st y)"
  by (simp add: get_default_feedback_def Let_def client_of_send_to) (simp add: client_of_def)

text \<open>The feedback stored for a surface when one more object asks for it.\<close>

definition surface_feedback :: "'s \<Rightarrow> ('f, 'd) feedback option \<Rightarrow> ('f, 'd, 'o, 's) feedback_state \<Rightarrow> ('f, 'd) feedback" where
  "surface_feedback s new_feedback st =
     (case fs_surfaces st s of Some (f, _) \<Rightarrow> f | None \<Rightarrow> (case new_feedback of Some f \<Rightarrow> f | None \<Rightarrow> fs_default st))"

lemma get_surface_parts:
  "fs_known (get_surface_feedback x v s new_feedback st) = fs_known st"
  "fs_dead (get_surface_feedback x v s new_feedback st) = fs_dead st"
  "fs_default (get_surface_feedback x v s new_feedback st) = fs_default st"
  "fs_surfaces (get_surface_feedback x v s new_feedback st) =
     (fs_surfaces st)(s \<mapsto> (surface_feedback s new_feedback st, (case fs_surfaces st s of Some (_, xs) \<Rightarrow> xs | None \<Rightarrow> []) @ [x]))"
  "fs_objects (get_surface_feedback x v s new_feedback st) = (fs_objects st)(x \<mapsto> (v, Some s))"
  "client_of (get_surface_feedback x v s new_feedback st) y =
     (if y = x then fold client_event (feedback_send v (surface_feedback s new_feedback st)) (client_of st y) else client_of st y)"
  by (simp_all add: get_surface_feedback_def Let_def surface_feedback_def client_of_send_to split: option.split)
    (simp_all add: client_of_def)

lemma wired_present: "objects_wired st used \<Longrightarrow> fs_objects st y = Some (w, Some s) \<Longrightarrow> s \<notin> fs_dead st \<Longrightarrow> fs_surfaces st s \<noteq> None"
  unfolding objects_wired_def by blast

lemma wired_surface:
  assumes W: "objects_wired st used" and x: "x \<notin> used" and s: "s \<notin> fs_dead st"
  shows "objects_wired (get_surface_feedback x v s new_feedback st) (insert x used)"
proof -
  note parts = get_surface_parts
  have none: "fs_surfaces st s = None \<Longrightarrow> fs_objects st y \<noteq> Some (w, Some s)" for y w
    using wired_present[OF W _ s] by blast
  note W = W[unfolded objects_wired_def]
  show ?thesis
  proof (cases "fs_surfaces st s")
    case None
    then show ?thesis unfolding objects_wired_def parts None using W x s none[OF None] by (auto split: if_splits)
  next
    case (Some state)
    obtain f xs where st: "state = (f, xs)" by fastforce
    show ?thesis unfolding objects_wired_def parts Some st using W x s Some st by (auto split: if_splits)
  qed
qed

lemma destroy_parts:
  "fs_default (feedback_destroy x st) = fs_default st" "fs_objects (feedback_destroy x st) y = (if y = x then None else fs_objects st y)"
  "fs_surfaces (feedback_destroy x st) s = Some (f, xs) \<Longrightarrow> \<exists>ys. fs_surfaces st s = Some (f, ys)"
  "client_of (feedback_destroy x st) y = client_of st y"
  by (auto simp: feedback_destroy_def Let_def client_of_def split: option.splits if_splits)

lemma ok_default:
  assumes "feedback_state_ok st" "clients_informed st"
  shows "feedback_state_ok (get_default_feedback x v st) \<and> clients_informed (get_default_feedback x v st)"
proof -
  have s: "sendable (fs_default st)" "fc_tranches (client_of st y) = []" for y using assms(1) by (simp_all add: feedback_state_ok_def)
  have u: "fc_current (fold client_event (feedback_send w (fs_default st)) (client_of st y)) = feedback_meaning w (fs_default st)"
    "fc_tranches (fold client_event (feedback_send w (fs_default st)) (client_of st y)) = []" for w y
    using client_understands[OF s] by simp_all
  show ?thesis using assms by (simp add: feedback_state_ok_def clients_informed_def get_default_client u)
qed

lemma ok_surface:
  assumes "feedback_state_ok st" "clients_informed st" "\<forall>f. new_feedback = Some f \<longrightarrow> sendable f" "objects_wired st used" "x \<notin> used" "s \<notin> fs_dead st"
  shows "feedback_state_ok (get_surface_feedback x v s new_feedback st) \<and> clients_informed (get_surface_feedback x v s new_feedback st)"
proof -
  have s: "sendable (surface_feedback s new_feedback st)" "fc_tranches (client_of st y) = []" for y
    using assms(1,3) by (auto simp: feedback_state_ok_def surface_feedback_def split: option.split)
  let ?f = "surface_feedback s new_feedback st"
  have u: "fc_current (fold client_event (feedback_send w ?f) (client_of st y)) = feedback_meaning w ?f"
    "fc_tranches (fold client_event (feedback_send w ?f) (client_of st y)) = []" for w y
    using client_understands[OF s] by simp_all
  have old: "fc_current (client_of st y) = feedback_meaning w ?f" if y: "fs_objects st y = Some (w, Some s)" for y w
  proof -
    have "fs_surfaces st s \<noteq> None" by (rule wired_present[OF assms(4) y assms(6)])
    then obtain f xs where f: "fs_surfaces st s = Some (f, xs)" by auto
    then show ?thesis using assms(2) y(1) by (simp add: clients_informed_def surface_feedback_def)
  qed
  note parts = get_surface_parts
  have "feedback_state_ok (get_surface_feedback x v s new_feedback st)"
    unfolding feedback_state_ok_def parts using assms(1) s(1) u(2) by (simp add: feedback_state_ok_def)
  moreover have "clients_informed (get_surface_feedback x v s new_feedback st)"
    unfolding clients_informed_def parts using assms(2) u(1) old by (simp add: clients_informed_def split: if_splits)
  ultimately show ?thesis by (rule conjI)
qed

lemma ok_destroy:
  assumes "feedback_state_ok st" "clients_informed st"
  shows "feedback_state_ok (feedback_destroy x st) \<and> clients_informed (feedback_destroy x st)"
proof -
  have "sendable f" if "fs_surfaces (feedback_destroy x st) s = Some (f, xs)" for s f xs
    using destroy_parts(3)[OF that] assms(1) unfolding feedback_state_ok_def by blast
  then have "feedback_state_ok (feedback_destroy x st)" using assms(1) by (auto simp: feedback_state_ok_def destroy_parts(1,4))
  moreover have "fc_current (client_of st y) = feedback_meaning v f"
    if y: "fs_objects st y = Some (v, Some s)" "fs_surfaces (feedback_destroy x st) s = Some (f, xs)" for y v s f xs
  proof -
    obtain ys where "fs_surfaces st s = Some (f, ys)" using destroy_parts(3)[OF y(2)] by (elim exE)
    then show ?thesis using assms(2) y(1) by (simp add: clients_informed_def)
  qed
  then have "clients_informed (feedback_destroy x st)"
    using assms(2) unfolding clients_informed_def destroy_parts(1,2,4) by (simp split: if_splits) blast
  ultimately show ?thesis by (rule conjI)
qed

lemma client_of_store [simp]:
  "client_of (st\<lparr>fs_default := f\<rparr>) = client_of st" "client_of (st\<lparr>fs_surfaces := g\<rparr>) = client_of st"
  "client_of (st\<lparr>fs_objects := h\<rparr>) = client_of st" "client_of (st\<lparr>fs_dead := d\<rparr>) = client_of st"
  by (simp_all add: client_of_def fun_eq_iff)

lemma ok_set_default:
  assumes "feedback_state_ok st" "clients_informed st" "objects_wired st used" "sendable f"
  shows "feedback_state_ok (set_default_feedback f st) \<and> clients_informed (set_default_feedback f st)"
proof (cases "feedback_eq (fs_default st) f")
  case False
  have t: "\<forall>y. fc_tranches (client_of st y) = []" using assms(1) by (simp add: feedback_state_ok_def)
  note A = send_all_client[OF assms(4) t, of "fs_known st"]
  have eq: "set_default_feedback f st = (fold (send_to f) (fs_known st) st)\<lparr>fs_default := f\<rparr>" using False by (simp add: set_default_feedback_def)
  have "feedback_state_ok (set_default_feedback f st)" unfolding eq using assms(1,4) A by (simp add: feedback_state_ok_def)
  moreover have "client_of (fold (send_to f) (fs_known st) st) y = client_of st y" if "fs_objects st y = Some (v, Some s)" for y v s
    using A assms(3) that unfolding objects_wired_def by blast
  moreover have "fc_current (client_of (fold (send_to f) (fs_known st) st) y) = feedback_meaning v f" if "fs_objects st y = Some (v, None)" for y v
    using A assms(3) that unfolding objects_wired_def by blast
  ultimately show ?thesis using assms(2) by (simp add: clients_informed_def eq)
qed (use assms in \<open>simp add: set_default_feedback_def\<close>)

lemma ok_set_surface:
  assumes "feedback_state_ok st" "clients_informed st" "objects_wired st used" "sendable f"
  shows "feedback_state_ok (set_surface_feedback s f st) \<and> clients_informed (set_surface_feedback s f st)"
proof (cases "fs_surfaces st s")
  case (Some state)
  then obtain g xs where s: "fs_surfaces st s = Some (g, xs)" by (cases state) auto
  show ?thesis
  proof (cases "feedback_eq g f")
    case False
    have t: "\<forall>y. fc_tranches (client_of st y) = []" using assms(1) by (simp add: feedback_state_ok_def)
    note A = send_all_client[OF assms(4) t, of xs]
    have eq: "set_surface_feedback s f st = (fold (send_to f) xs st)\<lparr>fs_surfaces := (fs_surfaces st)(s \<mapsto> (f, xs))\<rparr>"
      using False by (simp add: set_surface_feedback_def s Let_def)
    have on: "y \<in> set xs \<longleftrightarrow> t = Some s" if "fs_objects st y = Some (v, t)" for y v t
      using assms(3) s that unfolding objects_wired_def by blast
    have "feedback_state_ok (set_surface_feedback s f st)" unfolding eq using assms(1,4) A by (simp add: feedback_state_ok_def)
    moreover have "client_of (fold (send_to f) xs st) y = client_of st y" if "fs_objects st y = Some (v, t)" "t \<noteq> Some s" for y v t
      using A on[OF that(1)] that(2) by blast
    moreover have "fc_current (client_of (fold (send_to f) xs st) y) = feedback_meaning v f" if "fs_objects st y = Some (v, Some s)" for y v
      using A on[OF that] that by blast
    ultimately show ?thesis using assms(2) by (simp add: clients_informed_def eq)
  qed (use assms s in \<open>simp add: set_surface_feedback_def\<close>)
qed (use assms in \<open>simp add: set_surface_feedback_def\<close>)

lemma ok_dies:
  assumes "feedback_state_ok st" "clients_informed st"
  shows "feedback_state_ok (feedback_object_dies x st) \<and> clients_informed (feedback_object_dies x st)"
    "feedback_state_ok (feedback_surface_dies s st) \<and> clients_informed (feedback_surface_dies s st)"
  using assms by (simp_all add: feedback_state_ok_def clients_informed_def feedback_object_dies_def feedback_surface_dies_def)

lemma feedback_run_inv: "feedback_run st used \<Longrightarrow> feedback_state_ok st \<and> clients_informed st \<and> objects_wired st used"
proof (induction rule: feedback_run.induct)
  case (fr_new f)
  then show ?case
    using wired_global[of f] by (simp add: feedback_state_ok_def clients_informed_def) (simp add: feedback_global_def client_of_def client_start_def)
next
  case (fr_default st used x v)
  then show ?case using ok_default[of st x v] wired_default[of st used x v] by blast
next
  case (fr_surface st used x s new_feedback v)
  then show ?case using ok_surface[of st new_feedback used x s v] wired_surface[of st used x s v new_feedback] by blast
next
  case (fr_destroy st used x)
  then show ?case using ok_destroy[of st x] wired_destroy[of st used x] by blast
next
  case (fr_set_default st used f)
  then show ?case using ok_set_default[of st used f] wired_set_default[of st used f] by blast
next
  case (fr_set_surface st used f s)
  then show ?case using ok_set_surface[of st used f s] wired_set_surface[of st used s f] by blast
next
  case (fr_object_dies st used x)
  then show ?case using ok_dies(1)[of st x] wired_dies(1)[of st used x] by blast
next
  case (fr_surface_dies st used s)
  then show ?case using ok_dies(2)[of st s] wired_dies(2)[of st used s] by blast
qed

text \<open>C34. Clients are kept informed: whatever requests come and whatever the compositor sets, the events sent to a
  feedback object that lives leave its client with exactly the tranches of the feedback stored for it, the
  default one or that of its surface, as far as they are for its version.\<close>

theorem feedback_clients_informed:
  assumes "feedback_run st used" and "fs_objects st x = Some (v, target)"
  shows "case target of
      None \<Rightarrow> fc_current (client_of st x) = feedback_meaning v (fs_default st)
    | Some s \<Rightarrow> s \<notin> fs_dead st \<longrightarrow> (\<exists>f xs. fs_surfaces st s = Some (f, xs) \<and> fc_current (client_of st x) = feedback_meaning v f)"
proof (cases target)
  case None
  then show ?thesis using feedback_run_inv[OF assms(1)] assms(2) by (simp add: clients_informed_def)
next
  case (Some s)
  have inv: "clients_informed st" "objects_wired st used" using feedback_run_inv[OF assms(1)] by simp_all
  have "\<exists>f xs. fs_surfaces st s = Some (f, xs) \<and> fc_current (client_of st x) = feedback_meaning v f" if alive: "s \<notin> fs_dead st"
  proof -
    obtain f xs where "fs_surfaces st s = Some (f, xs)" using wired_present[OF inv(2) _ alive] assms(2) Some by fast
    then show ?thesis using inv(1) assms(2) Some by (auto simp: clients_informed_def)
  qed
  then show ?thesis using Some by simp
qed

section \<open>Examples\<close>

definition example_feedback :: "nat list \<Rightarrow> (nat, nat) feedback" where
  "example_feedback fs = feedback_build (feedback_builder_new 1 fs)"

lemma example_feedback_parts:
  "fe_formats (example_feedback [10]) = [10]" "fe_formats (example_feedback [10, 20]) = [10, 20]"
  "fe_tranches (example_feedback [10]) = [\<lparr>tc_device = 1, tc_flags = {Sampling}, tc_indices = [0], tc_versions = (3, 6)\<rparr>]"
  "fe_tranches (example_feedback [10, 20]) = [\<lparr>tc_device = 1, tc_flags = {Sampling}, tc_indices = [0, 1], tc_versions = (3, 6)\<rparr>]"
  by (simp_all add: example_feedback_def feedback_build_def feedback_builder_new_def set_insert_def upt_rec)

definition example_feedback_state :: "(nat, nat, nat, nat) feedback_state" where
  "example_feedback_state = set_default_feedback (example_feedback [10, 20]) (get_default_feedback 4 6 (feedback_global (example_feedback [10])))"

theorem feedback_clients_informed_witness:
  "fc_current (client_of example_feedback_state 4) = [(1, {Sampling}, [10, 20])]"
proof -
  have send: "sendable (example_feedback [10])" "sendable (example_feedback [10, 20])"
    by (simp_all add: sendable_def example_feedback_parts)
  have "feedback_run example_feedback_state {4}" unfolding example_feedback_state_def
    by (rule fr_set_default[OF fr_default[OF fr_new]]) (simp_all add: send)
  from feedback_clients_informed[OF this, of 4 6 None] show ?thesis
    by (simp add: example_feedback_state_def set_default_feedback_def feedback_global_def feedback_eq_def example_feedback_parts
        feedback_meaning_def in_versions_def sent_flags_def)
qed

text \<open>A default feedback with the formats in another order is not taken over: clients keep the old tranches.\<close>

theorem reordered_feedback_ignored:
  "set_default_feedback (scanout_feedback [20, 10]) (feedback_global (scanout_feedback [10, 20])) = feedback_global (scanout_feedback [10, 20])"
  using feedback_order_ignored by (simp add: set_default_feedback_def feedback_global_def)

end
