(* ===== verification/Session_Lock.thy ===== *)
theory Session_Lock
  imports Prelude
begin

text \<open>
  Locking the session: the manager, the confirmation objects and the lock objects of
  \<open>src/wayland/session_lock/mod.rs\<close> and \<open>src/wayland/session_lock/lock.rs\<close>. Protocol objects, surfaces and
  outputs are types with equality. What happens to the compositor and to clients is a list of events.
\<close>

section \<open>State\<close>

datatype 'l lock_status = Unlocked | Locked 'l | Defunct

definition is_locked_by :: "'l lock_status \<Rightarrow> 'l \<Rightarrow> bool" where
  "is_locked_by st l \<longleftrightarrow> st = Locked l"

text \<open>
  The confirmations the compositor still holds, for each lock object whether it was finished and the
  outputs it covers, the objects that exist, and the surfaces with the role and with another one.
\<close>

record ('l, 'o, 's) lock_world =
  lw_status :: "'l lock_status"
  lw_lockers :: "'l set"
  lw_done :: "'l \<Rightarrow> bool"
  lw_outputs :: "'l \<Rightarrow> 'o list"
  lw_alive :: "'l set"
  lw_role :: "'s set"
  lw_other_role :: "'s set"

datatype lock_error = Lk_role | Lk_duplicate_output | Lk_already_constructed | Lk_invalid_unlock | Lk_invalid_destroy

datatype ('l, 'o, 's) lock_event =
  Lk_asked 'l
| Lk_locked 'l
| Lk_finished 'l
| Lk_new_surface 'l 's 'o
| Lk_unlock 'l
| Lk_error 'l lock_error

definition lock_manager_new :: "'s set \<Rightarrow> ('l, 'o, 's) lock_world" where
  "lock_manager_new others = \<lparr>lw_status = Unlocked, lw_lockers = {}, lw_done = (\<lambda>_. False), lw_outputs = (\<lambda>_. []), lw_alive = {},
     lw_role = {}, lw_other_role = others\<rparr>"

section \<open>Operations\<close>

type_synonym ('l, 'o, 's) lock_step = "('l, 'o, 's) lock_world \<times> ('l, 'o, 's) lock_event list"

text \<open>The request \<open>lock\<close> hands a confirmation to the compositor, which uses it or drops it.\<close>

definition lock_request :: "'l \<Rightarrow> ('l, 'o, 's) lock_world \<Rightarrow> ('l, 'o, 's) lock_step" where
  "lock_request l w =
     (w\<lparr>lw_lockers := insert l (lw_lockers w), lw_done := (lw_done w)(l := False), lw_outputs := (lw_outputs w)(l := []),
        lw_alive := insert l (lw_alive w)\<rparr>, [Lk_asked l])"

definition locker_drop :: "'l \<Rightarrow> ('l, 'o, 's) lock_world \<Rightarrow> ('l, 'o, 's) lock_step" where
  "locker_drop l w =
     (if l \<in> lw_lockers w
      then (w\<lparr>lw_lockers := lw_lockers w - {l}, lw_done := (lw_done w)(l := True)\<rparr>, [Lk_finished l])
      else (w, []))"

text \<open>Confirming takes the lock out, so that dropping the confirmation then does nothing.\<close>

definition locker_lock :: "'l \<Rightarrow> ('l, 'o, 's) lock_world \<Rightarrow> ('l, 'o, 's) lock_step" where
  "locker_lock l w =
     (if l \<in> lw_lockers w then (w\<lparr>lw_lockers := lw_lockers w - {l}, lw_status := Locked l\<rparr>, [Lk_locked l]) else (w, []))"

definition get_lock_surface :: "'l \<Rightarrow> 's \<Rightarrow> 'o \<Rightarrow> bool \<Rightarrow> ('l, 'o, 's) lock_world \<Rightarrow> ('l, 'o, 's) lock_step" where
  "get_lock_surface l s out has_buffer w =
     (if s \<in> lw_other_role w then (w, [Lk_error l Lk_role])
      else
        (let w = w\<lparr>lw_role := insert s (lw_role w)\<rparr>
         in if out \<in> set (lw_outputs w l) then (w, [Lk_error l Lk_duplicate_output])
            else
              (let w = w\<lparr>lw_outputs := (lw_outputs w)(l := lw_outputs w l @ [out])\<rparr>
               in if has_buffer then (w, [Lk_error l Lk_already_constructed])
                  else if \<not> lw_done w l then (w, [Lk_new_surface l s out])
                  else (w, []))))"

definition lock_destroyed :: "'l \<Rightarrow> ('l, 'o, 's) lock_world \<Rightarrow> ('l, 'o, 's) lock_world" where
  "lock_destroyed l w =
     w\<lparr>lw_alive := lw_alive w - {l}, lw_status := (if is_locked_by (lw_status w) l then Defunct else lw_status w)\<rparr>"

text \<open>The two destructors: the object is destroyed after the request.\<close>

definition unlock_and_destroy :: "'l \<Rightarrow> ('l, 'o, 's) lock_world \<Rightarrow> ('l, 'o, 's) lock_step" where
  "unlock_and_destroy l w =
     (if \<not> is_locked_by (lw_status w) l then (lock_destroyed l w, [Lk_error l Lk_invalid_unlock])
      else (lock_destroyed l (w\<lparr>lw_status := Unlocked\<rparr>), [Lk_unlock l]))"

definition lock_destroy :: "'l \<Rightarrow> ('l, 'o, 's) lock_world \<Rightarrow> ('l, 'o, 's) lock_step" where
  "lock_destroy l w = (lock_destroyed l w, if is_locked_by (lw_status w) l then [Lk_error l Lk_invalid_destroy] else [])"

section \<open>Runs\<close>

text \<open>
  The events so far and the objects created so far. Requests come from objects that exist; an object is
  also destroyed without a request, when its client goes.
\<close>

inductive lock_run :: "('l, 'o, 's) lock_world \<Rightarrow> 'l set \<Rightarrow> ('l, 'o, 's) lock_event list \<Rightarrow> bool" where
  lk_new: "lock_run (lock_manager_new others) {} []"
| lk_request: "lock_run w used es \<Longrightarrow> l \<notin> used \<Longrightarrow> lock_request l w = (w', ev) \<Longrightarrow> lock_run w' (insert l used) (es @ ev)"
| lk_drop: "lock_run w used es \<Longrightarrow> locker_drop l w = (w', ev) \<Longrightarrow> lock_run w' used (es @ ev)"
| lk_lock: "lock_run w used es \<Longrightarrow> locker_lock l w = (w', ev) \<Longrightarrow> lock_run w' used (es @ ev)"
| lk_surface: "lock_run w used es \<Longrightarrow> l \<in> lw_alive w \<Longrightarrow> get_lock_surface l s out b w = (w', ev) \<Longrightarrow> lock_run w' used (es @ ev)"
| lk_unlock: "lock_run w used es \<Longrightarrow> l \<in> lw_alive w \<Longrightarrow> unlock_and_destroy l w = (w', ev) \<Longrightarrow> lock_run w' used (es @ ev)"
| lk_destroy: "lock_run w used es \<Longrightarrow> l \<in> lw_alive w \<Longrightarrow> lock_destroy l w = (w', ev) \<Longrightarrow> lock_run w' used (es @ ev)"
| lk_gone: "lock_run w used es \<Longrightarrow> l \<in> lw_alive w \<Longrightarrow> lock_run (lock_destroyed l w) used es"
| lk_role: "lock_run w used es \<Longrightarrow> s \<notin> lw_role w \<Longrightarrow> lock_run (w\<lparr>lw_other_role := insert s (lw_other_role w)\<rparr>) used es"

section \<open>What a lock promises\<close>

text \<open>
  The specification is an automaton over the events: who holds the session, and which lock objects were
  answered. Only the holder can unlock, an object is answered at most once, and only objects that were not
  refused get surfaces, at most one for an output. Whether clients live does not occur in it.
\<close>

record ('l, 'o, 's) lock_spec =
  sp_holder :: "'l option"
  sp_asked :: "'l set"
  sp_answered :: "'l set"
  sp_refused :: "'l set"
  sp_covered :: "('l \<times> 'o) set"

fun lock_allowed :: "('l, 'o, 's) lock_event \<Rightarrow> ('l, 'o, 's) lock_spec \<Rightarrow> bool" where
  "lock_allowed (Lk_asked l) sp \<longleftrightarrow> l \<notin> sp_asked sp"
| "lock_allowed (Lk_locked l) sp \<longleftrightarrow> l \<in> sp_asked sp \<and> l \<notin> sp_answered sp"
| "lock_allowed (Lk_finished l) sp \<longleftrightarrow> l \<in> sp_asked sp \<and> l \<notin> sp_answered sp"
| "lock_allowed (Lk_new_surface l s out) sp \<longleftrightarrow> l \<in> sp_asked sp \<and> l \<notin> sp_refused sp \<and> (l, out) \<notin> sp_covered sp"
| "lock_allowed (Lk_unlock l) sp \<longleftrightarrow> sp_holder sp = Some l"
| "lock_allowed (Lk_error l e) sp \<longleftrightarrow> True"

fun lock_next :: "('l, 'o, 's) lock_event \<Rightarrow> ('l, 'o, 's) lock_spec \<Rightarrow> ('l, 'o, 's) lock_spec" where
  "lock_next (Lk_asked l) sp = sp\<lparr>sp_asked := insert l (sp_asked sp)\<rparr>"
| "lock_next (Lk_locked l) sp = sp\<lparr>sp_holder := Some l, sp_answered := insert l (sp_answered sp)\<rparr>"
| "lock_next (Lk_finished l) sp = sp\<lparr>sp_answered := insert l (sp_answered sp), sp_refused := insert l (sp_refused sp)\<rparr>"
| "lock_next (Lk_new_surface l s out) sp = sp\<lparr>sp_covered := insert (l, out) (sp_covered sp)\<rparr>"
| "lock_next (Lk_unlock l) sp = sp\<lparr>sp_holder := None\<rparr>"
| "lock_next (Lk_error l e) sp = sp"

definition lock_spec_start :: "('l, 'o, 's) lock_spec" where
  "lock_spec_start = \<lparr>sp_holder = None, sp_asked = {}, sp_answered = {}, sp_refused = {}, sp_covered = {}\<rparr>"

fun lock_trace :: "('l, 'o, 's) lock_event list \<Rightarrow> ('l, 'o, 's) lock_spec \<Rightarrow> ('l, 'o, 's) lock_spec option" where
  "lock_trace [] sp = Some sp"
| "lock_trace (e # es) sp = (if lock_allowed e sp then lock_trace es (lock_next e sp) else None)"

lemma lock_trace_append: "lock_trace (es @ fs) sp = Option.bind (lock_trace es sp) (lock_trace fs)"
  by (induction es arbitrary: sp) auto

text \<open>The state implements the automaton: a session whose holder went stays locked.\<close>

definition lock_abs :: "('l, 'o, 's) lock_world \<Rightarrow> 'l set \<Rightarrow> ('l, 'o, 's) lock_spec \<Rightarrow> bool" where
  "lock_abs w used sp \<longleftrightarrow>
     (lw_status w = Unlocked \<longleftrightarrow> sp_holder sp = None) \<and> (\<forall>l. lw_status w = Locked l \<longrightarrow> sp_holder sp = Some l) \<and>
     sp_asked sp = used \<and> lw_alive w \<subseteq> used \<and> lw_lockers w = sp_asked sp - sp_answered sp \<and>
     sp_answered sp \<subseteq> sp_asked sp \<and> sp_refused sp \<subseteq> sp_answered sp \<and>
     (\<forall>l\<in>used. lw_done w l \<longleftrightarrow> l \<in> sp_refused sp) \<and>
     (\<forall>l out. (l, out) \<in> sp_covered sp \<longrightarrow> l \<in> used \<and> out \<in> set (lw_outputs w l))"

lemma lock_absI:
  assumes "lw_status w = Unlocked \<longleftrightarrow> sp_holder sp = None" "\<And>l. lw_status w = Locked l \<Longrightarrow> sp_holder sp = Some l"
    "sp_asked sp = used" "lw_alive w \<subseteq> used" "lw_lockers w = sp_asked sp - sp_answered sp"
    "sp_answered sp \<subseteq> sp_asked sp" "sp_refused sp \<subseteq> sp_answered sp"
    "\<And>l. l \<in> used \<Longrightarrow> lw_done w l \<longleftrightarrow> l \<in> sp_refused sp"
    "\<And>l out. (l, out) \<in> sp_covered sp \<Longrightarrow> l \<in> used \<and> out \<in> set (lw_outputs w l)"
  shows "lock_abs w used sp"
  using assms unfolding lock_abs_def by blast

lemma lock_absD:
  assumes "lock_abs w used sp"
  shows "lw_status w = Unlocked \<longleftrightarrow> sp_holder sp = None" "lw_status w = Locked l \<Longrightarrow> sp_holder sp = Some l"
    "sp_asked sp = used" "lw_alive w \<subseteq> used" "lw_lockers w = used - sp_answered sp" "sp_answered sp \<subseteq> used" "sp_refused sp \<subseteq> sp_answered sp"
    "l \<in> used \<Longrightarrow> lw_done w l \<longleftrightarrow> l \<in> sp_refused sp"
    "(l, out) \<in> sp_covered sp \<Longrightarrow> l \<in> used \<and> out \<in> set (lw_outputs w l)"
  using assms unfolding lock_abs_def by (simp_all add: subset_iff) blast+

lemma abs_request:
  assumes "lock_abs w used sp" "l \<notin> used" "lock_request l w = (w', ev)"
  shows "\<exists>sp'. lock_trace ev sp = Some sp' \<and> lock_abs w' (insert l used) sp'"
proof -
  note D = lock_absD[OF assms(1)]
  have w': "w' = fst (lock_request l w)" "ev = [Lk_asked l]" using assms(3) by (simp_all add: lock_request_def)
  have l: "l \<notin> sp_answered sp" "l \<notin> sp_refused sp" using D(6,7) assms(2) by blast+
  have "lock_abs w' (insert l used) (lock_next (Lk_asked l) sp)"
    unfolding w'(1) using D assms(2) l
    by (intro lock_absI) (auto simp: lock_request_def)
  then show ?thesis using D(3) assms(2) w'(2) by simp
qed

lemma abs_drop:
  "lock_abs w used sp \<Longrightarrow> locker_drop l w = (w', ev) \<Longrightarrow> \<exists>sp'. lock_trace ev sp = Some sp' \<and> lock_abs w' used sp'"
  unfolding lock_abs_def locker_drop_def by (auto split: if_splits)

lemma abs_lock:
  "lock_abs w used sp \<Longrightarrow> locker_lock l w = (w', ev) \<Longrightarrow> \<exists>sp'. lock_trace ev sp = Some sp' \<and> lock_abs w' used sp'"
  unfolding lock_abs_def locker_lock_def by (auto split: if_splits)

lemma abs_keeps:
  "lock_abs w used sp \<Longrightarrow> lock_abs (w\<lparr>lw_role := r\<rparr>) used sp"
  "lock_abs w used sp \<Longrightarrow> lock_abs (w\<lparr>lw_other_role := r\<rparr>) used sp"
  "lock_abs w used sp \<Longrightarrow> lock_abs (w\<lparr>lw_outputs := (lw_outputs w)(l := lw_outputs w l @ [out])\<rparr>) used sp"
  by (auto simp: lock_abs_def)

lemma abs_surface:
  assumes "lock_abs w used sp" "l \<in> lw_alive w" "get_lock_surface l s out b w = (w', ev)"
  shows "\<exists>sp'. lock_trace ev sp = Some sp' \<and> lock_abs w' used sp'"
proof -
  let ?r = "w\<lparr>lw_role := insert s (lw_role w)\<rparr>"
  let ?o = "?r\<lparr>lw_outputs := (lw_outputs ?r)(l := lw_outputs ?r l @ [out])\<rparr>"
  note D = lock_absD[OF assms(1)]
  have r: "lock_abs ?r used sp" by (rule abs_keeps(1)[OF assms(1)])
  have o: "lock_abs ?o used sp" by (rule abs_keeps(3)[OF r])
  have l: "l \<in> used" using D(4) assms(2) by blast
  have cases: "w' = w \<or> w' = ?r \<or> w' = ?o" "(\<exists>e. ev = [Lk_error l e]) \<or> ev = [] \<or>
      w' = ?o \<and> ev = [Lk_new_surface l s out] \<and> out \<notin> set (lw_outputs w l) \<and> \<not> lw_done w l"
    using assms(3) by (auto simp: get_lock_surface_def Let_def split: if_splits)
  have "lock_abs w' used sp" using cases(1) assms(1) r o by (elim disjE) simp_all
  then show ?thesis
  proof (cases "ev = [Lk_new_surface l s out]")
    case True
    then have new: "w' = ?o" "out \<notin> set (lw_outputs w l)" "\<not> lw_done w l" using cases(2) by auto
    have "l \<notin> sp_refused sp" "(l, out) \<notin> sp_covered sp" using D(8)[OF l] D(9)[of l out] new by blast+
    moreover have "lock_abs ?o used (lock_next (Lk_new_surface l s out) sp)"
      using lock_absD(1-8)[OF o] D(9) l by (intro lock_absI) auto
    ultimately show ?thesis using True new(1) D(3) l by simp
  next
    case False
    then show ?thesis using cases(2) \<open>lock_abs w' used sp\<close> by auto
  qed
qed

lemma abs_destroyed: "lock_abs w used sp \<Longrightarrow> lock_abs (lock_destroyed l w) used sp"
  unfolding lock_abs_def lock_destroyed_def is_locked_by_def by auto

lemma abs_unlock:
  "lock_abs w used sp \<Longrightarrow> unlock_and_destroy l w = (w', ev) \<Longrightarrow> \<exists>sp'. lock_trace ev sp = Some sp' \<and> lock_abs w' used sp'"
  unfolding lock_abs_def unlock_and_destroy_def lock_destroyed_def is_locked_by_def by (auto split: if_splits)

lemma abs_destroy:
  "lock_abs w used sp \<Longrightarrow> lock_destroy l w = (w', ev) \<Longrightarrow> \<exists>sp'. lock_trace ev sp = Some sp' \<and> lock_abs w' used sp'"
  using abs_destroyed[of w used sp l] unfolding lock_destroy_def by (auto split: if_splits)

lemma lock_trace_extend:
  assumes "\<exists>sp. lock_trace es s0 = Some sp \<and> A sp" "\<And>sp. A sp \<Longrightarrow> \<exists>sp'. lock_trace ev sp = Some sp' \<and> B sp'"
  shows "\<exists>sp. lock_trace (es @ ev) s0 = Some sp \<and> B sp"
proof -
  obtain sp where sp: "lock_trace es s0 = Some sp" "A sp" using assms(1) by (elim exE conjE)
  then show ?thesis using assms(2)[OF sp(2)] by (simp add: lock_trace_append)
qed

lemma lock_run_abs: "lock_run w used es \<Longrightarrow> \<exists>sp. lock_trace es lock_spec_start = Some sp \<and> lock_abs w used sp"
proof (induction rule: lock_run.induct)
  case (lk_new others)
  then show ?case by (simp add: lock_abs_def lock_manager_new_def lock_spec_start_def)
next
  case (lk_request w used es l w' ev)
  show ?case by (rule lock_trace_extend[OF lk_request.IH abs_request[OF _ lk_request.hyps(2,3)]])
next
  case (lk_drop w used es l w' ev)
  show ?case by (rule lock_trace_extend[OF lk_drop.IH abs_drop[OF _ lk_drop.hyps(2)]])
next
  case (lk_lock w used es l w' ev)
  show ?case by (rule lock_trace_extend[OF lk_lock.IH abs_lock[OF _ lk_lock.hyps(2)]])
next
  case (lk_surface w used es l s out b w' ev)
  show ?case by (rule lock_trace_extend[OF lk_surface.IH abs_surface[OF _ lk_surface.hyps(2,3)]])
next
  case (lk_unlock w used es l w' ev)
  show ?case by (rule lock_trace_extend[OF lk_unlock.IH abs_unlock[OF _ lk_unlock.hyps(3)]])
next
  case (lk_destroy w used es l w' ev)
  show ?case by (rule lock_trace_extend[OF lk_destroy.IH abs_destroy[OF _ lk_destroy.hyps(3)]])
next
  case (lk_gone w used es l)
  then show ?case using abs_destroyed[of w used _ l] by (elim exE conjE) blast
next
  case (lk_role w used es s)
  then show ?case by (simp add: lock_abs_def)
qed

text \<open>C32. Locking the session is safe: after any sequence of requests, confirmations and deaths of clients, the
  events obey the specification, so that only the lock that was confirmed last can unlock, every lock
  is answered at most once, and no lock covers an output twice or gets surfaces once it was refused; and
  the session counts as unlocked exactly when no confirmed lock is left to unlock it.\<close>

theorem session_lock_safe:
  assumes "lock_run w used es"
  shows "\<exists>sp. lock_trace es lock_spec_start = Some sp \<and> (lw_status w = Unlocked \<longleftrightarrow> sp_holder sp = None) \<and>
    (\<forall>l. lw_status w = Locked l \<longrightarrow> sp_holder sp = Some l) \<and> lw_lockers w = sp_asked sp - sp_answered sp"
proof -
  obtain sp where "lock_trace es lock_spec_start = Some sp" "lock_abs w used sp" using lock_run_abs[OF assms] by (elim exE conjE)
  then show ?thesis by (intro exI[of _ sp]) (simp add: lock_abs_def)
qed

section \<open>Examples\<close>

text \<open>A lock is confirmed and its client goes: the session stays locked, until another lock takes over and unlocks.\<close>

definition abandoned_lock :: "(nat, nat, nat) lock_world" where
  "abandoned_lock = lock_destroyed 1 (fst (locker_lock 1 (fst (lock_request 1 (lock_manager_new {})))))"

definition taken_over_lock :: "(nat, nat, nat) lock_world" where
  "taken_over_lock = fst (locker_lock 2 (fst (lock_request 2 abandoned_lock)))"

lemma abandoned_lock_run: "lock_run abandoned_lock {1} [Lk_asked 1, Lk_locked 1]"
proof -
  let ?w = "fst (lock_request (1::nat) (lock_manager_new {} :: (nat, nat, nat) lock_world))"
  have "lock_request (1::nat) (lock_manager_new {} :: (nat, nat, nat) lock_world) = (?w, [Lk_asked 1])" by (simp add: lock_request_def)
  from lk_request[OF lk_new _ this] have 1: "lock_run ?w {1} [Lk_asked 1]" by simp
  have "locker_lock (1::nat) ?w = (fst (locker_lock 1 ?w), [Lk_locked 1])" by (simp add: locker_lock_def lock_request_def)
  from lk_lock[OF 1 this] have 2: "lock_run (fst (locker_lock 1 ?w)) {1} [Lk_asked 1, Lk_locked 1]" by simp
  show ?thesis unfolding abandoned_lock_def by (rule lk_gone[OF 2]) (simp add: locker_lock_def lock_request_def)
qed

lemma taken_over_lock_run: "lock_run taken_over_lock {2, 1} [Lk_asked 1, Lk_locked 1, Lk_asked 2, Lk_locked 2]"
proof -
  let ?w = "fst (lock_request 2 abandoned_lock)"
  have "lock_request 2 abandoned_lock = (?w, [Lk_asked 2])" by (simp add: lock_request_def)
  from lk_request[OF abandoned_lock_run _ this] have 1: "lock_run ?w {2, 1} [Lk_asked 1, Lk_locked 1, Lk_asked 2]" by simp
  have "locker_lock 2 ?w = (taken_over_lock, [Lk_locked 2])" by (simp add: taken_over_lock_def locker_lock_def lock_request_def)
  from lk_lock[OF 1 this] show ?thesis by simp
qed

theorem session_lock_safe_witness: "lw_status abandoned_lock \<noteq> Unlocked \<and> lw_status taken_over_lock \<noteq> Unlocked"
  using session_lock_safe[OF abandoned_lock_run] session_lock_safe[OF taken_over_lock_run] by (simp add: lock_spec_start_def)

text \<open>
  A lock confirmed after its client went is not counted as abandoned: the state says that an object that no
  longer exists holds the session.
\<close>

theorem lock_held_by_dead_object:
  "lw_status (fst (locker_lock 1 (lock_destroyed 1 (fst (lock_request (1::nat) (lock_manager_new {})))))) = Locked 1 \<and>
   1 \<notin> lw_alive (fst (locker_lock 1 (lock_destroyed 1 (fst (lock_request (1::nat) (lock_manager_new {}))))))"
  by (simp add: lock_request_def locker_lock_def lock_destroyed_def lock_manager_new_def is_locked_by_def)

end
