(* ===== verification/Spec2Isabelle.thy ===== *)
theory Spec2Isabelle
  imports Compositor Outputs Tracker_Props Effects Shaper_Disjoint Shm Swapchain_Run Xdg_Run Xdg_Parents Fifo Commit_Timing Keyboard_Run Implicit_Grab Layer_Maps Space_Draw Dmabuf_Params Dmabuf_Bind Dmabuf_Objects Session_Lock
begin

text \<open>
  A model of the core of Smithay, a library of building blocks for Wayland compositors, and the properties
  that make it correct.

  \<^bold>\<open>The program.\<close> Clients create surfaces, give them roles and commit states to them
  (\<open>src/wayland/compositor\<close>, \<open>src/wayland/shell\<close>, \<open>src/wayland/fifo\<close>, \<open>src/wayland/commit_timing\<close>); the buffers
  they attach come from shared memory or dmabufs (\<open>src/wayland/shm\<close>, \<open>src/wayland/dmabuf\<close>). The compositor
  arranges windows and layers on outputs (\<open>src/desktop\<close>, \<open>src/output.rs\<close>), renders what changed into the buffers
  of a swapchain (\<open>src/backend/renderer/damage\<close>, \<open>src/backend/allocator/swapchain.rs\<close>) and sends input to the
  focused client (\<open>src/input\<close>). All coordinates go through \<open>src/utils/geometry.rs\<close>.

  \<^bold>\<open>Conventions.\<close> A struct is a record, an enum a datatype. An \<open>i32\<close> is an \<open>int\<close> with the checked, wrapping or
  saturating operation of the code written out (\<open>Prelude\<close>); an unsigned integer is a word; \<open>f64\<close> is an exact
  rational that every operation rounds (\<open>Floats\<close>). A result of \<open>None\<close> is a panic or a call that does not return,
  an error is a value of a sum. State that is shared through reference counts is a heap (\<open>Swapchain\<close>,
  \<open>Transactions\<close>) or named by identifiers. What a client is sent, and what a handler of the compositor is told,
  is a log in the state. Code outside the library is an argument: the handlers of the compositor, libxkbcommon,
  allocators, the order in which hash maps are iterated and unstable sorts order equal keys, and grabs.

  \<^bold>\<open>Geometry and identifiers.\<close> \<open>Geometry\<close>, \<open>Floats\<close> and \<open>Transforms\<close> model points, sizes, rectangles, conversions
  and output transforms; \<open>Pixels\<close> gives rectangles their meaning as sets of pixels, and \<open>Subtract_Disjoint\<close> that
  the subtraction loop splits without overlap. \<open>Serials\<close> has the serial numbers and the supply of identifiers.

  \<^bold>\<open>Surfaces.\<close> \<open>Cache\<close> has the double-buffered states of a surface, with one locale \<open>cacheable\<close> for every type
  that is cached and the accounting of buffers; \<open>Transactions\<close> the shared transactions, the queue of a client and
  its blockers; \<open>Surface_Tree\<close> and \<open>Tree_Props\<close> the tree of subsurfaces, restacking and traversals; \<open>Compositor\<close>
  the requests and the commit of synchronised and desynchronised surfaces. \<open>Fifo\<close> and \<open>Commit_Timing\<close> are two
  sources of blockers. The lemmas show that no committed state is lost, that transactions keep their order, and
  that the tree stays a forest on which every walk ends.

  \<^bold>\<open>Roles.\<close> \<open>Positioner\<close>, \<open>Xdg_Role\<close> and \<open>Xdg_Run\<close> model popups and toplevels with the configure and acknowledge
  protocol, \<open>Xdg_Parents\<close> the parents of toplevels and foreign parents with the mutexes that are held, \<open>Layer_Role\<close>
  and \<open>Layer_Client\<close> layer surfaces. A commit runs the hook of its role first and takes place whatever the hook
  answers; a client that was sent a protocol error makes no further request. \<open>Session_Lock\<close> locks the session.

  \<^bold>\<open>Outputs and the desktop.\<close> \<open>Outputs\<close> keeps the objects of an output and what clients were told of it;
  \<open>Layer_Map\<close>, \<open>Layer_Zone\<close>, \<open>Layer_Arrange\<close> and \<open>Layer_Maps\<close> arrange layer surfaces against a reference that adds
  up the reserved strips; \<open>Space\<close>, \<open>Space_Stack\<close>, \<open>Space_Outputs\<close> and \<open>Space_Draw\<close> are the plane of windows as one
  stack for each z-index, the overlaps told to elements, and what is drawn.

  \<^bold>\<open>Rendering.\<close> \<open>Damage\<close> models the damage history of a buffer (locale \<open>damage_log\<close>), \<open>Shaper\<close> and \<open>Shaper_Disjoint\<close>
  the shaping of damage, \<open>Tracker\<close> the output damage tracker. \<open>Painting\<close> and \<open>Rendering\<close> give drawing commands a
  meaning for each pixel (locale \<open>painted_elements\<close>, interpreted for the elements of one colour in \<open>Solid\<close>),
  \<open>Tracker_Run\<close> and \<open>Tracker_Props\<close> follow whole runs, \<open>Effects\<close> framebuffer effects. \<open>Swapchain\<close> and
  \<open>Swapchain_Run\<close> add the ages of buffers. The runs that show the scene are over elements with different ids,
  without effects and at one scale; \<open>Tracker_Props\<close> also shows what goes wrong with several instances of an id.

  \<^bold>\<open>Buffers.\<close> \<open>Formats\<close> has the table of pixel formats, \<open>Shm\<close> pools and buffers of shared memory, \<open>Dmabuf_Params\<close>
  the validation of planes, \<open>Dmabuf_Feedback\<close>, \<open>Dmabuf_Objects\<close> and \<open>Dmabuf_Bind\<close> the formats a client is told.

  \<^bold>\<open>Input.\<close> \<open>Focus\<close> states once what clients see of a device, that a target is sent events only between an enter
  and a leave (locale \<open>focus_device\<close>); \<open>Keyboard\<close>, \<open>Keyboard_Props\<close>, \<open>Keyboard_Run\<close>, \<open>Pointer\<close>, \<open>Pointer_Props\<close>
  and \<open>Implicit_Grab\<close> interpret it and follow pressed keys and buttons. The views of a keyboard's client are those
  of a \<open>wl_keyboard\<close> that exists before the focus enters; \<open>new_kbd\<close> models the other case.

  \<^bold>\<open>Bounds and fuel.\<close> The recursions into a tree of surfaces take a depth bound and return \<open>None\<close> beyond it; the
  number of surfaces with a parent, plus one where a leaf still needs a call, is enough for any tree of the
  invariant, so no walk is cut short. \<open>parent_loop\<close> is a partial function that is proved to return. Loops over
  damage and over queues recurse on lists and need no bound. Coordinates are bounded where a property says so, by
  \<open>small_rect\<close>, \<open>small_positioner\<close>, \<open>output_ok\<close> or \<open>box_ok\<close>: within them no operation saturates.

  \<^bold>\<open>Not modelled.\<close> Bindings of the kernel, EGL, OpenGL, Vulkan, pixman, libinput and X11, the backends built on them,
  Xwayland, clipboards and drag and drop, touch and tablets, image capture, and the registration of globals. Where
  the code and its documentation disagree, or where it goes wrong, a theorem next to the model shows the behaviour.
\<close>

end
